(* ===== verification/Prelude.thy ===== *)
theory Prelude
  imports Main "HOL-Library.List_Lexorder" "HOL-Library.Char_ord" "HOL-Library.Sublist"
begin

text \<open>
  Shared vocabulary of the development: the model's names for the JavaScript values the
  packages exchange (DIDs, optional fields, sets built from arrays), the few standard-library
  operations the sources use on them, and the generic lemmas that the component theories share.

  Strings are lists of \<^typ>\<open>char\<close>, so the model covers texts whose code units are below 256;
  the order on strings is the lexicographic order of code units, which is what JavaScript's
  \<open><\<close> and \<open>Array.prototype.sort\<close> without a comparator use. An optional field
  (\<open>undefined\<close>, \<open>null\<close> or absent) is an \<^typ>\<open>'a option\<close>. Numbers are integers.
\<close>

section \<open>Names and values\<close>

type_synonym did = string

named_theorems js_simps \<open>facts about the JavaScript primitives of the prelude\<close>
named_theorems narrowing \<open>introduction rules of the attenuation orders\<close>

text \<open>The truth value of an optional string: absent and empty strings are falsy.\<close>

fun truthy_string :: "string option \<Rightarrow> bool" where
  "truthy_string None = False"
| "truthy_string (Some s) = (s \<noteq> [])"

text \<open>\<open>verificationMethod.split('#')[0]\<close>: the DID before the key fragment.\<close>

definition before_hash :: "string \<Rightarrow> did" where
  "before_hash s = takeWhile (\<lambda>c. c \<noteq> CHR ''#'') s"

text \<open>\<open>[...new Set(xs)]\<close>: the first occurrence of every element, in order.\<close>

definition js_set :: "'a list \<Rightarrow> 'a list" where
  "js_set xs = rev (remdups (rev xs))"

text \<open>\<open>xs.join(sep)\<close>.\<close>

fun join :: "string \<Rightarrow> string list \<Rightarrow> string" where
  "join sep [] = []"
| "join sep [x] = x"
| "join sep (x # y # xs) = x @ sep @ join sep (y # xs)"

text \<open>\<open>xs.indexOf(x)\<close>, with \<open>-1\<close> as \<^const>\<open>None\<close>.\<close>

fun index_of :: "'a list \<Rightarrow> 'a \<Rightarrow> nat option" where
  "index_of [] x = None"
| "index_of (y # ys) x = (if y = x then Some 0 else map_option Suc (index_of ys x))"

text \<open>\<open>xs ?? []\<close>.\<close>

definition opt_list :: "'a list option \<Rightarrow> 'a list" where
  "opt_list xs = (case xs of Some ys \<Rightarrow> ys | None \<Rightarrow> [])"

section \<open>Facts about the primitives\<close>

lemma truthy_string_iff [js_simps]: "truthy_string s \<longleftrightarrow> (\<exists>c cs. s = Some (c # cs))"
  by (cases s) (auto simp: neq_Nil_conv)

lemma set_js_set [simp, js_simps]: "set (js_set xs) = set xs"
  by (simp add: js_set_def)

lemma distinct_js_set [simp, js_simps]: "distinct (js_set xs)"
  by (simp add: js_set_def)

lemma js_set_distinct [js_simps]: "distinct xs \<Longrightarrow> js_set xs = xs"
  by (simp add: js_set_def distinct_remdups_id)

lemma sort_js_set_eq_iff [js_simps]: "sort (js_set xs) = sort (js_set ys) \<longleftrightarrow> set xs = set ys"
  for xs ys :: "'a::linorder list"
proof
  assume "sort (js_set xs) = sort (js_set ys)"
  then have "set (sort (js_set xs)) = set (sort (js_set ys))" by simp
  then show "set xs = set ys" by simp
next
  assume eq: "set xs = set ys"
  show "sort (js_set xs) = sort (js_set ys)"
    by (rule sorted_distinct_set_unique) (simp_all add: eq)
qed

lemma sort_key_eq_Nil [simp]: "sort_key f xs = [] \<longleftrightarrow> xs = []"
  by (metis length_0_conv length_sort)

lemma index_of_Some [js_simps]: "index_of xs x = Some i \<Longrightarrow> i < length xs \<and> xs ! i = x"
  by (induction xs arbitrary: i) (auto split: if_splits)

lemma index_of_None [js_simps]: "index_of xs x = None \<longleftrightarrow> x \<notin> set xs"
  by (induction xs) auto

lemma before_hash_no_hash [simp]: "CHR ''#'' \<notin> set (before_hash s)"
  by (auto simp: before_hash_def dest: set_takeWhileD)

section \<open>Options as early returns\<close>

text \<open>
  A handler of the sources is a sequence of guards, each of which returns early. Here a guard is
  an optional verdict, and the first verdict wins.
\<close>

fun first_some :: "'a option list \<Rightarrow> 'a option" where
  "first_some [] = None"
| "first_some (None # xs) = first_some xs"
| "first_some (Some x # xs) = Some x"

definition guard :: "bool \<Rightarrow> 'a \<Rightarrow> 'a option" where
  "guard b x = (if b then None else Some x)"

lemma guard_None [simp]: "guard b x = None \<longleftrightarrow> b"
  by (simp add: guard_def)

lemma guard_Some [simp]: "guard b x = Some y \<longleftrightarrow> \<not> b \<and> x = y"
  by (auto simp: guard_def)

lemma first_some_None [simp]: "first_some xs = None \<longleftrightarrow> list_all (\<lambda>x. x = None) xs"
  by (induction xs rule: first_some.induct) auto

lemma first_some_Some_in: "first_some xs = Some y \<Longrightarrow> Some y \<in> set xs"
  by (induction xs rule: first_some.induct) auto

section \<open>Adjacent pairs of a list\<close>

text \<open>\<open>adjacent R xs\<close>: every element is related to the next one.\<close>

fun adjacent :: "('a \<Rightarrow> 'a \<Rightarrow> bool) \<Rightarrow> 'a list \<Rightarrow> bool" where
  "adjacent R [] = True"
| "adjacent R [x] = True"
| "adjacent R (x # y # xs) = (R x y \<and> adjacent R (y # xs))"

lemma adjacent_Cons: "adjacent R (x # xs) \<longleftrightarrow> (case xs of [] \<Rightarrow> True | y # _ \<Rightarrow> R x y \<and> adjacent R xs)"
  by (cases xs) auto

lemma adjacent_nth: "adjacent R xs \<longleftrightarrow> (\<forall>i. Suc i < length xs \<longrightarrow> R (xs ! i) (xs ! Suc i))"
proof (induction R xs rule: adjacent.induct)
  case (3 R x y xs)
  then show ?case by (auto simp: less_Suc_eq_0_disj nth_Cons split: nat.splits)
qed auto

lemma adjacent_mono: "adjacent R xs \<Longrightarrow> (\<And>x y. R x y \<Longrightarrow> S x y) \<Longrightarrow> adjacent S xs"
  by (induction R xs rule: adjacent.induct) auto

lemma adjacent_transp_all:
  assumes "transp R" and "adjacent R (x # xs)" and "y \<in> set xs"
  shows "R x y"
  using assms(2,3)
proof (induction xs arbitrary: x)
  case (Cons z zs)
  then have "R x z" and "adjacent R (z # zs)" by auto
  with Cons show ?case using transpD [OF assms(1)] by auto
qed simp


text \<open>An adjacent equality is an equality with the last element, and an adjacent difference of one
  is the distance to it.\<close>

lemma adjacent_const: "adjacent (\<lambda>a b. f a = f b) xs \<Longrightarrow> x \<in> set xs \<Longrightarrow> f x = f (last xs)"
proof (induction xs arbitrary: x)
  case (Cons a xs)
  show ?case
  proof (cases xs)
    case (Cons b ys)
    with Cons.prems have "adjacent (\<lambda>a b. f a = f b) xs" "f a = f b" by auto
    with Cons.IH [of b] Cons.IH [of x] Cons.prems Cons show ?thesis by fastforce
  qed (use Cons.prems in simp)
qed simp

lemma adjacent_count:
  fixes g :: "'a \<Rightarrow> int"
  shows "adjacent (\<lambda>a b. g a = g b + 1) xs \<Longrightarrow> j < length xs \<Longrightarrow>
    g (xs ! j) = g (last xs) + int (length xs) - 1 - int j"
proof (induction xs arbitrary: j)
  case (Cons a xs)
  show ?case
  proof (cases xs)
    case Nil
    with Cons.prems show ?thesis by simp
  next
    case (Cons b ys)
    with Cons.IH [of "j - 1"] Cons.IH [of 0] Cons.prems show ?thesis
      by (cases j) auto
  qed
qed simp

end
