(* ===== verification/Canonical_Json.thy ===== *)
theory Canonical_Json
  imports Prelude
begin

text \<open>
  Canonical JSON: the \<open>canonicalize\<close> function of \<open>packages/core/src/attenuation.ts\<close>, the
  byte-exact form every commitment and digest of the system is computed over. A JSON value is a
  datatype; an object is its list of fields in insertion order, with distinct keys. Values that
  JSON has no form for (\<open>undefined\<close>, functions) are \<open>JUnsupported\<close>, on which the code throws.

  The main result is that the canonical text determines the value up to the order of object
  fields. It carries the binding properties of the commitments, and is independent of the hash.
\<close>

section \<open>Values\<close>

datatype json =
    JNull
  | JBool bool
  | JNum int
  | JStr string
  | JArr "json list"
  | JObj "(string \<times> json) list"
  | JUnsupported

section \<open>Rendering of numbers and strings\<close>

text \<open>\<open>JSON.stringify\<close> of an integer in the exactly representable range: its decimal digits.\<close>

definition digit :: "nat \<Rightarrow> char" where
  "digit n = char_of (48 + n)"

fun nat_str :: "nat \<Rightarrow> string" where
  "nat_str n = (if n < 10 then [digit n] else nat_str (n div 10) @ [digit (n mod 10)])"

declare nat_str.simps [simp del]

definition int_str :: "int \<Rightarrow> string" where
  "int_str i = (if i < 0 then CHR ''-'' # nat_str (nat (- i)) else nat_str (nat i))"

text \<open>\<open>JSON.stringify\<close> of a string: the two-character escapes, \<open>\u00XX\<close> for the other control
  characters, every other code unit as it is.\<close>

definition hex_digit :: "nat \<Rightarrow> char" where
  "hex_digit n = (if n < 10 then char_of (48 + n) else char_of (87 + n))"

definition QUOTE :: char where "QUOTE = CHR 0x22"
definition BACKSLASH :: char where "BACKSLASH = CHR 0x5C"

definition esc_char :: "char \<Rightarrow> string" where
  "esc_char c =
     (if c = QUOTE \<or> c = BACKSLASH then [BACKSLASH, c]
      else if c = CHR 0x08 then [BACKSLASH, CHR ''b'']
      else if c = CHR 0x09 then [BACKSLASH, CHR ''t'']
      else if c = CHR 0x0A then [BACKSLASH, CHR ''n'']
      else if c = CHR 0x0C then [BACKSLASH, CHR ''f'']
      else if c = CHR 0x0D then [BACKSLASH, CHR ''r'']
      else if (of_char c :: nat) < 32 then
        [BACKSLASH, CHR ''u'', CHR ''0'', CHR ''0'',
         hex_digit (of_char c div 16), hex_digit (of_char c mod 16)]
      else [c])"

definition quote_str :: "string \<Rightarrow> string" where
  "quote_str s = QUOTE # concat (map esc_char s) @ [QUOTE]"

section \<open>The canonical text\<close>

definition field_str :: "string \<times> string \<Rightarrow> string" where
  "field_str kv = quote_str (fst kv) @ '':'' @ snd kv"

text \<open>\<^const>\<open>None\<close> is the thrown error \<open>canonicalize: unsupported value type\<close>.\<close>

fun canonicalize :: "json \<Rightarrow> string option" where
  "canonicalize JNull = Some ''null''"
| "canonicalize (JBool b) = Some (if b then ''true'' else ''false'')"
| "canonicalize (JNum n) = Some (int_str n)"
| "canonicalize (JStr s) = Some (quote_str s)"
| "canonicalize (JArr vs) =
     map_option (\<lambda>ss. ''['' @ join '','' ss @ '']'') (those (map canonicalize vs))"
| "canonicalize (JObj fs) =
     map_option (\<lambda>es. ''{'' @ join '','' (map field_str (sort_key fst es)) @ ''}'')
       (those (map (\<lambda>(k, v). map_option (\<lambda>s. (k, s)) (canonicalize v)) fs))"
| "canonicalize JUnsupported = None"

text \<open>The value with its object fields sorted, recursively: what the text determines.\<close>

fun sort_fields :: "json \<Rightarrow> json" where
  "sort_fields (JArr vs) = JArr (map sort_fields vs)"
| "sort_fields (JObj fs) = JObj (sort_key fst (map (\<lambda>(k, v). (k, sort_fields v)) fs))"
| "sort_fields v = v"

text \<open>Objects have distinct keys, as every JavaScript object does.\<close>

fun json_wf :: "json \<Rightarrow> bool" where
  "json_wf (JArr vs) = (\<forall>v \<in> set vs. json_wf v)"
| "json_wf (JObj fs) = (distinct (map fst fs) \<and> (\<forall>f \<in> set fs. json_wf (snd f)))"
| "json_wf _ = True"

fun supported :: "json \<Rightarrow> bool" where
  "supported (JArr vs) = (\<forall>v \<in> set vs. supported v)"
| "supported (JObj fs) = (\<forall>f \<in> set fs. supported (snd f))"
| "supported JUnsupported = False"
| "supported _ = True"


section \<open>Unique readability of numbers\<close>

definition is_digit :: "char \<Rightarrow> bool" where
  "is_digit c \<longleftrightarrow> 48 \<le> (of_char c :: nat) \<and> (of_char c :: nat) \<le> 57"

text \<open>What may follow a value: anything but a digit, which could extend a number.\<close>

definition delimits :: "string \<Rightarrow> bool" where
  "delimits r \<longleftrightarrow> r = [] \<or> \<not> is_digit (hd r)"

definition digits_value :: "string \<Rightarrow> nat" where
  "digits_value s = foldl (\<lambda>a c. 10 * a + (of_char c - 48)) 0 s"

lemma of_char_digit: "n < 10 \<Longrightarrow> (of_char (digit n) :: nat) = 48 + n"
  by (simp add: digit_def)

lemma nat_str_digits: "c \<in> set (nat_str n) \<Longrightarrow> is_digit c"
proof (induction n rule: nat_str.induct)
  case (1 n)
  show ?case
  proof (cases "n < 10")
    case True
    with 1 show ?thesis by (simp add: nat_str.simps [of n] is_digit_def of_char_digit)
  next
    case False
    with 1 show ?thesis
      by (auto simp: nat_str.simps [of n] is_digit_def of_char_digit)
  qed
qed

lemma nat_str_nonempty: "nat_str n \<noteq> []"
  by (simp add: nat_str.simps [of n])

lemma digits_value_nat_str: "digits_value (nat_str n) = n"
proof (induction n rule: nat_str.induct)
  case (1 n)
  show ?case
  proof (cases "n < 10")
    case True
    then show ?thesis by (simp add: nat_str.simps [of n] digits_value_def of_char_digit)
  next
    case False
    with 1 have "digits_value (nat_str (n div 10)) = n div 10" by simp
    then have "digits_value (nat_str n) = 10 * (n div 10) + n mod 10"
      using False by (simp add: nat_str.simps [of n] digits_value_def of_char_digit)
    then show ?thesis by simp
  qed
qed

lemma digits_prefix_unique:
  assumes "a @ r = b @ r'" "delimits r" "delimits r'"
    and "\<forall>c \<in> set a. is_digit c" "\<forall>c \<in> set b. is_digit c"
  shows "a = b \<and> r = r'"
proof -
  have a: "takeWhile is_digit (a @ r) = a"
    using assms(2,4) by (cases r) (auto simp: delimits_def takeWhile_append)
  have b: "takeWhile is_digit (b @ r') = b"
    using assms(3,5) by (cases r') (auto simp: delimits_def takeWhile_append)
  from a b assms(1) show ?thesis by auto
qed

lemma nat_str_unique:
  assumes "nat_str n @ r = nat_str m @ r'" "delimits r" "delimits r'"
  shows "n = m \<and> r = r'"
  using digits_prefix_unique [OF assms] nat_str_digits digits_value_nat_str by metis

lemma int_str_unique:
  assumes "int_str i @ r = int_str j @ r'" "delimits r" "delimits r'"
  shows "i = j \<and> r = r'"
proof -
  have no_sign: "nat_str k @ s \<noteq> CHR ''-'' # t" for k s t
  proof
    assume "nat_str k @ s = CHR ''-'' # t"
    then have "CHR ''-'' \<in> set (nat_str k)"
      using nat_str_nonempty [of k] by (cases "nat_str k") auto
    then show False using nat_str_digits [of "CHR ''-''" k] by (simp add: is_digit_def)
  qed
  consider "i < 0" "j < 0" | "i < 0" "\<not> j < 0" | "\<not> i < 0" "j < 0" | "\<not> i < 0" "\<not> j < 0" by blast
  then show ?thesis
  proof cases
    case 1
    with assms(1) have "nat_str (nat (- i)) @ r = nat_str (nat (- j)) @ r'" by (simp add: int_str_def)
    from nat_str_unique [OF this assms(2,3)] 1 show ?thesis by (simp add: eq_nat_nat_iff)
  next
    case 2
    with assms(1) no_sign [of "nat j" r', symmetric] show ?thesis by (simp add: int_str_def)
  next
    case 3
    with assms(1) no_sign [of "nat i" r] show ?thesis by (simp add: int_str_def)
  next
    case 4
    with assms(1) have "nat_str (nat i) @ r = nat_str (nat j) @ r'" by (simp add: int_str_def)
    from nat_str_unique [OF this assms(2,3)] 4 show ?thesis by (simp add: eq_nat_nat_iff)
  qed
qed

section \<open>Unique readability of strings\<close>

lemma hex_digit_inj: "hex_digit a = hex_digit b \<Longrightarrow> a < 16 \<Longrightarrow> b < 16 \<Longrightarrow> a = b"
proof -
  assume "hex_digit a = hex_digit b" "a < 16" "b < 16"
  then have "(of_char (hex_digit a) :: nat) = of_char (hex_digit b)" by simp
  with \<open>a < 16\<close> \<open>b < 16\<close> show "a = b"
    by (auto simp: hex_digit_def split: if_splits)
qed

lemma low_char_inj:
  assumes "(of_char c :: nat) < 32" "(of_char d :: nat) < 32"
    and "hex_digit (of_char c div 16) = hex_digit (of_char d div 16)"
    and "hex_digit (of_char c mod 16) = hex_digit (of_char d mod 16)"
  shows "c = d"
proof -
  have "(of_char c :: nat) div 16 = of_char d div 16"
    using assms by (intro hex_digit_inj) auto
  moreover have "(of_char c :: nat) mod 16 = of_char d mod 16"
    using assms(4) by (intro hex_digit_inj) auto
  ultimately have "(of_char c :: nat) = of_char d"
    by (metis div_mult_mod_eq)
  then show ?thesis by simp
qed

lemma esc_char_unique: "esc_char c @ r = esc_char d @ r' \<Longrightarrow> c = d \<and> r = r'"
  by (auto simp: esc_char_def QUOTE_def BACKSLASH_def split: if_splits dest: low_char_inj)

lemma esc_char_first: "\<exists>x xs. esc_char c = x # xs \<and> x \<noteq> QUOTE"
  by (simp add: esc_char_def BACKSLASH_def QUOTE_def)

lemma escaped_unique:
  "concat (map esc_char s) @ QUOTE # r = concat (map esc_char t) @ QUOTE # r' \<Longrightarrow> s = t \<and> r = r'"
proof (induction s arbitrary: t)
  case Nil
  then show ?case
  proof (cases t)
    case (Cons d t')
    with Nil esc_char_first [of d] show ?thesis by auto
  qed simp
next
  case (Cons c s)
  show ?case
  proof (cases t)
    case Nil
    with Cons.prems esc_char_first [of c] show ?thesis by auto
  next
    case (Cons d t')
    with Cons.prems have "esc_char c @ (concat (map esc_char s) @ QUOTE # r)
        = esc_char d @ (concat (map esc_char t') @ QUOTE # r')"
      by simp
    from esc_char_unique [OF this] Cons.IH [of t'] Cons show ?thesis by simp
  qed
qed

lemma quote_str_unique: "quote_str s @ r = quote_str t @ r' \<Longrightarrow> s = t \<and> r = r'"
  using escaped_unique [of s r t r'] by (simp add: quote_str_def)


section \<open>Unique readability of values\<close>

text \<open>The values whose object fields are already sorted: the normal forms.\<close>

fun canon :: "json \<Rightarrow> bool" where
  "canon (JArr vs) = (\<forall>v \<in> set vs. canon v)"
| "canon (JObj fs) =
     (sorted (map fst fs) \<and> distinct (map fst fs) \<and> (\<forall>f \<in> set fs. canon (snd f)))"
| "canon _ = True"

text \<open>An element \<open>x\<close> is read uniquely by the rendering \<open>E\<close> among the elements satisfying \<open>C\<close>.\<close>

definition read_uniquely :: "('a \<Rightarrow> string option) \<Rightarrow> ('a \<Rightarrow> bool) \<Rightarrow> 'a \<Rightarrow> bool" where
  "read_uniquely E C x \<longleftrightarrow>
     (\<forall>y s t r r'. C y \<longrightarrow> E x = Some s \<longrightarrow> E y = Some t \<longrightarrow> s @ r = t @ r' \<longrightarrow>
        delimits r \<longrightarrow> delimits r' \<longrightarrow> x = y \<and> r = r')"

lemma read_uniquelyD:
  assumes "read_uniquely E C x" "C y" "E x = Some s" "E y = Some t" "s @ r = t @ r'"
    "delimits r" "delimits r'"
  shows "x = y \<and> r = r'"
  using assms unfolding read_uniquely_def by blast

lemma join_Cons: "join [c] (x # xs) = x @ concat (map (Cons c) xs)"
  by (induction xs arbitrary: x) auto

lemma delimits_tail:
  "\<not> is_digit close \<Longrightarrow> delimits (concat (map (Cons CHR '','') ss) @ close # r)"
  by (cases ss) (auto simp: delimits_def is_digit_def)

lemma tail_unique:
  assumes "\<forall>x \<in> set xs. read_uniquely E C x" "\<forall>y \<in> set ys. C y"
    and "those (map E xs) = Some ss" "those (map E ys) = Some ts"
    and "close \<noteq> CHR '',''" "\<not> is_digit close"
    and "concat (map (Cons CHR '','') ss) @ close # r = concat (map (Cons CHR '','') ts) @ close # r'"
  shows "xs = ys \<and> r = r'"
  using assms
proof (induction xs arbitrary: ys ss ts)
  case Nil
  then show ?case by (cases ys) (auto split: option.splits)
next
  case (Cons x xs)
  from Cons.prems(3) obtain s ss' where s: "E x = Some s" "those (map E xs) = Some ss'" "ss = s # ss'"
    by (auto split: option.splits)
  with Cons.prems(4,5,7) obtain y ys' t ts'
    where y: "ys = y # ys'" "E y = Some t" "those (map E ys') = Some ts'" "ts = t # ts'"
    by (cases ys) (auto split: option.splits)
  let ?q = "concat (map (Cons CHR '','') ss') @ close # r"
  let ?q' = "concat (map (Cons CHR '','') ts') @ close # r'"
  have "s @ ?q = t @ ?q'" using Cons.prems(7) s y by simp
  then have "x = y \<and> ?q = ?q'"
    using read_uniquelyD [of E C x y s t ?q ?q'] Cons.prems s y delimits_tail by simp
  with Cons.IH [of ys' ss' ts'] Cons.prems s y show ?case by simp
qed

lemma sequence_unique:
  assumes xs: "\<forall>x \<in> set xs. read_uniquely E C x" and ys: "\<forall>y \<in> set ys. C y"
    and ss: "those (map E xs) = Some ss" and ts: "those (map E ys) = Some ts"
    and close: "close \<noteq> CHR '',''" "\<not> is_digit close"
    and first: "\<And>y t. E y = Some t \<Longrightarrow> \<exists>c cs. t = c # cs \<and> c \<noteq> close"
    and eq: "join '','' ss @ close # r = join '','' ts @ close # r'"
  shows "xs = ys \<and> r = r'"
proof (cases xs)
  case Nil
  then have "ss = []" using ss by simp
  moreover have "ys = []"
  proof (cases ys)
    case (Cons y ys')
    then obtain t ts' where "E y = Some t" "ts = t # ts'" using ts by (auto split: option.splits)
    with first [of y t] eq \<open>ss = []\<close> show ?thesis by (auto simp: join_Cons)
  qed
  ultimately show ?thesis using Nil ts eq by simp
next
  case (Cons x xs')
  then obtain s ss' where s: "E x = Some s" "those (map E xs') = Some ss'" "ss = s # ss'"
    using ss by (auto split: option.splits)
  then obtain y ys' t ts' where y: "ys = y # ys'" "E y = Some t" "those (map E ys') = Some ts'" "ts = t # ts'"
    using ts eq first [of x s] by (cases ys) (auto simp: join_Cons split: option.splits)
  let ?q = "concat (map (Cons CHR '','') ss') @ close # r"
  let ?q' = "concat (map (Cons CHR '','') ts') @ close # r'"
  have "s @ ?q = t @ ?q'" using eq s y by (simp add: join_Cons)
  then have "x = y \<and> ?q = ?q'"
    using read_uniquelyD [of E C x y s t ?q ?q'] xs ys Cons s y delimits_tail close by simp
  with tail_unique [of xs' E C ys' ss' ts' close r r'] xs ys Cons s y close show ?thesis by simp
qed

definition render_field :: "string \<times> json \<Rightarrow> string option" where
  "render_field f = map_option (\<lambda>s. field_str (fst f, s)) (canonicalize (snd f))"

fun head_char :: "json \<Rightarrow> char \<Rightarrow> bool" where
  "head_char JNull c = (c = CHR ''n'')"
| "head_char (JBool b) c = (c = CHR ''t'' \<or> c = CHR ''f'')"
| "head_char (JNum n) c = (c = CHR ''-'' \<or> is_digit c)"
| "head_char (JStr s) c = (c = QUOTE)"
| "head_char (JArr vs) c = (c = CHR ''['')"
| "head_char (JObj fs) c = (c = CHR ''{'')"
| "head_char JUnsupported c = False"

lemma canonicalize_head: "canonicalize v = Some t \<Longrightarrow> \<exists>c cs. t = c # cs \<and> head_char v c"
proof (cases v)
  case (JNum n)
  assume "canonicalize v = Some t"
  with JNum nat_str_nonempty nat_str_digits show ?thesis
    by (auto simp: int_str_def neq_Nil_conv split: if_splits) (metis list.set_intros(1) neq_Nil_conv)
qed (auto simp: quote_str_def split: if_splits)

lemma canonicalize_first:
  "canonicalize v = Some t \<Longrightarrow> \<exists>c cs. t = c # cs \<and> c \<noteq> CHR '']'' \<and> c \<noteq> CHR ''}''"
  using canonicalize_head [of v t] by (cases v) (auto simp: is_digit_def QUOTE_def)

lemma head_char_shape:
  "head_char v c \<Longrightarrow> head_char w c \<Longrightarrow>
     (case v of JNull \<Rightarrow> w = JNull | JBool _ \<Rightarrow> \<exists>b. w = JBool b | JNum _ \<Rightarrow> \<exists>n. w = JNum n
      | JStr _ \<Rightarrow> \<exists>s. w = JStr s | JArr _ \<Rightarrow> \<exists>vs. w = JArr vs | JObj _ \<Rightarrow> \<exists>fs. w = JObj fs
      | JUnsupported \<Rightarrow> False)"
  by (cases v; cases w) (auto simp: is_digit_def QUOTE_def)

text \<open>Two texts with a common beginning are texts of values with the same constructor.\<close>

lemma canonicalize_shape:
  assumes "canonicalize v = Some s" "canonicalize w = Some t" "s @ r = t @ r'"
  shows "case v of JNull \<Rightarrow> w = JNull | JBool _ \<Rightarrow> \<exists>b. w = JBool b | JNum _ \<Rightarrow> \<exists>n. w = JNum n
      | JStr _ \<Rightarrow> \<exists>s. w = JStr s | JArr _ \<Rightarrow> \<exists>vs. w = JArr vs | JObj _ \<Rightarrow> \<exists>fs. w = JObj fs
      | JUnsupported \<Rightarrow> False"
  using canonicalize_head [OF assms(1)] canonicalize_head [OF assms(2)] assms(3)
  by (auto intro: head_char_shape)

lemma those_fields:
  assumes "those (map (\<lambda>(k, v). map_option (\<lambda>s. (k, s)) (canonicalize v)) fs) = Some es"
  shows "map fst es = map fst fs \<and> those (map render_field fs) = Some (map field_str es)"
  using assms
proof (induction fs arbitrary: es)
  case (Cons f fs)
  then show ?case
    by (cases f) (auto simp: render_field_def split: option.splits)
qed simp

lemma canonicalize_canon_obj:
  assumes "canon (JObj fs)" "canonicalize (JObj fs) = Some s"
  shows "\<exists>ss. those (map render_field fs) = Some ss \<and> s = ''{'' @ join '','' ss @ ''}''"
  using assms those_fields by (fastforce simp: sort_key_id_if_sorted)

lemma read_uniquely_field:
  assumes "read_uniquely canonicalize canon v"
  shows "read_uniquely render_field (\<lambda>f. canon (snd f)) (k, v)"
  unfolding read_uniquely_def
proof (intro allI impI)
  fix f s t r r'
  assume c: "canon (snd f)" and s: "render_field (k, v) = Some s" and t: "render_field f = Some t"
    and eq: "s @ r = t @ r'" and r: "delimits r" "delimits r'"
  from s obtain s' where s': "canonicalize v = Some s'" "s = quote_str k @ CHR '':'' # s'"
    by (auto simp: render_field_def field_str_def)
  from t obtain t' where t': "canonicalize (snd f) = Some t'" "t = quote_str (fst f) @ CHR '':'' # t'"
    by (auto simp: render_field_def field_str_def)
  have "k = fst f \<and> s' @ r = t' @ r'"
    using quote_str_unique [of k "CHR '':'' # s' @ r" "fst f" "CHR '':'' # t' @ r'"] eq s' t' by simp
  with read_uniquelyD [OF assms c s'(1) t'(1) _ r] show "(k, v) = f \<and> r = r'"
    by (auto simp: prod_eq_iff)
qed

lemma read_uniquelyI:
  assumes "\<And>w s t r r'. \<lbrakk>canon w; canonicalize v = Some s; canonicalize w = Some t; s @ r = t @ r';
      delimits r; delimits r'\<rbrakk> \<Longrightarrow> v = w \<and> r = r'"
  shows "read_uniquely canonicalize canon v"
  using assms unfolding read_uniquely_def by blast

lemma read_uniquely_arr:
  assumes vs: "\<forall>v \<in> set vs. read_uniquely canonicalize canon v"
  shows "read_uniquely canonicalize canon (JArr vs)"
proof (rule read_uniquelyI)
  fix w s t r r'
  assume w: "canon w" and s: "canonicalize (JArr vs) = Some s" and t: "canonicalize w = Some t"
    and eq: "s @ r = t @ r'"
  from canonicalize_shape [OF s t eq] obtain ws where ws: "w = JArr ws" by auto
  from s obtain ss where ss: "those (map canonicalize vs) = Some ss" "s = ''['' @ join '','' ss @ '']''"
    by auto
  from t ws obtain ts where ts: "those (map canonicalize ws) = Some ts" "t = ''['' @ join '','' ts @ '']''"
    by auto
  have "vs = ws \<and> r = r'"
  proof (rule sequence_unique [OF vs _ ss(1) ts(1)])
    show "\<forall>y \<in> set ws. canon y" using w ws by simp
    show "join '','' ss @ CHR '']'' # r = join '','' ts @ CHR '']'' # r'"
      using eq ss ts by simp
    show "\<exists>c cs. t = c # cs \<and> c \<noteq> CHR '']''" if "canonicalize y = Some t" for y t
      using canonicalize_first [OF that] by blast
  qed (simp_all add: is_digit_def)
  with ws show "JArr vs = w \<and> r = r'" by simp
qed

lemma read_uniquely_obj:
  assumes c: "canon (JObj fs)" and fs: "\<forall>f \<in> set fs. read_uniquely canonicalize canon (snd f)"
  shows "read_uniquely canonicalize canon (JObj fs)"
proof (rule read_uniquelyI)
  fix w s t r r'
  assume w: "canon w" and s: "canonicalize (JObj fs) = Some s" and t: "canonicalize w = Some t"
    and eq: "s @ r = t @ r'"
  from canonicalize_shape [OF s t eq] obtain gs where gs: "w = JObj gs" by auto
  from canonicalize_canon_obj [OF c s] obtain ss
    where ss: "those (map render_field fs) = Some ss" "s = ''{'' @ join '','' ss @ ''}''" by blast
  from canonicalize_canon_obj [of gs t] w t gs obtain ts
    where ts: "those (map render_field gs) = Some ts" "t = ''{'' @ join '','' ts @ ''}''" by blast
  have "fs = gs \<and> r = r'"
  proof (rule sequence_unique [OF _ _ ss(1) ts(1)])
    show "\<forall>f \<in> set fs. read_uniquely render_field (\<lambda>f. canon (snd f)) f"
      using fs read_uniquely_field by (metis prod.collapse)
    show "\<forall>g \<in> set gs. canon (snd g)" using w gs by simp
    show "join '','' ss @ CHR ''}'' # r = join '','' ts @ CHR ''}'' # r'"
      using eq ss ts by simp
    show "\<exists>c cs. t = c # cs \<and> c \<noteq> CHR ''}''" if "render_field f = Some t" for f t
      using that by (auto simp: render_field_def field_str_def quote_str_def QUOTE_def)
  qed (simp_all add: is_digit_def)
  with gs show "JObj fs = w \<and> r = r'" by simp
qed

lemma canonicalize_unique: "canon v \<Longrightarrow> read_uniquely canonicalize canon v"
proof (induction v)
  case JNull
  show ?case
    by (rule read_uniquelyI) (frule (2) canonicalize_shape, auto)
next
  case (JBool b)
  show ?case
    by (rule read_uniquelyI) (frule (2) canonicalize_shape, auto split: if_splits)
next
  case (JNum n)
  show ?case
    by (rule read_uniquelyI) (frule (2) canonicalize_shape, auto dest: int_str_unique)
next
  case (JStr s)
  show ?case
    by (rule read_uniquelyI) (frule (2) canonicalize_shape, auto dest: quote_str_unique)
next
  case (JArr vs)
  then show ?case by (intro read_uniquely_arr) simp
next
  case (JObj fs)
  then show ?case by (intro read_uniquely_obj) (auto simp: snds.simps)
next
  case JUnsupported
  show ?case by (rule read_uniquelyI) simp
qed

section \<open>The canonical text determines the value\<close>

lemma insort_key_map_snd:
  "insort_key fst (k, f v) (map (\<lambda>(k, v). (k, f v)) ys) = map (\<lambda>(k, v). (k, f v)) (insort_key fst (k, v) ys)"
  by (induction ys) auto

lemma sort_key_map_snd:
  "sort_key fst (map (\<lambda>(k, v). (k, f v)) xs) = map (\<lambda>(k, v). (k, f v)) (sort_key fst xs)"
  by (induction xs) (auto simp: insort_key_map_snd)

lemma map_fst_map_snd: "map fst (map (\<lambda>(k, v). (k, f v)) xs) = map fst xs"
  by (induction xs) auto

lemma canon_sort_fields: "json_wf v \<Longrightarrow> canon (sort_fields v)"
proof (induction v)
  case (JObj fs)
  let ?gs = "sort_key fst fs"
  have "sort_fields (JObj fs) = JObj (map (\<lambda>(k, v). (k, sort_fields v)) ?gs)"
    by (simp add: sort_key_map_snd)
  moreover have "distinct (map fst ?gs)"
    using JObj.prems by (simp add: distinct_map)
  moreover have "canon (sort_fields (snd f))" if "f \<in> set fs" for f
    using JObj that by (cases f) (auto simp: snds.simps)
  ultimately show ?case
    by (auto simp del: map_map simp: map_fst_map_snd)
qed auto

lemma those_map:
  "those (map f xs) = (if \<exists>x \<in> set xs. f x = None then None else Some (map (\<lambda>x. the (f x)) xs))"
  by (induction xs) (auto split: option.splits)

lemma canonicalize_obj:
  "canonicalize (JObj fs) =
     (if \<exists>f \<in> set fs. canonicalize (snd f) = None then None
      else Some (''{'' @ join '','' (map field_str
        (map (\<lambda>(k, v). (k, the (canonicalize v))) (sort_key fst fs))) @ ''}''))"
proof -
  have eq: "map (\<lambda>x. the (case x of (k, v) \<Rightarrow> map_option (\<lambda>s. (k, s)) (canonicalize v))) fs
      = map (\<lambda>(k, v). (k, the (canonicalize v))) fs"
    if "\<forall>f \<in> set fs. canonicalize (snd f) \<noteq> None"
    using that by (auto simp: map_option_case split: option.splits)
  show ?thesis
  proof (cases "\<exists>f \<in> set fs. canonicalize (snd f) = None")
    case True
    then obtain k v where "(k, v) \<in> set fs" "canonicalize v = None" by auto
    then have "\<exists>f \<in> set fs. (case f of (k, v) \<Rightarrow> map_option (\<lambda>s. (k, s)) (canonicalize v)) = None"
      by (intro bexI [of _ "(k, v)"]) simp_all
    with True show ?thesis by (simp add: those_map)
  next
    case False
    let ?E = "\<lambda>(k, v). map_option (\<lambda>s. (k, s)) (canonicalize v)"
    from False have all: "\<forall>f \<in> set fs. canonicalize (snd f) \<noteq> None" by auto
    then have "\<not> (\<exists>f \<in> set fs. ?E f = None)" by auto
    then have "canonicalize (JObj fs) = Some (''{'' @ join '','' (map field_str
        (sort_key fst (map (\<lambda>x. the (?E x)) fs))) @ ''}'')"
      by (simp add: those_map)
    with False show ?thesis
      by (simp only: eq [OF all] sort_key_map_snd if_False)
  qed
qed

lemma canonicalize_sort_fields: "canonicalize (sort_fields v) = canonicalize v"
proof (induction v)
  case (JArr vs)
  then show ?case by (simp cong: map_cong)
next
  case (JObj fs)
  let ?h = "\<lambda>(k, v). (k, sort_fields v)"
  have ih: "canonicalize (snd (?h f)) = canonicalize (snd f)" if "f \<in> set fs" for f
    using JObj that by (cases f) (auto simp: snds.simps)
  have none: "(\<exists>f \<in> set (map ?h fs). canonicalize (snd f) = None) \<longleftrightarrow>
      (\<exists>f \<in> set fs. canonicalize (snd f) = None)"
    using ih by auto
  have "map (\<lambda>(k, v). (k, the (canonicalize v))) (sort_key fst (map ?h fs))
      = map (\<lambda>(k, v). (k, the (canonicalize v))) (sort_key fst fs)"
    using ih by (auto simp: sort_key_map_snd)
  moreover have "sort_key fst (sort_key fst (map ?h fs)) = sort_key fst (map ?h fs)"
    by (simp add: sort_key_id_if_sorted)
  ultimately show ?case
    using none unfolding sort_fields.simps canonicalize_obj by simp
qed simp_all

lemma canonicalize_inj:
  assumes "json_wf v" "json_wf w" "canonicalize v = Some s" "canonicalize w = Some s"
  shows "sort_fields v = sort_fields w"
  using read_uniquelyD [OF canonicalize_unique [OF canon_sort_fields [OF assms(1)]]
      canon_sort_fields [OF assms(2)], of s s "[]" "[]"] assms(3,4)
  by (simp add: canonicalize_sort_fields delimits_def)

lemma canonicalize_None_iff: "canonicalize v = None \<longleftrightarrow> \<not> supported v"
proof (induction v)
  case (JObj fs)
  then show ?case unfolding canonicalize_obj by (auto simp: snds.simps)
qed (auto simp: those_map)

lemma canonicalize_eq_iff:
  assumes "json_wf v" "json_wf w" "supported v"
  shows "canonicalize v = canonicalize w \<longleftrightarrow> sort_fields v = sort_fields w"
proof
  assume eq: "canonicalize v = canonicalize w"
  obtain s where s: "canonicalize v = Some s"
    using assms(3) canonicalize_None_iff [of v] by auto
  show "sort_fields v = sort_fields w"
    by (rule canonicalize_inj [OF assms(1,2) s]) (simp flip: eq add: s)
next
  assume "sort_fields v = sort_fields w"
  then show "canonicalize v = canonicalize w"
    by (metis canonicalize_sort_fields)
qed

section \<open>Digests\<close>

text \<open>
  SHA-256 is a parameter \<open>H\<close>. A digest binds its input in this sense: two inputs with the same
  digest are equal, or they are themselves a collision of \<open>H\<close>. No theorem assumes that \<open>H\<close> is
  injective.
\<close>

type_synonym hash = "string \<Rightarrow> string"

definition collision :: "hash \<Rightarrow> string \<Rightarrow> string \<Rightarrow> bool" where
  "collision H x y \<longleftrightarrow> x \<noteq> y \<and> H x = H y"

lemma collision_or_eq: "H x = H y \<Longrightarrow> x = y \<or> collision H x y"
  by (auto simp: collision_def)

section \<open>Optional fields\<close>

text \<open>An optional field of an object literal, left out when it is \<open>undefined\<close>.\<close>

definition opt_field :: "string \<Rightarrow> ('a \<Rightarrow> json) \<Rightarrow> 'a option \<Rightarrow> (string \<times> json) list" where
  "opt_field k f x = (case x of Some v \<Rightarrow> [(k, f v)] | None \<Rightarrow> [])"

lemma distinct_opt_field [simp]: "distinct (map fst (opt_field k f x))"
  by (cases x) (simp_all add: opt_field_def)

lemma opt_field_disjoint [simp]:
  "k \<noteq> k' \<Longrightarrow> fst ` set (opt_field k f x) \<inter> fst ` set (opt_field k' g y) = {}"
  by (cases x; cases y) (simp_all add: opt_field_def)

lemma opt_field_values: "(\<And>v. json_wf (f v)) \<Longrightarrow> e \<in> set (opt_field k f x) \<Longrightarrow> json_wf (snd e)"
  by (cases x) (auto simp: opt_field_def)

text \<open>
  The canonical text is defined exactly for the supported values, and two values have the same
  text exactly when they are equal up to the order of object fields: a commitment or a digest
  computed over it can be recomputed by any verifier and cannot stand for two different values.
\<close>

theorem canonical_text_determines_value:
  assumes "json_wf v" "json_wf w"
  shows "(canonicalize v = None \<longleftrightarrow> \<not> supported v) \<and>
    (supported v \<longrightarrow> (canonicalize v = canonicalize w \<longleftrightarrow> sort_fields v = sort_fields w))"
  using canonicalize_None_iff canonicalize_eq_iff [OF assms] by blast

lemma canonical_text_determines_value_witness:
  "let v = JObj [(''b'', JNum 12), (''a'', JArr [JStr [QUOTE], JNull])];
       w = JObj [(''a'', JArr [JStr [QUOTE], JNull]), (''b'', JNum 12)]
   in supported v \<and> sort_fields v = sort_fields w \<and> canonicalize v = canonicalize w"
proof -
  let ?v = "JObj [(''b'', JNum 12), (''a'', JArr [JStr [QUOTE], JNull])]"
  let ?w = "JObj [(''a'', JArr [JStr [QUOTE], JNull]), (''b'', JNum 12)]"
  have "json_wf ?v" "json_wf ?w" "supported ?v" "sort_fields ?v = sort_fields ?w" by simp_all
  with canonical_text_determines_value [of ?v ?w] show ?thesis by simp
qed

end
