(* ===== verification/Attenuation.thy ===== *)
theory Attenuation
  imports Canonical_Json
begin

text \<open>
  Authority sets, salted commitments and issuance of one hop: the data and the issuing half of
  \<open>packages/core/src/attenuation.ts\<close>. The caveats of a hop are opaque there
  (\<open>caveats?: unknown\<close>), so every definition is polymorphic in their type \<open>'c\<close>; \<open>cj\<close> gives
  the JSON form that the commitment hashes, and \<open>H\<close> is SHA-256. Keymaster (key selection,
  encryption, signatures, the registry) is the \<open>issue_env\<close> argument of \<open>issueVc\<close>.
\<close>

section \<open>Authority\<close>

record authority_set =
  operations :: "string list"
  resources :: "string list"

definition normalizeAuthoritySet :: "authority_set \<Rightarrow> authority_set" where
  "normalizeAuthoritySet a =
     \<lparr>operations = sort (js_set (operations a)), resources = sort (js_set (resources a))\<rparr>"

definition isSubset :: "authority_set \<Rightarrow> authority_set \<Rightarrow> bool" where
  "isSubset child parent =
     (let c = normalizeAuthoritySet child; p = normalizeAuthoritySet parent
      in list_all (\<lambda>x. x \<in> set (operations p)) (operations c) \<and>
         list_all (\<lambda>x. x \<in> set (resources p)) (resources c))"

lemma isSubset_iff:
  "isSubset c p \<longleftrightarrow> set (operations c) \<subseteq> set (operations p) \<and> set (resources c) \<subseteq> set (resources p)"
  by (auto simp: isSubset_def normalizeAuthoritySet_def Let_def list_all_iff)

lemma isSubset_refl [simp, narrowing]: "isSubset a a"
  by (simp add: isSubset_iff)

lemma isSubset_trans [narrowing]: "isSubset a b \<Longrightarrow> isSubset b c \<Longrightarrow> isSubset a c"
  by (auto simp: isSubset_iff)

lemma normalizeAuthoritySet_eq_iff:
  "normalizeAuthoritySet a = normalizeAuthoritySet b \<longleftrightarrow> isSubset a b \<and> isSubset b a"
  by (auto simp: normalizeAuthoritySet_def isSubset_iff sort_js_set_eq_iff)

lemma isSubset_normalize [simp]:
  "isSubset (normalizeAuthoritySet a) b = isSubset a b"
  "isSubset a (normalizeAuthoritySet b) = isSubset a b"
  by (simp_all add: isSubset_iff normalizeAuthoritySet_def)

section \<open>Commitments\<close>

definition authority_json :: "authority_set \<Rightarrow> json" where
  "authority_json a =
     JObj [(''operations'', JArr (map JStr (operations a))), (''resources'', JArr (map JStr (resources a)))]"

definition commit_preimage :: "('c \<Rightarrow> json) \<Rightarrow> authority_set \<Rightarrow> string \<Rightarrow> 'c option \<Rightarrow> json" where
  "commit_preimage cj a salt cav =
     JObj ([(''authoritySet'', authority_json (normalizeAuthoritySet a)), (''salt'', JStr salt)]
       @ (case cav of None \<Rightarrow> [] | Some c \<Rightarrow> [(''caveats'', cj c)]))"

text \<open>\<^const>\<open>None\<close> is the error that \<open>canonicalize\<close> throws.\<close>

definition commit :: "hash \<Rightarrow> ('c \<Rightarrow> json) \<Rightarrow> authority_set \<Rightarrow> string \<Rightarrow> 'c option \<Rightarrow> string option" where
  "commit H cj a salt cav = map_option H (canonicalize (commit_preimage cj a salt cav))"

lemma authority_json_eq: "authority_json a = authority_json b \<longleftrightarrow> a = b"
  by (auto simp: authority_json_def inj_on_def intro: map_injective)

lemma sort_fields_authority_json [simp]: "sort_fields (authority_json a) = authority_json a"
  by (simp add: authority_json_def comp_def)

lemma json_wf_authority_json [simp]: "json_wf (authority_json a)"
  by (auto simp: authority_json_def)

lemma commit_preimage_wf: "(\<And>c. cav = Some c \<Longrightarrow> json_wf (cj c)) \<Longrightarrow> json_wf (commit_preimage cj a salt cav)"
  by (auto simp: commit_preimage_def split: option.splits)

lemma sort_fields_preimage:
  "sort_fields (commit_preimage cj a salt cav) =
     JObj ((''authoritySet'', authority_json (normalizeAuthoritySet a)) #
       (case cav of None \<Rightarrow> [] | Some c \<Rightarrow> [(''caveats'', sort_fields (cj c))]) @ [(''salt'', JStr salt)])"
  by (auto simp: commit_preimage_def split: option.splits)

text \<open>
  A commitment binds the authority set, the salt and the caveats: two openings of one commitment
  agree, or their preimages are a collision of the hash.
\<close>

lemma commit_binding:
  assumes "commit H cj a s c = Some h" "commit H cj a' s' c' = Some h"
    and "\<And>x. c = Some x \<Longrightarrow> json_wf (cj x)" "\<And>x. c' = Some x \<Longrightarrow> json_wf (cj x)"
  shows "(isSubset a a' \<and> isSubset a' a \<and> s = s' \<and>
      map_option (sort_fields \<circ> cj) c = map_option (sort_fields \<circ> cj) c') \<or>
    (\<exists>t t'. canonicalize (commit_preimage cj a s c) = Some t \<and>
       canonicalize (commit_preimage cj a' s' c') = Some t' \<and> collision H t t')"
proof -
  from assms(1,2) obtain t t'
    where t: "canonicalize (commit_preimage cj a s c) = Some t"
      "canonicalize (commit_preimage cj a' s' c') = Some t'" "H t = H t'"
    by (auto simp: commit_def)
  show ?thesis
  proof (cases "t = t'")
    case True
    with t have "sort_fields (commit_preimage cj a s c) = sort_fields (commit_preimage cj a' s' c')"
      by (intro canonicalize_inj commit_preimage_wf) (auto intro: assms(3,4))
    then show ?thesis
      unfolding sort_fields_preimage
      by (auto simp: authority_json_eq normalizeAuthoritySet_eq_iff split: option.splits)
  next
    case False
    with t show ?thesis by (auto simp: collision_def)
  qed
qed

section \<open>The pic block and its records\<close>

record prev_pin =
  pin_did :: did
  pin_versionId :: string
  pin_versionSequence :: nat

record proof_block =
  verificationMethod :: string
  proofValue :: string
  created :: string

record attenuation_assertion =
  aa_issuer :: did
  aa_holder :: did
  aa_statement :: string
  aa_lineageId :: did
  aa_counter :: int
  aa_authorityCommitment :: string
  aa_parentAuthorityCommitment :: "string option"
  aa_proof :: "proof_block option"

record pic_block =
  pic_lineageId :: did
  pic_counter :: int
  pic_prevCredential :: "prev_pin option"
  pic_authorityCommitment :: string
  pic_parentAuthorityCommitment :: "string option"
  pic_attenuationAssertion :: "attenuation_assertion option"

definition ATTENUATION_STATEMENT :: string where
  "ATTENUATION_STATEMENT = ''authoritySet subseteq parent.authoritySet''"

record 'c authority_payload =
  ap_authoritySet :: authority_set
  ap_salt :: string
  ap_caveats :: "'c option"

section \<open>Issuance\<close>

record 'c issued_vc =
  iv_vcDid :: did
  iv_lineageId :: did
  iv_counter :: int
  iv_authoritySet :: authority_set
  iv_salt :: string
  iv_caveats :: "'c option"
  iv_authorityCommitment :: string
  iv_pin :: prev_pin
  iv_holder :: did

record 'c issue_args =
  ia_issuerName :: string
  ia_holder :: did
  ia_authoritySet :: authority_set
  ia_caveats :: "'c option"
  ia_parent :: "'c issued_vc option"
  ia_forgeAssertionWith :: "string option"
  ia_overrideCounter :: "int option"
  ia_overrideParentCommitment :: "string option option"
  ia_overrideLineageId :: "did option"
  ia_overridePrev :: "prev_pin option option"
  ia_skipSubsetGuard :: bool

text \<open>What Keymaster contributes to one issuance: the issuer's DID, the fresh salt, the DID of the
  new asset, the signature over an assertion, and the version the asset has after \<open>mergeData\<close>.\<close>

record issue_env =
  ie_issuerDid :: did
  ie_salt :: string
  ie_vcDid :: did
  ie_addProof :: "attenuation_assertion \<Rightarrow> string \<Rightarrow> proof_block"
  ie_versionId :: string
  ie_versionSequence :: nat

datatype issue_error = UnsupportedValue | IssuanceRefused authority_set authority_set

text \<open>The fields that default to the parent's and that the test-only knobs can force.\<close>

definition issue_counter :: "'c issue_args \<Rightarrow> int" where
  "issue_counter args =
     (case ia_overrideCounter args of
        Some n \<Rightarrow> n
      | None \<Rightarrow> (case ia_parent args of Some p \<Rightarrow> iv_counter p + 1 | None \<Rightarrow> 0))"

definition issue_parentCommitment :: "'c issue_args \<Rightarrow> string option" where
  "issue_parentCommitment args =
     (case ia_overrideParentCommitment args of
        Some c \<Rightarrow> c
      | None \<Rightarrow> map_option iv_authorityCommitment (ia_parent args))"

definition issue_prev :: "'c issue_args \<Rightarrow> prev_pin option" where
  "issue_prev args =
     (case ia_overridePrev args of Some p \<Rightarrow> p | None \<Rightarrow> map_option iv_pin (ia_parent args))"

definition issue_lineageId :: "did \<Rightarrow> 'c issue_args \<Rightarrow> did" where
  "issue_lineageId vcDid args =
     (case ia_overrideLineageId args of
        Some l \<Rightarrow> l
      | None \<Rightarrow> (case ia_parent args of Some p \<Rightarrow> iv_lineageId p | None \<Rightarrow> vcDid))"

definition issue_assertion :: "issue_env \<Rightarrow> 'c issue_args \<Rightarrow> string \<Rightarrow> attenuation_assertion" where
  "issue_assertion env args authorityCommitment =
     (let body = \<lparr>aa_issuer = ie_issuerDid env, aa_holder = ia_holder args,
            aa_statement = ATTENUATION_STATEMENT,
            aa_lineageId = issue_lineageId (ie_vcDid env) args, aa_counter = issue_counter args,
            aa_authorityCommitment = authorityCommitment,
            aa_parentAuthorityCommitment = issue_parentCommitment args, aa_proof = None\<rparr>;
          signer = (case ia_forgeAssertionWith args of Some n \<Rightarrow> n | None \<Rightarrow> ia_issuerName args)
      in body\<lparr>aa_proof := Some (ie_addProof env body signer)\<rparr>)"

definition issue_pic :: "issue_env \<Rightarrow> 'c issue_args \<Rightarrow> string \<Rightarrow> pic_block" where
  "issue_pic env args authorityCommitment =
     \<lparr>pic_lineageId = issue_lineageId (ie_vcDid env) args, pic_counter = issue_counter args,
      pic_prevCredential = issue_prev args, pic_authorityCommitment = authorityCommitment,
      pic_parentAuthorityCommitment = issue_parentCommitment args,
      pic_attenuationAssertion = Some (issue_assertion env args authorityCommitment)\<rparr>"

definition issue_refused :: "'c issue_args \<Rightarrow> authority_set option" where
  "issue_refused args =
     (case ia_parent args of
        None \<Rightarrow> None
      | Some parent \<Rightarrow>
          if \<not> ia_skipSubsetGuard args \<and>
             \<not> isSubset (normalizeAuthoritySet (ia_authoritySet args)) (iv_authoritySet parent)
          then Some (iv_authoritySet parent) else None)"

text \<open>The result is the record handed to the holder and the \<open>pic\<close> block written on the asset.\<close>

definition issueVc ::
    "hash \<Rightarrow> ('c \<Rightarrow> json) \<Rightarrow> issue_env \<Rightarrow> 'c issue_args \<Rightarrow> issue_error + ('c issued_vc \<times> pic_block)" where
  "issueVc H cj env args =
     (let authoritySet = normalizeAuthoritySet (ia_authoritySet args)
      in case commit H cj authoritySet (ie_salt env) (ia_caveats args) of
        None \<Rightarrow> Inl UnsupportedValue
      | Some authorityCommitment \<Rightarrow>
          (case issue_refused args of
             Some parentSet \<Rightarrow> Inl (IssuanceRefused authoritySet parentSet)
           | None \<Rightarrow>
               Inr (\<lparr>iv_vcDid = ie_vcDid env, iv_lineageId = issue_lineageId (ie_vcDid env) args,
                     iv_counter = issue_counter args, iv_authoritySet = authoritySet,
                     iv_salt = ie_salt env, iv_caveats = ia_caveats args,
                     iv_authorityCommitment = authorityCommitment,
                     iv_pin = \<lparr>pin_did = ie_vcDid env, pin_versionId = ie_versionId env,
                       pin_versionSequence = ie_versionSequence env\<rparr>,
                     iv_holder = ia_holder args\<rparr>,
                    issue_pic env args authorityCommitment)))"

lemma issueVc_Inr:
  assumes "issueVc H cj env args = Inr (iv, pic)"
  shows "commit H cj (iv_authoritySet iv) (iv_salt iv) (iv_caveats iv) = Some (iv_authorityCommitment iv)"
    and "pic = issue_pic env args (iv_authorityCommitment iv)"
    and "issue_refused args = None"
    and "iv_authoritySet iv = normalizeAuthoritySet (ia_authoritySet args)"
    and "iv_vcDid iv = ie_vcDid env" "iv_holder iv = ia_holder args"
    and "iv_caveats iv = ia_caveats args"
    and "iv_counter iv = issue_counter args"
    and "iv_lineageId iv = issue_lineageId (ie_vcDid env) args"
    and "iv_pin iv = \<lparr>pin_did = ie_vcDid env, pin_versionId = ie_versionId env,
          pin_versionSequence = ie_versionSequence env\<rparr>"
  using assms by (auto simp: issueVc_def Let_def split: option.splits)

lemma issueVc_narrows:
  assumes "issueVc H cj env args = Inr (iv, pic)" "ia_parent args = Some p"
    and "\<not> ia_skipSubsetGuard args"
  shows "isSubset (iv_authoritySet iv) (iv_authoritySet p)"
  using issueVc_Inr [OF assms(1)] assms(2,3) by (auto simp: issue_refused_def split: if_splits)

end
