(* ===== verification/Attenuation_Chain.thy ===== *)
theory Attenuation_Chain
  imports Attenuation
begin

text \<open>
  The chain verifier \<open>verifyAttenuationChain\<close> of \<open>packages/core/src/attenuation.ts\<close>: the only
  enforcement point of attenuation. The loop over hops is a recursion on the remaining hops, whose
  number is the code's own bound \<open>maxHops\<close>; one iteration is split into the checks of a hop
  (\<open>check_hop\<close>), the checks of a child against its parent (\<open>check_link\<close>) and the checks of the
  origin (\<open>check_origin\<close>), each the sequence of early returns of the source.

  The main theorem is that the verifier accepts exactly the leaves of well-formed chains.
\<close>

section \<open>What the verifier reads\<close>

text \<open>A resolved DID document, and the Archon node: resolution at an optional pinned version
  (\<^const>\<open>None\<close> when the promise rejects) and signature verification (false when it rejects).\<close>

record did_doc =
  dd_versionId :: "string option"
  dd_controller :: did
  dd_pic :: "pic_block option"

record archon =
  resolveDID :: "did \<Rightarrow> nat option \<Rightarrow> did_doc option"
  verifyProof :: "attenuation_assertion \<Rightarrow> bool"

datatype hop_status = St_ok | St_revoked | St_unavailable | St_no_status

record 'c verify_options =
  vo_expectedRootIssuer :: "did option"
  vo_disclosed :: "did \<Rightarrow> 'c authority_payload option"
  vo_maxHops :: nat
  vo_requireDisclosure :: bool
  vo_caveatNarrows :: "('c option \<Rightarrow> 'c option \<Rightarrow> bool) option"
  vo_requireStatus :: bool
  vo_checkHopStatus :: "('c option \<Rightarrow> did \<Rightarrow> hop_status) option"
  vo_requireDelegatorBinding :: bool

text \<open>\<open>Threw\<close> is a rejected promise: resolution failed, or a disclosed value had no canonical form.\<close>

datatype 'c verify_result =
    Accepted nat (vr_holder: "did") "authority_set option" "'c option"
  | Rejected string did "int option"
  | Threw

datatype check_failure = Fail string did "int option" | Fail_throw

definition signerOf :: "attenuation_assertion \<Rightarrow> did" where
  "signerOf a = (case aa_proof a of None \<Rightarrow> [] | Some p \<Rightarrow> before_hash (verificationMethod p))"

text \<open>What the child just processed asked of the node loaded next.\<close>

record expectation =
  ex_pin :: prev_pin
  ex_childPic :: pic_block
  ex_childDid :: did

section \<open>The checks of one iteration\<close>

definition check_assertion :: "archon \<Rightarrow> did \<Rightarrow> did \<Rightarrow> pic_block \<Rightarrow> check_failure option" where
  "check_assertion A did controller pic =
     (let fail = Some (Fail ''(e)'' did (Some (pic_counter pic)))
      in case pic_attenuationAssertion pic of
        None \<Rightarrow> fail
      | Some asrt \<Rightarrow>
          if aa_proof asrt = None then fail
          else if \<not> verifyProof A asrt then fail
          else if signerOf asrt \<noteq> controller then fail
          else if aa_authorityCommitment asrt \<noteq> pic_authorityCommitment pic \<or>
            aa_parentAuthorityCommitment asrt \<noteq> pic_parentAuthorityCommitment pic \<or>
            aa_counter asrt \<noteq> pic_counter pic \<or> aa_lineageId asrt \<noteq> pic_lineageId pic \<or>
            aa_statement asrt \<noteq> ATTENUATION_STATEMENT then fail
          else None)"

definition check_disclosure ::
    "hash \<Rightarrow> ('c \<Rightarrow> json) \<Rightarrow> 'c verify_options \<Rightarrow> did \<Rightarrow> did \<Rightarrow> pic_block \<Rightarrow> check_failure option" where
  "check_disclosure H cj opts did controller pic =
     (case vo_disclosed opts did of
        None \<Rightarrow>
          if vo_requireDisclosure opts then Some (Fail ''(disclosure)'' did (Some (pic_counter pic))) else None
      | Some reveal \<Rightarrow>
          (case commit H cj (ap_authoritySet reveal) (ap_salt reveal) (ap_caveats reveal) of
             None \<Rightarrow> Some Fail_throw
           | Some h \<Rightarrow>
               if h \<noteq> pic_authorityCommitment pic then Some (Fail ''(commit)'' did (Some (pic_counter pic)))
               else if vo_requireStatus opts \<or> vo_checkHopStatus opts \<noteq> None then
                 (let st = (case vo_checkHopStatus opts of
                        Some f \<Rightarrow> f (ap_caveats reveal) controller | None \<Rightarrow> St_no_status)
                  in if st = St_revoked then Some (Fail ''(revoked)'' did (Some (pic_counter pic)))
                     else if st = St_unavailable then Some (Fail ''(status)'' did (Some (pic_counter pic)))
                     else if st = St_no_status \<and> vo_requireStatus opts
                       then Some (Fail ''(revocable)'' did (Some (pic_counter pic)))
                     else None)
               else None))"

definition check_hop ::
    "hash \<Rightarrow> ('c \<Rightarrow> json) \<Rightarrow> archon \<Rightarrow> 'c verify_options \<Rightarrow> expectation option \<Rightarrow> did \<Rightarrow> did_doc \<Rightarrow>
     check_failure option" where
  "check_hop H cj A opts expect did doc =
     (if (case expect of Some e \<Rightarrow> dd_versionId doc \<noteq> Some (pin_versionId (ex_pin e)) | None \<Rightarrow> False)
        then Some (Fail ''(b)'' did None)
      else if dd_controller doc = [] then Some (Fail ''(a)'' did None)
      else case dd_pic doc of
        None \<Rightarrow> Some (Fail ''(a)'' did None)
      | Some pic \<Rightarrow>
          (case check_assertion A did (dd_controller doc) pic of
             Some f \<Rightarrow> Some f
           | None \<Rightarrow> check_disclosure H cj opts did (dd_controller doc) pic))"

definition holder_of :: "pic_block \<Rightarrow> did" where
  "holder_of pic = (case pic_attenuationAssertion pic of Some a \<Rightarrow> aa_holder a | None \<Rightarrow> [])"

definition signer_of_pic :: "pic_block \<Rightarrow> did" where
  "signer_of_pic pic = (case pic_attenuationAssertion pic of Some a \<Rightarrow> signerOf a | None \<Rightarrow> [])"

definition check_link ::
    "'c verify_options \<Rightarrow> did \<Rightarrow> pic_block \<Rightarrow> did \<Rightarrow> pic_block \<Rightarrow> check_failure option" where
  "check_link opts childDid child did pic =
     (let fail = (\<lambda>c. Some (Fail c childDid (Some (pic_counter child))))
      in if pic_counter child \<noteq> pic_counter pic + 1 then fail ''(c)''
         else if pic_parentAuthorityCommitment child \<noteq> Some (pic_authorityCommitment pic) then fail ''(d)''
         else if pic_lineageId child \<noteq> pic_lineageId pic then fail ''(lineage)''
         else if vo_requireDelegatorBinding opts \<and> signer_of_pic child \<noteq> holder_of pic then fail ''(delegator)''
         else (case (vo_disclosed opts did, vo_disclosed opts childDid) of
             (Some reveal, Some childReveal) \<Rightarrow>
               if \<not> isSubset (ap_authoritySet childReveal) (ap_authoritySet reveal) then fail ''(subset)''
               else (case vo_caveatNarrows opts of
                   Some narrows \<Rightarrow>
                     if \<not> narrows (ap_caveats childReveal) (ap_caveats reveal) then fail ''(caveats)'' else None
                 | None \<Rightarrow> None)
           | _ \<Rightarrow> None))"

definition check_origin :: "'c verify_options \<Rightarrow> did \<Rightarrow> did \<Rightarrow> pic_block \<Rightarrow> check_failure option" where
  "check_origin opts did controller pic =
     (if pic_counter pic \<noteq> 0 then Some (Fail ''(c)'' did (Some (pic_counter pic)))
      else if pic_parentAuthorityCommitment pic \<noteq> None then Some (Fail ''(d)'' did (Some (pic_counter pic)))
      else if truthy_string (vo_expectedRootIssuer opts) \<and> vo_expectedRootIssuer opts \<noteq> Some controller
        then Some (Fail ''(root)'' did (Some (pic_counter pic)))
      else None)"

section \<open>The loop\<close>

fun outcome_of :: "check_failure \<Rightarrow> 'c verify_result" where
  "outcome_of (Fail c d n) = Rejected c d n"
| "outcome_of Fail_throw = Threw"

text \<open>\<open>leaf\<close> is the pair \<open>leafHolder\<close>, \<open>leafReveal\<close>, set in the first iteration (\<open>step = 0\<close>, the one
  without an expectation) and kept afterwards.\<close>

fun walk ::
    "hash \<Rightarrow> ('c \<Rightarrow> json) \<Rightarrow> archon \<Rightarrow> 'c verify_options \<Rightarrow> nat \<Rightarrow> did \<Rightarrow> nat option \<Rightarrow>
     expectation option \<Rightarrow> nat \<Rightarrow> did \<times> 'c authority_payload option \<Rightarrow> 'c verify_result" where
  "walk H cj A opts 0 did useVersion expect len leaf = Rejected ''(depth)'' did None"
| "walk H cj A opts (Suc n) did useVersion expect len leaf =
     (case resolveDID A did useVersion of
        None \<Rightarrow> Threw
      | Some doc \<Rightarrow>
          (case check_hop H cj A opts expect did doc of
             Some f \<Rightarrow> outcome_of f
           | None \<Rightarrow>
               (case dd_pic doc of
                  None \<Rightarrow> Rejected ''(a)'' did None
                | Some pic \<Rightarrow>
                    (let leaf' = (if expect = None then (holder_of pic, vo_disclosed opts did) else leaf);
                         linkFailure = (case expect of
                             None \<Rightarrow> None
                           | Some e \<Rightarrow> check_link opts (ex_childDid e) (ex_childPic e) did pic)
                     in case linkFailure of
                          Some f \<Rightarrow> outcome_of f
                        | None \<Rightarrow>
                            (case pic_prevCredential pic of
                               None \<Rightarrow>
                                 (case check_origin opts did (dd_controller doc) pic of
                                    Some f \<Rightarrow> outcome_of f
                                  | None \<Rightarrow>
                                      Accepted (Suc len) (fst leaf')
                                        (map_option ap_authoritySet (snd leaf'))
                                        (Option.bind (snd leaf') ap_caveats))
                             | Some pin \<Rightarrow>
                                 walk H cj A opts n (pin_did pin) (Some (pin_versionSequence pin))
                                   (Some \<lparr>ex_pin = pin, ex_childPic = pic, ex_childDid = did\<rparr>)
                                   (Suc len) leaf')))))"

definition verifyAttenuationChain ::
    "hash \<Rightarrow> ('c \<Rightarrow> json) \<Rightarrow> archon \<Rightarrow> 'c verify_options \<Rightarrow> did \<Rightarrow> 'c verify_result" where
  "verifyAttenuationChain H cj A opts leafVcDid =
     walk H cj A opts (vo_maxHops opts) leafVcDid None None 0 ([], None)"

section \<open>Well-formed chains\<close>

text \<open>
  The declarative reading. A hop is a DID with the document it resolves to; a chain is a list of
  hops from the leaf to the origin.
\<close>

record hop =
  hop_did :: did
  hop_doc :: did_doc

definition hop_pic :: "hop \<Rightarrow> pic_block" where
  "hop_pic h = the (dd_pic (hop_doc h))"

definition hop_controller :: "hop \<Rightarrow> did" where
  "hop_controller h = dd_controller (hop_doc h)"

definition hop_holder :: "hop \<Rightarrow> did" where
  "hop_holder h = holder_of (hop_pic h)"

text \<open>The assertion of a block is signed by the given controller and says what the block says.\<close>

definition attested_by :: "archon \<Rightarrow> did \<Rightarrow> pic_block \<Rightarrow> bool" where
  "attested_by A controller pic \<longleftrightarrow>
     (case pic_attenuationAssertion pic of
        None \<Rightarrow> False
      | Some a \<Rightarrow> aa_proof a \<noteq> None \<and> verifyProof A a \<and> signerOf a = controller \<and>
          aa_authorityCommitment a = pic_authorityCommitment pic \<and>
          aa_parentAuthorityCommitment a = pic_parentAuthorityCommitment pic \<and>
          aa_counter a = pic_counter pic \<and> aa_lineageId a = pic_lineageId pic \<and>
          aa_statement a = ATTENUATION_STATEMENT)"

text \<open>A disclosed hop opens its commitment and is not revoked.\<close>

definition status_ok :: "'c verify_options \<Rightarrow> 'c option \<Rightarrow> did \<Rightarrow> bool" where
  "status_ok opts cav controller \<longleftrightarrow>
     (case vo_checkHopStatus opts of
        Some f \<Rightarrow> f cav controller = St_ok \<or> (f cav controller = St_no_status \<and> \<not> vo_requireStatus opts)
      | None \<Rightarrow> \<not> vo_requireStatus opts)"

definition opens ::
    "hash \<Rightarrow> ('c \<Rightarrow> json) \<Rightarrow> 'c verify_options \<Rightarrow> did \<Rightarrow> pic_block \<Rightarrow> 'c authority_payload \<Rightarrow> bool" where
  "opens H cj opts controller pic r \<longleftrightarrow>
     commit H cj (ap_authoritySet r) (ap_salt r) (ap_caveats r) = Some (pic_authorityCommitment pic) \<and>
     status_ok opts (ap_caveats r) controller"

definition good_hop :: "hash \<Rightarrow> ('c \<Rightarrow> json) \<Rightarrow> archon \<Rightarrow> 'c verify_options \<Rightarrow> hop \<Rightarrow> bool" where
  "good_hop H cj A opts h \<longleftrightarrow>
     hop_controller h \<noteq> [] \<and> dd_pic (hop_doc h) \<noteq> None \<and>
     attested_by A (hop_controller h) (hop_pic h) \<and>
     (case vo_disclosed opts (hop_did h) of
        None \<Rightarrow> \<not> vo_requireDisclosure opts
      | Some r \<Rightarrow> opens H cj opts (hop_controller h) (hop_pic h) r)"

definition reveals_narrow :: "'c verify_options \<Rightarrow> did \<Rightarrow> did \<Rightarrow> bool" where
  "reveals_narrow opts childDid parentDid \<longleftrightarrow>
     (case (vo_disclosed opts childDid, vo_disclosed opts parentDid) of
        (Some c, Some p) \<Rightarrow>
          isSubset (ap_authoritySet c) (ap_authoritySet p) \<and>
          (case vo_caveatNarrows opts of
             Some narrows \<Rightarrow> narrows (ap_caveats c) (ap_caveats p) | None \<Rightarrow> True)
      | _ \<Rightarrow> True)"

text \<open>\<open>extends_hop A opts c p\<close>: hop \<open>c\<close> is a legal delegation of hop \<open>p\<close>, which it pins.\<close>

definition extends_hop :: "archon \<Rightarrow> 'c verify_options \<Rightarrow> hop \<Rightarrow> hop \<Rightarrow> bool" where
  "extends_hop A opts c p \<longleftrightarrow>
     (\<exists>pin. pic_prevCredential (hop_pic c) = Some pin \<and> pin_did pin = hop_did p \<and>
        resolveDID A (pin_did pin) (Some (pin_versionSequence pin)) = Some (hop_doc p) \<and>
        dd_versionId (hop_doc p) = Some (pin_versionId pin)) \<and>
     pic_counter (hop_pic c) = pic_counter (hop_pic p) + 1 \<and>
     pic_parentAuthorityCommitment (hop_pic c) = Some (pic_authorityCommitment (hop_pic p)) \<and>
     pic_lineageId (hop_pic c) = pic_lineageId (hop_pic p) \<and>
     (vo_requireDelegatorBinding opts \<longrightarrow> signer_of_pic (hop_pic c) = hop_holder p) \<and>
     reveals_narrow opts (hop_did c) (hop_did p)"

definition origin_hop :: "'c verify_options \<Rightarrow> hop \<Rightarrow> bool" where
  "origin_hop opts h \<longleftrightarrow>
     pic_prevCredential (hop_pic h) = None \<and> pic_counter (hop_pic h) = 0 \<and>
     pic_parentAuthorityCommitment (hop_pic h) = None \<and>
     (truthy_string (vo_expectedRootIssuer opts) \<longrightarrow> vo_expectedRootIssuer opts = Some (hop_controller h))"

definition good_chain ::
    "hash \<Rightarrow> ('c \<Rightarrow> json) \<Rightarrow> archon \<Rightarrow> 'c verify_options \<Rightarrow> did \<Rightarrow> hop list \<Rightarrow> bool" where
  "good_chain H cj A opts leafDid hops \<longleftrightarrow>
     hops \<noteq> [] \<and> hop_did (hd hops) = leafDid \<and> resolveDID A leafDid None = Some (hop_doc (hd hops)) \<and>
     (\<forall>h \<in> set hops. good_hop H cj A opts h) \<and> adjacent (extends_hop A opts) hops \<and>
     origin_hop opts (last hops)"


section \<open>The checks decide the declarative conditions\<close>

lemma check_assertion_None: "check_assertion A did c pic = None \<longleftrightarrow> attested_by A c pic"
  by (auto simp: check_assertion_def attested_by_def Let_def split: option.splits)

lemma check_disclosure_None:
  "check_disclosure H cj opts did c pic = None \<longleftrightarrow>
     (case vo_disclosed opts did of
        None \<Rightarrow> \<not> vo_requireDisclosure opts | Some r \<Rightarrow> opens H cj opts c pic r)"
proof (cases "vo_disclosed opts did")
  case (Some r)
  have st: "x \<noteq> St_revoked \<and> x \<noteq> St_unavailable \<and> (x = St_no_status \<longrightarrow> \<not> vo_requireStatus opts) \<longleftrightarrow>
      x = St_ok \<or> (x = St_no_status \<and> \<not> vo_requireStatus opts)" for x
    by (cases x) auto
  show ?thesis
    using Some st by (auto simp: check_disclosure_def opens_def status_ok_def Let_def split: option.splits)
qed (simp add: check_disclosure_def)

lemma check_hop_None:
  "check_hop H cj A opts expect did doc = None \<longleftrightarrow>
     (\<forall>e. expect = Some e \<longrightarrow> dd_versionId doc = Some (pin_versionId (ex_pin e))) \<and>
     good_hop H cj A opts \<lparr>hop_did = did, hop_doc = doc\<rparr>"
proof (cases "dd_pic doc")
  case (Some pic)
  have "check_hop H cj A opts expect did doc = None \<longleftrightarrow>
      (\<forall>e. expect = Some e \<longrightarrow> dd_versionId doc = Some (pin_versionId (ex_pin e))) \<and>
      dd_controller doc \<noteq> [] \<and> check_assertion A did (dd_controller doc) pic = None \<and>
      check_disclosure H cj opts did (dd_controller doc) pic = None"
    using Some
    by (cases "check_assertion A did (dd_controller doc) pic")
      (auto simp: check_hop_def split: option.splits)
  with Some show ?thesis
    by (simp add: check_assertion_None check_disclosure_None good_hop_def hop_controller_def hop_pic_def
        cong: option.case_cong)
qed (auto simp: check_hop_def good_hop_def split: option.splits)

lemma check_link_None:
  "check_link opts cd c d p = None \<longleftrightarrow>
     pic_counter c = pic_counter p + 1 \<and>
     pic_parentAuthorityCommitment c = Some (pic_authorityCommitment p) \<and>
     pic_lineageId c = pic_lineageId p \<and>
     (vo_requireDelegatorBinding opts \<longrightarrow> signer_of_pic c = holder_of p) \<and>
     reveals_narrow opts cd d"
  by (auto simp: check_link_def reveals_narrow_def Let_def split: option.splits)

lemma check_origin_None:
  "check_origin opts d c p = None \<longleftrightarrow>
     pic_counter p = 0 \<and> pic_parentAuthorityCommitment p = None \<and>
     (truthy_string (vo_expectedRootIssuer opts) \<longrightarrow> vo_expectedRootIssuer opts = Some c)"
  by (auto simp: check_origin_def)

lemmas check_Nones = check_hop_None check_link_None check_origin_None

lemma outcome_not_Accepted [simp]: "outcome_of f \<noteq> Accepted k h a c"
  by (cases f) auto

section \<open>The loop accepts exactly the well-formed chains\<close>

text \<open>The chain that starts in the middle of the walk, at a node its child pinned.\<close>

definition chain_from ::
    "hash \<Rightarrow> ('c \<Rightarrow> json) \<Rightarrow> archon \<Rightarrow> 'c verify_options \<Rightarrow> did \<Rightarrow> nat option \<Rightarrow> expectation option \<Rightarrow>
     hop list \<Rightarrow> bool" where
  "chain_from H cj A opts did ver expect hops \<longleftrightarrow>
     hops \<noteq> [] \<and> hop_did (hd hops) = did \<and> resolveDID A did ver = Some (hop_doc (hd hops)) \<and>
     (\<forall>e. expect = Some e \<longrightarrow>
        dd_versionId (hop_doc (hd hops)) = Some (pin_versionId (ex_pin e)) \<and>
        check_link opts (ex_childDid e) (ex_childPic e) did (hop_pic (hd hops)) = None) \<and>
     (\<forall>h \<in> set hops. good_hop H cj A opts h) \<and> adjacent (extends_hop A opts) hops \<and>
     origin_hop opts (last hops)"

lemma chain_from_single:
  "chain_from H cj A opts did ver expect [h] \<longleftrightarrow>
     hop_did h = did \<and> resolveDID A did ver = Some (hop_doc h) \<and>
     check_hop H cj A opts expect did (hop_doc h) = None \<and>
     (\<forall>e. expect = Some e \<longrightarrow> check_link opts (ex_childDid e) (ex_childPic e) did (hop_pic h) = None) \<and>
     pic_prevCredential (hop_pic h) = None \<and>
     check_origin opts did (hop_controller h) (hop_pic h) = None"
  by (cases h) (auto simp: chain_from_def check_hop_None check_origin_None origin_hop_def)

lemma chain_from_Cons:
  "chain_from H cj A opts did ver expect (h # h' # hs) \<longleftrightarrow>
     hop_did h = did \<and> resolveDID A did ver = Some (hop_doc h) \<and>
     check_hop H cj A opts expect did (hop_doc h) = None \<and>
     (\<forall>e. expect = Some e \<longrightarrow> check_link opts (ex_childDid e) (ex_childPic e) did (hop_pic h) = None) \<and>
     (\<exists>pin. pic_prevCredential (hop_pic h) = Some pin \<and>
        chain_from H cj A opts (pin_did pin) (Some (pin_versionSequence pin))
          (Some \<lparr>ex_pin = pin, ex_childPic = hop_pic h, ex_childDid = did\<rparr>) (h' # hs))"
  by (cases h) (auto simp: chain_from_def check_hop_None check_link_None extends_hop_def hop_holder_def)

definition leaf_values ::
    "'c verify_options \<Rightarrow> expectation option \<Rightarrow> hop list \<Rightarrow> did \<times> 'c authority_payload option \<Rightarrow>
     did \<times> 'c authority_payload option" where
  "leaf_values opts expect hops leaf =
     (if expect = None then (hop_holder (hd hops), vo_disclosed opts (hop_did (hd hops))) else leaf)"

lemma walk_step:
  assumes "resolveDID A did ver = Some doc" "check_hop H cj A opts expect did doc = None"
    and "\<forall>e. expect = Some e \<longrightarrow>
      check_link opts (ex_childDid e) (ex_childPic e) did (the (dd_pic doc)) = None"
  shows "walk H cj A opts (Suc n) did ver expect len leaf =
    (let pic = the (dd_pic doc);
         leaf' = (if expect = None then (holder_of pic, vo_disclosed opts did) else leaf)
     in case pic_prevCredential pic of
          None \<Rightarrow>
            (case check_origin opts did (dd_controller doc) pic of
               Some f \<Rightarrow> outcome_of f
             | None \<Rightarrow> Accepted (Suc len) (fst leaf') (map_option ap_authoritySet (snd leaf'))
                 (Option.bind (snd leaf') ap_caveats))
        | Some pin \<Rightarrow>
            walk H cj A opts n (pin_did pin) (Some (pin_versionSequence pin))
              (Some \<lparr>ex_pin = pin, ex_childPic = pic, ex_childDid = did\<rparr>) (Suc len) leaf')"
proof -
  from assms(2) obtain pic where "dd_pic doc = Some pic"
    by (auto simp: check_hop_None good_hop_def)
  with assms show ?thesis by (auto simp: Let_def split: option.splits)
qed

lemma walk_Accepted_step:
  assumes "walk H cj A opts (Suc n) did ver expect len leaf = Accepted k ho au ca"
  obtains doc where "resolveDID A did ver = Some doc" "check_hop H cj A opts expect did doc = None"
    "\<forall>e. expect = Some e \<longrightarrow>
      check_link opts (ex_childDid e) (ex_childPic e) did (the (dd_pic doc)) = None"
  using assms by (auto simp: Let_def split: option.splits)

lemma walk_sound:
  "walk H cj A opts n did ver expect len leaf = Accepted k ho au ca \<Longrightarrow>
     \<exists>hops. chain_from H cj A opts did ver expect hops \<and> length hops \<le> n \<and> k = len + length hops \<and>
       ho = fst (leaf_values opts expect hops leaf) \<and>
       au = map_option ap_authoritySet (snd (leaf_values opts expect hops leaf)) \<and>
       ca = Option.bind (snd (leaf_values opts expect hops leaf)) ap_caveats"
proof (induction n arbitrary: did ver expect len leaf)
  case (Suc n)
  from walk_Accepted_step [OF Suc.prems] obtain doc
    where doc: "resolveDID A did ver = Some doc" "check_hop H cj A opts expect did doc = None"
      "\<forall>e. expect = Some e \<longrightarrow>
        check_link opts (ex_childDid e) (ex_childPic e) did (the (dd_pic doc)) = None" by blast
  let ?h = "\<lparr>hop_did = did, hop_doc = doc\<rparr>"
  let ?leaf = "if expect = None then (holder_of (hop_pic ?h), vo_disclosed opts did) else leaf"
  note run = Suc.prems [unfolded walk_step [OF doc] Let_def]
  show ?case
  proof (cases "pic_prevCredential (hop_pic ?h)")
    case None
    with run have "check_origin opts did (dd_controller doc) (hop_pic ?h) = None"
      and "k = Suc len \<and> ho = fst ?leaf \<and> au = map_option ap_authoritySet (snd ?leaf) \<and>
        ca = Option.bind (snd ?leaf) ap_caveats"
      by (auto simp: hop_pic_def split: option.splits)
    with None doc show ?thesis
      by (intro exI [of _ "[?h]"])
        (auto simp: chain_from_single hop_controller_def hop_pic_def leaf_values_def hop_holder_def)
  next
    case (Some pin)
    let ?e = "Some \<lparr>ex_pin = pin, ex_childPic = hop_pic ?h, ex_childDid = did\<rparr>"
    from Some run have "walk H cj A opts n (pin_did pin) (Some (pin_versionSequence pin)) ?e (Suc len) ?leaf
        = Accepted k ho au ca"
      by (auto simp: hop_pic_def)
    from Suc.IH [OF this] obtain hops where hops:
      "chain_from H cj A opts (pin_did pin) (Some (pin_versionSequence pin)) ?e hops"
      "length hops \<le> n" "k = Suc len + length hops" "ho = fst ?leaf"
      "au = map_option ap_authoritySet (snd ?leaf)" "ca = Option.bind (snd ?leaf) ap_caveats"
      unfolding leaf_values_def by auto
    then obtain h' hs where "hops = h' # hs"
      by (cases hops) (auto simp: chain_from_def)
    with hops Some doc show ?thesis
      by (intro exI [of _ "?h # hops"])
        (auto simp: chain_from_Cons hop_pic_def leaf_values_def hop_holder_def)
  qed
qed simp

lemma walk_complete:
  "chain_from H cj A opts did ver expect hops \<Longrightarrow> length hops \<le> n \<Longrightarrow>
     walk H cj A opts n did ver expect len leaf =
       Accepted (len + length hops) (fst (leaf_values opts expect hops leaf))
         (map_option ap_authoritySet (snd (leaf_values opts expect hops leaf)))
         (Option.bind (snd (leaf_values opts expect hops leaf)) ap_caveats)"
proof (induction hops arbitrary: n did ver expect len leaf)
  case Nil
  then show ?case by (simp add: chain_from_def)
next
  case (Cons h hops)
  then obtain n' where n: "n = Suc n'" by (cases n) auto
  show ?case
  proof (cases hops)
    case Nil
    with Cons.prems have c: "chain_from H cj A opts did ver expect [h]" by simp
    then have r: "resolveDID A did ver = Some (hop_doc h)"
        "check_hop H cj A opts expect did (hop_doc h) = None"
        "\<forall>e. expect = Some e \<longrightarrow>
          check_link opts (ex_childDid e) (ex_childPic e) did (the (dd_pic (hop_doc h))) = None"
      by (simp_all add: chain_from_single hop_pic_def)
    from c Nil show ?thesis
      unfolding n walk_step [OF r]
      by (auto simp: chain_from_single hop_pic_def hop_controller_def leaf_values_def hop_holder_def Let_def)
  next
    case (Cons h' hs)
    with Cons.prems have c: "chain_from H cj A opts did ver expect (h # h' # hs)" by simp
    then have r: "resolveDID A did ver = Some (hop_doc h)"
        "check_hop H cj A opts expect did (hop_doc h) = None"
        "\<forall>e. expect = Some e \<longrightarrow>
          check_link opts (ex_childDid e) (ex_childPic e) did (the (dd_pic (hop_doc h))) = None"
      by (simp_all add: chain_from_Cons hop_pic_def)
    from c obtain pin where pin: "pic_prevCredential (hop_pic h) = Some pin"
      "chain_from H cj A opts (pin_did pin) (Some (pin_versionSequence pin))
        (Some \<lparr>ex_pin = pin, ex_childPic = hop_pic h, ex_childDid = did\<rparr>) hops"
      unfolding Cons by (auto simp: chain_from_Cons)
    have len: "length hops \<le> n'" using Cons.prems n by simp
    from c have "hop_did h = did" by (simp add: chain_from_Cons)
    with pin(1) show ?thesis
      unfolding n walk_step [OF r]
      using Cons.IH [OF pin(2) len]
      by (simp add: hop_pic_def leaf_values_def hop_holder_def Let_def)
  qed
qed

lemma chain_from_start: "chain_from H cj A opts did None None hops \<longleftrightarrow> good_chain H cj A opts did hops"
  by (auto simp: chain_from_def good_chain_def)

lemma verify_accepts_iff:
  "verifyAttenuationChain H cj A opts leaf = Accepted k ho au ca \<longleftrightarrow>
     (\<exists>hops. good_chain H cj A opts leaf hops \<and> length hops \<le> vo_maxHops opts \<and> k = length hops \<and>
        ho = hop_holder (hd hops) \<and> au = map_option ap_authoritySet (vo_disclosed opts leaf) \<and>
        ca = Option.bind (vo_disclosed opts leaf) ap_caveats)"
proof
  assume "verifyAttenuationChain H cj A opts leaf = Accepted k ho au ca"
  from walk_sound [OF this [unfolded verifyAttenuationChain_def]]
  show "\<exists>hops. good_chain H cj A opts leaf hops \<and> length hops \<le> vo_maxHops opts \<and> k = length hops \<and>
        ho = hop_holder (hd hops) \<and> au = map_option ap_authoritySet (vo_disclosed opts leaf) \<and>
        ca = Option.bind (vo_disclosed opts leaf) ap_caveats"
    by (auto simp: chain_from_start leaf_values_def good_chain_def)
next
  assume "\<exists>hops. good_chain H cj A opts leaf hops \<and> length hops \<le> vo_maxHops opts \<and> k = length hops \<and>
        ho = hop_holder (hd hops) \<and> au = map_option ap_authoritySet (vo_disclosed opts leaf) \<and>
        ca = Option.bind (vo_disclosed opts leaf) ap_caveats"
  then obtain hops where "good_chain H cj A opts leaf hops" "length hops \<le> vo_maxHops opts" "k = length hops"
      "ho = hop_holder (hd hops)" "au = map_option ap_authoritySet (vo_disclosed opts leaf)"
      "ca = Option.bind (vo_disclosed opts leaf) ap_caveats" by blast
  then show "verifyAttenuationChain H cj A opts leaf = Accepted k ho au ca"
    unfolding verifyAttenuationChain_def
    by (subst walk_complete [of H cj A opts leaf None None hops])
      (auto simp: chain_from_start leaf_values_def good_chain_def)
qed


text \<open>
  C16. The verifier accepts a leaf exactly when a well-formed chain of at most \<open>maxHops\<close> hops leads
  from it to an origin: every hop resolves, is signed by its controller and opens its disclosed
  commitment with a live status, every hop extends the pinned version of its parent, and the origin
  has counter 0, no parent commitment and the expected root issuer. What it returns is the length
  of that chain, the leaf's attested holder and the leaf's disclosed authority and caveats.
\<close>

theorem accepted_iff_well_formed_chain:
  "verifyAttenuationChain H cj A opts leaf = Accepted k ho au ca \<longleftrightarrow>
     (\<exists>hops. good_chain H cj A opts leaf hops \<and> length hops \<le> vo_maxHops opts \<and> k = length hops \<and>
        ho = hop_holder (hd hops) \<and> au = map_option ap_authoritySet (vo_disclosed opts leaf) \<and>
        ca = Option.bind (vo_disclosed opts leaf) ap_caveats)"
  by (rule verify_accepts_iff)

section \<open>What an accepted chain guarantees\<close>

lemma good_chain_hop: "good_chain H cj A opts leaf hops \<Longrightarrow> h \<in> set hops \<Longrightarrow> good_hop H cj A opts h"
  by (simp add: good_chain_def)

lemma good_chain_adjacent: "good_chain H cj A opts leaf hops \<Longrightarrow> adjacent (extends_hop A opts) hops"
  by (simp add: good_chain_def)

lemma good_chain_link:
  "good_chain H cj A opts leaf hops \<Longrightarrow> Suc i < length hops \<Longrightarrow> extends_hop A opts (hops ! i) (hops ! Suc i)"
  by (simp add: good_chain_def adjacent_nth)

lemma good_chain_lineage:
  assumes "good_chain H cj A opts leaf hops" "h \<in> set hops"
  shows "pic_lineageId (hop_pic h) = pic_lineageId (hop_pic (last hops))"
proof -
  have "adjacent (\<lambda>c p. pic_lineageId (hop_pic c) = pic_lineageId (hop_pic p)) hops"
    using good_chain_adjacent [OF assms(1)] by (rule adjacent_mono) (simp add: extends_hop_def)
  from adjacent_const [OF this assms(2)] show ?thesis .
qed

lemma good_chain_counter:
  assumes "good_chain H cj A opts leaf hops" "i < length hops"
  shows "pic_counter (hop_pic (hops ! i)) = int (length hops) - 1 - int i"
proof -
  have "adjacent (\<lambda>c p. pic_counter (hop_pic c) = pic_counter (hop_pic p) + 1) hops"
    using good_chain_adjacent [OF assms(1)] by (rule adjacent_mono) (simp add: extends_hop_def)
  from adjacent_count [OF this assms(2)] assms(1) show ?thesis
    by (simp add: good_chain_def origin_hop_def)
qed

text \<open>The authority a hop was disclosed with.\<close>

definition hop_authority :: "'c verify_options \<Rightarrow> hop \<Rightarrow> authority_set" where
  "hop_authority opts h = ap_authoritySet (the (vo_disclosed opts (hop_did h)))"

lemma good_chain_disclosed:
  assumes "good_chain H cj A opts leaf hops" "vo_requireDisclosure opts" "h \<in> set hops"
  obtains r where "vo_disclosed opts (hop_did h) = Some r"
    and "opens H cj opts (hop_controller h) (hop_pic h) r"
  using good_chain_hop [OF assms(1,3)] assms(2) by (auto simp: good_hop_def split: option.splits)

lemma good_chain_narrows:
  assumes chain: "good_chain H cj A opts leaf hops" and full: "vo_requireDisclosure opts"
  shows "adjacent (\<lambda>c p. isSubset (hop_authority opts c) (hop_authority opts p) \<and>
      (\<forall>narrows. vo_caveatNarrows opts = Some narrows \<longrightarrow>
        narrows (ap_caveats (the (vo_disclosed opts (hop_did c))))
          (ap_caveats (the (vo_disclosed opts (hop_did p)))))) hops"
  unfolding adjacent_nth
proof (intro allI impI)
  fix i assume i: "Suc i < length hops"
  from good_chain_disclosed [OF chain full, of "hops ! i"] i obtain c
    where c: "vo_disclosed opts (hop_did (hops ! i)) = Some c" by auto
  from good_chain_disclosed [OF chain full, of "hops ! Suc i"] i obtain p
    where p: "vo_disclosed opts (hop_did (hops ! Suc i)) = Some p" by auto
  show "isSubset (hop_authority opts (hops ! i)) (hop_authority opts (hops ! Suc i)) \<and>
      (\<forall>narrows. vo_caveatNarrows opts = Some narrows \<longrightarrow>
        narrows (ap_caveats (the (vo_disclosed opts (hop_did (hops ! i)))))
          (ap_caveats (the (vo_disclosed opts (hop_did (hops ! Suc i))))))"
    using good_chain_link [OF chain i] c p by (auto simp: extends_hop_def reveals_narrow_def hop_authority_def)
qed

lemma good_chain_leaf_below:
  assumes "good_chain H cj A opts leaf hops" "vo_requireDisclosure opts" "h \<in> set hops"
  shows "isSubset (hop_authority opts (hd hops)) (hop_authority opts h)"
proof -
  obtain x xs where hops: "hops = x # xs" using assms(1) by (cases hops) (auto simp: good_chain_def)
  have "adjacent (\<lambda>c p. isSubset (hop_authority opts c) (hop_authority opts p)) hops"
    using good_chain_narrows [OF assms(1,2)] by (rule adjacent_mono) simp
  with adjacent_transp_all [of "\<lambda>c p. isSubset (hop_authority opts c) (hop_authority opts p)" x xs h]
  show ?thesis using assms(3) hops by (auto intro!: transpI dest: isSubset_trans)
qed



section \<open>The kill switch\<close>

text \<open>The hop reached from a node by following \<open>i\<close> pinned parent pointers.\<close>

fun ancestor :: "archon \<Rightarrow> did \<Rightarrow> nat option \<Rightarrow> nat \<Rightarrow> hop option" where
  "ancestor A did ver 0 = map_option (\<lambda>doc. \<lparr>hop_did = did, hop_doc = doc\<rparr>) (resolveDID A did ver)"
| "ancestor A did ver (Suc i) =
     (case resolveDID A did ver of
        None \<Rightarrow> None
      | Some doc \<Rightarrow>
          (case Option.bind (dd_pic doc) pic_prevCredential of
             None \<Rightarrow> None
           | Some pin \<Rightarrow> ancestor A (pin_did pin) (Some (pin_versionSequence pin)) i))"

lemma chain_from_ancestor:
  "chain_from H cj A opts did ver expect hops \<Longrightarrow> ancestor A did ver i = Some h \<Longrightarrow>
     i < length hops \<and> h = hops ! i"
proof (induction i arbitrary: did ver expect hops)
  case 0
  then show ?case by (cases hops) (auto simp: chain_from_def)
next
  case (Suc i)
  obtain g gs where hops: "hops = g # gs" using Suc.prems(1) by (cases hops) (auto simp: chain_from_def)
  have pic: "dd_pic (hop_doc g) = Some (hop_pic g)"
    using Suc.prems(1) hops by (auto simp: chain_from_def good_hop_def hop_pic_def)
  show ?case
  proof (cases gs)
    case Nil
    with Suc.prems hops pic show ?thesis by (auto simp: chain_from_single)
  next
    case (Cons g' gs')
    then have "chain_from H cj A opts did ver expect (g # g' # gs')"
      using Suc.prems(1) hops by simp
    then obtain pin where pin: "pic_prevCredential (hop_pic g) = Some pin"
      "chain_from H cj A opts (pin_did pin) (Some (pin_versionSequence pin))
        (Some \<lparr>ex_pin = pin, ex_childPic = hop_pic g, ex_childDid = did\<rparr>) gs"
      "resolveDID A did ver = Some (hop_doc g)"
      unfolding chain_from_Cons Cons by blast
    with Suc.prems(2) pic have "ancestor A (pin_did pin) (Some (pin_versionSequence pin)) i = Some h"
      by simp
    from Suc.IH [OF pin(2) this] hops show ?thesis by simp
  qed
qed

lemma accepted_ancestor:
  assumes "verifyAttenuationChain H cj A opts leaf = Accepted k ho au ca"
    and "ancestor A leaf None i = Some h"
  shows "good_hop H cj A opts h \<and> i < k"
proof -
  from assms(1) obtain hops where hops: "good_chain H cj A opts leaf hops" "k = length hops"
    unfolding verify_accepts_iff by blast
  from chain_from_ancestor [of H cj A opts leaf None None hops i h] hops assms(2)
  have "i < length hops \<and> h = hops ! i" by (simp add: chain_from_start)
  with hops show ?thesis by (auto simp: good_chain_def)
qed

text \<open>
  C12. The per-hop kill switch: if following the pinned parent pointers from a leaf ever reaches a
  disclosed hop whose status checker answers \<open>revoked\<close> or \<open>unavailable\<close> (or \<open>no-status\<close> when a
  status is required), the leaf is not accepted, at any depth and whatever the rest of the chain
  holds: revoking an intermediate hop kills its whole subtree.
\<close>

theorem revoked_ancestor_blocks_leaf:
  assumes "ancestor A leaf None i = Some h"
    and "vo_disclosed opts (hop_did h) = Some r" "vo_checkHopStatus opts = Some status"
    and "status (ap_caveats r) (hop_controller h) \<in> {St_revoked, St_unavailable} \<or>
      (status (ap_caveats r) (hop_controller h) = St_no_status \<and> vo_requireStatus opts)"
  shows "verifyAttenuationChain H cj A opts leaf \<noteq> Accepted k ho au ca"
proof
  assume "verifyAttenuationChain H cj A opts leaf = Accepted k ho au ca"
  from accepted_ancestor [OF this assms(1)] assms(2-4) show False
    by (auto simp: good_hop_def opens_def status_ok_def)
qed

section \<open>Honest issuance is accepted\<close>

text \<open>One minted hop: the inputs of \<open>issueVc\<close> and its result.\<close>

record 'c minted =
  mi_env :: issue_env
  mi_args :: "'c issue_args"
  mi_vc :: "'c issued_vc"
  mi_pic :: pic_block

text \<open>The document a minted hop is published as.\<close>

definition published :: "'c minted \<Rightarrow> did_doc" where
  "published m = \<lparr>dd_versionId = Some (ie_versionId (mi_env m)), dd_controller = ie_issuerDid (mi_env m),
     dd_pic = Some (mi_pic m)\<rparr>"

text \<open>
  A hop minted without the test-only knobs, whose assertion verifies under the issuer's key, whose
  disclosure is what was minted, and whose status is live.
\<close>

definition honest :: "hash \<Rightarrow> ('c \<Rightarrow> json) \<Rightarrow> archon \<Rightarrow> 'c verify_options \<Rightarrow> 'c minted \<Rightarrow> bool" where
  "honest H cj A opts m \<longleftrightarrow>
     issueVc H cj (mi_env m) (mi_args m) = Inr (mi_vc m, mi_pic m) \<and>
     ia_forgeAssertionWith (mi_args m) = None \<and> ia_overrideCounter (mi_args m) = None \<and>
     ia_overrideParentCommitment (mi_args m) = None \<and> ia_overrideLineageId (mi_args m) = None \<and>
     ia_overridePrev (mi_args m) = None \<and> \<not> ia_skipSubsetGuard (mi_args m) \<and>
     ie_issuerDid (mi_env m) \<noteq> [] \<and>
     (case pic_attenuationAssertion (mi_pic m) of
        Some a \<Rightarrow> verifyProof A a \<and> signerOf a = ie_issuerDid (mi_env m) | None \<Rightarrow> False) \<and>
     vo_disclosed opts (iv_vcDid (mi_vc m)) =
       Some \<lparr>ap_authoritySet = iv_authoritySet (mi_vc m), ap_salt = iv_salt (mi_vc m),
             ap_caveats = iv_caveats (mi_vc m)\<rparr> \<and>
     status_ok opts (iv_caveats (mi_vc m)) (ie_issuerDid (mi_env m))"

text \<open>\<open>c\<close> was delegated from \<open>p\<close> by the holder of \<open>p\<close>, and the registry serves the version of \<open>p\<close>
  that its pin names.\<close>

definition delegated_from :: "archon \<Rightarrow> 'c verify_options \<Rightarrow> 'c minted \<Rightarrow> 'c minted \<Rightarrow> bool" where
  "delegated_from A opts c p \<longleftrightarrow>
     ia_parent (mi_args c) = Some (mi_vc p) \<and> ie_issuerDid (mi_env c) = iv_holder (mi_vc p) \<and>
     resolveDID A (iv_vcDid (mi_vc p)) (Some (ie_versionSequence (mi_env p))) = Some (published p) \<and>
     (case vo_caveatNarrows opts of
        Some narrows \<Rightarrow> narrows (iv_caveats (mi_vc c)) (iv_caveats (mi_vc p)) | None \<Rightarrow> True)"

definition hop_of :: "'c minted \<Rightarrow> hop" where
  "hop_of m = \<lparr>hop_did = iv_vcDid (mi_vc m), hop_doc = published m\<rparr>"

lemma hop_of_simps [simp]:
  "hop_did (hop_of m) = iv_vcDid (mi_vc m)" "hop_doc (hop_of m) = published m"
  "hop_pic (hop_of m) = mi_pic m" "hop_controller (hop_of m) = ie_issuerDid (mi_env m)"
  by (simp_all add: hop_of_def hop_pic_def hop_controller_def published_def)

lemma honest_pic:
  assumes "honest H cj A opts m"
  shows "mi_pic m = issue_pic (mi_env m) (mi_args m) (iv_authorityCommitment (mi_vc m))"
  using assms by (auto simp: honest_def dest: issueVc_Inr)

lemma honest_good_hop:
  assumes h: "honest H cj A opts m"
  shows "good_hop H cj A opts (hop_of m)"
proof -
  let ?a = "issue_assertion (mi_env m) (mi_args m) (iv_authorityCommitment (mi_vc m))"
  have pic: "mi_pic m = issue_pic (mi_env m) (mi_args m) (iv_authorityCommitment (mi_vc m))"
    using honest_pic [OF h] .
  then have asrt: "pic_attenuationAssertion (mi_pic m) = Some ?a" by (simp add: issue_pic_def)
  have "verifyProof A ?a \<and> signerOf ?a = ie_issuerDid (mi_env m)"
    using h asrt by (simp add: honest_def)
  then have "attested_by A (ie_issuerDid (mi_env m)) (mi_pic m)"
    by (simp add: attested_by_def pic issue_pic_def issue_assertion_def Let_def)
  moreover have "commit H cj (iv_authoritySet (mi_vc m)) (iv_salt (mi_vc m)) (iv_caveats (mi_vc m))
      = Some (pic_authorityCommitment (mi_pic m))"
    using h issueVc_Inr(1) by (auto simp: honest_def pic issue_pic_def)
  ultimately show ?thesis
    using h by (simp add: good_hop_def opens_def honest_def published_def)
qed

lemma delegated_extends:
  assumes c: "honest H cj A opts c" and p: "honest H cj A opts p" and d: "delegated_from A opts c p"
  shows "extends_hop A opts (hop_of c) (hop_of p)"
proof -
  have ic: "issueVc H cj (mi_env c) (mi_args c) = Inr (mi_vc c, mi_pic c)"
    and ip: "issueVc H cj (mi_env p) (mi_args p) = Inr (mi_vc p, mi_pic p)"
    using c p by (simp_all add: honest_def)
  note icp = issueVc_Inr [OF ic] issueVc_Inr [OF ip]
  have sub: "isSubset (iv_authoritySet (mi_vc c)) (iv_authoritySet (mi_vc p))"
    using issueVc_narrows [OF ic] c d by (simp add: honest_def delegated_from_def)
  have prev: "pic_prevCredential (mi_pic c) = Some (iv_pin (mi_vc p))"
    using c d icp(2) by (simp add: honest_def delegated_from_def issue_pic_def issue_prev_def)
  have signer: "signer_of_pic (mi_pic c) = hop_holder (hop_of p)"
    using c d icp(2,12,16) by (auto simp: honest_def delegated_from_def signer_of_pic_def hop_holder_def
        holder_of_def issue_pic_def issue_assertion_def Let_def)
  have fields: "pic_counter (mi_pic c) = pic_counter (mi_pic p) + 1"
      "pic_parentAuthorityCommitment (mi_pic c) = Some (pic_authorityCommitment (mi_pic p))"
      "pic_lineageId (mi_pic c) = pic_lineageId (mi_pic p)"
    using c d icp by (simp_all add: honest_def delegated_from_def issue_pic_def issue_counter_def
        issue_parentCommitment_def issue_lineageId_def)
  have pin: "iv_pin (mi_vc p) = \<lparr>pin_did = iv_vcDid (mi_vc p), pin_versionId = ie_versionId (mi_env p),
      pin_versionSequence = ie_versionSequence (mi_env p)\<rparr>"
    using icp(15,20) by simp
  have reveals: "reveals_narrow opts (iv_vcDid (mi_vc c)) (iv_vcDid (mi_vc p))"
    using c p d sub by (simp add: honest_def delegated_from_def reveals_narrow_def split: option.splits)
  have resolved: "resolveDID A (iv_vcDid (mi_vc p)) (Some (ie_versionSequence (mi_env p))) = Some (published p)"
    "dd_versionId (published p) = Some (ie_versionId (mi_env p))"
    using d by (simp_all add: delegated_from_def published_def)
  show ?thesis
    using prev signer fields reveals resolved by (simp add: extends_hop_def pin)
qed

text \<open>
  Round trip: a chain minted hop by hop with \<open>issueVc\<close>, each hop by the holder of its parent,
  starting at an origin of the expected root issuer, is accepted by the verifier, which returns the
  leaf's holder, its normalized authority and its caveats.
\<close>

theorem honest_chain_accepted:
  assumes "ms \<noteq> []" "length ms \<le> vo_maxHops opts" "\<forall>m \<in> set ms. honest H cj A opts m"
    and "adjacent (delegated_from A opts) ms" "ia_parent (mi_args (last ms)) = None"
    and "vo_expectedRootIssuer opts = Some (ie_issuerDid (mi_env (last ms)))"
    and "resolveDID A (iv_vcDid (mi_vc (hd ms))) None = Some (published (hd ms))"
  shows "verifyAttenuationChain H cj A opts (iv_vcDid (mi_vc (hd ms))) =
    Accepted (length ms) (iv_holder (mi_vc (hd ms))) (Some (iv_authoritySet (mi_vc (hd ms))))
      (iv_caveats (mi_vc (hd ms)))"
proof -
  have hd: "honest H cj A opts (hd ms)" and last: "honest H cj A opts (last ms)"
    using assms(1,3) by simp_all
  have adj: "adjacent (extends_hop A opts) (map hop_of ms)"
    unfolding adjacent_nth
  proof (intro allI impI)
    fix i assume i: "Suc i < length (map hop_of ms)"
    then have "delegated_from A opts (ms ! i) (ms ! Suc i)"
      using assms(4) by (simp add: adjacent_nth)
    with i assms(3) show "extends_hop A opts (map hop_of ms ! i) (map hop_of ms ! Suc i)"
      using delegated_extends [of H cj A opts "ms ! i" "ms ! Suc i"] by simp
  qed
  have origin: "origin_hop opts (hop_of (last ms))"
    using last honest_pic [OF last] assms(5,6)
    by (auto simp: origin_hop_def honest_def issue_pic_def issue_counter_def issue_prev_def
        issue_parentCommitment_def)
  have "good_chain H cj A opts (iv_vcDid (mi_vc (hd ms))) (map hop_of ms)"
    using assms(1,3,7) adj origin by (auto simp: good_chain_def hd_map last_map honest_good_hop)
  moreover have "hop_holder (hop_of (hd ms)) = iv_holder (mi_vc (hd ms))"
    using honest_pic [OF hd] hd
    by (auto simp: hop_holder_def holder_of_def issue_pic_def issue_assertion_def honest_def Let_def
        dest: issueVc_Inr(6))
  ultimately show ?thesis
    unfolding verify_accepts_iff using assms(1,2) hd
    by (intro exI [of _ "map hop_of ms"]) (auto simp: hd_map honest_def)
qed


end
