(* ===== verification/Chain_Example.thy ===== *)
theory Chain_Example
  imports Attenuation_Chain
begin

text \<open>
  A concrete two-hop chain, minted by \<open>issueVc\<close> and verified by \<open>verifyAttenuationChain\<close> in the
  kernel, and the witnesses of the properties of \<open>Attenuation_Chain\<close> at it.
\<close>

section \<open>A concrete chain\<close>

text \<open>
  A Sovereign \<open>S\<close> grants \<open>E\<close> reading and proving over two cards, and \<open>E\<close> delegates reading of one
  to \<open>F\<close>. The hash is the identity and a caveat is a label; the registry serves the published
  documents. It shows that the hypotheses of the theorems above hold together.
\<close>

definition ex_env :: "did \<Rightarrow> did \<Rightarrow> string \<Rightarrow> issue_env" where
  "ex_env issuer vc ver = \<lparr>ie_issuerDid = issuer, ie_salt = ''salt'' @ vc, ie_vcDid = vc,
     ie_addProof = (\<lambda>a n. \<lparr>verificationMethod = issuer @ ''#key-1'', proofValue = ''sig'', created = ''t''\<rparr>),
     ie_versionId = ver, ie_versionSequence = 2\<rparr>"

definition ex_args :: "did \<Rightarrow> authority_set \<Rightarrow> string issued_vc option \<Rightarrow> string issue_args" where
  "ex_args holder auth parent = \<lparr>ia_issuerName = ''me'', ia_holder = holder, ia_authoritySet = auth,
     ia_caveats = Some ''LOW'', ia_parent = parent, ia_forgeAssertionWith = None,
     ia_overrideCounter = None, ia_overrideParentCommitment = None, ia_overrideLineageId = None,
     ia_overridePrev = None, ia_skipSubsetGuard = False\<rparr>"

definition ex_mint :: "issue_env \<Rightarrow> string issue_args \<Rightarrow> string minted list" where
  "ex_mint env args = (case issueVc id JStr env args of
     Inr (vc, pic) \<Rightarrow> [\<lparr>mi_env = env, mi_args = args, mi_vc = vc, mi_pic = pic\<rparr>] | Inl _ \<Rightarrow> [])"

definition ex_root :: "string minted" where
  "ex_root = hd (ex_mint (ex_env ''S'' ''v1'' ''x1'')
     (ex_args ''E'' \<lparr>operations = [''read'', ''prove''], resources = [''card:y'', ''card:x'']\<rparr> None))"

definition ex_leaf :: "string minted" where
  "ex_leaf = hd (ex_mint (ex_env ''E'' ''v2'' ''x2'')
     (ex_args ''F'' \<lparr>operations = [''read''], resources = [''card:x'']\<rparr> (Some (mi_vc ex_root))))"

definition ex_archon :: archon where
  "ex_archon = \<lparr>resolveDID = (\<lambda>did ver. if did = ''v2'' then Some (published ex_leaf)
       else if did = ''v1'' then Some (published ex_root) else None),
     verifyProof = (\<lambda>a. aa_proof a \<noteq> None)\<rparr>"

definition ex_opts :: "(string option \<Rightarrow> did \<Rightarrow> hop_status) \<Rightarrow> string verify_options" where
  "ex_opts status = \<lparr>vo_expectedRootIssuer = Some ''S'',
     vo_disclosed = (\<lambda>did. if did = ''v2'' then Some \<lparr>ap_authoritySet = iv_authoritySet (mi_vc ex_leaf),
           ap_salt = iv_salt (mi_vc ex_leaf), ap_caveats = iv_caveats (mi_vc ex_leaf)\<rparr>
       else if did = ''v1'' then Some \<lparr>ap_authoritySet = iv_authoritySet (mi_vc ex_root),
           ap_salt = iv_salt (mi_vc ex_root), ap_caveats = iv_caveats (mi_vc ex_root)\<rparr> else None),
     vo_maxHops = 64, vo_requireDisclosure = True, vo_caveatNarrows = Some (\<lambda>c p. c = p),
     vo_requireStatus = True, vo_checkHopStatus = Some status, vo_requireDelegatorBinding = True\<rparr>"

definition ex_live :: "string option \<Rightarrow> did \<Rightarrow> hop_status" where
  "ex_live cav issuer = St_ok"

definition ex_revoked_by_S :: "string option \<Rightarrow> did \<Rightarrow> hop_status" where
  "ex_revoked_by_S cav issuer = (if issuer = ''S'' then St_revoked else St_ok)"

lemma ex_accepted:
  "verifyAttenuationChain id JStr ex_archon (ex_opts ex_live) ''v2'' =
     Accepted 2 ''F'' (Some \<lparr>operations = [''read''], resources = [''card:x'']\<rparr>) (Some ''LOW'')"
  by code_simp

lemma ex_honest:
  "honest id JStr ex_archon (ex_opts ex_live) ex_root"
  "honest id JStr ex_archon (ex_opts ex_live) ex_leaf"
  "delegated_from ex_archon (ex_opts ex_live) ex_leaf ex_root"
  by code_simp+


lemma ex_dids:
  "iv_vcDid (mi_vc ex_leaf) = ''v2''" "iv_holder (mi_vc ex_leaf) = ''F''"
  "ia_parent (mi_args ex_root) = None" "ie_issuerDid (mi_env ex_root) = ''S''"
  by code_simp+


lemma revoked_ancestor_blocks_leaf_witness:
  "\<nexists>k ho au ca. verifyAttenuationChain id JStr ex_archon (ex_opts ex_revoked_by_S) ''v2'' = Accepted k ho au ca"
proof -
  have anc: "ancestor ex_archon ''v2'' None 1 = Some (hop_of ex_root)" by code_simp
  have disc: "vo_disclosed (ex_opts ex_revoked_by_S) (hop_did (hop_of ex_root)) =
      Some \<lparr>ap_authoritySet = iv_authoritySet (mi_vc ex_root), ap_salt = iv_salt (mi_vc ex_root),
            ap_caveats = iv_caveats (mi_vc ex_root)\<rparr>"
    by code_simp
  have chk: "vo_checkHopStatus (ex_opts ex_revoked_by_S) = Some ex_revoked_by_S"
    by (simp add: ex_opts_def)
  have rev: "ex_revoked_by_S c (hop_controller (hop_of ex_root)) = St_revoked" for c
    by (simp add: ex_revoked_by_S_def ex_dids)
  show ?thesis
    using revoked_ancestor_blocks_leaf [OF anc disc chk] rev by simp
qed

lemma honest_chain_accepted_witness:
  "verifyAttenuationChain id JStr ex_archon (ex_opts ex_live) (iv_vcDid (mi_vc ex_leaf)) =
     Accepted 2 (iv_holder (mi_vc ex_leaf)) (Some (iv_authoritySet (mi_vc ex_leaf)))
       (iv_caveats (mi_vc ex_leaf))"
  using honest_chain_accepted [of "[ex_leaf, ex_root]" "ex_opts ex_live" id JStr ex_archon] ex_honest
  by (simp add: ex_opts_def ex_dids ex_archon_def)

end
