(* ===== verification/Single_Use.thy ===== *)
theory Single_Use
  imports Prelude
begin

text \<open>
  The single-use ledgers of \<open>packages/core/src/single-use.ts\<close>. The interface \<open>SpentTxnStore\<close> is the
  locale \<open>spent_ledger\<close>; both implementations are interpreted in it: the in-memory set and the
  file, whose unreadable or corrupt contents make every operation throw (\<^const>\<open>None\<close>).

  The lemmas show that a burned transaction stays burned, that a ledger that cannot be read never
  reads as "nothing spent", that a crash between the two file writes keeps the old ledger, and that
  the file ledger's read and write are not one atomic step.
\<close>

section \<open>The interface\<close>

text \<open>Both operations are promises: \<^const>\<open>None\<close> is a rejected one.\<close>

locale spent_ledger =
  fixes isSpent :: "'s \<Rightarrow> string \<Rightarrow> bool option"
    and markSpent :: "'s \<Rightarrow> string \<Rightarrow> 's option"
  assumes isSpent_markSpent: "markSpent s t = Some s' \<Longrightarrow> isSpent s u = Some b \<Longrightarrow> isSpent s' u = Some (u = t \<or> b)"
    and markSpent_total: "isSpent s t = Some b \<Longrightarrow> \<exists>s'. markSpent s t = Some s'"
    and fails_closed: "isSpent s t = None \<Longrightarrow> markSpent s u = None"
    and fails_uniformly: "isSpent s t = None \<Longrightarrow> isSpent s u = None"
begin

definition spent :: "'s \<Rightarrow> string set" where
  "spent s = {t. isSpent s t = Some True}"

lemma markSpent_readable: "markSpent s t = Some s' \<Longrightarrow> \<exists>b. isSpent s u = Some b"
  using fails_closed [of s u t] by (cases "isSpent s u") auto

lemma spent_markSpent:
  assumes "markSpent s t = Some s'"
  shows "spent s' = insert t (spent s)"
proof (rule set_eqI)
  fix u
  obtain b where b: "isSpent s u = Some b" using markSpent_readable [OF assms] by blast
  from isSpent_markSpent [OF assms b] b show "u \<in> spent s' \<longleftrightarrow> u \<in> insert t (spent s)"
    by (simp add: spent_def)
qed

lemma isSpent_iff: "isSpent s t = Some b \<Longrightarrow> b \<longleftrightarrow> t \<in> spent s"
  by (auto simp: spent_def)

lemma isSpent_readable: "isSpent s t = Some b \<Longrightarrow> isSpent s u = Some (u \<in> spent s)"
  using fails_uniformly [of s u t] by (cases "isSpent s u") (auto simp: spent_def)

text \<open>Several transactions marked one after the other.\<close>

fun mark_all :: "'s \<Rightarrow> string list \<Rightarrow> 's option" where
  "mark_all s [] = Some s"
| "mark_all s (t # ts) = (case markSpent s t of None \<Rightarrow> None | Some s' \<Rightarrow> mark_all s' ts)"

lemma spent_mark_all: "mark_all s ts = Some s' \<Longrightarrow> spent s' = set ts \<union> spent s"
  by (induction s ts rule: mark_all.induct) (auto split: option.splits dest: spent_markSpent)

lemma readable_markSpent: "markSpent s t = Some s' \<Longrightarrow> \<exists>b. isSpent s' u = Some b"
  using markSpent_readable isSpent_markSpent by blast

lemma mark_all_total: "isSpent s t = Some b \<Longrightarrow> \<exists>s'. mark_all s ts = Some s'"
proof (induction ts arbitrary: s t b)
  case (Cons x xs)
  have "isSpent s x \<noteq> None" using fails_uniformly [of s x t] Cons.prems by auto
  then obtain c where "isSpent s x = Some c" by auto
  then obtain s1 where s1: "markSpent s x = Some s1" using markSpent_total by blast
  moreover from readable_markSpent [OF s1] obtain c' where "isSpent s1 x = Some c'" by blast
  ultimately show ?case using Cons.IH [of s1 x c'] by auto
qed simp

end

section \<open>The in-memory ledger\<close>

type_synonym memory_ledger = "string set"

definition memory_isSpent :: "memory_ledger \<Rightarrow> string \<Rightarrow> bool option" where
  "memory_isSpent spent txn = Some (txn \<in> spent)"

definition memory_markSpent :: "memory_ledger \<Rightarrow> string \<Rightarrow> memory_ledger option" where
  "memory_markSpent spent txn = Some (insert txn spent)"

interpretation memory_ledger: spent_ledger memory_isSpent memory_markSpent
  by unfold_locales (auto simp: memory_isSpent_def memory_markSpent_def)

section \<open>The file ledger\<close>

text \<open>
  What reading \<open>spent-txns.json\<close> finds: no file, a file that cannot be read, text that is not JSON,
  JSON that is not an array, or the array of burned transactions.
\<close>

datatype ledger_file = Missing | Unreadable | Unparseable | NotArray | Entries "string list"

fun ledger_all :: "ledger_file \<Rightarrow> string list option" where
  "ledger_all Missing = Some []"
| "ledger_all (Entries ts) = Some ts"
| "ledger_all _ = None"

definition file_isSpent :: "ledger_file \<Rightarrow> string \<Rightarrow> bool option" where
  "file_isSpent f txn = map_option (\<lambda>ts. txn \<in> set ts) (ledger_all f)"

text \<open>
  \<open>markSpent\<close> in two parts, because other handlers may run between its reads and its write: the new
  contents computed from what was read, if a write is needed, and the write of a temporary file that
  is then renamed over the ledger. Only the rename changes the ledger.
\<close>

definition mark_contents :: "string list \<Rightarrow> string \<Rightarrow> string list option" where
  "mark_contents ts txn = (if txn \<in> set ts then None else Some (ts @ [txn]))"

datatype write_outcome = Written | Crashed_before_rename

definition write_ledger :: "write_outcome \<Rightarrow> ledger_file \<Rightarrow> string list \<Rightarrow> ledger_file" where
  "write_ledger oc f ts = (case oc of Written \<Rightarrow> Entries ts | Crashed_before_rename \<Rightarrow> f)"

definition file_mark :: "write_outcome \<Rightarrow> ledger_file \<Rightarrow> string \<Rightarrow> ledger_file option" where
  "file_mark oc f txn =
     (case ledger_all f of
        None \<Rightarrow> None
      | Some ts \<Rightarrow>
          (case mark_contents ts txn of None \<Rightarrow> Some f | Some ts' \<Rightarrow> Some (write_ledger oc f ts')))"

definition file_markSpent :: "ledger_file \<Rightarrow> string \<Rightarrow> ledger_file option" where
  "file_markSpent = file_mark Written"

lemma file_markSpent_eq:
  "file_markSpent f txn = map_option (\<lambda>ts. if txn \<in> set ts then f else Entries (ts @ [txn])) (ledger_all f)"
  by (auto simp: file_markSpent_def file_mark_def mark_contents_def write_ledger_def split: option.splits)

interpretation file_ledger: spent_ledger file_isSpent file_markSpent
  by unfold_locales (auto simp: file_isSpent_def file_markSpent_eq)

lemma file_spent: "file_ledger.spent f = (case ledger_all f of Some ts \<Rightarrow> set ts | None \<Rightarrow> {})"
  by (auto simp: file_ledger.spent_def file_isSpent_def split: option.splits)

text \<open>
  The file ledger fails closed and survives a crash: a ledger that exists but cannot be read or
  parsed answers no query and records nothing, so it never reads as "nothing spent"; a ledger that
  can be read burns exactly the transaction it is given, and a crash before the rename leaves a
  readable ledger with the same transactions burned.
\<close>

theorem file_ledger_fails_closed:
  "(ledger_all f = None \<longrightarrow> file_isSpent f t = None \<and> file_mark oc f t = None) \<and>
   (\<forall>ts. ledger_all f = Some ts \<longrightarrow>
      file_isSpent f t = Some (t \<in> set ts) \<and>
      (\<exists>f'. file_mark Written f t = Some f' \<and> file_isSpent f' t = Some True \<and>
         file_ledger.spent f' = insert t (file_ledger.spent f)) \<and>
      (\<exists>f'. file_mark Crashed_before_rename f t = Some f' \<and> ledger_all f' \<noteq> None \<and>
         file_ledger.spent f' = file_ledger.spent f))"
  by (auto simp: file_isSpent_def file_mark_def mark_contents_def write_ledger_def file_spent
      split: option.splits)

lemma file_ledger_fails_closed_witness:
  "file_isSpent Unparseable ''t'' = None \<and> file_isSpent (Entries [''a'']) ''t'' = Some False"
  using file_ledger_fails_closed [of Unparseable "''t''" Written]
    file_ledger_fails_closed [of "Entries [''a'']" "''t''" Written] by simp

section \<open>Interleaved marks\<close>

text \<open>
  Two handlers that mark different transactions at the same time both read the ledger before either
  writes it. The second rename replaces the first one's contents.
\<close>

definition interleaved_marks :: "ledger_file \<Rightarrow> string \<Rightarrow> string \<Rightarrow> ledger_file option" where
  "interleaved_marks f t u =
     (case ledger_all f of
        None \<Rightarrow> None
      | Some ts \<Rightarrow>
          (let f1 = (case mark_contents ts t of None \<Rightarrow> f | Some ts' \<Rightarrow> write_ledger Written f ts');
               f2 = (case mark_contents ts u of None \<Rightarrow> f1 | Some ts' \<Rightarrow> write_ledger Written f1 ts')
           in Some f2))"

text \<open>
  The file ledger is not safe under interleaving: when two transactions that are not yet burned
  are marked by handlers that overlap, the ledger that results does not contain the first, so it can
  be presented again; the same two marks one after the other burn both.
\<close>

theorem interleaved_marks_lose_one:
  "case ledger_all f of
     None \<Rightarrow> True
   | Some ts \<Rightarrow>
       t \<in> set ts \<or> u \<in> set ts \<or> t = u \<or>
       (\<exists>f'. interleaved_marks f t u = Some f' \<and> file_isSpent f' t = Some False \<and>
          file_isSpent f' u = Some True) \<and>
       (\<exists>f'. file_ledger.mark_all f [t, u] = Some f' \<and> file_isSpent f' t = Some True \<and>
          file_isSpent f' u = Some True)"
  by (auto simp: interleaved_marks_def mark_contents_def write_ledger_def file_isSpent_def
      file_markSpent_eq Let_def split: option.splits)

end
