(* ===== verification/Security.thy ===== *)
theory Security
  imports Prelude
begin

text \<open>
  The release ladder of \<open>packages/core/src/security.ts\<close>: the sensitivity of an artefact, the
  authorization tier of a request, the disclosure mode, and the pure release decision.

  The two scales are enumerations with the source's constructors; the numbers of the
  \<open>as const\<close> tables are \<open>sens_num\<close> and \<open>tier_num\<close>, and both types are instances of
  the class \<open>linorder\<close> through them, so that the source's \<open><\<close> and \<open>>=\<close> are the order of the type.
\<close>

section \<open>The scales\<close>

datatype sensitivity = PUBLIC | LOW | MEDIUM | HIGH | SEALED

datatype authz_tier = STANDING | CHALLENGE | HUMAN | MULTIFACTOR

fun sens_num :: "sensitivity \<Rightarrow> int" where
  "sens_num PUBLIC = 0"
| "sens_num LOW = 1"
| "sens_num MEDIUM = 2"
| "sens_num HIGH = 3"
| "sens_num SEALED = 4"

fun tier_num :: "authz_tier \<Rightarrow> int" where
  "tier_num STANDING = 1"
| "tier_num CHALLENGE = 2"
| "tier_num HUMAN = 3"
| "tier_num MULTIFACTOR = 4"

instantiation sensitivity :: linorder
begin

definition less_eq_sensitivity :: "sensitivity \<Rightarrow> sensitivity \<Rightarrow> bool" where
  "less_eq_sensitivity a b \<longleftrightarrow> sens_num a \<le> sens_num b"

definition less_sensitivity :: "sensitivity \<Rightarrow> sensitivity \<Rightarrow> bool" where
  "less_sensitivity a b \<longleftrightarrow> sens_num a < sens_num b"

instance
proof
  fix a b :: sensitivity
  show "a \<le> b \<Longrightarrow> b \<le> a \<Longrightarrow> a = b"
    by (cases a; cases b) (simp_all add: less_eq_sensitivity_def)
qed (auto simp: less_eq_sensitivity_def less_sensitivity_def)

end

instantiation authz_tier :: linorder
begin

definition less_eq_authz_tier :: "authz_tier \<Rightarrow> authz_tier \<Rightarrow> bool" where
  "less_eq_authz_tier a b \<longleftrightarrow> tier_num a \<le> tier_num b"

definition less_authz_tier :: "authz_tier \<Rightarrow> authz_tier \<Rightarrow> bool" where
  "less_authz_tier a b \<longleftrightarrow> tier_num a < tier_num b"

instance
proof
  fix a b :: authz_tier
  show "a \<le> b \<Longrightarrow> b \<le> a \<Longrightarrow> a = b"
    by (cases a; cases b) (simp_all add: less_eq_authz_tier_def)
qed (auto simp: less_eq_authz_tier_def less_authz_tier_def)

end

lemmas scale_defs =
  less_eq_sensitivity_def less_sensitivity_def less_eq_authz_tier_def less_authz_tier_def

definition DEFAULT_SENSITIVITY :: sensitivity where
  "DEFAULT_SENSITIVITY = SEALED"

definition HUMAN_CONFIRM_BELOW :: sensitivity where
  "HUMAN_CONFIRM_BELOW = MEDIUM"

section \<open>Clearance\<close>

fun CLEARANCE :: "authz_tier \<Rightarrow> sensitivity" where
  "CLEARANCE STANDING = LOW"
| "CLEARANCE CHALLENGE = MEDIUM"
| "CLEARANCE HUMAN = HIGH"
| "CLEARANCE MULTIFACTOR = SEALED"

definition clearsSensitivity :: "authz_tier \<Rightarrow> sensitivity \<Rightarrow> bool" where
  "clearsSensitivity tier s = (if s = PUBLIC then True else CLEARANCE tier \<ge> s)"

definition clearanceCeiling :: "authz_tier \<Rightarrow> sensitivity" where
  "clearanceCeiling tier = CLEARANCE tier"

text \<open>\<open>requiredLevelFor\<close> takes any number, as the Warden calls it on stored artefacts.\<close>

definition requiredLevelFor :: "int \<Rightarrow> int" where
  "requiredLevelFor n =
     (if n \<ge> sens_num SEALED then 2 else if n \<ge> sens_num MEDIUM then 1 else 0)"

text \<open>The browser-side mirror of \<open>packages/control-types/src/index.ts\<close>.\<close>

definition requiredLevelFor_mirror :: "int \<Rightarrow> int" where
  "requiredLevelFor_mirror n = (if n \<ge> 4 then 2 else if n \<ge> 2 then 1 else 0)"

definition requiredTier :: "sensitivity \<Rightarrow> authz_tier" where
  "requiredTier s =
     (case find (\<lambda>t. clearsSensitivity t s) [STANDING, CHALLENGE, HUMAN, MULTIFACTOR] of
        Some t \<Rightarrow> t
      | None \<Rightarrow> MULTIFACTOR)"

section \<open>The release decision\<close>

datatype disclosure_mode = ATTESTATION | SELECTIVE | REDACTED | FULL | PREDICATE | LOCAL_RENDER

record release_context =
  rc_sensitivity :: sensitivity
  rc_tier :: authz_tier
  rc_delegationValid :: bool
  rc_mode :: disclosure_mode
  rc_disclosureSatisfiable :: bool

datatype release_reason =
    PublicArtefact
  | NoValidDelegation
  | InsufficientAuthorization authz_tier sensitivity
  | CannotSatisfyMode disclosure_mode
  | AuthorizationClears

record release_decision =
  rd_allow :: bool
  rd_reason :: release_reason

definition decideRelease :: "release_context \<Rightarrow> release_decision" where
  "decideRelease ctx =
     (if rc_sensitivity ctx = PUBLIC then \<lparr>rd_allow = True, rd_reason = PublicArtefact\<rparr>
      else if \<not> rc_delegationValid ctx then \<lparr>rd_allow = False, rd_reason = NoValidDelegation\<rparr>
      else if \<not> clearsSensitivity (rc_tier ctx) (rc_sensitivity ctx) then
        \<lparr>rd_allow = False,
         rd_reason = InsufficientAuthorization (rc_tier ctx) (rc_sensitivity ctx)\<rparr>
      else if \<not> rc_disclosureSatisfiable ctx then
        \<lparr>rd_allow = False, rd_reason = CannotSatisfyMode (rc_mode ctx)\<rparr>
      else \<lparr>rd_allow = True, rd_reason = AuthorizationClears\<rparr>)"

definition relaxNeedsConfirmation :: "sensitivity \<Rightarrow> bool" where
  "relaxNeedsConfirmation target \<longleftrightarrow> target \<le> HUMAN_CONFIRM_BELOW"

section \<open>The ladder is a Galois connection\<close>

lemma PUBLIC_least [simp]: "PUBLIC \<le> s"
  by (cases s) (simp_all add: scale_defs)

lemma SEALED_greatest [simp]: "s \<le> SEALED"
  by (cases s) (simp_all add: scale_defs)

lemma STANDING_least [simp]: "STANDING \<le> t"
  by (cases t) (simp_all add: scale_defs)

lemma MULTIFACTOR_greatest [simp]: "t \<le> MULTIFACTOR"
  by (cases t) (simp_all add: scale_defs)

lemma clearsSensitivity_ceiling: "clearsSensitivity t s \<longleftrightarrow> s \<le> clearanceCeiling t"
  by (cases s) (simp_all add: clearsSensitivity_def clearanceCeiling_def)

lemma CLEARANCE_mono: "t \<le> t' \<Longrightarrow> CLEARANCE t \<le> CLEARANCE t'"
  by (cases t; cases t') (simp_all add: scale_defs)

lemma clearsSensitivity_mono:
  "clearsSensitivity t s \<Longrightarrow> t \<le> t' \<Longrightarrow> s' \<le> s \<Longrightarrow> clearsSensitivity t' s'"
  using CLEARANCE_mono [of t t'] by (auto simp: clearsSensitivity_ceiling clearanceCeiling_def)

lemma clearsSensitivity_requiredTier: "clearsSensitivity t s \<longleftrightarrow> requiredTier s \<le> t"
  by (cases t; cases s)
    (simp_all add: clearsSensitivity_def requiredTier_def scale_defs)

lemma decideRelease_allow:
  "rd_allow (decideRelease ctx) \<longleftrightarrow>
     rc_sensitivity ctx = PUBLIC \<or>
     (rc_delegationValid ctx \<and> requiredTier (rc_sensitivity ctx) \<le> rc_tier ctx \<and>
      rc_disclosureSatisfiable ctx)"
  by (auto simp: decideRelease_def clearsSensitivity_requiredTier)

text \<open>
  The release ladder is one order seen from three sides: a tier clears a sensitivity exactly
  when the sensitivity is below the tier's ceiling, exactly when the minimum required tier is at
  most that tier; and a release is allowed exactly for a public artefact or for a valid delegation
  at the required tier with a satisfiable disclosure mode.
\<close>

theorem release_ladder:
  "(clearsSensitivity t s \<longleftrightarrow> s \<le> clearanceCeiling t) \<and>
   (clearsSensitivity t s \<longleftrightarrow> requiredTier s \<le> t) \<and>
   (rd_allow (decideRelease ctx) \<longleftrightarrow>
      rc_sensitivity ctx = PUBLIC \<or>
      (rc_delegationValid ctx \<and> requiredTier (rc_sensitivity ctx) \<le> rc_tier ctx \<and>
       rc_disclosureSatisfiable ctx))"
  by (simp add: clearsSensitivity_ceiling clearsSensitivity_requiredTier [symmetric]
      decideRelease_allow)

end
