(* ===== verification/Capability.thy ===== *)
theory Capability
  imports Attenuation_Chain Security
begin

text \<open>
  Capabilities: the data model and pure predicates of \<open>packages/core/src/capability.ts\<close>, and the
  minting, delegation and verification of \<open>packages/core/src/capability-chain.ts\<close> over the
  attenuation chain. Here the caveats, opaque to \<open>Attenuation\<close>, get their record type; the
  ceiling is optional because it is read from untrusted JSON and may be missing or not a number.

  The lemmas show that caveat narrowing is transitive and what it means for each caveat, so that a
  verified chain of any length is as narrow as its narrowest hop.
\<close>

section \<open>Data\<close>

record third_party_caveat =
  tp_by :: did
  tp_predicate :: string
  tp_location :: "string option"

record capability_status =
  cs_statusListCredential :: did
  cs_statusListIndex :: int

record caveats =
  cv_ceiling :: "int option"
  cv_kinds :: "string list option"
  cv_owner :: "did option"
  cv_audience :: "did option"
  cv_expires :: "string option"
  cv_singleUse :: "bool option"
  cv_requiresDischarge :: "third_party_caveat list option"
  cv_status :: "capability_status option"

record capability =
  cap_id :: string
  cap_controller :: did
  cap_parentCapability :: "string option"
  cap_invocationTarget :: string
  cap_authority :: authority_set
  cap_caveats :: caveats

definition AUTHORIZATION_TYPE :: string where
  "AUTHORIZATION_TYPE = ''HearthholdAuthorization''"

text \<open>Karp's type guard, on the \<open>type\<close> member of an arbitrary object.\<close>

definition isAuthorizationCredential :: "json option \<Rightarrow> bool" where
  "isAuthorizationCredential ty =
     (case ty of Some (JArr ts) \<Rightarrow> JStr AUTHORIZATION_TYPE \<in> set ts | _ \<Rightarrow> False)"

section \<open>Attenuation predicates\<close>

definition targetWithin :: "string \<Rightarrow> string \<Rightarrow> bool" where
  "targetWithin child parent =
     (if child = parent then True
      else prefix (parent @ ''/'') child \<or> prefix (parent @ ''?'') child \<or> prefix (parent @ '':'') child)"

definition expiresWithin :: "string option \<Rightarrow> string option \<Rightarrow> bool" where
  "expiresWithin child parent =
     (if \<not> truthy_string parent then True
      else if \<not> truthy_string child then False
      else the child \<le> the parent)"

definition discharge_key :: "third_party_caveat \<Rightarrow> string" where
  "discharge_key c = tp_by c @ ''::'' @ tp_predicate c"

definition caveatsNarrow :: "caveats \<Rightarrow> caveats \<Rightarrow> bool" where
  "caveatsNarrow child parent =
     (case (cv_ceiling child, cv_ceiling parent) of
        (Some cc, Some pc) \<Rightarrow>
          if cc > pc then False
          else if cv_owner parent \<noteq> None \<and> cv_owner child \<noteq> cv_owner parent then False
          else if cv_audience parent \<noteq> None \<and> cv_audience child \<noteq> cv_audience parent then False
          else if \<not> expiresWithin (cv_expires child) (cv_expires parent) then False
          else if cv_singleUse parent = Some True \<and> cv_singleUse child \<noteq> Some True then False
          else if cv_status parent \<noteq> None \<and> cv_status child = None then False
          else if (case cv_kinds parent of
              Some pk \<Rightarrow> (case cv_kinds child of
                  None \<Rightarrow> True | Some ck \<Rightarrow> \<not> list_all (\<lambda>k. k \<in> set pk) ck)
            | None \<Rightarrow> False) then False
          else list_all (\<lambda>p. discharge_key p \<in> set (map discharge_key (opt_list (cv_requiresDischarge child))))
            (opt_list (cv_requiresDischarge parent))
      | _ \<Rightarrow> False)"

definition capabilityNarrows :: "capability \<Rightarrow> capability \<Rightarrow> bool" where
  "capabilityNarrows child parent =
     (if cap_parentCapability child \<noteq> Some (cap_id parent) then False
      else if \<not> targetWithin (cap_invocationTarget child) (cap_invocationTarget parent) then False
      else if \<not> isSubset (cap_authority child) (cap_authority parent) then False
      else caveatsNarrow (cap_caveats child) (cap_caveats parent))"

text \<open>
  The canonical caveats of a commitment: empty lists are dropped, kinds are sorted, discharge
  caveats are sorted by \<open>localeCompare\<close> of their keys, which compares the collation keys \<open>coll\<close> of
  the runtime's locale. The result is again a caveats object (it is what the holder discloses), and
  \<open>caveats_json\<close> is its JSON form with the fields in the order they are set.
\<close>

definition normalizeCaveats :: "(string \<Rightarrow> string) \<Rightarrow> caveats \<Rightarrow> caveats" where
  "normalizeCaveats coll c =
     c\<lparr>cv_kinds := (if opt_list (cv_kinds c) \<noteq> [] then Some (sort (opt_list (cv_kinds c))) else None),
       cv_requiresDischarge :=
         (if opt_list (cv_requiresDischarge c) \<noteq> []
          then Some (sort_key (\<lambda>d. coll (discharge_key d)) (opt_list (cv_requiresDischarge c)))
          else None)\<rparr>"

definition discharge_json :: "third_party_caveat \<Rightarrow> json" where
  "discharge_json d =
     JObj ([(''by'', JStr (tp_by d)), (''predicate'', JStr (tp_predicate d))]
       @ opt_field ''location'' JStr (tp_location d))"

definition caveats_json :: "caveats \<Rightarrow> json" where
  "caveats_json c =
     JObj (opt_field ''ceiling'' JNum (cv_ceiling c)
       @ opt_field ''kinds'' (\<lambda>ks. JArr (map JStr ks)) (cv_kinds c)
       @ opt_field ''owner'' JStr (cv_owner c)
       @ opt_field ''audience'' JStr (cv_audience c)
       @ opt_field ''expires'' JStr (cv_expires c)
       @ opt_field ''singleUse'' JBool (cv_singleUse c)
       @ opt_field ''requiresDischarge'' (\<lambda>ds. JArr (map discharge_json ds)) (cv_requiresDischarge c)
       @ opt_field ''status'' (\<lambda>s. JObj [(''statusListCredential'', JStr (cs_statusListCredential s)),
            (''statusListIndex'', JNum (cs_statusListIndex s))]) (cv_status c))"

section \<open>Narrowing is a preorder\<close>

lemma targetWithin_refl [simp, narrowing]: "targetWithin t t"
  by (simp add: targetWithin_def)

lemma targetWithin_iff:
  "targetWithin c p \<longleftrightarrow> c = p \<or> (\<exists>sep rest. sep \<in> {CHR ''/'', CHR ''?'', CHR '':''} \<and> c = p @ sep # rest)"
  by (auto simp: targetWithin_def prefix_def)

lemma targetWithin_trans [narrowing]: "targetWithin a b \<Longrightarrow> targetWithin b c \<Longrightarrow> targetWithin a c"
  unfolding targetWithin_iff by (elim disjE exE conjE) auto

lemma expiresWithin_refl [simp, narrowing]: "expiresWithin e e"
  by (simp add: expiresWithin_def)

lemma expiresWithin_trans [narrowing]: "expiresWithin a b \<Longrightarrow> expiresWithin b c \<Longrightarrow> expiresWithin a c"
  by (auto simp: expiresWithin_def split: if_splits)

lemma caveatsNarrow_iff:
  "caveatsNarrow c p \<longleftrightarrow>
     (\<exists>cc pc. cv_ceiling c = Some cc \<and> cv_ceiling p = Some pc \<and> cc \<le> pc) \<and>
     (cv_owner p \<noteq> None \<longrightarrow> cv_owner c = cv_owner p) \<and>
     (cv_audience p \<noteq> None \<longrightarrow> cv_audience c = cv_audience p) \<and>
     expiresWithin (cv_expires c) (cv_expires p) \<and>
     (cv_singleUse p = Some True \<longrightarrow> cv_singleUse c = Some True) \<and>
     (cv_status p \<noteq> None \<longrightarrow> cv_status c \<noteq> None) \<and>
     (\<forall>pk. cv_kinds p = Some pk \<longrightarrow> (\<exists>ck. cv_kinds c = Some ck \<and> set ck \<subseteq> set pk)) \<and>
     discharge_key ` set (opt_list (cv_requiresDischarge p))
       \<subseteq> discharge_key ` set (opt_list (cv_requiresDischarge c))"
proof -
  have discharges: "list_all (\<lambda>p. discharge_key p \<in> set (map discharge_key xs)) ys \<longleftrightarrow>
      discharge_key ` set ys \<subseteq> discharge_key ` set xs" for xs ys
    by (auto simp: list_all_iff)
  have kinds: "\<not> list_all (\<lambda>k. k \<in> set pk) ck \<longleftrightarrow> \<not> set ck \<subseteq> set pk" for pk ck :: "string list"
    by (auto simp: list_all_iff)
  show ?thesis
    unfolding caveatsNarrow_def discharges kinds
    by (cases "cv_ceiling c"; cases "cv_ceiling p"; cases "cv_kinds c"; cases "cv_kinds p")
      (simp_all add: not_less)
qed

lemma caveatsNarrowD:
  assumes "caveatsNarrow c p"
  shows "\<exists>cc pc. cv_ceiling c = Some cc \<and> cv_ceiling p = Some pc \<and> cc \<le> pc"
    and "cv_owner p \<noteq> None \<longrightarrow> cv_owner c = cv_owner p"
    and "cv_audience p \<noteq> None \<longrightarrow> cv_audience c = cv_audience p"
    and "expiresWithin (cv_expires c) (cv_expires p)"
    and "cv_singleUse p = Some True \<longrightarrow> cv_singleUse c = Some True"
    and "cv_status p \<noteq> None \<longrightarrow> cv_status c \<noteq> None"
    and "\<forall>pk. cv_kinds p = Some pk \<longrightarrow> (\<exists>ck. cv_kinds c = Some ck \<and> set ck \<subseteq> set pk)"
    and "discharge_key ` set (opt_list (cv_requiresDischarge p))
      \<subseteq> discharge_key ` set (opt_list (cv_requiresDischarge c))"
  using assms unfolding caveatsNarrow_iff by - (elim conjE, assumption)+

lemma caveatsNarrow_trans [narrowing]:
  assumes ab: "caveatsNarrow a b" and bc: "caveatsNarrow b c"
  shows "caveatsNarrow a c"
  unfolding caveatsNarrow_iff
proof (intro conjI)
  show "\<exists>x y. cv_ceiling a = Some x \<and> cv_ceiling c = Some y \<and> x \<le> y"
    using caveatsNarrowD(1) [OF ab] caveatsNarrowD(1) [OF bc] by auto
  show "cv_owner c \<noteq> None \<longrightarrow> cv_owner a = cv_owner c"
    using caveatsNarrowD(2) [OF ab] caveatsNarrowD(2) [OF bc] by simp
  show "cv_audience c \<noteq> None \<longrightarrow> cv_audience a = cv_audience c"
    using caveatsNarrowD(3) [OF ab] caveatsNarrowD(3) [OF bc] by simp
  show "expiresWithin (cv_expires a) (cv_expires c)"
    by (rule expiresWithin_trans [OF caveatsNarrowD(4) [OF ab] caveatsNarrowD(4) [OF bc]])
  show "cv_singleUse c = Some True \<longrightarrow> cv_singleUse a = Some True"
    using caveatsNarrowD(5) [OF ab] caveatsNarrowD(5) [OF bc] by simp
  show "cv_status c \<noteq> None \<longrightarrow> cv_status a \<noteq> None"
    using caveatsNarrowD(6) [OF ab] caveatsNarrowD(6) [OF bc] by simp
  show "\<forall>pk. cv_kinds c = Some pk \<longrightarrow> (\<exists>ck. cv_kinds a = Some ck \<and> set ck \<subseteq> set pk)"
  proof (intro allI impI)
    fix pk assume "cv_kinds c = Some pk"
    with caveatsNarrowD(7) [OF bc] obtain bk where "cv_kinds b = Some bk" "set bk \<subseteq> set pk" by auto
    moreover from this(1) caveatsNarrowD(7) [OF ab] obtain ak
      where "cv_kinds a = Some ak" "set ak \<subseteq> set bk" by auto
    ultimately show "\<exists>ck. cv_kinds a = Some ck \<and> set ck \<subseteq> set pk" by auto
  qed
  show "discharge_key ` set (opt_list (cv_requiresDischarge c))
      \<subseteq> discharge_key ` set (opt_list (cv_requiresDischarge a))"
    by (rule order_trans [OF caveatsNarrowD(8) [OF bc] caveatsNarrowD(8) [OF ab]])
qed

lemma transp_caveatsNarrow: "transp caveatsNarrow"
  by (blast intro: transpI caveatsNarrow_trans)

lemma json_wf_discharge_json [simp]: "json_wf (discharge_json d)"
  by (cases "tp_location d") (simp_all add: discharge_json_def opt_field_def)

lemma json_wf_caveats_json [simp]: "json_wf (caveats_json c)"
proof -
  have "json_wf (snd e)" if "e \<in> set (case caveats_json c of JObj fs \<Rightarrow> fs)" for e
    using that unfolding caveats_json_def json.case set_append Un_iff
    by (elim disjE; elim opt_field_values [rotated]) (simp_all del: char_of_eq_iff)
  then show ?thesis
    unfolding caveats_json_def by (simp add: Int_Un_distrib)
qed

lemma set_normalized_discharges [simp]:
  "set (opt_list (cv_requiresDischarge (normalizeCaveats coll c))) = set (opt_list (cv_requiresDischarge c))"
  by (auto simp: normalizeCaveats_def opt_list_def split: option.splits)

text \<open>
  Normalization keeps the narrowing relation, as long as the child's kinds are not the empty list
  under a parent with a compartment. The empty list is the one value it changes: \<open>kinds: []\<close>, which
  discloses nothing, becomes absent, which discloses any kind.
\<close>

lemma normalizeCaveats_fields [simp]:
  "cv_ceiling (normalizeCaveats coll c) = cv_ceiling c" "cv_owner (normalizeCaveats coll c) = cv_owner c"
  "cv_audience (normalizeCaveats coll c) = cv_audience c" "cv_expires (normalizeCaveats coll c) = cv_expires c"
  "cv_singleUse (normalizeCaveats coll c) = cv_singleUse c" "cv_status (normalizeCaveats coll c) = cv_status c"
  by (simp_all add: normalizeCaveats_def)

lemma normalizeCaveats_kinds:
  "cv_kinds (normalizeCaveats coll c) =
     (case cv_kinds c of None \<Rightarrow> None | Some ks \<Rightarrow> if ks = [] then None else Some (sort ks))"
  by (simp add: normalizeCaveats_def opt_list_def split: option.split)

lemma normalizeCaveats_narrow:
  assumes "caveatsNarrow c p" "cv_kinds c \<noteq> Some []"
  shows "caveatsNarrow (normalizeCaveats coll c) (normalizeCaveats coll p)"
  unfolding caveatsNarrow_iff normalizeCaveats_fields set_normalized_discharges
proof (intro conjI)
  show "\<forall>pk. cv_kinds (normalizeCaveats coll p) = Some pk \<longrightarrow>
      (\<exists>ck. cv_kinds (normalizeCaveats coll c) = Some ck \<and> set ck \<subseteq> set pk)"
    using caveatsNarrowD(7) [OF assms(1)] assms(2)
    by (auto simp: normalizeCaveats_kinds split: option.splits if_splits)
qed (fact caveatsNarrowD [OF assms(1)])+

text \<open>
  Normalizing the caveats for the commitment loses a constraint: a capability whose kinds are the
  empty list, which the Warden's compartment check lets disclose no kind, is committed and disclosed
  with its kinds absent, which lets it disclose any kind; so it no longer narrows a parent it narrowed
  before. Under any other kinds, and for every other caveat, the committed object says the same.
\<close>

theorem normalize_drops_empty_compartment:
  "cv_kinds (normalizeCaveats coll (c\<lparr>cv_kinds := Some []\<rparr>)) = None \<and>
   \<not> caveatsNarrow (normalizeCaveats coll (c\<lparr>cv_kinds := Some []\<rparr>)) (c\<lparr>cv_kinds := Some ks\<rparr>) \<and>
   map_option set (cv_kinds (normalizeCaveats coll (c\<lparr>cv_kinds := Some (k # ks)\<rparr>))) = Some (set (k # ks)) \<and>
   cv_kinds (normalizeCaveats coll (c\<lparr>cv_kinds := None\<rparr>)) = None \<and>
   cv_ceiling (normalizeCaveats coll c) = cv_ceiling c \<and> cv_owner (normalizeCaveats coll c) = cv_owner c \<and>
   cv_audience (normalizeCaveats coll c) = cv_audience c \<and> cv_expires (normalizeCaveats coll c) = cv_expires c \<and>
   cv_singleUse (normalizeCaveats coll c) = cv_singleUse c \<and> cv_status (normalizeCaveats coll c) = cv_status c \<and>
   set (opt_list (cv_requiresDischarge (normalizeCaveats coll c))) = set (opt_list (cv_requiresDischarge c))"
  by (simp add: normalizeCaveats_kinds caveatsNarrow_iff set_insort_key)

end
