(* ===== verification/Prove.thy ===== *)
theory Prove
  imports Single_Use Capability
begin

text \<open>
  The prove flow of \<open>packages/core/src/prove.ts\<close>: reading the verified response to a challenge and
  deciding whether the proof holds. Keymaster's \<open>verifyResponse\<close> is the record
  \<open>response_result\<close>, the trust registry a function argument, the single-use ledger the two operations
  of \<open>spent_ledger\<close>.

  A disclosed claims object is arbitrary JSON. Its record here has the members the sources read, each
  \<^const>\<open>None\<close> when it is missing or not of the type the code expects, and \<open>cl_get\<close> for the members
  compared by name.
\<close>

section \<open>Disclosed credentials\<close>

record raw_authority =
  ra_operations :: "string list option"
  ra_resources :: "string list option"

record claims =
  cl_type :: "string option"
  cl_trustClass :: "string option"
  cl_txn :: "string option"
  cl_authority :: "raw_authority option"
  cl_caveats :: "caveats option"
  cl_get :: "string \<Rightarrow> json option"

record presentation =
  vp_issuer :: did
  vp_subjectId :: "did option"
  vp_claims :: claims

record response_result =
  rr_challenge :: "string option"
  rr_match :: bool
  rr_fulfilled :: nat
  rr_requested :: nat
  rr_responder :: "did option"
  rr_credentials :: "did option list"
  rr_vps :: "presentation list"

datatype trust_class = Issued | Witnessed | Composite

record disclosed_credential =
  dc_credentialDid :: did
  dc_issuer :: did
  dc_subject :: did
  dc_trustClass :: trust_class
  dc_claims :: claims

definition trust_class_of :: "string option \<Rightarrow> trust_class" where
  "trust_class_of tc =
     (if tc = Some ''witnessed'' then Witnessed else if tc = Some ''composite'' then Composite else Issued)"

text \<open>The credential DID is paired with the presentation by position, only when the two arrays have
  the same length.\<close>

definition disclosed_of :: "response_result \<Rightarrow> disclosed_credential list" where
  "disclosed_of res =
     (let aligned = (length (rr_credentials res) = length (rr_vps res))
      in map (\<lambda>(i, vp).
           \<lparr>dc_credentialDid = (if aligned then (case rr_credentials res ! i of Some v \<Rightarrow> v | None \<Rightarrow> []) else []),
            dc_issuer = vp_issuer vp,
            dc_subject = (case vp_subjectId vp of Some s \<Rightarrow> s | None \<Rightarrow> []),
            dc_trustClass = trust_class_of (cl_trustClass (vp_claims vp)),
            dc_claims = vp_claims vp\<rparr>) (enumerate 0 (rr_vps res)))"

section \<open>Challenges\<close>

record proof_requirement =
  pq_schema :: did
  pq_trustedIssuers :: "did list option"

text \<open>The requirements handed to \<open>createChallenge\<close>: an empty issuer list would mean "no issuer", so it is
  left out.\<close>

definition requestCompositeProof :: "proof_requirement list \<Rightarrow> (did \<times> did list option) list" where
  "requestCompositeProof reqs =
     map (\<lambda>r. (pq_schema r, case pq_trustedIssuers r of Some ds \<Rightarrow> if ds \<noteq> [] then Some ds else None | None \<Rightarrow> None))
       reqs"

definition requestProof :: "proof_requirement \<Rightarrow> (did \<times> did list option) list" where
  "requestProof req = requestCompositeProof [req]"

section \<open>Verification\<close>

record proof_options =
  po_trustedIssuers :: "did list option"
  po_trustRegistry :: "(did \<Rightarrow> did option \<Rightarrow> bool) option"
  po_schema :: "did option"
  po_requiredClaims :: "(string \<times> json) list option"
  po_spentTxns :: bool

text \<open>\<open>po_spentTxns\<close> tells whether a ledger was given; the ledger itself is threaded through.\<close>

datatype proof_failure =
    NoTrustSource | ChallengeNotSatisfied | UntrustedIssuer | RequiredClaimsMissing | ScrollSpent

text \<open>\<open>===\<close> on the values of two JSON trees: objects and arrays are compared by identity, so two trees
  are equal only if they are equal primitives.\<close>

fun strict_eq :: "json option \<Rightarrow> json \<Rightarrow> bool" where
  "strict_eq (Some (JArr _)) _ = False"
| "strict_eq (Some (JObj _)) _ = False"
| "strict_eq (Some v) w = (v = w)"
| "strict_eq None _ = False"

definition isTrusted :: "proof_options \<Rightarrow> did \<Rightarrow> bool" where
  "isTrusted opts issuer =
     (if (case po_trustedIssuers opts of Some ds \<Rightarrow> issuer \<in> set ds | None \<Rightarrow> False) then True
      else (case po_trustRegistry opts of Some authorize \<Rightarrow> authorize issuer (po_schema opts) | None \<Rightarrow> False))"

definition scroll_txns :: "disclosed_credential list \<Rightarrow> string list" where
  "scroll_txns ds = js_set (map the (filter truthy_string (map (\<lambda>d. cl_txn (dc_claims d)) ds)))"

fun any_spent :: "('s \<Rightarrow> string \<Rightarrow> bool option) \<Rightarrow> 's \<Rightarrow> string list \<Rightarrow> bool option" where
  "any_spent isSpent s [] = Some False"
| "any_spent isSpent s (t # ts) =
     (case isSpent s t of None \<Rightarrow> None | Some True \<Rightarrow> Some True | Some False \<Rightarrow> any_spent isSpent s ts)"

fun mark_each :: "('s \<Rightarrow> string \<Rightarrow> 's option) \<Rightarrow> 's \<Rightarrow> string list \<Rightarrow> 's option" where
  "mark_each markSpent s [] = Some s"
| "mark_each markSpent s (t # ts) =
     (case markSpent s t of None \<Rightarrow> None | Some s' \<Rightarrow> mark_each markSpent s' ts)"

record proof_result =
  pf_responder :: "did option"
  pf_challenge :: string
  pf_disclosed :: "disclosed_credential list"

text \<open>Either a failure or the result, with the ledger afterwards; \<^const>\<open>None\<close> when the ledger throws.\<close>

definition verifyProof ::
    "('s \<Rightarrow> string \<Rightarrow> bool option) \<Rightarrow> ('s \<Rightarrow> string \<Rightarrow> 's option) \<Rightarrow> proof_options \<Rightarrow> response_result \<Rightarrow> 's \<Rightarrow>
     ((proof_failure + proof_result) \<times> 's) option" where
  "verifyProof isSpent markSpent opts res s =
     (let disclosed = disclosed_of res;
          result = \<lparr>pf_responder = rr_responder res,
            pf_challenge = (case rr_challenge res of Some c \<Rightarrow> c | None \<Rightarrow> []), pf_disclosed = disclosed\<rparr>
      in if po_trustedIssuers opts = None \<and> po_trustRegistry opts = None then Some (Inl NoTrustSource, s)
         else if \<not> rr_match res \<or> rr_fulfilled res < rr_requested res \<or> rr_requested res = 0
           then Some (Inl ChallengeNotSatisfied, s)
         else if \<not> list_all (\<lambda>d. isTrusted opts (dc_issuer d)) disclosed then Some (Inl UntrustedIssuer, s)
         else if (case po_requiredClaims opts of
             Some required \<Rightarrow>
               \<not> list_ex (\<lambda>d. list_all (\<lambda>(k, v). strict_eq (cl_get (dc_claims d) k) v) required) disclosed
           | None \<Rightarrow> False) then Some (Inl RequiredClaimsMissing, s)
         else if \<not> po_spentTxns opts then Some (Inr result, s)
         else (let txns = scroll_txns disclosed
               in case any_spent isSpent s txns of
                 None \<Rightarrow> None
               | Some True \<Rightarrow> Some (Inl ScrollSpent, s)
               | Some False \<Rightarrow> map_option (\<lambda>s'. (Inr result, s')) (mark_each markSpent s txns)))"

section \<open>What a proof shows\<close>

lemma length_disclosed [simp]: "length (disclosed_of res) = length (rr_vps res)"
  by (simp add: disclosed_of_def Let_def)

lemma dc_issuer_disclosed: "dc_issuer ` set (disclosed_of res) = vp_issuer ` set (rr_vps res)"
proof -
  have "map dc_issuer (disclosed_of res) = map vp_issuer (rr_vps res)"
    by (rule nth_equalityI) (auto simp: disclosed_of_def Let_def nth_enumerate_eq)
  then show ?thesis by (metis set_map)
qed

lemma set_scroll_txns: "set (scroll_txns ds) = {t. t \<noteq> [] \<and> (\<exists>d \<in> set ds. cl_txn (dc_claims d) = Some t)}"
  by (force simp: scroll_txns_def truthy_string_iff neq_Nil_conv)

lemma verifyProof_Inr:
  assumes "verifyProof isS markS opts res s = Some (Inr r, s')"
  shows "po_trustedIssuers opts \<noteq> None \<or> po_trustRegistry opts \<noteq> None"
    and "rr_match res" "rr_requested res \<le> rr_fulfilled res" "rr_requested res \<noteq> 0"
    and "\<forall>d \<in> set (disclosed_of res). isTrusted opts (dc_issuer d)"
    and "r = \<lparr>pf_responder = rr_responder res,
       pf_challenge = (case rr_challenge res of Some c \<Rightarrow> c | None \<Rightarrow> []), pf_disclosed = disclosed_of res\<rparr>"
    and "\<not> po_spentTxns opts \<Longrightarrow> s' = s"
    and "po_spentTxns opts \<Longrightarrow> any_spent isS s (scroll_txns (disclosed_of res)) = Some False \<and>
      mark_each markS s (scroll_txns (disclosed_of res)) = Some s'"
  using assms
  by (auto simp: verifyProof_def Let_def list_all_iff split: if_splits option.splits bool.splits)

context spent_ledger
begin

lemma mark_each_eq: "mark_each markSpent s ts = mark_all s ts"
  by (induction s ts rule: mark_all.induct) (auto split: option.splits)

lemma any_spent_False: "any_spent isSpent s ts = Some False \<Longrightarrow> set ts \<inter> spent s = {}"
  by (induction ts) (auto simp: spent_def split: option.splits bool.splits)

lemma any_spent_True: "isSpent s u = Some b \<Longrightarrow> set ts \<inter> spent s \<noteq> {} \<Longrightarrow> any_spent isSpent s ts = Some True"
proof (induction ts)
  case (Cons t ts)
  have "isSpent s t \<noteq> None" using fails_uniformly [of s t u] Cons.prems(1) by auto
  then obtain c where "isSpent s t = Some c" by auto
  with Cons show ?case by (cases c) (auto simp: spent_def)
qed simp

text \<open>A verified proof burns every scroll it disclosed, and none of them was burned before.\<close>

lemma verifyProof_burns:
  assumes "verifyProof isSpent markSpent opts res s = Some (Inr r, s')" "po_spentTxns opts"
  shows "set (scroll_txns (disclosed_of res)) \<inter> spent s = {}"
    and "spent s' = spent s \<union> set (scroll_txns (disclosed_of res))"
  using verifyProof_Inr(8) [OF assms]
  by (auto simp: mark_each_eq dest: any_spent_False spent_mark_all)

lemma verifyProof_not_twice:
  assumes "verifyProof isSpent markSpent opts res s = Some (Inr r, s')" "po_spentTxns opts"
    and "set (scroll_txns (disclosed_of res)) \<inter> set (scroll_txns (disclosed_of res')) \<noteq> {}"
    and "spent s' \<subseteq> spent t" "po_spentTxns opts'"
  shows "verifyProof isSpent markSpent opts' res' t \<noteq> Some (Inr r', t')"
proof
  assume second: "verifyProof isSpent markSpent opts' res' t = Some (Inr r', t')"
  from verifyProof_burns(1) [OF second assms(5)] verifyProof_burns(2) [OF assms(1,2)] assms(3,4)
  show False by auto
qed

end

text \<open>
  A proof is a presentation to this verifier of credentials from trusted issuers, once: when
  \<open>verifyProof\<close> with the file ledger succeeds, some trust source was given, the challenge was matched
  and every requirement fulfilled, every disclosed credential comes from an issuer that the list or
  the registry trusts, none of the disclosed scrolls was burned before, and afterwards all of them
  are, and nothing else; a credential DID is reported only when the two arrays are aligned.
\<close>

theorem proof_sound:
  assumes "verifyProof file_isSpent file_markSpent opts res s = Some (Inr r, s')"
  shows "rr_match res \<and> 0 < rr_requested res \<and> rr_requested res \<le> rr_fulfilled res \<and>
    (\<forall>vp \<in> set (rr_vps res). (\<exists>ds. po_trustedIssuers opts = Some ds \<and> vp_issuer vp \<in> set ds) \<or>
       (\<exists>authorize. po_trustRegistry opts = Some authorize \<and> authorize (vp_issuer vp) (po_schema opts))) \<and>
    pf_responder r = rr_responder res \<and> pf_disclosed r = disclosed_of res \<and>
    (length (rr_credentials res) \<noteq> length (rr_vps res) \<longrightarrow> (\<forall>d \<in> set (pf_disclosed r). dc_credentialDid d = [])) \<and>
    (po_spentTxns opts \<longrightarrow>
       set (scroll_txns (disclosed_of res)) \<inter> file_ledger.spent s = {} \<and>
       file_ledger.spent s' = file_ledger.spent s \<union> set (scroll_txns (disclosed_of res)))"
proof -
  note facts = verifyProof_Inr [OF assms]
  have "isTrusted opts (vp_issuer vp)" if "vp \<in> set (rr_vps res)" for vp
    using facts(5) dc_issuer_disclosed [of res] that by force
  then have "\<forall>vp \<in> set (rr_vps res). (\<exists>ds. po_trustedIssuers opts = Some ds \<and> vp_issuer vp \<in> set ds) \<or>
       (\<exists>authorize. po_trustRegistry opts = Some authorize \<and> authorize (vp_issuer vp) (po_schema opts))"
    by (force simp: isTrusted_def split: option.splits if_splits)
  moreover have "length (rr_credentials res) \<noteq> length (rr_vps res) \<Longrightarrow>
      \<forall>d \<in> set (disclosed_of res). dc_credentialDid d = []"
    by (auto simp: disclosed_of_def Let_def)
  moreover have "po_spentTxns opts \<Longrightarrow>
      set (scroll_txns (disclosed_of res)) \<inter> file_ledger.spent s = {} \<and>
      file_ledger.spent s' = file_ledger.spent s \<union> set (scroll_txns (disclosed_of res))"
    using file_ledger.verifyProof_burns [OF assms] by simp
  ultimately show ?thesis using facts(2-4,6) by simp
qed

definition ex_scroll :: response_result where
  "ex_scroll = \<lparr>rr_challenge = Some ''c'', rr_match = True, rr_fulfilled = 1, rr_requested = 1,
     rr_responder = Some ''H'', rr_credentials = [Some ''vc''],
     rr_vps = [\<lparr>vp_issuer = ''I'', vp_subjectId = Some ''H'',
       vp_claims = \<lparr>cl_type = None, cl_trustClass = None, cl_txn = Some ''t1'', cl_authority = None,
         cl_caveats = None, cl_get = (\<lambda>k. None)\<rparr>\<rparr>]\<rparr>"

definition ex_proof_options :: proof_options where
  "ex_proof_options = \<lparr>po_trustedIssuers = Some [''I''], po_trustRegistry = None, po_schema = None,
     po_requiredClaims = None, po_spentTxns = True\<rparr>"

lemma ex_scroll_first:
  "\<exists>r. verifyProof file_isSpent file_markSpent ex_proof_options ex_scroll Missing =
     Some (Inr r, Entries [''t1''])"
  by (simp add: verifyProof_def ex_proof_options_def ex_scroll_def disclosed_of_def scroll_txns_def
      isTrusted_def js_set_def file_isSpent_def file_markSpent_eq Let_def)

lemma proof_sound_witness:
  "file_ledger.spent (Entries [''t1'']) = file_ledger.spent Missing \<union> set (scroll_txns (disclosed_of ex_scroll))"
proof -
  from ex_scroll_first obtain r where
    "verifyProof file_isSpent file_markSpent ex_proof_options ex_scroll Missing = Some (Inr r, Entries [''t1''])"
    by blast
  from proof_sound [OF this] show ?thesis by (simp add: ex_proof_options_def)
qed

text \<open>
  Scrolls burn: once a presentation with a single-use transaction has been verified, no later
  presentation that discloses the same transaction verifies, whatever else was burned in between and
  under any trust options.
\<close>

theorem scroll_burns:
  assumes "verifyProof file_isSpent file_markSpent opts res s = Some (Inr r, s')" "po_spentTxns opts"
    and "t \<in> set (scroll_txns (disclosed_of res))" "t \<in> set (scroll_txns (disclosed_of res'))"
    and "file_ledger.mark_all s' later = Some s''" "po_spentTxns opts'"
  shows "verifyProof file_isSpent file_markSpent opts' res' s'' \<noteq> Some (Inr r', s''')"
  using assms file_ledger.spent_mark_all [OF assms(5)]
  by (intro file_ledger.verifyProof_not_twice [OF assms(1,2)]) auto

lemma scroll_burns_witness:
  "\<nexists>r' s'. verifyProof file_isSpent file_markSpent ex_proof_options ex_scroll (Entries [''t1'']) = Some (Inr r', s')"
proof -
  from ex_scroll_first obtain r where
    "verifyProof file_isSpent file_markSpent ex_proof_options ex_scroll Missing = Some (Inr r, Entries [''t1''])"
    by blast
  moreover have "''t1'' \<in> set (scroll_txns (disclosed_of ex_scroll))"
    by (simp add: ex_scroll_def disclosed_of_def scroll_txns_def)
  ultimately show ?thesis
    using scroll_burns [of ex_proof_options ex_scroll Missing r "Entries [''t1'']" "''t1''" ex_scroll "[]"]
    by (simp add: ex_proof_options_def)
qed

end
