(* ===== verification/Capability_Chain.thy ===== *)
theory Capability_Chain
  imports Capability
begin

text \<open>
  Issuance and verification of capabilities over the attenuation chain:
  \<open>packages/core/src/capability-chain.ts\<close>. Minting and delegation go through \<open>issueVc\<close> with the
  normalized caveats as the opaque blob; verification instantiates the generic verifier with the
  caveat order of \<open>Capability\<close>.

  The lemmas lift the hop-by-hop narrowing of an accepted chain to the leaf and any ancestor, one
  statement per caveat.
\<close>

section \<open>Minting and delegation\<close>

record capability_handle =
  ch_issued :: "caveats issued_vc"
  ch_capability :: capability

record capability_spec =
  sp_invocationTarget :: string
  sp_authority :: authority_set
  sp_caveats :: caveats

datatype delegation_error =
    NotHolder
  | DoesNotAttenuate
  | IssueFailed issue_error

text \<open>The arguments both operations hand to \<open>issueVc\<close>; the test-only knobs are never set.\<close>

definition capability_issue_args ::
    "(string \<Rightarrow> string) \<Rightarrow> string \<Rightarrow> did \<Rightarrow> capability_spec \<Rightarrow> caveats issued_vc option \<Rightarrow> caveats issue_args" where
  "capability_issue_args coll issuerName holder spec parent =
     \<lparr>ia_issuerName = issuerName, ia_holder = holder, ia_authoritySet = sp_authority spec,
      ia_caveats = Some (normalizeCaveats coll (sp_caveats spec)), ia_parent = parent,
      ia_forgeAssertionWith = None, ia_overrideCounter = None, ia_overrideParentCommitment = None,
      ia_overrideLineageId = None, ia_overridePrev = None, ia_skipSubsetGuard = False\<rparr>"

text \<open>A ceiling that is absent stays in the normalized object as \<open>undefined\<close>, which \<open>canonicalize\<close>
  rejects.\<close>

definition mintRootCapability ::
    "hash \<Rightarrow> (string \<Rightarrow> string) \<Rightarrow> issue_env \<Rightarrow> string \<Rightarrow> did \<Rightarrow> capability_spec \<Rightarrow>
     delegation_error + (capability_handle \<times> pic_block)" where
  "mintRootCapability H coll env issuerName holder spec =
     (if cv_ceiling (sp_caveats spec) = None then Inl (IssueFailed UnsupportedValue)
      else case issueVc H caveats_json env (capability_issue_args coll issuerName holder spec None) of
        Inl e \<Rightarrow> Inl (IssueFailed e)
      | Inr (issued, pic) \<Rightarrow>
          Inr (\<lparr>ch_issued = issued,
                ch_capability = \<lparr>cap_id = iv_vcDid issued, cap_controller = holder,
                  cap_parentCapability = None, cap_invocationTarget = sp_invocationTarget spec,
                  cap_authority = sp_authority spec, cap_caveats = sp_caveats spec\<rparr>\<rparr>, pic))"

definition child_capability :: "capability_handle \<Rightarrow> did \<Rightarrow> capability_spec \<Rightarrow> capability" where
  "child_capability parent holder child =
     \<lparr>cap_id = ''urn:pending'', cap_controller = holder,
      cap_parentCapability = Some (cap_id (ch_capability parent)),
      cap_invocationTarget = sp_invocationTarget child, cap_authority = sp_authority child,
      cap_caveats = sp_caveats child\<rparr>"

definition delegateCapability ::
    "hash \<Rightarrow> (string \<Rightarrow> string) \<Rightarrow> issue_env \<Rightarrow> string \<Rightarrow> capability_handle \<Rightarrow> did \<Rightarrow> capability_spec \<Rightarrow>
     delegation_error + (capability_handle \<times> pic_block)" where
  "delegateCapability H coll env issuerName parent holder child =
     (if ie_issuerDid env \<noteq> cap_controller (ch_capability parent) then Inl NotHolder
      else if \<not> capabilityNarrows (child_capability parent holder child) (ch_capability parent)
        then Inl DoesNotAttenuate
      else case issueVc H caveats_json env
           (capability_issue_args coll issuerName holder child (Some (ch_issued parent))) of
        Inl e \<Rightarrow> Inl (IssueFailed e)
      | Inr (issued, pic) \<Rightarrow>
          Inr (\<lparr>ch_issued = issued,
                ch_capability = (child_capability parent holder child)\<lparr>cap_id := iv_vcDid issued\<rparr>\<rparr>, pic))"

section \<open>Disclosure\<close>

type_synonym disclosure = "did \<Rightarrow> caveats authority_payload option"

definition payload_of :: "caveats issued_vc \<Rightarrow> caveats authority_payload" where
  "payload_of i = \<lparr>ap_authoritySet = iv_authoritySet i, ap_salt = iv_salt i, ap_caveats = iv_caveats i\<rparr>"

text \<open>\<open>Object.fromEntries\<close>: a later entry of the same key wins.\<close>

definition discloseChain :: "capability_handle list \<Rightarrow> disclosure" where
  "discloseChain handles =
     map_of (rev (map (\<lambda>h. (iv_vcDid (ch_issued h), payload_of (ch_issued h))) handles))"

record chain_grant =
  cg_handle :: capability_handle
  cg_ancestorDisclosures :: disclosure

definition disclosedFor :: "chain_grant \<Rightarrow> disclosure" where
  "disclosedFor grant = cg_ancestorDisclosures grant ++ discloseChain [cg_handle grant]"

fun caveatsChainNarrows :: "caveats list \<Rightarrow> bool" where
  "caveatsChainNarrows (child # parent # rest) =
     (caveatsNarrow child parent \<and> caveatsChainNarrows (parent # rest))"
| "caveatsChainNarrows _ = True"

section \<open>Verification\<close>

text \<open>
  The caller's options; \<open>maxHops\<close> defaults to 64 in the generic verifier, and the delegator binding,
  which the capability layer never passes, to true. The injected comparison reads two missing caveats
  as a thrown \<open>TypeError\<close>, caught as false.
\<close>

record capability_verify_options =
  co_expectedRootIssuer :: "did option"
  co_disclosed :: "disclosure option"
  co_maxHops :: "nat option"
  co_requireFullDisclosure :: bool
  co_requireStatus :: bool
  co_checkHopStatus :: "(caveats option \<Rightarrow> did \<Rightarrow> hop_status) option"

definition caveatNarrows :: "caveats option \<Rightarrow> caveats option \<Rightarrow> bool" where
  "caveatNarrows child parent =
     (case (child, parent) of (Some c, Some p) \<Rightarrow> caveatsNarrow c p | _ \<Rightarrow> False)"

definition chain_options :: "capability_verify_options \<Rightarrow> caveats verify_options" where
  "chain_options opts =
     \<lparr>vo_expectedRootIssuer = co_expectedRootIssuer opts,
      vo_disclosed = (case co_disclosed opts of Some d \<Rightarrow> d | None \<Rightarrow> Map.empty),
      vo_maxHops = (case co_maxHops opts of Some n \<Rightarrow> n | None \<Rightarrow> 64),
      vo_requireDisclosure = co_requireFullDisclosure opts,
      vo_caveatNarrows = Some caveatNarrows,
      vo_requireStatus = co_requireStatus opts,
      vo_checkHopStatus = co_checkHopStatus opts,
      vo_requireDelegatorBinding = True\<rparr>"

definition verifyCapabilityChain ::
    "hash \<Rightarrow> archon \<Rightarrow> capability_verify_options \<Rightarrow> did \<Rightarrow> caveats verify_result" where
  "verifyCapabilityChain H A opts leafVcDid =
     verifyAttenuationChain H caveats_json A (chain_options opts) leafVcDid"

section \<open>Facts about disclosure and narrowing along a chain\<close>

lemma caveatsChainNarrows_adjacent: "caveatsChainNarrows cs \<longleftrightarrow> adjacent caveatsNarrow cs"
  by (induction cs rule: caveatsChainNarrows.induct) auto

lemma disclosedFor_leaf [simp]:
  "disclosedFor g (iv_vcDid (ch_issued (cg_handle g))) = Some (payload_of (ch_issued (cg_handle g)))"
  by (simp add: disclosedFor_def discloseChain_def)

lemma chain_options_simps [simp]:
  "vo_requireDisclosure (chain_options opts) = co_requireFullDisclosure opts"
  "vo_caveatNarrows (chain_options opts) = Some caveatNarrows"
  "vo_requireDelegatorBinding (chain_options opts)"
  "vo_expectedRootIssuer (chain_options opts) = co_expectedRootIssuer opts"
  "vo_checkHopStatus (chain_options opts) = co_checkHopStatus opts"
  "vo_requireStatus (chain_options opts) = co_requireStatus opts"
  by (simp_all add: chain_options_def)

lemma caveatNarrows_iff:
  "caveatNarrows c p \<longleftrightarrow> (\<exists>c' p'. c = Some c' \<and> p = Some p' \<and> caveatsNarrow c' p')"
  by (simp add: caveatNarrows_def split: option.split)

lemma caveatNarrows_trans: "caveatNarrows a b \<Longrightarrow> caveatNarrows b c \<Longrightarrow> caveatNarrows a c"
  unfolding caveatNarrows_iff by (metis caveatsNarrow_trans option.inject)

definition hop_caveats :: "disclosure \<Rightarrow> hop \<Rightarrow> caveats option" where
  "hop_caveats d h = Option.bind (d (hop_did h)) ap_caveats"

text \<open>Along an accepted, fully disclosed chain the leaf's caveats narrow those of every proper ancestor.\<close>

lemma chain_caveats_below:
  assumes chain: "good_chain H caveats_json A (chain_options opts) leaf hops"
    and full: "co_requireFullDisclosure opts"
    and i: "0 < i" "i < length hops"
  shows "caveatNarrows (hop_caveats (vo_disclosed (chain_options opts)) (hd hops))
           (hop_caveats (vo_disclosed (chain_options opts)) (hops ! i))"
proof -
  let ?d = "vo_disclosed (chain_options opts)"
  obtain x xs where hops: "hops = x # xs" using i by (cases hops) auto
  have reveal: "\<exists>r. ?d (hop_did h) = Some r" if "h \<in> set hops" for h
    using good_chain_disclosed [OF chain _ that] full by auto
  have "adjacent (\<lambda>c p. caveatNarrows (hop_caveats ?d c) (hop_caveats ?d p)) hops"
    unfolding adjacent_nth
  proof (intro allI impI)
    fix j assume j: "Suc j < length hops"
    then obtain c p where "?d (hop_did (hops ! j)) = Some c" "?d (hop_did (hops ! Suc j)) = Some p"
      using reveal [of "hops ! j"] reveal [of "hops ! Suc j"] by auto
    moreover have "\<forall>narrows. vo_caveatNarrows (chain_options opts) = Some narrows \<longrightarrow>
        narrows (ap_caveats (the (?d (hop_did (hops ! j))))) (ap_caveats (the (?d (hop_did (hops ! Suc j)))))"
      using good_chain_narrows [OF chain, unfolded adjacent_nth] full j by simp
    ultimately show "caveatNarrows (hop_caveats ?d (hops ! j)) (hop_caveats ?d (hops ! Suc j))"
      by (simp add: hop_caveats_def)
  qed
  with adjacent_transp_all
    [of "\<lambda>c p. caveatNarrows (hop_caveats ?d c) (hop_caveats ?d p)" x xs "hops ! i"] i hops
  show ?thesis
    by (cases i) (auto intro!: transpI dest: caveatNarrows_trans)
qed

text \<open>
  An ordered pair of caveats as the monitor reads them: the child discloses no more, for no other
  owner or recipient, no longer, and keeps every gate of the parent.
\<close>

definition at_most :: "caveats \<Rightarrow> caveats \<Rightarrow> bool" where
  "at_most c p \<longleftrightarrow>
     (\<exists>x y. cv_ceiling c = Some x \<and> cv_ceiling p = Some y \<and> x \<le> y) \<and>
     (\<forall>o'. cv_owner p = Some o' \<longrightarrow> cv_owner c = Some o') \<and>
     (\<forall>a. cv_audience p = Some a \<longrightarrow> cv_audience c = Some a) \<and>
     (\<forall>e. cv_expires p = Some e \<and> e \<noteq> [] \<longrightarrow> (\<exists>e'. cv_expires c = Some e' \<and> e' \<noteq> [] \<and> e' \<le> e)) \<and>
     (cv_singleUse p = Some True \<longrightarrow> cv_singleUse c = Some True) \<and>
     (cv_status p \<noteq> None \<longrightarrow> cv_status c \<noteq> None) \<and>
     (\<forall>pk. cv_kinds p = Some pk \<longrightarrow> (\<exists>ck. cv_kinds c = Some ck \<and> set ck \<subseteq> set pk)) \<and>
     discharge_key ` set (opt_list (cv_requiresDischarge p))
       \<subseteq> discharge_key ` set (opt_list (cv_requiresDischarge c))"

lemma caveatsNarrow_at_most: "caveatsNarrow c p \<Longrightarrow> at_most c p"
  unfolding at_most_def
proof (intro conjI)
  assume n: "caveatsNarrow c p"
  show "\<forall>o'. cv_owner p = Some o' \<longrightarrow> cv_owner c = Some o'" using caveatsNarrowD(2) [OF n] by auto
  show "\<forall>a. cv_audience p = Some a \<longrightarrow> cv_audience c = Some a" using caveatsNarrowD(3) [OF n] by auto
  show "\<forall>e. cv_expires p = Some e \<and> e \<noteq> [] \<longrightarrow> (\<exists>e'. cv_expires c = Some e' \<and> e' \<noteq> [] \<and> e' \<le> e)"
    using caveatsNarrowD(4) [OF n]
    by (cases "cv_expires c") (auto simp: expiresWithin_def split: if_splits)
  show "\<exists>x y. cv_ceiling c = Some x \<and> cv_ceiling p = Some y \<and> x \<le> y" by (rule caveatsNarrowD(1) [OF n])
qed (rule caveatsNarrowD(5-8), assumption)+

lemma accepted_capability_chain:
  assumes "verifyCapabilityChain H A opts leaf = Accepted k ho au ca" "co_requireFullDisclosure opts"
  shows "\<exists>hops. length hops = k \<and> hops \<noteq> [] \<and> hop_did (hd hops) = leaf \<and>
     ca = hop_caveats (vo_disclosed (chain_options opts)) (hd hops) \<and>
     (\<forall>i. 0 < i \<and> i < k \<longrightarrow>
        (\<exists>c p. ca = Some c \<and> hop_caveats (vo_disclosed (chain_options opts)) (hops ! i) = Some p \<and>
           at_most c p \<and> isSubset (the au) (hop_authority (chain_options opts) (hops ! i)) \<and>
           (\<exists>r. vo_disclosed (chain_options opts) (hop_did (hops ! i)) = Some r \<and>
              opens H caveats_json (chain_options opts) (hop_controller (hops ! i)) (hop_pic (hops ! i)) r)))"
proof -
  let ?o = "chain_options opts"
  from assms(1) obtain hops where chain: "good_chain H caveats_json A ?o leaf hops" and k: "k = length hops"
    and au: "au = map_option ap_authoritySet (vo_disclosed ?o leaf)"
    and ca: "ca = Option.bind (vo_disclosed ?o leaf) ap_caveats"
    unfolding verifyCapabilityChain_def verify_accepts_iff by blast
  from chain have ne: "hops \<noteq> []" "hop_did (hd hops) = leaf" by (auto simp: good_chain_def)
  have full: "vo_requireDisclosure ?o" using assms(2) by simp
  have ca': "ca = hop_caveats (vo_disclosed ?o) (hd hops)" using ca ne by (simp add: hop_caveats_def)
  obtain r0 where "vo_disclosed ?o leaf = Some r0"
    using good_chain_disclosed [OF chain full, of "hd hops"] ne by auto
  then have au': "the au = hop_authority ?o (hd hops)" using au ne by (simp add: hop_authority_def)
  have "\<exists>c p. ca = Some c \<and> hop_caveats (vo_disclosed ?o) (hops ! i) = Some p \<and> at_most c p \<and>
      isSubset (the au) (hop_authority ?o (hops ! i)) \<and>
      (\<exists>r. vo_disclosed ?o (hop_did (hops ! i)) = Some r \<and>
         opens H caveats_json ?o (hop_controller (hops ! i)) (hop_pic (hops ! i)) r)"
    if i: "0 < i" "i < k" for i
  proof -
    have h: "hops ! i \<in> set hops" using i k by simp
    from chain_caveats_below [OF chain assms(2) i(1)] i(2) k ca'
    have "\<exists>c p. ca = Some c \<and> hop_caveats (vo_disclosed ?o) (hops ! i) = Some p \<and> at_most c p"
      by (auto simp: caveatNarrows_iff intro: caveatsNarrow_at_most)
    moreover have "isSubset (the au) (hop_authority ?o (hops ! i))"
      using good_chain_leaf_below [OF chain full h] au' by simp
    moreover obtain r where "vo_disclosed ?o (hop_did (hops ! i)) = Some r"
      "opens H caveats_json ?o (hop_controller (hops ! i)) (hop_pic (hops ! i)) r"
      by (rule good_chain_disclosed [OF chain full h])
    ultimately show ?thesis by blast
  qed
  with k ne ca' show ?thesis by blast
qed


definition hop_after :: "capability_handle \<Rightarrow> capability_handle \<Rightarrow> bool" where
  "hop_after c p \<longleftrightarrow> iv_counter (ch_issued c) = iv_counter (ch_issued p) + 1 \<and>
     iv_lineageId (ch_issued c) = iv_lineageId (ch_issued p) \<and>
     iv_holder (ch_issued c) = cap_controller (ch_capability c) \<and>
     isSubset (iv_authoritySet (ch_issued c)) (iv_authoritySet (ch_issued p))"

text \<open>
  Delegation only narrows: when \<open>delegateCapability\<close> returns, the issuer is the controller of the
  parent, the new capability points at it, its target, authority and caveats are within the parent's,
  and the hop it minted is one step further from the origin of the same lineage; anyone but the
  parent's controller is refused, and so is a child that widens anything.
\<close>

theorem delegation_narrows:
  "case delegateCapability H coll env name parent holder child of
     Inl NotHolder \<Rightarrow> ie_issuerDid env \<noteq> cap_controller (ch_capability parent)
   | Inl DoesNotAttenuate \<Rightarrow> \<not> capabilityNarrows (child_capability parent holder child) (ch_capability parent)
   | Inl (IssueFailed _) \<Rightarrow> ie_issuerDid env = cap_controller (ch_capability parent)
   | Inr (c, pic) \<Rightarrow>
       ie_issuerDid env = cap_controller (ch_capability parent) \<and>
       capabilityNarrows (ch_capability c) (ch_capability parent) \<and>
       cap_controller (ch_capability c) = holder \<and>
       cap_id (ch_capability c) = iv_vcDid (ch_issued c) \<and> hop_after c parent"
proof (cases "delegateCapability H coll env name parent holder child")
  case (Inl e)
  then show ?thesis
    by (cases e) (auto simp: delegateCapability_def split: if_splits sum.splits)
next
  case (Inr r)
  obtain c pic where r: "r = (c, pic)" by (cases r)
  let ?args = "capability_issue_args coll name holder child (Some (ch_issued parent))"
  from Inr r obtain issued where iv: "issueVc H caveats_json env ?args = Inr (issued, pic)"
    and issuer: "ie_issuerDid env = cap_controller (ch_capability parent)"
    and narrow: "capabilityNarrows (child_capability parent holder child) (ch_capability parent)"
    and c: "ch_issued c = issued" "ch_capability c = (child_capability parent holder child)\<lparr>cap_id := iv_vcDid issued\<rparr>"
    by (auto simp: delegateCapability_def split: if_splits sum.splits)
  have "capabilityNarrows (ch_capability c) (ch_capability parent)"
    using narrow by (simp add: c capabilityNarrows_def split: if_splits)
  moreover have "cap_controller (ch_capability c) = holder" by (simp add: c child_capability_def)
  moreover from this have "hop_after c parent"
    using issueVc_Inr(6,8,9) [OF iv] issueVc_narrows [OF iv, of "ch_issued parent"]
    by (simp add: hop_after_def c capability_issue_args_def issue_counter_def issue_lineageId_def)
  ultimately show ?thesis using Inr r issuer c by simp
qed

end
