(* ===== verification/Status_List.thy ===== *)
theory Status_List
  imports Prelude "HOL-Library.Word"
begin

text \<open>
  The W3C bitstring status list: \<open>packages/core/src/status-list.ts\<close>. A list is a sequence of 8-bit
  words. Archon's versioned asset is the list of its published versions, newest last; compression
  and base64 (\<open>gzipSync\<close>, \<open>gunzipSync\<close>) are the arguments \<open>gz\<close> and \<open>gunz\<close>, of which the properties
  use that unzipping inverts zipping; signing and signature checking are arguments too.

  The lemmas show the bit operations address 131072 independent bits, that revocation sets exactly
  one of them in a new version, that the checker fails closed, and that a pinned version answers what
  the checker answered.
\<close>

unbundle bit_operations_syntax

section \<open>The bitstring\<close>

type_synonym bitstring = "8 word list"

definition STATUS_LIST_LENGTH :: nat where
  "STATUS_LIST_LENGTH = 131072"

definition STATUS_LIST_BYTES :: nat where
  "STATUS_LIST_BYTES = STATUS_LIST_LENGTH div 8"

definition decodeBitstring :: "(string \<Rightarrow> bitstring option) \<Rightarrow> string \<Rightarrow> bitstring option" where
  "decodeBitstring gunz encoded =
     (case gunz encoded of
        None \<Rightarrow> None
      | Some bytes \<Rightarrow> if length bytes \<noteq> STATUS_LIST_BYTES then None else Some bytes)"

definition in_range :: "int \<Rightarrow> bool" where
  "in_range index \<longleftrightarrow> \<not> (index < 0 \<or> index \<ge> int STATUS_LIST_LENGTH)"

definition getBit :: "bitstring \<Rightarrow> int \<Rightarrow> bool option" where
  "getBit bytes index =
     (if \<not> in_range index then None
      else Some (drop_bit (7 - (nat index AND 7)) (bytes ! drop_bit 3 (nat index)) AND 1 = 1))"

definition setBit :: "bitstring \<Rightarrow> int \<Rightarrow> bitstring" where
  "setBit bytes index =
     (let i = drop_bit 3 (nat index) in bytes[i := bytes ! i OR drop_bit (nat index AND 7) 0x80])"

lemma nat_bits: "(n :: nat) AND 7 = n mod 8" "drop_bit 3 (n :: nat) = n div 8"
proof -
  have "n AND mask 3 = n mod 2 ^ 3" by (simp add: take_bit_eq_mod flip: take_bit_eq_mask)
  then show "n AND 7 = n mod 8" by (simp add: mask_eq_exp_minus_1)
  show "drop_bit 3 n = n div 8" by (simp add: drop_bit_eq_div)
qed

lemma getBit_bit:
  "in_range i \<Longrightarrow> getBit bytes i = Some (bit (bytes ! (nat i div 8)) (7 - nat i mod 8))"
  by (simp add: getBit_def nat_bits bit_iff_odd_drop_bit and_one_eq odd_iff_mod_2_eq_one)

lemma bit_128: "bit (0x80 :: 8 word) n \<longleftrightarrow> n = 7"
proof -
  have "bit (2 ^ 7 :: 8 word) n \<longleftrightarrow> n = 7"
    by (subst bit_exp_iff) (auto simp: possible_bit_word)
  then show ?thesis by simp
qed

lemma getBit_setBit:
  assumes len: "length bytes = STATUS_LIST_BYTES" and i: "in_range i" and j: "in_range j"
  shows "getBit (setBit bytes i) j = map_option (\<lambda>b. b \<or> i = j) (getBit bytes j)"
proof (cases "nat i div 8 = nat j div 8")
  case True
  have k: "nat j div 8 < length bytes"
    using j len by (auto simp: in_range_def STATUS_LIST_BYTES_def STATUS_LIST_LENGTH_def)
  have "bit (drop_bit (nat i mod 8) (0x80 :: 8 word)) (7 - nat j mod 8) \<longleftrightarrow> nat i mod 8 = nat j mod 8"
    unfolding bit_drop_bit_eq comp_apply bit_128
    using mod_less_divisor [of 8 "nat i"] mod_less_divisor [of 8 "nat j"] by linarith
  moreover have "nat i mod 8 = nat j mod 8 \<longleftrightarrow> i = j"
    using True i j by (auto simp: in_range_def) (metis div_mult_mod_eq eq_nat_nat_iff not_less)
  ultimately show ?thesis
    using True k by (simp add: getBit_bit [OF j] setBit_def nat_bits Let_def bit_or_iff)
next
  case False
  then have "i \<noteq> j" by auto
  with False show ?thesis by (simp add: getBit_bit [OF j] setBit_def nat_bits Let_def)
qed

lemma length_setBit [simp]: "length (setBit bytes i) = length bytes"
  by (simp add: setBit_def Let_def)

lemma getBit_zero: "in_range i \<Longrightarrow> getBit (replicate STATUS_LIST_BYTES 0) i = Some False"
  by (auto simp: getBit_bit in_range_def STATUS_LIST_BYTES_def STATUS_LIST_LENGTH_def)

lemma getBit_None_iff: "getBit bytes i = None \<longleftrightarrow> \<not> in_range i"
  by (simp add: getBit_def)

section \<open>Lists, versions and pins\<close>

record signed_status_list =
  sl_issuer :: did
  sl_encodedList :: "string option"
  sl_listVersion :: nat
  sl_updatedAt :: string
  sl_verificationMethod :: "string option"

text \<open>\<open>sl_verificationMethod\<close> is that of the proof; it is absent in an unsigned body.\<close>

record status_version =
  sv_versionId :: string
  sv_list :: "signed_status_list option"

type_synonym status_asset = "status_version list"

record status_pin =
  sp_credential :: did
  sp_versionSequence :: nat
  sp_versionId :: string

definition current :: "status_asset \<Rightarrow> status_version option" where
  "current vs = (if vs = [] then None else Some (last vs))"

definition version_at :: "status_asset \<Rightarrow> nat \<Rightarrow> status_version option" where
  "version_at vs n = (if 0 < n \<and> n \<le> length vs then Some (vs ! (n - 1)) else None)"

definition pinOf :: "did \<Rightarrow> status_asset \<Rightarrow> status_pin" where
  "pinOf cred vs = \<lparr>sp_credential = cred, sp_versionSequence = length vs,
     sp_versionId = (case current vs of Some v \<Rightarrow> sv_versionId v | None \<Rightarrow> [])\<rparr>"

section \<open>Issuer side\<close>

text \<open>What Keymaster does for the issuer: its DID, its signature, the content address of a version.\<close>

record status_env =
  se_issuerDid :: did
  se_addProof :: "signed_status_list \<Rightarrow> signed_status_list"
  se_versionId :: "signed_status_list \<Rightarrow> string"
  se_now :: string

definition publish_list :: "status_env \<Rightarrow> status_asset \<Rightarrow> signed_status_list \<Rightarrow> status_asset" where
  "publish_list env vs body =
     (let signed = se_addProof env body
      in vs @ [\<lparr>sv_versionId = se_versionId env signed, sv_list = Some signed\<rparr>])"

definition createStatusList :: "(bitstring \<Rightarrow> string) \<Rightarrow> status_env \<Rightarrow> status_asset" where
  "createStatusList gz env =
     publish_list env []
       \<lparr>sl_issuer = se_issuerDid env, sl_encodedList = Some (gz (replicate STATUS_LIST_BYTES 0)),
        sl_listVersion = 1, sl_updatedAt = se_now env, sl_verificationMethod = None\<rparr>"

datatype status_error = OutOfRange | Unresolvable | Undecodable

text \<open>The list of a version, and the bits of a list; a missing list has no \<open>encodedList\<close>.\<close>

definition version_bits :: "(string \<Rightarrow> bitstring option) \<Rightarrow> status_version \<Rightarrow> bitstring option" where
  "version_bits gunz v =
     Option.bind (sv_list v) (\<lambda>l. Option.bind (sl_encodedList l) (decodeBitstring gunz))"

definition revokeStatusIndex ::
    "(bitstring \<Rightarrow> string) \<Rightarrow> (string \<Rightarrow> bitstring option) \<Rightarrow> status_env \<Rightarrow> did \<Rightarrow> status_asset \<Rightarrow> int \<Rightarrow>
     status_error + status_asset \<times> status_pin \<times> nat \<times> bool" where
  "revokeStatusIndex gz gunz env cred vs index =
     (if \<not> in_range index then Inl OutOfRange
      else case current vs of
        None \<Rightarrow> Inl Unresolvable
      | Some cur \<Rightarrow>
          (let curVersion = (case sv_list cur of Some l \<Rightarrow> sl_listVersion l | None \<Rightarrow> 0)
           in case version_bits gunz cur of
             None \<Rightarrow> Inl Undecodable
           | Some bytes \<Rightarrow>
               if getBit bytes index = Some True then Inr (vs, pinOf cred vs, curVersion, True)
               else
                 (let listVersion = curVersion + 1;
                      vs' = publish_list env vs
                        \<lparr>sl_issuer = se_issuerDid env, sl_encodedList = Some (gz (setBit bytes index)),
                         sl_listVersion = listVersion, sl_updatedAt = se_now env,
                         sl_verificationMethod = None\<rparr>
                  in Inr (vs', pinOf cred vs', listVersion, False))))"

section \<open>Checker side\<close>

record resolver_options =
  ro_statusListCredential :: did
  ro_expectedIssuer :: did
  ro_maxAgeMs :: int

record status_cache =
  ca_bytes :: bitstring
  ca_pin :: status_pin
  ca_fetchedAt :: int

datatype unavailable =
    Missing_or_malformed | Bad_signature | Wrong_signer | Not_resolvable | Index_out_of_range

datatype status_check = Unavailable unavailable | Known bool status_pin

text \<open>
  \<open>resolve\<close> is the asset behind a DID, \<^const>\<open>None\<close> when resolution throws; a body that does not decode
  throws inside the same \<open>try\<close>.
\<close>

definition refresh ::
    "(string \<Rightarrow> bitstring option) \<Rightarrow> (did \<Rightarrow> status_asset option) \<Rightarrow> (signed_status_list \<Rightarrow> bool) \<Rightarrow>
     resolver_options \<Rightarrow> int \<Rightarrow> unavailable + status_cache" where
  "refresh gunz resolve verify opts now =
     (case resolve (ro_statusListCredential opts) of
        None \<Rightarrow> Inl Not_resolvable
      | Some vs \<Rightarrow>
          (case Option.bind (current vs) sv_list of
             None \<Rightarrow> Inl Missing_or_malformed
           | Some list \<Rightarrow>
               (case (sl_encodedList list, sl_verificationMethod list) of
                  (Some encoded, Some method) \<Rightarrow>
                    if \<not> verify list then Inl Bad_signature
                    else if before_hash method \<noteq> ro_expectedIssuer opts then Inl Wrong_signer
                    else (case decodeBitstring gunz encoded of
                        None \<Rightarrow> Inl Not_resolvable
                      | Some bytes \<Rightarrow>
                          Inr \<lparr>ca_bytes = bytes, ca_pin = pinOf (ro_statusListCredential opts) vs,
                               ca_fetchedAt = now\<rparr>)
                | _ \<Rightarrow> Inl Missing_or_malformed)))"

definition read_cache :: "status_cache \<Rightarrow> int \<Rightarrow> status_check" where
  "read_cache c index =
     (case getBit (ca_bytes c) index of
        None \<Rightarrow> Unavailable Index_out_of_range | Some revoked \<Rightarrow> Known revoked (ca_pin c))"

definition check ::
    "(string \<Rightarrow> bitstring option) \<Rightarrow> (did \<Rightarrow> status_asset option) \<Rightarrow> (signed_status_list \<Rightarrow> bool) \<Rightarrow>
     resolver_options \<Rightarrow> status_cache option \<Rightarrow> int \<Rightarrow> int \<Rightarrow> status_check \<times> status_cache option" where
  "check gunz resolve verify opts cache now index =
     (case cache of
        Some c \<Rightarrow>
          if now - ca_fetchedAt c < ro_maxAgeMs opts then (read_cache c index, cache)
          else (case refresh gunz resolve verify opts now of
              Inl r \<Rightarrow> (Unavailable r, cache) | Inr c' \<Rightarrow> (read_cache c' index, Some c'))
      | None \<Rightarrow>
          (case refresh gunz resolve verify opts now of
              Inl r \<Rightarrow> (Unavailable r, None) | Inr c' \<Rightarrow> (read_cache c' index, Some c')))"

datatype audit_result = Audit (versionIdMatches: bool) (revokedThen: bool)

text \<open>The audit of a pin; an absent list reads as one with no bit set, a list that does not decode throws.\<close>

definition auditRevocationAt ::
    "(string \<Rightarrow> bitstring option) \<Rightarrow> status_asset \<Rightarrow> status_pin \<Rightarrow> int \<Rightarrow> audit_result option" where
  "auditRevocationAt gunz vs pin index =
     (case version_at vs (sp_versionSequence pin) of
        None \<Rightarrow> None
      | Some v \<Rightarrow>
          (let bits = (case sv_list v of
               None \<Rightarrow> Some (replicate STATUS_LIST_BYTES 0) | Some _ \<Rightarrow> version_bits gunz v)
           in map_option (Audit (sv_versionId v = sp_versionId pin))
                (Option.bind bits (\<lambda>bs. getBit bs index))))"

section \<open>Bits and revocation\<close>

text \<open>
  The bitstring is a map of 131072 independent flags: in a list of the fixed size, setting the
  bit at one index makes that index revoked and leaves every other index as it was, the size does not
  change, a fresh list revokes nothing, and exactly the indices outside the range have no bit.
\<close>

theorem status_bits_independent:
  assumes "length bytes = STATUS_LIST_BYTES" "in_range i"
  shows "(\<forall>j. getBit (setBit bytes i) j = (if i = j then Some True else getBit bytes j)) \<and>
    length (setBit bytes i) = STATUS_LIST_BYTES \<and>
    (\<forall>j. getBit bytes j = None \<longleftrightarrow> j < 0 \<or> 131072 \<le> j) \<and>
    getBit (replicate STATUS_LIST_BYTES 0) i = Some False"
proof (intro conjI allI)
  fix j
  show "getBit (setBit bytes i) j = (if i = j then Some True else getBit bytes j)"
  proof (cases "in_range j")
    case True
    with getBit_setBit [OF assms True] show ?thesis
      by (cases "getBit bytes j") (simp_all add: getBit_None_iff)
  next
    case False
    with assms(2) have "i \<noteq> j" by auto
    with False show ?thesis by (simp add: getBit_def)
  qed
  show "getBit bytes j = None \<longleftrightarrow> j < 0 \<or> 131072 \<le> j"
    by (auto simp: getBit_def in_range_def STATUS_LIST_LENGTH_def)
qed (use assms in \<open>simp_all add: getBit_zero\<close>)

lemma status_bits_independent_witness:
  "getBit (setBit (replicate STATUS_LIST_BYTES 0) 9) 9 = Some True \<and>
   getBit (setBit (replicate STATUS_LIST_BYTES 0) 9) 10 = getBit (replicate STATUS_LIST_BYTES 0) 10"
proof -
  have "in_range 9" by (simp add: in_range_def STATUS_LIST_LENGTH_def)
  from status_bits_independent [OF length_replicate this] show ?thesis by simp
qed


text \<open>What the properties use of compression and of signing.\<close>

definition codec :: "(bitstring \<Rightarrow> string) \<Rightarrow> (string \<Rightarrow> bitstring option) \<Rightarrow> bool" where
  "codec gz gunz \<longleftrightarrow> (\<forall>bs. gunz (gz bs) = Some bs)"

definition signs_body :: "status_env \<Rightarrow> bool" where
  "signs_body env \<longleftrightarrow> (\<forall>l. sl_encodedList (se_addProof env l) = sl_encodedList l \<and>
     sl_listVersion (se_addProof env l) = sl_listVersion l)"

definition current_bits :: "(string \<Rightarrow> bitstring option) \<Rightarrow> status_asset \<Rightarrow> bitstring option" where
  "current_bits gunz vs = Option.bind (current vs) (version_bits gunz)"

lemma decode_encode:
  "codec gz gunz \<Longrightarrow> length bs = STATUS_LIST_BYTES \<Longrightarrow> decodeBitstring gunz (gz bs) = Some bs"
  by (simp add: codec_def decodeBitstring_def)

lemma current_publish [simp]:
  "current (publish_list env vs body) =
     Some \<lparr>sv_versionId = se_versionId env (se_addProof env body), sv_list = Some (se_addProof env body)\<rparr>"
  by (simp add: current_def publish_list_def Let_def)

lemma current_bits_publish:
  "signs_body env \<Longrightarrow> codec gz gunz \<Longrightarrow> length bs = STATUS_LIST_BYTES \<Longrightarrow>
     sl_encodedList body = Some (gz bs) \<Longrightarrow> current_bits gunz (publish_list env vs body) = Some bs"
  by (simp add: current_bits_def version_bits_def signs_body_def decode_encode)

lemma current_bits_length: "current_bits gunz vs = Some bs \<Longrightarrow> length bs = STATUS_LIST_BYTES"
  by (auto simp: current_bits_def version_bits_def decodeBitstring_def bind_eq_Some_conv
      split: option.splits if_splits)

lemma revoke_Inr:
  assumes r: "revokeStatusIndex gz gunz env cred vs i = Inr (vs', pin, n, already)"
    and gz: "codec gz gunz" and sig: "signs_body env"
  obtains bs where "in_range i" "current_bits gunz vs = Some bs" "pin = pinOf cred vs'"
    "already \<longleftrightarrow> getBit bs i = Some True" "already \<Longrightarrow> vs' = vs"
    "\<not> already \<Longrightarrow> current_bits gunz vs' = Some (setBit bs i) \<and> (\<exists>v. vs' = vs @ [v])"
proof -
  from r have i: "in_range i" by (auto simp: revokeStatusIndex_def split: if_splits)
  from r i obtain cur where cur: "current vs = Some cur"
    by (auto simp: revokeStatusIndex_def split: option.splits)
  from r i cur obtain bs where bs: "version_bits gunz cur = Some bs"
    by (auto simp: revokeStatusIndex_def Let_def split: option.splits)
  from cur bs have cb: "current_bits gunz vs = Some bs" by (simp add: current_bits_def)
  show thesis
  proof (cases "getBit bs i = Some True")
    case True
    with r i cur bs have "vs' = vs" "pin = pinOf cred vs'" "already"
      by (auto simp: revokeStatusIndex_def Let_def)
    with True that [OF i cb] show thesis by blast
  next
    case False
    with r i cur bs obtain m where
      "vs' = publish_list env vs \<lparr>sl_issuer = se_issuerDid env, sl_encodedList = Some (gz (setBit bs i)),
         sl_listVersion = m, sl_updatedAt = se_now env, sl_verificationMethod = None\<rparr>"
      "pin = pinOf cred vs'" "\<not> already"
      by (auto simp: revokeStatusIndex_def Let_def)
    moreover from this(1) have "current_bits gunz vs' = Some (setBit bs i)"
      using current_bits_length [OF cb] by (simp add: current_bits_publish [OF sig gz])
    moreover from calculation(1) have "\<exists>v. vs' = vs @ [v]" by (simp add: publish_list_def Let_def)
    ultimately show thesis using False that [OF i cb] by blast
  qed
qed

lemma revoke_bits:
  assumes "revokeStatusIndex gz gunz env cred vs i = Inr (vs', pin, n, already)"
    and "codec gz gunz" "signs_body env"
  shows "\<exists>bs bs'. current_bits gunz vs = Some bs \<and> current_bits gunz vs' = Some bs' \<and>
    (\<forall>j. getBit bs' j = (if i = j then Some True else getBit bs j))"
proof -
  obtain bs where bs: "in_range i" "current_bits gunz vs = Some bs" "already \<longleftrightarrow> getBit bs i = Some True"
    "already \<Longrightarrow> vs' = vs" "\<not> already \<Longrightarrow> current_bits gunz vs' = Some (setBit bs i) \<and> (\<exists>v. vs' = vs @ [v])"
    using revoke_Inr [OF assms] by metis
  show ?thesis
  proof (cases already)
    case True
    with bs show ?thesis by (intro exI [of _ bs]) auto
  next
    case False
    have "getBit (setBit bs i) j = (if i = j then Some True else getBit bs j)" for j
    proof (cases "in_range j")
      case True
      with getBit_setBit [OF current_bits_length [OF bs(2)] bs(1) True] show ?thesis
        by (cases "getBit bs j") (simp_all add: getBit_None_iff)
    next
      case False
      with bs(1) show ?thesis by (auto simp: getBit_def)
    qed
    with False bs show ?thesis by blast
  qed
qed

text \<open>
  Revocation is exact, append-only and idempotent: revoking an index of a decodable list makes
  that index revoked in the current version and no other; every version that was published stays
  where it was; a new version is written exactly when the index was not already revoked; and revoking
  it again writes nothing.
\<close>

theorem revocation_is_exact:
  assumes "codec gz gunz" "signs_body env"
    and "revokeStatusIndex gz gunz env cred vs i = Inr (vs', pin, n, already)"
  shows "(\<exists>bs bs'. current_bits gunz vs = Some bs \<and> current_bits gunz vs' = Some bs' \<and>
       (\<forall>j. getBit bs' j = (if i = j then Some True else getBit bs j)) \<and>
       (already \<longleftrightarrow> getBit bs i = Some True)) \<and>
     vs' = vs @ drop (length vs) vs' \<and> length vs' = (if already then length vs else length vs + 1) \<and>
     pin = pinOf cred vs' \<and>
     (\<exists>m. revokeStatusIndex gz gunz env cred vs' i = Inr (vs', pinOf cred vs', m, True))"
proof -
  obtain bs where bs: "in_range i" "current_bits gunz vs = Some bs" "pin = pinOf cred vs'"
    "already \<longleftrightarrow> getBit bs i = Some True" "already \<Longrightarrow> vs' = vs"
    "\<not> already \<Longrightarrow> current_bits gunz vs' = Some (setBit bs i) \<and> (\<exists>v. vs' = vs @ [v])"
    using revoke_Inr [OF assms(3,1,2)] by metis
  from revoke_bits [OF assms(3,1,2)] bs(2) obtain bs' where bs':
    "current_bits gunz vs' = Some bs'" "\<forall>j. getBit bs' j = (if i = j then Some True else getBit bs j)"
    by auto
  moreover have "\<exists>m. revokeStatusIndex gz gunz env cred vs' i = Inr (vs', pinOf cred vs', m, True)"
    using bs(1) bs' by (auto simp: revokeStatusIndex_def current_bits_def bind_eq_Some_conv Let_def)
  moreover have "vs' = vs @ drop (length vs) vs' \<and> length vs' = (if already then length vs else length vs + 1)"
    using bs(5,6) by (cases already) auto
  ultimately show ?thesis using bs(2,3,4) by blast
qed

section \<open>The checker\<close>

lemma refresh_Inr:
  "refresh gunz resolve verify opts now = Inr c \<longleftrightarrow>
     (\<exists>vs l. resolve (ro_statusListCredential opts) = Some vs \<and> Option.bind (current vs) sv_list = Some l \<and>
        verify l \<and> map_option before_hash (sl_verificationMethod l) = Some (ro_expectedIssuer opts) \<and>
        current_bits gunz vs = Some (ca_bytes c) \<and> ca_pin c = pinOf (ro_statusListCredential opts) vs \<and>
        ca_fetchedAt c = now)"
  (is "?l = ?r")
proof
  assume ?l
  then show ?r
    by (auto simp: refresh_def current_bits_def version_bits_def bind_eq_Some_conv
        split: option.splits if_splits)
next
  assume ?r
  then show ?l
    by (cases c) (auto simp: refresh_def current_bits_def version_bits_def bind_eq_Some_conv)
qed

lemma read_cache_Known: "read_cache c i = Known r pin \<longleftrightarrow> getBit (ca_bytes c) i = Some r \<and> pin = ca_pin c"
  by (auto simp: read_cache_def split: option.splits)

definition trusted_bit ::
    "(string \<Rightarrow> bitstring option) \<Rightarrow> (did \<Rightarrow> status_asset option) \<Rightarrow> (signed_status_list \<Rightarrow> bool) \<Rightarrow>
     resolver_options \<Rightarrow> int \<Rightarrow> bool \<Rightarrow> status_pin \<Rightarrow> bool" where
  "trusted_bit gunz resolve verify opts index r pin \<longleftrightarrow>
     (\<exists>vs l bs. resolve (ro_statusListCredential opts) = Some vs \<and>
        Option.bind (current vs) sv_list = Some l \<and> verify l \<and>
        map_option before_hash (sl_verificationMethod l) = Some (ro_expectedIssuer opts) \<and>
        current_bits gunz vs = Some bs \<and> getBit bs index = Some r \<and>
        pin = pinOf (ro_statusListCredential opts) vs)"

lemma check_refreshed:
  assumes "\<And>c. cache = Some c \<Longrightarrow> ro_maxAgeMs opts \<le> now - ca_fetchedAt c"
  shows "fst (check gunz resolve verify opts cache now i) = Known r pin \<longleftrightarrow>
    trusted_bit gunz resolve verify opts i r pin"
proof (cases "refresh gunz resolve verify opts now")
  case (Inl e)
  have "\<not> trusted_bit gunz resolve verify opts i r pin"
  proof
    assume "trusted_bit gunz resolve verify opts i r pin"
    then obtain vs l bs where "resolve (ro_statusListCredential opts) = Some vs"
      "Option.bind (current vs) sv_list = Some l" "verify l"
      "map_option before_hash (sl_verificationMethod l) = Some (ro_expectedIssuer opts)"
      "current_bits gunz vs = Some bs" unfolding trusted_bit_def by blast
    then have "refresh gunz resolve verify opts now =
        Inr \<lparr>ca_bytes = bs, ca_pin = pinOf (ro_statusListCredential opts) vs, ca_fetchedAt = now\<rparr>"
      unfolding refresh_Inr by simp
    with Inl show False by simp
  qed
  with Inl assms show ?thesis by (auto simp: check_def split: option.split)
next
  case (Inr c)
  then have "trusted_bit gunz resolve verify opts i r pin \<longleftrightarrow> read_cache c i = Known r pin"
    unfolding refresh_Inr trusted_bit_def read_cache_Known by auto
  with Inr assms show ?thesis by (auto simp: check_def split: option.split)
qed

text \<open>
  The status check fails closed: it reports a bit only if it read it from a list that resolves, is
  well formed, whose signature verifies under the expected issuer and that decodes to the full size,
  or from a cached copy younger than the maximal age; a checker without a usable cache reports a bit
  exactly then, so a list that is missing, unsigned, signed by another party or mis-sized is never
  read as "not revoked".
\<close>

theorem status_check_fails_closed:
  "case fst (check gunz resolve verify opts cache now i) of
     Known r pin \<Rightarrow>
       trusted_bit gunz resolve verify opts i r pin \<or>
       (\<exists>c. cache = Some c \<and> now - ca_fetchedAt c < ro_maxAgeMs opts \<and> getBit (ca_bytes c) i = Some r \<and>
          pin = ca_pin c)
   | Unavailable _ \<Rightarrow>
       (\<nexists>r pin. trusted_bit gunz resolve verify opts i r pin) \<or>
       (\<exists>c. cache = Some c \<and> now - ca_fetchedAt c < ro_maxAgeMs opts \<and> \<not> in_range i)"
proof (cases "\<exists>c. cache = Some c \<and> now - ca_fetchedAt c < ro_maxAgeMs opts")
  case True
  then show ?thesis
    by (auto simp: check_def read_cache_def getBit_None_iff split: option.split)
next
  case False
  then have "fst (check gunz resolve verify opts cache now i) = Known r pin \<longleftrightarrow>
      trusted_bit gunz resolve verify opts i r pin" for r pin
    by (intro check_refreshed) auto
  then show ?thesis by (auto split: status_check.split)
qed

text \<open>Further revocations by the same or another environment.\<close>

fun revoke_all ::
    "(bitstring \<Rightarrow> string) \<Rightarrow> (string \<Rightarrow> bitstring option) \<Rightarrow> did \<Rightarrow> status_asset \<Rightarrow> (status_env \<times> int) list \<Rightarrow>
     status_asset" where
  "revoke_all gz gunz cred vs [] = vs"
| "revoke_all gz gunz cred vs ((env, i) # rest) =
     (case revokeStatusIndex gz gunz env cred vs i of
        Inl _ \<Rightarrow> revoke_all gz gunz cred vs rest
      | Inr (vs', _) \<Rightarrow> revoke_all gz gunz cred vs' rest)"

lemma revoke_all_keeps:
  assumes "codec gz gunz"
  shows "\<forall>(env, i) \<in> set later. signs_body env \<Longrightarrow> current_bits gunz vs = Some bs \<Longrightarrow> getBit bs j = Some True \<Longrightarrow>
    \<exists>bs'. current_bits gunz (revoke_all gz gunz cred vs later) = Some bs' \<and> getBit bs' j = Some True"
proof (induction later arbitrary: vs bs)
  case (Cons e later)
  obtain env i where e: "e = (env, i)" by (cases e)
  show ?case
  proof (cases "revokeStatusIndex gz gunz env cred vs i")
    case (Inl err)
    with Cons e show ?thesis by simp
  next
    case (Inr r)
    obtain vs' pin n al where r: "r = (vs', pin, n, al)" by (cases r)
    have "signs_body env" using Cons.prems(1) e by simp
    from revoke_bits [OF Inr [unfolded r] assms this] Cons.prems(2,3) obtain bs' where
      "current_bits gunz vs' = Some bs'" "getBit bs' j = Some True" by auto
    with Cons.IH [of vs' bs'] Cons.prems(1) e Inr r show ?thesis by simp
  qed
qed auto

text \<open>
  The kill switch holds: once an index has been revoked, then after any number of further
  revocations of the list a checker that has no copy, or one at least as old as the maximal age, never
  reports the index as not revoked, whoever signed the list and whatever the time; the checker the
  reference monitor builds for each invocation has no copy.
\<close>

theorem revoked_never_reads_live:
  assumes "codec gz gunz" "signs_body env" "\<forall>(env, j) \<in> set later. signs_body env"
    and "revokeStatusIndex gz gunz env cred vs i = Inr (vs', pin, n, already)"
    and "resolve (ro_statusListCredential opts) = Some (revoke_all gz gunz cred vs' later)"
    and "case cache of None \<Rightarrow> True | Some c \<Rightarrow> ro_maxAgeMs opts \<le> now - ca_fetchedAt c"
  shows "fst (check gunz resolve verify opts cache now i) \<noteq> Known False pin'"
proof -
  from revoke_bits [OF assms(4,1,2)] obtain bs where
    "current_bits gunz vs' = Some bs" "getBit bs i = Some True" by auto
  from revoke_all_keeps [OF assms(1,3) this] obtain bs' where
    "current_bits gunz (revoke_all gz gunz cred vs' later) = Some bs'" "getBit bs' i = Some True" by blast
  then have "\<not> trusted_bit gunz resolve verify opts i False pin'"
    using assms(5) by (auto simp: trusted_bit_def)
  then show ?thesis
    using assms(6) by (subst check_refreshed) (auto split: option.splits)
qed

text \<open>
  A pin settles what was true at the time: if a checker without a usable copy reported a bit with
  a pin, then auditing that pin after any later publications finds the pinned version, matches its
  content address and reports the same bit.
\<close>

theorem audit_agrees_with_check:
  assumes "fst (check gunz resolve verify opts None now i) = Known r pin"
    and "resolve (ro_statusListCredential opts) = Some vs"
  shows "auditRevocationAt gunz (vs @ published) pin i = Some (Audit True r)"
proof -
  have "trusted_bit gunz resolve verify opts i r pin"
    using assms(1) by (subst (asm) check_refreshed) auto
  with assms(2) obtain bs where bs: "current_bits gunz vs = Some bs" "getBit bs i = Some r"
    "pin = pinOf (ro_statusListCredential opts) vs"
    by (auto simp: trusted_bit_def)
  then obtain v where v: "current vs = Some v" "version_bits gunz v = Some bs"
    by (auto simp: current_bits_def bind_eq_Some_conv)
  then have "version_at (vs @ published) (length vs) = Some v"
    by (auto simp: current_def version_at_def nth_append last_conv_nth split: if_splits)
  moreover from v obtain l where "sv_list v = Some l" by (auto simp: version_bits_def bind_eq_Some_conv)
  ultimately show ?thesis
    using bs v by (simp add: auditRevocationAt_def pinOf_def)
qed

section \<open>A concrete list\<close>

text \<open>A run of the issuer and the checker with a trivial compression, for which the hypotheses of the
  properties hold.\<close>

definition ex_gz :: "bitstring \<Rightarrow> string" where
  "ex_gz bs = map (\<lambda>w. char_of (unat w)) bs"

definition ex_gunz :: "string \<Rightarrow> bitstring option" where
  "ex_gunz s = Some (map (\<lambda>c. of_nat (of_char c)) s)"

definition ex_status_env :: status_env where
  "ex_status_env = \<lparr>se_issuerDid = ''S'', se_addProof = (\<lambda>l. l\<lparr>sl_verificationMethod := Some ''S#k''\<rparr>),
     se_versionId = sl_updatedAt, se_now = ''t''\<rparr>"

definition ex_resolver :: resolver_options where
  "ex_resolver = \<lparr>ro_statusListCredential = ''list'', ro_expectedIssuer = ''S'', ro_maxAgeMs = 30000\<rparr>"

lemma ex_codec: "codec ex_gz ex_gunz"
proof -
  have "(of_nat (of_char (char_of (unat w) :: char)) :: 8 word) = w" for w :: "8 word"
  proof -
    have "unat w < 256" using unsigned_less [of w] by simp
    then show ?thesis by (simp add: of_char_mod_256)
  qed
  then show ?thesis by (simp add: codec_def ex_gz_def ex_gunz_def comp_def)
qed

lemma ex_signs: "signs_body ex_status_env"
  by (simp add: signs_body_def ex_status_env_def)

lemma ex_created_bits:
  "current_bits ex_gunz (createStatusList ex_gz ex_status_env) = Some (replicate STATUS_LIST_BYTES 0)"
  unfolding createStatusList_def by (rule current_bits_publish [OF ex_signs ex_codec]) simp_all

lemma ex_revoked:
  "\<exists>vs pin n. revokeStatusIndex ex_gz ex_gunz ex_status_env ''list'' (createStatusList ex_gz ex_status_env) 9
     = Inr (vs, pin, n, False)"
proof -
  have i: "in_range 9" by (simp add: in_range_def STATUS_LIST_LENGTH_def)
  obtain cur where "current (createStatusList ex_gz ex_status_env) = Some cur"
    "version_bits ex_gunz cur = Some (replicate STATUS_LIST_BYTES 0)"
    using ex_created_bits by (auto simp: current_bits_def bind_eq_Some_conv)
  with i getBit_zero [OF i] show ?thesis by (simp add: revokeStatusIndex_def Let_def)
qed

lemma revocation_is_exact_witness:
  "\<exists>vs' bs'. current_bits ex_gunz vs' = Some bs' \<and> getBit bs' 9 = Some True"
proof -
  from ex_revoked obtain vs pin n where
    "revokeStatusIndex ex_gz ex_gunz ex_status_env ''list'' (createStatusList ex_gz ex_status_env) 9
      = Inr (vs, pin, n, False)" by blast
  from revocation_is_exact [OF ex_codec ex_signs this] obtain bs' where
    "current_bits ex_gunz vs = Some bs'" "getBit bs' 9 = Some True" by auto
  then show ?thesis by blast
qed

lemma revoked_never_reads_live_witness:
  "\<exists>vs. fst (check ex_gunz (\<lambda>did. Some vs) (\<lambda>l. True) ex_resolver None 5 9) \<noteq>
     Known False (pinOf ''list'' vs)"
proof -
  from ex_revoked obtain vs pin n where
    r: "revokeStatusIndex ex_gz ex_gunz ex_status_env ''list'' (createStatusList ex_gz ex_status_env) 9
      = Inr (vs, pin, n, False)" by blast
  from revoked_never_reads_live [OF ex_codec ex_signs _ r, where later = "[]" and resolve = "\<lambda>did. Some vs" and cache = None]
  show ?thesis by (intro exI [of _ vs]) simp
qed

lemma ex_trusted:
  "trusted_bit ex_gunz (\<lambda>did. Some (createStatusList ex_gz ex_status_env)) (\<lambda>l. True) ex_resolver 9 False
     (pinOf ''list'' (createStatusList ex_gz ex_status_env))"
proof -
  have i: "in_range 9" by (simp add: in_range_def STATUS_LIST_LENGTH_def)
  have "\<exists>l. Option.bind (current (createStatusList ex_gz ex_status_env)) sv_list = Some l \<and>
      map_option before_hash (sl_verificationMethod l) = Some ''S''"
    by (simp add: createStatusList_def ex_status_env_def before_hash_def)
  with ex_created_bits getBit_zero [OF i] show ?thesis
    by (auto simp: trusted_bit_def ex_resolver_def)
qed

lemma audit_agrees_with_check_witness:
  "auditRevocationAt ex_gunz (createStatusList ex_gz ex_status_env @ [])
     (pinOf ''list'' (createStatusList ex_gz ex_status_env)) 9 = Some (Audit True False)"
proof -
  have "fst (check ex_gunz (\<lambda>did. Some (createStatusList ex_gz ex_status_env)) (\<lambda>l. True) ex_resolver None 0 9)
      = Known False (pinOf ''list'' (createStatusList ex_gz ex_status_env))"
    using ex_trusted by (subst check_refreshed) simp_all
  from audit_agrees_with_check [OF this refl] show ?thesis .
qed

end
