(* ===== verification/Challenge_Store.thy ===== *)
theory Challenge_Store
  imports Prelude
begin

text \<open>
  The Warden's store of minted challenges: \<open>packages/warden/src/challenge-store.ts\<close>. The store is a
  map from challenge DIDs to live entries; Keymaster's \<open>createChallenge\<close> is the fresh DID argument of
  the mint operations, and \<open>Date.now()\<close> the time argument.

  What a consumer of challenges relies on is the locale \<open>challenge_gate\<close>. The lemmas show the gate
  accepts only what was minted, for its purpose, within its lifetime, and a single-use challenge at
  most once, over any sequence of operations.
\<close>

section \<open>State and operations\<close>

datatype challenge_purpose = Invocation | Delegation

record live =
  lv_purpose :: challenge_purpose
  lv_exp :: int
  lv_reusable :: bool

type_synonym challenge_store = "string \<Rightarrow> live option"

record proof_request =
  pr_schema :: did
  pr_trustedIssuers :: "did list option"

record challenge_config =
  cc_wardenDid :: did
  cc_delegationSchema :: did
  cc_sovereignDid :: "did option"
  cc_authorizationSchemaDid :: "did option"
  cc_ownAuthorizationSchema :: did
  cc_defaultTtlMs :: int

text \<open>The requirement sent to Keymaster: \<open>issuers\<close> is present exactly when the list is not empty.\<close>

definition challenge_requirement :: "proof_request \<Rightarrow> did \<times> did list option" where
  "challenge_requirement req =
     (pr_schema req,
      case pr_trustedIssuers req of Some ds \<Rightarrow> if ds \<noteq> [] then Some ds else None | None \<Rightarrow> None)"

definition mint ::
    "challenge_config \<Rightarrow> int \<Rightarrow> (did \<times> did list option \<Rightarrow> string) \<Rightarrow> challenge_store \<Rightarrow> challenge_purpose \<Rightarrow>
     proof_request \<Rightarrow> bool option \<Rightarrow> int option \<Rightarrow> string \<times> challenge_store" where
  "mint cfg now createChallenge store purpose req reusable ttlMs =
     (let challenge = createChallenge (challenge_requirement req)
      in (challenge,
          store(challenge \<mapsto>
            \<lparr>lv_purpose = purpose,
             lv_exp = now + (case ttlMs of Some t \<Rightarrow> t | None \<Rightarrow> cc_defaultTtlMs cfg),
             lv_reusable = (case reusable of Some r \<Rightarrow> r | None \<Rightarrow> False)\<rparr>)))"

datatype mint_error = WardenIdentityUnavailable | SovereignDidUnset

definition mintForPurpose ::
    "challenge_config \<Rightarrow> int \<Rightarrow> (did \<times> did list option \<Rightarrow> string) \<Rightarrow> challenge_store \<Rightarrow> challenge_purpose \<Rightarrow>
     mint_error + string \<times> challenge_store" where
  "mintForPurpose cfg now createChallenge store purpose =
     (case purpose of
        Delegation \<Rightarrow>
          if cc_wardenDid cfg = [] then Inl WardenIdentityUnavailable
          else Inr (mint cfg now createChallenge store Delegation
            \<lparr>pr_schema = cc_delegationSchema cfg, pr_trustedIssuers = Some [cc_wardenDid cfg]\<rparr>
            (Some True) (Some (10 * 60000)))
      | Invocation \<Rightarrow>
          if \<not> truthy_string (cc_sovereignDid cfg) then Inl SovereignDidUnset
          else Inr (mint cfg now createChallenge store Invocation
            \<lparr>pr_schema = (case cc_authorizationSchemaDid cfg of
                 Some s \<Rightarrow> s | None \<Rightarrow> cc_ownAuthorizationSchema cfg),
             pr_trustedIssuers = Some [the (cc_sovereignDid cfg)]\<rparr> (Some False) None))"

definition consume :: "int \<Rightarrow> challenge_store \<Rightarrow> string \<Rightarrow> challenge_purpose \<Rightarrow> bool \<times> challenge_store" where
  "consume now store challenge purpose =
     (case store challenge of
        None \<Rightarrow> (False, store)
      | Some e \<Rightarrow>
          (let fresh = (lv_purpose e = purpose \<and> now \<le> lv_exp e)
           in (fresh, if \<not> lv_reusable e \<or> \<not> fresh then store(challenge := None) else store)))"

definition gate :: "challenge_purpose \<Rightarrow> int \<Rightarrow> challenge_store \<Rightarrow> string \<Rightarrow> bool \<times> challenge_store" where
  "gate purpose now store challenge = consume now store challenge purpose"

section \<open>The gate as an interface\<close>

text \<open>
  What the reference monitor needs of the gate it is given: on the states the owner of the store
  maintains (\<open>ok\<close>), an accepted challenge is dead afterwards, a dead challenge is refused, and no
  other use revives it.
\<close>

locale challenge_gate =
  fixes use :: "int \<Rightarrow> 's \<Rightarrow> string \<Rightarrow> bool \<times> 's"
    and ok :: "'s \<Rightarrow> bool"
    and dead :: "'s \<Rightarrow> string \<Rightarrow> bool"
  assumes ok_use: "ok s \<Longrightarrow> ok (snd (use now s c))"
    and burns: "ok s \<Longrightarrow> fst (use now s c) \<Longrightarrow> dead (snd (use now s c)) c"
    and dead_refused: "dead s c \<Longrightarrow> \<not> fst (use now s c)"
    and dead_stays: "dead s c \<Longrightarrow> dead (snd (use now s d)) c"
begin

fun uses :: "'s \<Rightarrow> (int \<times> string) list \<Rightarrow> bool list" where
  "uses s [] = []"
| "uses s ((now, c) # rest) = fst (use now s c) # uses (snd (use now s c)) rest"

lemma length_uses [simp]: "length (uses s evs) = length evs"
  by (induction s evs rule: uses.induct) auto

lemma dead_never_accepted: "dead s c \<Longrightarrow> i < length evs \<Longrightarrow> snd (evs ! i) = c \<Longrightarrow> \<not> uses s evs ! i"
proof (induction s evs arbitrary: i rule: uses.induct)
  case (2 s now d rest)
  show ?case
  proof (cases i)
    case 0
    with 2(2,4) show ?thesis by (simp add: dead_refused)
  next
    case (Suc i')
    have "dead (snd (use now s d)) c" by (rule dead_stays) (rule 2(2))
    with 2(1) 2(3,4) Suc show ?thesis by simp
  qed
qed simp

lemma accepted_once:
  "ok s \<Longrightarrow> i < j \<Longrightarrow> j < length evs \<Longrightarrow> snd (evs ! i) = c \<Longrightarrow> snd (evs ! j) = c \<Longrightarrow>
    uses s evs ! i \<Longrightarrow> \<not> uses s evs ! j"
proof (induction s evs arbitrary: i j rule: uses.induct)
  case (2 s now d rest)
  show ?case
  proof (cases i)
    case 0
    have d: "d = c" "fst (use now s d)" using 2(5,7) 0 by simp_all
    have "dead (snd (use now s d)) c" using burns [OF 2(2) d(2)] d(1) by simp
    moreover obtain j' where "j = Suc j'" using 2(3) by (cases j) simp_all
    ultimately show ?thesis using dead_never_accepted 2(4,6) by simp
  next
    case (Suc i')
    moreover obtain j' where "j = Suc j'" using 2(3) by (cases j) simp_all
    ultimately show ?thesis using 2(1) [OF ok_use [OF 2(2)], of i' j'] 2(3-7) by simp
  qed
qed simp

end

text \<open>No invocation challenge is reusable: \<open>mintForPurpose\<close> is how the daemon mints them.\<close>

definition burns_invocations :: "challenge_store \<Rightarrow> bool" where
  "burns_invocations store \<longleftrightarrow>
     (\<forall>c e. store c = Some e \<and> lv_purpose e = Invocation \<longrightarrow> \<not> lv_reusable e)"

lemma burns_invocations_empty: "burns_invocations Map.empty"
  by (simp add: burns_invocations_def)

lemma burns_invocations_mint:
  assumes "burns_invocations store" "mintForPurpose cfg now cc store p = Inr (c, store')"
  shows "burns_invocations store'"
  using assms
  by (cases p) (auto simp: mintForPurpose_def mint_def burns_invocations_def Let_def split: if_splits)

lemma burns_invocations_consume:
  "burns_invocations store \<Longrightarrow> burns_invocations (snd (consume now store c p))"
  by (auto simp: burns_invocations_def consume_def Let_def split: option.splits if_splits)

interpretation invocation_gate: challenge_gate "gate Invocation" burns_invocations "\<lambda>s c. s c = None"
proof unfold_locales
  fix s now c
  assume "burns_invocations s"
  then show "burns_invocations (snd (gate Invocation now s c))"
    unfolding gate_def by (rule burns_invocations_consume)
  assume "burns_invocations s" "fst (gate Invocation now s c)"
  then show "snd (gate Invocation now s c) c = None"
    by (auto simp: gate_def consume_def burns_invocations_def Let_def split: option.splits)
qed (auto simp: gate_def consume_def Let_def split: option.splits)

section \<open>Histories\<close>

text \<open>Everything that can happen to a store, with the verdicts of the gates along the way.\<close>

datatype challenge_event =
    Minted string challenge_purpose bool int int
  | Consumed string challenge_purpose int

fun challenge_step :: "challenge_store \<Rightarrow> challenge_event \<Rightarrow> bool \<times> challenge_store" where
  "challenge_step store (Minted c p r ttl now) =
     (False, store(c \<mapsto> \<lparr>lv_purpose = p, lv_exp = now + ttl, lv_reusable = r\<rparr>))"
| "challenge_step store (Consumed c p now) = consume now store c p"

lemma mint_is_step:
  "snd (mint cfg now cc store p req r ttl) =
     snd (challenge_step store (Minted (fst (mint cfg now cc store p req r ttl)) p
       (case r of Some b \<Rightarrow> b | None \<Rightarrow> False) (case ttl of Some t \<Rightarrow> t | None \<Rightarrow> cc_defaultTtlMs cfg) now))"
  by (simp add: mint_def Let_def)

fun store_after :: "challenge_event list \<Rightarrow> challenge_store" where
  "store_after [] = Map.empty"
| "store_after (e # es) = snd (challenge_step (store_after es) e)"

text \<open>Histories are newest first, so the store before an event is the store after the rest.\<close>

definition accepted :: "challenge_event list \<Rightarrow> challenge_event \<Rightarrow> bool" where
  "accepted before e \<longleftrightarrow> fst (challenge_step (store_after before) e)"

fun names :: "challenge_event \<Rightarrow> string" where
  "names (Minted c p r ttl now) = c"
| "names (Consumed c p now) = c"

text \<open>A mint is alive in a history when the challenge was not minted again since, nor used if single-use.\<close>

fun alive :: "string \<Rightarrow> challenge_event list \<Rightarrow> live option" where
  "alive c [] = None"
| "alive c (Minted d p r ttl now # es) =
     (if d = c then Some \<lparr>lv_purpose = p, lv_exp = now + ttl, lv_reusable = r\<rparr> else alive c es)"
| "alive c (Consumed d p now # es) =
     (if d = c then (case alive c es of
          Some e \<Rightarrow> if lv_reusable e \<and> lv_purpose e = p \<and> now \<le> lv_exp e then Some e else None
        | None \<Rightarrow> None)
      else alive c es)"

lemma store_after_alive: "store_after es c = alive c es"
proof (induction es)
  case (Cons e es)
  then show ?case
    by (cases e) (auto simp: consume_def Let_def split: option.splits)
qed simp

lemma alive_minted:
  "alive c es = Some l \<Longrightarrow>
     \<exists>later ttl now before. es = later @ Minted c (lv_purpose l) (lv_reusable l) ttl now # before \<and>
       lv_exp l = now + ttl \<and> (lv_reusable l \<or> (\<forall>e \<in> set later. names e \<noteq> c))"
proof (induction c es rule: alive.induct)
  case (2 c d p r ttl now es)
  show ?case
  proof (cases "d = c")
    case True
    with 2 show ?thesis by (intro exI [of _ "[]"]) auto
  next
    case False
    with 2 obtain later ttl' now' before where
      "es = later @ Minted c (lv_purpose l) (lv_reusable l) ttl' now' # before"
      "lv_exp l = now' + ttl'" "lv_reusable l \<or> (\<forall>e \<in> set later. names e \<noteq> c)" by auto
    then show ?thesis using False by (intro exI [of _ "Minted d p r ttl now # later"]) auto
  qed
next
  case (3 c d p now es)
  then have "alive c es = Some l" "d = c \<Longrightarrow> lv_reusable l"
    by (auto split: if_splits option.splits)
  with 3 obtain later ttl' now' before where
    "es = later @ Minted c (lv_purpose l) (lv_reusable l) ttl' now' # before"
    "lv_exp l = now' + ttl'" "lv_reusable l \<or> (\<forall>e \<in> set later. names e \<noteq> c)"
    by (cases "d = c") (auto split: option.splits if_splits)
  then show ?case using \<open>d = c \<Longrightarrow> lv_reusable l\<close> by (intro exI [of _ "Consumed d p now # later"]) auto
qed simp

text \<open>
  A presentation is never a bearer token: in every history of the store, a gate accepts a
  challenge only if it was minted earlier for the same purpose, the time is within its lifetime, and,
  unless it was minted reusable, nothing has touched it since it was minted.
\<close>

theorem accepted_challenge_was_minted:
  assumes "accepted history (Consumed c p now)"
  shows "\<exists>later r ttl t before. history = later @ Minted c p r ttl t # before \<and> now \<le> t + ttl \<and>
    (r \<or> (\<forall>e \<in> set later. names e \<noteq> c))"
proof -
  from assms obtain l where l: "alive c history = Some l" "lv_purpose l = p" "now \<le> lv_exp l"
    by (auto simp: accepted_def consume_def store_after_alive Let_def split: option.splits)
  from alive_minted [OF l(1)] l(2,3) show ?thesis by fastforce
qed

lemma accepted_challenge_was_minted_witness:
  "\<exists>later r ttl t before. [Minted ''c'' Invocation False 120 (0::int)] = later @ Minted ''c'' Invocation r ttl t # before \<and>
     60 \<le> t + ttl \<and> (r \<or> (\<forall>e \<in> set later. names e \<noteq> ''c''))"
  using accepted_challenge_was_minted [of "[Minted ''c'' Invocation False 120 0]" "''c''" Invocation 60]
  by (simp add: accepted_def consume_def)

text \<open>
  A single-use gate accepts a challenge at most once: over any sequence of uses of the
  invocation gate, starting from a store whose invocation challenges the daemon minted, no challenge
  is accepted at two positions.
\<close>

theorem invocation_challenge_burns:
  assumes "burns_invocations store" "i < j" "j < length evs" "snd (evs ! i) = snd (evs ! j)"
  shows "\<not> (invocation_gate.uses store evs ! i \<and> invocation_gate.uses store evs ! j)"
  using invocation_gate.accepted_once [OF assms(1-3), of "snd (evs ! j)"] assms(4) by blast

lemma invocation_challenge_burns_witness:
  "\<not> (invocation_gate.uses (\<lambda>c. Some \<lparr>lv_purpose = Invocation, lv_exp = 9, lv_reusable = False\<rparr>)
       [(1, ''c''), (2, ''c'')] ! 0 \<and>
     invocation_gate.uses (\<lambda>c. Some \<lparr>lv_purpose = Invocation, lv_exp = 9, lv_reusable = False\<rparr>)
       [(1, ''c''), (2, ''c'')] ! 1)"
  by (rule invocation_challenge_burns) (simp_all add: burns_invocations_def)

end
