(* ===== verification/Invocation_Monitor.thy ===== *)
theory Invocation_Monitor
  imports Prove Capability_Chain Status_List Challenge_Store
begin

text \<open>
  The invocation reference monitor: \<open>packages/core/src/invocation-monitor.ts\<close>, the check every
  capability invocation crosses at the point of use. It composes the prove flow (single hop), the
  capability chain (several hops), the status list, the single-use ledger and the Warden's challenge
  gate. What Keymaster, the node and the clock contribute to one invocation is the record
  \<open>monitor_env\<close>; \<open>Date.parse\<close> is its member \<open>me_parseDate\<close>.

  The lemmas characterise when an act is authorized, that neither a transaction nor a single-use
  capability is honoured twice by consecutive calls, what consent a sensitive disclosure carries,
  and what the verified leaf means on both paths.
\<close>

section \<open>Messages\<close>

text \<open>A proof block is the text of its \<open>verificationMethod\<close>, empty when that is missing.\<close>

record discharge =
  di_by :: did
  di_predicate :: "string option"
  di_txn :: string
  di_digest :: "string option"
  di_proof :: "string option"

record invocation_act =
  at_action :: string
  at_target :: string
  at_claim :: "string option"
  at_kind :: "string option"
  at_reveal :: "int list option"
  at_nonce :: string
  at_txn :: string

record holder_proof =
  hp_challenge :: string
  hp_leafVcDid :: did
  hp_txn :: string
  hp_proof :: "string option"

record chain_presentation =
  cn_leafVcDid :: did
  cn_disclosed :: disclosure
  cn_holderProof :: "holder_proof option"

record invocation =
  in_presentation :: "string option"
  in_chain :: "chain_presentation option"
  in_act :: invocation_act
  in_discharges :: "discharge list option"

section \<open>The digest a consent is bound to\<close>

record discharge_subject =
  ds_txn :: string
  ds_predicate :: string
  ds_claim :: string
  ds_kind :: string
  ds_owner :: string
  ds_audience :: string
  ds_sensitivity :: int
  ds_reveal :: "int list option"

definition discharge_json_array :: "discharge_subject \<Rightarrow> json" where
  "discharge_json_array s =
     JArr [JStr (ds_txn s), JStr (ds_predicate s), JStr (ds_claim s), JStr (ds_kind s), JStr (ds_owner s),
       JStr (ds_audience s), JNum (ds_sensitivity s),
       JArr (map JNum (sort (case ds_reveal s of Some r \<Rightarrow> r | None \<Rightarrow> [])))]"

text \<open>\<open>JSON.stringify\<close> of an array of strings, numbers and arrays is its canonical text.\<close>

definition digest_text :: "discharge_subject \<Rightarrow> string" where
  "digest_text s = the (canonicalize (discharge_json_array s))"

definition dischargeDigest :: "hash \<Rightarrow> discharge_subject \<Rightarrow> string" where
  "dischargeDigest H s = H (digest_text s)"

section \<open>Context\<close>

record monitor_env =
  me_verifyResponse :: "string \<Rightarrow> response_result option"
  me_archon :: archon
  me_verifyDischarge :: "discharge \<Rightarrow> bool"
  me_verifyHolderProof :: "holder_proof \<Rightarrow> bool"
  me_gunzip :: "string \<Rightarrow> bitstring option"
  me_resolveStatus :: "did \<Rightarrow> status_asset option"
  me_verifyStatusList :: "signed_status_list \<Rightarrow> bool"
  me_parseDate :: "string \<Rightarrow> int option"
  me_now :: int

record 'g monitor_ctx =
  mc_expectedRootIssuer :: did
  mc_authorizationSchema :: did
  mc_sensitivity :: "int option"
  mc_requiresHumanAt :: "int option"
  mc_owner :: "did option"
  mc_fromDid :: "did option"
  mc_requireChallenge :: "(string \<Rightarrow> 'g \<Rightarrow> bool \<times> 'g) option"
  mc_statusMaxAgeMs :: "int option"
  mc_requireStatus :: bool

record verified_leaf =
  vl_id :: did
  vl_holder :: did
  vl_authority :: authority_set
  vl_caveats :: caveats

datatype refusal =
    NoPresentation | NoRootIssuer | PresentationInvalid | NoResponder | StaleChallenge
  | NoAuthorizationCredential | Malformed | NoCeiling | NoCredentialId | NotSubject | SenderNotHolder
  | ActionOutside | TargetOutside | NoStatusPointer | StatusUnavailable | Revoked
  | NoChain | ChainInvalid | LeafNotBound | NoHolderProof | HolderProofUnbound | HolderProofInvalid
  | NotSignedByHolder

datatype resolution = Resolved verified_leaf | Refused refusal | Resolve_threw

definition POLICY_CONSENT_PREDICATE :: string where
  "POLICY_CONSENT_PREDICATE = ''human-consent''"

text \<open>The optional challenge gate: absent, it is not asked.\<close>

definition ask_gate :: "'g monitor_ctx \<Rightarrow> string \<Rightarrow> 'g \<Rightarrow> bool \<times> 'g" where
  "ask_gate ctx c g = (case mc_requireChallenge ctx of None \<Rightarrow> (True, g) | Some ask \<Rightarrow> ask c g)"

definition status_of :: "monitor_env \<Rightarrow> 'g monitor_ctx \<Rightarrow> capability_status \<Rightarrow> did \<Rightarrow> status_check" where
  "status_of env ctx st issuer =
     fst (check (me_gunzip env) (me_resolveStatus env) (me_verifyStatusList env)
       \<lparr>ro_statusListCredential = cs_statusListCredential st, ro_expectedIssuer = issuer,
        ro_maxAgeMs = (case mc_statusMaxAgeMs ctx of Some m \<Rightarrow> m | None \<Rightarrow> 30000)\<rparr>
       None (me_now env) (cs_statusListIndex st))"

definition sender_mismatch :: "'g monitor_ctx \<Rightarrow> did \<Rightarrow> bool" where
  "sender_mismatch ctx holder \<longleftrightarrow> truthy_string (mc_fromDid ctx) \<and> mc_fromDid ctx \<noteq> Some holder"

definition target_ok :: "invocation_act \<Rightarrow> authority_set \<Rightarrow> bool" where
  "target_ok act auth \<longleftrightarrow> list_ex (\<lambda>r. at_target act = r \<or> targetWithin (at_target act) r) (resources auth)"

section \<open>The single-hop path\<close>

definition authorization_credential :: "disclosed_credential list \<Rightarrow> disclosed_credential option" where
  "authorization_credential ds =
     (case find (\<lambda>d. cl_type (dc_claims d) = Some AUTHORIZATION_TYPE) ds of
        Some d \<Rightarrow> Some d
      | None \<Rightarrow> (case ds of [] \<Rightarrow> None | d # _ \<Rightarrow> Some d))"

definition claimed_authority :: "claims \<Rightarrow> authority_set option" where
  "claimed_authority c =
     (case cl_authority c of
        Some a \<Rightarrow> (case (ra_operations a, ra_resources a) of
            (Some ops, Some res) \<Rightarrow> Some \<lparr>operations = ops, resources = res\<rparr>
          | _ \<Rightarrow> None)
      | None \<Rightarrow> None)"

definition check_act :: "invocation_act \<Rightarrow> authority_set \<Rightarrow> refusal option" where
  "check_act act auth =
     (if at_action act \<notin> set (operations auth) then Some ActionOutside
      else if \<not> target_ok act auth then Some TargetOutside else None)"

definition check_status :: "monitor_env \<Rightarrow> 'g monitor_ctx \<Rightarrow> caveats \<Rightarrow> refusal option" where
  "check_status env ctx cav =
     (case cv_status cav of
        None \<Rightarrow> if mc_requireStatus ctx then Some NoStatusPointer else None
      | Some st \<Rightarrow>
          (case status_of env ctx st (mc_expectedRootIssuer ctx) of
             Unavailable _ \<Rightarrow> Some StatusUnavailable
           | Known revoked _ \<Rightarrow> if revoked then Some Revoked else None))"

definition leaf_of_credential ::
    "monitor_env \<Rightarrow> 'g monitor_ctx \<Rightarrow> invocation \<Rightarrow> did \<Rightarrow> disclosed_credential \<Rightarrow> resolution" where
  "leaf_of_credential env ctx msg responder authCred =
     (case (claimed_authority (dc_claims authCred), cl_caveats (dc_claims authCred)) of
        (Some auth, Some cav) \<Rightarrow>
          if cv_ceiling cav = None then Refused NoCeiling
          else if dc_credentialDid authCred = [] then Refused NoCredentialId
          else if dc_subject authCred = [] \<or> dc_subject authCred \<noteq> responder then Refused NotSubject
          else if sender_mismatch ctx responder then Refused SenderNotHolder
          else (case check_act (in_act msg) auth of
              Some r \<Rightarrow> Refused r
            | None \<Rightarrow> (case check_status env ctx cav of
                  Some r \<Rightarrow> Refused r
                | None \<Rightarrow> Resolved \<lparr>vl_id = dc_credentialDid authCred, vl_holder = responder,
                    vl_authority = auth, vl_caveats = cav\<rparr>))
      | _ \<Rightarrow> Refused Malformed)"

definition scope_proof ::
    "monitor_env \<Rightarrow> 'g monitor_ctx \<Rightarrow> string \<Rightarrow> proof_result option" where
  "scope_proof env ctx presentation =
     (case me_verifyResponse env presentation of
        None \<Rightarrow> None
      | Some res \<Rightarrow>
          (case verifyProof memory_isSpent memory_markSpent
              \<lparr>po_trustedIssuers = Some [mc_expectedRootIssuer ctx], po_trustRegistry = None,
               po_schema = Some (mc_authorizationSchema ctx), po_requiredClaims = None,
               po_spentTxns = False\<rparr> res {} of
             Some (Inr r, _) \<Rightarrow> Some r | _ \<Rightarrow> None))"

definition resolveInvocation ::
    "monitor_env \<Rightarrow> 'g monitor_ctx \<Rightarrow> invocation \<Rightarrow> 'g \<Rightarrow> resolution \<times> 'g" where
  "resolveInvocation env ctx msg g =
     (if \<not> truthy_string (in_presentation msg) then (Refused NoPresentation, g)
      else if mc_expectedRootIssuer ctx = [] then (Refused NoRootIssuer, g)
      else case scope_proof env ctx (the (in_presentation msg)) of
        None \<Rightarrow> (Refused PresentationInvalid, g)
      | Some proof \<Rightarrow>
          (if \<not> truthy_string (pf_responder proof) then (Refused NoResponder, g)
           else let (fresh, g') = ask_gate ctx (pf_challenge proof) g
             in if \<not> fresh then (Refused StaleChallenge, g')
                else case authorization_credential (pf_disclosed proof) of
                  None \<Rightarrow> (Refused NoAuthorizationCredential, g')
                | Some authCred \<Rightarrow>
                    (leaf_of_credential env ctx msg (the (pf_responder proof)) authCred, g')))"

section \<open>The multi-hop path\<close>

definition makeHopStatusChecker ::
    "monitor_env \<Rightarrow> 'g monitor_ctx \<Rightarrow> caveats option \<Rightarrow> did \<Rightarrow> hop_status" where
  "makeHopStatusChecker env ctx cav hopController =
     (case Option.bind cav cv_status of
        None \<Rightarrow> St_no_status
      | Some st \<Rightarrow>
          (case status_of env ctx st hopController of
             Unavailable _ \<Rightarrow> St_unavailable
           | Known revoked _ \<Rightarrow> if revoked then St_revoked else St_ok))"

definition monitor_chain_options ::
    "monitor_env \<Rightarrow> 'g monitor_ctx \<Rightarrow> disclosure \<Rightarrow> capability_verify_options" where
  "monitor_chain_options env ctx disclosed =
     \<lparr>co_expectedRootIssuer = Some (mc_expectedRootIssuer ctx), co_disclosed = Some disclosed,
      co_maxHops = None, co_requireFullDisclosure = True, co_requireStatus = mc_requireStatus ctx,
      co_checkHopStatus = Some (makeHopStatusChecker env ctx)\<rparr>"

definition check_holder_proof ::
    "monitor_env \<Rightarrow> 'g monitor_ctx \<Rightarrow> invocation \<Rightarrow> chain_presentation \<Rightarrow> did \<Rightarrow> 'g \<Rightarrow> refusal option \<times> 'g" where
  "check_holder_proof env ctx msg cp holder g =
     (case cn_holderProof cp of
        None \<Rightarrow> (Some NoHolderProof, g)
      | Some hp \<Rightarrow>
          (case hp_proof hp of
             None \<Rightarrow> (Some NoHolderProof, g)
           | Some method \<Rightarrow>
               if hp_leafVcDid hp \<noteq> cn_leafVcDid cp \<or> hp_txn hp \<noteq> at_txn (in_act msg)
                 then (Some HolderProofUnbound, g)
               else let (fresh, g') = ask_gate ctx (hp_challenge hp) g
                 in if \<not> fresh then (Some StaleChallenge, g')
                    else if \<not> me_verifyHolderProof env hp then (Some HolderProofInvalid, g')
                    else if before_hash method \<noteq> holder then (Some NotSignedByHolder, g')
                    else if sender_mismatch ctx holder then (Some SenderNotHolder, g')
                    else (None, g')))"

definition resolveChainInvocation ::
    "hash \<Rightarrow> monitor_env \<Rightarrow> 'g monitor_ctx \<Rightarrow> invocation \<Rightarrow> 'g \<Rightarrow> resolution \<times> 'g" where
  "resolveChainInvocation H env ctx msg g =
     (case in_chain msg of
        None \<Rightarrow> (Refused NoChain, g)
      | Some cp \<Rightarrow>
          if mc_expectedRootIssuer ctx = [] then (Refused NoRootIssuer, g)
          else case verifyCapabilityChain H (me_archon env)
              (monitor_chain_options env ctx (cn_disclosed cp)) (cn_leafVcDid cp) of
            Threw \<Rightarrow> (Resolve_threw, g)
          | Rejected _ _ _ \<Rightarrow> (Refused ChainInvalid, g)
          | Accepted k holder auth cav \<Rightarrow>
              (case (auth, cav) of
                 (Some authority, Some caveats) \<Rightarrow>
                   if holder = [] then (Refused LeafNotBound, g)
                   else if cv_ceiling caveats = None then (Refused NoCeiling, g)
                   else (case check_holder_proof env ctx msg cp holder g of
                       (Some r, g') \<Rightarrow> (Refused r, g')
                     | (None, g') \<Rightarrow>
                         (case check_act (in_act msg) authority of
                            Some r \<Rightarrow> (Refused r, g')
                          | None \<Rightarrow> (Resolved \<lparr>vl_id = cn_leafVcDid cp, vl_holder = holder,
                              vl_authority = authority, vl_caveats = caveats\<rparr>, g')))
               | _ \<Rightarrow> (Refused LeafNotBound, g)))"

text \<open>The one seam of the evidence service: a chain, if present, else the single-hop presentation.\<close>

definition resolve_leaf ::
    "hash \<Rightarrow> monitor_env \<Rightarrow> 'g monitor_ctx \<Rightarrow> invocation \<Rightarrow> 'g \<Rightarrow> resolution \<times> 'g" where
  "resolve_leaf H env ctx msg g =
     (if in_chain msg \<noteq> None then resolveChainInvocation H env ctx msg g
      else resolveInvocation env ctx msg g)"

section \<open>Consent\<close>

definition act_subject :: "'g monitor_ctx \<Rightarrow> invocation_act \<Rightarrow> verified_leaf \<Rightarrow> string \<Rightarrow> discharge_subject" where
  "act_subject ctx act leaf predicate =
     \<lparr>ds_txn = at_txn act, ds_predicate = predicate,
      ds_claim = (case at_claim act of Some c \<Rightarrow> c | None \<Rightarrow> []),
      ds_kind = (case at_kind act of Some k \<Rightarrow> k | None \<Rightarrow> []),
      ds_owner = (case cv_owner (vl_caveats leaf) of Some owner \<Rightarrow> owner | None \<Rightarrow>
        (case mc_owner ctx of Some owner \<Rightarrow> owner | None \<Rightarrow> [])),
      ds_audience = (case cv_audience (vl_caveats leaf) of Some a \<Rightarrow> a | None \<Rightarrow> vl_holder leaf),
      ds_sensitivity = (case mc_sensitivity ctx of Some x \<Rightarrow> x | None \<Rightarrow> -1),
      ds_reveal = at_reveal act\<rparr>"

definition discharge_satisfies ::
    "hash \<Rightarrow> monitor_env \<Rightarrow> 'g monitor_ctx \<Rightarrow> invocation_act \<Rightarrow> verified_leaf \<Rightarrow> did \<Rightarrow> string \<Rightarrow>
     discharge \<Rightarrow> bool" where
  "discharge_satisfies H env ctx act leaf by predicate d \<longleftrightarrow>
     di_by d = by \<and> di_txn d = at_txn act \<and> di_predicate d = Some predicate \<and>
     di_digest d = Some (dischargeDigest H (act_subject ctx act leaf predicate)) \<and>
     (case di_proof d of
        None \<Rightarrow> False
      | Some method \<Rightarrow> me_verifyDischarge env d \<and> before_hash method = by)"

definition hasValidDischarge ::
    "hash \<Rightarrow> monitor_env \<Rightarrow> 'g monitor_ctx \<Rightarrow> invocation \<Rightarrow> verified_leaf \<Rightarrow> did \<Rightarrow> string \<Rightarrow> bool" where
  "hasValidDischarge H env ctx msg leaf by predicate =
     list_ex (discharge_satisfies H env ctx (in_act msg) leaf by predicate) (opt_list (in_discharges msg))"

section \<open>Authorization\<close>

datatype denial = Replay | Expired | SingleUseSpent | CeilingExceeded int int | OwnerlessPolicyGate

datatype decision =
    Allow "did option" "did option" "int option"
  | NeedsDischarge "(did \<times> string) list" "did option" "int option"
  | Deny denial

definition unmet_caveats ::
    "hash \<Rightarrow> monitor_env \<Rightarrow> 'g monitor_ctx \<Rightarrow> invocation \<Rightarrow> verified_leaf \<Rightarrow> (did \<times> string) list" where
  "unmet_caveats H env ctx msg leaf =
     map (\<lambda>c. (tp_by c, tp_predicate c))
       (filter (\<lambda>c. \<not> hasValidDischarge H env ctx msg leaf (tp_by c) (tp_predicate c))
         (opt_list (cv_requiresDischarge (vl_caveats leaf))))"

definition policy_gate :: "'g monitor_ctx \<Rightarrow> bool" where
  "policy_gate ctx \<longleftrightarrow>
     (case (mc_requiresHumanAt ctx, mc_sensitivity ctx) of (Some h, Some x) \<Rightarrow> x \<ge> h | _ \<Rightarrow> False)"

text \<open>The owner whose Signet the policy consent routes to.\<close>

definition policy_owner :: "'g monitor_ctx \<Rightarrow> verified_leaf \<Rightarrow> did option" where
  "policy_owner ctx leaf =
     (case cv_owner (vl_caveats leaf) of Some owner \<Rightarrow> Some owner | None \<Rightarrow> mc_owner ctx)"

definition unmet_discharges ::
    "hash \<Rightarrow> monitor_env \<Rightarrow> 'g monitor_ctx \<Rightarrow> invocation \<Rightarrow> verified_leaf \<Rightarrow> denial + (did \<times> string) list" where
  "unmet_discharges H env ctx msg leaf =
     (let unmet = unmet_caveats H env ctx msg leaf
      in if \<not> policy_gate ctx then Inr unmet
         else if \<not> truthy_string (policy_owner ctx leaf) then Inl OwnerlessPolicyGate
         else let owner = the (policy_owner ctx leaf)
           in if (owner, POLICY_CONSENT_PREDICATE) \<notin> set unmet \<and>
                 \<not> hasValidDischarge H env ctx msg leaf owner POLICY_CONSENT_PREDICATE
              then Inr (unmet @ [(owner, POLICY_CONSENT_PREDICATE)]) else Inr unmet)"

definition expired :: "monitor_env \<Rightarrow> caveats \<Rightarrow> bool" where
  "expired env cav \<longleftrightarrow>
     truthy_string (cv_expires cav) \<and>
     (case me_parseDate env (the (cv_expires cav)) of None \<Rightarrow> True | Some t \<Rightarrow> t \<le> me_now env)"

definition over_ceiling :: "'g monitor_ctx \<Rightarrow> caveats \<Rightarrow> denial option" where
  "over_ceiling ctx cav =
     (case (mc_sensitivity ctx, cv_ceiling cav) of
        (Some x, Some c) \<Rightarrow> if x > c then Some (CeilingExceeded x c) else None
      | _ \<Rightarrow> None)"

definition cap_key :: "verified_leaf \<Rightarrow> string" where
  "cap_key leaf = ''cap:'' @ vl_id leaf"

definition is_single_use :: "verified_leaf \<Rightarrow> bool" where
  "is_single_use leaf \<longleftrightarrow> cv_singleUse (vl_caveats leaf) = Some True"

text \<open>
  The handler reads the ledger, verifies discharges (awaiting Keymaster), and only then writes. Its two
  halves are separate definitions because other handlers run at the awaits in between:
  \<open>authorize_check\<close> returns an early verdict, or nothing when the act may go on to be recorded.
\<close>

definition authorize_check ::
    "('s \<Rightarrow> string \<Rightarrow> bool option) \<Rightarrow> hash \<Rightarrow> monitor_env \<Rightarrow> 'g monitor_ctx \<Rightarrow> invocation \<Rightarrow> verified_leaf \<Rightarrow>
     's \<Rightarrow> decision option option" where
  "authorize_check isSpent H env ctx msg leaf s =
     (case isSpent s (at_txn (in_act msg)) of
        None \<Rightarrow> None
      | Some True \<Rightarrow> Some (Some (Deny Replay))
      | Some False \<Rightarrow>
          if expired env (vl_caveats leaf) then Some (Some (Deny Expired))
          else case (if is_single_use leaf then isSpent s (cap_key leaf) else Some False) of
            None \<Rightarrow> None
          | Some True \<Rightarrow> Some (Some (Deny SingleUseSpent))
          | Some False \<Rightarrow>
              (case over_ceiling ctx (vl_caveats leaf) of
                 Some d \<Rightarrow> Some (Some (Deny d))
               | None \<Rightarrow>
                   (case unmet_discharges H env ctx msg leaf of
                      Inl d \<Rightarrow> Some (Some (Deny d))
                    | Inr unmet \<Rightarrow>
                        if unmet \<noteq> []
                        then Some (Some (NeedsDischarge unmet (policy_owner ctx leaf) (cv_ceiling (vl_caveats leaf))))
                        else Some None)))"

definition authorize_commit ::
    "('s \<Rightarrow> string \<Rightarrow> 's option) \<Rightarrow> invocation \<Rightarrow> verified_leaf \<Rightarrow> 's \<Rightarrow> (decision \<times> 's) option" where
  "authorize_commit markSpent msg leaf s =
     (case markSpent s (at_txn (in_act msg)) of
        None \<Rightarrow> None
      | Some s1 \<Rightarrow>
          map_option (\<lambda>s2. (Allow (cv_owner (vl_caveats leaf)) (cv_audience (vl_caveats leaf))
              (cv_ceiling (vl_caveats leaf)), s2))
            (if is_single_use leaf then markSpent s1 (cap_key leaf) else Some s1))"

definition authorizeInvocation ::
    "('s \<Rightarrow> string \<Rightarrow> bool option) \<Rightarrow> ('s \<Rightarrow> string \<Rightarrow> 's option) \<Rightarrow> hash \<Rightarrow> monitor_env \<Rightarrow> 'g monitor_ctx \<Rightarrow>
     invocation \<Rightarrow> verified_leaf \<Rightarrow> 's \<Rightarrow> (decision \<times> 's) option" where
  "authorizeInvocation isSpent markSpent H env ctx msg leaf s =
     (case authorize_check isSpent H env ctx msg leaf s of
        None \<Rightarrow> None
      | Some (Some d) \<Rightarrow> Some (d, s)
      | Some None \<Rightarrow> authorize_commit markSpent msg leaf s)"

text \<open>The convenience composition: a refusal of the resolution is a denial.\<close>

definition verifyInvocation ::
    "('s \<Rightarrow> string \<Rightarrow> bool option) \<Rightarrow> ('s \<Rightarrow> string \<Rightarrow> 's option) \<Rightarrow> hash \<Rightarrow> monitor_env \<Rightarrow> 'g monitor_ctx \<Rightarrow>
     invocation \<Rightarrow> 'g \<Rightarrow> 's \<Rightarrow> ((refusal + decision) \<times> 'g \<times> 's) option" where
  "verifyInvocation isSpent markSpent H env ctx msg g s =
     (case resolveInvocation env ctx msg g of
        (Resolved leaf, g') \<Rightarrow>
          map_option (\<lambda>(d, s'). (Inr d, g', s')) (authorizeInvocation isSpent markSpent H env ctx msg leaf s)
      | (Refused r, g') \<Rightarrow> Some (Inl r, g', s)
      | (Resolve_threw, _) \<Rightarrow> None)"


section \<open>When an act is authorized\<close>

text \<open>The conditions on the act and its context, apart from the ledger.\<close>

definition permitted :: "hash \<Rightarrow> monitor_env \<Rightarrow> 'g monitor_ctx \<Rightarrow> invocation \<Rightarrow> verified_leaf \<Rightarrow> bool" where
  "permitted H env ctx msg leaf \<longleftrightarrow>
     \<not> expired env (vl_caveats leaf) \<and>
     (\<forall>x c. mc_sensitivity ctx = Some x \<and> cv_ceiling (vl_caveats leaf) = Some c \<longrightarrow> x \<le> c) \<and>
     (\<forall>cav \<in> set (opt_list (cv_requiresDischarge (vl_caveats leaf))).
        hasValidDischarge H env ctx msg leaf (tp_by cav) (tp_predicate cav)) \<and>
     (policy_gate ctx \<longrightarrow>
        (\<exists>owner. policy_owner ctx leaf = Some owner \<and> owner \<noteq> [] \<and>
           hasValidDischarge H env ctx msg leaf owner POLICY_CONSENT_PREDICATE))"

definition burn_keys :: "invocation \<Rightarrow> verified_leaf \<Rightarrow> string list" where
  "burn_keys msg leaf = at_txn (in_act msg) # (if is_single_use leaf then [cap_key leaf] else [])"

fun allows :: "decision \<Rightarrow> bool" where
  "allows (Allow _ _ _) = True"
| "allows _ = False"

lemma unmet_caveats_Nil:
  "unmet_caveats H env ctx msg leaf = [] \<longleftrightarrow>
     (\<forall>cav \<in> set (opt_list (cv_requiresDischarge (vl_caveats leaf))).
        hasValidDischarge H env ctx msg leaf (tp_by cav) (tp_predicate cav))"
  by (simp add: unmet_caveats_def filter_empty_conv)

lemma unmet_discharges_Nil:
  "unmet_discharges H env ctx msg leaf = Inr [] \<longleftrightarrow>
     (\<forall>cav \<in> set (opt_list (cv_requiresDischarge (vl_caveats leaf))).
        hasValidDischarge H env ctx msg leaf (tp_by cav) (tp_predicate cav)) \<and>
     (policy_gate ctx \<longrightarrow>
        (\<exists>owner. policy_owner ctx leaf = Some owner \<and> owner \<noteq> [] \<and>
           hasValidDischarge H env ctx msg leaf owner POLICY_CONSENT_PREDICATE))"
proof (cases "unmet_caveats H env ctx msg leaf = []")
  case True
  then show ?thesis
    using unmet_caveats_Nil [of H env ctx msg leaf]
    by (cases "policy_owner ctx leaf") (simp_all add: unmet_discharges_def Let_def)
next
  case False
  then show ?thesis
    using unmet_caveats_Nil [of H env ctx msg leaf] by (simp add: unmet_discharges_def Let_def) blast
qed

lemma over_ceiling_None:
  "over_ceiling ctx cav = None \<longleftrightarrow>
     (\<forall>x c. mc_sensitivity ctx = Some x \<and> cv_ceiling cav = Some c \<longrightarrow> x \<le> c)"
  by (auto simp: over_ceiling_def split: option.splits)

lemma permitted_iff:
  "permitted H env ctx msg leaf \<longleftrightarrow>
     \<not> expired env (vl_caveats leaf) \<and> over_ceiling ctx (vl_caveats leaf) = None \<and>
     unmet_discharges H env ctx msg leaf = Inr []"
  unfolding permitted_def over_ceiling_None unmet_discharges_Nil by blast

context spent_ledger
begin

lemma check_passes_iff:
  "authorize_check isSpent H env ctx msg leaf s = Some None \<longleftrightarrow>
     isSpent s (at_txn (in_act msg)) = Some False \<and>
     (is_single_use leaf \<longrightarrow> isSpent s (cap_key leaf) = Some False) \<and> permitted H env ctx msg leaf"
  unfolding authorize_check_def permitted_iff
  by (auto split: option.splits bool.splits sum.splits if_splits)

lemma check_verdict_not_allow:
  "authorize_check isSpent H env ctx msg leaf s = Some (Some d) \<Longrightarrow> \<not> allows d"
  unfolding authorize_check_def
  by (auto split: option.splits bool.splits sum.splits if_splits)

lemma check_throws_iff:
  "authorize_check isSpent H env ctx msg leaf s = None \<longleftrightarrow> isSpent s (at_txn (in_act msg)) = None"
proof (cases "isSpent s (at_txn (in_act msg))")
  case (Some b)
  then have "isSpent s (cap_key leaf) \<noteq> None" using fails_uniformly by fastforce
  with Some show ?thesis
    unfolding authorize_check_def
    by (auto split: option.splits bool.splits sum.splits if_splits)
qed (simp add: authorize_check_def)

lemma commit_eq:
  "authorize_commit markSpent msg leaf s =
     map_option (\<lambda>s'. (Allow (cv_owner (vl_caveats leaf)) (cv_audience (vl_caveats leaf))
       (cv_ceiling (vl_caveats leaf)), s')) (mark_all s (burn_keys msg leaf))"
  by (auto simp: authorize_commit_def burn_keys_def split: option.splits)

lemma authorize_allows_iff:
  assumes "isSpent s t = Some b"
  shows "\<exists>d s'. authorizeInvocation isSpent markSpent H env ctx msg leaf s = Some (d, s') \<and>
    (allows d \<longleftrightarrow> set (burn_keys msg leaf) \<inter> spent s = {} \<and> permitted H env ctx msg leaf) \<and>
    spent s' = (if allows d then set (burn_keys msg leaf) \<union> spent s else spent s)"
proof -
  have sp: "\<And>u. isSpent s u = Some (u \<in> spent s)" by (rule isSpent_readable [OF assms])
  have passes: "authorize_check isSpent H env ctx msg leaf s = Some None \<longleftrightarrow>
      set (burn_keys msg leaf) \<inter> spent s = {} \<and> permitted H env ctx msg leaf"
    unfolding check_passes_iff sp by (auto simp: burn_keys_def)
  show ?thesis
  proof (cases "authorize_check isSpent H env ctx msg leaf s")
    case None
    with sp show ?thesis by (simp add: check_throws_iff)
  next
    case (Some v)
    show ?thesis
    proof (cases v)
      case None
      with Some have "set (burn_keys msg leaf) \<inter> spent s = {} \<and> permitted H env ctx msg leaf"
        using passes by simp
      moreover obtain s' where "mark_all s (burn_keys msg leaf) = Some s'"
        using mark_all_total [OF assms] by blast
      moreover from spent_mark_all [OF this] have "spent s' = set (burn_keys msg leaf) \<union> spent s" .
      ultimately show ?thesis using Some None by (simp add: authorizeInvocation_def commit_eq)
    next
      case (Some d)
      with \<open>authorize_check _ _ _ _ _ _ _ = Some v\<close>
      have "\<not> allows d" "\<not> (set (burn_keys msg leaf) \<inter> spent s = {} \<and> permitted H env ctx msg leaf)"
        using passes check_verdict_not_allow by simp_all
      with Some \<open>authorize_check _ _ _ _ _ _ _ = Some v\<close> show ?thesis
        by (simp add: authorizeInvocation_def)
    qed
  qed
qed

lemma authorize_throws:
  "isSpent s t = None \<Longrightarrow> authorizeInvocation isSpent markSpent H env ctx msg leaf s = None"
  using fails_uniformly [of s t "at_txn (in_act msg)"]
  by (simp add: authorizeInvocation_def authorize_check_def)

text \<open>Requests served one after the other; a rejected promise leaves the ledger as it was.\<close>

fun serve_all ::
    "hash \<Rightarrow> 's \<Rightarrow> (monitor_env \<times> 'g monitor_ctx \<times> invocation \<times> verified_leaf) list \<Rightarrow> decision option list" where
  "serve_all H s [] = []"
| "serve_all H s ((env, ctx, msg, leaf) # rest) =
     (case authorizeInvocation isSpent markSpent H env ctx msg leaf s of
        None \<Rightarrow> None # serve_all H s rest
      | Some (d, s') \<Rightarrow> Some d # serve_all H s' rest)"

lemma length_serve_all [simp]: "length (serve_all H s reqs) = length reqs"
  by (induction H s reqs rule: serve_all.induct) (auto split: option.splits)

lemma authorize_spent_mono:
  assumes "authorizeInvocation isSpent markSpent H env ctx msg leaf s = Some (d, s')"
  shows "spent s \<subseteq> spent s'" and "allows d \<Longrightarrow> set (burn_keys msg leaf) \<subseteq> spent s'"
    and "allows d \<Longrightarrow> set (burn_keys msg leaf) \<inter> spent s = {}"
proof -
  have "isSpent s (at_txn (in_act msg)) \<noteq> None"
    using assms authorize_throws [of s "at_txn (in_act msg)" H env ctx msg leaf] by auto
  then obtain b where "isSpent s (at_txn (in_act msg)) = Some b" by auto
  from authorize_allows_iff [OF this, of H env ctx msg leaf] assms
  show "spent s \<subseteq> spent s'" "allows d \<Longrightarrow> set (burn_keys msg leaf) \<subseteq> spent s'"
    "allows d \<Longrightarrow> set (burn_keys msg leaf) \<inter> spent s = {}" by (auto split: if_splits)
qed

definition keys_of :: "monitor_env \<times> 'g monitor_ctx \<times> invocation \<times> verified_leaf \<Rightarrow> string set" where
  "keys_of r = (case r of (env, ctx, msg, leaf) \<Rightarrow> set (burn_keys msg leaf))"

definition allowed_at :: "hash \<Rightarrow> 's \<Rightarrow> (monitor_env \<times> 'g monitor_ctx \<times> invocation \<times> verified_leaf) list \<Rightarrow> nat \<Rightarrow> bool" where
  "allowed_at H s reqs i \<longleftrightarrow> (\<exists>d. serve_all H s reqs ! i = Some d \<and> allows d)"

lemma allowed_fresh:
  "i < length reqs \<Longrightarrow> allowed_at H s reqs i \<Longrightarrow> keys_of (reqs ! i) \<inter> spent s = {}"
proof (induction H s reqs arbitrary: i rule: serve_all.induct)
  case (2 H s env ctx msg leaf rest)
  show ?case
  proof (cases "authorizeInvocation isSpent markSpent H env ctx msg leaf s")
    case None
    with 2 show ?thesis by (cases i) (auto simp: allowed_at_def)
  next
    case (Some r)
    obtain d s' where r: "r = (d, s')" by (cases r)
    note a = authorize_spent_mono [OF Some [unfolded r]]
    show ?thesis
    proof (cases i)
      case 0
      with 2(4) Some r a(3) show ?thesis by (simp add: allowed_at_def keys_of_def)
    next
      case (Suc j)
      with 2(4) Some r have "allowed_at H s' rest j" by (simp add: allowed_at_def)
      with 2(2) [OF Some r [symmetric]] 2(3) Suc have "keys_of (rest ! j) \<inter> spent s' = {}" by simp
      with a(1) Suc show ?thesis by auto
    qed
  qed
qed simp

lemma allowed_disjoint:
  "i < j \<Longrightarrow> j < length reqs \<Longrightarrow> allowed_at H s reqs i \<Longrightarrow> allowed_at H s reqs j \<Longrightarrow>
    keys_of (reqs ! i) \<inter> keys_of (reqs ! j) = {}"
proof (induction H s reqs arbitrary: i j rule: serve_all.induct)
  case (2 H s env ctx msg leaf rest)
  obtain j' where j: "j = Suc j'" using 2(3) by (cases j) simp_all
  show ?case
  proof (cases "authorizeInvocation isSpent markSpent H env ctx msg leaf s")
    case None
    with 2(5) obtain i' where i: "i = Suc i'" by (cases i) (simp_all add: allowed_at_def)
    with 2(1) [OF None, of i' j'] 2(3-6) None j show ?thesis by (simp add: allowed_at_def)
  next
    case (Some r)
    obtain d s' where r: "r = (d, s')" by (cases r)
    note a = authorize_spent_mono [OF Some [unfolded r]]
    have later: "allowed_at H s' rest j'" using 2(6) Some r j by (simp add: allowed_at_def)
    show ?thesis
    proof (cases i)
      case 0
      with 2(5) Some r have "allows d" by (simp add: allowed_at_def)
      with a(2) allowed_fresh [OF _ later] 2(4) j 0 show ?thesis
        by (auto simp: keys_of_def)
    next
      case (Suc i')
      with 2(2) [OF Some r [symmetric], of i' j'] 2(3-6) Some r j show ?thesis by (simp add: allowed_at_def)
    qed
  qed
qed simp

end

section \<open>Consent cannot be transplanted\<close>

lemma canonicalize_array: "\<exists>t. canonicalize (discharge_json_array s) = Some t"
  using canonicalize_None_iff [of "discharge_json_array s"]
  by (cases "canonicalize (discharge_json_array s)") (auto simp: discharge_json_array_def)

lemma digest_binds:
  assumes "dischargeDigest H s = dischargeDigest H s'"
  shows "(s\<lparr>ds_reveal := None\<rparr> = s'\<lparr>ds_reveal := None\<rparr> \<and>
      sort (opt_list (ds_reveal s)) = sort (opt_list (ds_reveal s'))) \<or>
    collision H (digest_text s) (digest_text s')"
proof (cases "digest_text s = digest_text s'")
  case True
  obtain t t' where t: "canonicalize (discharge_json_array s) = Some t"
    "canonicalize (discharge_json_array s') = Some t'"
    using canonicalize_array by blast
  with True have "t = t'" by (simp add: digest_text_def)
  with t have "sort_fields (discharge_json_array s) = sort_fields (discharge_json_array s')"
    by (intro canonicalize_inj) (auto simp: discharge_json_array_def)
  moreover have "inj JNum" by (auto intro: injI)
  ultimately have "s\<lparr>ds_reveal := None\<rparr> = s'\<lparr>ds_reveal := None\<rparr> \<and>
      sort (opt_list (ds_reveal s)) = sort (opt_list (ds_reveal s'))"
    by (cases s; cases s') (auto simp: discharge_json_array_def comp_def opt_list_def inj_map_eq_map)
  then show ?thesis ..
next
  case False
  with assms show ?thesis by (simp add: collision_def dischargeDigest_def)
qed

text \<open>
  Consent cannot be transplanted: if one signed discharge satisfies two consent requirements,
  whatever the acts, capabilities and contexts, then the two are for the same signer, predicate,
  transaction, claim, kind, data owner, recipient and sensitivity, and reveal the same leaves, or the
  two digest texts are a collision of the hash.
\<close>

theorem consent_not_transplantable:
  assumes "discharge_satisfies H env ctx act leaf by predicate d"
    and "discharge_satisfies H env' ctx' act' leaf' by' predicate' d"
  shows "(by = by' \<and> at_txn act = at_txn act' \<and>
      (act_subject ctx act leaf predicate)\<lparr>ds_reveal := None\<rparr>
        = (act_subject ctx' act' leaf' predicate')\<lparr>ds_reveal := None\<rparr> \<and>
      set (opt_list (at_reveal act)) = set (opt_list (at_reveal act')) \<and>
      length (opt_list (at_reveal act)) = length (opt_list (at_reveal act'))) \<or>
    collision H (digest_text (act_subject ctx act leaf predicate))
      (digest_text (act_subject ctx' act' leaf' predicate'))"
proof -
  from assms have eq: "by = by'" "at_txn act = at_txn act'"
    "dischargeDigest H (act_subject ctx act leaf predicate) = dischargeDigest H (act_subject ctx' act' leaf' predicate')"
    by (auto simp: discharge_satisfies_def)
  have r: "ds_reveal (act_subject ctx act leaf predicate) = at_reveal act"
    "ds_reveal (act_subject ctx' act' leaf' predicate') = at_reveal act'"
    by (simp_all add: act_subject_def)
  have same: "set xs = set ys \<and> length xs = length ys" if "sort xs = sort ys" for xs ys :: "int list"
    using that by (metis length_sort set_sort)
  from digest_binds [OF eq(3)] show ?thesis
    unfolding r using eq(1,2) same by blast
qed

section \<open>What authorization means with the file ledger\<close>

text \<open>
  C2. An act is authorized exactly when every condition holds, and then exactly its keys are burned:
  with a ledger that can be read, the monitor decides; it allows the act if and only if neither its
  transaction nor, for a single-use capability, the capability was burned, the capability has not
  expired, the sensitivity is within the ceiling, every consent caveat is discharged, and at or above
  the policy tier the owner has consented; an allowed act burns its transaction and its single-use
  capability and nothing else, and any other verdict burns nothing. With a ledger that cannot be read
  nothing is decided.
\<close>

theorem authorize_iff_permitted:
  "case ledger_all s of
     None \<Rightarrow> authorizeInvocation file_isSpent file_markSpent H env ctx msg leaf s = None
   | Some ts \<Rightarrow>
       (\<exists>d s'. authorizeInvocation file_isSpent file_markSpent H env ctx msg leaf s = Some (d, s') \<and>
          (allows d \<longleftrightarrow> set (burn_keys msg leaf) \<inter> set ts = {} \<and> permitted H env ctx msg leaf) \<and>
          (if allows d then file_ledger.spent s' = set (burn_keys msg leaf) \<union> set ts
           else file_ledger.spent s' = set ts))"
proof (cases "ledger_all s")
  case None
  then have "file_isSpent s [] = None" by (simp add: file_isSpent_def)
  from file_ledger.authorize_throws [OF this] None show ?thesis by simp
next
  case (Some ts)
  then have r: "file_isSpent s [] = Some ([] \<in> set ts)" and sp: "file_ledger.spent s = set ts"
    by (simp_all add: file_isSpent_def file_spent)
  from file_ledger.authorize_allows_iff [OF r, of H env ctx msg leaf, unfolded sp] obtain d s' where
    "authorizeInvocation file_isSpent file_markSpent H env ctx msg leaf s = Some (d, s')"
    "allows d \<longleftrightarrow> set (burn_keys msg leaf) \<inter> set ts = {} \<and> permitted H env ctx msg leaf"
    "file_ledger.spent s' = (if allows d then set (burn_keys msg leaf) \<union> set ts else set ts)"
    by blast
  with Some show ?thesis by simp
qed

text \<open>
  C4. No replay in sequence: over any sequence of requests that the monitor serves one after the
  other, whatever their contexts and capabilities, two allowed requests have different transactions,
  and a single-use capability is exercised by at most one of them.
\<close>

theorem no_replay_in_sequence:
  assumes "i < j" "j < length reqs" "file_ledger.allowed_at H s reqs i" "file_ledger.allowed_at H s reqs j"
    and "reqs ! i = (env, ctx, msg, leaf)" "reqs ! j = (env', ctx', msg', leaf')"
  shows "at_txn (in_act msg) \<noteq> at_txn (in_act msg') \<and>
    \<not> (is_single_use leaf \<and> is_single_use leaf' \<and> vl_id leaf = vl_id leaf')"
proof -
  have "set (burn_keys msg leaf) \<inter> set (burn_keys msg' leaf') = {}"
    using file_ledger.allowed_disjoint [OF assms(1-4)]
    unfolding assms(5,6) file_ledger.keys_of_def prod.case .
  moreover have "at_txn (in_act msg) \<in> set (burn_keys msg leaf)" "at_txn (in_act msg') \<in> set (burn_keys msg' leaf')"
    "is_single_use leaf \<Longrightarrow> cap_key leaf \<in> set (burn_keys msg leaf)"
    "is_single_use leaf' \<Longrightarrow> cap_key leaf' \<in> set (burn_keys msg' leaf')"
    by (simp_all add: burn_keys_def)
  moreover have "vl_id leaf = vl_id leaf' \<Longrightarrow> cap_key leaf = cap_key leaf'" by (simp add: cap_key_def)
  ultimately show ?thesis by (metis disjoint_iff)
qed

text \<open>
  A sensitive act carries its owner's consent: if the monitor allows an act whose sensitivity is
  at or above the policy tier, then the discharges of the request contain one that verifies, names and
  is signed by the owner, who comes from the verified capability or the Warden's own configuration, has
  the consent predicate and is bound to this transaction and to the digest of this very act, whatever
  the issuer wrote into the capability.
\<close>

theorem sensitive_act_has_owner_consent:
  assumes "authorizeInvocation file_isSpent file_markSpent H env ctx msg leaf s = Some (d, s')" "allows d"
    and "mc_requiresHumanAt ctx = Some tier" "mc_sensitivity ctx = Some x" "tier \<le> x"
  shows "\<exists>owner consent. policy_owner ctx leaf = Some owner \<and> owner \<noteq> [] \<and>
    consent \<in> set (opt_list (in_discharges msg)) \<and> di_by consent = owner \<and>
    me_verifyDischarge env consent \<and> map_option before_hash (di_proof consent) = Some owner \<and>
    di_predicate consent = Some ''human-consent'' \<and> di_txn consent = at_txn (in_act msg) \<and>
    di_digest consent = Some (dischargeDigest H (act_subject ctx (in_act msg) leaf ''human-consent''))"
proof -
  have "permitted H env ctx msg leaf"
    using file_ledger.authorize_allows_iff [of s "at_txn (in_act msg)" _ H env ctx msg leaf]
      file_ledger.authorize_throws [of s "at_txn (in_act msg)" H env ctx msg leaf] assms(1,2)
    by (cases "file_isSpent s (at_txn (in_act msg))") auto
  moreover have "policy_gate ctx" using assms(3-5) by (simp add: policy_gate_def)
  ultimately obtain owner where o: "policy_owner ctx leaf = Some owner" "owner \<noteq> []"
    "hasValidDischarge H env ctx msg leaf owner POLICY_CONSENT_PREDICATE"
    unfolding permitted_def by blast
  from o(3) obtain consent where c: "consent \<in> set (opt_list (in_discharges msg))"
    "discharge_satisfies H env ctx (in_act msg) leaf owner ''human-consent'' consent"
    by (auto simp: hasValidDischarge_def list_ex_iff POLICY_CONSENT_PREDICATE_def)
  from c(2) have "di_by consent = owner" "me_verifyDischarge env consent"
    "map_option before_hash (di_proof consent) = Some owner"
    "di_predicate consent = Some ''human-consent''" "di_txn consent = at_txn (in_act msg)"
    "di_digest consent = Some (dischargeDigest H (act_subject ctx (in_act msg) leaf ''human-consent''))"
    by (auto simp: discharge_satisfies_def split: option.splits)
  with o(1,2) c(1) show ?thesis by blast
qed

section \<open>Overlapping requests\<close>

text \<open>
  The daemon dispatches inbound messages without waiting for the handler of an earlier one. Here two
  handlers overlap at the await between reading the ledger and writing it.
\<close>

definition overlapping ::
    "hash \<Rightarrow> ledger_file \<Rightarrow> monitor_env \<times> 'g monitor_ctx \<times> invocation \<times> verified_leaf \<Rightarrow>
     monitor_env \<times> 'g monitor_ctx \<times> invocation \<times> verified_leaf \<Rightarrow> (decision \<times> decision \<times> ledger_file) option" where
  "overlapping H s r1 r2 =
     (case r1 of (env1, ctx1, msg1, leaf1) \<Rightarrow> case r2 of (env2, ctx2, msg2, leaf2) \<Rightarrow>
       (case (authorize_check file_isSpent H env1 ctx1 msg1 leaf1 s, authorize_check file_isSpent H env2 ctx2 msg2 leaf2 s) of
          (Some v1, Some v2) \<Rightarrow>
            (case (case v1 of Some d \<Rightarrow> Some (d, s) | None \<Rightarrow> authorize_commit file_markSpent msg1 leaf1 s) of
               None \<Rightarrow> None
             | Some (d1, s1) \<Rightarrow>
                 map_option (\<lambda>(d2, s2). (d1, d2, s2))
                   (case v2 of Some d \<Rightarrow> Some (d, s1) | None \<Rightarrow> authorize_commit file_markSpent msg2 leaf2 s1))
        | _ \<Rightarrow> None))"

lemma commit_total:
  assumes "ledger_all s = Some ts"
  shows "\<exists>d s' ts'. authorize_commit file_markSpent msg leaf s = Some (d, s') \<and> allows d \<and> ledger_all s' = Some ts'"
  using assms by (auto simp: authorize_commit_def file_markSpent_eq)

text \<open>
  The burn is not atomic with its check: when a request that the monitor would allow arrives
  twice, with whatever second context it is also allowed in, and the two handlers overlap between
  reading and writing the ledger, both are allowed, although the same transaction, and the same
  single-use capability, is exercised twice; served one after the other, the second is refused.
\<close>

theorem overlapping_requests_both_allowed:
  assumes "ledger_all s = Some ts" "set (burn_keys msg leaf) \<inter> set ts = {}"
    and "permitted H env ctx msg leaf" "permitted H env' ctx' msg leaf"
  shows "(\<exists>d1 d2 s'. overlapping H s (env, ctx, msg, leaf) (env', ctx', msg, leaf) = Some (d1, d2, s') \<and>
      allows d1 \<and> allows d2) \<and>
    \<not> (file_ledger.allowed_at H s [(env, ctx, msg, leaf), (env', ctx', msg, leaf)] 0 \<and>
       file_ledger.allowed_at H s [(env, ctx, msg, leaf), (env', ctx', msg, leaf)] 1)"
proof
  have "file_isSpent s u = Some (u \<in> set ts)" for u using assms(1) by (simp add: file_isSpent_def)
  then have checks: "authorize_check file_isSpent H env ctx msg leaf s = Some None"
    "authorize_check file_isSpent H env' ctx' msg leaf s = Some None"
    using assms(2-4) unfolding file_ledger.check_passes_iff by (auto simp: burn_keys_def)
  obtain d1 s1 ts1 where 1: "authorize_commit file_markSpent msg leaf s = Some (d1, s1)" "allows d1"
    "ledger_all s1 = Some ts1"
    using commit_total [OF assms(1)] by blast
  obtain d2 s2 where "authorize_commit file_markSpent msg leaf s1 = Some (d2, s2)" "allows d2"
    using commit_total [OF 1(3)] by blast
  with 1 checks show "\<exists>d1 d2 s'. overlapping H s (env, ctx, msg, leaf) (env', ctx', msg, leaf) = Some (d1, d2, s') \<and>
      allows d1 \<and> allows d2"
    by (simp add: overlapping_def)
  show "\<not> (file_ledger.allowed_at H s [(env, ctx, msg, leaf), (env', ctx', msg, leaf)] 0 \<and>
       file_ledger.allowed_at H s [(env, ctx, msg, leaf), (env', ctx', msg, leaf)] 1)"
    using file_ledger.allowed_disjoint [of 0 1 "[(env, ctx, msg, leaf), (env', ctx', msg, leaf)]" H s]
    by (auto simp: file_ledger.keys_of_def burn_keys_def)
qed

text \<open>
  The ledger's keys share one name space: the transaction is chosen by the requester, so a holder
  of any capability whose act is allowed under the transaction \<open>cap:<id>\<close> burns the single-use
  capability with that identifier, and its holder is refused from then on.
\<close>

theorem chosen_txn_burns_foreign_capability:
  assumes "authorizeInvocation file_isSpent file_markSpent H env ctx msg leaf s = Some (d, s')" "allows d"
    and "at_txn (in_act msg) = ''cap:'' @ vl_id victim" "is_single_use victim"
    and "authorizeInvocation file_isSpent file_markSpent H env' ctx' msg' victim s' = Some (d', s'')"
  shows "\<not> allows d'"
  using file_ledger.authorize_spent_mono(2) [OF assms(1,2)] file_ledger.authorize_spent_mono(3) [OF assms(5)] assms(3,4)
  by (auto simp: burn_keys_def cap_key_def)

end
