(* ===== verification/Invocation_Resolution.thy ===== *)
theory Invocation_Resolution
  imports Invocation_Monitor
begin

text \<open>
  What a resolved leaf means: the guarantees of the two resolving paths of
  \<open>packages/core/src/invocation-monitor.ts\<close>, which return the same kind of leaf, and the freshness both
  inherit from the Warden's challenge gate.
\<close>

section \<open>The common checks\<close>

lemma check_act_None:
  "check_act act auth = None \<longleftrightarrow>
     at_action act \<in> set (operations auth) \<and>
     (\<exists>r \<in> set (resources auth). targetWithin (at_target act) r)"
  by (auto simp: check_act_def target_ok_def list_ex_iff targetWithin_iff)

lemma check_status_None:
  "check_status env ctx cav = None \<longleftrightarrow>
     (case cv_status cav of
        None \<Rightarrow> \<not> mc_requireStatus ctx
      | Some st \<Rightarrow> \<exists>pin. status_of env ctx st (mc_expectedRootIssuer ctx) = Known False pin)"
  by (auto simp: check_status_def split: option.splits status_check.splits)

lemma makeHopStatusChecker_ok:
  "makeHopStatusChecker env ctx (Some cav) c = St_ok \<longleftrightarrow>
     (\<exists>st pin. cv_status cav = Some st \<and> status_of env ctx st c = Known False pin)"
  by (auto simp: makeHopStatusChecker_def split: option.splits status_check.splits)

lemma makeHopStatusChecker_none:
  "makeHopStatusChecker env ctx (Some cav) c = St_no_status \<longleftrightarrow> cv_status cav = None"
  by (auto simp: makeHopStatusChecker_def split: option.splits status_check.splits)

lemma authorization_credential_in: "authorization_credential ds = Some d \<Longrightarrow> d \<in> set ds"
  by (auto simp: authorization_credential_def find_Some_iff split: option.splits list.splits)

section \<open>Single hop\<close>

lemma scope_proof_Some:
  assumes "scope_proof env ctx p = Some r"
  obtains res where "me_verifyResponse env p = Some res" "rr_match res" "rr_requested res \<noteq> 0"
    "rr_requested res \<le> rr_fulfilled res" "\<forall>d \<in> set (disclosed_of res). dc_issuer d = mc_expectedRootIssuer ctx"
    "pf_responder r = rr_responder res" "pf_disclosed r = disclosed_of res"
    "pf_challenge r = (case rr_challenge res of Some c \<Rightarrow> c | None \<Rightarrow> [])"
proof -
  from assms obtain res where res: "me_verifyResponse env p = Some res"
    by (auto simp: scope_proof_def split: option.splits)
  with assms obtain s' where "verifyProof memory_isSpent memory_markSpent
      \<lparr>po_trustedIssuers = Some [mc_expectedRootIssuer ctx], po_trustRegistry = None,
       po_schema = Some (mc_authorizationSchema ctx), po_requiredClaims = None,
       po_spentTxns = False\<rparr> res {} = Some (Inr r, s')"
    by (auto simp: scope_proof_def split: option.splits sum.splits)
  note facts = verifyProof_Inr [OF this]
  from facts(5) have "\<forall>d \<in> set (disclosed_of res). dc_issuer d = mc_expectedRootIssuer ctx"
    by (simp add: isTrusted_def split: if_splits)
  with that [OF res] facts(2-4,6) show thesis by simp
qed

lemma leaf_of_credential_Resolved:
  assumes "leaf_of_credential env ctx msg responder cred = Resolved leaf"
  shows "vl_holder leaf = responder" "vl_id leaf = dc_credentialDid cred" "dc_credentialDid cred \<noteq> []"
    and "dc_subject cred = responder" "claimed_authority (dc_claims cred) = Some (vl_authority leaf)"
    and "cl_caveats (dc_claims cred) = Some (vl_caveats leaf)" "cv_ceiling (vl_caveats leaf) \<noteq> None"
    and "\<not> sender_mismatch ctx responder" "check_act (in_act msg) (vl_authority leaf) = None"
    and "check_status env ctx (vl_caveats leaf) = None"
  using assms by (auto simp: leaf_of_credential_def split: option.splits if_splits)

lemma resolveInvocation_Resolved:
  assumes "resolveInvocation env ctx msg g = (Resolved leaf, g')"
  obtains p r cred where "in_presentation msg = Some p" "p \<noteq> []" "mc_expectedRootIssuer ctx \<noteq> []"
    "scope_proof env ctx p = Some r" "pf_responder r = Some (vl_holder leaf)"
    "ask_gate ctx (pf_challenge r) g = (True, g')" "authorization_credential (pf_disclosed r) = Some cred"
    "leaf_of_credential env ctx msg (vl_holder leaf) cred = Resolved leaf"
proof -
  from assms obtain p where p: "in_presentation msg = Some p" "p \<noteq> []" "mc_expectedRootIssuer ctx \<noteq> []"
    by (cases "in_presentation msg") (auto simp: resolveInvocation_def split: if_splits)
  with assms obtain r where r: "scope_proof env ctx p = Some r"
    by (auto simp: resolveInvocation_def split: option.splits)
  with p assms have "truthy_string (pf_responder r)"
    by (auto simp: resolveInvocation_def split: if_splits)
  then obtain h where h: "pf_responder r = Some h" "truthy_string (Some h)" by (cases "pf_responder r") auto
  obtain fresh g1 where gate: "ask_gate ctx (pf_challenge r) g = (fresh, g1)" by fastforce
  from p r h gate assms obtain cred where
    c: "fresh" "g1 = g'" "authorization_credential (pf_disclosed r) = Some cred"
    "leaf_of_credential env ctx msg h cred = Resolved leaf"
    by (auto simp: resolveInvocation_def split: if_splits option.splits)
  from leaf_of_credential_Resolved(1) [OF c(4)] that [OF p r] h gate c show thesis by simp
qed

text \<open>
  A single-hop leaf is what the Sovereign granted to the caller: if the monitor resolves an
  invocation from its presentation, then the response is verified and complete, all it discloses was
  issued by the trusted root, the leaf is one of the disclosed credentials, with an identifier, whose
  subject is the proven responder and the authenticated sender if there is one, the challenge gate
  accepted the answered challenge, the act is within the credential's operations and resources, the
  ceiling is there, and the credential is not revoked, or has no pointer where that is tolerated.
\<close>

theorem resolved_leaf_granted:
  assumes "resolveInvocation env ctx msg g = (Resolved leaf, g')"
  shows "\<exists>p res cred. in_presentation msg = Some p \<and> me_verifyResponse env p = Some res \<and> rr_match res \<and>
    rr_requested res \<le> rr_fulfilled res \<and> rr_responder res = Some (vl_holder leaf) \<and>
    ask_gate ctx (case rr_challenge res of Some c \<Rightarrow> c | None \<Rightarrow> []) g = (True, g') \<and>
    cred \<in> set (disclosed_of res) \<and> dc_issuer cred = mc_expectedRootIssuer ctx \<and>
    dc_subject cred = vl_holder leaf \<and> dc_credentialDid cred = vl_id leaf \<and> vl_id leaf \<noteq> [] \<and>
    cl_caveats (dc_claims cred) = Some (vl_caveats leaf) \<and> cv_ceiling (vl_caveats leaf) \<noteq> None \<and>
    claimed_authority (dc_claims cred) = Some (vl_authority leaf) \<and>
    at_action (in_act msg) \<in> set (operations (vl_authority leaf)) \<and>
    (\<exists>r \<in> set (resources (vl_authority leaf)). targetWithin (at_target (in_act msg)) r) \<and>
    (case mc_fromDid ctx of Some d \<Rightarrow> d = [] \<or> d = vl_holder leaf | None \<Rightarrow> True) \<and>
    (case cv_status (vl_caveats leaf) of
       None \<Rightarrow> \<not> mc_requireStatus ctx
     | Some st \<Rightarrow> \<exists>pin. status_of env ctx st (mc_expectedRootIssuer ctx) = Known False pin)"
proof -
  obtain p r cred where p: "in_presentation msg = Some p" "scope_proof env ctx p = Some r"
    "pf_responder r = Some (vl_holder leaf)" "ask_gate ctx (pf_challenge r) g = (True, g')"
    and c: "authorization_credential (pf_disclosed r) = Some cred"
    "leaf_of_credential env ctx msg (vl_holder leaf) cred = Resolved leaf"
    using resolveInvocation_Resolved [OF assms] by blast
  obtain res where res: "me_verifyResponse env p = Some res" "rr_match res"
    "rr_requested res \<le> rr_fulfilled res" "\<forall>d \<in> set (disclosed_of res). dc_issuer d = mc_expectedRootIssuer ctx"
    "pf_responder r = rr_responder res" "pf_disclosed r = disclosed_of res"
    "pf_challenge r = (case rr_challenge res of Some c \<Rightarrow> c | None \<Rightarrow> [])"
    using scope_proof_Some [OF p(2)] by blast
  note l = leaf_of_credential_Resolved [OF c(2)]
  have cred: "cred \<in> set (disclosed_of res)" using authorization_credential_in [OF c(1)] res(6) by simp
  have sender: "case mc_fromDid ctx of Some d \<Rightarrow> d = [] \<or> d = vl_holder leaf | None \<Rightarrow> True"
    using l(8) by (auto simp: sender_mismatch_def split: option.split)
  show ?thesis
    using p res cred sender l(1-7) l(9) [unfolded check_act_None] l(10) [unfolded check_status_None]
    by (intro exI [of _ p] exI [of _ res] exI [of _ cred]) simp
qed

section \<open>Several hops\<close>

lemma check_holder_proof_None:
  assumes "check_holder_proof env ctx msg cp holder g = (None, g')"
  obtains hp vm where "cn_holderProof cp = Some hp" "hp_proof hp = Some vm"
    "hp_leafVcDid hp = cn_leafVcDid cp" "hp_txn hp = at_txn (in_act msg)"
    "ask_gate ctx (hp_challenge hp) g = (True, g')" "me_verifyHolderProof env hp"
    "before_hash vm = holder" "\<not> sender_mismatch ctx holder"
proof -
  from assms obtain hp where hp: "cn_holderProof cp = Some hp"
    by (auto simp: check_holder_proof_def split: option.splits)
  with assms obtain m where m: "hp_proof hp = Some m"
    by (auto simp: check_holder_proof_def split: option.splits)
  obtain fresh g1 where "ask_gate ctx (hp_challenge hp) g = (fresh, g1)" by fastforce
  with hp m assms that [OF hp m] show thesis
    by (auto simp: check_holder_proof_def split: if_splits)
qed

lemma resolveChainInvocation_Resolved:
  assumes "resolveChainInvocation H env ctx msg g = (Resolved leaf, g')"
  obtains cp k where "in_chain msg = Some cp" "mc_expectedRootIssuer ctx \<noteq> []"
    "verifyCapabilityChain H (me_archon env) (monitor_chain_options env ctx (cn_disclosed cp)) (cn_leafVcDid cp)
      = Accepted k (vl_holder leaf) (Some (vl_authority leaf)) (Some (vl_caveats leaf))"
    "vl_holder leaf \<noteq> []" "cv_ceiling (vl_caveats leaf) \<noteq> None" "vl_id leaf = cn_leafVcDid cp"
    "check_holder_proof env ctx msg cp (vl_holder leaf) g = (None, g')"
    "check_act (in_act msg) (vl_authority leaf) = None"
proof -
  from assms obtain cp where cp: "in_chain msg = Some cp" "mc_expectedRootIssuer ctx \<noteq> []"
    by (cases "in_chain msg") (auto simp: resolveChainInvocation_def split: if_splits)
  let ?v = "verifyCapabilityChain H (me_archon env) (monitor_chain_options env ctx (cn_disclosed cp)) (cn_leafVcDid cp)"
  from assms cp obtain k h auth cav where v: "?v = Accepted k h (Some auth) (Some cav)"
    by (cases ?v) (auto simp: resolveChainInvocation_def split: option.splits)
  obtain ref g1 where hp: "check_holder_proof env ctx msg cp h g = (ref, g1)" by fastforce
  from assms cp v hp have "h \<noteq> []" "cv_ceiling cav \<noteq> None" "ref = None" "g1 = g'"
    "check_act (in_act msg) auth = None"
    "leaf = \<lparr>vl_id = cn_leafVcDid cp, vl_holder = h, vl_authority = auth, vl_caveats = cav\<rparr>"
    by (auto simp: resolveChainInvocation_def split: if_splits option.splits)
  with that [OF cp] v hp show thesis by simp
qed

text \<open>The status a hop must have for the chain to be accepted.\<close>

definition hop_live :: "monitor_env \<Rightarrow> 'g monitor_ctx \<Rightarrow> caveats \<Rightarrow> did \<Rightarrow> bool" where
  "hop_live env ctx cav controller \<longleftrightarrow>
     (case cv_status cav of
        None \<Rightarrow> \<not> mc_requireStatus ctx
      | Some st \<Rightarrow> \<exists>pin. status_of env ctx st controller = Known False pin)"

lemma status_ok_hop_live:
  assumes "status_ok (chain_options (monitor_chain_options env ctx d)) (Some cav) c"
  shows "hop_live env ctx cav c"
proof (cases "cv_status cav")
  case None
  with assms makeHopStatusChecker_none [of env ctx cav c] show ?thesis
    by (simp add: status_ok_def monitor_chain_options_def hop_live_def)
next
  case (Some st)
  with assms makeHopStatusChecker_none [of env ctx cav c] makeHopStatusChecker_ok [of env ctx cav c]
  show ?thesis by (simp add: status_ok_def monitor_chain_options_def hop_live_def)
qed


section \<open>Freshness\<close>

text \<open>The challenge a message answers, as far as Keymaster reports it.\<close>

definition answered_challenge :: "monitor_env \<Rightarrow> invocation \<Rightarrow> string option" where
  "answered_challenge env msg =
     (case in_chain msg of
        Some cp \<Rightarrow> map_option hp_challenge (cn_holderProof cp)
      | None \<Rightarrow>
          (case Option.bind (in_presentation msg) (me_verifyResponse env) of
             None \<Rightarrow> None
           | Some res \<Rightarrow> Some (case rr_challenge res of Some c \<Rightarrow> c | None \<Rightarrow> [])))"

definition daemon_ctx :: "'g monitor_ctx \<Rightarrow> (string \<Rightarrow> 'g \<Rightarrow> bool \<times> 'g) \<Rightarrow> 'g monitor_ctx" where
  "daemon_ctx ctx ask = ctx\<lparr>mc_requireChallenge := Some ask\<rparr>"

lemma resolve_leaf_gate:
  assumes "resolve_leaf H env ctx msg g = (Resolved leaf, g')"
  obtains c where "answered_challenge env msg = Some c" "ask_gate ctx c g = (True, g')"
proof (cases "in_chain msg")
  case None
  with assms have r: "resolveInvocation env ctx msg g = (Resolved leaf, g')" by (simp add: resolve_leaf_def)
  obtain p r where p: "in_presentation msg = Some p" "scope_proof env ctx p = Some r"
    "ask_gate ctx (pf_challenge r) g = (True, g')"
    using resolveInvocation_Resolved [OF r] by blast
  obtain res where "me_verifyResponse env p = Some res"
    "pf_challenge r = (case rr_challenge res of Some c \<Rightarrow> c | None \<Rightarrow> [])"
    using scope_proof_Some [OF p(2)] by blast
  with None p that show thesis by (simp add: answered_challenge_def)
next
  case (Some cp)
  with assms have "resolveChainInvocation H env ctx msg g = (Resolved leaf, g')" by (simp add: resolve_leaf_def)
  from resolveChainInvocation_Resolved [OF this] Some obtain h where
    "check_holder_proof env ctx msg cp h g = (None, g')" by (metis option.inject)
  from check_holder_proof_None [OF this] Some that show thesis by (auto simp: answered_challenge_def)
qed

context challenge_gate
begin

text \<open>Whatever else asks the gate in between, a message that answers a used challenge is not resolved.\<close>

fun asked :: "'s \<Rightarrow> (int \<times> string) list \<Rightarrow> 's" where
  "asked s [] = s"
| "asked s ((now, c) # rest) = asked (snd (use now s c)) rest"

lemma dead_asked: "dead s c \<Longrightarrow> dead (asked s evs) c"
  by (induction s evs rule: asked.induct) (auto intro: dead_stays)

lemma resolved_once:
  assumes "ok s" "resolve_leaf H env (daemon_ctx ctx (\<lambda>c g. use now g c)) msg s = (Resolved leaf, s')"
    and "answered_challenge env' msg' = answered_challenge env msg"
  shows "resolve_leaf H env' (daemon_ctx ctx' (\<lambda>c g. use now' g c)) msg' (asked s' evs) \<noteq> (Resolved leaf', s'')"
proof
  assume second: "resolve_leaf H env' (daemon_ctx ctx' (\<lambda>c g. use now' g c)) msg' (asked s' evs) = (Resolved leaf', s'')"
  obtain c where c: "answered_challenge env msg = Some c" "use now s c = (True, s')"
    using resolve_leaf_gate [OF assms(2)] by (auto simp: ask_gate_def daemon_ctx_def)
  obtain c' where c': "answered_challenge env' msg' = Some c'" "use now' (asked s' evs) c' = (True, s'')"
    using resolve_leaf_gate [OF second] by (auto simp: ask_gate_def daemon_ctx_def)
  have "dead s' c" using burns [OF assms(1), of now c] c(2) by simp
  then have "dead (asked s' evs) c" by (rule dead_asked)
  from dead_refused [OF this, of now'] c c' assms(3) show False by simp
qed

end

text \<open>
  C17. A presentation cannot be replayed: with the Warden's invocation gate in front, once an
  invocation has been resolved, on either path, no invocation that answers the same challenge is
  resolved again, at any later time, by any caller, under any configuration and whatever challenges
  were consumed in between.
\<close>

theorem presentation_not_replayable:
  assumes "burns_invocations s"
    and "resolve_leaf H env (daemon_ctx ctx (\<lambda>c g. gate Invocation now g c)) msg s = (Resolved leaf, s')"
    and "answered_challenge env' msg' = answered_challenge env msg"
  shows "resolve_leaf H env' (daemon_ctx ctx' (\<lambda>c g. gate Invocation now' g c)) msg'
    (invocation_gate.asked s' evs) \<noteq> (Resolved leaf', s'')"
  by (rule invocation_gate.resolved_once [OF assms])

end
