(* ===== verification/Monitor_Example.thy ===== *)
theory Monitor_Example
  imports Invocation_Resolution
begin

text \<open>
  A concrete capability chain and a concrete single-hop grant, minted, delegated and invoked in the
  kernel, with the witnesses of the properties of \<open>Capability_Chain\<close>, \<open>Invocation_Monitor\<close> and
  \<open>Invocation_Resolution\<close> at them. The Sovereign is \<open>S\<close>, its Emissary \<open>E\<close>, the Emissary's delegate
  \<open>F\<close>; the hash is the identity and the texts compare by their own letters.
\<close>

section \<open>The chain\<close>

definition mx_caveats :: "int \<Rightarrow> caveats" where
  "mx_caveats n = \<lparr>cv_ceiling = Some n, cv_kinds = Some [''location''], cv_owner = Some ''S'',
     cv_audience = None, cv_expires = None, cv_singleUse = Some True, cv_requiresDischarge = None,
     cv_status = None\<rparr>"

definition mx_env :: "did \<Rightarrow> did \<Rightarrow> string \<Rightarrow> issue_env" where
  "mx_env issuer vc ver = \<lparr>ie_issuerDid = issuer, ie_salt = ''salt'' @ vc, ie_vcDid = vc,
     ie_addProof = (\<lambda>a n. \<lparr>verificationMethod = issuer @ ''#key-1'', proofValue = ''sig'', created = ''t''\<rparr>),
     ie_versionId = ver, ie_versionSequence = 2\<rparr>"

definition mx_spec :: "int \<Rightarrow> string list \<Rightarrow> capability_spec" where
  "mx_spec n ops = \<lparr>sp_invocationTarget = ''vault'', sp_authority = \<lparr>operations = ops, resources = [''vault'']\<rparr>,
     sp_caveats = mx_caveats n\<rparr>"

definition mx_the :: "delegation_error + (capability_handle \<times> pic_block) \<Rightarrow> capability_handle \<times> pic_block" where
  "mx_the r = (case r of Inr x \<Rightarrow> x | Inl _ \<Rightarrow> undefined)"

definition mx_root :: "capability_handle \<times> pic_block" where
  "mx_root = mx_the (mintRootCapability id id (mx_env ''S'' ''v1'' ''x1'') ''S'' ''E'' (mx_spec 2 [''disclose'', ''read'']))"

definition mx_leaf :: "capability_handle \<times> pic_block" where
  "mx_leaf = mx_the (delegateCapability id id (mx_env ''E'' ''v2'' ''x2'') ''E'' (fst mx_root) ''F'' (mx_spec 1 [''disclose'']))"

definition mx_doc :: "did \<Rightarrow> string \<Rightarrow> pic_block \<Rightarrow> did_doc" where
  "mx_doc issuer ver pic = \<lparr>dd_versionId = Some ver, dd_controller = issuer, dd_pic = Some pic\<rparr>"

definition mx_archon :: archon where
  "mx_archon = \<lparr>resolveDID = (\<lambda>did ver. if did = ''v2'' then Some (mx_doc ''E'' ''x2'' (snd mx_leaf))
       else if did = ''v1'' then Some (mx_doc ''S'' ''x1'' (snd mx_root)) else None),
     verifyProof = (\<lambda>a. aa_proof a \<noteq> None)\<rparr>"

definition mx_disclosed :: disclosure where
  "mx_disclosed = disclosedFor \<lparr>cg_handle = fst mx_leaf, cg_ancestorDisclosures = discloseChain [fst mx_root]\<rparr>"

section \<open>The single-hop grant\<close>

definition mx_response :: response_result where
  "mx_response = \<lparr>rr_challenge = Some ''ch'', rr_match = True, rr_fulfilled = 1, rr_requested = 1,
     rr_responder = Some ''E'', rr_credentials = [Some ''vc''],
     rr_vps = [\<lparr>vp_issuer = ''S'', vp_subjectId = Some ''E'',
       vp_claims = \<lparr>cl_type = Some AUTHORIZATION_TYPE, cl_trustClass = None, cl_txn = None,
         cl_authority = Some \<lparr>ra_operations = Some [''disclose''], ra_resources = Some [''vault'']\<rparr>,
         cl_caveats = Some (mx_caveats 2), cl_get = (\<lambda>k. None)\<rparr>\<rparr>]\<rparr>"

definition mx_menv :: monitor_env where
  "mx_menv = \<lparr>me_verifyResponse = (\<lambda>p. Some mx_response), me_archon = mx_archon,
     me_verifyDischarge = (\<lambda>d. True), me_verifyHolderProof = (\<lambda>p. True), me_gunzip = (\<lambda>s. None),
     me_resolveStatus = (\<lambda>d. None), me_verifyStatusList = (\<lambda>l. False), me_parseDate = (\<lambda>s. None),
     me_now = 0\<rparr>"

definition mx_ctx :: "int option \<Rightarrow> challenge_store monitor_ctx" where
  "mx_ctx sens = \<lparr>mc_expectedRootIssuer = ''S'', mc_authorizationSchema = ''schema'', mc_sensitivity = sens,
     mc_requiresHumanAt = Some 1, mc_owner = None, mc_fromDid = None, mc_requireChallenge = None,
     mc_statusMaxAgeMs = None, mc_requireStatus = False\<rparr>"

definition mx_store :: challenge_store where
  "mx_store = [''ch'' \<mapsto> \<lparr>lv_purpose = Invocation, lv_exp = 100, lv_reusable = False\<rparr>]"

definition mx_act :: "string \<Rightarrow> invocation_act" where
  "mx_act txn = \<lparr>at_action = ''disclose'', at_target = ''vault/cards'', at_claim = Some ''was here'',
     at_kind = Some ''location'', at_reveal = None, at_nonce = ''n'', at_txn = txn\<rparr>"

definition mx_leaf_of :: "did \<Rightarrow> int \<Rightarrow> verified_leaf" where
  "mx_leaf_of i n = \<lparr>vl_id = i, vl_holder = ''E'', vl_authority = \<lparr>operations = [''disclose''], resources = [''vault'']\<rparr>,
     vl_caveats = mx_caveats n\<rparr>"

definition mx_consent :: "string \<Rightarrow> did \<Rightarrow> discharge" where
  "mx_consent txn i = \<lparr>di_by = ''S'', di_predicate = Some ''human-consent'', di_txn = txn,
     di_digest = Some (dischargeDigest id (act_subject (mx_ctx (Some 2)) (mx_act txn) (mx_leaf_of i 2) ''human-consent'')),
     di_proof = Some ''S#key-1''\<rparr>"

definition mx_msg :: "string \<Rightarrow> did \<Rightarrow> invocation" where
  "mx_msg txn i = \<lparr>in_presentation = Some ''p'', in_chain = None, in_act = mx_act txn,
     in_discharges = Some [mx_consent txn i]\<rparr>"

definition mx_chain_msg :: invocation where
  "mx_chain_msg = \<lparr>in_presentation = None,
     in_chain = Some \<lparr>cn_leafVcDid = ''v2'', cn_disclosed = mx_disclosed,
       cn_holderProof = Some \<lparr>hp_challenge = ''ch'', hp_leafVcDid = ''v2'', hp_txn = ''t1'',
         hp_proof = Some ''F#key-1''\<rparr>\<rparr>,
     in_act = mx_act ''t1'', in_discharges = None\<rparr>"

section \<open>Evaluations\<close>

lemma mx_chain_accepted:
  "verifyCapabilityChain id mx_archon (monitor_chain_options mx_menv (mx_ctx None) mx_disclosed) ''v2'' =
     Accepted 2 ''F'' (Some \<lparr>operations = [''disclose''], resources = [''vault'']\<rparr>) (Some (mx_caveats 1))"
  by code_simp

lemma mx_resolved:
  "fst (resolveInvocation mx_menv (daemon_ctx (mx_ctx None) (\<lambda>c g. gate Invocation 5 g c)) (mx_msg ''t1'' ''vc'') mx_store)
     = Resolved (mx_leaf_of ''vc'' 2)"
  by code_simp

lemma mx_chain_resolved:
  "fst (resolveChainInvocation id mx_menv (daemon_ctx (mx_ctx None) (\<lambda>c g. gate Invocation 5 g c)) mx_chain_msg mx_store)
     = Resolved \<lparr>vl_id = ''v2'', vl_holder = ''F'',
         vl_authority = \<lparr>operations = [''disclose''], resources = [''vault'']\<rparr>, vl_caveats = mx_caveats 1\<rparr>"
  by code_simp

lemma mx_allowed:
  "authorizeInvocation file_isSpent file_markSpent id mx_menv (mx_ctx (Some 2)) (mx_msg ''t1'' ''vc'') (mx_leaf_of ''vc'' 2) Missing
     = Some (Allow (Some ''S'') None (Some 2), Entries [''t1'', ''cap:vc''])"
  by code_simp

lemma mx_foreign_allowed:
  "authorizeInvocation file_isSpent file_markSpent id mx_menv (mx_ctx (Some 2)) (mx_msg ''cap:v9'' ''vc'') (mx_leaf_of ''vc'' 2) Missing
     = Some (Allow (Some ''S'') None (Some 2), Entries [''cap:v9'', ''cap:vc''])"
  by code_simp

lemma mx_victim_denied:
  "authorizeInvocation file_isSpent file_markSpent id mx_menv (mx_ctx (Some 2)) (mx_msg ''t2'' ''v9'') (mx_leaf_of ''v9'' 2)
     (Entries [''cap:v9'', ''cap:vc'']) = Some (Deny SingleUseSpent, Entries [''cap:v9'', ''cap:vc''])"
  by code_simp

lemma mx_discharge: "discharge_satisfies id mx_menv (mx_ctx (Some 2)) (mx_act ''t1'') (mx_leaf_of ''vc'' 2) ''S''
    ''human-consent'' (mx_consent ''t1'' ''vc'')"
  by code_simp

lemma mx_second_allowed:
  "authorizeInvocation file_isSpent file_markSpent id mx_menv (mx_ctx (Some 2)) (mx_msg ''t2'' ''vd'') (mx_leaf_of ''vd'' 2)
     (Entries [''t1'', ''cap:vc''])
     = Some (Allow (Some ''S'') None (Some 2), Entries [''t1'', ''cap:vc'', ''t2'', ''cap:vd''])"
  by code_simp

lemma mx_served:
  "file_ledger.serve_all id Missing
     [(mx_menv, mx_ctx (Some 2), mx_msg ''t1'' ''vc'', mx_leaf_of ''vc'' 2),
      (mx_menv, mx_ctx (Some 2), mx_msg ''t2'' ''vd'', mx_leaf_of ''vd'' 2)]
   = [Some (Allow (Some ''S'') None (Some 2)), Some (Allow (Some ''S'') None (Some 2))]"
  by (simp add: mx_allowed mx_second_allowed)

section \<open>Witnesses\<close>


lemma consent_not_transplantable_witness: "''S'' = ''S'' \<and> at_txn (mx_act ''t1'') = ''t1''"
  using consent_not_transplantable [OF mx_discharge mx_discharge] by (simp add: mx_act_def)

lemma no_replay_in_sequence_witness:
  "at_txn (in_act (mx_msg ''t1'' ''vc'')) \<noteq> at_txn (in_act (mx_msg ''t2'' ''vd''))"
proof -
  let ?reqs = "[(mx_menv, mx_ctx (Some 2), mx_msg ''t1'' ''vc'', mx_leaf_of ''vc'' 2),
      (mx_menv, mx_ctx (Some 2), mx_msg ''t2'' ''vd'', mx_leaf_of ''vd'' 2)]"
  have allowed: "file_ledger.allowed_at id Missing ?reqs 0" "file_ledger.allowed_at id Missing ?reqs 1"
    unfolding file_ledger.allowed_at_def mx_served by simp_all
  have pos: "(0::nat) < 1" "1 < length ?reqs" by simp_all
  have "?reqs ! 0 = (mx_menv, mx_ctx (Some 2), mx_msg ''t1'' ''vc'', mx_leaf_of ''vc'' 2)"
    "?reqs ! 1 = (mx_menv, mx_ctx (Some 2), mx_msg ''t2'' ''vd'', mx_leaf_of ''vd'' 2)" by simp_all
  from no_replay_in_sequence [OF pos allowed this] show ?thesis ..
qed

lemma sensitive_act_has_owner_consent_witness:
  "\<exists>consent \<in> set (opt_list (in_discharges (mx_msg ''t1'' ''vc''))). di_by consent = ''S''"
  using sensitive_act_has_owner_consent [OF mx_allowed, of 1 2]
  by (auto simp: mx_ctx_def policy_owner_def mx_leaf_of_def mx_caveats_def)

lemma overlapping_requests_both_allowed_witness:
  "\<exists>d1 d2 s'. overlapping id Missing (mx_menv, mx_ctx (Some 2), mx_msg ''t1'' ''vc'', mx_leaf_of ''vc'' 2)
     (mx_menv, mx_ctx (Some 2), mx_msg ''t1'' ''vc'', mx_leaf_of ''vc'' 2) = Some (d1, d2, s') \<and> allows d1 \<and> allows d2"
proof -
  have "permitted id mx_menv (mx_ctx (Some 2)) (mx_msg ''t1'' ''vc'') (mx_leaf_of ''vc'' 2)"
    unfolding permitted_iff by code_simp
  from overlapping_requests_both_allowed [of Missing "[]", OF _ _ this this] show ?thesis by simp
qed

lemma chosen_txn_burns_foreign_capability_witness: "\<not> allows (Deny SingleUseSpent)"
  using chosen_txn_burns_foreign_capability [OF mx_foreign_allowed, of "mx_leaf_of ''v9'' 2"] mx_victim_denied
  by (simp add: mx_msg_def mx_act_def mx_leaf_of_def is_single_use_def mx_caveats_def)

lemma resolved_leaf_granted_witness:
  "\<exists>cred \<in> set (disclosed_of mx_response). dc_issuer cred = ''S'' \<and> dc_subject cred = ''E''"
proof -
  let ?ctx = "daemon_ctx (mx_ctx None) (\<lambda>c g. gate Invocation 5 g c)"
  obtain g' where "resolveInvocation mx_menv ?ctx (mx_msg ''t1'' ''vc'') mx_store = (Resolved (mx_leaf_of ''vc'' 2), g')"
    using mx_resolved by (metis prod.collapse)
  from resolved_leaf_granted [OF this] show ?thesis
    by (auto simp: mx_menv_def daemon_ctx_def mx_ctx_def mx_leaf_of_def)
qed


lemma presentation_not_replayable_witness:
  "\<exists>s'. \<forall>leaf' s''. resolve_leaf id mx_menv (daemon_ctx (mx_ctx None) (\<lambda>c g. gate Invocation 6 g c))
     (mx_msg ''t2'' ''vc'') (invocation_gate.asked s' []) \<noteq> (Resolved leaf', s'')"
proof -
  let ?ctx = "daemon_ctx (mx_ctx None) (\<lambda>c g. gate Invocation 5 g c)"
  obtain s' where "resolveInvocation mx_menv ?ctx (mx_msg ''t1'' ''vc'') mx_store = (Resolved (mx_leaf_of ''vc'' 2), s')"
    using mx_resolved by (metis prod.collapse)
  then have r: "resolve_leaf id mx_menv ?ctx (mx_msg ''t1'' ''vc'') mx_store = (Resolved (mx_leaf_of ''vc'' 2), s')"
    by (simp add: resolve_leaf_def mx_msg_def)
  have ok: "burns_invocations mx_store" by (simp add: burns_invocations_def mx_store_def)
  have "answered_challenge mx_menv (mx_msg ''t2'' ''vc'') = answered_challenge mx_menv (mx_msg ''t1'' ''vc'')"
    by (simp add: answered_challenge_def mx_msg_def)
  from presentation_not_replayable [OF ok r this] show ?thesis by blast
qed

end
