(* ===== verification/Evidence_Graph.thy ===== *)
theory Evidence_Graph
  imports Merkle Capability_Chain "HOL-Library.Multiset"
begin

text \<open>
  Evidence assembly and selective disclosure: \<open>packages/core/src/evidence.ts\<close> without the minting of
  the credential, which Keymaster performs on the claims built here. \<open>coll\<close> gives the collation keys
  by which \<open>localeCompare\<close> orders texts; random salts are the argument \<open>random\<close>, by position.

  The lemmas show what an assembled group says about the artefacts it was built from, and that
  exactly its leaves can be revealed against its root.
\<close>

section \<open>Data\<close>

record artefact_meta =
  am_id :: string
  am_kind :: string
  am_observedAt :: string
  am_sensitivity :: int
  am_witnessedBy :: "string option"

record claim_spec =
  es_kind :: string
  es_from :: "string option"
  es_to :: "string option"

record leaf_data =
  ld_index :: nat
  ld_kind :: string
  ld_observedAt :: string
  ld_salt :: string
  ld_hash :: string

record revealed_leaf =
  rl_index :: nat
  rl_kind :: string
  rl_observedAt :: string
  rl_salt :: string
  rl_path :: "merkle_step list"

datatype disclosure_kind = Summary | Selective

record evidence_group =
  eg_id :: string
  eg_kind :: string
  eg_observedFrom :: string
  eg_observedTo :: string
  eg_count :: nat
  eg_witnessedBy :: "string list"
  eg_merkleRoot :: string
  eg_disclosure :: disclosure_kind
  eg_revealed :: "revealed_leaf list option"

record assembled_evidence =
  ae_group :: evidence_group
  ae_sensitivity :: int
  ae_artefactIds :: "string list"
  ae_leaves :: "leaf_data list"

section \<open>Leaves\<close>

definition leaf_json :: "string \<Rightarrow> string \<Rightarrow> json" where
  "leaf_json kind observedAt = JObj [(''kind'', JStr kind), (''observedAt'', JStr observedAt)]"

text \<open>\<open>JSON.stringify\<close> of an object whose keys are already in order is its canonical text.\<close>

definition leaf_text :: "string \<Rightarrow> string \<Rightarrow> string \<Rightarrow> string" where
  "leaf_text salt kind observedAt = salt @ ''|'' @ the (canonicalize (leaf_json kind observedAt))"

definition leafDigest :: "hash \<Rightarrow> string \<Rightarrow> string \<Rightarrow> string \<Rightarrow> string" where
  "leafDigest H salt kind observedAt = H (leaf_text salt kind observedAt)"

text \<open>The loop over the requested indices, with the set of those already seen.\<close>

fun reveal_loop ::
    "string list list \<Rightarrow> leaf_data list \<Rightarrow> int list \<Rightarrow> int set \<Rightarrow> revealed_leaf list" where
  "reveal_loop layers leaves [] seen = []"
| "reveal_loop layers leaves (i # is) seen =
     (if i < 0 \<or> i \<ge> int (length leaves) \<or> i \<in> seen then reveal_loop layers leaves is seen
      else let l = leaves ! nat i
        in \<lparr>rl_index = nat i, rl_kind = ld_kind l, rl_observedAt = ld_observedAt l, rl_salt = ld_salt l,
            rl_path = merklePath layers (nat i)\<rparr> # reveal_loop layers leaves is (insert i seen))"

definition revealLeaves :: "hash \<Rightarrow> assembled_evidence \<Rightarrow> int list \<Rightarrow> revealed_leaf list" where
  "revealLeaves H assembled indices =
     reveal_loop (snd (buildMerkle H (map ld_hash (ae_leaves assembled)))) (ae_leaves assembled) indices {}"

definition verifyRevealedLeaf :: "hash \<Rightarrow> revealed_leaf \<Rightarrow> string \<Rightarrow> bool" where
  "verifyRevealedLeaf H r root =
     verifyMerklePath H (leafDigest H (rl_salt r) (rl_kind r) (rl_observedAt r)) (rl_path r) root"

section \<open>Selection and assembly\<close>

definition matches :: "claim_spec \<Rightarrow> artefact_meta \<Rightarrow> bool" where
  "matches spec m =
     (if am_kind m \<noteq> es_kind spec then False
      else if truthy_string (es_from spec) \<and> am_observedAt m < the (es_from spec) then False
      else if truthy_string (es_to spec) \<and> the (es_to spec) < am_observedAt m then False
      else True)"

definition selectArtefacts :: "artefact_meta list \<Rightarrow> claim_spec \<Rightarrow> artefact_meta list" where
  "selectArtefacts metas spec = filter (matches spec) metas"

definition leaf_salt :: "hash \<Rightarrow> (nat \<Rightarrow> string) \<Rightarrow> string option \<Rightarrow> nat \<Rightarrow> artefact_meta \<Rightarrow> string" where
  "leaf_salt H random saltSeed i m =
     (if truthy_string saltSeed
      then take 32 (H (the saltSeed @ ''|'' @ am_id m @ ''|'' @ nat_str i))
      else random i)"

definition leaf_of :: "hash \<Rightarrow> (nat \<Rightarrow> string) \<Rightarrow> string option \<Rightarrow> nat \<Rightarrow> artefact_meta \<Rightarrow> leaf_data" where
  "leaf_of H random saltSeed i m =
     (let salt = leaf_salt H random saltSeed i m
      in \<lparr>ld_index = i, ld_kind = am_kind m, ld_observedAt = am_observedAt m, ld_salt = salt,
          ld_hash = leafDigest H salt (am_kind m) (am_observedAt m)\<rparr>)"

definition witnesses :: "artefact_meta list \<Rightarrow> string list" where
  "witnesses ms = js_set (map the (filter truthy_string (map am_witnessedBy ms)))"

definition assembleEvidence ::
    "hash \<Rightarrow> (string \<Rightarrow> string) \<Rightarrow> (nat \<Rightarrow> string) \<Rightarrow> artefact_meta list \<Rightarrow> claim_spec \<Rightarrow> string option \<Rightarrow>
     assembled_evidence option" where
  "assembleEvidence H coll random metas spec saltSeed =
     (let selected = sort_key (\<lambda>m. coll (am_observedAt m)) (selectArtefacts metas spec)
      in if selected = [] then None
         else let leaves = map (\<lambda>(i, m). leaf_of H random saltSeed i m) (enumerate 0 selected);
                  root = fst (buildMerkle H (map ld_hash leaves))
           in Some \<lparr>ae_group =
                 \<lparr>eg_id = ''urn:hearthold:ev:'' @ es_kind spec, eg_kind = es_kind spec,
                  eg_observedFrom = am_observedAt (hd selected), eg_observedTo = am_observedAt (last selected),
                  eg_count = length selected, eg_witnessedBy = witnesses selected, eg_merkleRoot = root,
                  eg_disclosure = Summary, eg_revealed = None\<rparr>,
               ae_sensitivity = foldl (\<lambda>mx m. max mx (am_sensitivity m)) 0 selected,
               ae_artefactIds = map am_id selected, ae_leaves = leaves\<rparr>)"

section \<open>The claims of the minted graph\<close>

datatype graph_trust = Graph_witnessed | Graph_composite

record evidence_claims =
  ec_subject :: did
  ec_claim :: string
  ec_evidence :: "evidence_group list"
  ec_issued :: "string list"
  ec_trustClass :: graph_trust
  ec_txn :: string
  ec_validUntil :: "string option"

text \<open>What is handed to Keymaster's \<open>bindCredential\<close>; an issued leaf is represented by its credential DID.\<close>

definition evidence_graph_claims ::
    "did \<Rightarrow> string \<Rightarrow> evidence_group list \<Rightarrow> string list option \<Rightarrow> string \<Rightarrow> string option \<Rightarrow> evidence_claims" where
  "evidence_graph_claims subject claim evidence issuedLeaves txn validUntil =
     (let issued = opt_list issuedLeaves
      in \<lparr>ec_subject = subject, ec_claim = claim, ec_evidence = evidence, ec_issued = issued,
          ec_trustClass = (if length issued > 0 then Graph_composite else Graph_witnessed),
          ec_txn = txn, ec_validUntil = validUntil\<rparr>)"

section \<open>The Sovereign's approval\<close>

record human_proof =
  hu_method :: string
  hu_level :: int
  hu_timestamp :: string

record signed_approval =
  sa_approver :: did
  sa_txn :: string
  sa_claim :: string
  sa_evidenceRoot :: string
  sa_humanProof :: "human_proof option"
  sa_proof :: "string option"

datatype approval_check =
    Approved did string human_proof
  | NotSigned | NotSovereign | BadSignature | ApproverMismatch | ClaimMismatch | RootMismatch | LevelTooLow int int

definition verifyEvidenceApproval ::
    "(signed_approval \<Rightarrow> bool) \<Rightarrow> signed_approval option \<Rightarrow> did \<Rightarrow> string \<Rightarrow> string \<Rightarrow> int \<Rightarrow> approval_check" where
  "verifyEvidenceApproval verify signed approver claim evidenceRoot requiredLevel =
     (case signed of
        None \<Rightarrow> NotSigned
      | Some s \<Rightarrow>
          (case sa_proof s of
             None \<Rightarrow> NotSigned
           | Some method \<Rightarrow>
               if before_hash method \<noteq> approver then NotSovereign
               else if \<not> verify s then BadSignature
               else if sa_approver s \<noteq> approver then ApproverMismatch
               else if sa_claim s \<noteq> claim then ClaimMismatch
               else if sa_evidenceRoot s \<noteq> evidenceRoot then RootMismatch
               else (case sa_humanProof s of
                   None \<Rightarrow> LevelTooLow 0 requiredLevel
                 | Some hp \<Rightarrow>
                     if hu_level hp < requiredLevel then LevelTooLow (hu_level hp) requiredLevel
                     else Approved (before_hash method) (sa_txn s) hp)))"

section \<open>What an assembled group says\<close>

lemma leaf_json_text: "\<exists>t. canonicalize (leaf_json k t') = Some t"
  using canonicalize_None_iff [of "leaf_json k t'"]
  by (cases "canonicalize (leaf_json k t')") (auto simp: leaf_json_def)

lemma leaf_text_inj:
  assumes "leaf_text s k t = leaf_text s' k' t'" "CHR ''|'' \<notin> set s" "CHR ''|'' \<notin> set s'"
  shows "s = s' \<and> k = k' \<and> t = t'"
proof -
  obtain u where u: "canonicalize (leaf_json k t) = Some u" using leaf_json_text by blast
  obtain u' where u': "canonicalize (leaf_json k' t') = Some u'" using leaf_json_text by blast
  from assms(1) u u' have eq: "s @ CHR ''|'' # u = s' @ CHR ''|'' # u'" by (simp add: leaf_text_def)
  have "s = s'"
  proof -
    have "takeWhile (\<lambda>c. c \<noteq> CHR ''|'') (s @ CHR ''|'' # u) = s"
      using assms(2) by (induction s) auto
    moreover have "takeWhile (\<lambda>c. c \<noteq> CHR ''|'') (s' @ CHR ''|'' # u') = s'"
      using assms(3) by (induction s') auto
    ultimately show ?thesis using eq by metis
  qed
  with eq have "u = u'" by simp
  with u u' have "sort_fields (leaf_json k t) = sort_fields (leaf_json k' t')"
    by (intro canonicalize_inj) (auto simp: leaf_json_def)
  with \<open>s = s'\<close> show ?thesis by (simp add: leaf_json_def)
qed

lemma foldl_max_ge: "(a :: int) \<le> foldl (\<lambda>mx m. max mx (f m)) a ms"
  by (induction ms arbitrary: a) (simp, metis foldl_Cons max.bounded_iff)

lemma foldl_max_in: "m \<in> set ms \<Longrightarrow> (f m :: int) \<le> foldl (\<lambda>mx m. max mx (f m)) a ms"
proof (induction ms arbitrary: a)
  case (Cons x ms)
  show ?case
  proof (cases "m = x")
    case True
    then show ?thesis using foldl_max_ge [of "max a (f x)" f ms] by simp
  next
    case False
    with Cons show ?thesis by simp
  qed
qed simp

lemma foldl_max_attained: "foldl (\<lambda>mx m. max mx (f m)) (a :: int) ms = a \<or> (\<exists>m \<in> set ms. foldl (\<lambda>mx m. max mx (f m)) a ms = f m)"
proof (induction ms arbitrary: a)
  case (Cons x ms)
  from Cons [of "max a (f x)"] show ?case by (auto simp: max_def split: if_splits)
qed simp

lemma assembleEvidence_Some:
  assumes "assembleEvidence H coll random metas spec seed = Some ae"
  defines "selected \<equiv> sort_key (\<lambda>m. coll (am_observedAt m)) (selectArtefacts metas spec)"
  shows "selected \<noteq> []" "set selected = {m \<in> set metas. matches spec m}"
    and "ae_leaves ae = map (\<lambda>(i, m). leaf_of H random seed i m) (enumerate 0 selected)"
    and "eg_merkleRoot (ae_group ae) = fst (buildMerkle H (map ld_hash (ae_leaves ae)))"
    and "ae_sensitivity ae = foldl (\<lambda>mx m. max mx (am_sensitivity m)) 0 selected"
    and "ae_artefactIds ae = map am_id selected"
    and "eg_count (ae_group ae) = length selected"
    and "eg_observedFrom (ae_group ae) = am_observedAt (hd selected)"
    and "eg_observedTo (ae_group ae) = am_observedAt (last selected)"
    and "eg_witnessedBy (ae_group ae) = witnesses selected"
    and "eg_revealed (ae_group ae) = None"
  using assms(1) unfolding selected_def
  by (auto simp: assembleEvidence_def Let_def selectArtefacts_def split: if_splits)

lemma leaf_hash: "ld_hash (leaf_of H random seed i m) =
    leafDigest H (ld_salt (leaf_of H random seed i m)) (am_kind m) (am_observedAt m)"
  by (simp add: leaf_of_def Let_def)


lemma sorted_ends:
  assumes "sorted (map f xs)" "xs \<noteq> []"
  shows "f (hd xs) = Min (f ` set xs)" "f (last xs) = Max (f ` set xs)"
proof -
  have "f (hd xs) \<le> f x" if "x \<in> set xs" for x
    using assms that by (cases xs) auto
  then show "f (hd xs) = Min (f ` set xs)" using assms(2) by (intro Min_eqI [symmetric]) auto
  have "f x \<le> f (last xs)" if "x \<in> set xs" for x
    using assms(1) that by (induction xs) (auto simp: last_in_set)
  then show "f (last xs) = Max (f ` set xs)" using assms(2) by (intro Max_eqI [symmetric]) auto
qed

lemma foldl_max_Max: "foldl (\<lambda>mx m. max mx (f m)) (a :: int) ms = Max (insert a (f ` set ms))"
proof (rule Max_eqI [symmetric])
  show "foldl (\<lambda>mx m. max mx (f m)) a ms \<in> insert a (f ` set ms)"
    using foldl_max_attained [of f a ms] by auto
qed (use foldl_max_ge foldl_max_in in auto)

text \<open>
  An assembled group describes exactly the matching artefacts: assembly refuses only when no
  artefact has the claim's kind and lies in its window; otherwise the group counts the matching
  artefacts and lists their identifiers, its window runs from the earliest to the latest of them, its
  sensitivity is the highest of them, so no selected artefact is above what the release decision sees,
  and its witnesses are theirs, each once; nothing is revealed.
\<close>

theorem assembled_group_faithful:
  "case assembleEvidence H coll random metas spec seed of
     None \<Rightarrow> {m \<in> set metas. matches spec m} = {}
   | Some ae \<Rightarrow>
       {m \<in> set metas. matches spec m} \<noteq> {} \<and>
       mset (ae_artefactIds ae) = mset (map am_id (filter (matches spec) metas)) \<and>
       eg_count (ae_group ae) = length (filter (matches spec) metas) \<and>
       coll (eg_observedFrom (ae_group ae)) = Min ((coll \<circ> am_observedAt) ` {m \<in> set metas. matches spec m}) \<and>
       coll (eg_observedTo (ae_group ae)) = Max ((coll \<circ> am_observedAt) ` {m \<in> set metas. matches spec m}) \<and>
       ae_sensitivity ae = Max (insert 0 (am_sensitivity ` {m \<in> set metas. matches spec m})) \<and>
       set (eg_witnessedBy (ae_group ae)) =
         {w. w \<noteq> [] \<and> Some w \<in> am_witnessedBy ` {m \<in> set metas. matches spec m}} \<and>
       distinct (eg_witnessedBy (ae_group ae)) \<and> eg_revealed (ae_group ae) = None"
proof (cases "assembleEvidence H coll random metas spec seed")
  case None
  then have "filter (matches spec) metas = []"
    by (auto simp: assembleEvidence_def Let_def selectArtefacts_def split: if_splits)
  with None show ?thesis by (auto simp: filter_empty_conv)
next
  case (Some ae)
  let ?f = "\<lambda>m. coll (am_observedAt m)" and ?M = "{m \<in> set metas. matches spec m}"
  let ?sel = "sort_key ?f (selectArtefacts metas spec)"
  note facts = assembleEvidence_Some [OF Some]
  have M: "set ?sel = ?M" by (rule facts(2))
  have len: "length ?sel = length (filter (matches spec) metas)" by (simp add: selectArtefacts_def)
  have "mset (map am_id ?sel) = mset (map am_id (filter (matches spec) metas))"
    by (simp only: selectArtefacts_def mset_map mset_sort)
  moreover have "coll (eg_observedFrom (ae_group ae)) = Min ((coll \<circ> am_observedAt) ` ?M)"
    "coll (eg_observedTo (ae_group ae)) = Max ((coll \<circ> am_observedAt) ` ?M)"
    using sorted_ends [of ?f ?sel] facts(1,8,9) M by (simp_all add: comp_def)
  moreover have "ae_sensitivity ae = Max (insert 0 (am_sensitivity ` ?M))"
    unfolding facts(5) foldl_max_Max M by simp
  moreover have "set (eg_witnessedBy (ae_group ae)) = {w. w \<noteq> [] \<and> Some w \<in> am_witnessedBy ` ?M}"
    unfolding facts(10) witnesses_def using M
    by (auto simp: truthy_string_iff image_iff) (metis list.distinct(1) neq_Nil_conv option.sel)+
  moreover have "distinct (eg_witnessedBy (ae_group ae))" unfolding facts(10) witnesses_def by simp
  moreover have "?M \<noteq> {}" using facts(1) M by (metis set_empty)
  ultimately show ?thesis using Some facts(6,7,11) len by simp
qed

section \<open>Selective disclosure\<close>

lemma reveal_loop_facts:
  "r \<in> set (reveal_loop layers leaves is seen) \<Longrightarrow>
     rl_index r < length leaves \<and> int (rl_index r) \<in> set is \<and> int (rl_index r) \<notin> seen \<and>
     r = \<lparr>rl_index = rl_index r, rl_kind = ld_kind (leaves ! rl_index r),
       rl_observedAt = ld_observedAt (leaves ! rl_index r), rl_salt = ld_salt (leaves ! rl_index r),
       rl_path = merklePath layers (rl_index r)\<rparr>"
  by (induction layers leaves "is" seen rule: reveal_loop.induct) (auto simp: Let_def split: if_splits)

lemma reveal_loop_indices:
  "set (map rl_index (reveal_loop layers leaves is seen)) =
     {n. n < length leaves \<and> int n \<in> set is \<and> int n \<notin> seen} \<and>
   distinct (map rl_index (reveal_loop layers leaves is seen))"
proof (induction layers leaves "is" seen rule: reveal_loop.induct)
  case (2 layers leaves i "is" seen)
  show ?case
  proof (cases "i < 0 \<or> i \<ge> int (length leaves) \<or> i \<in> seen")
    case True
    with 2(1) [OF True] show ?thesis by (auto simp: Let_def)
  next
    case False
    note IH = 2(2) [OF False refl]
    have "nat i \<notin> set (map rl_index (reveal_loop layers leaves is (insert i seen)))"
      using IH False by auto
    with IH False show ?thesis by (auto simp: Let_def)
  qed
qed simp

lemma root_nonempty:
  assumes "sha256_hex H" "assembleEvidence H coll random metas spec seed = Some ae"
  shows "eg_merkleRoot (ae_group ae) \<noteq> []" "map ld_hash (ae_leaves ae) \<noteq> []"
    "\<forall>l \<in> set (map ld_hash (ae_leaves ae)). length l = 64"
proof -
  note facts = assembleEvidence_Some [OF assms(2)]
  let ?ls = "map ld_hash (ae_leaves ae)"
  show ne: "?ls \<noteq> []" using facts(1,3) by (simp add: enumerate_eq_zip)
  show len: "\<forall>l \<in> set ?ls. length l = 64"
    using assms(1) unfolding facts(3) by (auto simp: leaf_of_def leafDigest_def sha256_hex_def Let_def)
  obtain v where "last (merkle_layers H ?ls) = [v]"
    using length_last_layer [OF ne, of H] by (auto simp: length_Suc_conv)
  moreover have "last (merkle_layers H ?ls) = merkle_layers H ?ls ! (length (merkle_layers H ?ls) - 1)"
    by (simp add: last_conv_nth)
  ultimately have "length v = 64"
    using layer_length_64 [OF assms(1) len, of "length (merkle_layers H ?ls) - 1" v] by simp
  with ne \<open>last _ = [v]\<close> show "eg_merkleRoot (ae_group ae) \<noteq> []"
    unfolding facts(4) by (auto simp: buildMerkle_def Let_def)
qed

text \<open>
  Every requested leaf can be shown and verifies: from an assembled group, \<open>revealLeaves\<close> reveals
  exactly the requested indices that exist, each once, with the kind, time and salt of that leaf, and
  every revealed leaf verifies against the signed root of the group.
\<close>

theorem revealed_leaves_verify:
  assumes "sha256_hex H" "assembleEvidence H coll random metas spec seed = Some ae"
  shows "set (map rl_index (revealLeaves H ae indices)) = {n. n < eg_count (ae_group ae) \<and> int n \<in> set indices} \<and>
    distinct (map rl_index (revealLeaves H ae indices)) \<and>
    (\<forall>r \<in> set (revealLeaves H ae indices). verifyRevealedLeaf H r (eg_merkleRoot (ae_group ae)) \<and>
       rl_kind r = ld_kind (ae_leaves ae ! rl_index r) \<and>
       rl_observedAt r = ld_observedAt (ae_leaves ae ! rl_index r) \<and> rl_kind r = es_kind spec)"
proof (intro conjI ballI)
  note facts = assembleEvidence_Some [OF assms(2)]
  let ?ls = "map ld_hash (ae_leaves ae)"
  have count: "length (ae_leaves ae) = eg_count (ae_group ae)" by (simp add: facts(3,7) enumerate_eq_zip)
  show "set (map rl_index (revealLeaves H ae indices)) = {n. n < eg_count (ae_group ae) \<and> int n \<in> set indices}"
    "distinct (map rl_index (revealLeaves H ae indices))"
    unfolding revealLeaves_def using reveal_loop_indices count by simp_all
  fix r assume r: "r \<in> set (revealLeaves H ae indices)"
  let ?i = "rl_index r"
  have i: "?i < length (ae_leaves ae)" and req: "r = \<lparr>rl_index = ?i, rl_kind = ld_kind (ae_leaves ae ! ?i),
       rl_observedAt = ld_observedAt (ae_leaves ae ! ?i), rl_salt = ld_salt (ae_leaves ae ! ?i),
       rl_path = merklePath (snd (buildMerkle H ?ls)) ?i\<rparr>"
    using reveal_loop_facts [OF r [unfolded revealLeaves_def]] by blast+
  from req have fields: "rl_kind r = ld_kind (ae_leaves ae ! ?i)"
    "rl_observedAt r = ld_observedAt (ae_leaves ae ! ?i)" "rl_salt r = ld_salt (ae_leaves ae ! ?i)"
    by (metis revealed_leaf.select_convs)+
  then show "rl_kind r = ld_kind (ae_leaves ae ! ?i)" "rl_observedAt r = ld_observedAt (ae_leaves ae ! ?i)"
    by blast+
  define selected where "selected = sort_key (\<lambda>m. coll (am_observedAt m)) (selectArtefacts metas spec)"
  have len: "length (ae_leaves ae) = length selected" by (simp add: facts(3) enumerate_eq_zip selected_def)
  have leaf: "ae_leaves ae ! ?i = leaf_of H random seed ?i (selected ! ?i)"
    using i len unfolding facts(3) selected_def [symmetric] by (simp add: nth_enumerate_eq)
  have "selected ! ?i \<in> set selected" using i len by simp
  then have "matches spec (selected ! ?i)" using facts(2) by (simp add: selected_def)
  then have "am_kind (selected ! ?i) = es_kind spec" by (simp add: matches_def split: if_splits)
  with fields leaf show "rl_kind r = es_kind spec" by (simp add: leaf_of_def Let_def)
  have "?ls ! ?i = leafDigest H (rl_salt r) (rl_kind r) (rl_observedAt r)"
    using i by (simp add: fields leaf leaf_of_def Let_def)
  moreover have "hd (last (merkle_layers H ?ls)) \<noteq> []"
    using root_nonempty [OF assms] unfolding facts(4) by (simp add: buildMerkle_def Let_def)
  with verify_merklePath [of ?i ?ls H] i
  have "verifyMerklePath H (?ls ! ?i) (merklePath (snd (buildMerkle H ?ls)) ?i) (fst (buildMerkle H ?ls))" by simp
  moreover have "rl_path r = merklePath (snd (buildMerkle H ?ls)) ?i" by (subst req) simp
  ultimately show "verifyRevealedLeaf H r (eg_merkleRoot (ae_group ae))"
    by (simp add: verifyRevealedLeaf_def facts(4))
qed

lemma leaf_text_last: "last (leaf_text salt k t) = CHR ''}''" "leaf_text salt k t \<noteq> []"
proof -
  obtain u where u: "canonicalize (leaf_json k t) = Some u" using leaf_json_text by blast
  then obtain v where "u = v @ ''}''"
    unfolding leaf_json_def canonicalize_obj by (auto split: if_splits)
  with u show "last (leaf_text salt k t) = CHR ''}''" "leaf_text salt k t \<noteq> []"
    by (simp_all add: leaf_text_def)
qed

text \<open>A text hashed while climbing has a hash on one side; a leaf's text has neither at its ends.\<close>

lemma climb_texts_form:
  "sha256_hex H \<Longrightarrow> length h = 64 \<Longrightarrow> set h \<subseteq> hex_chars \<Longrightarrow> x \<in> set (climb_texts H h path) \<Longrightarrow>
    \<exists>g s. length g = 64 \<and> set g \<subseteq> hex_chars \<and> x = step_text g s"
proof (induction H h path rule: climb_texts.induct)
  case (2 H h s path)
  then show ?case by (cases "x = step_text h s") (auto simp: sha256_hex_def)
qed simp

lemma leaf_text_not_step:
  assumes "length g = 64" "set g \<subseteq> hex_chars" "length salt < 64"
  shows "leaf_text salt k t \<noteq> step_text g s"
proof
  assume eq: "leaf_text salt k t = step_text g s"
  have bar: "CHR ''|'' \<notin> hex_chars" "CHR ''}'' \<notin> hex_chars" by (simp_all add: hex_chars_def)
  show False
  proof (cases "st_position s")
    case LeftSide
    have "g \<noteq> []" using assms(1) by auto
    then have "last g = CHR ''}''"
      using leaf_text_last [of salt k t] unfolding eq by (simp add: step_text_def LeftSide)
    moreover have "last g \<in> set g" using assms(1) by (intro last_in_set) auto
    ultimately show False using bar(2) assms(2) by auto
  next
    case RightSide
    have "leaf_text salt k t ! length salt = CHR ''|''" by (simp add: leaf_text_def nth_append)
    then have "g ! length salt = CHR ''|''"
      unfolding eq using assms(1,3) by (simp add: step_text_def RightSide nth_append)
    then have "CHR ''|'' \<in> set g" using assms(1,3) by (metis nth_mem)
    with bar(1) assms(2) show False by auto
  qed
qed

lemma node_texts_hex:
  assumes "sha256_hex H" "\<forall>l \<in> set leaves. set l \<subseteq> hex_chars" "t \<in> node_texts H leaves"
  shows "set t \<subseteq> hex_chars"
proof -
  from assms(3) obtain k where k: "k < length (merkle_layers H leaves)" "t \<in> set (pair_up (merkle_layers H leaves ! k))"
    by (auto simp: node_texts_def)
  have "set v \<subseteq> hex_chars" if "v \<in> set (merkle_layers H leaves ! k)" for v
    using that assms(1,2) k(1) layer_Suc [of "k - 1" H leaves]
    by (cases k) (auto simp: sha256_hex_def)
  moreover from pair_up_in [OF k(2)] obtain a b where
    "a \<in> set (merkle_layers H leaves ! k)" "b \<in> set (merkle_layers H leaves ! k)" "t = a @ b" by blast
  ultimately show ?thesis by simp
qed

lemma climbed_text_collides:
  assumes "sha256_hex H" "length d = 64" "set d \<subseteq> hex_chars" "x \<in> set (climb_texts H d path)" "H x = H (leaf_text salt k t)" "length salt < 64"
  shows "collision H x (leaf_text salt k t)"
proof -
  obtain g s where "length g = 64" "set g \<subseteq> hex_chars" "x = step_text g s" using climb_texts_form [OF assms(1-4)] by blast
  with leaf_text_not_step [of g salt k t s] assms(5,6) show ?thesis by (auto simp: collision_def)
qed

lemma inner_level_collides:
  assumes "sha256_hex H" "\<forall>l \<in> set leaves. set l \<subseteq> hex_chars" "Suc j < length (merkle_layers H leaves)"
    and "H (leaf_text salt k t) \<in> set (merkle_layers H leaves ! Suc j)"
  shows "\<exists>y \<in> node_texts H leaves. collision H (leaf_text salt k t) y"
proof -
  obtain y where y: "y \<in> set (pair_up (merkle_layers H leaves ! j))" "H (leaf_text salt k t) = H y"
    using assms(3,4) layer_Suc [of j H leaves] by auto
  have node: "y \<in> node_texts H leaves" using y(1) assms(3) by (auto simp: node_texts_def)
  have "CHR ''|'' \<in> set (leaf_text salt k t)" by (simp add: leaf_text_def)
  moreover have "CHR ''|'' \<notin> set y" using node_texts_hex [OF assms(1,2) node] by (auto simp: hex_chars_def)
  ultimately have "leaf_text salt k t \<noteq> y" by auto
  with y(2) node show ?thesis by (auto simp: collision_def)
qed

text \<open>
  C31. Nothing that was not committed can be shown: if a revealed leaf verifies against the root of an
  assembled group along any path, of any length and with any sibling hashes, then its salted text is
  the text of one of the group's leaves, so that, if its salt has no separator, its kind and time are
  those of a committed observation; or a text hashed by the verification and a different text hashed
  by the construction have the same hash. Salts are 32 characters without the separator.
\<close>

theorem only_committed_leaves_verify:
  assumes H: "sha256_hex H" and ae: "assembleEvidence H coll random metas spec seed = Some ae"
    and salts: "\<forall>l \<in> set (ae_leaves ae). length (ld_salt l) = 32 \<and> CHR ''|'' \<notin> set (ld_salt l)"
    and ok: "verifyRevealedLeaf H r (eg_merkleRoot (ae_group ae))"
  shows "(\<exists>l \<in> set (ae_leaves ae).
       leaf_text (rl_salt r) (rl_kind r) (rl_observedAt r) = leaf_text (ld_salt l) (ld_kind l) (ld_observedAt l) \<and>
       (CHR ''|'' \<in> set (rl_salt r) \<or>
        rl_salt r = ld_salt l \<and> rl_kind r = ld_kind l \<and> rl_observedAt r = ld_observedAt l)) \<or>
    (\<exists>x \<in> insert (leaf_text (rl_salt r) (rl_kind r) (rl_observedAt r))
          (set (climb_texts H (leafDigest H (rl_salt r) (rl_kind r) (rl_observedAt r)) (rl_path r))).
       \<exists>y \<in> node_texts H (map ld_hash (ae_leaves ae)) \<union>
            (\<lambda>l. leaf_text (ld_salt l) (ld_kind l) (ld_observedAt l)) ` set (ae_leaves ae).
       collision H x y)"
    (is "?committed \<or> ?coll")
proof -
  note facts = assembleEvidence_Some [OF ae]
  let ?ls = "map ld_hash (ae_leaves ae)" and ?x = "leaf_text (rl_salt r) (rl_kind r) (rl_observedAt r)"
  let ?d = "leafDigest H (rl_salt r) (rl_kind r) (rl_observedAt r)"
  let ?layers = "merkle_layers H ?ls"
  have hash: "ld_hash l = H (leaf_text (ld_salt l) (ld_kind l) (ld_observedAt l))" if "l \<in> set (ae_leaves ae)" for l
    using that unfolding facts(3) by (auto simp: leaf_of_def Let_def leafDigest_def)
  have hexes: "\<forall>l \<in> set ?ls. set l \<subseteq> hex_chars" using hash H by (auto simp: sha256_hex_def)
  have d: "length ?d = 64" "set ?d \<subseteq> hex_chars" using H by (auto simp: leafDigest_def sha256_hex_def)
  note ne = root_nonempty [OF H ae]
  obtain v where v: "last ?layers = [v]" using length_last_layer [OF ne(2), of H] by (auto simp: length_Suc_conv)
  let ?k = "length ?layers - 1"
  have k: "?k < length ?layers" "?layers ! ?k = [v]" using v by (simp_all add: last_conv_nth)
  have "climb H ?d (rl_path r) = eg_merkleRoot (ae_group ae)"
    using ok by (simp add: verifyRevealedLeaf_def verifyMerklePath_def split: if_splits)
  then have "climb H ?d (rl_path r) \<in> set (?layers ! ?k)"
    using k(2) v ne(2) unfolding facts(4) by (simp add: buildMerkle_def Let_def)
  from climb_down [OF H ne(3) d(1) k(1) this]
  show ?thesis
  proof (elim disjE)
    assume "\<exists>x \<in> set (climb_texts H ?d (rl_path r)). \<exists>y \<in> node_texts H ?ls. collision H x y"
    then show ?thesis by blast
  next
    assume "\<exists>x \<in> set (climb_texts H ?d (rl_path r)). H x \<in> set ?ls"
    then obtain x l where x: "x \<in> set (climb_texts H ?d (rl_path r))" "l \<in> set (ae_leaves ae)" "H x = ld_hash l" by auto
    have "collision H x (leaf_text (ld_salt l) (ld_kind l) (ld_observedAt l))"
      using climbed_text_collides [OF H d x(1)] x(2,3) hash [OF x(2)] salts by auto
    with x show ?thesis by blast
  next
    assume below: "length (rl_path r) \<le> ?k \<and> ?d \<in> set (?layers ! (?k - length (rl_path r)))"
    show ?thesis
    proof (cases "?k - length (rl_path r)")
      case 0
      with below obtain l where l: "l \<in> set (ae_leaves ae)" "?d = ld_hash l" by auto
      let ?y = "leaf_text (ld_salt l) (ld_kind l) (ld_observedAt l)"
      have same: "H ?x = H ?y" using l hash [OF l(1)] by (simp add: leafDigest_def)
      show ?thesis
      proof (cases "?x = ?y")
        case True
        with leaf_text_inj [OF True] salts l(1) show ?thesis by blast
      next
        case False
        with same have "collision H ?x ?y" by (simp add: collision_def)
        with l(1) show ?thesis by blast
      qed
    next
      case (Suc j)
      then have "Suc j < length ?layers" using k(1) by simp
      moreover have "H ?x \<in> set (?layers ! Suc j)" using below Suc by (simp add: leafDigest_def)
      ultimately obtain y where "y \<in> node_texts H ?ls" "collision H ?x y" using inner_level_collides [OF H hexes] by blast
      then show ?thesis by blast
    qed
  qed
qed

section \<open>A concrete group\<close>

text \<open>A hash with 64 hexadecimal digits, two observations and their group.\<close>

definition ev_hash :: hash where
  "ev_hash s = replicate 64 (if length s mod 2 = 0 then CHR ''0'' else CHR ''1'')"

definition ev_metas :: "artefact_meta list" where
  "ev_metas = map (\<lambda>(i, t). \<lparr>am_id = i, am_kind = ''location'', am_observedAt = t, am_sensitivity = 1,
     am_witnessedBy = Some ''gps''\<rparr>) [(''a2'', ''2026-02''), (''a1'', ''2026-01'')]"

definition ev_spec :: claim_spec where
  "ev_spec = \<lparr>es_kind = ''location'', es_from = None, es_to = None\<rparr>"

definition ev_assembled :: "assembled_evidence option" where
  "ev_assembled = assembleEvidence ev_hash id (\<lambda>i. replicate 32 CHR ''a'') ev_metas ev_spec None"

lemma ev_hash_hex: "sha256_hex ev_hash"
  by (auto simp: sha256_hex_def ev_hash_def hex_chars_def)

lemma ev_assembled_Some: "\<exists>ae. ev_assembled = Some ae \<and> eg_count (ae_group ae) = 2"
proof -
  have "map_option (\<lambda>ae. eg_count (ae_group ae)) ev_assembled = Some 2" by code_simp
  then show ?thesis by auto
qed

lemma revealed_leaves_verify_witness:
  "\<exists>ae. ev_assembled = Some ae \<and>
     list_all (\<lambda>r. verifyRevealedLeaf ev_hash r (eg_merkleRoot (ae_group ae))) (revealLeaves ev_hash ae [1, 7, 1])"
proof -
  from ev_assembled_Some obtain ae where ae: "ev_assembled = Some ae" by blast
  from revealed_leaves_verify [OF ev_hash_hex ae [unfolded ev_assembled_def], of "[1, 7, 1]"] ae
  show ?thesis by (auto simp: list_all_iff)
qed

lemma ev_salts: "ev_assembled = Some ae \<Longrightarrow> l \<in> set (ae_leaves ae) \<Longrightarrow> length (ld_salt l) = 32 \<and> CHR ''|'' \<notin> set (ld_salt l)"
  using assembleEvidence_Some(3) [of ev_hash id "\<lambda>i. replicate 32 CHR ''a''" ev_metas ev_spec None ae]
  by (auto simp: ev_assembled_def leaf_of_def leaf_salt_def Let_def)

lemma only_committed_leaves_verify_witness:
  "\<exists>ae r. ev_assembled = Some ae \<and> r \<in> set (revealLeaves ev_hash ae [1]) \<and>
     ((\<exists>l \<in> set (ae_leaves ae). leaf_text (rl_salt r) (rl_kind r) (rl_observedAt r) = leaf_text (ld_salt l) (ld_kind l) (ld_observedAt l)) \<or>
      (\<exists>x y. collision ev_hash x y))"
proof -
  from ev_assembled_Some obtain ae where ae: "ev_assembled = Some ae" "eg_count (ae_group ae) = 2" by blast
  note shown = revealed_leaves_verify [OF ev_hash_hex ae(1) [unfolded ev_assembled_def], of "[1]"]
  then have "set (map rl_index (revealLeaves ev_hash ae [1])) = {1}" using ae(2) by auto
  then obtain r where r: "r \<in> set (revealLeaves ev_hash ae [1])" by (cases "revealLeaves ev_hash ae [1]") auto
  with shown have "verifyRevealedLeaf ev_hash r (eg_merkleRoot (ae_group ae))" by blast
  from only_committed_leaves_verify [OF ev_hash_hex ae(1) [unfolded ev_assembled_def] _ this] ev_salts [OF ae(1)] ae(1) r
  show ?thesis by blast
qed

end
