(* ===== verification/Evidence_Service.thy ===== *)
theory Evidence_Service
  imports Invocation_Resolution Evidence_Graph
begin

text \<open>
  The Warden's evidence flow: \<open>EvidenceService.handleInvocation\<close> of \<open>packages/warden/src/evidence.ts\<close>,
  which composes the reference monitor, the owner-scoped assembly and the consent step-up. The vault
  is the list its store returns; the Signet's channel, the random salts, the collation keys and the
  clock's text form are arguments. What is granted is the claims object handed to
  \<open>mintEvidenceGraph\<close>, with the group and whether it is reported as approved.
\<close>

section \<open>Configuration, requests and responses\<close>

record vault_artefact =
  va_meta :: artefact_meta
  va_owner :: "did option"

record evidence_config =
  cf_sovereignDid :: "did option"
  cf_authorizationSchema :: did
  cf_requireRevocable :: bool
  cf_requiresHumanAt :: "int option"

record discharge_request =
  dr_txn :: string
  dr_by :: did
  dr_predicate :: string
  dr_claim :: string
  dr_kind :: string
  dr_owner :: did
  dr_audience :: did
  dr_sensitivity :: int
  dr_reveal :: "int list option"

record service_env =
  sv_monitor :: monitor_env
  sv_collate :: "string \<Rightarrow> string"
  sv_randomSalt :: "nat \<Rightarrow> string"
  sv_requester :: "(discharge_request \<Rightarrow> discharge option) option"
  sv_iso :: "int \<Rightarrow> string"

datatype evidence_denial =
    MissingClaim | MissingSpec | InvocationRefused refusal | NoOwnerScope | NotAuthorizedForClaim
  | NoDischargeChannel | ConsentDeclined | ActRefused decision

datatype evidence_response =
    Granted evidence_claims evidence_group bool
  | Denied evidence_denial

section \<open>The flow\<close>

definition service_ctx ::
    "evidence_config \<Rightarrow> did \<Rightarrow> (string \<Rightarrow> 'g \<Rightarrow> bool \<times> 'g) option \<Rightarrow> 'g monitor_ctx" where
  "service_ctx cfg fromDid requireChallenge =
     \<lparr>mc_expectedRootIssuer = (case cf_sovereignDid cfg of Some s \<Rightarrow> s | None \<Rightarrow> []),
      mc_authorizationSchema = cf_authorizationSchema cfg, mc_sensitivity = None,
      mc_requiresHumanAt = None, mc_owner = None, mc_fromDid = Some fromDid,
      mc_requireChallenge = requireChallenge, mc_statusMaxAgeMs = None,
      mc_requireStatus = cf_requireRevocable cfg\<rparr>"

text \<open>The act's kind, which the monitor digests, is the kind of the claim spec in the same arguments.\<close>

definition with_spec :: "invocation \<Rightarrow> claim_spec option \<Rightarrow> invocation" where
  "with_spec msg spec = msg\<lparr>in_act := (in_act msg)\<lparr>at_kind := map_option es_kind spec\<rparr>\<rparr>"

definition owner_of :: "evidence_config \<Rightarrow> verified_leaf \<Rightarrow> did option" where
  "owner_of cfg leaf =
     (case cv_owner (vl_caveats leaf) of Some owner \<Rightarrow> Some owner | None \<Rightarrow> cf_sovereignDid cfg)"

definition owner_scoped :: "evidence_config \<Rightarrow> did \<Rightarrow> vault_artefact list \<Rightarrow> artefact_meta list" where
  "owner_scoped cfg owner vault =
     map va_meta (filter (\<lambda>a. (case va_owner a of Some d \<Rightarrow> Some d | None \<Rightarrow> cf_sovereignDid cfg) = Some owner) vault)"

definition audience_of :: "verified_leaf \<Rightarrow> did" where
  "audience_of leaf = (case cv_audience (vl_caveats leaf) of Some a \<Rightarrow> a | None \<Rightarrow> vl_holder leaf)"

definition kind_granted :: "verified_leaf \<Rightarrow> string \<Rightarrow> bool" where
  "kind_granted leaf kind \<longleftrightarrow>
     (case cv_kinds (vl_caveats leaf) of Some ks \<Rightarrow> kind \<in> set ks | None \<Rightarrow> True)"

definition revealed_group :: "hash \<Rightarrow> assembled_evidence \<Rightarrow> int list option \<Rightarrow> evidence_group" where
  "revealed_group H ae reveal =
     (if opt_list reveal \<noteq> []
      then (ae_group ae)\<lparr>eg_revealed := Some (revealLeaves H ae (opt_list reveal)), eg_disclosure := Selective\<rparr>
      else ae_group ae)"

definition authorization_ctx :: "evidence_config \<Rightarrow> did \<Rightarrow> int \<Rightarrow> 'g monitor_ctx \<Rightarrow> 'g monitor_ctx" where
  "authorization_ctx cfg owner sensitivity ctx =
     ctx\<lparr>mc_sensitivity := Some sensitivity, mc_owner := Some owner, mc_requiresHumanAt := cf_requiresHumanAt cfg\<rparr>"

definition discharge_request_for ::
    "invocation \<Rightarrow> verified_leaf \<Rightarrow> did \<Rightarrow> int \<Rightarrow> did \<times> string \<Rightarrow> discharge_request" where
  "discharge_request_for msg leaf owner sensitivity need =
     \<lparr>dr_txn = at_txn (in_act msg), dr_by = fst need, dr_predicate = snd need,
      dr_claim = the (at_claim (in_act msg)), dr_kind = the (at_kind (in_act msg)), dr_owner = owner,
      dr_audience = audience_of leaf, dr_sensitivity = sensitivity,
      dr_reveal = (if opt_list (at_reveal (in_act msg)) \<noteq> [] then at_reveal (in_act msg) else None)\<rparr>"

text \<open>Ask the designated Signets one after the other; the first refusal ends it.\<close>

fun obtain_discharges ::
    "(discharge_request \<Rightarrow> discharge option) \<Rightarrow> discharge_request list \<Rightarrow> discharge list option" where
  "obtain_discharges ask [] = Some []"
| "obtain_discharges ask (r # rs) =
     (case ask r of None \<Rightarrow> None | Some d \<Rightarrow> map_option (Cons d) (obtain_discharges ask rs))"

text \<open>The reasons that mention the ceiling or the sensitivity.\<close>

fun mentions_sensitivity :: "decision \<Rightarrow> bool" where
  "mentions_sensitivity (Deny (CeilingExceeded _ _)) = True"
| "mentions_sensitivity (Deny OwnerlessPolicyGate) = True"
| "mentions_sensitivity _ = False"

definition human_approved :: "evidence_config \<Rightarrow> int \<Rightarrow> verified_leaf \<Rightarrow> bool" where
  "human_approved cfg sensitivity leaf \<longleftrightarrow>
     (case cf_requiresHumanAt cfg of Some tier \<Rightarrow> sensitivity \<ge> tier | None \<Rightarrow> False) \<or>
     opt_list (cv_requiresDischarge (vl_caveats leaf)) \<noteq> []"

definition grant ::
    "service_env \<Rightarrow> evidence_config \<Rightarrow> invocation \<Rightarrow> verified_leaf \<Rightarrow> evidence_group \<Rightarrow> int \<Rightarrow> evidence_response" where
  "grant env cfg msg leaf grp sensitivity =
     Granted (evidence_graph_claims (audience_of leaf) (the (at_claim (in_act msg))) [grp] (Some [])
         (at_txn (in_act msg)) (Some (sv_iso env (me_now (sv_monitor env) + 10 * 60000))))
       grp (human_approved cfg sensitivity leaf)"

definition conclude ::
    "service_env \<Rightarrow> evidence_config \<Rightarrow> invocation \<Rightarrow> verified_leaf \<Rightarrow> evidence_group \<Rightarrow> int \<Rightarrow> decision \<Rightarrow>
     evidence_response" where
  "conclude env cfg msg leaf grp sensitivity d =
     (if allows d then grant env cfg msg leaf grp sensitivity
      else if mentions_sensitivity d then Denied NotAuthorizedForClaim else Denied (ActRefused d))"

text \<open>Authorize, step up if discharges are missing, and authorize again with what was obtained.\<close>

definition authorize_with_stepup ::
    "('s \<Rightarrow> string \<Rightarrow> bool option) \<Rightarrow> ('s \<Rightarrow> string \<Rightarrow> 's option) \<Rightarrow> hash \<Rightarrow> service_env \<Rightarrow> evidence_config \<Rightarrow>
     'g monitor_ctx \<Rightarrow> invocation \<Rightarrow> verified_leaf \<Rightarrow> did \<Rightarrow> evidence_group \<Rightarrow> int \<Rightarrow> 's \<Rightarrow>
     (evidence_response \<times> 's) option" where
  "authorize_with_stepup isSpent markSpent H env cfg ctx msg leaf owner grp sensitivity s =
     (let authCtx = authorization_ctx cfg owner sensitivity ctx
      in case authorizeInvocation isSpent markSpent H (sv_monitor env) authCtx msg leaf s of
        None \<Rightarrow> None
      | Some (NeedsDischarge needs own ceiling, s1) \<Rightarrow>
          (case sv_requester env of
             None \<Rightarrow> Some (Denied NoDischargeChannel, s1)
           | Some ask \<Rightarrow>
               (case obtain_discharges ask (map (discharge_request_for msg leaf owner sensitivity) needs) of
                  None \<Rightarrow> Some (Denied ConsentDeclined, s1)
                | Some ds \<Rightarrow>
                    map_option (\<lambda>(d, s2). (conclude env cfg msg leaf grp sensitivity d, s2))
                      (authorizeInvocation isSpent markSpent H (sv_monitor env) authCtx
                        (msg\<lparr>in_discharges := Some (opt_list (in_discharges msg) @ ds)\<rparr>) leaf s1)))
      | Some (d, s1) \<Rightarrow> Some (conclude env cfg msg leaf grp sensitivity d, s1))"

definition disclose_for_leaf ::
    "('s \<Rightarrow> string \<Rightarrow> bool option) \<Rightarrow> ('s \<Rightarrow> string \<Rightarrow> 's option) \<Rightarrow> hash \<Rightarrow> service_env \<Rightarrow> evidence_config \<Rightarrow>
     'g monitor_ctx \<Rightarrow> vault_artefact list \<Rightarrow> invocation \<Rightarrow> claim_spec \<Rightarrow> verified_leaf \<Rightarrow> 's \<Rightarrow>
     (evidence_response \<times> 's) option" where
  "disclose_for_leaf isSpent markSpent H env cfg ctx vault msg spec leaf s =
     (if \<not> truthy_string (owner_of cfg leaf) then Some (Denied NoOwnerScope, s)
      else if \<not> kind_granted leaf (es_kind spec) then Some (Denied NotAuthorizedForClaim, s)
      else let owner = the (owner_of cfg leaf)
        in case assembleEvidence H (sv_collate env) (sv_randomSalt env) (owner_scoped cfg owner vault) spec None of
          None \<Rightarrow> Some (Denied NotAuthorizedForClaim, s)
        | Some ae \<Rightarrow>
            authorize_with_stepup isSpent markSpent H env cfg ctx msg leaf owner
              (revealed_group H ae (at_reveal (in_act msg))) (ae_sensitivity ae) s)"

definition handleInvocation ::
    "('s \<Rightarrow> string \<Rightarrow> bool option) \<Rightarrow> ('s \<Rightarrow> string \<Rightarrow> 's option) \<Rightarrow> hash \<Rightarrow> service_env \<Rightarrow> evidence_config \<Rightarrow>
     (string \<Rightarrow> 'g \<Rightarrow> bool \<times> 'g) option \<Rightarrow> vault_artefact list \<Rightarrow> invocation \<Rightarrow> claim_spec option \<Rightarrow> did \<Rightarrow>
     'g \<Rightarrow> 's \<Rightarrow> (evidence_response \<times> 'g \<times> 's) option" where
  "handleInvocation isSpent markSpent H env cfg requireChallenge vault msg0 spec fromDid g s =
     (let msg = with_spec msg0 spec
      in if \<not> truthy_string (at_claim (in_act msg)) then Some (Denied MissingClaim, g, s)
      else case spec of
        None \<Rightarrow> Some (Denied MissingSpec, g, s)
      | Some sp \<Rightarrow>
          (let ctx = service_ctx cfg fromDid requireChallenge
           in case resolve_leaf H (sv_monitor env) ctx msg g of
             (Resolve_threw, _) \<Rightarrow> None
           | (Refused r, g') \<Rightarrow> Some (Denied (InvocationRefused r), g', s)
           | (Resolved leaf, g') \<Rightarrow>
               map_option (\<lambda>(resp, s'). (resp, g', s'))
                 (disclose_for_leaf isSpent markSpent H env cfg ctx vault msg sp leaf s)))"

section \<open>What a grant discloses\<close>

lemma conclude_Granted:
  "conclude env cfg msg leaf grp sens d = Granted cl gr ap \<Longrightarrow>
     allows d \<and> grant env cfg msg leaf grp sens = Granted cl gr ap"
  by (auto simp: conclude_def split: if_splits)

text \<open>The message a granting decision was taken on: the request with the discharges obtained for it.\<close>

lemma stepup_Granted:
  assumes "authorize_with_stepup isS markS H env cfg ctx msg leaf owner grp sens s = Some (Granted cl gr ap, s')"
  obtains ds d s1 where "allows d" "grant env cfg msg leaf grp sens = Granted cl gr ap"
    "authorizeInvocation isS markS H (sv_monitor env) (authorization_ctx cfg owner sens ctx)
       (msg\<lparr>in_discharges := Some (opt_list (in_discharges msg) @ ds)\<rparr>) leaf s1 = Some (d, s') \<or>
     authorizeInvocation isS markS H (sv_monitor env) (authorization_ctx cfg owner sens ctx) msg leaf s1 = Some (d, s')"
proof -
  let ?auth = "authorizeInvocation isS markS H (sv_monitor env) (authorization_ctx cfg owner sens ctx)"
  from assms obtain d s1 where first: "?auth msg leaf s = Some (d, s1)"
    by (auto simp: authorize_with_stepup_def Let_def split: option.splits)
  show thesis
  proof (cases d)
    case (NeedsDischarge needs own ceiling)
    with assms first obtain ds d2 where
      "?auth (msg\<lparr>in_discharges := Some (opt_list (in_discharges msg) @ ds)\<rparr>) leaf s1 = Some (d2, s')"
      "conclude env cfg msg leaf grp sens d2 = Granted cl gr ap"
      by (auto simp: authorize_with_stepup_def Let_def split: option.splits)
    with that conclude_Granted show thesis by blast
  next
    case (Allow a b c)
    with assms first have "s1 = s'" "conclude env cfg msg leaf grp sens d = Granted cl gr ap"
      by (auto simp: authorize_with_stepup_def Let_def)
    with that first conclude_Granted show thesis by blast
  next
    case (Deny r)
    with assms first have "conclude env cfg msg leaf grp sens d = Granted cl gr ap"
      by (auto simp: authorize_with_stepup_def Let_def)
    from conclude_Granted [OF this] Deny show thesis by simp
  qed
qed

lemma grant_eq:
  "grant env cfg msg leaf grp sens = Granted cl gr ap \<Longrightarrow>
     ec_subject cl = audience_of leaf \<and> ec_evidence cl = [grp] \<and> gr = grp \<and>
     ap = human_approved cfg sens leaf \<and> ec_txn cl = at_txn (in_act msg)"
  by (auto simp: grant_def evidence_graph_claims_def Let_def)

context spent_ledger
begin

lemma allowed_permitted:
  assumes "authorizeInvocation isSpent markSpent H env ctx msg leaf s = Some (d, s')" "allows d"
  shows "permitted H env ctx msg leaf"
proof -
  have "isSpent s (at_txn (in_act msg)) \<noteq> None"
    using assms(1) authorize_throws [of s "at_txn (in_act msg)" H env ctx msg leaf] by auto
  then obtain b where "isSpent s (at_txn (in_act msg)) = Some b" by auto
  from authorize_allows_iff [OF this, of H env ctx msg leaf] assms show ?thesis by auto
qed

end

text \<open>
  A grant stays inside the capability: when the service grants a request, it resolved a leaf, and
  the group it minted was assembled only from artefacts of the owner the capability names (or the
  configured Sovereign), of the requested kind, which the capability's compartment contains; their
  highest sensitivity is within the capability's ceiling; the credential is bound to the capability's
  audience or to the proven holder, never to anyone the request names; and at or above the policy tier
  some discharge signed by the owner for this transaction verified.
\<close>

theorem grant_within_capability:
  assumes "handleInvocation file_isSpent file_markSpent H env cfg ask vault msg spec fromDid g s
      = Some (Granted cl gr ap, g', s')"
  shows "\<exists>leaf owner sp ae.
    fst (resolve_leaf H (sv_monitor env) (service_ctx cfg fromDid ask) (with_spec msg spec) g) = Resolved leaf \<and>
    spec = Some sp \<and> owner_of cfg leaf = Some owner \<and> owner \<noteq> [] \<and> kind_granted leaf (es_kind sp) \<and>
    assembleEvidence H (sv_collate env) (sv_randomSalt env) (owner_scoped cfg owner vault) sp None = Some ae \<and>
    gr = revealed_group H ae (at_reveal (in_act msg)) \<and> ec_evidence cl = [gr] \<and>
    ec_subject cl = audience_of leaf \<and>
    (case cv_ceiling (vl_caveats leaf) of Some c \<Rightarrow> ae_sensitivity ae \<le> c | None \<Rightarrow> True) \<and>
    (case cf_requiresHumanAt cfg of
       None \<Rightarrow> True
     | Some tier \<Rightarrow> ae_sensitivity ae < tier \<or>
         (\<exists>consent. di_by consent = owner \<and> me_verifyDischarge (sv_monitor env) consent \<and>
            map_option before_hash (di_proof consent) = Some owner \<and> di_txn consent = at_txn (in_act msg)))"
proof -
  let ?msg = "with_spec msg spec" and ?ctx = "service_ctx cfg fromDid ask"
  have same: "at_reveal (in_act ?msg) = at_reveal (in_act msg)" "at_txn (in_act ?msg) = at_txn (in_act msg)"
    by (simp_all add: with_spec_def)
  from assms obtain sp where sp: "spec = Some sp"
    by (auto simp: handleInvocation_def Let_def split: if_splits option.splits)
  from assms sp obtain leaf where leaf: "fst (resolve_leaf H (sv_monitor env) ?ctx ?msg g) = Resolved leaf"
    and d: "disclose_for_leaf file_isSpent file_markSpent H env cfg ?ctx vault ?msg sp leaf s = Some (Granted cl gr ap, s')"
    by (auto simp: handleInvocation_def Let_def split: if_splits option.splits prod.splits resolution.splits)
  from d obtain owner where owner: "owner_of cfg leaf = Some owner" "owner \<noteq> []" and k: "kind_granted leaf (es_kind sp)"
    by (cases "owner_of cfg leaf") (auto simp: disclose_for_leaf_def split: if_splits)
  with d obtain ae where
    ae: "assembleEvidence H (sv_collate env) (sv_randomSalt env) (owner_scoped cfg owner vault) sp None = Some ae"
    and st: "authorize_with_stepup file_isSpent file_markSpent H env cfg ?ctx ?msg leaf owner
      (revealed_group H ae (at_reveal (in_act ?msg))) (ae_sensitivity ae) s = Some (Granted cl gr ap, s')"
    by (auto simp: disclose_for_leaf_def Let_def split: if_splits option.splits)
  let ?actx = "authorization_ctx cfg owner (ae_sensitivity ae) ?ctx"
  obtain ds dec s1 where a: "allows dec" "grant env cfg ?msg leaf (revealed_group H ae (at_reveal (in_act ?msg)))
      (ae_sensitivity ae) = Granted cl gr ap"
    "authorizeInvocation file_isSpent file_markSpent H (sv_monitor env) ?actx
       (?msg\<lparr>in_discharges := Some (opt_list (in_discharges ?msg) @ ds)\<rparr>) leaf s1 = Some (dec, s') \<or>
     authorizeInvocation file_isSpent file_markSpent H (sv_monitor env) ?actx ?msg leaf s1 = Some (dec, s')"
    using stepup_Granted [OF st] by blast
  then obtain m where m: "authorizeInvocation file_isSpent file_markSpent H (sv_monitor env) ?actx m leaf s1 = Some (dec, s')"
    "in_act m = in_act ?msg" by auto
  have perm: "permitted H (sv_monitor env) ?actx m leaf" by (rule file_ledger.allowed_permitted [OF m(1) a(1)])
  have ceiling: "case cv_ceiling (vl_caveats leaf) of Some c \<Rightarrow> ae_sensitivity ae \<le> c | None \<Rightarrow> True"
    using perm by (auto simp: permitted_def authorization_ctx_def split: option.split)
  have po: "policy_owner ?actx leaf = Some owner"
    using owner(1) by (auto simp: policy_owner_def owner_of_def authorization_ctx_def split: option.splits)
  have consent: "case cf_requiresHumanAt cfg of
       None \<Rightarrow> True
     | Some tier \<Rightarrow> ae_sensitivity ae < tier \<or>
         (\<exists>consent. di_by consent = owner \<and> me_verifyDischarge (sv_monitor env) consent \<and>
            map_option before_hash (di_proof consent) = Some owner \<and> di_txn consent = at_txn (in_act msg))"
  proof (cases "cf_requiresHumanAt cfg")
    case (Some tier)
    show ?thesis
    proof (cases "ae_sensitivity ae < tier")
      case False
      with Some have "policy_gate ?actx" by (simp add: policy_gate_def authorization_ctx_def)
      with perm po have "hasValidDischarge H (sv_monitor env) ?actx m leaf owner POLICY_CONSENT_PREDICATE"
        unfolding permitted_def by auto
      then obtain c where "discharge_satisfies H (sv_monitor env) ?actx (in_act m) leaf owner POLICY_CONSENT_PREDICATE c"
        by (auto simp: hasValidDischarge_def list_ex_iff)
      then have "di_by c = owner \<and> me_verifyDischarge (sv_monitor env) c \<and>
          map_option before_hash (di_proof c) = Some owner \<and> di_txn c = at_txn (in_act msg)"
        using m(2) same(2) by (auto simp: discharge_satisfies_def split: option.splits)
      with Some show ?thesis by auto
    qed (simp add: Some)
  qed simp
  show ?thesis
    using leaf sp owner k ae grant_eq [OF a(2)] same(1) ceiling consent by auto
qed

section \<open>What a denial discloses\<close>

lemma check_over_ceiling:
  assumes "ledger_all s = Some ts" "set (burn_keys msg leaf) \<inter> set ts = {}" "\<not> expired env (vl_caveats leaf)"
    and "cv_ceiling (vl_caveats leaf) = Some c" "mc_sensitivity ctx = Some x" "c < x"
  shows "authorizeInvocation file_isSpent file_markSpent H env ctx msg leaf s = Some (Deny (CeilingExceeded x c), s)"
proof -
  have "file_isSpent s (at_txn (in_act msg)) = Some False"
    "is_single_use leaf \<Longrightarrow> file_isSpent s (cap_key leaf) = Some False"
    using assms(1,2) by (simp_all add: file_isSpent_def burn_keys_def)
  with assms(3-6) show ?thesis
    by (simp add: authorizeInvocation_def authorize_check_def over_ceiling_def)
qed

lemma check_replay:
  assumes "ledger_all s = Some ts" "at_txn (in_act msg) \<in> set ts"
  shows "authorizeInvocation file_isSpent file_markSpent H env ctx msg leaf s = Some (Deny Replay, s)"
  using assms by (simp add: authorizeInvocation_def authorize_check_def file_isSpent_def)

lemma handle_resolved:
  assumes "resolve_leaf H (sv_monitor env) (service_ctx cfg fromDid ask) (with_spec msg (Some sp)) g = (Resolved leaf, g')"
    and "truthy_string (at_claim (in_act msg))" "owner_of cfg leaf = Some owner" "owner \<noteq> []"
    and "kind_granted leaf (es_kind sp)"
  shows "handleInvocation isS markS H env cfg ask vault msg (Some sp) fromDid g s =
    (case assembleEvidence H (sv_collate env) (sv_randomSalt env) (owner_scoped cfg owner vault) sp None of
       None \<Rightarrow> Some (Denied NotAuthorizedForClaim, g', s)
     | Some ae \<Rightarrow>
         map_option (\<lambda>(resp, s'). (resp, g', s'))
           (authorize_with_stepup isS markS H env cfg (service_ctx cfg fromDid ask) (with_spec msg (Some sp)) leaf owner
             (revealed_group H ae (at_reveal (in_act msg))) (ae_sensitivity ae) s))"
proof -
  have owner: "truthy_string (owner_of cfg leaf)" "the (owner_of cfg leaf) = owner"
    using assms(3,4) by (cases owner; simp)+
  have claim: "truthy_string (at_claim (in_act (with_spec msg (Some sp))))"
    "at_reveal (in_act (with_spec msg (Some sp))) = at_reveal (in_act msg)"
    using assms(2) by (simp_all add: with_spec_def)
  have "handleInvocation isS markS H env cfg ask vault msg (Some sp) fromDid g s =
      map_option (\<lambda>(resp, s'). (resp, g', s'))
        (disclose_for_leaf isS markS H env cfg (service_ctx cfg fromDid ask) vault (with_spec msg (Some sp)) sp leaf s)"
    unfolding handleInvocation_def Let_def option.case assms(1) prod.case resolution.case using claim(1) by simp
  also have "disclose_for_leaf isS markS H env cfg (service_ctx cfg fromDid ask) vault (with_spec msg (Some sp)) sp leaf s =
    (case assembleEvidence H (sv_collate env) (sv_randomSalt env) (owner_scoped cfg owner vault) sp None of
       None \<Rightarrow> Some (Denied NotAuthorizedForClaim, s)
     | Some ae \<Rightarrow>
         authorize_with_stepup isS markS H env cfg (service_ctx cfg fromDid ask) (with_spec msg (Some sp)) leaf owner
             (revealed_group H ae (at_reveal (in_act msg))) (ae_sensitivity ae) s)"
    unfolding disclose_for_leaf_def Let_def owner(2) claim(2) using owner(1) assms(5) by simp
  finally show ?thesis by (simp split: option.split)
qed

lemma burn_keys_with_spec [simp]: "burn_keys (with_spec msg spec) leaf = burn_keys msg leaf"
  by (simp add: burn_keys_def with_spec_def)

text \<open>
  Absence and clearance look the same to a fresh request: for a resolved capability that has not
  expired and whose transaction and single-use key are not burned, the answer when the vault has no
  matching artefact of the owner and the answer when it has some above the capability's ceiling are
  one and the same denial, with the same state left behind.
\<close>

theorem absence_indistinguishable_from_ceiling:
  assumes "resolve_leaf H (sv_monitor env) (service_ctx cfg fromDid ask) (with_spec msg (Some sp)) g = (Resolved leaf, g')"
    and "truthy_string (at_claim (in_act msg))" "owner_of cfg leaf = Some owner" "owner \<noteq> []"
    and "kind_granted leaf (es_kind sp)" "cv_ceiling (vl_caveats leaf) = Some c"
    and "ledger_all s = Some ts" "set (burn_keys msg leaf) \<inter> set ts = {}"
    and "\<not> expired (sv_monitor env) (vl_caveats leaf)"
    and "case assembleEvidence H (sv_collate env) (sv_randomSalt env) (owner_scoped cfg owner vault) sp None of
      None \<Rightarrow> True | Some ae \<Rightarrow> c < ae_sensitivity ae"
  shows "handleInvocation file_isSpent file_markSpent H env cfg ask vault msg (Some sp) fromDid g s
    = Some (Denied NotAuthorizedForClaim, g', s)"
proof (cases "assembleEvidence H (sv_collate env) (sv_randomSalt env) (owner_scoped cfg owner vault) sp None")
  case None
  then show ?thesis by (simp add: handle_resolved [OF assms(1-5)])
next
  case (Some ae)
  have "authorizeInvocation file_isSpent file_markSpent H (sv_monitor env)
      (authorization_ctx cfg owner (ae_sensitivity ae) (service_ctx cfg fromDid ask)) (with_spec msg (Some sp)) leaf s
    = Some (Deny (CeilingExceeded (ae_sensitivity ae) c), s)"
    using assms(6-10) Some by (intro check_over_ceiling) (simp_all add: authorization_ctx_def)
  then show ?thesis
    by (simp add: handle_resolved [OF assms(1-5)] Some authorize_with_stepup_def Let_def conclude_def)
qed

text \<open>
  A spent transaction is an existence oracle: the replay check comes before the ceiling check and
  after the assembly, and its reason is not masked, so a resolved capability that reuses a burned
  transaction is told "replay" exactly when the owner's vault has a matching artefact, of whatever
  sensitivity, above its ceiling as well, and "not authorized" exactly when it has none.
\<close>

theorem spent_txn_reveals_existence:
  assumes "resolve_leaf H (sv_monitor env) (service_ctx cfg fromDid ask) (with_spec msg (Some sp)) g = (Resolved leaf, g')"
    and "truthy_string (at_claim (in_act msg))" "owner_of cfg leaf = Some owner" "owner \<noteq> []"
    and "kind_granted leaf (es_kind sp)" "ledger_all s = Some ts" "at_txn (in_act msg) \<in> set ts"
  shows "handleInvocation file_isSpent file_markSpent H env cfg ask vault msg (Some sp) fromDid g s
    = Some (Denied (if {m \<in> set (owner_scoped cfg owner vault). matches sp m} = {}
        then NotAuthorizedForClaim else ActRefused (Deny Replay)), g', s)"
proof (cases "assembleEvidence H (sv_collate env) (sv_randomSalt env) (owner_scoped cfg owner vault) sp None")
  case None
  then have "{m \<in> set (owner_scoped cfg owner vault). matches sp m} = {}"
    by (auto simp: assembleEvidence_def Let_def selectArtefacts_def filter_empty_conv split: if_splits)
  with None show ?thesis by (simp add: handle_resolved [OF assms(1-5)])
next
  case (Some ae)
  have "{m \<in> set (owner_scoped cfg owner vault). matches sp m} \<noteq> {}"
    using assembleEvidence_Some(1,2) [OF Some] by (metis set_empty)
  moreover have "at_txn (in_act (with_spec msg (Some sp))) = at_txn (in_act msg)" by (simp add: with_spec_def)
  ultimately show ?thesis
    using assms(7)
    by (simp add: handle_resolved [OF assms(1-5)] Some authorize_with_stepup_def Let_def conclude_def
        check_replay [OF assms(6)])
qed

end
