(* ===== verification/Service_Example.thy ===== *)
theory Service_Example
  imports Evidence_Service Monitor_Example
begin

text \<open>
  A concrete vault behind the concrete capability of \<open>Monitor_Example\<close>, and the witnesses of the
  properties of \<open>Evidence_Service\<close> at it. The Signet signs what it is asked.
\<close>

definition sx_vault :: "int \<Rightarrow> vault_artefact list" where
  "sx_vault sens = [\<lparr>va_meta = \<lparr>am_id = ''a1'', am_kind = ''location'', am_observedAt = ''2026-01'',
     am_sensitivity = sens, am_witnessedBy = Some ''gps''\<rparr>, va_owner = Some ''S''\<rparr>,
   \<lparr>va_meta = \<lparr>am_id = ''b1'', am_kind = ''location'', am_observedAt = ''2026-01'',
     am_sensitivity = 0, am_witnessedBy = None\<rparr>, va_owner = Some ''other''\<rparr>]"

definition sx_config :: evidence_config where
  "sx_config = \<lparr>cf_sovereignDid = Some ''S'', cf_authorizationSchema = ''schema'', cf_requireRevocable = False,
     cf_requiresHumanAt = Some 2\<rparr>"

definition sx_sign :: "discharge_request \<Rightarrow> discharge option" where
  "sx_sign r = Some \<lparr>di_by = dr_by r, di_predicate = Some (dr_predicate r), di_txn = dr_txn r,
     di_digest = Some (dischargeDigest id \<lparr>ds_txn = dr_txn r, ds_predicate = dr_predicate r, ds_claim = dr_claim r,
       ds_kind = dr_kind r, ds_owner = dr_owner r, ds_audience = dr_audience r, ds_sensitivity = dr_sensitivity r,
       ds_reveal = dr_reveal r\<rparr>),
     di_proof = Some (dr_by r @ ''#key-1'')\<rparr>"

definition sx_env :: service_env where
  "sx_env = \<lparr>sv_monitor = mx_menv, sv_collate = id, sv_randomSalt = (\<lambda>i. replicate 32 CHR ''a''),
     sv_requester = Some sx_sign, sv_iso = (\<lambda>t. ''soon'')\<rparr>"

definition sx_msg :: "string \<Rightarrow> invocation" where
  "sx_msg txn = \<lparr>in_presentation = Some ''p'', in_chain = None, in_act = mx_act txn, in_discharges = None\<rparr>"

definition sx_spec :: claim_spec where
  "sx_spec = \<lparr>es_kind = ''location'', es_from = None, es_to = None\<rparr>"

definition sx_handle :: "int \<Rightarrow> string \<Rightarrow> ledger_file \<Rightarrow> (evidence_response \<times> unit \<times> ledger_file) option" where
  "sx_handle sens txn s =
     handleInvocation file_isSpent file_markSpent id sx_env sx_config None (sx_vault sens) (sx_msg txn) (Some sx_spec) ''E'' () s"

definition granted_to :: "(evidence_response \<times> unit \<times> ledger_file) option \<Rightarrow> did option" where
  "granted_to r = (case r of Some (Granted cl gr ap, _, _) \<Rightarrow> Some (ec_subject cl) | _ \<Rightarrow> None)"

lemma sx_granted: "granted_to (sx_handle 2 ''t1'' Missing) = Some ''E''"
  by code_simp

lemma sx_resolved:
  "resolve_leaf id mx_menv (service_ctx sx_config ''E'' None) (with_spec (sx_msg ''t1'') (Some sx_spec)) () =
     (Resolved (mx_leaf_of ''vc'' 2), ())"
proof -
  have "fst (resolve_leaf id mx_menv (service_ctx sx_config ''E'' None) (with_spec (sx_msg ''t1'') (Some sx_spec)) ()) =
     Resolved (mx_leaf_of ''vc'' 2)" by code_simp
  then show ?thesis by (simp add: prod_eq_iff)
qed

lemma grant_within_capability_witness:
  "\<exists>leaf. fst (resolve_leaf id mx_menv (service_ctx sx_config ''E'' None) (with_spec (sx_msg ''t1'') (Some sx_spec)) ())
     = Resolved leaf \<and> owner_of sx_config leaf = Some ''S'' \<and> kind_granted leaf ''location''"
proof -
  from sx_granted obtain cl gr ap g' s' where
    h: "handleInvocation file_isSpent file_markSpent id sx_env sx_config None (sx_vault 2) (sx_msg ''t1'')
      (Some sx_spec) ''E'' () Missing = Some (Granted cl gr ap, g', s')"
    unfolding sx_handle_def granted_to_def by (auto split: option.splits evidence_response.splits)
  have mon: "sv_monitor sx_env = mx_menv" by (simp add: sx_env_def)
  obtain leaf owner sp where r: "fst (resolve_leaf id mx_menv (service_ctx sx_config ''E'' None)
      (with_spec (sx_msg ''t1'') (Some sx_spec)) ()) = Resolved leaf"
    "Some sx_spec = Some sp" "owner_of sx_config leaf = Some owner" "kind_granted leaf (es_kind sp)"
    using grant_within_capability [OF h] unfolding mon by blast
  moreover from r(1) sx_resolved have "leaf = mx_leaf_of ''vc'' 2" by simp
  moreover have "owner_of sx_config (mx_leaf_of ''vc'' 2) = Some ''S''" by code_simp
  moreover from r(2) have "es_kind sp = ''location''" by (auto simp: sx_spec_def)
  ultimately show ?thesis by simp
qed

lemma sx_leaf_facts:
  "owner_of sx_config (mx_leaf_of ''vc'' 2) = Some ''S''" "kind_granted (mx_leaf_of ''vc'' 2) (es_kind sx_spec)"
  "cv_ceiling (vl_caveats (mx_leaf_of ''vc'' 2)) = Some 2" "\<not> expired mx_menv (vl_caveats (mx_leaf_of ''vc'' 2))"
  by code_simp+

lemma absence_indistinguishable_from_ceiling_witness:
  "sx_handle 3 ''t1'' Missing = Some (Denied NotAuthorizedForClaim, (), Missing)"
proof -
  have over: "case assembleEvidence id (sv_collate sx_env) (sv_randomSalt sx_env) (owner_scoped sx_config ''S'' (sx_vault 3)) sx_spec None of
      None \<Rightarrow> True | Some ae \<Rightarrow> 2 < ae_sensitivity ae" by code_simp
  have res: "resolve_leaf id (sv_monitor sx_env) (service_ctx sx_config ''E'' None) (with_spec (sx_msg ''t1'') (Some sx_spec)) ()
      = (Resolved (mx_leaf_of ''vc'' 2), ())" using sx_resolved by (simp add: sx_env_def)
  have "truthy_string (at_claim (in_act (sx_msg ''t1'')))" "ledger_all Missing = Some []"
    "set (burn_keys (sx_msg ''t1'') (mx_leaf_of ''vc'' 2)) \<inter> set [] = {}"
    "\<not> expired (sv_monitor sx_env) (vl_caveats (mx_leaf_of ''vc'' 2))"
    using sx_leaf_facts(4) by (simp_all add: sx_msg_def mx_act_def sx_env_def)
  from absence_indistinguishable_from_ceiling [OF res this(1) sx_leaf_facts(1) _ sx_leaf_facts(2,3) this(2,3,4) over]
  show ?thesis by (simp add: sx_handle_def)
qed

lemma spent_txn_reveals_existence_witness:
  "sx_handle 3 ''t1'' (Entries [''t1'']) = Some (Denied (ActRefused (Deny Replay)), (), Entries [''t1''])"
proof -
  have res: "resolve_leaf id (sv_monitor sx_env) (service_ctx sx_config ''E'' None) (with_spec (sx_msg ''t1'') (Some sx_spec)) ()
      = (Resolved (mx_leaf_of ''vc'' 2), ())" using sx_resolved by (simp add: sx_env_def)
  have hyps: "truthy_string (at_claim (in_act (sx_msg ''t1'')))" "ledger_all (Entries [''t1'']) = Some [''t1'']"
    "at_txn (in_act (sx_msg ''t1'')) \<in> set [''t1'']"
    by (simp_all add: sx_msg_def mx_act_def)
  have "list_ex (matches sx_spec) (owner_scoped sx_config ''S'' (sx_vault 3))" by code_simp
  then have "{m \<in> set (owner_scoped sx_config ''S'' (sx_vault 3)). matches sx_spec m} \<noteq> {}" by (auto simp: list_ex_iff)
  with spent_txn_reveals_existence [OF res hyps(1) sx_leaf_facts(1) _ sx_leaf_facts(2) hyps(2,3), of "sx_vault 3"]
  show ?thesis by (simp add: sx_handle_def)
qed

end
