(* ===== verification/Escalation.thy ===== *)
theory Escalation
  imports Security
begin

text \<open>
  The cost axis of the authorization ladder: \<open>packages/core/src/escalation.ts\<close>. The parent of an
  agent signs a spend and a control allowance into the agent's Ruleset; from them, the cost and the
  sensitivity of an action follow its tier, its band and the Signet that has to approve.

  A cost is a JavaScript number: a finite amount, an infinity or \<open>NaN\<close>.
\<close>

section \<open>Allowances\<close>

datatype js_number = Finite int | PosInf | NegInf | NaN

fun positive_cost :: "js_number \<Rightarrow> bool" where
  "positive_cost (Finite n) = (n > 0)"
| "positive_cost _ = False"

text \<open>\<open>cost > n\<close>, false on \<open>NaN\<close>.\<close>

fun cost_above :: "js_number \<Rightarrow> int \<Rightarrow> bool" where
  "cost_above (Finite c) n = (c > n)"
| "cost_above PosInf n = True"
| "cost_above NegInf n = False"
| "cost_above NaN n = False"

record spend_allowance =
  sp_selfLimit :: int
  sp_notifyAbove :: "int option"
  sp_parentMultifactorAbove :: "int option"
  sp_unit :: "string option"

record control_entry =
  ce_action :: string
  ce_resourcePrefix :: "string option"

record control_allowance =
  ca_selfApprove :: "control_entry list option"

datatype escalation_band = Standing_Band | Agent_Band | Parent_Band

record family_topology =
  ft_agentDid :: did
  ft_parentDid :: did

section \<open>The tier of a control act\<close>

text \<open>\<open>resource.startsWith(prefix)\<close> of an absent resource reads the empty string.\<close>

definition entry_covers :: "control_entry \<Rightarrow> string \<Rightarrow> string option \<Rightarrow> bool" where
  "entry_covers e action resource \<longleftrightarrow>
     ce_action e = action \<and>
     (case ce_resourcePrefix e of
        None \<Rightarrow> True
      | Some p \<Rightarrow> p = [] \<or> prefix p (case resource of None \<Rightarrow> [] | Some r \<Rightarrow> r))"

fun self_approvable :: "control_entry list \<Rightarrow> string \<Rightarrow> string option \<Rightarrow> bool" where
  "self_approvable [] action resource = False"
| "self_approvable (e # es) action resource =
     (if entry_covers e action resource then True else self_approvable es action resource)"

definition tierForControlAct :: "string \<Rightarrow> string option \<Rightarrow> control_allowance option \<Rightarrow> authz_tier" where
  "tierForControlAct action resource allowance =
     (let entries = (case allowance of None \<Rightarrow> [] | Some a \<Rightarrow> (case ca_selfApprove a of None \<Rightarrow> [] | Some es \<Rightarrow> es))
      in if self_approvable entries action resource then CHALLENGE else HUMAN)"

section \<open>The tier of a cost\<close>

definition self_limit :: "spend_allowance option \<Rightarrow> int" where
  "self_limit allowance = max 0 (case allowance of None \<Rightarrow> 0 | Some a \<Rightarrow> sp_selfLimit a)"

definition notify_above :: "spend_allowance option \<Rightarrow> int" where
  "notify_above allowance =
     max 0 (case allowance of None \<Rightarrow> 0 | Some a \<Rightarrow> (case sp_notifyAbove a of None \<Rightarrow> 0 | Some n \<Rightarrow> n))"

fun tierForCost :: "js_number \<Rightarrow> spend_allowance option \<Rightarrow> authz_tier" where
  "tierForCost (Finite cost) allowance =
     (if cost \<le> 0 then STANDING
      else if cost \<le> notify_above allowance then STANDING
      else if cost \<le> self_limit allowance then CHALLENGE
      else (case Option.bind allowance sp_parentMultifactorAbove of
              None \<Rightarrow> HUMAN
            | Some mf \<Rightarrow> if cost > max mf (self_limit allowance) then MULTIFACTOR else HUMAN))"
| "tierForCost _ allowance = STANDING"

definition requiredTierWithCost :: "sensitivity \<Rightarrow> js_number \<Rightarrow> spend_allowance option \<Rightarrow> authz_tier" where
  "requiredTierWithCost s cost allowance = max (requiredTier s) (tierForCost cost allowance)"

section \<open>Whose Signet\<close>

definition bandForTier :: "authz_tier \<Rightarrow> escalation_band" where
  "bandForTier tier =
     (if tier \<le> STANDING then Standing_Band else if tier = CHALLENGE then Agent_Band else Parent_Band)"

definition approverForTier :: "authz_tier \<Rightarrow> family_topology \<Rightarrow> did option" where
  "approverForTier tier topology =
     (case bandForTier tier of
        Agent_Band \<Rightarrow> Some (ft_agentDid topology)
      | Parent_Band \<Rightarrow> Some (ft_parentDid topology)
      | Standing_Band \<Rightarrow> None)"

datatype escalation_reason = Within_Standing | Agent_Self_Authorizes | Cost_Exceeds | Sensitivity_Exceeds

record escalation_decision =
  ed_tier :: authz_tier
  ed_band :: escalation_band
  ed_approverDid :: "did option"
  ed_reason :: escalation_reason

definition decideEscalation ::
  "sensitivity option \<Rightarrow> js_number option \<Rightarrow> spend_allowance option \<Rightarrow> family_topology \<Rightarrow> escalation_decision" where
  "decideEscalation sens cost0 allowance topology =
     (let s = (case sens of None \<Rightarrow> PUBLIC | Some x \<Rightarrow> x);
          cost = (case cost0 of None \<Rightarrow> Finite 0 | Some c \<Rightarrow> c);
          tier = requiredTierWithCost s cost allowance;
          band = bandForTier tier;
          reason = (case band of
              Standing_Band \<Rightarrow> Within_Standing
            | Agent_Band \<Rightarrow> Agent_Self_Authorizes
            | Parent_Band \<Rightarrow>
                if cost_above cost (case allowance of None \<Rightarrow> 0 | Some a \<Rightarrow> sp_selfLimit a)
                then Cost_Exceeds else Sensitivity_Exceeds)
      in \<lparr>ed_tier = tier, ed_band = band, ed_approverDid = approverForTier tier topology, ed_reason = reason\<rparr>)"

section \<open>Lemmas\<close>

lemma self_approvable_iff: "self_approvable es action resource \<longleftrightarrow> (\<exists>e \<in> set es. entry_covers e action resource)"
  by (induction es) auto

lemma bandForTier_simps [simp]:
  "bandForTier STANDING = Standing_Band" "bandForTier CHALLENGE = Agent_Band"
  "bandForTier HUMAN = Parent_Band" "bandForTier MULTIFACTOR = Parent_Band"
  by (simp_all add: bandForTier_def scale_defs)

lemma requiredTier_simps [simp]:
  "requiredTier PUBLIC = STANDING" "requiredTier LOW = STANDING" "requiredTier MEDIUM = CHALLENGE"
  "requiredTier HIGH = HUMAN" "requiredTier SEALED = MULTIFACTOR"
  by (simp_all add: requiredTier_def clearsSensitivity_def scale_defs)

text \<open>The band is monotone in the tier, and a maximum of tiers reaches the parent when either does.\<close>

fun band_num :: "escalation_band \<Rightarrow> nat" where
  "band_num Standing_Band = 0" | "band_num Agent_Band = 1" | "band_num Parent_Band = 2"

lemma bandForTier_mono: "t \<le> t' \<Longrightarrow> band_num (bandForTier t) \<le> band_num (bandForTier t')"
  by (cases t; cases t') (simp_all add: scale_defs)

lemma max_tier_cases [simp]:
  "max STANDING t = t" "max t STANDING = t" "max MULTIFACTOR t = MULTIFACTOR" "max t MULTIFACTOR = MULTIFACTOR"
  by (cases t; simp add: max_def scale_defs)+

lemma band_max: "bandForTier (max a b) = Parent_Band \<longleftrightarrow> bandForTier a = Parent_Band \<or> bandForTier b = Parent_Band"
  "bandForTier (max a b) = Standing_Band \<longleftrightarrow> bandForTier a = Standing_Band \<and> bandForTier b = Standing_Band"
  by (cases a; cases b; simp add: max_def scale_defs)+

lemma tierForCost_parent:
  "bandForTier (tierForCost cost allowance) = Parent_Band \<longleftrightarrow>
     (\<exists>c. cost = Finite c \<and> c > self_limit allowance \<and> c > notify_above allowance)"
  by (cases cost) (auto simp: self_limit_def notify_above_def split: option.splits)

lemma tierForCost_standing:
  "bandForTier (tierForCost cost allowance) = Standing_Band \<longleftrightarrow>
     (\<forall>c. cost = Finite c \<longrightarrow> c \<le> notify_above allowance)"
  by (cases cost) (auto simp: self_limit_def notify_above_def split: option.splits)

lemma requiredTier_band: "bandForTier (requiredTier s) = Parent_Band \<longleftrightarrow> s \<ge> HIGH"
  "bandForTier (requiredTier s) = Standing_Band \<longleftrightarrow> s \<le> LOW"
  by (cases s; simp add: scale_defs)+

text \<open>
  Routing is complete and fails closed for finite costs: an action goes to the parent's Signet exactly
  when the artefact is at or above HIGH or the cost exceeds both the signed self limit and the notify line;
  nobody is asked exactly when the artefact is at or below LOW and the cost is not above the notify line; in
  every other case the agent's own Signet is asked. In particular, without an allowance every positive
  finite cost reaches the parent, and a cost that is not finite contributes nothing.
\<close>

theorem escalation_routing:
  "ed_approverDid (decideEscalation s (Some cost) allowance topology) =
     (let sens = (case s of None \<Rightarrow> PUBLIC | Some x \<Rightarrow> x);
          over = (\<lambda>n. case cost of Finite c \<Rightarrow> c > n | _ \<Rightarrow> False)
      in if sens \<ge> HIGH \<or> (over (self_limit allowance) \<and> over (notify_above allowance))
         then Some (ft_parentDid topology)
         else if sens \<le> LOW \<and> \<not> over (notify_above allowance) then None
         else Some (ft_agentDid topology))"
proof -
  let ?sens = "case s of None \<Rightarrow> PUBLIC | Some x \<Rightarrow> x"
  let ?tier = "requiredTierWithCost ?sens cost allowance"
  have p: "bandForTier ?tier = Parent_Band \<longleftrightarrow> ?sens \<ge> HIGH \<or>
      (\<exists>c. cost = Finite c \<and> c > self_limit allowance \<and> c > notify_above allowance)"
    unfolding requiredTierWithCost_def band_max(1) requiredTier_band tierForCost_parent ..
  have st: "bandForTier ?tier = Standing_Band \<longleftrightarrow> ?sens \<le> LOW \<and> (\<forall>c. cost = Finite c \<longrightarrow> c \<le> notify_above allowance)"
    unfolding requiredTierWithCost_def band_max(2) requiredTier_band tierForCost_standing ..
  have a: "ed_approverDid (decideEscalation s (Some cost) allowance topology) = approverForTier ?tier topology"
    by (simp add: decideEscalation_def Let_def)
  show ?thesis
    unfolding a approverForTier_def
    using p st by (cases cost; cases "bandForTier ?tier") (auto simp: Let_def)
qed

lemma tierForControlAct_deny_by_default [simp]: "tierForControlAct action resource None = HUMAN"
  by (simp add: tierForControlAct_def)

lemma tierForControlAct_challenge:
  "tierForControlAct action resource allowance = CHALLENGE \<longleftrightarrow>
     (\<exists>a es e. allowance = Some a \<and> ca_selfApprove a = Some es \<and> e \<in> set es \<and> entry_covers e action resource)"
proof (cases allowance)
  case (Some a)
  then show ?thesis by (cases "ca_selfApprove a") (auto simp: tierForControlAct_def self_approvable_iff)
qed (simp add: tierForControlAct_def)

end
