(* ===== verification/Ruleset.thy ===== *)
theory Ruleset
  imports Escalation Canonical_Json
begin

text \<open>
  Rulesets, the signed operating law of an actor: \<open>packages/core/src/ruleset.ts\<close>. A Ruleset chain is
  a list of signed versions, each linked to its predecessor by content id; \<open>verifyRulesetChain\<close>
  and \<open>operativeRuleset\<close> walk it, and the actor, guardian and spend decisions read its head.

  Keymaster's \<open>verifyProof\<close> is the parameter \<open>V\<close>, a verdict on the object it is handed (a
  rejected promise is the verdict false), and SHA-256 is the parameter \<open>H\<close>. The messages of the
  checks are the constructors of \<open>ruleset_problem\<close>.
\<close>

section \<open>The data\<close>

datatype assurance_tier = Factor1 | Factor2

datatype ruleset_status = Active | Superseded | Revoked

datatype key_holder = By_Warden | By_Subject

record key_custody =
  kc_default :: "key_holder option"
  kc_subject :: "string list option"
  kc_warden :: "string list option"

record ruleset_capabilities =
  rk_kinds :: "string list option"
  rk_verbs :: "string list option"
  rk_assurance :: "(string \<times> assurance_tier) list option"
  rk_stableDidAudiences :: "string list option"
  rk_keyCustody :: "key_custody option"
  rk_spend :: "spend_allowance option"
  rk_control :: "control_allowance option"

record ruleset =
  rs_actor :: did
  rs_actorKind :: string
  rs_resource :: "string option"
  rs_version :: int
  rs_previous :: "string option"
  rs_capabilities :: ruleset_capabilities
  rs_ceiling :: int
  rs_status :: ruleset_status
  rs_subject :: "did option"
  rs_validUntil :: "string option"

text \<open>A detached signature: its \<open>verificationMethod\<close> and its other fields.\<close>

record ruleset_proof =
  pf_method :: "string option"
  pf_rest :: "(string \<times> json) list"

record signed_ruleset = ruleset +
  rs_proof :: "ruleset_proof option"
  rs_memberAck :: "ruleset_proof option"

section \<open>The JSON form and the content id\<close>

definition strings_json :: "string list \<Rightarrow> json" where
  "strings_json xs = JArr (map JStr xs)"

definition assurance_json :: "(string \<times> assurance_tier) list \<Rightarrow> json" where
  "assurance_json ps = JObj (map (\<lambda>(v, t). (v, JStr (case t of Factor1 \<Rightarrow> ''factor1'' | Factor2 \<Rightarrow> ''factor2''))) ps)"

definition holder_json :: "key_holder \<Rightarrow> json" where
  "holder_json h = JStr (case h of By_Warden \<Rightarrow> ''warden'' | By_Subject \<Rightarrow> ''subject'')"

definition custody_json :: "key_custody \<Rightarrow> json" where
  "custody_json c = JObj (opt_field ''default'' holder_json (kc_default c) @
     opt_field ''subject'' strings_json (kc_subject c) @ opt_field ''warden'' strings_json (kc_warden c))"

definition spend_json :: "spend_allowance \<Rightarrow> json" where
  "spend_json a = JObj ((''selfLimit'', JNum (sp_selfLimit a)) # opt_field ''notifyAbove'' JNum (sp_notifyAbove a) @
     opt_field ''parentMultifactorAbove'' JNum (sp_parentMultifactorAbove a) @ opt_field ''unit'' JStr (sp_unit a))"

definition entry_json :: "control_entry \<Rightarrow> json" where
  "entry_json e = JObj ((''action'', JStr (ce_action e)) # opt_field ''resourcePrefix'' JStr (ce_resourcePrefix e))"

definition control_json :: "control_allowance \<Rightarrow> json" where
  "control_json c = JObj (opt_field ''selfApprove'' (\<lambda>es. JArr (map entry_json es)) (ca_selfApprove c))"

definition capabilities_json :: "ruleset_capabilities \<Rightarrow> json" where
  "capabilities_json c = JObj (opt_field ''kinds'' strings_json (rk_kinds c) @
     opt_field ''verbs'' strings_json (rk_verbs c) @ opt_field ''assurance'' assurance_json (rk_assurance c) @
     opt_field ''stableDidAudiences'' strings_json (rk_stableDidAudiences c) @
     opt_field ''keyCustody'' custody_json (rk_keyCustody c) @ opt_field ''spend'' spend_json (rk_spend c) @
     opt_field ''control'' control_json (rk_control c))"

definition status_json :: "ruleset_status \<Rightarrow> json" where
  "status_json s = JStr (case s of Active \<Rightarrow> ''active'' | Superseded \<Rightarrow> ''superseded'' | Revoked \<Rightarrow> ''revoked'')"

definition previous_json :: "string option \<Rightarrow> json" where
  "previous_json p = (case p of None \<Rightarrow> JNull | Some h \<Rightarrow> JStr h)"

definition base_fields :: "'a ruleset_scheme \<Rightarrow> (string \<times> json) list" where
  "base_fields r =
     [(''actor'', JStr (rs_actor r)), (''actorKind'', JStr (rs_actorKind r))] @
     opt_field ''resource'' JStr (rs_resource r) @
     [(''version'', JNum (rs_version r)), (''previous'', previous_json (rs_previous r)),
      (''capabilities'', capabilities_json (rs_capabilities r)), (''ceiling'', JNum (rs_ceiling r)),
      (''status'', status_json (rs_status r))] @
     opt_field ''subject'' JStr (rs_subject r) @ opt_field ''validUntil'' JStr (rs_validUntil r)"

definition proof_json :: "ruleset_proof \<Rightarrow> json" where
  "proof_json p = JObj (opt_field ''verificationMethod'' JStr (pf_method p) @ pf_rest p)"

definition signed_json :: "signed_ruleset \<Rightarrow> json" where
  "signed_json s = JObj (base_fields s @ opt_field ''proof'' proof_json (rs_proof s) @
     opt_field ''memberAck'' proof_json (rs_memberAck s))"

text \<open>\<open>JSON.stringify(v) ?? 'null'\<close> renders what JSON cannot express as \<open>null\<close>.\<close>

fun stableStringify :: "json \<Rightarrow> string" where
  "stableStringify JNull = ''null''"
| "stableStringify (JBool b) = (if b then ''true'' else ''false'')"
| "stableStringify (JNum n) = int_str n"
| "stableStringify (JStr s) = quote_str s"
| "stableStringify (JArr vs) = ''['' @ join '','' (map stableStringify vs) @ '']''"
| "stableStringify (JObj fs) =
     ''{'' @ join '','' (map field_str (sort_key fst (map (\<lambda>(k, v). (k, stableStringify v)) fs))) @ ''}''"
| "stableStringify JUnsupported = ''null''"

definition rulesetId :: "hash \<Rightarrow> signed_ruleset \<Rightarrow> string" where
  "rulesetId H s = H (stableStringify (signed_json s))"

section \<open>Signatures\<close>

datatype ruleset_problem = Not_Signed | No_Signer | Bad_Signature | Different_Signer | Non_Contiguous int
  | Actor_Changed | Genesis_Has_Previous | Broken_Link | Unacknowledged_Widening | Empty_Chain | Wrong_Governor

definition baseRuleset :: "signed_ruleset \<Rightarrow> ruleset" where
  "baseRuleset s = ruleset.truncate s"

definition proof_signer :: "ruleset_proof \<Rightarrow> did" where
  "proof_signer p = before_hash (case pf_method p of None \<Rightarrow> [] | Some m \<Rightarrow> m)"

definition signed_body :: "signed_ruleset \<Rightarrow> ruleset_proof \<Rightarrow> json" where
  "signed_body s p = JObj (base_fields (baseRuleset s) @ [(''proof'', proof_json p)])"

definition verifyRuleset :: "(json \<Rightarrow> bool) \<Rightarrow> signed_ruleset \<Rightarrow> ruleset_problem + did" where
  "verifyRuleset V s =
     (case rs_proof s of
        None \<Rightarrow> Inl Not_Signed
      | Some p \<Rightarrow>
          if proof_signer p = [] then Inl No_Signer
          else if \<not> V (signed_body s p) then Inl Bad_Signature
          else Inr (proof_signer p))"

definition verifyMemberAck :: "(json \<Rightarrow> bool) \<Rightarrow> signed_ruleset \<Rightarrow> bool" where
  "verifyMemberAck V s =
     (case (rs_memberAck s, rs_subject s) of
        (Some p, Some m) \<Rightarrow> m \<noteq> [] \<and> V (signed_body s p) \<and> proof_signer p = m
      | _ \<Rightarrow> False)"

section \<open>The amendment rule\<close>

definition assuranceLevel :: "assurance_tier option \<Rightarrow> nat" where
  "assuranceLevel t = (case t of Some Factor2 \<Rightarrow> 2 | Some Factor1 \<Rightarrow> 1 | None \<Rightarrow> 0)"

definition assurance_of :: "(string \<times> assurance_tier) list option \<Rightarrow> string \<Rightarrow> assurance_tier option" where
  "assurance_of a v = (case a of None \<Rightarrow> None | Some ps \<Rightarrow> map_of ps v)"

definition assurance_verbs :: "(string \<times> assurance_tier) list option \<Rightarrow> string list" where
  "assurance_verbs a = (case a of None \<Rightarrow> [] | Some ps \<Rightarrow> map fst ps)"

definition assuranceLowered ::
  "(string \<times> assurance_tier) list option \<Rightarrow> (string \<times> assurance_tier) list option \<Rightarrow> bool" where
  "assuranceLowered p n =
     list_ex (\<lambda>v. assuranceLevel (assurance_of n v) < assuranceLevel (assurance_of p v))
       (js_set (assurance_verbs p @ assurance_verbs n))"

fun validUntilNarrowsOrEqual :: "string option \<Rightarrow> string option \<Rightarrow> bool" where
  "validUntilNarrowsOrEqual None n = True"
| "validUntilNarrowsOrEqual (Some p) None = False"
| "validUntilNarrowsOrEqual (Some p) (Some n) = (n \<le> p)"

definition guardianshipNarrowsOrEqual :: "'a ruleset_scheme \<Rightarrow> 'b ruleset_scheme \<Rightarrow> bool" where
  "guardianshipNarrowsOrEqual prev next =
     (if rs_status next = Revoked then True
      else if rs_ceiling next > rs_ceiling prev then False
      else if list_ex (\<lambda>k. k \<notin> set (opt_list (rk_kinds (rs_capabilities prev)))) (opt_list (rk_kinds (rs_capabilities next)))
        then False
      else if list_ex (\<lambda>v. v \<notin> set (opt_list (rk_verbs (rs_capabilities prev)))) (opt_list (rk_verbs (rs_capabilities next)))
        then False
      else if \<not> validUntilNarrowsOrEqual (rs_validUntil prev) (rs_validUntil next) then False
      else if assuranceLowered (rk_assurance (rs_capabilities prev)) (rk_assurance (rs_capabilities next)) then False
      else True)"

definition widensIntoPrivateScope :: "'a ruleset_scheme option \<Rightarrow> 'b ruleset_scheme \<Rightarrow> bool" where
  "widensIntoPrivateScope prev next =
     (if \<not> truthy_string (rs_subject next) then False
      else case prev of
        None \<Rightarrow> True
      | Some p \<Rightarrow> if rs_subject p \<noteq> rs_subject next then True else \<not> guardianshipNarrowsOrEqual p next)"

section \<open>The walk of \<open>verifyRulesetChain\<close>\<close>

text \<open>\<open>i\<close> is the loop index, \<open>signer\<close> the variable of the loop, \<open>first\<close> the genesis and \<open>prev\<close>
  the version before.\<close>

definition chain_step_problem ::
  "hash \<Rightarrow> (json \<Rightarrow> bool) \<Rightarrow> nat \<Rightarrow> did option \<Rightarrow> did \<Rightarrow> signed_ruleset \<Rightarrow> signed_ruleset option \<Rightarrow> signed_ruleset
     \<Rightarrow> ruleset_problem option" where
  "chain_step_problem H V i signer s first prev r =
     first_some
       [guard (i = 0 \<or> Some s = signer) Different_Signer,
        guard (rs_version r = int i + 1) (Non_Contiguous (int i + 1)),
        guard (rs_actor r = rs_actor first \<and> rs_actorKind r = rs_actorKind first) Actor_Changed,
        (case prev of
           None \<Rightarrow> guard (rs_previous r = None) Genesis_Has_Previous
         | Some p \<Rightarrow> guard (rs_previous r = Some (rulesetId H p)) Broken_Link),
        guard (\<not> (widensIntoPrivateScope prev r \<and> \<not> verifyMemberAck V r)) Unacknowledged_Widening]"

fun chain_walk ::
  "hash \<Rightarrow> (json \<Rightarrow> bool) \<Rightarrow> nat \<Rightarrow> did option \<Rightarrow> signed_ruleset \<Rightarrow> signed_ruleset option \<Rightarrow> signed_ruleset list
     \<Rightarrow> ruleset_problem + did option" where
  "chain_walk H V i signer first prev [] = Inr signer"
| "chain_walk H V i signer first prev (r # rs) =
     (case verifyRuleset V r of
        Inl e \<Rightarrow> Inl e
      | Inr s \<Rightarrow>
          (case chain_step_problem H V i signer s first prev r of
             Some e \<Rightarrow> Inl e
           | None \<Rightarrow> chain_walk H V (Suc i) (if i = 0 then Some s else signer) first (Some r) rs))"

definition by_version :: "signed_ruleset list \<Rightarrow> signed_ruleset list" where
  "by_version chain = sort_key rs_version chain"

definition governor_pinned :: "did option \<Rightarrow> did option \<Rightarrow> bool" where
  "governor_pinned expected signer \<longleftrightarrow> (truthy_string expected \<longrightarrow> signer = expected)"

definition verifyRulesetChain ::
  "hash \<Rightarrow> (json \<Rightarrow> bool) \<Rightarrow> signed_ruleset list \<Rightarrow> did option \<Rightarrow> ruleset_problem + did option" where
  "verifyRulesetChain H V chain expected =
     (if chain = [] then Inl Empty_Chain
      else let ordered = by_version chain in
        case chain_walk H V 0 None (hd ordered) None ordered of
          Inl e \<Rightarrow> Inl e
        | Inr signer \<Rightarrow> if governor_pinned expected signer then Inr signer else Inl Wrong_Governor)"

section \<open>The walk of \<open>operativeRuleset\<close>\<close>

definition operative_step_ok ::
  "hash \<Rightarrow> (json \<Rightarrow> bool) \<Rightarrow> nat \<Rightarrow> did option \<Rightarrow> did \<Rightarrow> signed_ruleset option \<Rightarrow> signed_ruleset \<Rightarrow> bool" where
  "operative_step_ok H V i signer s prev r \<longleftrightarrow>
     (i = 0 \<or> Some s = signer) \<and> rs_version r = int i + 1 \<and>
     (case prev of None \<Rightarrow> rs_previous r = None | Some p \<Rightarrow> rs_previous r = Some (rulesetId H p)) \<and>
     (widensIntoPrivateScope prev r \<longrightarrow> verifyMemberAck V r)"

text \<open>The loop, left at the first version that fails; its result is \<open>signer\<close> and \<open>lastValid\<close>.\<close>

fun operative_walk ::
  "hash \<Rightarrow> (json \<Rightarrow> bool) \<Rightarrow> nat \<Rightarrow> did option \<Rightarrow> signed_ruleset option \<Rightarrow> signed_ruleset option \<Rightarrow> signed_ruleset list
     \<Rightarrow> did option \<times> signed_ruleset option" where
  "operative_walk H V i signer prev lastValid [] = (signer, lastValid)"
| "operative_walk H V i signer prev lastValid (r # rs) =
     (case verifyRuleset V r of
        Inl _ \<Rightarrow> (signer, lastValid)
      | Inr s \<Rightarrow>
          let signer' = (if i = 0 then Some s else signer) in
          if operative_step_ok H V i signer' s prev r
          then operative_walk H V (Suc i) signer' (Some r) (Some r) rs
          else (signer', lastValid))"

definition operativeRuleset ::
  "hash \<Rightarrow> (json \<Rightarrow> bool) \<Rightarrow> signed_ruleset list \<Rightarrow> did option \<Rightarrow> signed_ruleset option" where
  "operativeRuleset H V chain expected =
     (case operative_walk H V 0 None None None (by_version chain) of
        (signer, lastValid) \<Rightarrow>
          if truthy_string expected \<and> truthy_string signer \<and> signer \<noteq> expected then None
          else case lastValid of None \<Rightarrow> None | Some r \<Rightarrow> if rs_status r = Active then Some r else None)"

section \<open>The decisions that read the head\<close>

datatype guardian_denial = No_Edge | Edge_Expired | Out_Of_Scope

record guardian_request =
  gr_governor :: did
  gr_subject :: did
  gr_kind :: "string option"
  gr_sensitivity :: "int option"
  gr_at :: string

text \<open>\<^const>\<open>None\<close> is \<open>allowed: true\<close>.\<close>

definition authorizeGuardianRead ::
  "hash \<Rightarrow> (json \<Rightarrow> bool) \<Rightarrow> signed_ruleset list \<Rightarrow> guardian_request \<Rightarrow> guardian_denial option" where
  "authorizeGuardianRead H V chain req =
     (case operativeRuleset H V chain (Some (gr_governor req)) of
        None \<Rightarrow> Some No_Edge
      | Some r \<Rightarrow>
          if rs_actor r \<noteq> gr_governor req \<or> rs_subject r \<noteq> Some (gr_subject req) then Some No_Edge
          else if truthy_string (rs_validUntil r) \<and> gr_at req > the (rs_validUntil r) then Some Edge_Expired
          else if truthy_string (gr_kind req) \<and>
              (case rk_kinds (rs_capabilities r) of None \<Rightarrow> False | Some ks \<Rightarrow> the (gr_kind req) \<notin> set ks)
            then Some Out_Of_Scope
          else if (case gr_sensitivity req of None \<Rightarrow> False | Some s \<Rightarrow> s > rs_ceiling r) then Some Out_Of_Scope
          else None)"

definition activeRuleset ::
  "hash \<Rightarrow> (json \<Rightarrow> bool) \<Rightarrow> signed_ruleset list \<Rightarrow> did option \<Rightarrow> signed_ruleset option" where
  "activeRuleset H V chain expected =
     (case verifyRulesetChain H V chain expected of
        Inl _ \<Rightarrow> None
      | Inr _ \<Rightarrow> let head = last (by_version chain) in if rs_status head = Active then Some head else None)"

text \<open>\<open>resolve\<close> is \<open>resolveAsset\<close>: the chain the asset holds, \<^const>\<open>None\<close> when it is not an array
  or cannot be resolved.\<close>

definition verifyProvenSovereign ::
  "hash \<Rightarrow> (json \<Rightarrow> bool) \<Rightarrow> (string \<Rightarrow> signed_ruleset list option) \<Rightarrow> did option \<Rightarrow> string option \<Rightarrow> did option" where
  "verifyProvenSovereign H V resolve parentDid asset =
     (if \<not> truthy_string parentDid \<or> \<not> truthy_string asset then None
      else let chain = opt_list (resolve (the asset)) in
        if chain = [] then None
        else case activeRuleset H V chain parentDid of
          None \<Rightarrow> None
        | Some head \<Rightarrow> if rs_actor head \<noteq> [] then Some (rs_actor head) else None)"

record actor_request =
  aq_verb :: string
  aq_kind :: "string option"
  aq_sensitivity :: "int option"

datatype actor_authz = Actor_Denied_No_Ruleset | Actor_Denied_Verb | Actor_Denied_Kind | Actor_Denied_Sensitivity
  | Actor_Allowed "assurance_tier option"

definition authorizeActor ::
  "hash \<Rightarrow> (json \<Rightarrow> bool) \<Rightarrow> signed_ruleset list \<Rightarrow> actor_request \<Rightarrow> did option \<Rightarrow> actor_authz" where
  "authorizeActor H V chain req expected =
     (case activeRuleset H V chain expected of
        None \<Rightarrow> Actor_Denied_No_Ruleset
      | Some head \<Rightarrow>
          let caps = rs_capabilities head in
          if (case rk_verbs caps of None \<Rightarrow> False | Some vs \<Rightarrow> aq_verb req \<notin> set vs) then Actor_Denied_Verb
          else if truthy_string (aq_kind req) \<and>
              (case rk_kinds caps of None \<Rightarrow> False | Some ks \<Rightarrow> the (aq_kind req) \<notin> set ks) then Actor_Denied_Kind
          else if (case aq_sensitivity req of None \<Rightarrow> False | Some s \<Rightarrow> s > rs_ceiling head) then Actor_Denied_Sensitivity
          else Actor_Allowed (assurance_of (rk_assurance caps) (aq_verb req)))"

section \<open>Lawful histories\<close>

text \<open>
  What the two walks check, without their loops: every version is signed by one governor, versions
  count from one, every version names the content of the one before, and a version that widens a
  guardianship carries the acknowledgment of its subject.
\<close>

definition version_ok ::
  "hash \<Rightarrow> (json \<Rightarrow> bool) \<Rightarrow> did \<Rightarrow> nat \<Rightarrow> signed_ruleset option \<Rightarrow> signed_ruleset \<Rightarrow> bool" where
  "version_ok H V g i prev r \<longleftrightarrow>
     verifyRuleset V r = Inr g \<and> rs_version r = int i + 1 \<and>
     rs_previous r = map_option (rulesetId H) prev \<and>
     (widensIntoPrivateScope prev r \<longrightarrow> verifyMemberAck V r)"

fun lawful_from ::
  "hash \<Rightarrow> (json \<Rightarrow> bool) \<Rightarrow> did \<Rightarrow> nat \<Rightarrow> signed_ruleset option \<Rightarrow> signed_ruleset list \<Rightarrow> bool" where
  "lawful_from H V g i prev [] = True"
| "lawful_from H V g i prev (r # rs) = (version_ok H V g i prev r \<and> lawful_from H V g (Suc i) (Some r) rs)"

definition lawful :: "hash \<Rightarrow> (json \<Rightarrow> bool) \<Rightarrow> did \<Rightarrow> signed_ruleset list \<Rightarrow> bool" where
  "lawful H V g xs = lawful_from H V g 0 None xs"

definition same_actor :: "signed_ruleset list \<Rightarrow> bool" where
  "same_actor xs \<longleftrightarrow> list_all (\<lambda>r. rs_actor r = rs_actor (hd xs) \<and> rs_actorKind r = rs_actorKind (hd xs)) xs"

lemma by_version_simps [simp]:
  "by_version chain = [] \<longleftrightarrow> chain = []" "set (by_version chain) = set chain" "length (by_version chain) = length chain"
  by (simp_all add: by_version_def)

lemma verifyRuleset_signer: "verifyRuleset V r = Inr g \<Longrightarrow> g \<noteq> []"
  by (auto simp: verifyRuleset_def split: option.splits if_splits)

lemma chain_step_ok:
  "chain_step_problem H V i signer s first prev r = None \<longleftrightarrow>
     (i = 0 \<or> Some s = signer) \<and> rs_version r = int i + 1 \<and>
     (rs_actor r = rs_actor first \<and> rs_actorKind r = rs_actorKind first) \<and>
     rs_previous r = map_option (rulesetId H) prev \<and> (widensIntoPrivateScope prev r \<longrightarrow> verifyMemberAck V r)"
  by (cases prev) (auto simp: chain_step_problem_def)

lemma operative_step_ok_iff:
  "verifyRuleset V r = Inr s \<Longrightarrow>
     operative_step_ok H V i signer s prev r \<longleftrightarrow> (i = 0 \<or> Some s = signer) \<and> version_ok H V s i prev r"
  by (cases prev) (auto simp: operative_step_ok_def version_ok_def)

lemma chain_walk_later:
  "i > 0 \<Longrightarrow> chain_walk H V i (Some g) first prev rs = Inr s \<longleftrightarrow>
     s = Some g \<and> lawful_from H V g i prev rs \<and>
     (\<forall>r \<in> set rs. rs_actor r = rs_actor first \<and> rs_actorKind r = rs_actorKind first)"
proof (induction rs arbitrary: i prev)
  case (Cons r rs)
  show ?case
  proof (cases "verifyRuleset V r")
    case (Inr t)
    then show ?thesis
      using Cons.prems chain_step_ok [of H V i "Some g" t first prev r]
      by (cases "chain_step_problem H V i (Some g) t first prev r") (auto simp: Cons.IH version_ok_def)
  qed (auto simp: version_ok_def)
qed auto

lemma chain_walk_iff:
  assumes "xs \<noteq> []"
  shows "chain_walk H V 0 None (hd xs) None xs = Inr s \<longleftrightarrow>
    (\<exists>g. s = Some g \<and> lawful H V g xs \<and> same_actor xs)"
proof -
  obtain r rs where xs: "xs = r # rs" using assms by (cases xs) auto
  show ?thesis
  proof (cases "verifyRuleset V r")
    case (Inl e)
    then show ?thesis by (simp add: xs lawful_def version_ok_def)
  next
    case (Inr t)
    then show ?thesis
      using chain_step_ok [of H V 0 None t r None r]
      by (cases "chain_step_problem H V 0 None t r None r")
        (auto simp: xs lawful_def version_ok_def chain_walk_later same_actor_def list_all_iff)
  qed
qed

text \<open>The longest lawful prefix, where \<open>operativeRuleset\<close> stops.\<close>

fun lawful_prefix ::
  "hash \<Rightarrow> (json \<Rightarrow> bool) \<Rightarrow> did \<Rightarrow> nat \<Rightarrow> signed_ruleset option \<Rightarrow> signed_ruleset list \<Rightarrow> signed_ruleset list" where
  "lawful_prefix H V g i prev [] = []"
| "lawful_prefix H V g i prev (r # rs) =
     (if version_ok H V g i prev r then r # lawful_prefix H V g (Suc i) (Some r) rs else [])"

lemma version_ok_verify: "version_ok H V g i prev r \<Longrightarrow> verifyRuleset V r = Inr g"
  by (simp add: version_ok_def)

lemma operative_walk_later:
  "i > 0 \<Longrightarrow> operative_walk H V i (Some g) prev lastValid rs =
     (Some g, if lawful_prefix H V g i prev rs = [] then lastValid else Some (last (lawful_prefix H V g i prev rs)))"
proof (induction rs arbitrary: i prev lastValid)
  case (Cons r rs)
  show ?case
  proof (cases "verifyRuleset V r")
    case (Inl e)
    then have "\<not> version_ok H V g i prev r" by (simp add: version_ok_def)
    with Inl show ?thesis by simp
  next
    case (Inr t)
    show ?thesis
    proof (cases "version_ok H V g i prev r")
      case True
      with Inr have "t = g" by (simp add: version_ok_def)
      with Inr True Cons.prems show ?thesis by (simp add: operative_step_ok_iff Cons.IH)
    next
      case False
      with Inr Cons.prems show ?thesis by (auto simp: operative_step_ok_iff version_ok_def)
    qed
  qed
qed simp

lemma lawful_prefix_take:
  "k = length (lawful_prefix H V g i prev rs) \<Longrightarrow> lawful_prefix H V g i prev rs = take k rs \<and> k \<le> length rs \<and>
     (\<forall>j \<le> length rs. lawful_from H V g i prev (take j rs) \<longleftrightarrow> j \<le> k)"
proof (induction rs arbitrary: i prev k)
  case (Cons r rs)
  show ?case
  proof (cases "version_ok H V g i prev r")
    case True
    with Cons.prems Cons.IH [OF refl, of "Suc i" "Some r"] show ?thesis
      by (auto simp: take_Cons' Suc_le_eq)
  next
    case False
    with Cons.prems show ?thesis by (auto simp: take_Cons')
  qed
qed simp

lemma operative_walk_first:
  assumes "operative_walk H V 0 None None None xs = (signer, Some r)"
  shows "\<exists>g. signer = Some g \<and> g \<noteq> [] \<and> lawful_prefix H V g 0 None xs \<noteq> [] \<and> r = last (lawful_prefix H V g 0 None xs)"
proof (cases xs)
  case (Cons a as)
  then show ?thesis
    using assms by (cases "verifyRuleset V a")
      (auto simp: operative_step_ok_iff operative_walk_later Let_def split: if_splits dest: verifyRuleset_signer)
qed (use assms in simp)

lemma operative_walk_lawful:
  assumes "lawful_prefix H V g 0 None xs \<noteq> []"
  shows "operative_walk H V 0 None None None xs = (Some g, Some (last (lawful_prefix H V g 0 None xs)))"
proof (cases xs)
  case (Cons a as)
  with assms have ok: "version_ok H V g 0 None a" by (auto split: if_splits)
  then have "verifyRuleset V a = Inr g" by (rule version_ok_verify)
  with Cons ok show ?thesis by (simp add: operative_step_ok_iff operative_walk_later)
qed (use assms in simp)

lemma last_take_nth: "0 < k \<Longrightarrow> k \<le> length xs \<Longrightarrow> last (take k xs) = xs ! (k - 1)"
  by (subst last_conv_nth) auto

lemma operativeRuleset_Some:
  "operativeRuleset H V chain expected = Some r \<longleftrightarrow>
     (\<exists>g k. let xs = by_version chain in
        k < length xs \<and> r = xs ! k \<and> lawful H V g (take (Suc k) xs) \<and>
        (Suc k < length xs \<longrightarrow> \<not> lawful H V g (take (Suc (Suc k)) xs)) \<and>
        rs_status r = Active \<and> (truthy_string expected \<longrightarrow> expected = Some g))"
    (is "?L \<longleftrightarrow> ?R")
proof
  let ?xs = "by_version chain"
  assume ?L
  then obtain signer where w: "operative_walk H V 0 None None None ?xs = (signer, Some r)" "rs_status r = Active"
      "\<not> (truthy_string expected \<and> truthy_string signer \<and> signer \<noteq> expected)"
    by (auto simp: operativeRuleset_def split: option.splits if_splits prod.splits)
  from operative_walk_first [OF w(1)] obtain g where g: "signer = Some g" "g \<noteq> []"
      "lawful_prefix H V g 0 None ?xs \<noteq> []" "r = last (lawful_prefix H V g 0 None ?xs)" by blast
  define k where "k = length (lawful_prefix H V g 0 None ?xs)"
  from lawful_prefix_take [OF k_def] have t: "lawful_prefix H V g 0 None ?xs = take k ?xs" "k \<le> length ?xs"
      "\<And>j. j \<le> length ?xs \<Longrightarrow> lawful H V g (take j ?xs) \<longleftrightarrow> j \<le> k" by (auto simp: lawful_def)
  from g(3) t(1) have k: "0 < k" by (cases k) auto
  have "r = ?xs ! (k - 1)" using g(4) t(1,2) k last_take_nth [of k ?xs] by simp
  then show ?R using k t(2) t(3) [of k] t(3) [of "Suc k"] w(2,3) g(1,2)
    by (intro exI [of _ g] exI [of _ "k - 1"]) (auto simp: Let_def)
next
  let ?xs = "by_version chain"
  assume ?R
  then obtain g k where k: "k < length ?xs" "r = ?xs ! k" "lawful H V g (take (Suc k) ?xs)"
      "Suc k < length ?xs \<longrightarrow> \<not> lawful H V g (take (Suc (Suc k)) ?xs)" "rs_status r = Active"
      "truthy_string expected \<longrightarrow> expected = Some g" by (auto simp: Let_def)
  define n where "n = length (lawful_prefix H V g 0 None ?xs)"
  from lawful_prefix_take [OF n_def] have t: "lawful_prefix H V g 0 None ?xs = take n ?xs" "n \<le> length ?xs"
      "\<And>j. j \<le> length ?xs \<Longrightarrow> lawful H V g (take j ?xs) \<longleftrightarrow> j \<le> n" by (auto simp: lawful_def)
  from k(1,3) t(3) [of "Suc k"] have "Suc k \<le> n" by auto
  moreover have "n \<le> Suc k" using k(4) t(2) t(3) [of "Suc (Suc k)"] by (cases "Suc k < length ?xs") auto
  ultimately have n: "n = Suc k" by simp
  then have ne: "lawful_prefix H V g 0 None ?xs \<noteq> []" using k(1) t(1) by auto
  have "last (take (Suc k) ?xs) = ?xs ! k" using k(1) last_take_nth [of "Suc k" ?xs] by simp
  then have "operative_walk H V 0 None None None ?xs = (Some g, Some r)"
    unfolding operative_walk_lawful [OF ne] t(1) n k(2) by simp
  then show ?L using k(5,6) by (auto simp: operativeRuleset_def)
qed

lemma lawful_governor: "lawful H V g xs \<Longrightarrow> lawful H V g' xs \<Longrightarrow> xs \<noteq> [] \<Longrightarrow> g = g'"
  by (cases xs) (auto simp: lawful_def version_ok_def)

lemma verifyRulesetChain_Inr:
  "verifyRulesetChain H V chain expected = Inr s \<longleftrightarrow>
     chain \<noteq> [] \<and> (\<exists>g. s = Some g \<and> lawful H V g (by_version chain) \<and> same_actor (by_version chain) \<and>
       (truthy_string expected \<longrightarrow> expected = Some g))"
proof (cases "chain = []")
  case False
  then have "by_version chain \<noteq> []" by simp
  note walk = chain_walk_iff [OF this, of H V]
  show ?thesis
  proof (cases "chain_walk H V 0 None (hd (by_version chain)) None (by_version chain)")
    case (Inl e)
    with walk False show ?thesis by (auto simp: verifyRulesetChain_def)
  next
    case (Inr signer)
    with walk [of signer] walk False lawful_governor [OF _ _ \<open>by_version chain \<noteq> []\<close>, of H V] show ?thesis
      by (auto simp: verifyRulesetChain_def governor_pinned_def)
  qed
qed (simp add: verifyRulesetChain_def)

lemma activeRuleset_Some:
  "activeRuleset H V chain expected = Some r \<longleftrightarrow>
     chain \<noteq> [] \<and> r = last (by_version chain) \<and> rs_status r = Active \<and>
     (\<exists>g. lawful H V g (by_version chain) \<and> same_actor (by_version chain) \<and>
       (truthy_string expected \<longrightarrow> expected = Some g))"
  using verifyRulesetChain_Inr [of H V chain expected]
  by (cases "verifyRulesetChain H V chain expected") (auto simp: activeRuleset_def Let_def)

lemma lawful_from_nth:
  "lawful_from H V g i prev rs \<longleftrightarrow>
     (\<forall>j < length rs. version_ok H V g (i + j) (if j = 0 then prev else Some (rs ! (j - 1))) (rs ! j))"
proof (induction rs arbitrary: i prev)
  case (Cons r rs)
  have "(\<forall>j < length (r # rs). P j) \<longleftrightarrow> P 0 \<and> (\<forall>j < length rs. P (Suc j))" for P
    by (auto simp: less_Suc_eq_0_disj)
  then show ?case
    by (simp add: Cons.IH nth_Cons' cong: conj_cong)
qed simp

lemma lawful_nth:
  "lawful H V g xs \<longleftrightarrow>
     (\<forall>j < length xs. version_ok H V g j (if j = 0 then None else Some (xs ! (j - 1))) (xs ! j))"
  by (simp add: lawful_def lawful_from_nth)

section \<open>What a verified chain guarantees\<close>

text \<open>
  C27. The chain verifier accepts exactly the lawful histories: a non-empty chain, ordered by version, whose
  versions count from one, carry valid signatures of one and the same governor (the expected one when a
  reader pins it), name the same actor, are each linked to the content of the version before, and carry the
  subject's own acknowledgment wherever they widen a guardianship.
\<close>

theorem chain_verifies_iff_lawful:
  "verifyRulesetChain H V chain expected = Inr s \<longleftrightarrow>
     chain \<noteq> [] \<and> same_actor (by_version chain) \<and> governor_pinned expected s \<and>
     (\<exists>g. s = Some g \<and> lawful H V g (by_version chain))"
  unfolding verifyRulesetChain_Inr governor_pinned_def by auto

text \<open>
  Fall back and never forward: the operative head is the last version of the longest lawful prefix of the
  chain, provided it is active and its governor is the expected one. A version that is unsigned, tampered
  with, signed by somebody else, unlinked or a seizure ends the prefix, and the version before it stays in
  force whatever follows.
\<close>

theorem operative_is_last_lawful:
  "operativeRuleset H V chain expected = Some r \<longleftrightarrow>
     (\<exists>g k. let xs = by_version chain in
        k < length xs \<and> r = xs ! k \<and> lawful H V g (take (Suc k) xs) \<and>
        \<not> (Suc k < length xs \<and> lawful H V g (take (Suc (Suc k)) xs)) \<and>
        rs_status r = Active \<and> governor_pinned expected (Some g))"
  unfolding operativeRuleset_Some Let_def governor_pinned_def by auto

section \<open>The head pins the history\<close>

definition content :: "signed_ruleset \<Rightarrow> string" where
  "content r = stableStringify (signed_json r)"

definition json_content :: "signed_ruleset \<Rightarrow> bool" where
  "json_content r \<longleftrightarrow> json_wf (signed_json r) \<and> supported (signed_json r)"

lemma those_map_Some: "(\<And>x. x \<in> set xs \<Longrightarrow> f x = Some (g x)) \<Longrightarrow> those (map f xs) = Some (map g xs)"
  by (induction xs) auto

lemma stableStringify_canonical: "supported v \<Longrightarrow> canonicalize v = Some (stableStringify v)"
proof (induction v)
  case (JArr vs)
  then have "those (map canonicalize vs) = Some (map stableStringify vs)"
    by (intro those_map_Some) auto
  then show ?case by simp
next
  case (JObj fs)
  have "those (map (\<lambda>(k, v). map_option (\<lambda>s. (k, s)) (canonicalize v)) fs) = Some (map (\<lambda>(k, v). (k, stableStringify v)) fs)"
  proof (rule those_map_Some)
    fix e assume e: "e \<in> set fs"
    with JObj.prems have "supported (snd e)" by auto
    with JObj.IH [OF e, of "snd e"] show "(\<lambda>(k, v). map_option (\<lambda>s. (k, s)) (canonicalize v)) e
        = Some ((\<lambda>(k, v). (k, stableStringify v)) e)"
      by (cases e) (auto simp: snds.simps)
  qed
  then show ?case by simp
qed auto

lemma map_of_sort_key: "distinct (map fst xs) \<Longrightarrow> map_of (sort_key fst xs) k = map_of xs k"
proof -
  assume d: "distinct (map fst xs)"
  have "distinct (map fst (sort_key fst xs))"
    by (rule distinct_map [THEN iffD2]) (use d in \<open>auto simp: distinct_map\<close>)
  with d have "map_of (sort_key fst xs) = map_of xs" by (subst map_of_inject_set) simp_all
  then show ?thesis by simp
qed

lemma sort_fields_field:
  assumes "sort_fields (JObj fs) = sort_fields (JObj gs)" "distinct (map fst fs)" "distinct (map fst gs)"
  shows "map_option sort_fields (map_of fs k) = map_option sort_fields (map_of gs k)"
proof -
  let ?s = "map (\<lambda>(k, v). (k, sort_fields v))"
  have m: "map_of (?s xs) k = map_option sort_fields (map_of xs k)" for xs by (simp add: map_of_map)
  have d: "distinct (map fst xs) \<Longrightarrow> distinct (map fst (?s xs))" for xs :: "(string \<times> json) list"
    by (simp add: comp_def case_prod_unfold)
  from assms(1) have "map_of (sort_key fst (?s fs)) k = map_of (sort_key fst (?s gs)) k" by simp
  then show ?thesis using map_of_sort_key [OF d, of fs k] map_of_sort_key [OF d, of gs k] assms(2,3) m by simp
qed

lemma signed_json_field:
  "k \<in> {''version'', ''previous''} \<Longrightarrow>
     map_of (base_fields s @ opt_field ''proof'' proof_json (rs_proof s) @ opt_field ''memberAck'' proof_json (rs_memberAck s)) k =
       Some (if k = ''version'' then JNum (rs_version s) else previous_json (rs_previous s))"
  by (cases "rs_resource s") (auto simp: base_fields_def opt_field_def)

lemma content_inj:
  assumes "content a = content b" "json_content a" "json_content b"
  shows "rs_version a = rs_version b \<and> rs_previous a = rs_previous b"
proof -
  let ?f = "\<lambda>s :: signed_ruleset. base_fields s @ opt_field ''proof'' proof_json (rs_proof s) @ opt_field ''memberAck'' proof_json (rs_memberAck s)"
  from assms have "canonicalize (signed_json a) = canonicalize (signed_json b)"
    using stableStringify_canonical by (simp add: content_def json_content_def)
  then have "sort_fields (signed_json a) = sort_fields (signed_json b)"
    using assms(2,3) canonicalize_eq_iff by (auto simp: json_content_def)
  then have eq: "map_option sort_fields (map_of (?f a) k) = map_option sort_fields (map_of (?f b) k)" for k
    using assms(2,3) by (intro sort_fields_field) (auto simp: signed_json_def json_content_def)
  from eq [of "''version''"] eq [of "''previous''"] show ?thesis
    by (simp add: signed_json_field previous_json_def del: map_of_append split: option.splits)
qed

text \<open>
  The content id of the head pins the whole history: two chains that both verify and whose heads have
  the same content id consist of the same versions, content for content, or else the two contents at
  some position are a collision of the hash. A governor cannot present two histories behind one head.
\<close>

theorem head_pins_history:
  assumes "verifyRulesetChain H V a ea = Inr s" "verifyRulesetChain H V b eb = Inr s'"
    and "\<And>r. r \<in> set a \<union> set b \<Longrightarrow> json_content r"
    and "rulesetId H (last (by_version a)) = rulesetId H (last (by_version b))"
  shows "map content (by_version a) = map content (by_version b) \<or>
    (\<exists>r \<in> set a. \<exists>r' \<in> set b. collision H (content r) (content r'))"
proof (rule disjCI)
  let ?xs = "by_version a" and ?ys = "by_version b"
  assume "\<not> (\<exists>r \<in> set a. \<exists>r' \<in> set b. collision H (content r) (content r'))"
  then have nc: "rulesetId H r = rulesetId H r' \<Longrightarrow> content r = content r'" if "r \<in> set ?xs" "r' \<in> set ?ys" for r r'
    using that by (auto simp: rulesetId_def content_def collision_def)
  have ne: "?xs \<noteq> []" "?ys \<noteq> []" using assms(1,2) by (auto simp: verifyRulesetChain_Inr)
  have inj: "rs_version r = rs_version r' \<and> rs_previous r = rs_previous r'" if "content r = content r'" "r \<in> set ?xs" "r' \<in> set ?ys" for r r'
    using content_inj [OF that(1)] that(2,3) assms(3) by auto
  obtain g g' where l: "lawful H V g ?xs" "lawful H V g' ?ys" using assms(1,2) by (auto simp: verifyRulesetChain_Inr)
  have v: "j < length ?xs \<Longrightarrow> rs_version (?xs ! j) = int j + 1 \<and>
      rs_previous (?xs ! j) = (if j = 0 then None else Some (rulesetId H (?xs ! (j - 1))))"
    "j < length ?ys \<Longrightarrow> rs_version (?ys ! j) = int j + 1 \<and>
      rs_previous (?ys ! j) = (if j = 0 then None else Some (rulesetId H (?ys ! (j - 1))))" for j
    using l by (auto simp: lawful_nth version_ok_def)
  have top: "content (last ?xs) = content (last ?ys)" using nc [OF last_in_set last_in_set] assms(4) ne by blast
  from inj [OF this last_in_set last_in_set] ne v(1) [of "length ?xs - 1"] v(2) [of "length ?ys - 1"] have len: "length ?xs = length ?ys"
    by (auto simp: last_conv_nth of_nat_diff Suc_le_eq)
  have "content (?xs ! (length ?xs - 1 - d)) = content (?ys ! (length ?xs - 1 - d))" if "d < length ?xs" for d
    using that
  proof (induction d)
    case 0
    then show ?case using top ne len by (simp add: last_conv_nth)
  next
    case (Suc d)
    let ?j = "length ?xs - 1 - d"
    have j: "0 < ?j" "?j < length ?xs" "?j - 1 = length ?xs - 1 - Suc d" using Suc.prems by auto
    from Suc have "content (?xs ! ?j) = content (?ys ! ?j)" by simp
    from inj [OF this] nth_mem [of ?j ?xs] nth_mem [of ?j ?ys] j len v(1) [of ?j] v(2) [of ?j]
    have "rulesetId H (?xs ! (?j - 1)) = rulesetId H (?ys ! (?j - 1))" by auto
    then show ?case
      using nc [of "?xs ! (?j - 1)" "?ys ! (?j - 1)"] nth_mem [of "?j - 1" ?xs] nth_mem [of "?j - 1" ?ys] j len by simp
  qed
  note step = this
  have "content (?xs ! j) = content (?ys ! j)" if "j < length ?xs" for j
  proof -
    have "length ?xs - 1 - (length ?xs - 1 - j) = j" "length ?xs - 1 - j < length ?xs" using that by auto
    with step [of "length ?xs - 1 - j"] show ?thesis by simp
  qed
  then show "map content ?xs = map content ?ys" using len by (simp add: list_eq_iff_nth_eq)
qed

section \<open>Guardianship: grantable, not seizable\<close>

text \<open>\<open>covers a b\<close>: on every declared axis the reach of \<open>b\<close> is within that of \<open>a\<close>.\<close>

definition covers :: "signed_ruleset \<Rightarrow> signed_ruleset \<Rightarrow> bool" where
  "covers a b \<longleftrightarrow>
     rs_ceiling b \<le> rs_ceiling a \<and>
     set (opt_list (rk_kinds (rs_capabilities b))) \<subseteq> set (opt_list (rk_kinds (rs_capabilities a))) \<and>
     set (opt_list (rk_verbs (rs_capabilities b))) \<subseteq> set (opt_list (rk_verbs (rs_capabilities a))) \<and>
     validUntilNarrowsOrEqual (rs_validUntil a) (rs_validUntil b)"

lemma validUntil_refl [simp]: "validUntilNarrowsOrEqual v v"
  by (cases v) auto

lemma validUntil_trans: "validUntilNarrowsOrEqual a b \<Longrightarrow> validUntilNarrowsOrEqual b c \<Longrightarrow> validUntilNarrowsOrEqual a c"
  by (cases a; cases b; cases c) auto

lemma covers_refl: "covers a a"
  by (simp add: covers_def)

lemma covers_trans [narrowing]: "covers a b \<Longrightarrow> covers b c \<Longrightarrow> covers a c"
  unfolding covers_def using validUntil_trans by (meson order_trans subset_trans)

lemma narrows_covers:
  assumes "guardianshipNarrowsOrEqual a b" "rs_status b \<noteq> Revoked"
  shows "covers a b"
proof -
  have "\<not> rs_ceiling b > rs_ceiling a"
    "\<not> list_ex (\<lambda>k. k \<notin> set (opt_list (rk_kinds (rs_capabilities a)))) (opt_list (rk_kinds (rs_capabilities b)))"
    "\<not> list_ex (\<lambda>k. k \<notin> set (opt_list (rk_verbs (rs_capabilities a)))) (opt_list (rk_verbs (rs_capabilities b)))"
    "validUntilNarrowsOrEqual (rs_validUntil a) (rs_validUntil b)"
    using assms unfolding guardianshipNarrowsOrEqual_def by (simp_all split: if_splits)
  then show ?thesis by (auto simp: covers_def list_ex_iff)
qed

lemma lawful_acknowledged:
  assumes "lawful H V g xs" "\<And>r. r \<in> set xs \<Longrightarrow> rs_status r \<noteq> Revoked" "m \<noteq> []"
    and "j < length xs" "rs_subject (xs ! j) = Some m"
  shows "\<exists>i \<le> j. rs_subject (xs ! i) = Some m \<and> verifyMemberAck V (xs ! i) \<and> covers (xs ! i) (xs ! j)"
  using assms(4,5)
proof (induction j)
  case 0
  with assms(1) have "version_ok H V g 0 None (xs ! 0)" by (auto simp: lawful_nth)
  with 0 assms(3) show ?case by (auto simp: version_ok_def widensIntoPrivateScope_def covers_refl)
next
  case (Suc j)
  then have ok: "version_ok H V g (Suc j) (Some (xs ! j)) (xs ! Suc j)"
    using assms(1) [unfolded lawful_nth, rule_format, of "Suc j"] by simp
  show ?case
  proof (cases "verifyMemberAck V (xs ! Suc j)")
    case True
    with Suc.prems covers_refl show ?thesis by blast
  next
    case False
    with ok have "\<not> widensIntoPrivateScope (Some (xs ! j)) (xs ! Suc j)" by (simp add: version_ok_def)
    with Suc.prems assms(3) have n: "rs_subject (xs ! j) = Some m" "guardianshipNarrowsOrEqual (xs ! j) (xs ! Suc j)"
      by (auto simp: widensIntoPrivateScope_def split: if_splits)
    with Suc.prems assms(2) have "covers (xs ! j) (xs ! Suc j)" by (intro narrows_covers) auto
    moreover obtain i where "i \<le> j" "rs_subject (xs ! i) = Some m" "verifyMemberAck V (xs ! i)" "covers (xs ! i) (xs ! j)"
      using Suc.IH [OF _ n(1)] Suc.prems(1) by auto
    ultimately have "i \<le> Suc j \<and> rs_subject (xs ! i) = Some m \<and> verifyMemberAck V (xs ! i) \<and> covers (xs ! i) (xs ! Suc j)"
      using covers_trans [of "xs ! i" "xs ! j"] by auto
    then show ?thesis by blast
  qed
qed

lemma authorizeGuardianRead_None:
  "authorizeGuardianRead H V chain req = None \<longleftrightarrow>
     (\<exists>r. operativeRuleset H V chain (Some (gr_governor req)) = Some r \<and> rs_actor r = gr_governor req \<and>
        rs_subject r = Some (gr_subject req) \<and>
        (truthy_string (rs_validUntil r) \<longrightarrow> gr_at req \<le> the (rs_validUntil r)) \<and>
        (\<forall>k ks. gr_kind req = Some k \<longrightarrow> k \<noteq> [] \<longrightarrow> rk_kinds (rs_capabilities r) = Some ks \<longrightarrow> k \<in> set ks) \<and>
        (\<forall>s. gr_sensitivity req = Some s \<longrightarrow> s \<le> rs_ceiling r))"
proof (cases "operativeRuleset H V chain (Some (gr_governor req))")
  case (Some r)
  have kinds: "(truthy_string (gr_kind req) \<and> (case rk_kinds (rs_capabilities r) of None \<Rightarrow> False | Some ks \<Rightarrow> the (gr_kind req) \<notin> set ks))
      \<longleftrightarrow> \<not> (\<forall>k ks. gr_kind req = Some k \<longrightarrow> k \<noteq> [] \<longrightarrow> rk_kinds (rs_capabilities r) = Some ks \<longrightarrow> k \<in> set ks)"
    by (cases "gr_kind req"; cases "rk_kinds (rs_capabilities r)") auto
  have sens: "(case gr_sensitivity req of None \<Rightarrow> False | Some s \<Rightarrow> s > rs_ceiling r)
      \<longleftrightarrow> \<not> (\<forall>s. gr_sensitivity req = Some s \<longrightarrow> s \<le> rs_ceiling r)"
    by (cases "gr_sensitivity req") auto
  have e: "(if b1 then Some No_Edge else if b2 then Some Edge_Expired else if b3 then Some Out_Of_Scope
      else if b4 then Some Out_Of_Scope else None) = None \<longleftrightarrow> \<not> b1 \<and> \<not> b2 \<and> \<not> b3 \<and> \<not> b4" for b1 b2 b3 b4
    by simp
  show ?thesis unfolding authorizeGuardianRead_def Some option.case e kinds sens not_not by (auto simp: not_less)
qed (simp add: authorizeGuardianRead_def)


section \<open>Amendments that need no acknowledgment\<close>

text \<open>
  The rule above is stated for plain chains because the code lets three amendments through as narrowings.
  After a revoked version anything is a narrowing of what the revoked version says, and a revoked version
  itself may say anything; leaving \<open>kinds\<close> out counts as the empty list, although the readers take it
  for every kind; and the empty expiry compares below every date, although the readers take it for none.
\<close>

lemma widens_None_revoked: "rs_status n = Revoked \<Longrightarrow> rs_subject n = rs_subject p \<Longrightarrow> \<not> widensIntoPrivateScope (Some p) n"
  by (simp add: widensIntoPrivateScope_def guardianshipNarrowsOrEqual_def)

lemma not_assuranceLowered_refl: "\<not> assuranceLowered a a"
  by (simp add: assuranceLowered_def list_ex_iff)

text \<open>\<open>same_reach\<close>: the later version restates the reach of the earlier one.\<close>

definition same_reach :: "signed_ruleset \<Rightarrow> signed_ruleset \<Rightarrow> bool" where
  "same_reach a b \<longleftrightarrow> rs_capabilities a = rs_capabilities b \<and> rs_ceiling a = rs_ceiling b \<and>
     rs_subject a = rs_subject b \<and> rs_validUntil a = rs_validUntil b"

lemma same_reach_not_widening: "same_reach a b \<Longrightarrow> \<not> widensIntoPrivateScope (Some a) b"
  by (auto simp: same_reach_def widensIntoPrivateScope_def guardianshipNarrowsOrEqual_def not_assuranceLowered_refl
      list_ex_iff)

text \<open>
  A revoked version launders a widening. Take any guardianship \<open>v1\<close> the member acknowledged. The governor
  alone signs a revoked \<open>v2\<close> with whatever reach they like and then an active \<open>v3\<close> restating it; neither
  carries an acknowledgment. The chain is lawful to the code, \<open>v3\<close> is its operative head, and the governor
  reads whatever the reach of \<open>v3\<close> names: guardianship is seized.
\<close>

theorem revoked_version_launders_widening:
  assumes "verifyRuleset V v1 = Inr (gr_governor req)" "verifyRuleset V v2 = Inr (gr_governor req)"
    "verifyRuleset V v3 = Inr (gr_governor req)"
    and "rs_version v1 = 1" "rs_version v2 = 2" "rs_version v3 = 3"
    and "rs_previous v1 = None" "rs_previous v2 = Some (rulesetId H v1)" "rs_previous v3 = Some (rulesetId H v2)"
    and "verifyMemberAck V v1" "rs_subject v1 = Some (gr_subject req)" "rs_subject v2 = Some (gr_subject req)"
    and "rs_status v2 = Revoked" "rs_status v3 = Active" "same_reach v2 v3" "rs_actor v3 = gr_governor req"
    and "rk_kinds (rs_capabilities v3) = None" "rs_validUntil v3 = None"
    and "gr_sensitivity req = Some s" "s \<le> rs_ceiling v3"
  shows "authorizeGuardianRead H V [v1, v2, v3] req = None"
proof -
  have sorted: "by_version [v1, v2, v3] = [v1, v2, v3]" using assms(4-6) by (simp add: by_version_def)
  have "lawful H V (gr_governor req) [v1, v2, v3]"
    using assms same_reach_not_widening [OF assms(15)] widens_None_revoked [of v2 v1]
    by (simp add: lawful_def version_ok_def)
  then have "operativeRuleset H V [v1, v2, v3] (Some (gr_governor req)) = Some v3"
    unfolding operativeRuleset_Some sorted Let_def
    using assms(14) by (intro exI [of _ "gr_governor req"] exI [of _ "2::nat"]) (simp add: numeral_2_eq_2)
  moreover have "rs_subject v3 = Some (gr_subject req)" using assms(12,15) by (simp add: same_reach_def)
  ultimately show ?thesis unfolding authorizeGuardianRead_None using assms(16-20) by auto
qed

text \<open>
  Leaving out \<open>kinds\<close> and emptying the expiry counts as a narrowing: from any acknowledged, active
  guardianship \<open>v1\<close> the governor alone signs a \<open>v2\<close> that differs from it only in these two fields, and may
  then read every kind at every time.
\<close>

theorem dropped_scope_needs_no_acknowledgment:
  assumes "verifyRuleset V v1 = Inr (gr_governor req)" "verifyRuleset V v2 = Inr (gr_governor req)"
    and "rs_version v1 = 1" "rs_version v2 = 2" "rs_previous v1 = None" "rs_previous v2 = Some (rulesetId H v1)"
    and "verifyMemberAck V v1" "rs_subject v1 = Some (gr_subject req)" "rs_subject v2 = rs_subject v1"
    and "rs_status v2 = Active" "rs_actor v2 = gr_governor req" "rs_ceiling v2 = rs_ceiling v1"
    and "rs_capabilities v2 = (rs_capabilities v1)\<lparr>rk_kinds := None\<rparr>" "rs_validUntil v2 = Some []"
    and "gr_sensitivity req = Some s" "s \<le> rs_ceiling v1"
  shows "authorizeGuardianRead H V [v1, v2] req = None"
proof -
  have sorted: "by_version [v1, v2] = [v1, v2]" using assms(3,4) by (simp add: by_version_def)
  have "guardianshipNarrowsOrEqual v1 v2"
    using assms(10,12-14) by (cases "rs_validUntil v1")
      (auto simp: guardianshipNarrowsOrEqual_def not_assuranceLowered_refl opt_list_def list_ex_iff)
  then have "\<not> widensIntoPrivateScope (Some v1) v2" using assms(9) by (simp add: widensIntoPrivateScope_def)
  then have "lawful H V (gr_governor req) [v1, v2]" using assms by (simp add: lawful_def version_ok_def)
  then have "operativeRuleset H V [v1, v2] (Some (gr_governor req)) = Some v2"
    unfolding operativeRuleset_Some sorted Let_def
    using assms(10) by (intro exI [of _ "gr_governor req"] exI [of _ "1::nat"]) simp
  then show ?thesis unfolding authorizeGuardianRead_None using assms(8,9,11-16) by auto
qed

section \<open>A proven sovereign\<close>

text \<open>
  A proven sovereign is a parent's attestation: when \<open>verifyProvenSovereign\<close> names a DID, the asset holds
  a chain in which every version carries a valid signature of the parent and names that DID as its actor;
  configuration plays no part.
\<close>

theorem proven_sovereign_attested:
  assumes "verifyProvenSovereign H V resolve (Some parent) asset = Some d"
  shows "\<exists>a chain. asset = Some a \<and> resolve a = Some chain \<and> chain \<noteq> [] \<and> d \<noteq> [] \<and> parent \<noteq> [] \<and>
    (\<forall>r \<in> set chain. verifyRuleset V r = Inr parent \<and> rs_actor r = d) \<and>
    rs_status (last (by_version chain)) = Active"
proof -
  from assms obtain a chain head where c: "parent \<noteq> []" "asset = Some a" "resolve a = Some chain" "chain \<noteq> []"
      "activeRuleset H V chain (Some parent) = Some head" "rs_actor head \<noteq> []" "d = rs_actor head"
    by (auto simp: verifyProvenSovereign_def opt_list_def Let_def truthy_string_iff
        split: if_splits option.splits)
  from c(1,5) have h: "head = last (by_version chain)" "rs_status head = Active" "lawful H V parent (by_version chain)"
      "same_actor (by_version chain)"
    by (auto simp: activeRuleset_Some)
  have "verifyRuleset V r = Inr parent \<and> rs_actor r = d" if r: "r \<in> set chain" for r
  proof
    obtain j where "j < length (by_version chain)" "r = by_version chain ! j"
      using r in_set_conv_nth [of r "by_version chain"] by auto
    then show "verifyRuleset V r = Inr parent" using h(3) version_ok_verify by (auto simp: lawful_nth)
    have "head \<in> set (by_version chain)" using h(1) c(4) last_in_set [of "by_version chain"] by simp
    then show "rs_actor r = d" using h(4) r c(7) by (auto simp: same_actor_def list_all_iff)
  qed
  then show ?thesis using c h by blast
qed

end
