(* ===== verification/Ruleset_Example.thy ===== *)
theory Ruleset_Example
  imports Ruleset
begin

text \<open>
  Concrete chains and the witnesses of the properties of \<open>Ruleset\<close>: the governor \<open>G\<close> watches the
  member \<open>M\<close>, every signature verifies, and the hash is the identity.
\<close>

definition rx_caps :: "string list option \<Rightarrow> ruleset_capabilities" where
  "rx_caps ks = \<lparr>rk_kinds = ks, rk_verbs = Some [''read''], rk_assurance = None, rk_stableDidAudiences = None,
     rk_keyCustody = None, rk_spend = None, rk_control = None\<rparr>"

definition rx_proof :: "string \<Rightarrow> ruleset_proof" where
  "rx_proof d = \<lparr>pf_method = Some (d @ ''#key-1''), pf_rest = []\<rparr>"

definition rx_version ::
  "int \<Rightarrow> string option \<Rightarrow> string list option \<Rightarrow> int \<Rightarrow> ruleset_status \<Rightarrow> string option \<Rightarrow> ruleset_proof option \<Rightarrow> signed_ruleset" where
  "rx_version n prev ks ceil st until ack = \<lparr>rs_actor = ''G'', rs_actorKind = ''guardian'', rs_resource = None,
     rs_version = n, rs_previous = prev, rs_capabilities = rx_caps ks, rs_ceiling = ceil, rs_status = st,
     rs_subject = Some ''M'', rs_validUntil = until, rs_proof = Some (rx_proof ''G''), rs_memberAck = ack\<rparr>"

definition rx1 :: signed_ruleset where
  "rx1 = rx_version 1 None (Some [''location'']) 1 Active (Some ''2026'') (Some (rx_proof ''M''))"

definition rx2 :: signed_ruleset where
  "rx2 = rx_version 2 (Some (rulesetId id rx1)) None 4 Revoked None None"

definition rx3 :: signed_ruleset where
  "rx3 = rx_version 3 (Some (rulesetId id rx2)) None 4 Active None None"

definition rx4 :: signed_ruleset where
  "rx4 = rx_version 2 (Some (rulesetId id rx1)) None 1 Active (Some []) None"

definition rx_req :: "string \<Rightarrow> int \<Rightarrow> string \<Rightarrow> guardian_request" where
  "rx_req k s at = \<lparr>gr_governor = ''G'', gr_subject = ''M'', gr_kind = Some k, gr_sensitivity = Some s, gr_at = at\<rparr>"

abbreviation rx_V :: "json \<Rightarrow> bool" where
  "rx_V \<equiv> \<lambda>_. True"

lemma rx_signed [simp]: "verifyRuleset rx_V (rx_version n p ks c st u a) = Inr ''G''"
  by (simp add: verifyRuleset_def rx_version_def rx_proof_def proof_signer_def before_hash_def)

lemma rx_acked [simp]: "verifyMemberAck rx_V (rx_version n p ks c st u (Some (rx_proof ''M'')))"
  by (simp add: verifyMemberAck_def rx_version_def rx_proof_def proof_signer_def before_hash_def)

lemma rx_fields [simp]:
  "rs_version (rx_version n p ks c st u a) = n" "rs_previous (rx_version n p ks c st u a) = p"
  "rs_capabilities (rx_version n p ks c st u a) = rx_caps ks" "rs_ceiling (rx_version n p ks c st u a) = c"
  "rs_status (rx_version n p ks c st u a) = st" "rs_validUntil (rx_version n p ks c st u a) = u"
  "rs_subject (rx_version n p ks c st u a) = Some ''M''" "rs_actor (rx_version n p ks c st u a) = ''G''"
  "rk_kinds (rx_caps ks) = ks"
  by (simp_all add: rx_version_def rx_caps_def)

lemma rx_head_chain: "verifyRulesetChain id rx_V [rx1] (Some ''G'') = Inr (Some ''G'')"
  by code_simp

lemma head_pins_history_witness:
  "map content (by_version [rx1]) = map content (by_version [rx1]) \<or>
     (\<exists>r \<in> set [rx1]. \<exists>r' \<in> set [rx1]. collision id (content r) (content r'))"
proof -
  have "json_content rx1" by code_simp
  then show ?thesis by (intro head_pins_history [OF rx_head_chain rx_head_chain]) auto
qed


lemma revoked_version_launders_widening_witness:
  "authorizeGuardianRead id rx_V [rx1, rx2, rx3] (rx_req ''medical'' 4 ''2099'') = None"
  by (rule revoked_version_launders_widening [where s = 4])
    (simp_all add: rx1_def rx2_def rx3_def rx_req_def same_reach_def)

lemma dropped_scope_needs_no_acknowledgment_witness:
  "authorizeGuardianRead id rx_V [rx1, rx4] (rx_req ''medical'' 1 ''2099'') = None"
  by (rule dropped_scope_needs_no_acknowledgment [where s = 1])
    (simp_all add: rx1_def rx4_def rx_req_def rx_caps_def)

lemma proven_sovereign_attested_witness:
  "\<exists>a chain. Some ''asset'' = Some a \<and> Some [rx1] = Some chain \<and>
     (\<forall>r \<in> set chain. verifyRuleset rx_V r = Inr ''G'' \<and> rs_actor r = ''G'')"
proof -
  have "verifyProvenSovereign id rx_V (\<lambda>_. Some [rx1]) (Some ''G'') (Some ''asset'') = Some ''G''" by code_simp
  from proven_sovereign_attested [OF this] show ?thesis by auto
qed

end
