(* ===== verification/Selective_Disclosure.thy ===== *)
theory Selective_Disclosure
  imports Canonical_Json
begin

text \<open>
  Selectively disclosable credentials: \<open>packages/core/src/selective-disclosure.ts\<close>. The issuer signs the
  sorted digests of salted properties; the holder reveals some of them; the verifier recomputes their
  digests. Fresh salts, the issuer's signature (\<open>addProof\<close>), its verification and the pairwise encryption of
  the payload are parameters.
\<close>

section \<open>The data\<close>

record sd_disclosure =
  xd_salt :: string
  xd_name :: string
  xd_value :: json

text \<open>\<open>cm_proof\<close> is the \<open>verificationMethod\<close> of the proof, empty when it is missing; \<^const>\<open>None\<close> is
  commitments without a proof.\<close>

record signed_commitments =
  cm_sd :: "string list"
  cm_issuer :: did
  cm_credentialType :: string
  cm_validUntil :: "string option"
  cm_proof :: "string option"

record sd_presentation =
  pr_commitments :: signed_commitments
  pr_disclosures :: "sd_disclosure list"

record issued_disclosure =
  ic_commitments :: signed_commitments
  ic_disclosures :: "sd_disclosure list"
  ic_payloadDid :: string

section \<open>Digests and issuance\<close>

definition disclosure_json :: "sd_disclosure \<Rightarrow> json" where
  "disclosure_json d = JObj [(''name'', JStr (xd_name d)), (''salt'', JStr (xd_salt d)), (''value'', xd_value d)]"

text \<open>\<^const>\<open>None\<close> is the error thrown by \<open>canonicalize\<close>.\<close>

definition digestDisclosure :: "hash \<Rightarrow> sd_disclosure \<Rightarrow> string option" where
  "digestDisclosure H d = map_option H (canonicalize (disclosure_json d))"

definition salted :: "(nat \<Rightarrow> string) \<Rightarrow> (string \<times> json) list \<Rightarrow> sd_disclosure list" where
  "salted freshSalt properties =
     map (\<lambda>(i, n, v). \<lparr>xd_salt = freshSalt i, xd_name = n, xd_value = v\<rparr>) (enumerate 0 properties)"

definition issueDisclosureCredential ::
  "hash \<Rightarrow> (nat \<Rightarrow> string) \<Rightarrow> (signed_commitments \<Rightarrow> signed_commitments) \<Rightarrow> (sd_disclosure list \<Rightarrow> did \<Rightarrow> string) \<Rightarrow>
     did \<Rightarrow> did \<Rightarrow> (string \<times> json) list \<Rightarrow> string \<Rightarrow> string option \<Rightarrow> issued_disclosure option" where
  "issueDisclosureCredential H freshSalt addProof encryptJSON issuerDid holder properties credentialType validUntil =
     (let disclosures = salted freshSalt properties
      in case those (map (digestDisclosure H) disclosures) of
        None \<Rightarrow> None
      | Some digests \<Rightarrow>
          let commitments = addProof \<lparr>cm_sd = sort digests, cm_issuer = issuerDid,
                cm_credentialType = credentialType, cm_validUntil = validUntil, cm_proof = None\<rparr>
          in Some \<lparr>ic_commitments = commitments, ic_disclosures = disclosures,
               ic_payloadDid = encryptJSON disclosures holder\<rparr>)"

section \<open>Presentation\<close>

definition selectDisclosures :: "sd_disclosure list \<Rightarrow> string list \<Rightarrow> sd_disclosure list" where
  "selectDisclosures ds names = filter (\<lambda>d. xd_name d \<in> set names) ds"

definition assemblePresentation :: "signed_commitments \<Rightarrow> sd_disclosure list \<Rightarrow> string list \<Rightarrow> sd_presentation" where
  "assemblePresentation commitments ds requested =
     \<lparr>pr_commitments = commitments, pr_disclosures = selectDisclosures ds requested\<rparr>"

section \<open>Verification\<close>

datatype sd_problem = No_Issuer_Signature | Issuer_Signature_Fails | Wrong_Sd_Signer | Unexpected_Issuer
  | Credential_Expired | No_Matching_Digest string | Sd_Throws

text \<open>The membership loop; a later disclosure of a name overwrites an earlier one.\<close>

fun check_membership ::
  "hash \<Rightarrow> string list \<Rightarrow> (string \<Rightarrow> json option) \<Rightarrow> sd_disclosure list \<Rightarrow> sd_problem + (string \<Rightarrow> json option)" where
  "check_membership H sd disclosed [] = Inr disclosed"
| "check_membership H sd disclosed (d # ds) =
     (case digestDisclosure H d of
        None \<Rightarrow> Inl Sd_Throws
      | Some h \<Rightarrow>
          if h \<notin> set sd then Inl (No_Matching_Digest (xd_name d))
          else check_membership H sd (disclosed(xd_name d \<mapsto> xd_value d)) ds)"

definition verifyPresentation ::
  "hash \<Rightarrow> (signed_commitments \<Rightarrow> bool) \<Rightarrow> sd_presentation \<Rightarrow> did option \<Rightarrow> string option \<Rightarrow>
     sd_problem + (string \<Rightarrow> json option)" where
  "verifyPresentation H verifyProof p expectedIssuer now =
     (let c = pr_commitments p in
      case cm_proof c of
        None \<Rightarrow> Inl No_Issuer_Signature
      | Some vm \<Rightarrow>
          if \<not> verifyProof c then Inl Issuer_Signature_Fails
          else if before_hash vm \<noteq> cm_issuer c then Inl Wrong_Sd_Signer
          else if truthy_string expectedIssuer \<and> Some (cm_issuer c) \<noteq> expectedIssuer then Inl Unexpected_Issuer
          else if truthy_string (cm_validUntil c) \<and> truthy_string now \<and> the now > the (cm_validUntil c)
            then Inl Credential_Expired
          else check_membership H (cm_sd c) Map.empty (pr_disclosures p))"

section \<open>Lemmas\<close>

lemma check_membership_Inr:
  "check_membership H sd m ds = Inr m' \<longleftrightarrow>
     (\<forall>d \<in> set ds. \<exists>h \<in> set sd. digestDisclosure H d = Some h) \<and>
     m' = m ++ map_of (rev (map (\<lambda>d. (xd_name d, xd_value d)) ds))"
proof (induction ds arbitrary: m)
  case (Cons d ds)
  have "m ++ map_of (rev (map (\<lambda>d. (xd_name d, xd_value d)) (d # ds))) =
      m(xd_name d \<mapsto> xd_value d) ++ map_of (rev (map (\<lambda>d. (xd_name d, xd_value d)) ds))"
    by (simp add: map_add_def fun_eq_iff split: option.split)
  with Cons.IH [of "m(xd_name d \<mapsto> xd_value d)"] show ?case
    by (cases "digestDisclosure H d") (auto simp del: fun_upd_apply)
qed auto

lemma verifyPresentation_Inr:
  "verifyPresentation H V p expected now = Inr m \<longleftrightarrow>
     (let c = pr_commitments p in
      (\<exists>vm. cm_proof c = Some vm \<and> before_hash vm = cm_issuer c) \<and> V c \<and>
      (truthy_string expected \<longrightarrow> Some (cm_issuer c) = expected) \<and>
      \<not> (truthy_string (cm_validUntil c) \<and> truthy_string now \<and> the now > the (cm_validUntil c)) \<and>
      check_membership H (cm_sd c) Map.empty (pr_disclosures p) = Inr m)"
  by (auto simp: verifyPresentation_def Let_def split: option.splits if_splits)

lemma disclosed_in:
  "m = map_of (rev (map (\<lambda>d. (xd_name d, xd_value d)) ds)) \<Longrightarrow> m k = Some v \<Longrightarrow>
     \<exists>d \<in> set ds. xd_name d = k \<and> xd_value d = v"
  by (auto dest!: map_of_SomeD)

lemma disclosure_json_wf [simp]: "json_wf (disclosure_json d) \<longleftrightarrow> json_wf (xd_value d)"
  by (simp add: disclosure_json_def)

lemma sort_fields_disclosure:
  "sort_fields (disclosure_json d) =
     JObj [(''name'', JStr (xd_name d)), (''salt'', JStr (xd_salt d)), (''value'', sort_fields (xd_value d))]"
  by (simp add: disclosure_json_def)

lemma sd_digest_binds:
  assumes "digestDisclosure H d = Some h" "digestDisclosure H d' = Some h"
    and "json_wf (xd_value d)" "json_wf (xd_value d')"
  shows "(xd_name d = xd_name d' \<and> xd_salt d = xd_salt d' \<and> sort_fields (xd_value d) = sort_fields (xd_value d')) \<or>
    (\<exists>t t'. canonicalize (disclosure_json d) = Some t \<and> canonicalize (disclosure_json d') = Some t' \<and> collision H t t')"
proof -
  from assms(1,2) obtain t t' where t: "canonicalize (disclosure_json d) = Some t"
      "canonicalize (disclosure_json d') = Some t'" "H t = H t'"
    by (auto simp: digestDisclosure_def)
  show ?thesis
  proof (cases "t = t'")
    case True
    with t assms(3,4) have "sort_fields (disclosure_json d) = sort_fields (disclosure_json d')"
      by (intro canonicalize_inj) auto
    then show ?thesis by (simp add: sort_fields_disclosure)
  qed (use t in \<open>auto simp: collision_def\<close>)
qed

lemma those_set: "those xs = Some ys \<Longrightarrow> y \<in> set ys \<longleftrightarrow> Some y \<in> set xs"
  by (induction xs arbitrary: ys) (auto split: option.splits)

lemma those_map_in: "those (map f xs) = Some ys \<Longrightarrow> x \<in> set xs \<Longrightarrow> \<exists>y \<in> set ys. f x = Some y"
  by (induction xs arbitrary: ys) (auto split: option.splits)

lemma issued_digests:
  assumes "issueDisclosureCredential H fs addProof enc iss holder props ty vu = Some ic"
    and "\<And>b. cm_sd (addProof b) = cm_sd b"
  shows "h \<in> set (cm_sd (ic_commitments ic)) \<longleftrightarrow> (\<exists>d \<in> set (ic_disclosures ic). digestDisclosure H d = Some h)"
proof -
  from assms(1) obtain digests where d: "those (map (digestDisclosure H) (salted fs props)) = Some digests"
    "ic_disclosures ic = salted fs props" "set (cm_sd (ic_commitments ic)) = set digests"
    by (auto simp: issueDisclosureCredential_def Let_def assms(2) split: option.splits)
  then show ?thesis using those_set [OF d(1), of h] by (auto simp: eq_commute [of "Some h"])
qed

lemma before_hash_append: "CHR ''#'' \<notin> set s \<Longrightarrow> before_hash (s @ CHR ''#'' # t) = s"
  by (induction s) (auto simp: before_hash_def)

lemma map_of_rev_distinct: "distinct (map fst xs) \<Longrightarrow> map_of (rev xs) = map_of xs"
  by (subst map_of_inject_set) (simp_all add: rev_map [symmetric])

lemma map_of_filter_names: "map_of (filter (\<lambda>kv. fst kv \<in> A) xs) = (\<lambda>n. if n \<in> A then map_of xs n else None)"
  by (induction xs) (auto simp: fun_eq_iff)

lemma digestDisclosure_None: "digestDisclosure H d = None \<longleftrightarrow> \<not> supported (xd_value d)"
  by (simp add: digestDisclosure_def canonicalize_None_iff) (simp add: disclosure_json_def)

lemma those_map_None: "those (map f xs) = None \<longleftrightarrow> (\<exists>x \<in> set xs. f x = None)"
  by (induction xs) (auto split: option.split)

text \<open>Issuance succeeds exactly when every value has a JSON form.\<close>

lemma issue_None_iff:
  "issueDisclosureCredential H fs addProof enc iss holder props ty vu = None \<longleftrightarrow> (\<exists>p \<in> set props. \<not> supported (snd p))"
proof -
  have "(\<exists>d \<in> set (salted fs props). \<not> supported (xd_value d)) \<longleftrightarrow>
      (\<exists>v \<in> set (map xd_value (salted fs props)). \<not> supported v)" by auto
  also have "map xd_value (salted fs props) = map snd props"
    by (simp add: salted_def comp_def case_prod_unfold) (simp flip: map_map [unfolded comp_def])
  finally show ?thesis
    using those_map_None [of "digestDisclosure H" "salted fs props"]
    by (auto simp: issueDisclosureCredential_def Let_def digestDisclosure_None split: option.split)
qed

section \<open>Properties\<close>

text \<open>
  What is presented is what was issued: when a presentation of an issued credential is accepted, every
  disclosed property has the value the issuer gave it, up to the order of object fields, or the canonical
  texts of a presented and of an issued property are a collision of the hash. Nobody can present a changed
  value, a renamed property or one that was never issued.
\<close>

theorem disclosed_as_issued:
  assumes "issueDisclosureCredential H fs addProof enc iss holder props ty vu = Some ic"
    and "\<And>b. cm_sd (addProof b) = cm_sd b"
    and "verifyPresentation H V p expected now = Inr m" "cm_sd (pr_commitments p) = cm_sd (ic_commitments ic)"
    and "\<And>d. d \<in> set (pr_disclosures p) \<union> set (ic_disclosures ic) \<Longrightarrow> json_wf (xd_value d)"
    and "m name = Some v"
  shows "(\<exists>d \<in> set (ic_disclosures ic). xd_name d = name \<and> sort_fields (xd_value d) = sort_fields v) \<or>
    (\<exists>d \<in> set (pr_disclosures p). \<exists>d' \<in> set (ic_disclosures ic). \<exists>t t'.
       canonicalize (disclosure_json d) = Some t \<and> canonicalize (disclosure_json d') = Some t' \<and> collision H t t')"
proof -
  from assms(3) have "check_membership H (cm_sd (pr_commitments p)) Map.empty (pr_disclosures p) = Inr m"
    by (simp add: verifyPresentation_Inr Let_def)
  then have mem: "\<forall>d \<in> set (pr_disclosures p). \<exists>h \<in> set (cm_sd (pr_commitments p)). digestDisclosure H d = Some h"
    and m: "m = map_of (rev (map (\<lambda>d. (xd_name d, xd_value d)) (pr_disclosures p)))"
    by (auto simp: check_membership_Inr)
  from disclosed_in [OF m assms(6)] obtain d where d: "d \<in> set (pr_disclosures p)" "xd_name d = name" "xd_value d = v" by blast
  with mem obtain h where h: "h \<in> set (cm_sd (ic_commitments ic))" "digestDisclosure H d = Some h" using assms(4) by auto
  with issued_digests [OF assms(1,2)] obtain d' where d': "d' \<in> set (ic_disclosures ic)" "digestDisclosure H d' = Some h" by blast
  from sd_digest_binds [OF h(2) d'(2)] assms(5) d d'(1) show ?thesis by (metis UnI1 UnI2)
qed

lemma selected_disclosures_verify_lemma:
  assumes "issueDisclosureCredential H fs addProof enc iss holder props ty vu = Some ic"
    and "distinct (map fst props)"
    and "\<And>b. addProof b = b\<lparr>cm_proof := Some (iss @ ''#key-1'')\<rparr>" "\<And>b. V (addProof b)" "CHR ''#'' \<notin> set iss"
    and "now = None \<or> vu = None"
  shows "verifyPresentation H V (assemblePresentation (ic_commitments ic) (ic_disclosures ic) names) (Some iss) now =
    Inr (\<lambda>n. if n \<in> set names then map_of props n else None)"
proof -
  from assms(1) obtain digests where d: "those (map (digestDisclosure H) (salted fs props)) = Some digests"
    "ic_disclosures ic = salted fs props"
    "ic_commitments ic = addProof \<lparr>cm_sd = sort digests, cm_issuer = iss, cm_credentialType = ty, cm_validUntil = vu, cm_proof = None\<rparr>"
    by (auto simp: issueDisclosureCredential_def Let_def split: option.splits)
  let ?sel = "selectDisclosures (salted fs props) names"
  have vm: "before_hash (iss @ ''#key-1'') = iss"
    using before_hash_append [OF assms(5), of "''key-1''"] by simp
  have pairs: "map (\<lambda>d. (xd_name d, xd_value d)) (salted fs props) = props"
    by (simp add: salted_def comp_def case_prod_unfold)
  have "map (\<lambda>d. (xd_name d, xd_value d)) ?sel =
      filter (\<lambda>kv. fst kv \<in> set names) (map (\<lambda>d. (xd_name d, xd_value d)) (salted fs props))"
    by (simp add: selectDisclosures_def filter_map comp_def)
  then have sel: "map (\<lambda>d. (xd_name d, xd_value d)) ?sel = filter (\<lambda>kv. fst kv \<in> set names) props"
    by (simp only: pairs)
  have "distinct (map fst (filter (\<lambda>kv. fst kv \<in> set names) props))" using assms(2) by (simp add: distinct_map_filter)
  then have m: "map_of (rev (map (\<lambda>d. (xd_name d, xd_value d)) ?sel)) = (\<lambda>n. if n \<in> set names then map_of props n else None)"
    unfolding sel
    by (subst map_of_rev_distinct) (auto simp: map_of_filter_names)
  have "check_membership H (sort digests) Map.empty ?sel = Inr (\<lambda>n. if n \<in> set names then map_of props n else None)"
    unfolding check_membership_Inr m using those_map_in [OF d(1)] by (auto simp: selectDisclosures_def)
  then show ?thesis
    unfolding verifyPresentation_Inr Let_def assemblePresentation_def d(2,3)
    using assms(3,5,6) assms(4) [of "\<lparr>cm_sd = sort digests, cm_issuer = iss, cm_credentialType = ty,
        cm_validUntil = vu, cm_proof = None\<rparr>"] vm by auto
qed

text \<open>
  Issue, present, verify: any choice of properties of an issued credential with distinct property names
  is accepted by a verifier who expects its issuer, before its expiry, and the verifier learns exactly the
  chosen properties with their values, and no other name.
\<close>

theorem selected_disclosures_verify:
  assumes "issueDisclosureCredential H fs addProof enc iss holder props ty vu = Some ic"
    and "distinct (map fst props)"
    and "\<And>b. addProof b = b\<lparr>cm_proof := Some (iss @ ''#key-1'')\<rparr>" "\<And>b. V (addProof b)" "CHR ''#'' \<notin> set iss"
    and "now = None \<or> vu = None"
  shows "verifyPresentation H V (assemblePresentation (ic_commitments ic) (ic_disclosures ic) names) (Some iss) now =
    Inr (\<lambda>n. if n \<in> set names then map_of props n else None)"
  using assms by (rule selected_disclosures_verify_lemma)

section \<open>A concrete credential\<close>

definition xs_sign :: "signed_commitments \<Rightarrow> signed_commitments" where
  "xs_sign b = b\<lparr>cm_proof := Some (''I'' @ ''#key-1'')\<rparr>"

definition xs_props :: "(string \<times> json) list" where
  "xs_props = [(''tier'', JStr ''friend''), (''age'', JNum 42)]"

definition xs_issued :: "issued_disclosure option" where
  "xs_issued = issueDisclosureCredential id (\<lambda>i. replicate (Suc i) CHR ''s'') xs_sign (\<lambda>_ _. ''payload'') ''I'' ''H''
     xs_props ''T'' None"

lemma xs_accepted:
  "\<exists>ic. xs_issued = Some ic \<and> verifyPresentation id (\<lambda>_. True)
     (assemblePresentation (ic_commitments ic) (ic_disclosures ic) [''tier'']) (Some ''I'') None =
     Inr (\<lambda>n. if n \<in> set [''tier''] then map_of xs_props n else None)"
proof -
  obtain ic where ic: "xs_issued = Some ic"
    by (simp add: xs_issued_def issueDisclosureCredential_def Let_def xs_props_def salted_def enumerate_eq_zip
        digestDisclosure_def disclosure_json_def)
  have "verifyPresentation id (\<lambda>_. True)
      (assemblePresentation (ic_commitments ic) (ic_disclosures ic) [''tier'']) (Some ''I'') None =
      Inr (\<lambda>n. if n \<in> set [''tier''] then map_of xs_props n else None)"
    by (rule selected_disclosures_verify_lemma [OF ic [unfolded xs_issued_def]])
      (simp_all add: xs_sign_def xs_props_def)
  with ic show ?thesis by blast
qed

lemma selected_disclosures_verify_witness:
  "\<exists>ic. xs_issued = Some ic \<and> verifyPresentation id (\<lambda>_. True)
     (assemblePresentation (ic_commitments ic) (ic_disclosures ic) [''tier'']) (Some ''I'') None =
     Inr (\<lambda>n. if n \<in> set [''tier''] then map_of xs_props n else None)"
proof -
  obtain ic where ic: "xs_issued = Some ic" using xs_accepted by blast
  have "verifyPresentation id (\<lambda>_. True)
      (assemblePresentation (ic_commitments ic) (ic_disclosures ic) [''tier'']) (Some ''I'') None =
      Inr (\<lambda>n. if n \<in> set [''tier''] then map_of xs_props n else None)"
    by (rule selected_disclosures_verify [OF ic [unfolded xs_issued_def]])
      (simp_all add: xs_sign_def xs_props_def)
  with ic show ?thesis by blast
qed

lemma disclosed_as_issued_witness:
  "\<exists>ic. xs_issued = Some ic \<and>
     ((\<exists>d \<in> set (ic_disclosures ic). xd_name d = ''tier'' \<and> sort_fields (xd_value d) = JStr ''friend'') \<or>
      (\<exists>t t'. collision id t t'))"
proof -
  obtain ic where ic: "xs_issued = Some ic" "verifyPresentation id (\<lambda>_. True)
      (assemblePresentation (ic_commitments ic) (ic_disclosures ic) [''tier'']) (Some ''I'') None =
      Inr (\<lambda>n. if n \<in> set [''tier''] then map_of xs_props n else None)"
    using xs_accepted by blast
  have wf: "json_wf (xd_value d)" if "d \<in> set (ic_disclosures ic)" for d
    using ic(1) that
    by (auto simp: xs_issued_def issueDisclosureCredential_def Let_def salted_def xs_props_def enumerate_eq_zip
        split: option.splits)
  have "(\<exists>d \<in> set (ic_disclosures ic). xd_name d = ''tier'' \<and> sort_fields (xd_value d) = sort_fields (JStr ''friend'')) \<or>
    (\<exists>d \<in> set (selectDisclosures (ic_disclosures ic) [''tier'']). \<exists>d' \<in> set (ic_disclosures ic). \<exists>t t'.
       canonicalize (disclosure_json d) = Some t \<and> canonicalize (disclosure_json d') = Some t' \<and> collision id t t')"
    using disclosed_as_issued [OF ic(1) [unfolded xs_issued_def] _ ic(2), of "''tier''" "JStr ''friend''"]
    by (simp add: xs_sign_def xs_props_def assemblePresentation_def)
      (use wf in \<open>auto simp: selectDisclosures_def\<close>)
  with ic(1) show ?thesis by auto
qed

end
