(* ===== verification/Mesh.thy ===== *)
theory Mesh
  imports Complex_Main Attenuation Selective_Disclosure Status_List Escalation
begin

text \<open>
  The trusted-knowledge mesh: \<open>packages/core/src/mesh.ts\<close>. A query crosses from a node's Emissary to the
  Warden of a friend, which admits it on a recognition credential, reasons over the rungs of its ladder
  that the presenter's tier and the arrival depth open, and otherwise forwards it one hop further.

  Confidences are rationals. What Keymaster and the node contribute to one query is the record
  \<open>mesh_env\<close>: the verification of the issuer's signature, the status check of the resolver, the reading of
  a disclosed value as a number, and the Warden's own signature. An encrypted answer is its recipient with
  the content only the recipient can read.
\<close>

section \<open>Queries and delegations\<close>

datatype query_mode = Fact | Reasoning

record mesh_query =
  mq_text :: string
  mq_mode :: query_mode
  mq_domain :: string
  mq_maxNodes :: int
  mq_rate :: int
  mq_arrivalDepth :: "int option"
  mq_pathConfidence :: "rat option"
  mq_depthRemaining :: "int option"
  mq_visited :: "did list option"

definition or_else :: "'a option \<Rightarrow> 'a \<Rightarrow> 'a" where
  "or_else x d = (case x of None \<Rightarrow> d | Some v \<Rightarrow> v)"

definition mode_name :: "query_mode \<Rightarrow> string" where
  "mode_name m = (case m of Fact \<Rightarrow> ''fact'' | Reasoning \<Rightarrow> ''reasoning'')"

definition delegatedScope :: "string list \<Rightarrow> query_mode list \<Rightarrow> authority_set" where
  "delegatedScope domains modes = \<lparr>operations = [''query''],
     resources = map (\<lambda>d. ''domain:'' @ d) domains @ map (\<lambda>m. ''mode:'' @ mode_name m) modes\<rparr>"

definition query_scope :: "mesh_query \<Rightarrow> authority_set" where
  "query_scope q = \<lparr>operations = [''query''],
     resources = [''domain:'' @ mq_domain q, ''mode:'' @ mode_name (mq_mode q)]\<rparr>"

datatype scope_problem = Scope_Exceeded | Nodes_Exceeded | Rate_Exceeded | Depth_Not_Decreased

text \<open>\<^const>\<open>None\<close> is \<open>ok: true\<close>.\<close>

definition scopeQueryToDelegation :: "mesh_query \<Rightarrow> authority_set \<Rightarrow> int \<Rightarrow> int \<Rightarrow> scope_problem option" where
  "scopeQueryToDelegation q delegated maxNodes rate =
     (if \<not> isSubset (query_scope q) delegated then Some Scope_Exceeded
      else if mq_maxNodes q > maxNodes then Some Nodes_Exceeded
      else if mq_rate q > rate then Some Rate_Exceeded
      else None)"

definition budgetSubset :: "mesh_query \<Rightarrow> mesh_query \<Rightarrow> scope_problem option" where
  "budgetSubset child parent =
     (if \<not> isSubset (query_scope child) (query_scope parent) then Some Scope_Exceeded
      else if mq_maxNodes child > mq_maxNodes parent then Some Nodes_Exceeded
      else if mq_rate child > mq_rate parent then Some Rate_Exceeded
      else if or_else (mq_depthRemaining child) 0 > or_else (mq_depthRemaining parent) 0 - 1
        then Some Depth_Not_Decreased
      else None)"

section \<open>The ladder\<close>

datatype provenance = Asserted | Inferred

record partition_fact =
  fa_ref :: string
  fa_provenance :: provenance
  fa_confidence :: rat
  fa_narrative :: string
  fa_keywords :: "string list"

record mesh_partition =
  pt_name :: string
  pt_domain :: string
  pt_facts :: "partition_fact list"
  pt_minTier :: string
  pt_maxArrivalDepth :: int
  pt_minPathConfidence :: "rat option"

definition rung_open :: "string list \<Rightarrow> nat \<Rightarrow> int \<Rightarrow> rat \<Rightarrow> mesh_partition \<Rightarrow> bool" where
  "rung_open tierOrder presenterRank arrivalDepth pathConfidence p =
     (case index_of tierOrder (pt_minTier p) of
        None \<Rightarrow> False
      | Some needRank \<Rightarrow>
          if presenterRank < needRank then False
          else if arrivalDepth > pt_maxArrivalDepth p then False
          else if (case pt_minPathConfidence p of None \<Rightarrow> False | Some c \<Rightarrow> pathConfidence < c) then False
          else True)"

definition permittedPartitions ::
  "mesh_partition list \<Rightarrow> string list \<Rightarrow> string \<Rightarrow> int \<Rightarrow> rat \<Rightarrow> mesh_partition list" where
  "permittedPartitions ladder tierOrder presenterTier arrivalDepth pathConfidence =
     (case index_of tierOrder presenterTier of
        None \<Rightarrow> []
      | Some presenterRank \<Rightarrow> filter (rung_open tierOrder presenterRank arrivalDepth pathConfidence) ladder)"

text \<open>\<open>s.includes(k)\<close>; \<open>lower\<close> is \<open>toLowerCase\<close>.\<close>

definition str_includes :: "string \<Rightarrow> string \<Rightarrow> bool" where
  "str_includes s k = list_ex (prefix k) (suffixes s)"

fun reasonOverPartitions ::
  "(string \<Rightarrow> string) \<Rightarrow> mesh_query \<Rightarrow> mesh_partition list \<Rightarrow> (partition_fact \<times> string) option" where
  "reasonOverPartitions lower q [] = None"
| "reasonOverPartitions lower q (p # ps) =
     (if pt_domain p \<noteq> mq_domain q then reasonOverPartitions lower q ps
      else case find (\<lambda>f. list_ex (str_includes (lower (mq_text q))) (fa_keywords f)) (pt_facts p) of
        Some f \<Rightarrow> Some (f, pt_name p)
      | None \<Rightarrow> reasonOverPartitions lower q ps)"

section \<open>Answers\<close>

record mesh_answer =
  an_reference :: string
  an_provenance :: provenance
  an_factConfidence :: rat
  an_recognitionConfidence :: rat
  an_narrative :: string
  an_domain :: string
  an_answeredBy :: did
  an_statusListVersion :: "status_pin option"
  an_proof :: "string option"

text \<open>A relayed answer whose content was itself relayed has no \<open>answeredBy\<close>.\<close>

record relay_assertion =
  ra_relayedBy :: did
  ra_answerer :: "did option"
  ra_edgeConfidence :: rat
  ra_recognitionId :: string
  ra_proof :: "string option"

datatype mesh_content = Direct mesh_answer | Relayed mesh_content relay_assertion

record sealed_answer =
  se_to :: did
  se_content :: mesh_content

datatype mesh_rejection = Recognition_Check | Binding_Check | Revocation_Check | Depth_Check | Cycle_Check | Budget_Check
  | Signature_Check | Validity_Check | Membership_Check | Threw_Check

datatype mesh_result = Mesh_granted sealed_answer | Mesh_rejected mesh_rejection | Mesh_no_answer | Mesh_threw

section \<open>Admission\<close>

record mesh_envelope =
  ev_query :: mesh_query
  ev_recognition :: sd_presentation
  ev_presenterDid :: did

record mesh_policy =
  po_recognizedIssuer :: did
  po_tierOrder :: "string list"
  po_statusListCredential :: did
  po_maxRelayDepth :: "int option"

record mesh_env =
  mv_hash :: hash
  mv_verifyProof :: "signed_commitments \<Rightarrow> bool"
  mv_check :: "js_number \<Rightarrow> status_check"
  mv_number :: "json \<Rightarrow> js_number"
  mv_confidence :: "json \<Rightarrow> rat"
  mv_string :: "json \<Rightarrow> string"
  mv_lower :: "string \<Rightarrow> string"
  mv_self :: did
  mv_signAnswer :: "mesh_answer \<Rightarrow> mesh_answer"
  mv_signRelay :: "relay_assertion \<Rightarrow> relay_assertion"

text \<open>\<open>Number(v)\<close>: \<open>NaN\<close> on \<open>undefined\<close>; \<open>mv_number\<close> reads strings, arrays and objects.\<close>

definition js_to_number :: "mesh_env \<Rightarrow> json option \<Rightarrow> js_number" where
  "js_to_number env v =
     (case v of
        None \<Rightarrow> NaN
      | Some (JNum n) \<Rightarrow> Finite n
      | Some JNull \<Rightarrow> Finite 0
      | Some (JBool b) \<Rightarrow> Finite (if b then 1 else 0)
      | Some JUnsupported \<Rightarrow> NaN
      | Some other \<Rightarrow> mv_number env other)"

text \<open>\<open>v ?? d\<close> on a disclosed value.\<close>

definition nullish_else :: "json option \<Rightarrow> json \<Rightarrow> json" where
  "nullish_else v d = (case v of None \<Rightarrow> d | Some JNull \<Rightarrow> d | Some JUnsupported \<Rightarrow> d | Some x \<Rightarrow> x)"

definition rejection_of :: "sd_problem \<Rightarrow> mesh_rejection" where
  "rejection_of e = (case e of
     No_Issuer_Signature \<Rightarrow> Signature_Check | Issuer_Signature_Fails \<Rightarrow> Signature_Check | Wrong_Sd_Signer \<Rightarrow> Signature_Check
   | Unexpected_Issuer \<Rightarrow> Recognition_Check | Credential_Expired \<Rightarrow> Validity_Check
   | No_Matching_Digest _ \<Rightarrow> Membership_Check | Sd_Throws \<Rightarrow> Threw_Check)"

text \<open>\<open>claimedRemaining > Math.min(Number(maxDepth) - 1, maxRelayDepth ?? 0)\<close>; a comparison with \<open>NaN\<close> is
  false, and the minimum with an infinity is the other argument or the infinity.\<close>

definition depth_exceeded :: "js_number \<Rightarrow> int \<Rightarrow> int \<Rightarrow> bool" where
  "depth_exceeded maxDepth relayDepth claimed =
     (case maxDepth of
        Finite m \<Rightarrow> claimed > min (m - 1) relayDepth
      | PosInf \<Rightarrow> claimed > relayDepth
      | NegInf \<Rightarrow> True
      | NaN \<Rightarrow> False)"

definition admit ::
  "mesh_env \<Rightarrow> mesh_policy \<Rightarrow> mesh_envelope \<Rightarrow> mesh_rejection + ((string \<Rightarrow> json option) \<times> status_pin)" where
  "admit env pol e =
     (case verifyPresentation (mv_hash env) (mv_verifyProof env) (ev_recognition e) (Some (po_recognizedIssuer pol)) None of
        Inl p \<Rightarrow> Inl (rejection_of p)
      | Inr d \<Rightarrow>
          if d ''subject'' \<noteq> Some (JStr (ev_presenterDid e)) then Inl Binding_Check
          else if (case d ''statusListCredential'' of Some (JStr c) \<Rightarrow> c \<noteq> po_statusListCredential pol | _ \<Rightarrow> False)
            then Inl Revocation_Check
          else case mv_check env (js_to_number env (d ''statusListIndex'')) of
              Unavailable _ \<Rightarrow> Inl Revocation_Check
            | Known revoked pin \<Rightarrow>
                if revoked then Inl Revocation_Check
                else if depth_exceeded (js_to_number env (Some (nullish_else (d ''maxDepth'') (JNum 1))))
                    (or_else (po_maxRelayDepth pol) 0) (or_else (mq_depthRemaining (ev_query e)) 0)
                  then Inl Depth_Check
                else Inr (d, pin))"

section \<open>Answering and forwarding\<close>

record friend_recognition =
  fr_cred :: issued_disclosure
  fr_recognitionId :: string
  fr_confidence :: rat
  fr_friendWardenDid :: did
  fr_domain :: string

record mesh_forwarding =
  fw_emissaryDid :: did
  fw_friends :: "friend_recognition list"

definition RECOGNITION_DISCLOSE :: "string list" where
  "RECOGNITION_DISCLOSE = [''subject'', ''tier'', ''recognitionId'', ''confidence'', ''maxDepth'', ''statusListIndex'',
     ''statusListCredential'']"

definition presentRecognition :: "issued_disclosure \<Rightarrow> sd_presentation" where
  "presentRecognition cred = assemblePresentation (ic_commitments cred) (ic_disclosures cred) RECOGNITION_DISCLOSE"

definition recognition_confidence :: "mesh_env \<Rightarrow> (string \<Rightarrow> json option) \<Rightarrow> rat" where
  "recognition_confidence env d = mv_confidence env (nullish_else (d ''confidence'') (JNum 0))"

definition path_confidence :: "mesh_env \<Rightarrow> mesh_query \<Rightarrow> (string \<Rightarrow> json option) \<Rightarrow> rat" where
  "path_confidence env q d = or_else (mq_pathConfidence q) 1 * recognition_confidence env d"

definition open_rungs ::
  "mesh_env \<Rightarrow> mesh_policy \<Rightarrow> mesh_partition list \<Rightarrow> mesh_query \<Rightarrow> (string \<Rightarrow> json option) \<Rightarrow> mesh_partition list" where
  "open_rungs env pol ladder q d =
     permittedPartitions ladder (po_tierOrder pol) (mv_string env (nullish_else (d ''tier'') (JStr [])))
       (or_else (mq_arrivalDepth q) 1) (path_confidence env q d)"

definition answer_of ::
  "mesh_env \<Rightarrow> mesh_envelope \<Rightarrow> (string \<Rightarrow> json option) \<Rightarrow> status_pin \<Rightarrow> partition_fact \<Rightarrow> mesh_answer" where
  "answer_of env e d pin f = mv_signAnswer env
     \<lparr>an_reference = fa_ref f, an_provenance = fa_provenance f, an_factConfidence = fa_confidence f,
      an_recognitionConfidence = recognition_confidence env d, an_narrative = fa_narrative f,
      an_domain = mq_domain (ev_query e), an_answeredBy = mv_self env, an_statusListVersion = Some pin,
      an_proof = None\<rparr>"

definition forward_query :: "mesh_query \<Rightarrow> rat \<Rightarrow> did \<Rightarrow> mesh_query" where
  "forward_query q pathConfidence self =
     q\<lparr>mq_arrivalDepth := Some (or_else (mq_arrivalDepth q) 1 + 1), mq_pathConfidence := Some pathConfidence,
       mq_depthRemaining := Some (or_else (mq_depthRemaining q) 0 - 1),
       mq_visited := Some (opt_list (mq_visited q) @ [self])\<rparr>"

text \<open>The checks of \<open>forward\<close> before the Emissary crosses: the friend asked and what it is sent.\<close>

definition forward_step ::
  "mesh_env \<Rightarrow> mesh_forwarding \<Rightarrow> mesh_envelope \<Rightarrow> rat \<Rightarrow> mesh_result + (friend_recognition \<times> mesh_envelope)" where
  "forward_step env fwd e pathConfidence =
     (let q = ev_query e in
      if or_else (mq_depthRemaining q) 0 < 1 then Inl (Mesh_rejected Depth_Check)
      else case find (\<lambda>fr. fr_domain fr = mq_domain q) (fw_friends fwd) of
          None \<Rightarrow> Inl Mesh_no_answer
        | Some friend \<Rightarrow>
            if fr_friendWardenDid friend \<in> set (opt_list (mq_visited q)) then Inl (Mesh_rejected Cycle_Check)
            else let fq = forward_query q pathConfidence (mv_self env) in
              case budgetSubset fq q of
                Some _ \<Rightarrow> Inl (Mesh_rejected Budget_Check)
              | None \<Rightarrow> Inr (friend, \<lparr>ev_query = fq, ev_recognition = presentRecognition (fr_cred friend),
                  ev_presenterDid = fw_emissaryDid fwd\<rparr>))"

definition content_answerer :: "mesh_content \<Rightarrow> did option" where
  "content_answerer c = (case c of Direct a \<Rightarrow> Some (an_answeredBy a) | Relayed _ _ \<Rightarrow> None)"

text \<open>What becomes of the friend's result; the Emissary reads only what is encrypted to it.\<close>

definition relay_result ::
  "mesh_env \<Rightarrow> mesh_forwarding \<Rightarrow> did \<Rightarrow> friend_recognition \<Rightarrow> mesh_result \<Rightarrow> mesh_result" where
  "relay_result env fwd presenter friend r =
     (case r of
        Mesh_granted sealed \<Rightarrow>
          if se_to sealed \<noteq> fw_emissaryDid fwd then Mesh_threw
          else let relay = mv_signRelay env \<lparr>ra_relayedBy = mv_self env, ra_answerer = content_answerer (se_content sealed),
                  ra_edgeConfidence = fr_confidence friend, ra_recognitionId = fr_recognitionId friend, ra_proof = None\<rparr>
            in Mesh_granted \<lparr>se_to = presenter, se_content = Relayed (se_content sealed) relay\<rparr>
      | Mesh_threw \<Rightarrow> Mesh_threw
      | _ \<Rightarrow> Mesh_no_answer)"

record mesh_node =
  nd_env :: mesh_env
  nd_policy :: mesh_policy
  nd_ladder :: "mesh_partition list"
  nd_forwarding :: "mesh_forwarding option"

text \<open>\<open>reach\<close> is \<open>reachFriend\<close>.\<close>

definition handle_query :: "mesh_node \<Rightarrow> (did \<Rightarrow> mesh_envelope \<Rightarrow> mesh_result) \<Rightarrow> mesh_envelope \<Rightarrow> mesh_result" where
  "handle_query node reach e =
     (let env = nd_env node in
      case admit env (nd_policy node) e of
        Inl c \<Rightarrow> if c = Threw_Check then Mesh_threw else Mesh_rejected c
      | Inr (d, pin) \<Rightarrow>
          (case reasonOverPartitions (mv_lower env) (ev_query e) (open_rungs env (nd_policy node) (nd_ladder node) (ev_query e) d) of
             Some (f, _) \<Rightarrow> Mesh_granted \<lparr>se_to = ev_presenterDid e, se_content = Direct (answer_of env e d pin f)\<rparr>
           | None \<Rightarrow>
               (case nd_forwarding node of
                  None \<Rightarrow> Mesh_no_answer
                | Some fwd \<Rightarrow>
                    (case forward_step env fwd e (path_confidence env (ev_query e) d) of
                       Inl r \<Rightarrow> r
                     | Inr (friend, e') \<Rightarrow>
                         relay_result env fwd (ev_presenterDid e) friend (reach (fr_friendWardenDid friend) e')))))"

section \<open>Receiving\<close>

datatype receive_problem = Not_Recipient | No_Relay | Relay_Signature | Wrong_Relay | No_Answer_Signature | Answer_Signature
  | Wrong_Answerer | Not_A_Probability | Wrong_Answer_Signer

text \<open>\<open>verifyA\<close> and \<open>verifyR\<close> are Keymaster's \<open>verifyProof\<close> on answers and relay assertions.\<close>

definition receiveAnswer ::
  "(mesh_answer \<Rightarrow> bool) \<Rightarrow> did \<Rightarrow> sealed_answer \<Rightarrow> did \<Rightarrow> receive_problem + mesh_answer" where
  "receiveAnswer verifyA emissary sealed expectedIssuer =
     (if se_to sealed \<noteq> emissary then Inl Not_Recipient
      else case se_content sealed of
          Relayed _ _ \<Rightarrow> Inl No_Answer_Signature
        | Direct a \<Rightarrow>
            (case an_proof a of
               None \<Rightarrow> Inl No_Answer_Signature
             | Some vm \<Rightarrow>
                 if \<not> verifyA a then Inl Answer_Signature
                 else if before_hash vm \<noteq> expectedIssuer then Inl Wrong_Answer_Signer
                 else Inr a))"

record path_edge =
  pe_from :: did
  pe_to :: did
  pe_confidence :: rat

record received_forwarded =
  rf_answer :: mesh_answer
  rf_verifiedSigner :: did
  rf_recognizedRelay :: did
  rf_path :: "path_edge list"
  rf_pathConfidence :: rat
  rf_recognizesAnswerer :: bool

definition in_unit :: "rat \<Rightarrow> bool" where
  "in_unit c \<longleftrightarrow> 0 \<le> c \<and> c \<le> 1"

definition receiveForwardedAnswer ::
  "(mesh_answer \<Rightarrow> bool) \<Rightarrow> (relay_assertion \<Rightarrow> bool) \<Rightarrow> did \<Rightarrow> sealed_answer \<Rightarrow> did \<Rightarrow> did \<Rightarrow> rat \<Rightarrow>
     receive_problem + received_forwarded" where
  "receiveForwardedAnswer verifyA verifyR emissary sealed self expectedRelay relayEdge =
     (if se_to sealed \<noteq> emissary then Inl Not_Recipient
      else case se_content sealed of
          Direct _ \<Rightarrow> Inl No_Relay
        | Relayed content relay \<Rightarrow>
            (case ra_proof relay of
               None \<Rightarrow> Inl No_Relay
             | Some rvm \<Rightarrow>
                 if \<not> verifyR relay then Inl Relay_Signature
                 else if before_hash rvm \<noteq> expectedRelay then Inl Wrong_Relay
                 else case content of
                     Relayed _ _ \<Rightarrow> Inl No_Answer_Signature
                   | Direct a \<Rightarrow>
                       (case an_proof a of
                          None \<Rightarrow> Inl No_Answer_Signature
                        | Some avm \<Rightarrow>
                            if \<not> verifyA a then Inl Answer_Signature
                            else if Some (before_hash avm) \<noteq> ra_answerer relay then Inl Wrong_Answerer
                            else if \<not> in_unit relayEdge then Inl Not_A_Probability
                            else if \<not> in_unit (ra_edgeConfidence relay) then Inl Not_A_Probability
                            else Inr \<lparr>rf_answer = a, rf_verifiedSigner = before_hash avm, rf_recognizedRelay = expectedRelay,
                              rf_path = [\<lparr>pe_from = self, pe_to = expectedRelay, pe_confidence = relayEdge\<rparr>,
                                \<lparr>pe_from = expectedRelay, pe_to = before_hash avm, pe_confidence = ra_edgeConfidence relay\<rparr>],
                              rf_pathConfidence = relayEdge * ra_edgeConfidence relay, rf_recognizesAnswerer = False\<rparr>)))"

section \<open>The network\<close>

text \<open>
  The nodes wired to each other by \<open>reachFriend\<close>. \<open>route net n d e\<close> is the answer of the Warden \<open>d\<close> when
  at most \<open>n\<close> Wardens may be asked along the way; a Warden that nobody runs does not answer.
\<close>

type_synonym mesh_network = "did \<Rightarrow> mesh_node option"

primrec route :: "mesh_network \<Rightarrow> nat \<Rightarrow> did \<Rightarrow> mesh_envelope \<Rightarrow> mesh_result" where
  "route net 0 d e = Mesh_threw"
| "route net (Suc n) d e =
     (case net d of None \<Rightarrow> Mesh_threw | Some node \<Rightarrow> handle_query node (route net n) e)"

text \<open>One crossing: the Warden \<open>d\<close>, holding \<open>e\<close>, has \<open>e'\<close> sent to \<open>d'\<close>.\<close>

inductive mesh_hop :: "mesh_network \<Rightarrow> did \<Rightarrow> mesh_envelope \<Rightarrow> did \<Rightarrow> mesh_envelope \<Rightarrow> bool" for net where
  hop: "net d = Some node \<Longrightarrow> admit (nd_env node) (nd_policy node) e = Inr (disclosed, pin) \<Longrightarrow>
    nd_forwarding node = Some fwd \<Longrightarrow>
    forward_step (nd_env node) fwd e (path_confidence (nd_env node) (ev_query e) disclosed) = Inr (friend, e') \<Longrightarrow>
    mesh_hop net d e (fr_friendWardenDid friend) e'"

inductive_cases mesh_hopE: "mesh_hop net d e d' e'"

inductive mesh_hops :: "mesh_network \<Rightarrow> nat \<Rightarrow> did \<Rightarrow> mesh_envelope \<Rightarrow> did \<Rightarrow> mesh_envelope \<Rightarrow> bool" for net where
  none: "mesh_hops net 0 d e d e"
| step: "mesh_hops net n d e d1 e1 \<Longrightarrow> mesh_hop net d1 e1 d2 e2 \<Longrightarrow> mesh_hops net (Suc n) d e d2 e2"

abbreviation remaining :: "mesh_envelope \<Rightarrow> int" where
  "remaining e \<equiv> or_else (mq_depthRemaining (ev_query e)) 0"

abbreviation visited :: "mesh_envelope \<Rightarrow> did list" where
  "visited e \<equiv> opt_list (mq_visited (ev_query e))"

abbreviation arrival :: "mesh_envelope \<Rightarrow> int" where
  "arrival e \<equiv> or_else (mq_arrivalDepth (ev_query e)) 1"

section \<open>Lemmas\<close>

lemma or_else_simps [simp]: "or_else None d = d" "or_else (Some v) d = v"
  by (simp_all add: or_else_def)

lemma forward_query_simps [simp]:
  "mq_text (forward_query q c self) = mq_text q" "mq_mode (forward_query q c self) = mq_mode q"
  "mq_domain (forward_query q c self) = mq_domain q" "mq_maxNodes (forward_query q c self) = mq_maxNodes q"
  "mq_rate (forward_query q c self) = mq_rate q" "mq_pathConfidence (forward_query q c self) = Some c"
  "mq_depthRemaining (forward_query q c self) = Some (or_else (mq_depthRemaining q) 0 - 1)"
  "mq_arrivalDepth (forward_query q c self) = Some (or_else (mq_arrivalDepth q) 1 + 1)"
  "mq_visited (forward_query q c self) = Some (opt_list (mq_visited q) @ [self])"
  by (simp_all add: forward_query_def)

lemma budgetSubset_forward [simp]: "budgetSubset (forward_query q c self) q = None"
  by (simp add: budgetSubset_def query_scope_def)

lemma forward_step_Inr:
  "forward_step env fwd e c = Inr (friend, e') \<longleftrightarrow>
     remaining e \<ge> 1 \<and> find (\<lambda>fr. fr_domain fr = mq_domain (ev_query e)) (fw_friends fwd) = Some friend \<and>
     fr_friendWardenDid friend \<notin> set (visited e) \<and>
     e' = \<lparr>ev_query = forward_query (ev_query e) c (mv_self env), ev_recognition = presentRecognition (fr_cred friend),
       ev_presenterDid = fw_emissaryDid fwd\<rparr>"
  by (auto simp: forward_step_def Let_def split: option.splits)

lemma forward_step_Inl: "forward_step env fwd e c = Inl r \<Longrightarrow> \<exists>x. r = Mesh_rejected x \<or> r = Mesh_no_answer"
  by (auto simp: forward_step_def Let_def split: option.splits if_splits)

lemma admit_Inr:
  "admit env pol e = Inr (d, pin) \<longleftrightarrow>
     verifyPresentation (mv_hash env) (mv_verifyProof env) (ev_recognition e) (Some (po_recognizedIssuer pol)) None = Inr d \<and>
     d ''subject'' = Some (JStr (ev_presenterDid e)) \<and>
     (\<forall>c. d ''statusListCredential'' = Some (JStr c) \<longrightarrow> c = po_statusListCredential pol) \<and>
     mv_check env (js_to_number env (d ''statusListIndex'')) = Known False pin \<and>
     \<not> depth_exceeded (js_to_number env (Some (nullish_else (d ''maxDepth'') (JNum 1))))
         (or_else (po_maxRelayDepth pol) 0) (remaining e)"
  (is "_ \<longleftrightarrow> ?R")
proof -
  have list: "(case v of Some (JStr c) \<Rightarrow> c \<noteq> l | _ \<Rightarrow> False) \<longleftrightarrow> \<not> (\<forall>c. v = Some (JStr c) \<longrightarrow> c = l)" for v l
    by (auto split: option.splits json.splits)
  show ?thesis unfolding admit_def list
    by (cases "verifyPresentation (mv_hash env) (mv_verifyProof env) (ev_recognition e) (Some (po_recognizedIssuer pol)) None")
      (auto split: status_check.splits if_splits)
qed

lemma permitted_in:
  "p \<in> set (permittedPartitions ladder order tier depth c) \<longleftrightarrow>
     p \<in> set ladder \<and> (\<exists>i j. index_of order (pt_minTier p) = Some i \<and> index_of order tier = Some j \<and> i \<le> j) \<and>
     depth \<le> pt_maxArrivalDepth p \<and> (\<forall>m. pt_minPathConfidence p = Some m \<longrightarrow> m \<le> c)"
  by (cases "index_of order tier") (auto simp: permittedPartitions_def rung_open_def not_less split: option.splits if_splits)

lemma permitted_append:
  "permittedPartitions (xs @ ys) order tier depth c =
     permittedPartitions xs order tier depth c @ permittedPartitions ys order tier depth c"
  by (simp add: permittedPartitions_def split: option.split)

lemma reasonOverPartitions_Some:
  "reasonOverPartitions lower q ps = Some (f, n) \<Longrightarrow>
     \<exists>p \<in> set ps. f \<in> set (pt_facts p) \<and> pt_domain p = mq_domain q \<and> n = pt_name p \<and>
       (\<exists>k \<in> set (fa_keywords f). str_includes (lower (mq_text q)) k)"
  by (induction ps) (auto split: if_splits option.splits simp: find_Some_iff list_ex_iff)

lemma relay_result_granted:
  "relay_result env fwd presenter friend r = Mesh_granted s \<Longrightarrow> se_to s = presenter \<and> (\<exists>c relay. se_content s = Relayed c relay)"
  by (auto simp: relay_result_def Let_def split: mesh_result.splits if_splits)

lemma handle_query_cases:
  assumes "handle_query node reach e = r"
  obtains (refused) c where "admit (nd_env node) (nd_policy node) e = Inl c" "r = Mesh_threw \<or> r = Mesh_rejected c"
  | (answered) d pin f n where "admit (nd_env node) (nd_policy node) e = Inr (d, pin)"
      "reasonOverPartitions (mv_lower (nd_env node)) (ev_query e)
         (open_rungs (nd_env node) (nd_policy node) (nd_ladder node) (ev_query e) d) = Some (f, n)"
      "r = Mesh_granted \<lparr>se_to = ev_presenterDid e, se_content = Direct (answer_of (nd_env node) e d pin f)\<rparr>"
  | (stopped) x where "r = Mesh_rejected x \<or> r = Mesh_no_answer"
  | (relayed) fwd friend r' where "r = relay_result (nd_env node) fwd (ev_presenterDid e) friend r'"
  using assms unfolding handle_query_def Let_def
  by (auto split: sum.splits prod.splits option.splits if_splits dest!: forward_step_Inl)

section \<open>Properties\<close>


text \<open>
  A gated rung is invisible: adding to a node's ladder, anywhere, a rung the presenter may not read does not
  change the node's result for that query in any way, whatever the rung's facts match and however the node forwards;
  a refusal or a miss is never an oracle for what a gated rung holds.
\<close>

theorem gated_rung_invisible:
  assumes "\<And>d pin. admit (nd_env node) (nd_policy node) e = Inr (d, pin) \<Longrightarrow>
      open_rungs (nd_env node) (nd_policy node) [p] (ev_query e) d = []"
  shows "handle_query (node\<lparr>nd_ladder := xs @ p # ys\<rparr>) reach e = handle_query (node\<lparr>nd_ladder := xs @ ys\<rparr>) reach e"
proof (cases "admit (nd_env node) (nd_policy node) e")
  case (Inr dp)
  obtain d pin where dp: "dp = (d, pin)" by (cases dp)
  from assms [OF Inr [unfolded dp]] have "open_rungs (nd_env node) (nd_policy node) (xs @ p # ys) (ev_query e) d =
      open_rungs (nd_env node) (nd_policy node) (xs @ ys) (ev_query e) d"
    using permitted_append [of xs "[p] @ ys"] permitted_append [of "[p]" ys] permitted_append [of xs ys]
    by (simp add: open_rungs_def)
  with Inr dp show ?thesis by (simp add: handle_query_def Let_def cong: option.case_cong)
qed (simp add: handle_query_def)

lemma handle_query_cong:
  assumes "\<And>friend e'. remaining e \<ge> 1 \<Longrightarrow> remaining e' = remaining e - 1 \<Longrightarrow> reach friend e' = reach' friend e'"
  shows "handle_query node reach e = handle_query node reach' e"
proof -
  have "reach (fr_friendWardenDid friend) e' = reach' (fr_friendWardenDid friend) e'"
    if "forward_step env fwd e c = Inr (friend, e')" for env fwd c friend e'
    using that assms by (auto simp: forward_step_Inr)
  then show ?thesis
    unfolding handle_query_def Let_def by (auto split: sum.split prod.split option.split)
qed

lemma route_enough:
  "nat (remaining e) < n \<Longrightarrow> nat (remaining e) < m \<Longrightarrow> route net n d e = route net m d e"
proof (induction n arbitrary: d e m)
  case (Suc n)
  then obtain m' where m: "m = Suc m'" by (cases m) auto
  have "handle_query node (route net n) e = handle_query node (route net m') e" for node
    by (rule handle_query_cong) (use Suc m in \<open>auto intro!: Suc.IH\<close>)
  with m show ?case by (simp split: option.split)
qed simp

text \<open>
  C34. Propagation ends: in any network of nodes, with any ladders and friendships, one Warden more than the forward
  budget the query carries is enough to answer it; asking on behalf of more changes nothing.
\<close>

theorem propagation_terminates:
  assumes "nat (remaining e) < n"
  shows "route net n d e = route net (Suc (nat (remaining e))) d e"
  by (rule route_enough) (use assms in auto)

lemma mesh_hop_facts:
  assumes "mesh_hop net d e d' e'"
  obtains node friend fwd where "net d = Some node" "nd_forwarding node = Some fwd" "remaining e \<ge> 1"
    "find (\<lambda>fr. fr_domain fr = mq_domain (ev_query e)) (fw_friends fwd) = Some friend" "d' = fr_friendWardenDid friend"
    "d' \<notin> set (visited e)" "visited e' = visited e @ [mv_self (nd_env node)]" "remaining e' = remaining e - 1"
    "arrival e' = arrival e + 1" "mq_domain (ev_query e') = mq_domain (ev_query e)"
    "mq_maxNodes (ev_query e') = mq_maxNodes (ev_query e)" "mq_rate (ev_query e') = mq_rate (ev_query e)"
    "ev_presenterDid e' = fw_emissaryDid fwd"
  using assms by (cases rule: mesh_hop.cases) (auto simp: forward_step_Inr opt_list_def)

definition knows_itself :: "mesh_network \<Rightarrow> bool" where
  "knows_itself net \<longleftrightarrow> (\<forall>d node. net d = Some node \<longrightarrow> mv_self (nd_env node) = d)"

text \<open>The cycle guard compares the friend with the Wardens before this one, so a Warden may ask itself; then
  it is on the path and cannot forward again.\<close>

definition fresh_or_stuck :: "mesh_network \<Rightarrow> did \<Rightarrow> mesh_envelope \<Rightarrow> bool" where
  "fresh_or_stuck net d e \<longleftrightarrow> distinct (visited e) \<and> (d \<notin> set (visited e) \<or> (\<forall>d' e'. \<not> mesh_hop net d e d' e'))"

lemma fresh_or_stuck_hop:
  assumes "knows_itself net" "mesh_hop net d e d' e'" "fresh_or_stuck net d e"
  shows "fresh_or_stuck net d' e'"
proof -
  obtain node friend fwd where h: "net d = Some node" "nd_forwarding node = Some fwd"
    "find (\<lambda>fr. fr_domain fr = mq_domain (ev_query e)) (fw_friends fwd) = Some friend" "d' = fr_friendWardenDid friend"
    "d' \<notin> set (visited e)" "visited e' = visited e @ [mv_self (nd_env node)]" "mq_domain (ev_query e') = mq_domain (ev_query e)"
    using assms(2) by (rule mesh_hop_facts)
  have self: "mv_self (nd_env node) = d" using assms(1) h(1) by (auto simp: knows_itself_def)
  from assms(2,3) have fresh: "distinct (visited e)" "d \<notin> set (visited e)" by (auto simp: fresh_or_stuck_def)
  have "\<not> mesh_hop net d' e' d2 e2" if "d' = d" for d2 e2
  proof
    assume "mesh_hop net d' e' d2 e2"
    then obtain node' friend' fwd' where k: "net d' = Some node'" "nd_forwarding node' = Some fwd'"
      "find (\<lambda>fr. fr_domain fr = mq_domain (ev_query e')) (fw_friends fwd') = Some friend'" "d2 = fr_friendWardenDid friend'"
      "d2 \<notin> set (visited e')" by (rule mesh_hop_facts)
    with h that self show False by simp
  qed
  with fresh h(5,6) self show ?thesis by (auto simp: fresh_or_stuck_def)
qed

text \<open>
  Paths do not cycle and only narrow: after \<open>n\<close> crossings of a query in a network whose nodes know their own
  DIDs, the forward budget is exactly \<open>n\<close> smaller and not negative, the arrival depth exactly \<open>n\<close> larger, the domain
  and the numeric budgets are those of the origin, the visited list is the old one with \<open>n\<close> Wardens added, and no
  Warden is on it twice; and the last receiver sees the Emissary of the Warden before it, not the querier.
\<close>

theorem paths_acyclic:
  assumes "knows_itself net" "mesh_hops net n d e d' e'" "distinct (visited e)" "d \<notin> set (visited e)" "remaining e \<ge> 0"
  shows "remaining e' = remaining e - int n \<and> remaining e' \<ge> 0 \<and> arrival e' = arrival e + int n \<and>
    mq_domain (ev_query e') = mq_domain (ev_query e) \<and> mq_maxNodes (ev_query e') = mq_maxNodes (ev_query e) \<and>
    mq_rate (ev_query e') = mq_rate (ev_query e) \<and>
    (\<exists>ds. visited e' = visited e @ ds \<and> length ds = n \<and> distinct (visited e @ ds)) \<and>
    (n = 0 \<or> (\<exists>node fwd. net (last (visited e')) = Some node \<and> nd_forwarding node = Some fwd \<and>
       ev_presenterDid e' = fw_emissaryDid fwd))"
proof -
  have "fresh_or_stuck net d' e' \<and> remaining e' = remaining e - int n \<and> remaining e' \<ge> 0 \<and> arrival e' = arrival e + int n \<and>
    mq_domain (ev_query e') = mq_domain (ev_query e) \<and> mq_maxNodes (ev_query e') = mq_maxNodes (ev_query e) \<and>
    mq_rate (ev_query e') = mq_rate (ev_query e) \<and> (\<exists>ds. visited e' = visited e @ ds \<and> length ds = n) \<and>
    (n = 0 \<or> (\<exists>node fwd. net (last (visited e')) = Some node \<and> nd_forwarding node = Some fwd \<and>
       ev_presenterDid e' = fw_emissaryDid fwd))"
    using assms(2-5)
  proof (induction rule: mesh_hops.induct)
    case (none d e)
    then show ?case by (auto simp: fresh_or_stuck_def)
  next
    case (step n d e d1 e1 d2 e2)
    obtain node friend fwd where h: "net d1 = Some node" "nd_forwarding node = Some fwd" "remaining e1 \<ge> 1"
      "visited e2 = visited e1 @ [mv_self (nd_env node)]" "remaining e2 = remaining e1 - 1" "arrival e2 = arrival e1 + 1"
      "mq_domain (ev_query e2) = mq_domain (ev_query e1)" "mq_maxNodes (ev_query e2) = mq_maxNodes (ev_query e1)"
      "mq_rate (ev_query e2) = mq_rate (ev_query e1)" "ev_presenterDid e2 = fw_emissaryDid fwd"
      using step.hyps(2) by (rule mesh_hop_facts)
    have self: "mv_self (nd_env node) = d1" using assms(1) h(1) by (auto simp: knows_itself_def)
    from step have "fresh_or_stuck net d2 e2" using fresh_or_stuck_hop [OF assms(1)] by blast
    with step h self show ?case by auto
  qed
  then show ?thesis by (auto simp: fresh_or_stuck_def)
qed

text \<open>
  A relayed answer is verified at both ends and never amplified: when A accepts one, it was encrypted to A's
  Emissary, it was relayed exactly once, the relay assertion verifies under the relay A expected, the answer
  verifies under the answerer the relay names, the path is A to relay to answerer with the two edges' confidences,
  its confidence is a probability not above either edge, and the answerer is not recorded as recognized.
\<close>

theorem relayed_answer_not_amplified:
  assumes "receiveForwardedAnswer verifyA verifyR emissary sealed self expectedRelay relayEdge = Inr rf"
  shows "\<exists>relay a. se_to sealed = emissary \<and> se_content sealed = Relayed (Direct a) relay \<and> rf_answer rf = a \<and>
    verifyR relay \<and> map_option before_hash (ra_proof relay) = Some expectedRelay \<and>
    verifyA a \<and> map_option before_hash (an_proof a) = Some (rf_verifiedSigner rf) \<and>
    ra_answerer relay = Some (rf_verifiedSigner rf) \<and>
    map pe_from (rf_path rf) = [self, expectedRelay] \<and> map pe_to (rf_path rf) = [expectedRelay, rf_verifiedSigner rf] \<and>
    rf_pathConfidence rf = prod_list (map pe_confidence (rf_path rf)) \<and>
    0 \<le> rf_pathConfidence rf \<and> list_all (\<lambda>edge. rf_pathConfidence rf \<le> pe_confidence edge) (rf_path rf) \<and>
    \<not> rf_recognizesAnswerer rf"
proof -
  obtain relay a rvm avm where r: "se_to sealed = emissary" "se_content sealed = Relayed (Direct a) relay"
    "ra_proof relay = Some rvm" "verifyR relay" "before_hash rvm = expectedRelay" "an_proof a = Some avm" "verifyA a"
    "ra_answerer relay = Some (before_hash avm)" "in_unit relayEdge" "in_unit (ra_edgeConfidence relay)"
    "rf = \<lparr>rf_answer = a, rf_verifiedSigner = before_hash avm, rf_recognizedRelay = expectedRelay,
       rf_path = [\<lparr>pe_from = self, pe_to = expectedRelay, pe_confidence = relayEdge\<rparr>,
         \<lparr>pe_from = expectedRelay, pe_to = before_hash avm, pe_confidence = ra_edgeConfidence relay\<rparr>],
       rf_pathConfidence = relayEdge * ra_edgeConfidence relay, rf_recognizesAnswerer = False\<rparr>"
    using assms by (auto simp: receiveForwardedAnswer_def split: if_splits mesh_content.splits option.splits)
  then have "0 \<le> relayEdge * ra_edgeConfidence relay" "relayEdge * ra_edgeConfidence relay \<le> relayEdge"
    "relayEdge * ra_edgeConfidence relay \<le> ra_edgeConfidence relay"
    by (auto simp: in_unit_def mult_left_le mult_left_le_one_le)
  with r show ?thesis by simp
qed

section \<open>A withheld index\<close>

text \<open>
  The resolver's \<open>check\<close> with a fresh cached copy, on any number: the range guard of \<open>getBit\<close> is false on \<open>NaN\<close>, and
  \<open>NaN >>> 3\<close> and \<open>NaN & 7\<close> are 0, so \<open>NaN\<close> reads the bit of index 0.
\<close>

definition resolver_check :: "status_cache \<Rightarrow> js_number \<Rightarrow> status_check" where
  "resolver_check c x =
     (case x of
        Finite i \<Rightarrow> read_cache c i
      | NaN \<Rightarrow> read_cache c 0
      | _ \<Rightarrow> Unavailable Index_out_of_range)"

text \<open>
  A revoked presenter is admitted by not showing the index: the properties a presentation discloses are the
  presenter's choice and \<open>admit\<close> does not require \<open>statusListIndex\<close> among them; without it the check reads index 0.
  For a recognition whose bit is set while bit 0 is clear, the full presentation is refused as revoked, and the
  same credential presented without the index and the list is admitted.
\<close>

theorem withheld_index_evades_revocation:
  assumes issued: "issueDisclosureCredential (mv_hash env) fs addProof enc iss holder props ty None = Some ic"
    and "distinct (map fst props)" "\<And>b. addProof b = b\<lparr>cm_proof := Some (iss @ ''#key-1'')\<rparr>"
    and "\<And>b. mv_verifyProof env (addProof b)" "CHR ''#'' \<notin> set iss" "po_recognizedIssuer pol = iss"
    and "map_of props ''subject'' = Some (JStr (ev_presenterDid e))" "map_of props ''statusListIndex'' = Some (JNum i)"
    and "map_of props ''statusListCredential'' = Some (JStr (po_statusListCredential pol))"
    and "mv_check env = resolver_check c" "getBit (ca_bytes c) i = Some True" "getBit (ca_bytes c) 0 = Some False"
    and "remaining e = 0" "or_else (po_maxRelayDepth pol) 0 \<ge> 0"
    and "ev_recognition e = assemblePresentation (ic_commitments ic) (ic_disclosures ic) [''subject'', ''tier'', ''confidence'']"
  shows "admit env pol (e\<lparr>ev_recognition := presentRecognition ic\<rparr>) = Inl Revocation_Check \<and>
    (\<exists>d. admit env pol e = Inr (d, ca_pin c) \<and> d ''subject'' = Some (JStr (ev_presenterDid e)))"
proof -
  have verify: "verifyPresentation (mv_hash env) (mv_verifyProof env)
      (assemblePresentation (ic_commitments ic) (ic_disclosures ic) names) (Some iss) None =
      Inr (\<lambda>n. if n \<in> set names then map_of props n else None)" for names
    by (rule selected_disclosures_verify_lemma [OF issued]) (use assms(2-5) in auto)
  have full: "verifyPresentation (mv_hash env) (mv_verifyProof env) (presentRecognition ic) (Some iss) None =
      Inr (\<lambda>n. if n \<in> set RECOGNITION_DISCLOSE then map_of props n else None)"
    unfolding presentRecognition_def by (rule verify)
  have "admit env pol (e\<lparr>ev_recognition := presentRecognition ic\<rparr>) = Inl Revocation_Check"
    using assms(6-11) by (simp add: admit_def full RECOGNITION_DISCLOSE_def js_to_number_def resolver_check_def read_cache_def)
  moreover have "admit env pol e =
      Inr (\<lambda>n. if n \<in> set [''subject'', ''tier'', ''confidence''] then map_of props n else None, ca_pin c)"
    using verify [of "[''subject'', ''tier'', ''confidence'']"] assms(6,7,10,12-15)
    by (simp add: admit_def js_to_number_def resolver_check_def read_cache_def nullish_else_def depth_exceeded_def)
  ultimately show ?thesis using assms(7) by simp
qed

end
