(* ===== verification/Mesh_Example.thy ===== *)
theory Mesh_Example
  imports Mesh
begin

text \<open>
  Two nodes of a mesh and the witnesses of the properties of \<open>Mesh\<close>. \<open>B\<close> recognizes the Emissary \<open>E\<close> and hosts
  no fact about boats; its friend \<open>C\<close> recognizes the Emissary \<open>F\<close> of \<open>B\<close> and does.
\<close>

definition hx_sign :: "signed_commitments \<Rightarrow> signed_commitments" where
  "hx_sign b = b\<lparr>cm_proof := Some (''S'' @ ''#key-1'')\<rparr>"

definition hx_props :: "did \<Rightarrow> int \<Rightarrow> int \<Rightarrow> (string \<times> json) list" where
  "hx_props subject depth i = [(''subject'', JStr subject), (''tier'', JStr ''friend''), (''confidence'', JNum 1),
     (''maxDepth'', JNum depth), (''statusListIndex'', JNum i), (''statusListCredential'', JStr ''list'')]"

definition hx_cred :: "did \<Rightarrow> int \<Rightarrow> int \<Rightarrow> issued_disclosure option" where
  "hx_cred subject depth i = issueDisclosureCredential id (\<lambda>n. replicate (Suc n) CHR ''s'') hx_sign (\<lambda>_ _. ''p'')
     ''S'' subject (hx_props subject depth i) ''MeshRecognition'' None"

definition hx_cache :: status_cache where
  "hx_cache = \<lparr>ca_bytes = [1],
     ca_pin = \<lparr>sp_credential = ''list'', sp_versionSequence = 1, sp_versionId = ''v''\<rparr>, ca_fetchedAt = 0\<rparr>"

definition hx_env :: "did \<Rightarrow> mesh_env" where
  "hx_env self = \<lparr>mv_hash = id, mv_verifyProof = (\<lambda>_. True), mv_check = resolver_check hx_cache, mv_number = (\<lambda>_. NaN),
     mv_confidence = (\<lambda>_. 1 / 2), mv_string = (\<lambda>v. case v of JStr s \<Rightarrow> s | _ \<Rightarrow> []), mv_lower = id, mv_self = self,
     mv_signAnswer = (\<lambda>a. a\<lparr>an_proof := Some (self @ ''#key-1'')\<rparr>),
     mv_signRelay = (\<lambda>a. a\<lparr>ra_proof := Some (self @ ''#key-1'')\<rparr>)\<rparr>"

definition hx_policy :: mesh_policy where
  "hx_policy = \<lparr>po_recognizedIssuer = ''S'', po_tierOrder = [''world'', ''friend'', ''family''],
     po_statusListCredential = ''list'', po_maxRelayDepth = Some 1\<rparr>"

definition hx_rung :: "string \<Rightarrow> mesh_partition" where
  "hx_rung tier = \<lparr>pt_name = tier, pt_domain = ''boats'', pt_facts = [\<lparr>fa_ref = ''r'', fa_provenance = Asserted,
     fa_confidence = 1, fa_narrative = ''a boat'', fa_keywords = [''boat'']\<rparr>], pt_minTier = tier,
     pt_maxArrivalDepth = 2, pt_minPathConfidence = Some (1 / 4)\<rparr>"

definition hx_query :: "int \<Rightarrow> mesh_query" where
  "hx_query depth = \<lparr>mq_text = ''any boat'', mq_mode = Fact, mq_domain = ''boats'', mq_maxNodes = 4, mq_rate = 1,
     mq_arrivalDepth = None, mq_pathConfidence = None, mq_depthRemaining = Some depth, mq_visited = None\<rparr>"

definition hx_issued :: "did \<Rightarrow> int \<Rightarrow> int \<Rightarrow> issued_disclosure" where
  "hx_issued subject depth i = the (hx_cred subject depth i)"

definition hx_ask :: "int \<Rightarrow> string list \<Rightarrow> int \<Rightarrow> mesh_envelope" where
  "hx_ask i names depth = \<lparr>ev_query = hx_query depth,
     ev_recognition = assemblePresentation (ic_commitments (hx_issued ''E'' 2 i)) (ic_disclosures (hx_issued ''E'' 2 i)) names,
     ev_presenterDid = ''E''\<rparr>"

definition hx_node_c :: mesh_node where
  "hx_node_c = \<lparr>nd_env = hx_env ''C'', nd_policy = hx_policy, nd_ladder = [hx_rung ''friend''], nd_forwarding = None\<rparr>"

definition hx_forwarding :: mesh_forwarding where
  "hx_forwarding = \<lparr>fw_emissaryDid = ''F'', fw_friends = [\<lparr>fr_cred = hx_issued ''F'' 1 4, fr_recognitionId = ''id'',
     fr_confidence = 1 / 2, fr_friendWardenDid = ''C'', fr_domain = ''boats''\<rparr>]\<rparr>"

definition hx_node_b :: mesh_node where
  "hx_node_b = \<lparr>nd_env = hx_env ''B'', nd_policy = hx_policy, nd_ladder = [hx_rung ''family''],
     nd_forwarding = Some hx_forwarding\<rparr>"

definition hx_net :: "did \<Rightarrow> mesh_node option" where
  "hx_net d = (if d = ''B'' then Some hx_node_b else if d = ''C'' then Some hx_node_c else None)"

definition hx_answer :: mesh_answer where
  "hx_answer = \<lparr>an_reference = ''r'', an_provenance = Asserted, an_factConfidence = 1, an_recognitionConfidence = 1 / 2,
     an_narrative = ''a boat'', an_domain = ''boats'', an_answeredBy = ''C'', an_statusListVersion = Some (ca_pin hx_cache),
     an_proof = Some ''C#key-1''\<rparr>"

section \<open>Evaluations\<close>

lemma hx_issue: "hx_cred subject depth i = Some (hx_issued subject depth i)"
proof -
  have "hx_cred subject depth i \<noteq> None" unfolding hx_cred_def issue_None_iff by (simp add: hx_props_def)
  then show ?thesis by (simp add: hx_issued_def)
qed

lemma hx_verify:
  "verifyPresentation id (\<lambda>_. True) (assemblePresentation (ic_commitments (hx_issued subject depth i))
       (ic_disclosures (hx_issued subject depth i)) names) (Some ''S'') None =
     Inr (\<lambda>n. if n \<in> set names then map_of (hx_props subject depth i) n else None)"
  by (rule selected_disclosures_verify_lemma [OF hx_issue [unfolded hx_cred_def]])
    (simp_all add: hx_props_def hx_sign_def)

lemma hx_bits: "read_cache hx_cache 3 = Known False (ca_pin hx_cache)" "read_cache hx_cache 4 = Known False (ca_pin hx_cache)"
  "getBit (ca_bytes hx_cache) 7 = Some True" "getBit (ca_bytes hx_cache) 0 = Some False"
  by (simp_all add: read_cache_def getBit_bit in_range_def STATUS_LIST_LENGTH_def hx_cache_def bit_1_iff)

definition hx_disclosed :: "did \<Rightarrow> int \<Rightarrow> int \<Rightarrow> string \<Rightarrow> json option" where
  "hx_disclosed subject depth i n = (if n \<in> set RECOGNITION_DISCLOSE then map_of (hx_props subject depth i) n else None)"

lemma hx_present: "verifyPresentation id (\<lambda>_. True) (presentRecognition (hx_issued subject depth i)) (Some ''S'') None =
    Inr (hx_disclosed subject depth i)"
  unfolding presentRecognition_def hx_verify by (simp add: hx_disclosed_def fun_eq_iff)

lemma hx_disclosed_simps [simp]:
  "hx_disclosed s k i ''subject'' = Some (JStr s)" "hx_disclosed s k i ''tier'' = Some (JStr ''friend'')"
  "hx_disclosed s k i ''confidence'' = Some (JNum 1)" "hx_disclosed s k i ''maxDepth'' = Some (JNum k)"
  "hx_disclosed s k i ''statusListIndex'' = Some (JNum i)" "hx_disclosed s k i ''statusListCredential'' = Some (JStr ''list'')"
  by (simp_all add: hx_disclosed_def hx_props_def RECOGNITION_DISCLOSE_def)

lemma hx_admitted:
  assumes "ev_recognition e = presentRecognition (hx_issued (ev_presenterDid e) k i)" "i = 3 \<or> i = 4"
    and "remaining e \<le> k - 1" "remaining e \<le> 1"
  shows "admit (hx_env self) hx_policy e = Inr (hx_disclosed (ev_presenterDid e) k i, ca_pin hx_cache)"
  using assms hx_bits
  by (auto simp: admit_def hx_env_def hx_policy_def hx_present js_to_number_def resolver_check_def nullish_else_def
      depth_exceeded_def)

lemma hx_ask_present: "ev_recognition (hx_ask i RECOGNITION_DISCLOSE n) = presentRecognition (hx_issued ''E'' 2 i)"
  by (simp add: hx_ask_def presentRecognition_def)

lemma hx_rung_open:
  "open_rungs (hx_env self) hx_policy [hx_rung ''friend''] (hx_query n) (hx_disclosed s k i) = [hx_rung ''friend'']"
  "open_rungs (hx_env self) hx_policy [hx_rung ''family''] q (hx_disclosed s k i) = []"
  by (simp_all add: open_rungs_def permittedPartitions_def rung_open_def hx_env_def hx_policy_def hx_rung_def hx_query_def
      nullish_else_def path_confidence_def recognition_confidence_def)

lemma hx_reason: "reasonOverPartitions lower q [] = None"
  "mq_text q = ''any boat'' \<Longrightarrow> mq_domain q = ''boats'' \<Longrightarrow>
    reasonOverPartitions id q [hx_rung t] = Some (hd (pt_facts (hx_rung t)), t)"
  by (simp_all add: hx_rung_def str_includes_def)

lemma hx_direct:
  "handle_query hx_node_c reach (hx_ask 3 RECOGNITION_DISCLOSE 0) = Mesh_granted \<lparr>se_to = ''E'', se_content = Direct hx_answer\<rparr>"
proof -
  have "admit (hx_env ''C'') hx_policy (hx_ask 3 RECOGNITION_DISCLOSE 0) = Inr (hx_disclosed ''E'' 2 3, ca_pin hx_cache)"
    using hx_admitted [of "hx_ask 3 RECOGNITION_DISCLOSE 0" 2 3 "''C''"] hx_ask_present
    by (simp add: hx_ask_def hx_query_def)
  moreover have "open_rungs (hx_env ''C'') hx_policy [hx_rung ''friend''] (ev_query (hx_ask 3 RECOGNITION_DISCLOSE 0)) (hx_disclosed ''E'' 2 3)
      = [hx_rung ''friend'']" using hx_rung_open(1) [of "''C''" 0 "''E''" 2 3] by (simp add: hx_ask_def)
  moreover have "reasonOverPartitions (mv_lower (hx_env ''C'')) (ev_query (hx_ask 3 RECOGNITION_DISCLOSE 0)) [hx_rung ''friend'']
      = Some (hd (pt_facts (hx_rung ''friend'')), ''friend'')"
    using hx_reason(2) [of "hx_query 0" "''friend''"] by (simp add: hx_env_def hx_ask_def hx_query_def)
  moreover have "answer_of (hx_env ''C'') (hx_ask 3 RECOGNITION_DISCLOSE 0) (hx_disclosed ''E'' 2 3) (ca_pin hx_cache)
      (hd (pt_facts (hx_rung ''friend''))) = hx_answer"
    by (simp add: answer_of_def hx_answer_def hx_env_def hx_rung_def hx_ask_def hx_query_def recognition_confidence_def nullish_else_def)
  ultimately show ?thesis by (simp add: handle_query_def Let_def hx_node_c_def) (simp add: hx_ask_def)
qed

section \<open>Witnesses\<close>


lemma gated_rung_invisible_witness:
  "handle_query (hx_node_c\<lparr>nd_ladder := [hx_rung ''friend''] @ hx_rung ''family'' # []\<rparr>) (\<lambda>_ _. Mesh_no_answer) (hx_ask 3 RECOGNITION_DISCLOSE 0) =
     handle_query (hx_node_c\<lparr>nd_ladder := [hx_rung ''friend''] @ []\<rparr>) (\<lambda>_ _. Mesh_no_answer) (hx_ask 3 RECOGNITION_DISCLOSE 0)"
proof (rule gated_rung_invisible)
  fix d pin
  assume "admit (nd_env hx_node_c) (nd_policy hx_node_c) (hx_ask 3 RECOGNITION_DISCLOSE 0) = Inr (d, pin)"
  moreover have "admit (hx_env ''C'') hx_policy (hx_ask 3 RECOGNITION_DISCLOSE 0) = Inr (hx_disclosed ''E'' 2 3, ca_pin hx_cache)"
    using hx_admitted [of "hx_ask 3 RECOGNITION_DISCLOSE 0" 2 3 "''C''"] hx_ask_present
    by (simp add: hx_ask_def hx_query_def)
  ultimately show "open_rungs (nd_env hx_node_c) (nd_policy hx_node_c) [hx_rung ''family''] (ev_query (hx_ask 3 RECOGNITION_DISCLOSE 0)) d = []"
    by (auto simp: hx_node_c_def hx_rung_open(2))
qed

lemma propagation_terminates_witness:
  "route hx_net 7 ''B'' (hx_ask 3 RECOGNITION_DISCLOSE 1) = route hx_net 2 ''B'' (hx_ask 3 RECOGNITION_DISCLOSE 1)"
  using propagation_terminates [of "hx_ask 3 RECOGNITION_DISCLOSE 1" 7 hx_net "''B''"]
  by (simp add: hx_ask_def hx_query_def numeral_2_eq_2)

lemma paths_acyclic_witness:
  "\<exists>e'. mesh_hops hx_net 1 ''B'' (hx_ask 3 RECOGNITION_DISCLOSE 1) ''C'' e' \<and> remaining e' = 0 \<and> visited e' = [''B'']"
proof -
  let ?e = "hx_ask 3 RECOGNITION_DISCLOSE 1"
  let ?c = "path_confidence (hx_env ''B'') (ev_query ?e) (hx_disclosed ''E'' 2 3)"
  let ?e' = "\<lparr>ev_query = forward_query (ev_query ?e) ?c ''B'', ev_recognition = presentRecognition (hx_issued ''F'' 1 4),
    ev_presenterDid = ''F''\<rparr>"
  have adm: "admit (nd_env hx_node_b) (nd_policy hx_node_b) ?e = Inr (hx_disclosed ''E'' 2 3, ca_pin hx_cache)"
    using hx_admitted [of ?e 2 3 "''B''"] hx_ask_present by (simp add: hx_ask_def hx_query_def hx_node_b_def)
  have fs: "forward_step (nd_env hx_node_b) hx_forwarding ?e
      (path_confidence (nd_env hx_node_b) (ev_query ?e) (hx_disclosed ''E'' 2 3)) = Inr (hd (fw_friends hx_forwarding), ?e')"
    by (simp add: forward_step_Inr hx_forwarding_def hx_node_b_def hx_ask_def hx_query_def opt_list_def hx_env_def)
  have "mesh_hop hx_net ''B'' ?e ''C'' ?e'"
    using mesh_hop.hop [OF _ adm _ fs, of hx_net "''B''"] by (simp add: hx_net_def hx_node_b_def hx_forwarding_def)
  then have hops: "mesh_hops hx_net 1 ''B'' ?e ''C'' ?e'" using mesh_hops.step [OF mesh_hops.none] by fastforce
  have "knows_itself hx_net" by (simp add: knows_itself_def hx_net_def hx_node_b_def hx_node_c_def hx_env_def)
  from paths_acyclic [OF this hops] have "remaining ?e' = 0" by (simp add: hx_ask_def hx_query_def opt_list_def)
  with hops show ?thesis
    by (intro exI [of _ ?e']) (simp add: hx_ask_def hx_query_def opt_list_def)
qed

definition hx_relay :: relay_assertion where
  "hx_relay = \<lparr>ra_relayedBy = ''B'', ra_answerer = Some ''C'', ra_edgeConfidence = 1 / 2, ra_recognitionId = ''id'',
     ra_proof = Some ''B#key-1''\<rparr>"

lemma relayed_answer_not_amplified_witness:
  "\<exists>rf. receiveForwardedAnswer (\<lambda>_. True) (\<lambda>_. True) ''E'' \<lparr>se_to = ''E'', se_content = Relayed (Direct hx_answer) hx_relay\<rparr>
     ''A'' ''B'' (1 / 2) = Inr rf \<and> 0 \<le> rf_pathConfidence rf \<and> rf_verifiedSigner rf = ''C''"
proof -
  obtain rf where rf: "receiveForwardedAnswer (\<lambda>_. True) (\<lambda>_. True) ''E''
      \<lparr>se_to = ''E'', se_content = Relayed (Direct hx_answer) hx_relay\<rparr> ''A'' ''B'' (1 / 2) = Inr rf"
    by (simp add: receiveForwardedAnswer_def hx_relay_def hx_answer_def before_hash_def in_unit_def)
  from relayed_answer_not_amplified [OF rf] have "0 \<le> rf_pathConfidence rf" "ra_answerer hx_relay = Some (rf_verifiedSigner rf)"
    by auto
  with rf show ?thesis by (auto simp: hx_relay_def)
qed

lemma withheld_index_evades_revocation_witness:
  "admit (hx_env ''B'') hx_policy (hx_ask 7 [''subject'', ''tier'', ''confidence''] 0\<lparr>ev_recognition := presentRecognition (hx_issued ''E'' 2 7)\<rparr>)
     = Inl Revocation_Check \<and>
   (\<exists>d. admit (hx_env ''B'') hx_policy (hx_ask 7 [''subject'', ''tier'', ''confidence''] 0) = Inr (d, ca_pin hx_cache))"
proof -
  have i: "issueDisclosureCredential (mv_hash (hx_env ''B'')) (\<lambda>n. replicate (Suc n) CHR ''s'') hx_sign (\<lambda>_ _. ''p'')
      ''S'' ''E'' (hx_props ''E'' 2 7) ''MeshRecognition'' None = Some (hx_issued ''E'' 2 7)"
    using hx_issue [of "''E''" 2 7] by (simp add: hx_cred_def hx_env_def)
  have "admit (hx_env ''B'') hx_policy (hx_ask 7 [''subject'', ''tier'', ''confidence''] 0\<lparr>ev_recognition := presentRecognition (hx_issued ''E'' 2 7)\<rparr>)
      = Inl Revocation_Check \<and>
    (\<exists>d. admit (hx_env ''B'') hx_policy (hx_ask 7 [''subject'', ''tier'', ''confidence''] 0) = Inr (d, ca_pin hx_cache) \<and>
       d ''subject'' = Some (JStr (ev_presenterDid (hx_ask 7 [''subject'', ''tier'', ''confidence''] 0))))"
    by (rule withheld_index_evades_revocation [OF i, where i = 7])
      (simp_all add: hx_bits hx_props_def hx_sign_def hx_env_def hx_policy_def hx_ask_def hx_query_def)
  then show ?thesis by blast
qed

end
