(* ===== verification/Agent_Authority.thy ===== *)
theory Agent_Authority
  imports Ruleset
begin

text \<open>
  What an agent may do under its parent: spending, \<open>packages/warden/src/spend.ts\<close>, and control acts,
  \<open>packages/sovereign/src/agent-gate.ts\<close> with the class \<open>AgentGate\<close> of \<open>signet.ts\<close>. Both read the operative
  allowance from the agent's Ruleset chain pinned to the parent and route to a Signet by band. The Signets are
  the arguments \<open>ask\<close>; on \<^const>\<open>None\<close> the request's promise rejects.
\<close>

section \<open>Spending\<close>

datatype agent_tier_mode = Notify | Gate

record spend_request =
  sq_action :: string
  sq_resource :: "string option"
  sq_summary :: string
  sq_cost :: js_number
  sq_sensitivity :: "sensitivity option"

record spend_detail =
  sd_agentDid :: did
  sd_amount :: js_number
  sd_unit :: "string option"
  sd_band :: escalation_band
  sd_tier :: authz_tier
  sd_sensitivity :: "sensitivity option"

record approval_request =
  ar_member :: did
  ar_action :: string
  ar_resource :: string
  ar_summary :: string
  ar_spend :: "spend_detail option"

record spend_receipt =
  re_agent :: did
  re_amount :: js_number
  re_unit :: "string option"
  re_purpose :: string
  re_band :: escalation_band
  re_approver :: string
  re_approved :: bool
  re_paid :: bool
  re_reason :: "string option"
  re_sensitivity :: "sensitivity option"

datatype spend_reason = Standing_Authority escalation_reason | Notify_Mode | Agent_Approved | Agent_Declined
  | Parent_Approved | Parent_Declined

text \<open>The decision, the receipt given to \<open>onReceipt\<close>, and the approvals that were asked for.\<close>

record spend_outcome =
  so_allowed :: bool
  so_band :: escalation_band
  so_tier :: authz_tier
  so_reason :: spend_reason
  so_receipt :: spend_receipt
  so_asked :: "approval_request list"

definition operative_allowance ::
  "hash \<Rightarrow> (json \<Rightarrow> bool) \<Rightarrow> signed_ruleset list \<Rightarrow> did \<Rightarrow> spend_allowance option" where
  "operative_allowance H V chain parent =
     (case activeRuleset H V chain (Some parent) of None \<Rightarrow> None | Some head \<Rightarrow> rk_spend (rs_capabilities head))"

definition finish_spend ::
  "family_topology \<Rightarrow> spend_request \<Rightarrow> spend_allowance option \<Rightarrow> escalation_decision \<Rightarrow> bool \<Rightarrow> string \<Rightarrow>
     spend_reason \<Rightarrow> string option \<Rightarrow> approval_request list \<Rightarrow> spend_outcome" where
  "finish_spend topology req allowance d allowed approver reason code asked =
     \<lparr>so_allowed = allowed, so_band = ed_band d, so_tier = ed_tier d, so_reason = reason,
      so_receipt = \<lparr>re_agent = ft_agentDid topology, re_amount = sq_cost req,
        re_unit = Option.bind allowance sp_unit, re_purpose = sq_summary req, re_band = ed_band d,
        re_approver = approver, re_approved = allowed, re_paid = False, re_reason = code,
        re_sensitivity = sq_sensitivity req\<rparr>,
      so_asked = asked\<rparr>"

definition spend_approval ::
  "family_topology \<Rightarrow> spend_request \<Rightarrow> spend_allowance option \<Rightarrow> escalation_decision \<Rightarrow> did \<Rightarrow> approval_request" where
  "spend_approval topology req allowance d member =
     \<lparr>ar_member = member, ar_action = sq_action req,
      ar_resource = (case sq_resource req of None \<Rightarrow> [] | Some r \<Rightarrow> r), ar_summary = sq_summary req,
      ar_spend = Some \<lparr>sd_agentDid = ft_agentDid topology, sd_amount = sq_cost req,
        sd_unit = Option.bind allowance sp_unit, sd_band = ed_band d, sd_tier = ed_tier d,
        sd_sensitivity = sq_sensitivity req\<rparr>\<rparr>"

definition authorizeSpend ::
  "hash \<Rightarrow> (json \<Rightarrow> bool) \<Rightarrow> (approval_request \<Rightarrow> bool option) \<Rightarrow> signed_ruleset list \<Rightarrow> family_topology \<Rightarrow>
     spend_request \<Rightarrow> agent_tier_mode option \<Rightarrow> spend_outcome option" where
  "authorizeSpend H V ask chain topology req mode0 =
     (let mode = (case mode0 of None \<Rightarrow> Notify | Some m \<Rightarrow> m);
          allowance = operative_allowance H V chain (ft_parentDid topology);
          d = decideEscalation (Some (case sq_sensitivity req of None \<Rightarrow> PUBLIC | Some s \<Rightarrow> s)) (Some (sq_cost req))
                allowance topology;
          finish = finish_spend topology req allowance d
      in case ed_band d of
        Standing_Band \<Rightarrow> Some (finish True ''standing'' (Standing_Authority (ed_reason d)) None [])
      | Agent_Band \<Rightarrow>
          if mode = Notify then Some (finish True ''self-notify'' Notify_Mode None [])
          else let r = spend_approval topology req allowance d (ft_agentDid topology) in
            (case ask r of
               None \<Rightarrow> None
             | Some ok \<Rightarrow> Some (finish ok (ft_agentDid topology) (if ok then Agent_Approved else Agent_Declined)
                 (if ok then None else Some ''declined'') [r]))
      | Parent_Band \<Rightarrow>
          let r = spend_approval topology req allowance d (ft_parentDid topology) in
            (case ask r of
               None \<Rightarrow> None
             | Some ok \<Rightarrow> Some (finish ok (ft_parentDid topology) (if ok then Parent_Approved else Parent_Declined)
                 (if ok then None else Some ''declined'') [r])))"

section \<open>Control acts\<close>

record control_act =
  ac_action :: string
  ac_resource :: "string option"
  ac_summary :: string

record agent_config =
  ag_parentDid :: "did option"
  ag_controlAllowanceAsset :: "string option"

record presence_assertion =
  pa_method :: string
  pa_level :: int

definition resolveAllowance ::
  "hash \<Rightarrow> (json \<Rightarrow> bool) \<Rightarrow> (string \<Rightarrow> signed_ruleset list option) \<Rightarrow> agent_config \<Rightarrow> control_allowance option" where
  "resolveAllowance H V resolve cfg =
     (if \<not> truthy_string (ag_controlAllowanceAsset cfg) then None
      else let chain = opt_list (resolve (the (ag_controlAllowanceAsset cfg))) in
        if chain = [] then None
        else case activeRuleset H V chain (ag_parentDid cfg) of
          None \<Rightarrow> None | Some head \<Rightarrow> rk_control (rs_capabilities head))"

definition act_or_unknown :: "control_act option \<Rightarrow> control_act" where
  "act_or_unknown a = (case a of None \<Rightarrow> \<lparr>ac_action = ''unknown'', ac_resource = Some [], ac_summary = []\<rparr> | Some x \<Rightarrow> x)"

definition act_tier ::
  "hash \<Rightarrow> (json \<Rightarrow> bool) \<Rightarrow> (string \<Rightarrow> signed_ruleset list option) \<Rightarrow> agent_config \<Rightarrow> control_act option \<Rightarrow> authz_tier" where
  "act_tier H V resolve cfg a =
     (let act = act_or_unknown a in tierForControlAct (ac_action act) (ac_resource act) (resolveAllowance H V resolve cfg))"

definition permit ::
  "hash \<Rightarrow> (json \<Rightarrow> bool) \<Rightarrow> (string \<Rightarrow> signed_ruleset list option) \<Rightarrow> agent_config \<Rightarrow> control_act option \<Rightarrow> bool" where
  "permit H V resolve cfg a \<longleftrightarrow> bandForTier (act_tier H V resolve cfg a) \<noteq> Parent_Band"

text \<open>\<open>ask\<close> is \<open>requestActionApprovalOverDidComm\<close>: who is asked to approve what.\<close>

definition escalate ::
  "hash \<Rightarrow> (json \<Rightarrow> bool) \<Rightarrow> (string \<Rightarrow> signed_ruleset list option) \<Rightarrow> (did \<Rightarrow> control_act \<Rightarrow> bool) \<Rightarrow> agent_config \<Rightarrow>
     did \<Rightarrow> control_act option \<Rightarrow> presence_assertion option" where
  "escalate H V resolve ask cfg self a =
     (let tier = act_tier H V resolve cfg a in
      case approverForTier tier \<lparr>ft_agentDid = self, ft_parentDid = the (ag_parentDid cfg)\<rparr> of
        None \<Rightarrow> Some \<lparr>pa_method = ''agent'', pa_level = 1\<rparr>
      | Some [] \<Rightarrow> Some \<lparr>pa_method = ''agent'', pa_level = 1\<rparr>
      | Some (c # cs) \<Rightarrow>
          if ask (c # cs) (act_or_unknown a)
          then Some \<lparr>pa_method = ''pin'', pa_level = (if tier \<ge> MULTIFACTOR then 2 else 1)\<rparr>
          else None)"

text \<open>\<open>AgentGate.approve\<close> with an optional \<open>permit\<close> and \<open>escalate\<close>.\<close>

definition gate_approve ::
  "(control_act option \<Rightarrow> bool) option \<Rightarrow> (control_act option \<Rightarrow> presence_assertion option) option \<Rightarrow>
     control_act option \<Rightarrow> presence_assertion option" where
  "gate_approve pm es a =
     (if (case pm of None \<Rightarrow> True | Some p \<Rightarrow> p a) then Some \<lparr>pa_method = ''agent'', pa_level = 1\<rparr>
      else case es of None \<Rightarrow> None | Some e \<Rightarrow> e a)"

text \<open>The gate that \<open>buildAgentGate\<close> wires: plain for a root agent, bounded for a child.\<close>

definition agent_gate ::
  "hash \<Rightarrow> (json \<Rightarrow> bool) \<Rightarrow> (string \<Rightarrow> signed_ruleset list option) \<Rightarrow> (did \<Rightarrow> control_act \<Rightarrow> bool) \<Rightarrow> agent_config \<Rightarrow>
     did \<Rightarrow> control_act option \<Rightarrow> presence_assertion option" where
  "agent_gate H V resolve ask cfg self =
     (if \<not> truthy_string (ag_parentDid cfg) then gate_approve None None
      else gate_approve (Some (permit H V resolve cfg)) (Some (escalate H V resolve ask cfg self)))"

section \<open>Lemmas\<close>

text \<open>An allowance in force was signed by the parent, in every version of the chain.\<close>

definition parent_signed :: "(json \<Rightarrow> bool) \<Rightarrow> signed_ruleset list \<Rightarrow> did \<Rightarrow> bool" where
  "parent_signed V chain parent \<longleftrightarrow> chain \<noteq> [] \<and> (\<forall>r \<in> set chain. verifyRuleset V r = Inr parent)"

lemma activeRuleset_signed:
  assumes "activeRuleset H V chain (Some parent) = Some head" "parent \<noteq> []"
  shows "parent_signed V chain parent \<and> head \<in> set chain \<and> rs_status head = Active"
proof -
  from assms have h: "head = last (by_version chain)" "chain \<noteq> []" "rs_status head = Active" "lawful H V parent (by_version chain)"
    by (auto simp: activeRuleset_Some)
  have "verifyRuleset V r = Inr parent" if r: "r \<in> set chain" for r
  proof -
    obtain j where "j < length (by_version chain)" "r = by_version chain ! j"
      using r in_set_conv_nth [of r "by_version chain"] by auto
    then show ?thesis using h(4) version_ok_verify by (auto simp: lawful_nth)
  qed
  moreover have "head \<in> set chain" using h(1,2) last_in_set [of "by_version chain"] by simp
  ultimately show ?thesis using h(2,3) by (simp add: parent_signed_def)
qed

lemma decideEscalation_band:
  "ed_band (decideEscalation (Some s) (Some cost) allowance topology) = bandForTier (max (requiredTier s) (tierForCost cost allowance))"
  by (simp add: decideEscalation_def Let_def requiredTierWithCost_def)

lemma band_Parent_cases:
  "ed_band (decideEscalation (Some s) (Some cost) allowance topology) = Parent_Band \<longleftrightarrow>
     s \<ge> HIGH \<or> (\<exists>c. cost = Finite c \<and> c > self_limit allowance \<and> c > notify_above allowance)"
  unfolding decideEscalation_band band_max(1) requiredTier_band tierForCost_parent ..

section \<open>Properties\<close>


text \<open>
  A child agent's Signet approves only what its parent granted or approves: if the gate of an agent with a
  parent approves a control act, either the active head of the allowance asset's chain, every version of which the
  parent signed, has an entry for the action whose prefix the resource extends, and the assertion says it is the
  agent's own; or the parent's Signet was asked about this very act and said yes. The gate of a root agent
  approves everything.
\<close>

theorem child_gate_bounded:
  assumes "agent_gate H V resolve ask cfg self a = Some assertion" "ag_parentDid cfg = Some parent" "parent \<noteq> []"
  shows "(pa_method assertion = ''agent'' \<and>
      (\<exists>asset chain head es e. ag_controlAllowanceAsset cfg = Some asset \<and> resolve asset = Some chain \<and>
        parent_signed V chain parent \<and> head \<in> set chain \<and> rs_status head = Active \<and>
        Option.bind (rk_control (rs_capabilities head)) ca_selfApprove = Some es \<and> e \<in> set es \<and>
        entry_covers e (ac_action (act_or_unknown a)) (ac_resource (act_or_unknown a)))) \<or>
    (pa_method assertion = ''pin'' \<and> ask parent (act_or_unknown a))"
proof (cases "permit H V resolve cfg a")
  case True
  then have "act_tier H V resolve cfg a = CHALLENGE"
    by (auto simp: permit_def act_tier_def tierForControlAct_def Let_def split: if_splits)
  then obtain al es e where al: "resolveAllowance H V resolve cfg = Some al" "ca_selfApprove al = Some es" "e \<in> set es"
    "entry_covers e (ac_action (act_or_unknown a)) (ac_resource (act_or_unknown a))"
    by (auto simp: act_tier_def Let_def tierForControlAct_challenge)
  from al(1) obtain asset chain head where h: "ag_controlAllowanceAsset cfg = Some asset" "resolve asset = Some chain"
    "activeRuleset H V chain (ag_parentDid cfg) = Some head" "rk_control (rs_capabilities head) = Some al"
    by (auto simp: resolveAllowance_def opt_list_def Let_def truthy_string_iff split: if_splits option.splits)
  have "pa_method assertion = ''agent''" using assms True by (auto simp: agent_gate_def gate_approve_def)
  moreover have "parent_signed V chain parent \<and> head \<in> set chain \<and> rs_status head = Active"
    using activeRuleset_signed [of H V chain parent head] h(3) assms(2,3) by simp
  moreover have "Option.bind (rk_control (rs_capabilities head)) ca_selfApprove = Some es" using h(4) al(2) by simp
  ultimately show ?thesis using h(1,2) al(3,4) by blast
next
  case False
  then have tier: "bandForTier (act_tier H V resolve cfg a) = Parent_Band" by (simp add: permit_def)
  have "escalate H V resolve ask cfg self a = Some assertion"
    using assms False by (auto simp: agent_gate_def gate_approve_def truthy_string_iff neq_Nil_conv split: if_splits)
  then show ?thesis using tier assms(2,3)
    by (auto simp: escalate_def Let_def approverForTier_def neq_Nil_conv split: if_splits)
qed

end
