(* ===== verification/Agent_Example.thy ===== *)
theory Agent_Example
  imports Agent_Authority
begin

text \<open>A concrete allowance signed by the parent \<open>P\<close>, and the witnesses of \<open>Agent_Authority\<close>.\<close>

definition gx_ruleset :: signed_ruleset where
  "gx_ruleset = \<lparr>rs_actor = ''A'', rs_actorKind = ''agent'', rs_resource = None, rs_version = 1, rs_previous = None,
     rs_capabilities = \<lparr>rk_kinds = None, rk_verbs = None, rk_assurance = None, rk_stableDidAudiences = None, rk_keyCustody = None,
       rk_spend = Some \<lparr>sp_selfLimit = 50, sp_notifyAbove = Some 5, sp_parentMultifactorAbove = None, sp_unit = Some ''sat''\<rparr>,
       rk_control = Some \<lparr>ca_selfApprove = Some [\<lparr>ce_action = ''grant'', ce_resourcePrefix = Some ''notes/''\<rparr>]\<rparr>\<rparr>,
     rs_ceiling = 1, rs_status = Active, rs_subject = None, rs_validUntil = None,
     rs_proof = Some \<lparr>pf_method = Some ''P#key-1'', pf_rest = []\<rparr>, rs_memberAck = None\<rparr>"

definition gx_topology :: family_topology where
  "gx_topology = \<lparr>ft_agentDid = ''A'', ft_parentDid = ''P''\<rparr>"

definition gx_request :: spend_request where
  "gx_request = \<lparr>sq_action = ''pay'', sq_resource = None, sq_summary = ''tea'', sq_cost = Finite 40, sq_sensitivity = None\<rparr>"

definition gx_config :: agent_config where
  "gx_config = \<lparr>ag_parentDid = Some ''P'', ag_controlAllowanceAsset = Some ''asset''\<rparr>"

definition gx_act :: control_act where
  "gx_act = \<lparr>ac_action = ''grant'', ac_resource = Some ''notes/1'', ac_summary = []\<rparr>"


lemma child_gate_bounded_witness:
  "\<exists>assertion. agent_gate id (\<lambda>_. True) (\<lambda>_. Some [gx_ruleset]) (\<lambda>_ _. False) gx_config ''A'' (Some gx_act) = Some assertion \<and>
     pa_method assertion = ''agent'' \<and> parent_signed (\<lambda>_. True) [gx_ruleset] ''P''"
proof -
  have "agent_gate id (\<lambda>_. True) (\<lambda>_. Some [gx_ruleset]) (\<lambda>_ _. False) gx_config ''A'' (Some gx_act)
      = Some \<lparr>pa_method = ''agent'', pa_level = 1\<rparr>" by code_simp
  from child_gate_bounded [OF this, of "''P''"] this show ?thesis by (auto simp: gx_config_def)
qed

end
