(* ===== verification/Pairwise.thy ===== *)
theory Pairwise
  imports Ruleset Evidence_Graph
begin

text \<open>
  Pairwise identities: \<open>packages/core/src/pairwise.ts\<close>, the file store
  \<open>packages/warden/src/pairwise-store.ts\<close> and \<open>mintPairwiseGrant\<close> of \<open>packages/core/src/evidence.ts\<close>. The
  store is the locale \<open>pairwise_store\<close>, interpreted on the memory and on the file implementation; the wallet
  is the current identity and the list of identity names, and what its names resolve to is a parameter.
\<close>

section \<open>The store\<close>

record pairwise_record =
  pw_audience :: did
  pw_did :: did
  pw_name :: string
  pw_subjectDid :: did
  pw_keyHolder :: "key_holder option"
  pw_createdAt :: string

locale pairwise_store =
  fixes find_rec :: "'st \<Rightarrow> did \<Rightarrow> pairwise_record option"
    and get_rec :: "'st \<Rightarrow> did \<Rightarrow> pairwise_record option"
    and record_rec :: "'st \<Rightarrow> pairwise_record \<Rightarrow> 'st"
  assumes find_record: "find_rec s (pw_audience r) = None \<Longrightarrow>
      find_rec (record_rec s r) a = (if a = pw_audience r then Some r else find_rec s a)"
    and get_record: "find_rec s (pw_audience r) = None \<Longrightarrow> get_rec s (pw_did r) = None \<Longrightarrow>
      get_rec (record_rec s r) d = (if d = pw_did r then Some r else get_rec s d)"
    and get_kept: "find_rec s (pw_audience r) = None \<Longrightarrow> get_rec s d \<noteq> None \<or> d = pw_did r \<Longrightarrow> get_rec (record_rec s r) d \<noteq> None"

text \<open>The in-memory store: two maps.\<close>

type_synonym memory_pairwise = "(did \<Rightarrow> pairwise_record option) \<times> (did \<Rightarrow> pairwise_record option)"

definition mem_find :: "memory_pairwise \<Rightarrow> did \<Rightarrow> pairwise_record option" where
  "mem_find s a = fst s a"

definition mem_get :: "memory_pairwise \<Rightarrow> did \<Rightarrow> pairwise_record option" where
  "mem_get s d = snd s d"

definition mem_record :: "memory_pairwise \<Rightarrow> pairwise_record \<Rightarrow> memory_pairwise" where
  "mem_record s r = ((fst s)(pw_audience r \<mapsto> r), (snd s)(pw_did r \<mapsto> r))"

interpretation memory_pairs: pairwise_store mem_find mem_get mem_record
  by unfold_locales (auto simp: mem_find_def mem_get_def mem_record_def)

text \<open>The file: its list of records, \<^const>\<open>None\<close> when it is missing, unreadable or not JSON, which reads as the
  empty list.\<close>

type_synonym pairwise_file = "pairwise_record list option"

definition file_all :: "pairwise_file \<Rightarrow> pairwise_record list" where
  "file_all f = (case f of None \<Rightarrow> [] | Some rs \<Rightarrow> rs)"

definition file_find :: "pairwise_file \<Rightarrow> did \<Rightarrow> pairwise_record option" where
  "file_find f a = find (\<lambda>r. pw_audience r = a) (file_all f)"

definition file_get :: "pairwise_file \<Rightarrow> did \<Rightarrow> pairwise_record option" where
  "file_get f d = find (\<lambda>r. pw_did r = d) (file_all f)"

definition file_record :: "pairwise_file \<Rightarrow> pairwise_record \<Rightarrow> pairwise_file" where
  "file_record f r =
     (if list_ex (\<lambda>x. pw_audience x = pw_audience r) (file_all f) then f else Some (file_all f @ [r]))"

lemma find_append: "find P (xs @ ys) = (case find P xs of None \<Rightarrow> find P ys | Some x \<Rightarrow> Some x)"
  by (induction xs) auto

lemma file_record_new: "file_find f (pw_audience r) = None \<Longrightarrow> file_all (file_record f r) = file_all f @ [r]"
  by (auto simp: file_find_def file_record_def find_None_iff list_ex_iff file_all_def)

interpretation file_pairs: pairwise_store file_find file_get file_record
proof unfold_locales
  fix s :: pairwise_file and r :: pairwise_record and a d :: did
  assume n: "file_find s (pw_audience r) = None"
  show "file_find (file_record s r) a = (if a = pw_audience r then Some r else file_find s a)"
    using n file_record_new [OF n] by (auto simp: file_find_def find_append split: option.split)
  show "file_get (file_record s r) d \<noteq> None" if "file_get s d \<noteq> None \<or> d = pw_did r"
    using that file_record_new [OF n] by (auto simp: file_get_def find_append split: option.split)
  show "file_get (file_record s r) d = (if d = pw_did r then Some r else file_get s d)"
    if "file_get s (pw_did r) = None"
    using that file_record_new [OF n] by (auto simp: file_get_def find_append split: option.split)
qed

section \<open>Resolution\<close>

record wallet =
  wl_current :: "string option"
  wl_ids :: "string list"

record pairwise_args =
  pg_audience :: did
  pg_subjectDid :: did
  pg_createdAt :: string
  pg_keyHolder :: "key_holder option"

definition pairwiseName :: "hash \<Rightarrow> did \<Rightarrow> string" where
  "pairwiseName H audience = ''pw-'' @ take 16 (H audience)"

datatype pairwise_outcome = Pairwise_rec pairwise_record | Mint_failed | Pairwise_threw

text \<open>\<open>resolve name\<close> is the identifier in the document of a wallet name: \<^const>\<open>None\<close> when resolution throws, which
  leaves the wallet on the new identity, and empty when the document has none.\<close>

definition resolvePairwiseDid ::
  "hash \<Rightarrow> (string \<Rightarrow> did option) \<Rightarrow> ('st \<Rightarrow> did \<Rightarrow> pairwise_record option) \<Rightarrow> ('st \<Rightarrow> pairwise_record \<Rightarrow> 'st) \<Rightarrow>
     pairwise_args \<Rightarrow> wallet \<Rightarrow> 'st \<Rightarrow> pairwise_outcome \<times> wallet \<times> 'st" where
  "resolvePairwiseDid H resolve find_rec record_rec args w s =
     (case find_rec s (pg_audience args) of
        Some r \<Rightarrow> (Pairwise_rec r, w, s)
      | None \<Rightarrow>
          let name = pairwiseName H (pg_audience args);
              prev = wl_current w;
              w1 = (if name \<in> set (wl_ids w) then w else w\<lparr>wl_ids := wl_ids w @ [name]\<rparr>);
              w2 = w1\<lparr>wl_current := Some name\<rparr>
          in case resolve name of
              None \<Rightarrow> (Pairwise_threw, w2, s)
            | Some pairwiseDid \<Rightarrow>
                let w3 = (if truthy_string prev then w2\<lparr>wl_current := prev\<rparr> else w2) in
                if pairwiseDid = [] then (Mint_failed, w3, s)
                else let r = \<lparr>pw_audience = pg_audience args, pw_did = pairwiseDid, pw_name = name,
                      pw_subjectDid = pg_subjectDid args,
                      pw_keyHolder = Some (case pg_keyHolder args of None \<Rightarrow> By_Warden | Some k \<Rightarrow> k),
                      pw_createdAt = pg_createdAt args\<rparr>
                  in (Pairwise_rec r, w3, record_rec s r))"

definition isPairwiseDid :: "('st \<Rightarrow> did \<Rightarrow> pairwise_record option) \<Rightarrow> 'st \<Rightarrow> did \<Rightarrow> bool" where
  "isPairwiseDid get_rec s d \<longleftrightarrow> get_rec s d \<noteq> None"

text \<open>\<open>respond\<close> is the wallet's \<open>createResponse\<close> under the identity \<open>name\<close>, \<^const>\<open>None\<close> when it throws; setting an
  identity that the wallet does not hold throws before anything is changed.\<close>

definition proveControl :: "(string \<Rightarrow> string \<Rightarrow> string option) \<Rightarrow> string \<Rightarrow> string \<Rightarrow> wallet \<Rightarrow> string option \<times> wallet" where
  "proveControl respond name challengeDid w =
     (if name \<notin> set (wl_ids w) then (None, w)
      else (respond name challengeDid,
        w\<lparr>wl_current := (if truthy_string (wl_current w) then wl_current w else Some name)\<rparr>))"

lemma proveControl_restores:
  "truthy_string (wl_current w) \<Longrightarrow> snd (proveControl respond name challengeDid w) = w"
  by (simp add: proveControl_def)

section \<open>The chokepoints\<close>

definition enforcePairwiseSubject :: "did \<Rightarrow> bool \<Rightarrow> signed_ruleset option \<Rightarrow> bool" where
  "enforcePairwiseSubject audience isPairwise active =
     (if isPairwise then True
      else audience \<in> set (opt_list (Option.bind active (\<lambda>r. rk_stableDidAudiences (rs_capabilities r)))))"

definition resolveKeyHolder :: "signed_ruleset option \<Rightarrow> did \<Rightarrow> key_holder" where
  "resolveKeyHolder rl audience =
     (case Option.bind rl (\<lambda>r. rk_keyCustody (rs_capabilities r)) of
        None \<Rightarrow> By_Warden
      | Some p \<Rightarrow>
          if audience \<in> set (opt_list (kc_subject p)) then By_Subject
          else if audience \<in> set (opt_list (kc_warden p)) then By_Warden
          else case kc_default p of None \<Rightarrow> By_Warden | Some k \<Rightarrow> k)"

definition enforceKeyCustody :: "signed_ruleset option \<Rightarrow> did \<Rightarrow> key_holder \<Rightarrow> bool" where
  "enforceKeyCustody rl audience mintedBy =
     (if resolveKeyHolder rl audience = By_Subject \<and> mintedBy = By_Warden then False else True)"

record grant_args =
  gt_pairwise :: pairwise_args
  gt_stableSubject :: "did option"
  gt_activeRuleset :: "signed_ruleset option"
  gt_keyCustodyRuleset :: "signed_ruleset option"
  gt_claim :: string
  gt_evidence :: "evidence_group list"
  gt_issued :: "string list option"
  gt_txn :: string
  gt_validUntil :: "string option"

datatype grant_outcome = Grant_minted evidence_claims bool | Custody_refused | Stable_refused | Grant_threw

definition mint_with :: "grant_args \<Rightarrow> did \<Rightarrow> bool \<Rightarrow> grant_outcome" where
  "mint_with args subject is_pw =
     (if \<not> enforcePairwiseSubject (pg_audience (gt_pairwise args)) is_pw (gt_activeRuleset args) then Stable_refused
      else Grant_minted (evidence_graph_claims subject (gt_claim args) (gt_evidence args) (gt_issued args) (gt_txn args)
        (gt_validUntil args)) is_pw)"

text \<open>\<open>is_sovereign\<close> is \<open>warden.role === 'sovereign'\<close>. The record is minted without a \<open>keyHolder\<close>.\<close>

definition mintPairwiseGrant ::
  "hash \<Rightarrow> (string \<Rightarrow> did option) \<Rightarrow> ('st \<Rightarrow> did \<Rightarrow> pairwise_record option) \<Rightarrow> ('st \<Rightarrow> did \<Rightarrow> pairwise_record option) \<Rightarrow>
     ('st \<Rightarrow> pairwise_record \<Rightarrow> 'st) \<Rightarrow> bool \<Rightarrow> grant_args \<Rightarrow> wallet \<Rightarrow> 'st \<Rightarrow> grant_outcome \<times> wallet \<times> 'st" where
  "mintPairwiseGrant H resolve find_rec get_rec record_rec is_sovereign args w s =
     (if truthy_string (gt_stableSubject args)
      then let subject = the (gt_stableSubject args) in (mint_with args subject (isPairwiseDid get_rec s subject), w, s)
      else if \<not> enforceKeyCustody (case gt_keyCustodyRuleset args of None \<Rightarrow> gt_activeRuleset args | Some r \<Rightarrow> Some r)
          (pg_audience (gt_pairwise args)) (if is_sovereign then By_Subject else By_Warden)
        then (Custody_refused, w, s)
      else case resolvePairwiseDid H resolve find_rec record_rec (gt_pairwise args\<lparr>pg_keyHolder := None\<rparr>) w s of
          (Pairwise_rec r, w', s') \<Rightarrow> (mint_with args (pw_did r) True, w', s')
        | (_, w', s') \<Rightarrow> (Grant_threw, w', s'))"

section \<open>What the store holds\<close>

context pairwise_store
begin

text \<open>Every record is for its own audience and holds what its name resolves to.\<close>

definition linked :: "hash \<Rightarrow> (string \<Rightarrow> did option) \<Rightarrow> 'st \<Rightarrow> bool" where
  "linked H resolve s \<longleftrightarrow>
     (\<forall>a r. find_rec s a = Some r \<longrightarrow> pw_audience r = a \<and> pw_name r = pairwiseName H a \<and> pw_did r \<noteq> [] \<and>
        resolve (pairwiseName H a) = Some (pw_did r))"

lemma resolve_links:
  assumes "linked H resolve s" "resolvePairwiseDid H resolve find_rec record_rec args w s = (out, w', s')"
  shows "linked H resolve s' \<and> (\<forall>a r. find_rec s a = Some r \<longrightarrow> find_rec s' a = Some r) \<and>
    (\<forall>r. out = Pairwise_rec r \<longrightarrow> find_rec s' (pg_audience args) = Some r \<and> pw_audience r = pg_audience args)"
proof (cases "find_rec s (pg_audience args)")
  case (Some r)
  with assms show ?thesis by (auto simp: resolvePairwiseDid_def linked_def)
next
  case None
  show ?thesis
  proof (cases "resolve (pairwiseName H (pg_audience args))")
    case (Some d)
    with None assms show ?thesis
      by (auto simp: resolvePairwiseDid_def Let_def linked_def find_record split: if_splits)
  qed (use None assms in \<open>auto simp: resolvePairwiseDid_def Let_def\<close>)
qed

lemma resolve_restores_current:
  assumes "resolvePairwiseDid H resolve find_rec record_rec args w s = (out, w', s')" "truthy_string (wl_current w)"
    and "out \<noteq> Pairwise_threw"
  shows "wl_current w' = wl_current w \<and> set (wl_ids w) \<subseteq> set (wl_ids w')"
  using assms by (auto simp: resolvePairwiseDid_def Let_def split: option.splits if_splits)

lemma linked_distinct:
  assumes "linked H resolve s" "find_rec s a = Some r" "find_rec s b = Some r'" "pw_did r = pw_did r'"
    and "\<And>n n' d. resolve n = Some d \<Longrightarrow> resolve n' = Some d \<Longrightarrow> d \<noteq> [] \<Longrightarrow> n = n'"
  shows "a = b \<or> (a \<noteq> b \<and> take 16 (H a) = take 16 (H b))"
  using assms(1-4) assms(5) [of "pairwiseName H a" "pw_did r" "pairwiseName H b"]
  by (auto simp: linked_def pairwiseName_def)

lemma resolve_idempotent:
  assumes "resolvePairwiseDid H resolve find_rec record_rec args w s = (Pairwise_rec r, w', s')" "pg_audience args' = pg_audience args"
    and "linked H resolve s"
  shows "resolvePairwiseDid H resolve find_rec record_rec args' w'' s' = (Pairwise_rec r, w'', s')"
  using resolve_links [OF assms(3,1)] assms(2) by (auto simp: resolvePairwiseDid_def)

end

section \<open>Runs of the resolver\<close>

fun resolve_run ::
  "hash \<Rightarrow> (string \<Rightarrow> did option) \<Rightarrow> ('st \<Rightarrow> did \<Rightarrow> pairwise_record option) \<Rightarrow> ('st \<Rightarrow> pairwise_record \<Rightarrow> 'st) \<Rightarrow>
     pairwise_args list \<Rightarrow> wallet \<Rightarrow> 'st \<Rightarrow> (did \<times> pairwise_outcome) list \<times> wallet \<times> 'st" where
  "resolve_run H resolve find_rec record_rec [] w s = ([], w, s)"
| "resolve_run H resolve find_rec record_rec (x # xs) w s =
     (case resolvePairwiseDid H resolve find_rec record_rec x w s of
        (out, w', s') \<Rightarrow>
          (case resolve_run H resolve find_rec record_rec xs w' s' of
             (outs, w'', s'') \<Rightarrow> ((pg_audience x, out) # outs, w'', s'')))"

context pairwise_store
begin

lemma run_links:
  assumes "linked H resolve s" "resolve_run H resolve find_rec record_rec xs w s = (outs, w', s')"
  shows "linked H resolve s' \<and> (\<forall>a r. find_rec s a = Some r \<longrightarrow> find_rec s' a = Some r) \<and>
    (\<forall>a r. (a, Pairwise_rec r) \<in> set outs \<longrightarrow> find_rec s' a = Some r)"
  using assms
proof (induction xs arbitrary: w s outs)
  case (Cons x xs)
  obtain out w1 s1 where a: "resolvePairwiseDid H resolve find_rec record_rec x w s = (out, w1, s1)" by (metis prod_cases3)
  obtain outs1 where b: "resolve_run H resolve find_rec record_rec xs w1 s1 = (outs1, w', s')"
      and c: "outs = (pg_audience x, out) # outs1"
    using Cons.prems(2) a by (auto split: prod.splits)
  show ?case using resolve_links [OF Cons.prems(1) a] Cons.IH [OF _ b] c by auto
qed simp

lemma run_one_did_per_audience:
  assumes "linked H resolve s" "resolve_run H resolve find_rec record_rec xs w s = (outs, w', s')"
    and "(a, Pairwise_rec r) \<in> set outs" "(b, Pairwise_rec r') \<in> set outs"
    and inj: "\<And>n n' d. resolve n = Some d \<Longrightarrow> resolve n' = Some d \<Longrightarrow> d \<noteq> [] \<Longrightarrow> n = n'"
  shows "pw_audience r = a \<and> (a = b \<longrightarrow> r = r') \<and>
    (a \<noteq> b \<longrightarrow> pw_did r \<noteq> pw_did r' \<or> take 16 (H a) = take 16 (H b))"
proof -
  have f: "linked H resolve s'" "find_rec s' a = Some r" "find_rec s' b = Some r'"
    using run_links [OF assms(1,2)] assms(3,4) by auto
  show ?thesis using f linked_distinct [OF f _ inj] by (auto simp: linked_def)
qed

end

section \<open>The promises\<close>

text \<open>
  Over any run of resolutions that starts from an empty (or unreadable) store file, every record returned for an
  audience is bound to that audience, the same audience always gets the same record, and two audiences get different
  DIDs unless the truncated hashes that name their identities collide. The hypothesis says of the wallet that two
  names do not resolve to one DID.\<close>

theorem pairwise_dids_unlinkable:
  assumes "resolve_run H resolve file_find file_record xs w None = (outs, w', s')"
    and "(a, Pairwise_rec r) \<in> set outs" "(b, Pairwise_rec r') \<in> set outs"
    and "\<And>n n' d. resolve n = Some d \<Longrightarrow> resolve n' = Some d \<Longrightarrow> d \<noteq> [] \<Longrightarrow> n = n'"
  shows "pw_audience r = a \<and> (a = b \<longrightarrow> r = r') \<and>
    (a \<noteq> b \<longrightarrow> pw_did r \<noteq> pw_did r' \<or> take 16 (H a) = take 16 (H b))"
proof (rule file_pairs.run_one_did_per_audience [OF _ assms(1-3)])
  show "file_pairs.linked H resolve None" by (simp add: file_pairs.linked_def file_find_def file_all_def)
qed (use assms(4) in blast)

lemma mint_with_minted:
  "mint_with args subject is_pw = Grant_minted claims p \<Longrightarrow>
     p = is_pw \<and> ec_subject claims = subject \<and> enforcePairwiseSubject (pg_audience (gt_pairwise args)) is_pw (gt_activeRuleset args)"
  by (auto simp: mint_with_def evidence_graph_claims_def Let_def split: if_splits)

definition stable_exception :: "grant_args \<Rightarrow> bool" where
  "stable_exception args \<longleftrightarrow> (\<exists>r. gt_activeRuleset args = Some r \<and>
     pg_audience (gt_pairwise args) \<in> set (opt_list (rk_stableDidAudiences (rs_capabilities r))))"

definition custody_ruleset :: "grant_args \<Rightarrow> signed_ruleset option" where
  "custody_ruleset args = (case gt_keyCustodyRuleset args of None \<Rightarrow> gt_activeRuleset args | Some r \<Rightarrow> Some r)"

lemma enforce_not_pairwise: "enforcePairwiseSubject (pg_audience (gt_pairwise args)) False (gt_activeRuleset args) = stable_exception args"
  by (cases "gt_activeRuleset args") (auto simp: enforcePairwiseSubject_def stable_exception_def opt_list_def)

text \<open>
  A minted grant names either a pairwise DID or a subject with a signed exception. Without a requested stable
  subject the subject is the DID the store links to this audience, it is flagged pairwise, and the Warden did not
  key a relationship whose custody policy says that the Sovereign keys it. With one, the grant names exactly it, nothing
  is minted, and it is a DID of the store or the active Ruleset lists the audience.\<close>

theorem grant_subject_is_pairwise_or_excepted:
  assumes "mintPairwiseGrant H resolve file_find file_get file_record is_sovereign args w s = (Grant_minted claims p, w', s')"
    and "file_pairs.linked H resolve s"
  shows "if truthy_string (gt_stableSubject args)
    then gt_stableSubject args = Some (ec_subject claims) \<and> s' = s \<and> w' = w \<and>
      (file_get s (ec_subject claims) \<noteq> None \<or> stable_exception args)
    else p \<and> ec_subject claims \<noteq> [] \<and>
      (\<exists>r. file_find s' (pg_audience (gt_pairwise args)) = Some r \<and> pw_did r = ec_subject claims) \<and>
      (resolveKeyHolder (custody_ruleset args) (pg_audience (gt_pairwise args)) = By_Subject \<longrightarrow> is_sovereign)"
proof (cases "truthy_string (gt_stableSubject args)")
  case True
  then have "mint_with args (the (gt_stableSubject args)) (isPairwiseDid file_get s (the (gt_stableSubject args))) = Grant_minted claims p"
    "w' = w" "s' = s" using assms by (auto simp: mintPairwiseGrant_def Let_def)
  with True mint_with_minted [OF this(1)] enforce_not_pairwise [of args] show ?thesis
    by (cases "gt_stableSubject args") (auto simp: isPairwiseDid_def)
next
  case False
  let ?pg = "gt_pairwise args\<lparr>pg_keyHolder := None\<rparr>"
  have c: "enforceKeyCustody (custody_ruleset args) (pg_audience (gt_pairwise args)) (if is_sovereign then By_Subject else By_Warden)"
    using False assms(1) by (auto simp: mintPairwiseGrant_def Let_def custody_ruleset_def split: if_splits)
  obtain r where r: "resolvePairwiseDid H resolve file_find file_record ?pg w s = (Pairwise_rec r, w', s')"
      "mint_with args (pw_did r) True = Grant_minted claims p"
    using False assms(1) by (auto simp: mintPairwiseGrant_def Let_def split: if_splits prod.splits pairwise_outcome.splits)
  have "file_pairs.linked H resolve s'" "file_find s' (pg_audience (gt_pairwise args)) = Some r"
    using file_pairs.resolve_links [OF assms(2) r(1)] by auto
  then show ?thesis using False c mint_with_minted [OF r(2)]
    by (auto simp: file_pairs.linked_def enforceKeyCustody_def split: if_splits)
qed

text \<open>
  A pairwise DID that was minted for one audience is accepted as the \<open>stableSubject\<close> of a grant to another one
  without any signed exception, so one subject identifier reaches two counterparties.\<close>

theorem foreign_pairwise_needs_no_exception:
  assumes "file_find s b = Some r" "pw_did r = d" "d \<noteq> []" "gt_stableSubject args = Some d"
  shows "\<exists>claims. mintPairwiseGrant H resolve file_find file_get file_record is_sovereign args w s = (Grant_minted claims True, w, s) \<and>
    ec_subject claims = d"
proof -
  have "\<exists>x\<in>set (file_all s). pw_did x = d"
    using assms(1,2) by (metis (no_types, lifting) file_find_def find_Some_iff nth_mem)
  then have "file_get s d \<noteq> None" by (auto simp: file_get_def find_None_iff)
  then show ?thesis using assms(3,4)
    by (auto simp: mintPairwiseGrant_def mint_with_def isPairwiseDid_def enforcePairwiseSubject_def
        evidence_graph_claims_def Let_def)
qed

text \<open>A grant minted by the Sovereign's own handle still records that the Warden holds the key.\<close>

lemma sovereign_mint_recorded_as_warden:
  assumes "file_find s (pg_audience (gt_pairwise args)) = None" "\<not> truthy_string (gt_stableSubject args)"
    and "mintPairwiseGrant H resolve file_find file_get file_record True args w s = (Grant_minted claims p, w', s')"
  shows "\<exists>r. file_find s' (pg_audience (gt_pairwise args)) = Some r \<and> pw_keyHolder r = Some By_Warden"
proof -
  obtain r where "resolvePairwiseDid H resolve file_find file_record (gt_pairwise args\<lparr>pg_keyHolder := None\<rparr>) w s = (Pairwise_rec r, w', s')"
    using assms(2,3) by (auto simp: mintPairwiseGrant_def Let_def split: if_splits prod.splits pairwise_outcome.splits)
  then show ?thesis using assms(1) by (auto simp: resolvePairwiseDid_def Let_def file_pairs.find_record split: option.splits if_splits)
qed

end
