(* ===== verification/Pairwise_Example.thy ===== *)
theory Pairwise_Example
  imports Pairwise
begin

text \<open>The witnesses of \<open>Pairwise\<close>: a wallet whose identity \<open>n\<close> resolves to the DID \<open>n\<close>, and two audiences.\<close>

definition px_args :: "did \<Rightarrow> pairwise_args" where
  "px_args a = \<lparr>pg_audience = a, pg_subjectDid = ''S'', pg_createdAt = ''t'', pg_keyHolder = None\<rparr>"

definition px_wallet :: wallet where
  "px_wallet = \<lparr>wl_current = Some ''me'', wl_ids = [''me'']\<rparr>"

definition px_record :: "did \<Rightarrow> pairwise_record" where
  "px_record a = \<lparr>pw_audience = a, pw_did = ''pw-'' @ a, pw_name = ''pw-'' @ a, pw_subjectDid = ''S'',
     pw_keyHolder = Some By_Warden, pw_createdAt = ''t''\<rparr>"

definition px_grant :: "did \<Rightarrow> did option \<Rightarrow> grant_args" where
  "px_grant a subject = \<lparr>gt_pairwise = px_args a, gt_stableSubject = subject, gt_activeRuleset = None, gt_keyCustodyRuleset = None,
     gt_claim = ''c'', gt_evidence = [], gt_issued = None, gt_txn = ''x'', gt_validUntil = None\<rparr>"

definition px_wallet2 :: wallet where
  "px_wallet2 = \<lparr>wl_current = Some ''me'', wl_ids = [''me'', ''pw-bank'']\<rparr>"

lemmas px_simps = px_args_def px_wallet_def px_wallet2_def px_record_def resolvePairwiseDid_def pairwiseName_def file_find_def
  file_record_def file_all_def Let_def

lemma px_bank:
  "resolvePairwiseDid id Some file_find file_record (px_args ''bank'') px_wallet None =
     (Pairwise_rec (px_record ''bank''), px_wallet2, Some [px_record ''bank''])"
  by (simp add: px_simps)

lemma px_shop:
  "resolvePairwiseDid id Some file_find file_record (px_args ''shop'') px_wallet2 (Some [px_record ''bank'']) =
     (Pairwise_rec (px_record ''shop''), \<lparr>wl_current = Some ''me'', wl_ids = [''me'', ''pw-bank'', ''pw-shop'']\<rparr>,
      Some [px_record ''bank'', px_record ''shop''])"
  by (simp add: px_simps)

lemma px_run:
  "resolve_run id Some file_find file_record [px_args ''bank'', px_args ''shop''] px_wallet None =
     ([(pg_audience (px_args ''bank''), Pairwise_rec (px_record ''bank'')),
       (pg_audience (px_args ''shop''), Pairwise_rec (px_record ''shop''))],
      \<lparr>wl_current = Some ''me'', wl_ids = [''me'', ''pw-bank'', ''pw-shop'']\<rparr>,
      Some [px_record ''bank'', px_record ''shop''])"
  by (simp only: resolve_run.simps px_bank px_shop prod.case)

lemma pairwise_dids_unlinkable_witness:
  "\<not> (pw_did (px_record ''bank'') = pw_did (px_record ''shop'') \<and> take 16 (id ''bank'') \<noteq> take 16 (id ''shop''))"
proof -
  have "pw_audience (px_record ''bank'') = ''bank'' \<and> (''bank'' = ''shop'' \<longrightarrow> px_record ''bank'' = px_record ''shop'') \<and>
    (''bank'' \<noteq> ''shop'' \<longrightarrow> pw_did (px_record ''bank'') \<noteq> pw_did (px_record ''shop'') \<or> take 16 (id ''bank'') = take 16 (id ''shop''))"
    by (rule pairwise_dids_unlinkable [OF px_run]) (simp_all add: px_args_def)
  moreover have "''bank'' \<noteq> ''shop''" by simp
  ultimately have "pw_did (px_record ''bank'') \<noteq> pw_did (px_record ''shop'') \<or> take 16 (id ''bank'') = take 16 (id ''shop'')"
    by (rule mp [OF conjunct2 [OF conjunct2]])
  then show ?thesis by metis
qed

lemma px_linked: "file_pairs.linked id Some None"
  by (simp add: file_pairs.linked_def file_find_def file_all_def)

lemma px_mint:
  "mintPairwiseGrant id Some file_find file_get file_record False (px_grant ''bank'' None) px_wallet None =
     (Grant_minted (evidence_graph_claims ''pw-bank'' ''c'' [] None ''x'' None) True,
      px_wallet2, Some [px_record ''bank''])"
  by (simp add: px_simps px_grant_def mintPairwiseGrant_def mint_with_def enforcePairwiseSubject_def enforceKeyCustody_def
      resolveKeyHolder_def)

lemma grant_subject_is_pairwise_or_excepted_witness:
  "\<exists>r. file_find (Some [px_record ''bank'']) ''bank'' = Some r \<and> pw_did r = ''pw-bank''"
proof -
  have "\<not> truthy_string (gt_stableSubject (px_grant ''bank'' None))" by (simp add: px_grant_def)
  then show ?thesis using grant_subject_is_pairwise_or_excepted [OF px_mint px_linked]
    by (auto simp: px_grant_def px_args_def evidence_graph_claims_def Let_def)
qed

lemma foreign_pairwise_needs_no_exception_witness:
  "\<exists>claims. mintPairwiseGrant id Some file_find file_get file_record False (px_grant ''shop'' (Some ''pw-bank'')) px_wallet
      (Some [px_record ''bank'']) = (Grant_minted claims True, px_wallet, Some [px_record ''bank'']) \<and> ec_subject claims = ''pw-bank''"
  by (rule foreign_pairwise_needs_no_exception [where b = "''bank''" and r = "px_record ''bank''"])
    (simp_all add: px_simps px_grant_def)

end
