(* ===== verification/Transport.thy ===== *)
theory Transport
  imports Prelude "HOL-Library.Sublist"
begin

text \<open>
  The DIDComm transport, \<open>packages/core/src/transport.ts\<close>: the one reader of the mailbox. The relay keeps a
  message until it is acknowledged; the loop reads without removing, matches replies with the waiting requests,
  dispatches the rest to the handler and acknowledges what was consumed. The events are the points at which the
  code awaits: between them the code runs without interruption. Keymaster, the relay and the handler decide the
  arguments of the events; \<open>tp_arrived\<close>, \<open>tp_threads\<close> and \<open>tp_log\<close> record the history. The relay's expiry is left out.
\<close>

section \<open>Messages and state\<close>

record wire_message =
  ms_type :: string
  ms_payload :: string

text \<open>What \<open>receiveDidComm\<close> returns for one message: its mailbox id, the unpacked thread id and body, and the
  envelope's metadata.\<close>

record mail =
  ml_id :: "string option"
  ml_thid :: "string option"
  ml_body :: "wire_message option"
  ml_authenticated :: "bool option"
  ml_sender :: "string option"

definition bareDid :: "string option \<Rightarrow> did" where
  "bareDid sender = before_hash (case sender of None \<Rightarrow> [] | Some s \<Rightarrow> s)"

text \<open>A handler is running, has returned and its acknowledgment is under way, or only its place in \<open>inFlight\<close> is
  left to be cleared.\<close>

datatype run_stage = Running | Acknowledging | Settling

record handler_run =
  hr_mail :: mail
  hr_from :: did
  hr_stage :: run_stage

text \<open>The loop is stopped, about to read, holds what it read, or acknowledges what the pass consumed.\<close>

datatype loop_phase = Stopped | Idle | Fetched "mail list" | Acking "string list"

datatype history = Resolved_reply string mail | Dispatched_to mail did | Handled_mail mail | Dropped_empty mail | Dropped_unverified mail

record transport =
  tp_relay :: "mail list"
  tp_pending :: "string list"
  tp_inFlight :: "string list"
  tp_serving :: bool
  tp_keep :: bool
  tp_phase :: loop_phase
  tp_runs :: "handler_run list"
  tp_arrived :: "mail list"
  tp_threads :: "string list"
  tp_log :: "history list"

definition new_transport :: transport where
  "new_transport = \<lparr>tp_relay = [], tp_pending = [], tp_inFlight = [], tp_serving = False, tp_keep = False,
     tp_phase = Stopped, tp_runs = [], tp_arrived = [], tp_threads = [], tp_log = []\<rparr>"

section \<open>One pass over what was read\<close>

definition usable :: "mail \<Rightarrow> bool" where
  "usable m \<longleftrightarrow> (case ml_body m of None \<Rightarrow> False | Some b \<Rightarrow> ms_type b \<noteq> [])"

definition from_did :: "mail \<Rightarrow> did" where
  "from_did m = (if ml_authenticated m = Some True then bareDid (ml_sender m) else [])"

datatype fate = Skip | Drop_empty | Resolve string | Leave | Drop_unverified | Dispatch

definition fate_of :: "transport \<Rightarrow> mail \<Rightarrow> fate" where
  "fate_of s m =
     (if truthy_string (ml_id m) \<and> the (ml_id m) \<in> set (tp_inFlight s) then Skip
      else if \<not> usable m then Drop_empty
      else if truthy_string (ml_thid m) \<and> the (ml_thid m) \<in> set (tp_pending s) then Resolve (the (ml_thid m))
      else if \<not> tp_serving s then Leave
      else if from_did m = [] then Drop_unverified
      else Dispatch)"

text \<open>\<open>if (id) doneNow.push(id)\<close>.\<close>

definition done_with :: "mail \<Rightarrow> string list \<Rightarrow> string list" where
  "done_with m ids = (if truthy_string (ml_id m) then ids @ [the (ml_id m)] else ids)"

definition take_mail :: "mail \<Rightarrow> transport \<times> string list \<Rightarrow> transport \<times> string list" where
  "take_mail m st =
     (case st of (s, ids) \<Rightarrow>
       (case fate_of s m of
          Skip \<Rightarrow> (s, ids)
        | Drop_empty \<Rightarrow> (s\<lparr>tp_log := tp_log s @ [Dropped_empty m]\<rparr>, done_with m ids)
        | Resolve t \<Rightarrow> (s\<lparr>tp_pending := removeAll t (tp_pending s), tp_log := tp_log s @ [Resolved_reply t m]\<rparr>, done_with m ids)
        | Leave \<Rightarrow> (s, ids)
        | Drop_unverified \<Rightarrow> (s\<lparr>tp_log := tp_log s @ [Dropped_unverified m]\<rparr>, done_with m ids)
        | Dispatch \<Rightarrow>
            (s\<lparr>tp_inFlight := (if truthy_string (ml_id m) then tp_inFlight s @ [the (ml_id m)] else tp_inFlight s),
               tp_runs := tp_runs s @ [\<lparr>hr_mail = m, hr_from = from_did m, hr_stage = Running\<rparr>],
               tp_log := tp_log s @ [Dispatched_to m (from_did m)]\<rparr>, ids)))"

definition reader_pass :: "mail list \<Rightarrow> transport \<Rightarrow> transport \<times> string list" where
  "reader_pass batch s = fold take_mail batch (s, [])"

section \<open>Events\<close>

definition ensureLoop :: "transport \<Rightarrow> transport" where
  "ensureLoop s = (if tp_phase s = Stopped then s\<lparr>tp_phase := Idle\<rparr> else s)"

definition loop_continues :: "transport \<Rightarrow> bool" where
  "loop_continues s \<longleftrightarrow> tp_keep s \<or> tp_serving s \<or> tp_pending s \<noteq> [] \<or> tp_inFlight s \<noteq> []"

definition ack_relay :: "string list \<Rightarrow> transport \<Rightarrow> transport" where
  "ack_relay ids s = s\<lparr>tp_relay := filter (\<lambda>m. \<not> (truthy_string (ml_id m) \<and> the (ml_id m) \<in> set ids)) (tp_relay s)\<rparr>"

text \<open>
  \<open>Ack\<close>, \<open>Ack_run\<close>: whether the relay obeyed; failures are swallowed. \<open>Finish i handled\<close>: the \<open>i\<close>-th run's handler
  returned or threw. \<open>Request\<close> has a fresh thread; \<open>Sent\<close> is its send going through, which starts the loop. An arriving
  message has a fresh mailbox id.
\<close>

datatype event = Arrive mail | Request string | Sent | Send_failed string | Timeout string | Serve | Stop_serving | Keep_alive
  | Read | Read_failed | Pass | Ack bool | Finish nat bool | Ack_run nat bool | Settle nat | Crash

definition set_stage :: "nat \<Rightarrow> run_stage \<Rightarrow> transport \<Rightarrow> transport" where
  "set_stage i g s = s\<lparr>tp_runs := (tp_runs s)[i := (tp_runs s ! i)\<lparr>hr_stage := g\<rparr>]\<rparr>"

definition run_at :: "transport \<Rightarrow> nat \<Rightarrow> run_stage \<Rightarrow> bool" where
  "run_at s i g \<longleftrightarrow> i < length (tp_runs s) \<and> hr_stage (tp_runs s ! i) = g"

definition fresh_mail :: "mail \<Rightarrow> transport \<Rightarrow> bool" where
  "fresh_mail m s \<longleftrightarrow> (if truthy_string (ml_id m) then ml_id m \<notin> ml_id ` set (tp_arrived s) else True)"

fun apply_event :: "event \<Rightarrow> transport \<Rightarrow> transport option" where
  "apply_event (Arrive m) s =
     (if fresh_mail m s then Some (s\<lparr>tp_relay := tp_relay s @ [m], tp_arrived := tp_arrived s @ [m]\<rparr>) else None)"
| "apply_event (Request t) s =
     (if t = [] \<or> t \<in> set (tp_threads s) then None
      else Some (s\<lparr>tp_pending := tp_pending s @ [t], tp_threads := tp_threads s @ [t]\<rparr>))"
| "apply_event Sent s = Some (ensureLoop s)"
| "apply_event (Send_failed t) s = Some (s\<lparr>tp_pending := removeAll t (tp_pending s)\<rparr>)"
| "apply_event (Timeout t) s = Some (s\<lparr>tp_pending := removeAll t (tp_pending s)\<rparr>)"
| "apply_event Serve s = Some (ensureLoop (s\<lparr>tp_serving := True\<rparr>))"
| "apply_event Stop_serving s = Some (s\<lparr>tp_serving := False\<rparr>)"
| "apply_event Keep_alive s = Some (ensureLoop (s\<lparr>tp_keep := True\<rparr>))"
| "apply_event Read s =
     (if tp_phase s \<noteq> Idle then None
      else if loop_continues s then Some (s\<lparr>tp_phase := Fetched (tp_relay s)\<rparr>)
      else Some (s\<lparr>tp_phase := Stopped\<rparr>))"
| "apply_event Read_failed s =
     (if tp_phase s \<noteq> Idle then None
      else if loop_continues s then Some (s\<lparr>tp_phase := Fetched []\<rparr>)
      else Some (s\<lparr>tp_phase := Stopped\<rparr>))"
| "apply_event Pass s =
     (case tp_phase s of
        Fetched batch \<Rightarrow> (case reader_pass batch s of (s', ids) \<Rightarrow> Some (s'\<lparr>tp_phase := Acking ids\<rparr>))
      | _ \<Rightarrow> None)"
| "apply_event (Ack ok) s =
     (case tp_phase s of
        Acking ids \<Rightarrow> Some ((if ok then ack_relay ids s else s)\<lparr>tp_phase := (if loop_continues s then Idle else Stopped)\<rparr>)
      | _ \<Rightarrow> None)"
| "apply_event (Finish i handled) s =
     (if \<not> run_at s i Running then None
      else if handled then Some ((set_stage i (if truthy_string (ml_id (hr_mail (tp_runs s ! i))) then Acknowledging else Settling) s)
         \<lparr>tp_log := tp_log s @ [Handled_mail (hr_mail (tp_runs s ! i))]\<rparr>)
      else Some (set_stage i Settling s))"
| "apply_event (Ack_run i ok) s =
     (if \<not> run_at s i Acknowledging then None
      else Some (set_stage i Settling (if ok then ack_relay [the (ml_id (hr_mail (tp_runs s ! i)))] s else s)))"
| "apply_event (Settle i) s =
     (if \<not> run_at s i Settling then None
      else Some (s\<lparr>tp_inFlight := (if truthy_string (ml_id (hr_mail (tp_runs s ! i)))
            then removeAll (the (ml_id (hr_mail (tp_runs s ! i)))) (tp_inFlight s) else tp_inFlight s),
          tp_runs := take i (tp_runs s) @ drop (Suc i) (tp_runs s)\<rparr>))"
| "apply_event Crash s =
     Some (s\<lparr>tp_pending := [], tp_inFlight := [], tp_serving := False, tp_keep := False, tp_phase := Stopped, tp_runs := []\<rparr>)"

inductive reaches :: "transport \<Rightarrow> bool" where
  start: "reaches new_transport"
| event: "reaches s \<Longrightarrow> apply_event e s = Some s' \<Longrightarrow> reaches s'"

fun run_events :: "event list \<Rightarrow> transport \<Rightarrow> transport option" where
  "run_events [] s = Some s"
| "run_events (e # es) s = Option.bind (apply_event e s) (run_events es)"

lemma reaches_run: "reaches s \<Longrightarrow> run_events es s = Some s' \<Longrightarrow> reaches s'"
  by (induction es arbitrary: s) (auto simp: bind_eq_Some_conv intro: reaches.event)

section \<open>Nothing is lost\<close>

definition accounted :: "history list \<Rightarrow> mail \<Rightarrow> bool" where
  "accounted h m \<longleftrightarrow> Handled_mail m \<in> set h \<or> (\<exists>t. Resolved_reply t m \<in> set h) \<or> Dropped_empty m \<in> set h \<or>
     Dropped_unverified m \<in> set h"

lemma accounted_append [simp]: "accounted (h @ h') m \<longleftrightarrow> accounted h m \<or> accounted h' m"
  by (auto simp: accounted_def)

lemma accounted_Nil [simp]: "\<not> accounted [] m"
  by (simp add: accounted_def)

text \<open>What a step of the pass leaves alone, and what it adds.\<close>

definition pass_frame :: "transport \<Rightarrow> transport \<Rightarrow> bool" where
  "pass_frame s s' \<longleftrightarrow> tp_relay s' = tp_relay s \<and> tp_arrived s' = tp_arrived s \<and> tp_threads s' = tp_threads s \<and>
     tp_serving s' = tp_serving s \<and> tp_keep s' = tp_keep s \<and> tp_phase s' = tp_phase s \<and>
     set (tp_pending s') \<subseteq> set (tp_pending s) \<and> prefix (tp_log s) (tp_log s') \<and> prefix (tp_runs s) (tp_runs s') \<and>
     set (tp_inFlight s) \<subseteq> set (tp_inFlight s')"

lemma pass_frame_refl [simp]: "pass_frame s s"
  by (simp add: pass_frame_def)

lemma pass_frame_trans: "pass_frame s s' \<Longrightarrow> pass_frame s' s'' \<Longrightarrow> pass_frame s s''"
  by (auto simp: pass_frame_def intro: prefix_order.trans)

lemma take_mail_frame: "take_mail m (s, ids) = (s', ids') \<Longrightarrow> pass_frame s s'"
  by (auto simp: take_mail_def pass_frame_def split: fate.splits)

lemma fold_take_mail_frame: "fold take_mail batch (s, ids) = (s', ids') \<Longrightarrow> pass_frame s s'"
proof (induction batch arbitrary: s ids)
  case (Cons m batch)
  obtain s1 ids1 where a: "take_mail m (s, ids) = (s1, ids1)" by (metis surj_pair)
  have "pass_frame s1 s'" using Cons.IH [of s1 ids1] Cons.prems a by simp
  with take_mail_frame [OF a] show ?case by (rule pass_frame_trans)
qed simp

text \<open>An invariant of one step of the pass is one of the pass.\<close>

lemma fold_take_mail_inv:
  assumes "P s ids" "\<And>m s ids s' ids'. m \<in> set batch \<Longrightarrow> P s ids \<Longrightarrow> take_mail m (s, ids) = (s', ids') \<Longrightarrow> P s' ids'"
    and "fold take_mail batch (s, ids) = (s', ids')"
  shows "P s' ids'"
  using assms
proof (induction batch arbitrary: s ids)
  case (Cons m batch)
  obtain s1 ids1 where a: "take_mail m (s, ids) = (s1, ids1)" by (metis surj_pair)
  have "P s1 ids1" by (rule Cons.prems(2) [OF _ Cons.prems(1) a]) simp
  moreover have "fold take_mail batch (s1, ids1) = (s', ids')" using Cons.prems(3) a by simp
  ultimately show ?case using Cons.IH [of s1 ids1] Cons.prems(2) by (meson list.set_intros(2))
qed simp

definition runs_known :: "transport \<Rightarrow> bool" where
  "runs_known s \<longleftrightarrow> (\<forall>r\<in>set (tp_runs s). hr_mail r \<in> set (tp_arrived s) \<and>
     (hr_stage r = Acknowledging \<longrightarrow> truthy_string (ml_id (hr_mail r)) \<and> Handled_mail (hr_mail r) \<in> set (tp_log s)))"

definition ids_accounted :: "transport \<Rightarrow> string list \<Rightarrow> bool" where
  "ids_accounted s ids \<longleftrightarrow> (\<forall>i\<in>set ids. i \<noteq> [] \<and> (\<exists>m\<in>set (tp_arrived s). ml_id m = Some i \<and> accounted (tp_log s) m))"

definition ids_unique :: "transport \<Rightarrow> bool" where
  "ids_unique s \<longleftrightarrow> (\<forall>m\<in>set (tp_arrived s). \<forall>m'\<in>set (tp_arrived s). truthy_string (ml_id m) \<and> ml_id m = ml_id m' \<longrightarrow> m = m')"

definition drain_inv :: "transport \<Rightarrow> bool" where
  "drain_inv s \<longleftrightarrow> ids_unique s \<and> set (tp_relay s) \<subseteq> set (tp_arrived s) \<and> runs_known s \<and>
     (\<forall>m\<in>set (tp_arrived s). m \<in> set (tp_relay s) \<or> accounted (tp_log s) m) \<and>
     (\<forall>b. tp_phase s = Fetched b \<longrightarrow> set b \<subseteq> set (tp_arrived s)) \<and>
     (\<forall>ids. tp_phase s = Acking ids \<longrightarrow> ids_accounted s ids)"

lemma ack_relay_drain:
  assumes "drain_inv s" "ids_accounted s ids"
  shows "drain_inv (ack_relay ids s)"
proof -
  have "accounted (tp_log s) m" if m: "m \<in> set (tp_arrived s)" "truthy_string (ml_id m)" "the (ml_id m) \<in> set ids" for m
  proof -
    obtain m' where "m' \<in> set (tp_arrived s)" "ml_id m' = ml_id m" "accounted (tp_log s) m'"
      using assms(2) m(2,3) unfolding ids_accounted_def by (cases "ml_id m") auto
    with m assms(1) show ?thesis unfolding drain_inv_def ids_unique_def by metis
  qed
  then show ?thesis using assms(1)
    by (auto simp: drain_inv_def ack_relay_def ids_unique_def runs_known_def ids_accounted_def)
qed

lemma ids_extend:
  "ids_accounted s ids \<Longrightarrow> tp_arrived s' = tp_arrived s \<Longrightarrow> tp_log s' = tp_log s @ h \<Longrightarrow> ids_accounted s' ids"
  by (auto simp: ids_accounted_def)

text \<open>A step that appends to the log and to the runs keeps the invariant.\<close>

lemma drain_extend:
  assumes "drain_inv s" "tp_arrived s' = tp_arrived s" "tp_relay s' = tp_relay s" "tp_phase s' = tp_phase s"
    and "tp_log s' = tp_log s @ h" "tp_runs s' = tp_runs s @ rs"
    and "\<forall>r\<in>set rs. hr_mail r \<in> set (tp_arrived s) \<and> hr_stage r = Running"
  shows "drain_inv s'"
  using assms ids_extend [of s _ s' h] by (auto simp: drain_inv_def ids_unique_def runs_known_def)

lemma done_with_accounted:
  "ids_accounted s ids \<Longrightarrow> m \<in> set (tp_arrived s) \<Longrightarrow> accounted (tp_log s) m \<Longrightarrow> ids_accounted s (done_with m ids)"
  by (cases "ml_id m") (auto simp: ids_accounted_def done_with_def)

lemma take_mail_drain:
  assumes "drain_inv s \<and> ids_accounted s ids" "m \<in> set (tp_arrived s)" "take_mail m (s, ids) = (s', ids')"
  shows "drain_inv s' \<and> ids_accounted s' ids'"
proof
  obtain h rs where h: "tp_arrived s' = tp_arrived s" "tp_relay s' = tp_relay s" "tp_phase s' = tp_phase s"
      "tp_log s' = tp_log s @ h" "tp_runs s' = tp_runs s @ rs" "ids' = ids \<or> ids' = done_with m ids \<and> accounted h m"
      "\<forall>r\<in>set rs. hr_mail r = m \<and> hr_stage r = Running"
    using assms(3) by (auto simp: take_mail_def accounted_def split: fate.splits)
  show "drain_inv s'" by (rule drain_extend [OF _ h(1-5)]) (use assms h(7) in auto)
  have a: "ids_accounted s' ids" by (rule ids_extend [OF _ h(1,4)]) (use assms in auto)
  show "ids_accounted s' ids'" using h(6)
  proof
    assume "ids' = done_with m ids \<and> accounted h m"
    then show ?thesis using done_with_accounted [OF a, of m] h(1,4) assms(2) by simp
  qed (use a in simp)
qed

lemma reader_pass_drain:
  assumes "drain_inv s" "set batch \<subseteq> set (tp_arrived s)" "reader_pass batch s = (s', ids)"
  shows "drain_inv s' \<and> ids_accounted s' ids"
proof -
  have "(drain_inv s' \<and> ids_accounted s' ids) \<and> tp_arrived s' = tp_arrived s"
  proof (rule fold_take_mail_inv [OF _ _ assms(3) [unfolded reader_pass_def]])
    show "(drain_inv s \<and> ids_accounted s []) \<and> tp_arrived s = tp_arrived s"
      using assms(1) by (simp add: ids_accounted_def)
  next
    fix m t js t' js'
    assume "m \<in> set batch" "(drain_inv t \<and> ids_accounted t js) \<and> tp_arrived t = tp_arrived s"
      and t: "take_mail m (t, js) = (t', js')"
    with assms(2) take_mail_drain [OF _ _ t] take_mail_frame [OF t]
    show "(drain_inv t' \<and> ids_accounted t' js') \<and> tp_arrived t' = tp_arrived s" by (auto simp: pass_frame_def)
  qed
  then show ?thesis by blast
qed

text \<open>Changes outside what the invariant reads.\<close>

lemma drain_frame:
  assumes "drain_inv s" "tp_arrived s' = tp_arrived s" "tp_relay s' = tp_relay s" "tp_log s' = tp_log s"
    and "set (tp_runs s') \<subseteq> set (tp_runs s)" "tp_phase s' \<in> {Stopped, Idle, Fetched [], Fetched (tp_relay s), tp_phase s}"
  shows "drain_inv s'"
proof -
  have i: "ids_accounted s' = ids_accounted s" using assms(2,4) by (simp add: fun_eq_iff ids_accounted_def)
  have u: "ids_unique s' = ids_unique s" using assms(2) by (simp add: ids_unique_def)
  have r: "runs_known s \<Longrightarrow> runs_known s'" using assms(2,4,5) by (auto simp: runs_known_def)
  show ?thesis using assms(1,6) r unfolding drain_inv_def i u assms(2-4)
    by (elim insertE) (simp_all add: assms(2))
qed

lemma set_stage_drain:
  assumes "drain_inv s" "i < length (tp_runs s)" "s' = (set_stage i g s)\<lparr>tp_log := tp_log s @ h\<rparr>"
    and "g = Acknowledging \<Longrightarrow> truthy_string (ml_id (hr_mail (tp_runs s ! i))) \<and> Handled_mail (hr_mail (tp_runs s ! i)) \<in> set h"
    and "g \<noteq> Running"
  shows "drain_inv s'"
proof -
  have "\<forall>r\<in>set (tp_runs s'). hr_mail r \<in> set (tp_arrived s) \<and>
      (hr_stage r = Acknowledging \<longrightarrow> truthy_string (ml_id (hr_mail r)) \<and> Handled_mail (hr_mail r) \<in> set (tp_log s'))"
    using assms by (auto simp: drain_inv_def runs_known_def set_stage_def dest!: set_update_subset_insert [THEN subsetD])
  moreover have "\<And>ids. ids_accounted s ids \<Longrightarrow> ids_accounted s' ids"
    using assms(3) by (auto simp: ids_accounted_def set_stage_def)
  ultimately show ?thesis using assms(1,3)
    by (auto simp: drain_inv_def ids_unique_def runs_known_def set_stage_def)
qed

lemma set_take_drop: "set (take i xs @ drop (Suc i) xs) \<subseteq> set xs"
  by (auto dest: in_set_takeD in_set_dropD)

lemma arrive_drain:
  assumes "drain_inv s" "fresh_mail m s" "s' = s\<lparr>tp_relay := tp_relay s @ [m], tp_arrived := tp_arrived s @ [m]\<rparr>"
  shows "drain_inv s'"
proof -
  have f: "ml_id x \<noteq> ml_id m" if "truthy_string (ml_id m)" "x \<in> set (tp_arrived s)" for x
    using assms(2) that by (metis fresh_mail_def imageI)
  have "ids_unique s" using assms(1) by (simp add: drain_inv_def)
  then have "ids_unique s'" using f unfolding ids_unique_def assms(3)
    by (simp add: ball_Un) metis
  moreover have "\<And>ids. ids_accounted s ids \<Longrightarrow> ids_accounted s' ids" using assms(3) by (auto simp: ids_accounted_def)
  ultimately show ?thesis using assms(1,3) by (auto simp: drain_inv_def runs_known_def)
qed

lemma ack_drain:
  assumes "drain_inv s" "tp_phase s = Acking ids" "g \<in> {Stopped, Idle}"
  shows "drain_inv ((if ok then ack_relay ids s else s)\<lparr>tp_phase := g\<rparr>)"
proof -
  have "drain_inv (if ok then ack_relay ids s else s)"
    using assms(1,2) ack_relay_drain [of s ids] by (auto simp: drain_inv_def)
  then show ?thesis by (rule drain_frame) (use assms(3) in auto)
qed

lemma ack_run_drain:
  assumes "drain_inv s" "run_at s i Acknowledging"
  shows "drain_inv (set_stage i Settling (if ok then ack_relay [the (ml_id (hr_mail (tp_runs s ! i)))] s else s))"
proof -
  let ?t = "if ok then ack_relay [the (ml_id (hr_mail (tp_runs s ! i)))] s else s"
  have r: "runs_known s" "tp_runs s ! i \<in> set (tp_runs s)" "hr_stage (tp_runs s ! i) = Acknowledging"
    using assms by (auto simp: drain_inv_def run_at_def)
  then have "ids_accounted s [the (ml_id (hr_mail (tp_runs s ! i)))]"
    unfolding ids_accounted_def runs_known_def accounted_def
    by (cases "ml_id (hr_mail (tp_runs s ! i))") auto
  then have t: "drain_inv ?t" using assms(1) ack_relay_drain by auto
  show ?thesis
    by (rule set_stage_drain [OF t, where h = "[]"]) (use assms(2) in \<open>auto simp: run_at_def ack_relay_def set_stage_def\<close>)
qed

lemma event_drain:
  assumes "drain_inv s" "apply_event e s = Some s'"
  shows "drain_inv s'"
proof (cases e)
  case (Arrive m)
  then show ?thesis using assms(2) arrive_drain [OF assms(1), of m] by (auto split: if_splits)
next
  case Pass
  then obtain batch t ids where b: "tp_phase s = Fetched batch" "reader_pass batch s = (t, ids)" "s' = t\<lparr>tp_phase := Acking ids\<rparr>"
    using assms(2) by (auto split: loop_phase.splits prod.splits)
  have "drain_inv t \<and> ids_accounted t ids"
    by (rule reader_pass_drain [OF assms(1) _ b(2)]) (use assms(1) b(1) in \<open>auto simp: drain_inv_def\<close>)
  then show ?thesis using b(3) by (auto simp: drain_inv_def ids_unique_def runs_known_def ids_accounted_def)
next
  case (Ack ok)
  then show ?thesis using assms(2) ack_drain [OF assms(1)] by (auto split: loop_phase.splits)
next
  case (Finish i handled)
  then show ?thesis
  proof (cases handled)
    case True
    then show ?thesis using assms(2) Finish
      by (intro set_stage_drain [OF assms(1), where i = i and h = "[Handled_mail (hr_mail (tp_runs s ! i))]" and
            g = "if truthy_string (ml_id (hr_mail (tp_runs s ! i))) then Acknowledging else Settling"])
        (auto simp: run_at_def split: if_splits)
  next
    case False
    then show ?thesis using assms(2) Finish
      by (intro set_stage_drain [OF assms(1), where i = i and g = Settling and h = "[]"]) (auto simp: run_at_def set_stage_def split: if_splits)
  qed
next
  case (Ack_run i ok)
  then show ?thesis using assms(2) ack_run_drain [OF assms(1), of i ok] by (auto split: if_splits)
next
  case (Settle i)
  have "tp_arrived s' = tp_arrived s \<and> tp_relay s' = tp_relay s \<and> tp_log s' = tp_log s \<and>
      tp_runs s' = take i (tp_runs s) @ drop (Suc i) (tp_runs s) \<and> tp_phase s' = tp_phase s"
    using Settle assms(2) by (auto split: if_splits)
  then show ?thesis using set_take_drop [of i "tp_runs s"] by (intro drain_frame [OF assms(1)]) auto
qed (rule drain_frame [OF assms(1)]; use assms(2) in \<open>auto simp: ensureLoop_def split: if_splits\<close>)+

lemma reaches_drain: "reaches s \<Longrightarrow> drain_inv s"
proof (induction rule: reaches.induct)
  case start
  then show ?case by (simp add: new_transport_def drain_inv_def ids_unique_def runs_known_def)
qed (rule event_drain)

lemma no_message_lost_lemma: "reaches s \<Longrightarrow> m \<in> set (tp_arrived s) \<Longrightarrow> m \<in> set (tp_relay s) \<or> accounted (tp_log s) m"
  using reaches_drain by (auto simp: drain_inv_def)

text \<open>
  C21. Nothing is lost: in every reachable state, after any crashes, failed reads and failed acknowledgments, each
  message that arrived is still on the relay or was consumed: a handler ran to its end on it, it was handed to the
  request that waited for it, or it was dropped because it had no body or no verified sender.\<close>

theorem no_message_lost:
  assumes "reaches s" "m \<in> set (tp_arrived s)"
  shows "m \<in> set (tp_relay s) \<or> accounted (tp_log s) m"
  by (rule no_message_lost_lemma [OF assms])

section \<open>Who is served, and how often at once\<close>

definition verified_sender :: "mail \<Rightarrow> did \<Rightarrow> bool" where
  "verified_sender m d \<longleftrightarrow> usable m \<and> ml_authenticated m = Some True \<and> d = bareDid (ml_sender m) \<and> d \<noteq> []"

definition run_ids :: "handler_run list \<Rightarrow> string list" where
  "run_ids rs = map (\<lambda>r. the (ml_id (hr_mail r))) (filter (\<lambda>r. truthy_string (ml_id (hr_mail r))) rs)"

lemma run_ids_append [simp]: "run_ids (xs @ ys) = run_ids xs @ run_ids ys"
  by (simp add: run_ids_def)

lemma run_ids_single [simp]:
  "run_ids [r] = (if truthy_string (ml_id (hr_mail r)) then [the (ml_id (hr_mail r))] else [])" "run_ids [] = []"
  by (simp_all add: run_ids_def)

lemma run_ids_stage [simp]: "run_ids (rs[i := (rs ! i)\<lparr>hr_stage := g\<rparr>]) = run_ids rs"
proof (induction rs arbitrary: i)
  case (Cons r rs)
  then show ?case by (cases i) (simp_all add: run_ids_def)
qed simp

lemma run_ids_remove:
  assumes "i < length rs" "distinct (run_ids rs)"
  shows "distinct (run_ids (take i rs @ drop (Suc i) rs)) \<and>
    set (run_ids (take i rs @ drop (Suc i) rs)) =
      (if truthy_string (ml_id (hr_mail (rs ! i))) then set (run_ids rs) - {the (ml_id (hr_mail (rs ! i)))} else set (run_ids rs))"
proof -
  have "run_ids rs = run_ids (take i rs) @ run_ids [rs ! i] @ run_ids (drop (Suc i) rs)"
    by (metis assms(1) append_Cons append_Nil id_take_nth_drop run_ids_append)
  with assms(2) show ?thesis by auto
qed

definition serve_inv :: "transport \<Rightarrow> bool" where
  "serve_inv s \<longleftrightarrow> (\<forall>r\<in>set (tp_runs s). verified_sender (hr_mail r) (hr_from r)) \<and>
     (\<forall>m. Handled_mail m \<in> set (tp_log s) \<longrightarrow> verified_sender m (bareDid (ml_sender m))) \<and>
     distinct (run_ids (tp_runs s)) \<and> set (tp_inFlight s) = set (run_ids (tp_runs s)) \<and>
     (tp_serving s \<or> tp_inFlight s \<noteq> [] \<longrightarrow> tp_phase s \<noteq> Stopped)"

lemma take_mail_serve:
  assumes "serve_inv s" "take_mail m (s, ids) = (s', ids')"
  shows "serve_inv s'"
proof (cases "fate_of s m")
  case Dispatch
  then have d: "verified_sender m (from_did m)" "\<not> (truthy_string (ml_id m) \<and> the (ml_id m) \<in> set (tp_inFlight s))" "tp_serving s"
    by (auto simp: fate_of_def verified_sender_def from_did_def split: if_splits)
  then show ?thesis using assms Dispatch by (auto simp: take_mail_def serve_inv_def split: if_splits)
qed (use assms in \<open>auto simp: take_mail_def serve_inv_def\<close>)

lemma reader_pass_serve:
  assumes "serve_inv s" "reader_pass batch s = (s', ids)"
  shows "serve_inv s'"
  by (rule fold_take_mail_inv [where P = "\<lambda>s _. serve_inv s", OF assms(1) _ assms(2) [unfolded reader_pass_def]])
    (rule take_mail_serve)

lemma set_stage_serve:
  assumes "serve_inv s" "i < length (tp_runs s)"
  shows "serve_inv (set_stage i g s)"
  using assms by (auto simp: serve_inv_def set_stage_def dest!: set_update_subset_insert [THEN subsetD])

lemma event_serve:
  assumes "serve_inv s" "apply_event e s = Some s'"
  shows "serve_inv s'"
proof (cases e)
  case Pass
  then obtain batch t ids where b: "tp_phase s = Fetched batch" "reader_pass batch s = (t, ids)" "s' = t\<lparr>tp_phase := Acking ids\<rparr>"
    using assms(2) by (auto split: loop_phase.splits prod.splits)
  show ?thesis using reader_pass_serve [OF assms(1) b(2)] b(3) by (simp add: serve_inv_def)
next
  case (Ack ok)
  then show ?thesis using assms by (auto simp: serve_inv_def ack_relay_def loop_continues_def split: loop_phase.splits if_splits)
next
  case (Finish i handled)
  then have i: "i < length (tp_runs s)" using assms(2) by (auto simp: run_at_def split: if_splits)
  then have "verified_sender (hr_mail (tp_runs s ! i)) (bareDid (ml_sender (hr_mail (tp_runs s ! i))))"
    using assms(1) nth_mem [OF i] unfolding serve_inv_def verified_sender_def by metis
  with set_stage_serve [OF assms(1) i] Finish assms(2) show ?thesis
    by (auto simp: serve_inv_def set_stage_def split: if_splits)
next
  case (Ack_run i ok)
  let ?t = "if ok then ack_relay [the (ml_id (hr_mail (tp_runs s ! i)))] s else s"
  have "serve_inv ?t" "i < length (tp_runs ?t)" "s' = set_stage i Settling ?t"
    using assms Ack_run by (auto simp: serve_inv_def ack_relay_def run_at_def split: if_splits)
  then show ?thesis using set_stage_serve by blast
next
  case (Settle i)
  define rs where "rs = take i (tp_runs s) @ drop (Suc i) (tp_runs s)"
  have i: "i < length (tp_runs s)" using assms(2) Settle by (auto simp: run_at_def split: if_splits)
  have s': "tp_runs s' = rs" "tp_log s' = tp_log s" "tp_serving s' = tp_serving s" "tp_phase s' = tp_phase s"
      "set (tp_inFlight s') = (if truthy_string (ml_id (hr_mail (tp_runs s ! i)))
         then set (tp_inFlight s) - {the (ml_id (hr_mail (tp_runs s ! i)))} else set (tp_inFlight s))"
    using assms(2) Settle by (auto simp: rs_def split: if_splits)
  have rs: "distinct (run_ids rs) \<and> set (run_ids rs) = set (tp_inFlight s')" "set rs \<subseteq> set (tp_runs s)"
    using run_ids_remove [OF i] set_take_drop [of i "tp_runs s"] assms(1) s'(5) by (simp_all add: serve_inv_def rs_def)
  have "tp_inFlight s' \<noteq> [] \<longrightarrow> tp_inFlight s \<noteq> []" using s'(5) by (cases "tp_inFlight s") (auto split: if_splits)
  then show ?thesis using assms(1) rs unfolding serve_inv_def s'(1-4) by blast
qed (use assms in \<open>auto simp: serve_inv_def ensureLoop_def loop_continues_def split: if_splits\<close>)

definition handled_mails :: "history list \<Rightarrow> mail list" where
  "handled_mails h = concat (map (\<lambda>x. case x of Handled_mail m \<Rightarrow> [m] | _ \<Rightarrow> []) h)"

lemma reaches_serve: "reaches s \<Longrightarrow> serve_inv s"
proof (induction rule: reaches.induct)
  case start
  then show ?case by (simp add: new_transport_def serve_inv_def)
qed (rule event_serve)

text \<open>
  A handler runs only on a message with a body whose envelope is authenticated, under the DID of its sender and
  never under an empty one, and no two handlers run at once on messages with one mailbox id. What was handled was
  authenticated in the same way.\<close>

theorem handlers_serve_authenticated:
  assumes "reaches s"
  shows "list_all (\<lambda>r. verified_sender (hr_mail r) (hr_from r)) (tp_runs s) \<and>
    list_all (\<lambda>m. verified_sender m (bareDid (ml_sender m))) (handled_mails (tp_log s)) \<and> distinct (run_ids (tp_runs s))"
  using reaches_serve [OF assms] by (auto simp: serve_inv_def list_all_iff handled_mails_def split: history.splits)

section \<open>Requests\<close>

definition resolved_threads :: "history list \<Rightarrow> string list" where
  "resolved_threads h = concat (map (\<lambda>x. case x of Resolved_reply t _ \<Rightarrow> [t] | _ \<Rightarrow> []) h)"

lemma resolved_threads_simps [simp]:
  "resolved_threads [] = []" "resolved_threads (xs @ ys) = resolved_threads xs @ resolved_threads ys"
  "resolved_threads (Resolved_reply t m # xs) = t # resolved_threads xs"
  "resolved_threads (Dispatched_to m d # xs) = resolved_threads xs" "resolved_threads (Handled_mail m # xs) = resolved_threads xs"
  "resolved_threads (Dropped_empty m # xs) = resolved_threads xs" "resolved_threads (Dropped_unverified m # xs) = resolved_threads xs"
  by (simp_all add: resolved_threads_def)

definition thread_inv :: "transport \<Rightarrow> bool" where
  "thread_inv s \<longleftrightarrow> distinct (resolved_threads (tp_log s)) \<and> set (tp_pending s) \<inter> set (resolved_threads (tp_log s)) = {} \<and>
     set (tp_pending s) \<union> set (resolved_threads (tp_log s)) \<subseteq> set (tp_threads s)"

lemma take_mail_thread: "thread_inv s \<Longrightarrow> take_mail m (s, ids) = (s', ids') \<Longrightarrow> thread_inv s'"
  by (auto simp: take_mail_def thread_inv_def fate_of_def split: fate.splits if_splits)

lemma event_thread:
  assumes "thread_inv s" "apply_event e s = Some s'"
  shows "thread_inv s'"
proof (cases e)
  case Pass
  then obtain batch t ids where b: "tp_phase s = Fetched batch" "reader_pass batch s = (t, ids)" "s' = t\<lparr>tp_phase := Acking ids\<rparr>"
    using assms(2) by (auto split: loop_phase.splits prod.splits)
  have "thread_inv t"
    by (rule fold_take_mail_inv [where P = "\<lambda>s _. thread_inv s", OF assms(1) _ b(2) [unfolded reader_pass_def]])
      (rule take_mail_thread)
  then show ?thesis using b(3) by (simp add: thread_inv_def)
qed (use assms in \<open>auto simp: thread_inv_def ensureLoop_def ack_relay_def set_stage_def split: if_splits loop_phase.splits\<close>)

lemma reaches_thread: "reaches s \<Longrightarrow> thread_inv s"
proof (induction rule: reaches.induct)
  case start
  then show ?case by (simp add: new_transport_def thread_inv_def)
qed (rule event_thread)

text \<open>
  A reply is handed over at most once: over any run, no thread is resolved twice, only threads of requests that
  were made are resolved, and a resolved one is not waited for any more.\<close>

theorem threads_resolve_once:
  assumes "reaches s"
  shows "distinct (resolved_threads (tp_log s)) \<and> set (resolved_threads (tp_log s)) \<subseteq> set (tp_threads s) - set (tp_pending s)"
  using reaches_thread [OF assms] by (auto simp: thread_inv_def)

text \<open>The sender of a reply is not looked at: whoever knows the thread answers the request.\<close>

lemma anyone_answers:
  assumes "usable m" "ml_thid m = Some t" "t \<noteq> []" "t \<in> set (tp_pending s)" "\<not> truthy_string (ml_id m)"
  shows "Resolved_reply t m \<in> set (tp_log (fst (reader_pass [m] s)))"
  using assms by (simp add: reader_pass_def take_mail_def fate_of_def)

section \<open>Progress\<close>

text \<open>What the loop does on its own up to the end of its next full pass.\<close>

definition loop_round :: "transport \<Rightarrow> event list" where
  "loop_round s = (case tp_phase s of
     Stopped \<Rightarrow> [] | Idle \<Rightarrow> [Read, Pass] | Fetched b \<Rightarrow> [Pass, Ack True, Read, Pass] | Acking ids \<Rightarrow> [Ack True, Read, Pass])"

lemma take_mail_done:
  "take_mail m (s, ids) = (s', ids') \<Longrightarrow> tp_serving s \<Longrightarrow>
     (truthy_string (ml_id m) \<longrightarrow> the (ml_id m) \<in> set (tp_inFlight s')) \<or> accounted (tp_log s') m \<or> \<not> usable m \<or> from_did m = [] \<or>
     \<not> truthy_string (ml_id m)"
  by (auto simp: take_mail_def fate_of_def accounted_def split: fate.splits if_splits)

lemma pass_takes_up:
  assumes "fold take_mail batch (s, ids) = (s', ids')" "m \<in> set batch" "tp_serving s" "usable m" "from_did m \<noteq> []"
    "truthy_string (ml_id m)"
  shows "the (ml_id m) \<in> set (tp_inFlight s') \<or> accounted (tp_log s') m"
  using assms
proof (induction batch arbitrary: s ids)
  case (Cons x batch)
  obtain s1 ids1 where a: "take_mail x (s, ids) = (s1, ids1)" by (metis surj_pair)
  have f: "fold take_mail batch (s1, ids1) = (s', ids')" using Cons.prems(1) a by simp
  note fr = take_mail_frame [OF a] fold_take_mail_frame [OF f]
  show ?case
  proof (cases "m = x")
    case True
    then have "the (ml_id m) \<in> set (tp_inFlight s1) \<or> accounted (tp_log s1) m"
      using take_mail_done [OF a] Cons.prems by auto
    then show ?thesis using fr(2) by (auto simp: pass_frame_def prefix_def)
  next
    case False
    then show ?thesis using Cons.IH [OF f] Cons.prems fr(1) by (auto simp: pass_frame_def)
  qed
qed simp

text \<open>A read and a pass from the idle loop take up what is on the relay.\<close>

definition deliverable :: "mail \<Rightarrow> bool" where
  "deliverable m \<longleftrightarrow> usable m \<and> from_did m \<noteq> [] \<and> truthy_string (ml_id m)"

definition taken_up :: "mail \<Rightarrow> transport \<Rightarrow> bool" where
  "taken_up m s \<longleftrightarrow> the (ml_id m) \<in> set (tp_inFlight s) \<or> accounted (tp_log s) m"

lemma pass_event_takes_up:
  assumes "tp_phase s = Fetched batch" "m \<in> set batch \<or> accounted (tp_log s) m" "tp_serving s" "deliverable m"
  shows "\<exists>s'. apply_event Pass s = Some s' \<and> taken_up m s'"
proof -
  obtain t ids where t: "reader_pass batch s = (t, ids)" by (metis surj_pair)
  note f = t [unfolded reader_pass_def]
  have "taken_up m t"
    using pass_takes_up [OF f] fold_take_mail_frame [OF f] assms
    by (auto simp: deliverable_def taken_up_def pass_frame_def prefix_def)
  then show ?thesis using assms(1) t by (auto simp: taken_up_def)
qed

lemma idle_takes_up:
  assumes "tp_phase s = Idle" "m \<in> set (tp_relay s) \<or> accounted (tp_log s) m" "tp_serving s" "deliverable m"
  shows "\<exists>s'. run_events [Read, Pass] s = Some s' \<and> taken_up m s'"
proof -
  have "apply_event Read s = Some (s\<lparr>tp_phase := Fetched (tp_relay s)\<rparr>)"
    using assms(1,3) by (simp add: loop_continues_def)
  moreover have "\<exists>s'. apply_event Pass (s\<lparr>tp_phase := Fetched (tp_relay s)\<rparr>) = Some s' \<and> taken_up m s'"
    by (rule pass_event_takes_up) (use assms in auto)
  ultimately show ?thesis by auto
qed

lemma acking_takes_up:
  assumes "reaches s" "tp_phase s = Acking ids" "m \<in> set (tp_arrived s)" "tp_serving s" "deliverable m"
  shows "\<exists>s'. run_events [Ack True, Read, Pass] s = Some s' \<and> taken_up m s'"
proof -
  let ?t = "(ack_relay ids s)\<lparr>tp_phase := Idle\<rparr>"
  have a: "apply_event (Ack True) s = Some ?t" using assms(2,4) by (simp add: loop_continues_def)
  have "m \<in> set (tp_relay ?t) \<or> accounted (tp_log ?t) m"
    using no_message_lost_lemma [OF reaches.event [OF assms(1) a]] assms(3) by (simp add: ack_relay_def)
  then have "\<exists>s'. run_events [Read, Pass] ?t = Some s' \<and> taken_up m s'"
    by (intro idle_takes_up) (use assms(4,5) in \<open>simp_all add: ack_relay_def\<close>)
  then show ?thesis using a by auto
qed

text \<open>
  While a handler serves, the loop runs, and by the end of its next full pass a message that is on the relay, has
  a body and an authenticated sender is taken up: its handler is running, or it was consumed. A message whose handler
  threw, or whose acknowledgment failed, is on the relay and is taken up again.\<close>

theorem serving_takes_up:
  assumes "reaches s" "tp_serving s" "m \<in> set (tp_relay s)" "deliverable m"
  shows "tp_phase s \<noteq> Stopped \<and> (\<exists>s'. run_events (loop_round s) s = Some s' \<and> taken_up m s')"
proof
  show r: "tp_phase s \<noteq> Stopped" using reaches_serve [OF assms(1)] assms(2) by (simp add: serve_inv_def)
  have arr: "m \<in> set (tp_arrived s)" using reaches_drain [OF assms(1)] assms(3) by (auto simp: drain_inv_def)
  show "\<exists>s'. run_events (loop_round s) s = Some s' \<and> taken_up m s'"
  proof (cases "tp_phase s")
    case Stopped
    with r show ?thesis by simp
  next
    case Idle
    then show ?thesis using idle_takes_up [OF Idle _ assms(2,4)] assms(3) by (simp add: loop_round_def)
  next
    case (Fetched batch)
    obtain t ids where t: "reader_pass batch s = (t, ids)" by (metis surj_pair)
    let ?t = "t\<lparr>tp_phase := Acking ids\<rparr>"
    have a: "apply_event Pass s = Some ?t" using Fetched t by simp
    have "tp_serving ?t" "tp_arrived ?t = tp_arrived s"
      using fold_take_mail_frame [OF t [unfolded reader_pass_def]] assms(2) by (auto simp: pass_frame_def)
    then have "\<exists>s'. run_events [Ack True, Read, Pass] ?t = Some s' \<and> taken_up m s'"
      by (intro acking_takes_up [OF reaches.event [OF assms(1) a]]) (use arr assms(4) in simp_all)
    then show ?thesis using a Fetched by (simp add: loop_round_def)
  next
    case (Acking ids)
    then show ?thesis using acking_takes_up [OF assms(1) Acking arr assms(2,4)] by (simp add: loop_round_def)
  qed
qed

end
