(* ===== verification/Transport_Example.thy ===== *)
theory Transport_Example
  imports Transport
begin

text \<open>Runs of the transport on one message, and the witnesses of \<open>Transport\<close>.\<close>

definition tx_mail :: mail where
  "tx_mail = \<lparr>ml_id = Some ''1'', ml_thid = Some ''t'', ml_body = Some \<lparr>ms_type = ''q'', ms_payload = []\<rparr>,
     ml_authenticated = Some True, ml_sender = Some ''did:a#k''\<rparr>"

text \<open>The handler throws once, the process crashes and serves again.\<close>

definition tx_events :: "event list" where
  "tx_events = [Serve, Arrive tx_mail, Read, Pass, Finish 0 False, Settle 0, Crash, Serve]"

definition tx_state :: transport where
  "tx_state = new_transport\<lparr>tp_relay := [tx_mail], tp_arrived := [tx_mail], tp_serving := True, tp_phase := Idle,
     tp_log := [Dispatched_to tx_mail ''did:a'']\<rparr>"

lemma tx_run: "run_events tx_events new_transport = Some tx_state"
  by code_simp

lemma tx_reaches: "reaches tx_state"
  by (rule reaches_run [OF reaches.start tx_run])

lemma no_message_lost_witness: "tx_mail \<in> set (tp_relay tx_state) \<or> accounted (tp_log tx_state) tx_mail"
  by (rule no_message_lost [OF tx_reaches]) (simp add: tx_state_def)

definition tx_handled :: transport where
  "tx_handled = new_transport\<lparr>tp_relay := [tx_mail], tp_arrived := [tx_mail], tp_serving := True, tp_phase := Acking [],
     tp_inFlight := [''1''], tp_runs := [\<lparr>hr_mail = tx_mail, hr_from = ''did:a'', hr_stage = Acknowledging\<rparr>],
     tp_log := [Dispatched_to tx_mail ''did:a'', Handled_mail tx_mail]\<rparr>"

lemma tx_handled_run: "run_events [Serve, Arrive tx_mail, Read, Pass, Finish 0 True] new_transport = Some tx_handled"
  by code_simp

lemma handlers_serve_authenticated_witness:
  "list_all (\<lambda>r. verified_sender (hr_mail r) (hr_from r)) (tp_runs tx_handled) \<and>
     list_all (\<lambda>m. verified_sender m (bareDid (ml_sender m))) (handled_mails (tp_log tx_handled)) \<and>
     distinct (run_ids (tp_runs tx_handled))"
  by (rule handlers_serve_authenticated [OF reaches_run [OF reaches.start tx_handled_run]])

text \<open>A request and its reply.\<close>

definition tx_answered :: transport where
  "tx_answered = new_transport\<lparr>tp_relay := [tx_mail], tp_arrived := [tx_mail], tp_phase := Acking [''1''], tp_threads := [''t''],
     tp_log := [Resolved_reply ''t'' tx_mail]\<rparr>"

lemma tx_answered_run: "run_events [Request ''t'', Sent, Arrive tx_mail, Read, Pass] new_transport = Some tx_answered"
  by code_simp

lemma threads_resolve_once_witness:
  "distinct (resolved_threads (tp_log tx_answered)) \<and>
     set (resolved_threads (tp_log tx_answered)) \<subseteq> set (tp_threads tx_answered) - set (tp_pending tx_answered)"
  by (rule threads_resolve_once [OF reaches_run [OF reaches.start tx_answered_run]])

lemma serving_takes_up_witness:
  "tp_phase tx_state \<noteq> Stopped \<and> (\<exists>s'. run_events (loop_round tx_state) tx_state = Some s' \<and> taken_up tx_mail s')"
  by (rule serving_takes_up [OF tx_reaches]) code_simp+

section \<open>A handled message is dispatched again\<close>

definition tx_race :: "event list" where
  "tx_race = [Serve, Arrive tx_mail, Read, Pass, Ack True, Read, Finish 0 True, Ack_run 0 True, Settle 0, Pass]"

definition tx_again :: transport where
  "tx_again = new_transport\<lparr>tp_arrived := [tx_mail], tp_serving := True, tp_phase := Acking [], tp_inFlight := [''1''],
     tp_runs := [\<lparr>hr_mail = tx_mail, hr_from = ''did:a'', hr_stage = Running\<rparr>],
     tp_log := [Dispatched_to tx_mail ''did:a'', Handled_mail tx_mail, Dispatched_to tx_mail ''did:a'']\<rparr>"

lemma tx_race_run: "run_events tx_race new_transport = Some tx_again"
  by code_simp

text \<open>
  Without any crash or failure a handler can be running on a message that was already handled and acknowledged
  cleanly and has left the relay: the loop had read the message again while its handler was running, and the handler
  was done before the loop came to look at \<open>inFlight\<close>.\<close>

theorem handled_message_runs_again:
  "\<exists>s m. reaches s \<and> m \<notin> set (tp_relay s) \<and> Handled_mail m \<in> set (tp_log s) \<and> m \<in> hr_mail ` set (tp_runs s)"
proof (intro exI conjI)
  show "reaches tx_again" by (rule reaches_run [OF reaches.start tx_race_run])
qed (simp_all add: tx_again_def new_transport_def)

end
