(* ===== verification/Trust_Registry.thy ===== *)
theory Trust_Registry
  imports Ruleset
begin

text \<open>
  The trust registry, \<open>packages/core/src/trust-registry.ts\<close>: the evaluators over Archon groups and over a remote registry,
  and the assurance policy read from a Ruleset chain. \<open>testGroup\<close> is Keymaster's membership test, \<^const>\<open>None\<close> when it
  throws. A message is a value in place of its text.
\<close>

section \<open>Queries and results\<close>

record authorization_query =
  tq_entity :: did
  tq_action :: string
  tq_resource :: "string option"
  tq_authority :: "did option"

datatype registry_message = No_Rule string | Authorized_For string | Not_Authorized_For string | Remote_Message string
  | Registry_Status int | Registry_Unreachable

record authorization_result =
  tr_authorized :: bool
  tr_message :: registry_message
  tr_entity :: "did option"
  tr_authority :: "did option"
  tr_action :: "string option"
  tr_resource :: "string option"
  tr_requiredAssurance :: "assurance_tier option"

definition meetsAssurance :: "assurance_tier \<Rightarrow> assurance_tier \<Rightarrow> bool" where
  "meetsAssurance achieved required \<longleftrightarrow> assuranceLevel (Some achieved) \<ge> assuranceLevel (Some required)"

section \<open>The evaluator over groups\<close>

record group_binding =
  gb_action :: string
  gb_resource :: "string option"
  gb_group :: did

definition binding_for :: "group_binding list \<Rightarrow> authorization_query \<Rightarrow> group_binding option" where
  "binding_for bindings q =
     (case find (\<lambda>b. gb_action b = tq_action q \<and> gb_resource b = tq_resource q) bindings of
        Some b \<Rightarrow> Some b
      | None \<Rightarrow> find (\<lambda>b. gb_action b = tq_action q \<and> gb_resource b = None) bindings)"

definition query_target :: "authorization_query \<Rightarrow> string" where
  "query_target q = tq_action q @ (if truthy_string (tq_resource q) then ''+'' @ the (tq_resource q) else [])"

definition authorize_group ::
  "(did \<Rightarrow> did \<Rightarrow> bool option) \<Rightarrow> group_binding list \<Rightarrow> did option \<Rightarrow> (string \<Rightarrow> assurance_tier) option \<Rightarrow>
     authorization_query \<Rightarrow> authorization_result" where
  "authorize_group testGroup bindings authorityId policy q =
     (let required = map_option (\<lambda>p. p (tq_action q)) policy;
          envelope = (\<lambda>ok msg. \<lparr>tr_authorized = ok, tr_message = msg, tr_entity = Some (tq_entity q),
            tr_authority = (case tq_authority q of None \<Rightarrow> authorityId | Some a \<Rightarrow> Some a), tr_action = Some (tq_action q),
            tr_resource = tq_resource q, tr_requiredAssurance = required\<rparr>)
      in case binding_for bindings q of
          None \<Rightarrow> envelope False (No_Rule (query_target q))
        | Some b \<Rightarrow>
            (let ok = (case testGroup (gb_group b) (tq_entity q) of None \<Rightarrow> False | Some m \<Rightarrow> m)
             in envelope ok (if ok then Authorized_For (query_target q) else Not_Authorized_For (query_target q))))"

section \<open>The remote evaluator\<close>

text \<open>\<open>Reply\<close> is a body whose \<open>authorized\<close> is truthy or not; a request or a body that cannot be read is an error.\<close>

datatype registry_reply = Net_error | Http_error int | Reply bool string

definition authorize_http :: "(authorization_query \<Rightarrow> registry_reply) \<Rightarrow> did \<Rightarrow> authorization_query \<Rightarrow> authorization_result" where
  "authorize_http post authorityId q =
     (let authority = (case tq_authority q of None \<Rightarrow> authorityId | Some a \<Rightarrow> a);
          refused = (\<lambda>msg. \<lparr>tr_authorized = False, tr_message = msg, tr_entity = None, tr_authority = None, tr_action = None,
            tr_resource = None, tr_requiredAssurance = None\<rparr>)
      in case post (q\<lparr>tq_authority := Some authority\<rparr>) of
          Net_error \<Rightarrow> refused Registry_Unreachable
        | Http_error n \<Rightarrow> refused (Registry_Status n)
        | Reply ok msg \<Rightarrow> \<lparr>tr_authorized = ok, tr_message = Remote_Message msg, tr_entity = Some (tq_entity q),
            tr_authority = Some authority, tr_action = Some (tq_action q), tr_resource = tq_resource q,
            tr_requiredAssurance = None\<rparr>)"

section \<open>The assurance policy\<close>

text \<open>\<open>resolve\<close> is \<open>resolveAsset\<close>: \<^const>\<open>None\<close> when it throws or the asset holds no array.\<close>

definition requiredAssurance ::
  "hash \<Rightarrow> (json \<Rightarrow> bool) \<Rightarrow> (string \<Rightarrow> signed_ruleset list option) \<Rightarrow> string \<Rightarrow> did option \<Rightarrow> string \<Rightarrow> assurance_tier" where
  "requiredAssurance H V resolve policyChain expected action =
     (let chain = opt_list (resolve policyChain) in
      if chain = [] then Factor1
      else case verifyRulesetChain H V chain expected of
          Inl _ \<Rightarrow> Factor2
        | Inr _ \<Rightarrow>
            (case activeRuleset H V chain expected of
               None \<Rightarrow> Factor1
             | Some head \<Rightarrow>
                 (case assurance_of (rk_assurance (rs_capabilities head)) action of None \<Rightarrow> Factor1 | Some t \<Rightarrow> t)))"

section \<open>What the evaluators promise\<close>

lemma find_SomeD: "find P xs = Some x \<Longrightarrow> x \<in> set xs \<and> P x"
  by (auto simp: find_Some_iff)

lemma binding_for_Some:
  "binding_for bindings q = Some b \<Longrightarrow>
     b \<in> set bindings \<and> gb_action b = tq_action q \<and> (gb_resource b = tq_resource q \<or> gb_resource b = None)"
  by (auto simp: binding_for_def dest!: find_SomeD split: option.splits)

lemma binding_for_None:
  "binding_for bindings q = None \<longleftrightarrow>
     (\<forall>b\<in>set bindings. gb_action b = tq_action q \<longrightarrow> gb_resource b \<noteq> tq_resource q \<and> gb_resource b \<noteq> None)"
  by (auto simp: binding_for_def find_None_iff dest!: find_SomeD split: option.splits)

text \<open>A binding for the resource itself is preferred: a member of the wildcard group alone is not authorized.\<close>

lemma exact_binding_wins:
  assumes "b \<in> set bindings" "gb_action b = tq_action q" "gb_resource b = tq_resource q"
  shows "\<exists>b'. binding_for bindings q = Some b' \<and> gb_resource b' = tq_resource q"
proof -
  have "find (\<lambda>b. gb_action b = tq_action q \<and> gb_resource b = tq_resource q) bindings \<noteq> None"
    using assms by (auto simp: find_None_iff)
  then obtain b' where b': "find (\<lambda>b. gb_action b = tq_action q \<and> gb_resource b = tq_resource q) bindings = Some b'" by blast
  then have "gb_resource b' = tq_resource q" by (auto simp: find_Some_iff)
  then show ?thesis using b' by (simp add: binding_for_def)
qed

lemma authorize_group_authorized:
  "tr_authorized (authorize_group testGroup bindings authorityId policy q) \<longleftrightarrow>
     (\<exists>b. binding_for bindings q = Some b \<and> testGroup (gb_group b) (tq_entity q) = Some True)"
  by (auto simp: authorize_group_def Let_def split: option.splits)

lemma authorize_group_required [simp]:
  "tr_requiredAssurance (authorize_group testGroup bindings authorityId policy q) = map_option (\<lambda>p. p (tq_action q)) policy"
  by (auto simp: authorize_group_def Let_def split: option.splits)

lemma authorize_http_authorized:
  "tr_authorized (authorize_http post authorityId q) \<longleftrightarrow>
     (\<exists>msg. post (q\<lparr>tq_authority := Some (case tq_authority q of None \<Rightarrow> authorityId | Some a \<Rightarrow> a)\<rparr>) = Reply True msg)"
  by (auto simp: authorize_http_def Let_def split: registry_reply.splits)

text \<open>
  The group registry authorizes an entity exactly when a binding covers the query and the entity is a member of
  the bound group; a binding for the very resource shadows the wildcard ones; without a binding, with a group that
  cannot be tested, or over a registry that does not answer, nothing is authorized.\<close>

theorem registry_fails_closed:
  "tr_authorized (authorize_group testGroup bindings authorityId policy q) =
     (case binding_for bindings q of None \<Rightarrow> False | Some b \<Rightarrow> testGroup (gb_group b) (tq_entity q) = Some True) \<and>
   (binding_for bindings q = None) =
     list_all (\<lambda>b. \<not> (gb_action b = tq_action q \<and> gb_resource b \<in> {tq_resource q, None})) bindings \<and>
   tr_authorized (authorize_http (\<lambda>_. Net_error) authority q) = False \<and>
   tr_authorized (authorize_http (\<lambda>_. Http_error n) authority q) = False"
proof -
  have "(binding_for bindings q = None) = list_all (\<lambda>b. \<not> (gb_action b = tq_action q \<and> gb_resource b \<in> {tq_resource q, None})) bindings"
    unfolding binding_for_None list_all_iff by auto
  then show ?thesis
    by (cases "binding_for bindings q") (simp_all add: authorize_group_authorized authorize_http_def Let_def)
qed

lemma requiredAssurance_resolved:
  assumes "resolve policyChain = Some chain" "chain \<noteq> []"
  shows "requiredAssurance H V resolve policyChain expected action = Factor2 \<longleftrightarrow>
    (\<exists>e. verifyRulesetChain H V chain expected = Inl e) \<or>
    (\<exists>head. activeRuleset H V chain expected = Some head \<and>
      assurance_of (rk_assurance (rs_capabilities head)) action = Some Factor2)"
proof (cases "verifyRulesetChain H V chain expected")
  case (Inl e)
  then show ?thesis using assms by (simp add: requiredAssurance_def opt_list_def)
next
  case (Inr s)
  then show ?thesis using assms
    by (auto simp: requiredAssurance_def opt_list_def split: option.splits)
qed

text \<open>
  When the policy asset resolves to a chain, the demand for a second factor is dropped only by the governor: the
  answer is the base tier exactly when the chain is a lawful history of the expected signer whose head is revoked or
  does not demand it. When the asset cannot be resolved, the answer is the base tier whatever the chain says.\<close>

theorem assurance_downgrade_needs_governor:
  assumes "resolve policyChain = Some chain" "chain \<noteq> []" "resolve' policyChain = None"
  shows "requiredAssurance H V resolve' policyChain expected action = Factor1 \<and>
    (requiredAssurance H V resolve policyChain expected action = Factor1 \<longleftrightarrow>
      (\<exists>g. lawful H V g (by_version chain) \<and> same_actor (by_version chain) \<and> (truthy_string expected \<longrightarrow> expected = Some g)) \<and>
      (rs_status (last (by_version chain)) = Active \<longrightarrow>
        assurance_of (rk_assurance (rs_capabilities (last (by_version chain)))) action \<noteq> Some Factor2))"
proof -
  have f: "x = Factor1 \<longleftrightarrow> x \<noteq> Factor2" for x by (cases x) auto
  have i: "(\<exists>e. verifyRulesetChain H V chain expected = Inl e) \<longleftrightarrow>
      \<not> (\<exists>g. lawful H V g (by_version chain) \<and> same_actor (by_version chain) \<and> (truthy_string expected \<longrightarrow> expected = Some g))"
    using verifyRulesetChain_Inr [of H V chain expected] assms(2)
    by (cases "verifyRulesetChain H V chain expected") auto
  have "requiredAssurance H V resolve policyChain expected action = Factor1 \<longleftrightarrow>
      (\<exists>g. lawful H V g (by_version chain) \<and> same_actor (by_version chain) \<and> (truthy_string expected \<longrightarrow> expected = Some g)) \<and>
      (rs_status (last (by_version chain)) = Active \<longrightarrow>
        assurance_of (rk_assurance (rs_capabilities (last (by_version chain)))) action \<noteq> Some Factor2)"
    unfolding f requiredAssurance_resolved [where resolve = resolve, OF assms(1,2)] i activeRuleset_Some using assms(2) by auto
  moreover have "requiredAssurance H V resolve' policyChain expected action = Factor1"
    using assms(3) by (simp add: requiredAssurance_def opt_list_def)
  ultimately show ?thesis by blast
qed

end
