(* ===== verification/Recall.thy ===== *)
theory Recall
  imports Complex_Main Prelude
begin

text \<open>
  The vault, its recall index and recall over them: \<open>packages/warden/src/store.ts\<close>, \<open>index-store.ts\<close>, \<open>recall.ts\<close> and
  \<open>packages/core/src/recall.ts\<close>. The two JSON files are lists, empty when missing or unreadable. Embeddings and
  scores are reals; floating-point rounding is left out. The embedding model and the answering model are parameters.
\<close>

section \<open>Stores of records with an id\<close>

text \<open>\<open>putMany\<close>: one of the incoming records per id, the last one, at the place of the first; \<open>remove\<close> drops ids.\<close>

definition last_wins :: "('a \<Rightarrow> string) \<Rightarrow> 'a list \<Rightarrow> 'a list" where
  "last_wins key xs = map (\<lambda>i. the (find (\<lambda>x. key x = i) (rev xs))) (js_set (map key xs))"

definition put_many :: "('a \<Rightarrow> string) \<Rightarrow> 'a list \<Rightarrow> 'a list \<Rightarrow> 'a list" where
  "put_many key incoming all = (if incoming = [] then all
     else filter (\<lambda>x. key x \<notin> key ` set incoming) all @ last_wins key incoming)"

definition remove_ids :: "('a \<Rightarrow> string) \<Rightarrow> string list \<Rightarrow> 'a list \<Rightarrow> 'a list" where
  "remove_ids key ids all = filter (\<lambda>x. key x \<notin> set ids) all"

definition get_by :: "('a \<Rightarrow> string) \<Rightarrow> string \<Rightarrow> 'a list \<Rightarrow> 'a option" where
  "get_by key i all = find (\<lambda>x. key x = i) all"

text \<open>What the clients of the stores rely on.\<close>

locale record_store =
  fixes put_rec :: "'a list \<Rightarrow> 'st \<Rightarrow> 'st"
    and drop_ids :: "string list \<Rightarrow> 'st \<Rightarrow> 'st"
    and records :: "'st \<Rightarrow> 'a set"
    and key :: "'a \<Rightarrow> string"
  assumes put_one: "records (put_rec [a] s) = insert a {x \<in> records s. key x \<noteq> key a}"
    and drop_records: "records (drop_ids ids s) = {x \<in> records s. key x \<notin> set ids}"
begin

lemma put_fresh: "\<forall>x\<in>records s. key x \<noteq> key a \<Longrightarrow> records (put_rec [a] s) = insert a (records s)"
  by (auto simp: put_one)

lemma replaced: "records (put_rec [a] (drop_ids ids s)) = insert a {x \<in> records s. key x \<notin> set ids \<and> key x \<noteq> key a}"
  by (auto simp: put_one drop_records)

lemma dropped_subset: "records (drop_ids ids s) \<subseteq> records s"
  by (auto simp: drop_records)

end

lemma last_wins_one [simp]: "last_wins key [a] = [a]"
  by (simp add: last_wins_def js_set_def)

section \<open>The vault and the index\<close>

text \<open>Of the metadata an artefact carries, the fields the modelled code reads are fields of the record:
  \<open>kb\<close>, \<open>contributor\<close>, \<open>docKey\<close>, the locus, \<open>witness\<close>, \<open>needsHumanConfirmation\<close> and \<open>description\<close>. What
  submissions, triage and accepted cards record beside them is in \<open>ka_meta\<close>, by name.\<close>

record kb_artefact =
  ka_id :: string
  ka_kind :: string
  ka_observedAt :: string
  ka_storedAt :: string
  ka_sensitivity :: int
  ka_ciphertext :: string
  ka_sealedTo :: "string option"
  ka_kb :: "string option"
  ka_contributor :: "did option"
  ka_docKey :: "string option"
  ka_locus :: "string \<Rightarrow> string option"
  ka_owner :: "did option"
  ka_scope :: "string option"
  ka_witness :: "did option"
  ka_needsConfirm :: bool
  ka_description :: "string option"
  ka_meta :: "string \<rightharpoonup> string"

record index_entry =
  ix_artefactId :: string
  ix_kind :: string
  ix_observedAt :: string
  ix_sensitivity :: int
  ix_embedding :: "real list"
  ix_kb :: "string option"
  ix_owner :: "did option"
  ix_scope :: "string option"

definition vault_put :: "kb_artefact list \<Rightarrow> kb_artefact list \<Rightarrow> kb_artefact list" where
  "vault_put = put_many ka_id"

definition vault_get :: "string \<Rightarrow> kb_artefact list \<Rightarrow> kb_artefact option" where
  "vault_get = get_by ka_id"

definition vault_remove :: "string list \<Rightarrow> kb_artefact list \<Rightarrow> kb_artefact list" where
  "vault_remove = remove_ids ka_id"

definition index_put :: "index_entry list \<Rightarrow> index_entry list \<Rightarrow> index_entry list" where
  "index_put = put_many ix_artefactId"

definition index_remove :: "string list \<Rightarrow> index_entry list \<Rightarrow> index_entry list" where
  "index_remove = remove_ids ix_artefactId"

interpretation vault: record_store vault_put vault_remove set ka_id
  by unfold_locales (auto simp: vault_put_def put_many_def vault_remove_def remove_ids_def)

interpretation index: record_store index_put index_remove set ix_artefactId
  by unfold_locales (auto simp: index_put_def put_many_def index_remove_def remove_ids_def)

lemma set_last_wins: "set (last_wins key xs) \<subseteq> set xs \<and> key ` set (last_wins key xs) = key ` set xs"
proof -
  have f: "\<exists>x. find (\<lambda>x. key x = i) (rev xs) = Some x \<and> x \<in> set xs \<and> key x = i" if "i \<in> key ` set xs" for i
  proof -
    have "find (\<lambda>x. key x = i) (rev xs) \<noteq> None" using that by (auto simp: find_None_iff)
    then show ?thesis by (auto simp: find_Some_iff) (metis length_rev nth_mem set_rev)
  qed
  then obtain g where g: "\<And>i. i \<in> key ` set xs \<Longrightarrow> find (\<lambda>x. key x = i) (rev xs) = Some (g i) \<and> g i \<in> set xs \<and> key (g i) = i"
    by metis
  have w: "set (last_wins key xs) = g ` key ` set xs"
    unfolding last_wins_def set_map set_js_set by (rule image_cong) (use g in auto)
  have "key ` g ` key ` set xs = key ` set xs" using g by (force simp: image_iff)
  then show ?thesis using g unfolding w by auto
qed

lemma put_many_keys: "key ` set (put_many key incoming all) = key ` set all \<union> key ` set incoming"
  using set_last_wins [of key incoming] by (auto simp: put_many_def)

section \<open>Ranking\<close>

fun dot :: "real list \<Rightarrow> real list \<Rightarrow> real" where
  "dot (x # xs) (y # ys) = x * y + dot xs ys"
| "dot _ _ = 0"

definition cosineSimilarity :: "real list \<Rightarrow> real list \<Rightarrow> real" where
  "cosineSimilarity a b =
     (if a = [] \<or> length a \<noteq> length b then 0
      else if dot a a = 0 \<or> dot b b = 0 then 0
      else dot a b / (sqrt (dot a a) * sqrt (dot b b)))"

datatype kb_scope = Any_kb | Personal_vault | Kb_set "string list" | One_kb string

definition kb_match :: "kb_scope \<Rightarrow> index_entry \<Rightarrow> bool" where
  "kb_match sc e =
     (case sc of
        Any_kb \<Rightarrow> True
      | Personal_vault \<Rightarrow> ix_kb e = None
      | Kb_set ks \<Rightarrow> (case ix_kb e of None \<Rightarrow> False | Some k \<Rightarrow> k \<in> set ks)
      | One_kb k \<Rightarrow> ix_kb e = Some k)"

definition owner_match :: "did option \<Rightarrow> index_entry \<Rightarrow> bool" where
  "owner_match owner e =
     (case owner of
        None \<Rightarrow> True
      | Some d \<Rightarrow> if ix_kb e \<noteq> None then True else ix_owner e = Some d \<or> ix_scope e = Some ''shared'')"

text \<open>\<open>xs.slice(0, k)\<close>: a negative \<open>k\<close> counts from the end.\<close>

definition slice0 :: "int \<Rightarrow> 'a list \<Rightarrow> 'a list" where
  "slice0 k xs = take (if k \<ge> 0 then nat k else length xs - nat (- k)) xs"

record rank_opts =
  ro_k :: "int option"
  ro_maxSensitivity :: "int option"
  ro_kb :: kb_scope
  ro_owner :: "did option"

definition in_scope :: "rank_opts \<Rightarrow> index_entry \<Rightarrow> bool" where
  "in_scope opts e \<longleftrightarrow> (case ro_maxSensitivity opts of None \<Rightarrow> True | Some c \<Rightarrow> ix_sensitivity e \<le> c) \<and>
     kb_match (ro_kb opts) e \<and> owner_match (ro_owner opts) e"

definition rankByQuery :: "real list \<Rightarrow> index_entry list \<Rightarrow> rank_opts \<Rightarrow> (index_entry \<times> real) list" where
  "rankByQuery q entries opts =
     slice0 (case ro_k opts of None \<Rightarrow> 5 | Some k \<Rightarrow> k)
       (sort_key (\<lambda>p. - snd p) (map (\<lambda>e. (e, cosineSimilarity q (ix_embedding e))) (filter (in_scope opts) entries)))"

section \<open>Recall\<close>

record citation =
  ci_artefactId :: string
  ci_kind :: string
  ci_observedAt :: string
  ci_score :: real
  ci_kb :: "string option"
  ci_scope :: "string option"

datatype recall_answer = Nothing_indexed | Recall_unavailable | Nothing_readable | Answered string

record recall_env =
  rv_embed :: "string \<Rightarrow> real list option"
  rv_unseal :: "string \<Rightarrow> string option"
  rv_open :: "string \<Rightarrow> string \<Rightarrow> string option"
  rv_answer :: "string \<Rightarrow> (string \<times> string) list \<Rightarrow> string"

text \<open>\<open>keyFor\<close> is the session's lookup of partition keys. The text of an artefact is what its sealing opens to; an
  error reads as no text.\<close>

definition resolve_content ::
  "recall_env \<Rightarrow> (string \<Rightarrow> string option) \<Rightarrow> kb_artefact list \<Rightarrow> string \<Rightarrow> string option" where
  "resolve_content env keyFor vault i =
     (case vault_get i vault of
        None \<Rightarrow> None
      | Some a \<Rightarrow>
          if truthy_string (ka_sealedTo a)
          then (case keyFor (the (ka_sealedTo a)) of None \<Rightarrow> None | Some key \<Rightarrow> rv_open env key (ka_ciphertext a))
          else rv_unseal env (ka_ciphertext a))"

definition citation_of :: "index_entry \<Rightarrow> real \<Rightarrow> citation" where
  "citation_of e score = \<lparr>ci_artefactId = ix_artefactId e, ci_kind = ix_kind e, ci_observedAt = ix_observedAt e,
     ci_score = score, ci_kb = ix_kb e, ci_scope = ix_scope e\<rparr>"

definition readable ::
  "recall_env \<Rightarrow> (string \<Rightarrow> string option) \<Rightarrow> kb_artefact list \<Rightarrow> index_entry \<times> real \<Rightarrow> (string \<times> string \<times> citation) option" where
  "readable env keyFor vault p =
     (case p of (e, score) \<Rightarrow>
       let text = resolve_content env keyFor vault (ix_artefactId e) in
       if \<not> truthy_string text then None else Some (ix_observedAt e, the text, citation_of e score))"

definition recall ::
  "recall_env \<Rightarrow> (string \<Rightarrow> string option) \<Rightarrow> kb_artefact list \<Rightarrow> index_entry list \<Rightarrow> string \<Rightarrow> rank_opts \<Rightarrow>
     recall_answer \<times> citation list" where
  "recall env keyFor vault entries query opts =
     (if entries = [] then (Nothing_indexed, [])
      else case rv_embed env query of
          None \<Rightarrow> (Recall_unavailable, [])
        | Some q \<Rightarrow>
            let found = List.map_filter (readable env keyFor vault) (rankByQuery q entries opts) in
            if found = [] then (Nothing_readable, [])
            else (Answered (rv_answer env query (map (\<lambda>(tm, text, _). (tm, text)) found)), map (\<lambda>(_, _, c). c) found))"

section \<open>Facts\<close>

lemma set_slice0: "set (slice0 k xs) \<subseteq> set xs"
  by (auto simp: slice0_def dest: in_set_takeD)

lemma rank_in_scope: "(e, score) \<in> set (rankByQuery q entries opts) \<Longrightarrow> e \<in> set entries \<and> in_scope opts e"
  using set_slice0 by (fastforce simp: rankByQuery_def)

lemma length_rank: "ro_k opts = Some k \<Longrightarrow> k \<ge> 0 \<Longrightarrow> length (rankByQuery q entries opts) \<le> nat k"
  by (simp add: rankByQuery_def slice0_def)

lemma sorted_take: "sorted xs \<Longrightarrow> sorted (take n xs)"
  by (simp add: sorted_wrt_take)

lemma rank_sorted: "sorted (map (\<lambda>p. - snd p) (rankByQuery q entries opts))"
  by (simp add: rankByQuery_def slice0_def take_map [symmetric] sorted_take)

lemma in_map_filter: "y \<in> set (List.map_filter f xs) \<longleftrightarrow> (\<exists>x\<in>set xs. f x = Some y)"
  by (induction xs) (auto simp: map_filter_simps split: option.split)

text \<open>The answer and its citations draw on entries in scope only, with what their artefacts open to.\<close>

lemma recall_drawn_from_scope:
  assumes "recall env keyFor vault entries query opts = (ans, cits)" "c \<in> set cits"
  shows "\<exists>e text. e \<in> set entries \<and> in_scope opts e \<and> ci_artefactId c = ix_artefactId e \<and> ci_kb c = ix_kb e \<and>
    resolve_content env keyFor vault (ix_artefactId e) = Some text"
proof -
  obtain q where q: "rv_embed env query = Some q"
      "\<exists>tm text. (tm, text, c) \<in> set (List.map_filter (readable env keyFor vault) (rankByQuery q entries opts))"
    using assms by (force simp: recall_def Let_def split: if_splits option.splits)
  then obtain tm body e score where "(e, score) \<in> set (rankByQuery q entries opts)"
      "readable env keyFor vault (e, score) = Some (tm, body, c)"
    unfolding in_map_filter by auto
  then show ?thesis using rank_in_scope [of e score q entries opts]
    by (auto simp: readable_def Let_def citation_of_def truthy_string_iff split: if_splits)
qed

text \<open>What is out of scope does not influence the answer.\<close>

lemma rank_filter: "rankByQuery q (filter (in_scope opts) entries) opts = rankByQuery q entries opts"
  by (simp add: rankByQuery_def)

lemma recall_ignores_out_of_scope:
  assumes "filter (in_scope opts) entries = filter (in_scope opts) entries'" "entries \<noteq> []" "entries' \<noteq> []"
  shows "recall env keyFor vault entries query opts = recall env keyFor vault entries' query opts"
proof -
  have "rankByQuery q entries opts = rankByQuery q entries' opts" for q
    using assms(1) rank_filter by metis
  then show ?thesis using assms(2,3) by (simp add: recall_def split: option.split)
qed

end
