(* ===== verification/Kb_Service.thy ===== *)
theory Kb_Service
  imports Trust_Registry Recall
begin

text \<open>
  The knowledge base: \<open>packages/warden/src/kb.ts\<close> with \<open>verifyKbRequestSignature\<close> (\<open>core/src/kb.ts\<close>), the partitions and the
  open enrollment of \<open>kb-config.ts\<close> and \<open>partition-store.ts\<close>, the session keys (\<open>session-keys.ts\<close>) and their unlocking
  (\<open>rewrap.ts\<close>). The state is the service's maps, the two files, the groups of the registry and the partitions of
  the space. Keymaster, the cipher, the models, the Signet and the clock of one call are its \<open>kb_env\<close>; \<^const>\<open>None\<close> is a throw.
\<close>

section \<open>Configuration and state\<close>

record partition_record =
  pr_id :: string
  pr_group :: did
  pr_local :: bool
  pr_pub :: "string option"
  pr_wrapped :: "string option"

record kb_config =
  kf_kbId :: string
  kf_readGroup :: did
  kf_writeGroup :: did
  kf_policy :: "(string \<Rightarrow> assurance_tier) option"
  kf_memberPartitions :: bool
  kf_defaultScope :: "string option"
  kf_openEnrollment :: bool
  kf_maxMembers :: "int option"
  kf_enrollGrantsPromote :: "bool option"
  kf_nonceTtl :: "int option"
  kf_sessionTtl :: "int option"

record kb_state =
  ks_nonces :: "string \<Rightarrow> int option"
  ks_sessions :: "string \<Rightarrow> (did \<times> int) option"
  ks_keys :: "string \<Rightarrow> string \<Rightarrow> string option"
  ks_vault :: "kb_artefact list"
  ks_index :: "index_entry list"
  ks_groups :: "did \<Rightarrow> did list"
  ks_partitions :: "did \<Rightarrow> partition_record option"

record kb_env =
  ke_hash :: hash
  ke_testGroup :: "(did \<Rightarrow> did list) \<Rightarrow> did \<Rightarrow> did \<Rightarrow> bool option"
  ke_getGroup :: "(did \<Rightarrow> did list) \<Rightarrow> did \<Rightarrow> did list option"
  ke_mint :: "did \<Rightarrow> (did \<times> string \<times> string) option"
  ke_approve :: "(did \<Rightarrow> string \<Rightarrow> bool) option"
  ke_sealWarden :: "string \<Rightarrow> string option"
  ke_sealTo :: "string \<Rightarrow> string \<Rightarrow> string"
  ke_classify :: "string \<Rightarrow> string \<Rightarrow> int \<times> (string \<Rightarrow> string option)"
  ke_contentId :: "string \<Rightarrow> string"
  ke_recall :: recall_env
  ke_now :: int
  ke_stamp :: string

section \<open>Requests and results\<close>

text \<open>The kind and the time of a document that is read are left out of its result.\<close>

datatype kb_action = Query | Update | Put_doc | Get_doc

record kb_request =
  kq_action :: kb_action
  kq_query :: "string option"
  kq_k :: "int option"
  kq_kind :: "string option"
  kq_text :: "string option"
  kq_scope :: "string option"
  kq_docKey :: "string option"
  kq_owner :: "did option"

record signed_kb_request = kb_request +
  kq_requester :: did
  kq_kbId :: string
  kq_nonce :: "string option"
  kq_proof :: "string option"

datatype kb_reason = Different_kb | Not_signed | No_proof_signer | Not_the_requester | Bad_request_signature | Stale_nonce
  | Unknown_session | Session_expired | Enrollment_full | No_read | No_write | Query_missing | Fields_missing | No_partition
  | Step_up_unavailable string | Step_up_declined string | Member_key_document

record kb_citation =
  kc_citation :: citation
  kc_scope :: "string option"
  kc_locus :: "string \<Rightarrow> string option"

datatype kb_result = Kb_error kb_reason | Kb_threw | Kb_answer recall_answer "kb_citation list"
  | Kb_no_doc string did | Kb_doc string did string string
  | Kb_stored string "string option" nat string bool

section \<open>Authorization\<close>

definition kb_registry :: "kb_env \<Rightarrow> kb_config \<Rightarrow> kb_state \<Rightarrow> did \<Rightarrow> string \<Rightarrow> authorization_result" where
  "kb_registry env cfg s d action =
     authorize_group (ke_testGroup env (ks_groups s))
       [\<lparr>gb_action = ''read'', gb_resource = Some (kf_kbId cfg), gb_group = kf_readGroup cfg\<rparr>,
        \<lparr>gb_action = ''write'', gb_resource = Some (kf_kbId cfg), gb_group = kf_writeGroup cfg\<rparr>]
       None (kf_policy cfg)
       \<lparr>tq_entity = d, tq_action = action, tq_resource = Some (kf_kbId cfg), tq_authority = None\<rparr>"

definition authorized :: "kb_env \<Rightarrow> kb_config \<Rightarrow> kb_state \<Rightarrow> did \<Rightarrow> string \<Rightarrow> bool" where
  "authorized env cfg s d action = tr_authorized (kb_registry env cfg s d action)"

definition required_tier :: "kb_env \<Rightarrow> kb_config \<Rightarrow> kb_state \<Rightarrow> did \<Rightarrow> string \<Rightarrow> assurance_tier" where
  "required_tier env cfg s d action =
     (case tr_requiredAssurance (kb_registry env cfg s d action) of None \<Rightarrow> Factor1 | Some t \<Rightarrow> t)"

definition clearAssurance :: "kb_env \<Rightarrow> kb_config \<Rightarrow> kb_state \<Rightarrow> did \<Rightarrow> string \<Rightarrow> kb_reason option" where
  "clearAssurance env cfg s d action =
     (if meetsAssurance Factor1 (required_tier env cfg s d action) then None
      else case ke_approve env of
          None \<Rightarrow> Some (Step_up_unavailable action)
        | Some ask \<Rightarrow> if ask d action then None else Some (Step_up_declined action))"

text \<open>The member's own partition: its id and its public key.\<close>

definition ownPartition :: "kb_env \<Rightarrow> kb_config \<Rightarrow> kb_state \<Rightarrow> did \<Rightarrow> (string \<times> string option) option" where
  "ownPartition env cfg s d =
     (if \<not> kf_memberPartitions cfg then None
      else case ks_partitions s d of
          None \<Rightarrow> None
        | Some p \<Rightarrow>
            if \<not> pr_local p then None
            else if ke_testGroup env (ks_groups s) (pr_group p) d = Some True then Some (pr_id p, pr_pub p) else None)"

text \<open>The doorman's question: a caller that cannot read is told \<open>false\<close>.\<close>

definition authorizeCheck :: "kb_env \<Rightarrow> kb_config \<Rightarrow> kb_state \<Rightarrow> did \<Rightarrow> did \<Rightarrow> string option \<Rightarrow> bool \<times> assurance_tier option" where
  "authorizeCheck env cfg s caller subject action =
     (if \<not> authorized env cfg s caller ''read'' then (False, None)
      else let r = kb_registry env cfg s subject (case action of None \<Rightarrow> ''read'' | Some a \<Rightarrow> a)
        in (tr_authorized r, tr_requiredAssurance r))"

section \<open>Enrollment\<close>

definition partitionIdFor :: "hash \<Rightarrow> string \<Rightarrow> did \<Rightarrow> string" where
  "partitionIdFor H spaceId owner = spaceId @ ''::priv:'' @ take 16 (H owner)"

definition grant_member :: "did \<Rightarrow> did \<Rightarrow> kb_state \<Rightarrow> kb_state" where
  "grant_member g d s = (if d \<in> set (ks_groups s g) then s else s\<lparr>ks_groups := (ks_groups s)(g := ks_groups s g @ [d])\<rparr>)"

definition provisionMemberPartition ::
  "kb_env \<Rightarrow> string \<Rightarrow> did \<Rightarrow> kb_state \<Rightarrow> partition_record option \<times> kb_state" where
  "provisionMemberPartition env spaceId d s =
     (case ks_partitions s d of
        Some p \<Rightarrow> (Some p, s)
      | None \<Rightarrow>
          (case ke_mint env d of
             None \<Rightarrow> (None, s)
           | Some (g, pub, wrapped) \<Rightarrow>
               (let p = \<lparr>pr_id = partitionIdFor (ke_hash env) spaceId d, pr_group = g, pr_local = True,
                   pr_pub = Some pub, pr_wrapped = Some wrapped\<rparr>;
                  s' = grant_member g d s
                in (Some p, s'\<lparr>ks_partitions := (ks_partitions s')(d \<mapsto> p)\<rparr>))))"

datatype enrollment = Not_enrolled | Enrolled | Refused_full | Enroll_threw

definition is_member :: "kb_env \<Rightarrow> kb_state \<Rightarrow> did \<Rightarrow> did \<Rightarrow> bool" where
  "is_member env s g d \<longleftrightarrow> ke_testGroup env (ks_groups s) g d = Some True"

definition enroll_grants :: "kb_config \<Rightarrow> did \<Rightarrow> kb_state \<Rightarrow> kb_state" where
  "enroll_grants cfg d s =
     (let s1 = grant_member (kf_readGroup cfg) d s
      in if kf_enrollGrantsPromote cfg \<noteq> Some False then grant_member (kf_writeGroup cfg) d s1 else s1)"

definition openEnroll :: "kb_env \<Rightarrow> kb_config \<Rightarrow> did \<Rightarrow> kb_state \<Rightarrow> enrollment \<times> kb_state" where
  "openEnroll env cfg d s =
     (if \<not> kf_openEnrollment cfg then (Not_enrolled, s)
      else if is_member env s (kf_writeGroup cfg) d \<or> is_member env s (kf_readGroup cfg) d then (Not_enrolled, s)
      else if (case kf_maxMembers cfg of
            None \<Rightarrow> False
          | Some m \<Rightarrow> int (length (opt_list (ke_getGroup env (ks_groups s) (kf_readGroup cfg)))) \<ge> m)
        then (Refused_full, s)
      else if kf_memberPartitions cfg
        then (case provisionMemberPartition env (kf_kbId cfg) d (enroll_grants cfg d s) of
                (None, s') \<Rightarrow> (Enroll_threw, s') | (Some _, s') \<Rightarrow> (Enrolled, s'))
        else (Enrolled, enroll_grants cfg d s))"

section \<open>Documents and contributions\<close>

definition is_doc :: "string \<Rightarrow> string \<Rightarrow> did \<Rightarrow> kb_artefact \<Rightarrow> bool" where
  "is_doc kb docKey owner a \<longleftrightarrow> ka_kb a = Some kb \<and> ka_docKey a = Some docKey \<and> ka_contributor a = Some owner"

definition supersedeDoc :: "string \<Rightarrow> string \<Rightarrow> did \<Rightarrow> kb_state \<Rightarrow> nat \<times> kb_state" where
  "supersedeDoc kb docKey d s =
     (let priors = filter (is_doc kb docKey d) (ks_vault s) in
      if priors = [] then (0, s)
      else let ids = map ka_id priors in
        (length priors, s\<lparr>ks_vault := vault_remove ids (ks_vault s), ks_index := index_remove ids (ks_index s)\<rparr>))"

definition sealStoreIndex ::
  "kb_env \<Rightarrow> did \<Rightarrow> string \<Rightarrow> string \<Rightarrow> string \<Rightarrow> string option \<Rightarrow> string option \<Rightarrow> kb_state \<Rightarrow> (string \<times> bool) option \<times> kb_state" where
  "sealStoreIndex env d kind txt kb docKey sealTo s =
     (case (case sealTo of Some pub \<Rightarrow> Some (ke_sealTo env pub txt) | None \<Rightarrow> ke_sealWarden env txt) of
        None \<Rightarrow> (None, s)
      | Some c \<Rightarrow>
          (let (sens, locus) = ke_classify env kind txt;
               i = ke_contentId env c;
               a = \<lparr>ka_id = i, ka_kind = kind, ka_observedAt = ke_stamp env, ka_storedAt = ke_stamp env, ka_sensitivity = sens,
                 ka_ciphertext = c, ka_sealedTo = (if sealTo = None then None else Some kb), ka_kb = Some kb,
                 ka_contributor = Some d, ka_docKey = docKey, ka_locus = locus,
                 ka_owner = None, ka_scope = None, ka_witness = None, ka_needsConfirm = False, ka_description = None, ka_meta = Map.empty\<rparr>;
               s1 = s\<lparr>ks_vault := vault_put [a] (ks_vault s)\<rparr>
           in case rv_embed (ke_recall env) txt of
               None \<Rightarrow> (Some (i, False), s1)
             | Some v \<Rightarrow> (Some (i, True), s1\<lparr>ks_index := index_put
                 [\<lparr>ix_artefactId = i, ix_kind = kind, ix_observedAt = ke_stamp env, ix_sensitivity = sens, ix_embedding = v,
                   ix_kb = Some kb, ix_owner = None, ix_scope = None\<rparr>] (ks_index s1)\<rparr>)))"

definition doc_result :: "kb_env \<Rightarrow> string \<Rightarrow> did \<Rightarrow> kb_artefact \<Rightarrow> string \<Rightarrow> kb_result" where
  "doc_result env docKey target a sc =
     (if ka_sealedTo a \<noteq> None then Kb_error Member_key_document
      else case rv_unseal (ke_recall env) (ka_ciphertext a) of
          None \<Rightarrow> Kb_threw
        | Some txt \<Rightarrow> Kb_doc docKey target txt sc)"

definition getDoc ::
  "kb_env \<Rightarrow> kb_config \<Rightarrow> did \<Rightarrow> string \<Rightarrow> did \<Rightarrow> (string \<times> string option) option \<Rightarrow> kb_state \<Rightarrow> kb_result" where
  "getDoc env cfg d docKey target own s =
     (let sharedRead = authorized env cfg s d ''read'' in
      if \<not> sharedRead \<and> own = None then Kb_error No_read
      else let shared = (if sharedRead then find (is_doc (kf_kbId cfg) docKey target) (ks_vault s) else None);
               mine = (case own of
                   None \<Rightarrow> None
                 | Some (pid, _) \<Rightarrow> if target = d then find (is_doc pid docKey d) (ks_vault s) else None)
        in case (case shared of Some a \<Rightarrow> Some (a, ''shared'') | None \<Rightarrow> map_option (\<lambda>a. (a, ''private'')) mine) of
            None \<Rightarrow> Kb_no_doc docKey target
          | Some (a, sc) \<Rightarrow> doc_result env docKey target a sc)"

section \<open>The four actions\<close>

text \<open>What a query may see: the shared partition for a reader, and the caller's own unless the query is pinned to the
  shared one.\<close>

definition visible_set :: "kb_env \<Rightarrow> kb_config \<Rightarrow> kb_state \<Rightarrow> did \<Rightarrow> kb_request \<Rightarrow> string list" where
  "visible_set env cfg s d req =
     (if authorized env cfg s d ''read'' then [kf_kbId cfg] else []) @
     (case ownPartition env cfg s d of
        None \<Rightarrow> []
      | Some (pid, _) \<Rightarrow> if kq_scope req \<noteq> Some ''shared'' then [pid] else [])"

definition kb_ceiling :: "kb_env \<Rightarrow> kb_config \<Rightarrow> kb_state \<Rightarrow> did \<Rightarrow> int" where
  "kb_ceiling env cfg s d = (if required_tier env cfg s d ''read'' = Factor2 then 4 else 2)"

definition blank :: "string \<Rightarrow> bool" where
  "blank v \<longleftrightarrow> list_all (\<lambda>c. c = CHR '' '' \<or> of_char c \<in> {9..13::nat} \<or> of_char c = (160::nat)) v"

definition label_citation :: "kb_config \<Rightarrow> (string \<times> string option) option \<Rightarrow> kb_artefact list \<Rightarrow> citation \<Rightarrow> kb_citation" where
  "label_citation cfg own vault c =
     \<lparr>kc_citation = c,
      kc_scope = (if ci_kb c = map_option fst own then Some ''private''
        else if ci_kb c = Some (kf_kbId cfg) then Some ''shared'' else None),
      kc_locus = (\<lambda>f. case vault_get (ci_artefactId c) vault of
          None \<Rightarrow> None
        | Some a \<Rightarrow> (case ka_locus a f of None \<Rightarrow> None | Some v \<Rightarrow> if blank v then None else Some v))\<rparr>"

definition key_lookup :: "kb_state \<Rightarrow> string option \<Rightarrow> string \<Rightarrow> string option" where
  "key_lookup s token pid = (if truthy_string token then ks_keys s (the token) pid else None)"

definition serve_query :: "kb_env \<Rightarrow> kb_config \<Rightarrow> did \<Rightarrow> kb_request \<Rightarrow> string option \<Rightarrow> kb_state \<Rightarrow> kb_result" where
  "serve_query env cfg d req token s =
     (let visible = visible_set env cfg s d req in
      if visible = [] then Kb_error No_read
      else if \<not> truthy_string (kq_query req) then Kb_error Query_missing
      else case clearAssurance env cfg s d ''read'' of
          Some e \<Rightarrow> Kb_error e
        | None \<Rightarrow>
            (case recall (ke_recall env) (key_lookup s token) (ks_vault s) (ks_index s) (the (kq_query req))
                \<lparr>ro_k = kq_k req, ro_maxSensitivity = Some (kb_ceiling env cfg s d), ro_kb = Kb_set visible, ro_owner = None\<rparr> of
               (ans, cits) \<Rightarrow> Kb_answer ans (map (label_citation cfg (ownPartition env cfg s d) (ks_vault s)) cits)))"

definition target_scope :: "kb_config \<Rightarrow> kb_request \<Rightarrow> string" where
  "target_scope cfg req =
     (case kq_scope req of Some sc \<Rightarrow> sc
      | None \<Rightarrow> (case kf_defaultScope cfg of Some sc \<Rightarrow> sc | None \<Rightarrow> ''shared''))"

text \<open>The partition a write goes to: its id and the key it is sealed to.\<close>

definition write_target ::
  "kb_env \<Rightarrow> kb_config \<Rightarrow> did \<Rightarrow> kb_request \<Rightarrow> kb_state \<Rightarrow> kb_reason + (string \<times> string option)" where
  "write_target env cfg d req s =
     (if target_scope cfg req = ''private''
      then (case ownPartition env cfg s d of
          None \<Rightarrow> Inl No_partition
        | Some own \<Rightarrow> (case clearAssurance env cfg s d ''write'' of Some e \<Rightarrow> Inl e | None \<Rightarrow> Inr own))
      else if \<not> authorized env cfg s d ''write'' then Inl No_write
      else (case clearAssurance env cfg s d ''write'' of Some e \<Rightarrow> Inl e | None \<Rightarrow> Inr (kf_kbId cfg, None)))"

definition serve_put :: "kb_env \<Rightarrow> kb_config \<Rightarrow> did \<Rightarrow> kb_request \<Rightarrow> kb_state \<Rightarrow> kb_result \<times> kb_state" where
  "serve_put env cfg d req s =
     (if \<not> truthy_string (kq_docKey req) \<or> \<not> truthy_string (kq_kind req) \<or> \<not> truthy_string (kq_text req)
      then (Kb_error Fields_missing, s)
      else case write_target env cfg d req s of
          Inl e \<Rightarrow> (Kb_error e, s)
        | Inr (kb, sealTo) \<Rightarrow>
            (case supersedeDoc kb (the (kq_docKey req)) d s of
               (n, s1) \<Rightarrow>
                 (case sealStoreIndex env d (the (kq_kind req)) (the (kq_text req)) kb (kq_docKey req) sealTo s1 of
                    (None, s2) \<Rightarrow> (Kb_threw, s2)
                  | (Some (i, indexed), s2) \<Rightarrow> (Kb_stored i (kq_docKey req) n kb indexed, s2))))"

definition serve_update :: "kb_env \<Rightarrow> kb_config \<Rightarrow> did \<Rightarrow> kb_request \<Rightarrow> kb_state \<Rightarrow> kb_result \<times> kb_state" where
  "serve_update env cfg d req s =
     (if \<not> truthy_string (kq_kind req) \<or> \<not> truthy_string (kq_text req) then (Kb_error Fields_missing, s)
      else case write_target env cfg d req s of
          Inl e \<Rightarrow> (Kb_error e, s)
        | Inr (kb, sealTo) \<Rightarrow>
            (case sealStoreIndex env d (the (kq_kind req)) (the (kq_text req)) kb None sealTo s of
               (None, s2) \<Rightarrow> (Kb_threw, s2)
             | (Some (i, indexed), s2) \<Rightarrow> (Kb_stored i None 0 kb indexed, s2)))"

definition kb_execute ::
  "kb_env \<Rightarrow> kb_config \<Rightarrow> did \<Rightarrow> kb_request \<Rightarrow> string option \<Rightarrow> kb_state \<Rightarrow> kb_result \<times> kb_state" where
  "kb_execute env cfg d req token s0 =
     (case openEnroll env cfg d s0 of
        (Refused_full, s) \<Rightarrow> (Kb_error Enrollment_full, s)
      | (Enroll_threw, s) \<Rightarrow> (Kb_threw, s)
      | (_, s) \<Rightarrow>
          (case kq_action req of
             Query \<Rightarrow> (serve_query env cfg d req token s, s)
           | Get_doc \<Rightarrow>
               (if \<not> truthy_string (kq_docKey req) then Kb_error Fields_missing
                else getDoc env cfg d (the (kq_docKey req)) (case kq_owner req of None \<Rightarrow> d | Some t \<Rightarrow> t)
                  (ownPartition env cfg s d) s, s)
           | Put_doc \<Rightarrow> serve_put env cfg d req s
           | Update \<Rightarrow> serve_update env cfg d req s))"

section \<open>Authentication\<close>

definition challenge :: "kb_env \<Rightarrow> kb_config \<Rightarrow> string \<Rightarrow> kb_state \<Rightarrow> kb_state" where
  "challenge env cfg nonce s =
     s\<lparr>ks_nonces := (ks_nonces s)(nonce \<mapsto> ke_now env + (case kf_nonceTtl cfg of None \<Rightarrow> 120000 | Some t \<Rightarrow> t))\<rparr>"

definition consumeNonce :: "kb_env \<Rightarrow> string \<Rightarrow> kb_state \<Rightarrow> bool \<times> kb_state" where
  "consumeNonce env nonce s =
     (case ks_nonces s nonce of
        None \<Rightarrow> (False, s)
      | Some expiry \<Rightarrow> (ke_now env \<le> expiry, s\<lparr>ks_nonces := (ks_nonces s)(nonce := None)\<rparr>))"

text \<open>\<open>V\<close> is Keymaster's \<open>verifyProof\<close>, false when it throws.\<close>

definition verifyKbRequestSignature :: "(signed_kb_request \<Rightarrow> bool) \<Rightarrow> signed_kb_request \<Rightarrow> kb_reason option" where
  "verifyKbRequestSignature V r =
     (case kq_proof r of
        None \<Rightarrow> Some Not_signed
      | Some m \<Rightarrow>
          if before_hash m = [] then Some No_proof_signer
          else if before_hash m \<noteq> kq_requester r then Some Not_the_requester
          else if \<not> V r then Some Bad_request_signature
          else None)"

definition kb_serve ::
  "(signed_kb_request \<Rightarrow> bool) \<Rightarrow> kb_env \<Rightarrow> kb_config \<Rightarrow> signed_kb_request \<Rightarrow> kb_state \<Rightarrow> kb_result \<times> kb_state" where
  "kb_serve V env cfg r s =
     (if kq_kbId r \<noteq> kf_kbId cfg then (Kb_error Different_kb, s)
      else case verifyKbRequestSignature V r of
          Some e \<Rightarrow> (Kb_error e, s)
        | None \<Rightarrow>
            if \<not> truthy_string (kq_nonce r) then (Kb_error Stale_nonce, s)
            else (case consumeNonce env (the (kq_nonce r)) s of
                (False, s1) \<Rightarrow> (Kb_error Stale_nonce, s1)
              | (True, s1) \<Rightarrow> kb_execute env cfg (kq_requester r) (kb_request.truncate r) None s1))"

text \<open>\<open>responder\<close> is the DID a verified login response proves; \<open>token\<close> is fresh.\<close>

definition completeLogin ::
  "kb_env \<Rightarrow> kb_config \<Rightarrow> did option \<Rightarrow> string \<Rightarrow> kb_state \<Rightarrow> (did \<times> int) option \<times> kb_state" where
  "completeLogin env cfg responder token s =
     (if \<not> truthy_string responder then (None, s)
      else let e = (the responder, ke_now env + (case kf_sessionTtl cfg of None \<Rightarrow> 1800000 | Some t \<Rightarrow> t))
        in (Some e, s\<lparr>ks_sessions := (ks_sessions s)(token \<mapsto> e)\<rparr>))"

text \<open>The unlocking that a login starts, for the partition of this space: the Signet's reply, if it approved, and how
  each entry opens.\<close>

definition unlockSessionPartitions ::
  "kb_state \<Rightarrow> did \<Rightarrow> string \<Rightarrow> (string \<times> string option) list option \<Rightarrow> nat \<times> kb_state" where
  "unlockSessionPartitions s member token reply =
     (case ks_partitions s member of
        Some p \<Rightarrow>
          if pr_local p \<and> truthy_string (pr_wrapped p) \<and> pr_pub p \<noteq> None
          then (let opened = List.map_filter (\<lambda>(pid, k). map_option (\<lambda>k. (pid, k)) k) (opt_list reply)
            in (length opened, s\<lparr>ks_keys := (ks_keys s)(token := foldl (\<lambda>m (pid, k). m(pid \<mapsto> k)) (ks_keys s token) opened)\<rparr>))
          else (0, s)
      | None \<Rightarrow> (0, s))"

definition serveWithSession ::
  "kb_env \<Rightarrow> kb_config \<Rightarrow> string \<Rightarrow> string \<Rightarrow> kb_request \<Rightarrow> kb_state \<Rightarrow> kb_result \<times> kb_state" where
  "serveWithSession env cfg kbId token req s =
     (if kbId \<noteq> kf_kbId cfg then (Kb_error Different_kb, s)
      else case ks_sessions s token of
          None \<Rightarrow> (Kb_error Unknown_session, s)
        | Some (d, expiry) \<Rightarrow>
            if ke_now env > expiry
            then (Kb_error Session_expired,
              s\<lparr>ks_sessions := (ks_sessions s)(token := None), ks_keys := (ks_keys s)(token := (\<lambda>_. None))\<rparr>)
            else kb_execute env cfg d req (Some token) s)"

section \<open>Authorization facts\<close>

lemma authorized_iff:
  "authorized env cfg s d action \<longleftrightarrow>
     (action = ''read'' \<and> is_member env s (kf_readGroup cfg) d) \<or> (action = ''write'' \<and> is_member env s (kf_writeGroup cfg) d)"
  by (auto simp: authorized_def kb_registry_def authorize_group_authorized binding_for_def is_member_def split: if_splits)

lemma required_tier_policy:
  "required_tier env cfg s d action = (case kf_policy cfg of None \<Rightarrow> Factor1 | Some p \<Rightarrow> p action)"
  by (simp add: required_tier_def kb_registry_def split: option.split)

definition stepped_up :: "kb_env \<Rightarrow> did \<Rightarrow> string \<Rightarrow> bool" where
  "stepped_up env d action \<longleftrightarrow> (\<exists>ask. ke_approve env = Some ask \<and> ask d action)"

lemma clearAssurance_None:
  "clearAssurance env cfg s d action = None \<longleftrightarrow> required_tier env cfg s d action = Factor1 \<or> stepped_up env d action"
  by (cases "required_tier env cfg s d action")
    (auto simp: clearAssurance_def meetsAssurance_def assuranceLevel_def stepped_up_def split: option.splits)

lemma ownPartition_Some:
  "ownPartition env cfg s d = Some (pid, pub) \<Longrightarrow>
     \<exists>p. ks_partitions s d = Some p \<and> pr_id p = pid \<and> pr_pub p = pub \<and> is_member env s (pr_group p) d"
  by (auto simp: ownPartition_def is_member_def split: if_splits option.splits)

text \<open>Partitions are minted under their owner's name.\<close>

definition partitions_named :: "hash \<Rightarrow> string \<Rightarrow> kb_state \<Rightarrow> bool" where
  "partitions_named H kbId s \<longleftrightarrow> (\<forall>d p. ks_partitions s d = Some p \<longrightarrow> pr_id p = partitionIdFor H kbId d)"

lemma provision_named:
  "partitions_named (ke_hash env) kbId s \<Longrightarrow> provisionMemberPartition env kbId d s = (r, s') \<Longrightarrow> partitions_named (ke_hash env) kbId s'"
  by (auto simp: provisionMemberPartition_def partitions_named_def Let_def grant_member_def split: option.splits if_splits)

lemma grant_member_simps [simp]:
  "ks_partitions (grant_member g d s) = ks_partitions s" "ks_vault (grant_member g d s) = ks_vault s"
  "ks_index (grant_member g d s) = ks_index s" "ks_keys (grant_member g d s) = ks_keys s"
  by (simp_all add: grant_member_def)

lemma openEnroll_shape:
  "openEnroll env cfg d s = (r, s') \<Longrightarrow> s' = s \<or> s' = enroll_grants cfg d s \<or>
     (\<exists>q. provisionMemberPartition env (kf_kbId cfg) d (enroll_grants cfg d s) = (q, s'))"
  by (auto simp: openEnroll_def split: if_splits prod.splits option.splits)

lemma enroll_grants_simps [simp]:
  "ks_partitions (enroll_grants cfg d s) = ks_partitions s" "ks_vault (enroll_grants cfg d s) = ks_vault s"
  "ks_index (enroll_grants cfg d s) = ks_index s" "ks_keys (enroll_grants cfg d s) = ks_keys s"
  by (simp_all add: enroll_grants_def Let_def)

lemma openEnroll_keeps:
  assumes "openEnroll env cfg d s = (r, s')"
  shows "ks_vault s' = ks_vault s \<and> ks_index s' = ks_index s \<and> ks_keys s' = ks_keys s \<and>
    (partitions_named (ke_hash env) (kf_kbId cfg) s \<longrightarrow> partitions_named (ke_hash env) (kf_kbId cfg) s')"
proof -
  have p: "ks_vault t' = ks_vault t \<and> ks_index t' = ks_index t \<and> ks_keys t' = ks_keys t"
    if "provisionMemberPartition env (kf_kbId cfg) d t = (q, t')" for q t t'
    using that by (auto simp: provisionMemberPartition_def Let_def split: option.splits)
  have "partitions_named H kbId (enroll_grants cfg d s) = partitions_named H kbId s" for H kbId
    by (simp add: partitions_named_def)
  then show ?thesis using openEnroll_shape [OF assms] p [of "enroll_grants cfg d s" _ s'] provision_named
    by (auto; metis)
qed

section \<open>Queries\<close>

definition query_opts :: "kb_env \<Rightarrow> kb_config \<Rightarrow> kb_state \<Rightarrow> did \<Rightarrow> kb_request \<Rightarrow> rank_opts" where
  "query_opts env cfg s d req = \<lparr>ro_k = kq_k req, ro_maxSensitivity = Some (kb_ceiling env cfg s d),
     ro_kb = Kb_set (visible_set env cfg s d req), ro_owner = None\<rparr>"

lemma serve_query_answer:
  assumes "serve_query env cfg d req token s = Kb_answer ans cits"
  shows "clearAssurance env cfg s d ''read'' = None \<and>
    (\<exists>cs. recall (ke_recall env) (key_lookup s token) (ks_vault s) (ks_index s) (the (kq_query req)) (query_opts env cfg s d req)
        = (ans, cs) \<and> kc_citation ` set cits = set cs)"
  using assms
  by (auto simp: serve_query_def Let_def query_opts_def label_citation_def image_image split: if_splits option.splits prod.splits)

lemma no_answer_elsewhere:
  "getDoc env cfg d key target own s \<noteq> Kb_answer ans cits" "serve_put env cfg d req s \<noteq> (Kb_answer ans cits, s')"
  "serve_update env cfg d req s \<noteq> (Kb_answer ans cits, s')"
  by (auto simp: getDoc_def serve_put_def serve_update_def Let_def doc_result_def split: option.splits sum.splits prod.splits)

lemma execute_query:
  assumes "kb_execute env cfg d req token s0 = (Kb_answer ans cits, s)"
  shows "serve_query env cfg d req token s = Kb_answer ans cits \<and> kq_action req = Query \<and> (\<exists>r. openEnroll env cfg d s0 = (r, s))"
proof -
  obtain r t where o: "openEnroll env cfg d s0 = (r, t)" by fastforce
  have "kq_action req = Query \<and> t = s \<and> serve_query env cfg d req token t = Kb_answer ans cits"
    using assms o no_answer_elsewhere
    by (cases r; cases "kq_action req") (auto simp: kb_execute_def split: if_splits)
  then show ?thesis using o by blast
qed

text \<open>Whose partition an entry may be in, for the member \<open>d\<close>.\<close>

definition may_see :: "kb_env \<Rightarrow> kb_config \<Rightarrow> kb_state \<Rightarrow> did \<Rightarrow> kb_request \<Rightarrow> string \<Rightarrow> bool" where
  "may_see env cfg s d req k \<longleftrightarrow>
     (k = kf_kbId cfg \<and> is_member env s (kf_readGroup cfg) d) \<or>
     (k = partitionIdFor (ke_hash env) (kf_kbId cfg) d \<and> kq_scope req \<noteq> Some ''shared'' \<and>
       (\<exists>p. ks_partitions s d = Some p \<and> is_member env s (pr_group p) d))"

lemma visible_may_see:
  assumes "k \<in> set (visible_set env cfg s d req)" "partitions_named (ke_hash env) (kf_kbId cfg) s"
  shows "may_see env cfg s d req k"
proof (cases "k = kf_kbId cfg \<and> authorized env cfg s d ''read''")
  case True
  then show ?thesis by (simp add: may_see_def authorized_iff)
next
  case False
  then obtain own where "ownPartition env cfg s d = Some own" "k = fst own" "kq_scope req \<noteq> Some ''shared''"
    using assms(1) by (cases "ownPartition env cfg s d") (auto simp: visible_set_def split: if_splits prod.splits)
  then show ?thesis using ownPartition_Some [of env cfg s d k "snd own"] assms(2)
    by (auto simp: may_see_def partitions_named_def)
qed

lemma other_partition:
  "may_see env cfg s d req (partitionIdFor (ke_hash env) (kf_kbId cfg) b) \<Longrightarrow> take 16 (ke_hash env b) = take 16 (ke_hash env d)"
  by (auto simp: may_see_def partitionIdFor_def)

lemma kb_query_cited:
  assumes "kb_execute env cfg d req token s0 = (Kb_answer ans cits, s)" "kc \<in> set cits"
    and "partitions_named (ke_hash env) (kf_kbId cfg) s0"
  shows "\<exists>e k. e \<in> set (ks_index s) \<and> ix_artefactId e = ci_artefactId (kc_citation kc) \<and> ix_kb e = Some k \<and>
    may_see env cfg s d req k \<and>
    (\<forall>b. k = partitionIdFor (ke_hash env) (kf_kbId cfg) b \<longrightarrow> take 16 (ke_hash env b) = take 16 (ke_hash env d)) \<and>
    (ix_sensitivity e \<le> 2 \<or> (ix_sensitivity e \<le> 4 \<and> (\<exists>p. kf_policy cfg = Some p \<and> p ''read'' = Factor2) \<and> stepped_up env d ''read''))"
proof -
  obtain r where q: "serve_query env cfg d req token s = Kb_answer ans cits" "openEnroll env cfg d s0 = (r, s)"
    using execute_query [OF assms(1)] by blast
  obtain cs where c: "clearAssurance env cfg s d ''read'' = None" "kc_citation kc \<in> set cs"
      "recall (ke_recall env) (key_lookup s token) (ks_vault s) (ks_index s) (the (kq_query req)) (query_opts env cfg s d req) = (ans, cs)"
    using serve_query_answer [OF q(1)] assms(2) by blast
  obtain e where e: "e \<in> set (ks_index s)" "in_scope (query_opts env cfg s d req) e"
      "ix_artefactId e = ci_artefactId (kc_citation kc)"
    using recall_drawn_from_scope [OF c(3,2)] by auto
  then obtain k where k: "ix_kb e = Some k" "k \<in> set (visible_set env cfg s d req)" "ix_sensitivity e \<le> kb_ceiling env cfg s d"
    by (auto simp: in_scope_def query_opts_def kb_match_def split: option.splits)
  have see: "may_see env cfg s d req k"
    using visible_may_see [OF k(2)] openEnroll_keeps [OF q(2)] assms(3) by blast
  have "ix_sensitivity e \<le> 2 \<or> (ix_sensitivity e \<le> 4 \<and> (\<exists>p. kf_policy cfg = Some p \<and> p ''read'' = Factor2) \<and> stepped_up env d ''read'')"
    using k(3) c(1) unfolding clearAssurance_None kb_ceiling_def required_tier_policy
    by (cases "kf_policy cfg") (auto split: if_splits)
  then show ?thesis using e k(1) see other_partition by blast
qed

text \<open>
  C5. Whatever a query cites, it cites from the shared partition of a caller who is in the read group, or from the
  caller's own partition while the caller is in its group and did not pin the query to the shared one; nothing of
  another member's partition, unless the truncated hashes of the two DIDs coincide; nothing above the middle
  sensitivity unless the policy demands a second factor for reads, and then the caller's Signet approved the read.\<close>

theorem kb_query_isolated:
  assumes "kb_execute env cfg d req token s0 = (Kb_answer ans cits, s)" "kc \<in> set cits"
    and "partitions_named (ke_hash env) (kf_kbId cfg) s0"
  shows "\<exists>e k. e \<in> set (ks_index s) \<and> ix_artefactId e = ci_artefactId (kc_citation kc) \<and> ix_kb e = Some k \<and>
    may_see env cfg s d req k \<and>
    (\<forall>b. k = partitionIdFor (ke_hash env) (kf_kbId cfg) b \<longrightarrow> take 16 (ke_hash env b) = take 16 (ke_hash env d)) \<and>
    (ix_sensitivity e \<le> 2 \<or> (ix_sensitivity e \<le> 4 \<and> (\<exists>p. kf_policy cfg = Some p \<and> p ''read'' = Factor2) \<and> stepped_up env d ''read''))"
  using assms by (rule kb_query_cited)

text \<open>What the query cannot see does not change its answer.\<close>

definition same_view :: "kb_env \<Rightarrow> kb_config \<Rightarrow> kb_state \<Rightarrow> kb_state \<Rightarrow> did \<Rightarrow> kb_request \<Rightarrow> bool" where
  "same_view env cfg s s' d req \<longleftrightarrow>
     (let mine = filter (in_scope (query_opts env cfg s d req)) (ks_index s) in
      filter (in_scope (query_opts env cfg s d req)) (ks_index s') = mine \<and>
      list_all (\<lambda>e. vault_get (ix_artefactId e) (ks_vault s') = vault_get (ix_artefactId e) (ks_vault s)) mine \<and>
      (ks_index s' = []) = (ks_index s = []))"

lemma readable_cong:
  "vault_get (ix_artefactId (fst p)) v = vault_get (ix_artefactId (fst p)) v' \<Longrightarrow> readable env keyFor v p = readable env keyFor v' p"
  by (cases p) (simp add: readable_def resolve_content_def)

lemma map_filter_cong: "(\<And>x. x \<in> set xs \<Longrightarrow> f x = g x) \<Longrightarrow> List.map_filter f xs = List.map_filter g xs"
  by (induction xs) (simp_all add: map_filter_simps split: option.split)

lemma recall_same_vault:
  assumes "\<forall>e\<in>set entries. in_scope opts e \<longrightarrow> vault_get (ix_artefactId e) v = vault_get (ix_artefactId e) v'"
  shows "recall env keyFor v entries q opts = recall env keyFor v' entries q opts"
proof -
  have "List.map_filter (readable env keyFor v) (rankByQuery x entries opts) =
      List.map_filter (readable env keyFor v') (rankByQuery x entries opts)" for x
    by (rule map_filter_cong, rule readable_cong) (use assms rank_in_scope in fastforce)
  then show ?thesis by (simp add: recall_def split: option.split)
qed


section \<open>Documents\<close>

lemma doc_result_Some:
  "doc_result env k target a sc' = Kb_doc key owner txt sc \<Longrightarrow>
     key = k \<and> owner = target \<and> sc' = sc \<and> ka_sealedTo a = None \<and> rv_unseal (ke_recall env) (ka_ciphertext a) = Some txt"
  by (auto simp: doc_result_def split: if_splits option.splits)

lemma if_Kb_doc: "(if P then Kb_error e else x) = Kb_doc key owner txt sc \<Longrightarrow> x = Kb_doc key owner txt sc"
  by (simp split: if_splits)

lemma getDoc_Some:
  assumes "getDoc env cfg d k target own s = Kb_doc key owner txt sc"
  shows "key = k \<and> owner = target \<and> (\<exists>a kb. a \<in> set (ks_vault s) \<and> is_doc kb key owner a \<and> ka_sealedTo a = None \<and>
    rv_unseal (ke_recall env) (ka_ciphertext a) = Some txt \<and>
    ((sc = ''shared'' \<and> kb = kf_kbId cfg \<and> is_member env s (kf_readGroup cfg) d) \<or>
     (sc = ''private'' \<and> owner = d \<and> (\<exists>pub. own = Some (kb, pub)))))"
proof -
  let ?sh = "if authorized env cfg s d ''read'' then find (is_doc (kf_kbId cfg) k target) (ks_vault s) else None"
  let ?mine = "case own of None \<Rightarrow> None | Some (pid, _) \<Rightarrow> if target = d then find (is_doc pid k d) (ks_vault s) else None"
  have "(case (case ?sh of Some a \<Rightarrow> Some (a, ''shared'') | None \<Rightarrow> map_option (\<lambda>a. (a, ''private'')) ?mine) of
      None \<Rightarrow> Kb_no_doc k target
    | Some (a, sc) \<Rightarrow> doc_result env k target a sc) = Kb_doc key owner txt sc"
    using assms unfolding getDoc_def Let_def by (rule if_Kb_doc)
  then obtain a where a: "doc_result env k target a sc = Kb_doc key owner txt sc"
      "(sc = ''shared'' \<and> ?sh = Some a) \<or> (sc = ''private'' \<and> ?mine = Some a)"
    by (cases ?sh; cases ?mine) (auto dest: doc_result_Some)
  from a(2) have "(sc = ''shared'' \<and> authorized env cfg s d ''read'' \<and> a \<in> set (ks_vault s) \<and> is_doc (kf_kbId cfg) k target a) \<or>
      (sc = ''private'' \<and> target = d \<and> (\<exists>pid pub. own = Some (pid, pub) \<and> a \<in> set (ks_vault s) \<and> is_doc pid k d a))"
    by (auto dest: find_SomeD split: if_splits option.splits)
  with doc_result_Some [OF a(1)] show ?thesis by (auto simp: authorized_iff)
qed

text \<open>
  A document is read either from the shared partition, by a caller in the read group, under the owner that was
  asked for, or from the caller's own partition and then it is the caller's own; its text is what its sealing to the
  Warden opens to.\<close>

theorem get_doc_within_reach:
  assumes "kb_execute env cfg d req token s0 = (Kb_doc key owner txt sc, s)"
    and "partitions_named (ke_hash env) (kf_kbId cfg) s0"
  shows "\<exists>a kb. a \<in> set (ks_vault s) \<and> is_doc kb key owner a \<and> ka_sealedTo a = None \<and>
    rv_unseal (ke_recall env) (ka_ciphertext a) = Some txt \<and>
    ((sc = ''shared'' \<and> kb = kf_kbId cfg \<and> is_member env s (kf_readGroup cfg) d) \<or>
     (sc = ''private'' \<and> owner = d \<and> kb = partitionIdFor (ke_hash env) (kf_kbId cfg) d))"
proof -
  obtain r t where o: "openEnroll env cfg d s0 = (r, t)" by fastforce
  have g: "getDoc env cfg d (the (kq_docKey req)) (case kq_owner req of None \<Rightarrow> d | Some t \<Rightarrow> t) (ownPartition env cfg t d) t
      = Kb_doc key owner txt sc \<and> t = s"
    using assms(1) o
    by (cases r; cases "kq_action req")
      (auto simp: kb_execute_def serve_query_def serve_put_def serve_update_def Let_def split: if_splits option.splits sum.splits prod.splits)
  have n: "partitions_named (ke_hash env) (kf_kbId cfg) s" using openEnroll_keeps [OF o] assms(2) g by blast
  have own: "pid = partitionIdFor (ke_hash env) (kf_kbId cfg) d" if "ownPartition env cfg s d = Some (pid, pub)" for pid pub
    using ownPartition_Some [OF that] n by (auto simp: partitions_named_def)
  show ?thesis using getDoc_Some [of env cfg d _ _ _ s key owner "txt" sc] g own by blast
qed

end
