(* ===== verification/Kb_Runs.thy ===== *)
theory Kb_Runs
  imports Kb_Service Challenge_Store
begin

text \<open>
  The knowledge base over time: who gets past authentication, the runs of the service over its requests, logins and
  restarts, and what holds in every state it reaches; then the life of a document.
\<close>

section \<open>Admission\<close>

definition admits :: "(signed_kb_request \<Rightarrow> bool) \<Rightarrow> kb_env \<Rightarrow> kb_config \<Rightarrow> signed_kb_request \<Rightarrow> kb_state \<Rightarrow> bool" where
  "admits V env cfg r s \<longleftrightarrow> kq_kbId r = kf_kbId cfg \<and> verifyKbRequestSignature V r = None \<and>
     truthy_string (kq_nonce r) \<and> fst (consumeNonce env (the (kq_nonce r)) s)"

definition spend_nonce :: "signed_kb_request \<Rightarrow> kb_state \<Rightarrow> kb_state" where
  "spend_nonce r s = s\<lparr>ks_nonces := (ks_nonces s)(the (kq_nonce r) := None)\<rparr>"

interpretation kb_nonces: challenge_gate "\<lambda>now s c. consumeNonce (env\<lparr>ke_now := now\<rparr>) c s" "\<lambda>_. True" "\<lambda>s c. ks_nonces s c = None"
  for env by unfold_locales (auto simp: consumeNonce_def split: option.splits)

lemma consumeNonce_snd: "snd (consumeNonce env n s) = s\<lparr>ks_nonces := (ks_nonces s)(n := None)\<rparr>"
  by (cases "ks_nonces s n") (simp_all add: consumeNonce_def fun_upd_idem)

lemma consumeNonce_fst: "fst (consumeNonce env n s) \<longleftrightarrow> (\<exists>e. ks_nonces s n = Some e \<and> ke_now env \<le> e)"
  by (simp add: consumeNonce_def split: option.split)

lemma serve_admitted:
  "admits V env cfg r s \<Longrightarrow>
     kb_serve V env cfg r s = kb_execute env cfg (kq_requester r) (kb_request.truncate r) None (spend_nonce r s)"
  using consumeNonce_snd [of env "the (kq_nonce r)" s]
  by (cases "consumeNonce env (the (kq_nonce r)) s") (auto simp: admits_def kb_serve_def spend_nonce_def)

lemma serve_refused:
  assumes "\<not> admits V env cfg r s"
  shows "\<exists>e. fst (kb_serve V env cfg r s) = Kb_error e \<and> snd (kb_serve V env cfg r s) \<in> {s, spend_nonce r s} \<and>
    e \<in> {Different_kb, Not_signed, No_proof_signer, Not_the_requester, Bad_request_signature, Stale_nonce}"
proof (cases "verifyKbRequestSignature V r")
  case None
  then show ?thesis using assms consumeNonce_snd [of env "the (kq_nonce r)" s]
    by (cases "consumeNonce env (the (kq_nonce r)) s") (auto simp: admits_def kb_serve_def spend_nonce_def split: bool.split)
next
  case (Some e)
  then show ?thesis by (auto simp: kb_serve_def verifyKbRequestSignature_def split: option.splits if_splits)
qed

section \<open>What an operation leaves alone\<close>

definition same_sessions :: "kb_state \<Rightarrow> kb_state \<Rightarrow> bool" where
  "same_sessions s s' \<longleftrightarrow> ks_nonces s' = ks_nonces s \<and> ks_sessions s' = ks_sessions s \<and> ks_keys s' = ks_keys s"

lemma same_sessions_refl [simp]: "same_sessions s s"
  by (simp add: same_sessions_def)

lemma same_sessions_trans: "same_sessions s t \<Longrightarrow> same_sessions t u \<Longrightarrow> same_sessions s u"
  by (simp add: same_sessions_def)

lemma same_sessions_grant [simp]: "same_sessions s (grant_member g d t) = same_sessions s t"
  by (simp add: same_sessions_def grant_member_def)

lemma same_sessions_upd [simp]:
  "same_sessions s (t\<lparr>ks_vault := v\<rparr>) = same_sessions s t" "same_sessions s (t\<lparr>ks_index := x\<rparr>) = same_sessions s t"
  "same_sessions s (t\<lparr>ks_partitions := p\<rparr>) = same_sessions s t" "same_sessions s (t\<lparr>ks_groups := g\<rparr>) = same_sessions s t"
  by (simp_all add: same_sessions_def)

lemma provision_sessions: "same_sessions s (snd (provisionMemberPartition env k d t)) = same_sessions s t"
  by (simp add: provisionMemberPartition_def Let_def split: option.split)

lemma openEnroll_sessions: "same_sessions s (snd (openEnroll env cfg d s))"
proof -
  obtain r s' where o: "openEnroll env cfg d s = (r, s')" by fastforce
  have g: "same_sessions s (enroll_grants cfg d s)" by (simp add: enroll_grants_def Let_def)
  then show ?thesis using openEnroll_shape [OF o] provision_sessions [of s env "kf_kbId cfg" d "enroll_grants cfg d s"] o
    by auto
qed


lemma supersedeDoc_eq:
  "supersedeDoc kb k d s = (length (filter (is_doc kb k d) (ks_vault s)),
     s\<lparr>ks_vault := vault_remove (map ka_id (filter (is_doc kb k d) (ks_vault s))) (ks_vault s),
       ks_index := index_remove (map ka_id (filter (is_doc kb k d) (ks_vault s))) (ks_index s)\<rparr>)"
proof (cases "filter (is_doc kb k d) (ks_vault s) = []")
  case True
  then show ?thesis by (simp add: supersedeDoc_def vault_remove_def index_remove_def remove_ids_def)
next
  case False
  then show ?thesis by (simp add: supersedeDoc_def Let_def)
qed

lemma sealStoreIndex_Some:
  assumes "sealStoreIndex env d kind txt kb docKey sealTo s = (Some (i, b), s')"
  shows "\<exists>a. ka_id a = i \<and> ka_kb a = Some kb \<and> ka_contributor a = Some d \<and> ka_docKey a = docKey \<and>
    ka_sealedTo a = (if sealTo = None then None else Some kb) \<and>
    (case sealTo of Some pub \<Rightarrow> ka_ciphertext a = ke_sealTo env pub txt | None \<Rightarrow> ke_sealWarden env txt = Some (ka_ciphertext a)) \<and>
    i = ke_contentId env (ka_ciphertext a) \<and>
    (\<exists>xs. list_all (\<lambda>e. ix_artefactId e = i) xs \<and> length xs \<le> 1 \<and>
      s' = s\<lparr>ks_vault := vault_put [a] (ks_vault s), ks_index := index_put xs (ks_index s)\<rparr>)"
proof -
  obtain c where c: "(case sealTo of Some pub \<Rightarrow> Some (ke_sealTo env pub txt) | None \<Rightarrow> ke_sealWarden env txt) = Some c"
    using assms by (cases "case sealTo of Some pub \<Rightarrow> Some (ke_sealTo env pub txt) | None \<Rightarrow> ke_sealWarden env txt")
      (auto simp: sealStoreIndex_def)
  obtain sens locus where k: "ke_classify env kind txt = (sens, locus)" by fastforce
  let ?a = "\<lparr>ka_id = ke_contentId env c, ka_kind = kind, ka_observedAt = ke_stamp env, ka_storedAt = ke_stamp env,
    ka_sensitivity = sens, ka_ciphertext = c, ka_sealedTo = (if sealTo = None then None else Some kb), ka_kb = Some kb,
    ka_contributor = Some d, ka_docKey = docKey, ka_locus = locus,
    ka_owner = None, ka_scope = None, ka_witness = None, ka_needsConfirm = False, ka_description = None, ka_meta = Map.empty\<rparr>"
  have n: "index_put [] (ks_index s) = ks_index s" by (simp add: index_put_def put_many_def)
  have i: "i = ke_contentId env c" using assms unfolding sealStoreIndex_def c k by (auto simp: Let_def split: option.splits)
  have "\<exists>xs. list_all (\<lambda>e. ix_artefactId e = i) xs \<and> length xs \<le> 1 \<and>
      s' = s\<lparr>ks_vault := vault_put [?a] (ks_vault s), ks_index := index_put xs (ks_index s)\<rparr>"
  proof (cases "rv_embed (ke_recall env) txt")
    case None
    then have "s' = s\<lparr>ks_vault := vault_put [?a] (ks_vault s), ks_index := index_put [] (ks_index s)\<rparr>"
      using assms n unfolding sealStoreIndex_def c k by (auto simp: Let_def)
    then show ?thesis by (intro exI [of _ "[]"]) simp
  next
    case (Some v)
    let ?e = "\<lparr>ix_artefactId = ke_contentId env c, ix_kind = kind, ix_observedAt = ke_stamp env, ix_sensitivity = sens,
      ix_embedding = v, ix_kb = Some kb, ix_owner = None, ix_scope = None\<rparr>"
    have "s' = s\<lparr>ks_vault := vault_put [?a] (ks_vault s), ks_index := index_put [?e] (ks_index s)\<rparr>"
      using assms Some unfolding sealStoreIndex_def c k by (auto simp: Let_def)
    then show ?thesis using i by (intro exI [of _ "[?e]"]) simp
  qed
  then show ?thesis using i c by (intro exI [of _ ?a]) (cases sealTo; simp)
qed

lemma sealStoreIndex_None: "sealStoreIndex env d kind txt kb docKey sealTo s = (None, s') \<Longrightarrow> s' = s"
  by (auto simp: sealStoreIndex_def Let_def split: option.splits prod.splits)

section \<open>The two stores agree\<close>

definition one_current :: "kb_artefact set \<Rightarrow> bool" where
  "one_current v \<longleftrightarrow> (\<forall>a\<in>v. \<forall>b\<in>v. ka_docKey a \<noteq> None \<longrightarrow> ka_docKey b = ka_docKey a \<longrightarrow> ka_kb b = ka_kb a \<longrightarrow>
     ka_contributor b = ka_contributor a \<longrightarrow> b = a)"

definition indexed_stored :: "kb_state \<Rightarrow> bool" where
  "indexed_stored s \<longleftrightarrow> ix_artefactId ` set (ks_index s) \<subseteq> ka_id ` set (ks_vault s)"

definition stores_sound :: "kb_state \<Rightarrow> bool" where
  "stores_sound s \<longleftrightarrow> distinct (map ka_id (ks_vault s)) \<and> distinct (map ix_artefactId (ks_index s)) \<and>
     indexed_stored s \<and> one_current (set (ks_vault s))"

lemma one_current_subset: "one_current v \<Longrightarrow> w \<subseteq> v \<Longrightarrow> one_current w"
  unfolding one_current_def by blast

lemma one_currentD:
  "one_current v \<Longrightarrow> a \<in> v \<Longrightarrow> b \<in> v \<Longrightarrow> ka_docKey a \<noteq> None \<Longrightarrow> ka_docKey b = ka_docKey a \<Longrightarrow> ka_kb b = ka_kb a \<Longrightarrow>
     ka_contributor b = ka_contributor a \<Longrightarrow> b = a"
  unfolding one_current_def by blast

lemma one_current_insert:
  assumes "one_current v" "\<And>b. b \<in> v \<Longrightarrow> ka_docKey a \<noteq> None \<Longrightarrow> ka_docKey b = ka_docKey a \<Longrightarrow> ka_kb b = ka_kb a \<Longrightarrow>
    ka_contributor b \<noteq> ka_contributor a"
  shows "one_current (insert a v)"
  unfolding one_current_def
proof (intro ballI impI)
  fix x y
  assume xy: "x \<in> insert a v" "y \<in> insert a v" "ka_docKey x \<noteq> None" "ka_docKey y = ka_docKey x" "ka_kb y = ka_kb x"
    "ka_contributor y = ka_contributor x"
  consider "x = a \<and> y = a" | "x = a \<and> y \<in> v" | "x \<in> v \<and> y = a" | "x \<in> v \<and> y \<in> v" using xy(1,2) by blast
  then show "y = x"
  proof cases
    case 2
    then show ?thesis using xy(3-6) assms(2) [of y] by metis
  next
    case 3
    then show ?thesis using xy(3-6) assms(2) [of x] by metis
  next
    case 4
    then show ?thesis using xy(3-6) one_currentD [OF assms(1), of x y] by blast
  qed simp
qed

lemma distinct_put_one: "distinct (map key all) \<Longrightarrow> length xs \<le> 1 \<Longrightarrow> distinct (map key (put_many key xs all))"
  by (cases xs) (auto simp: put_many_def distinct_map_filter)

lemma distinct_remove: "distinct (map key all) \<Longrightarrow> distinct (map key (remove_ids key ids all))"
  by (simp add: remove_ids_def distinct_map_filter)

lemma stores_sound_supersede:
  assumes "stores_sound s" shows "stores_sound (snd (supersedeDoc kb k d s))"
proof -
  let ?ids = "map ka_id (filter (is_doc kb k d) (ks_vault s))" and ?t = "snd (supersedeDoc kb k d s)"
  have "indexed_stored ?t"
    using assms unfolding stores_sound_def indexed_stored_def supersedeDoc_eq
    by (simp add: index.drop_records vault.drop_records) (simp only: image_subset_iff, fastforce)
  moreover have "one_current (set (ks_vault ?t))"
    by (rule one_current_subset [of "set (ks_vault s)"])
      (use assms vault.dropped_subset in \<open>simp_all add: stores_sound_def supersedeDoc_eq\<close>)
  ultimately show ?thesis using assms
    by (simp add: stores_sound_def supersedeDoc_eq distinct_remove vault_remove_def index_remove_def)
qed

lemma no_prior_left: "is_doc kb k d a \<Longrightarrow> a \<notin> set (ks_vault (snd (supersedeDoc kb k d s)))"
  by (auto simp: supersedeDoc_eq vault.drop_records)

lemma stores_sound_put:
  assumes "stores_sound s" "sealStoreIndex env d kind txt kb docKey sealTo s = (r, s')"
    and "\<And>a k. docKey = Some k \<Longrightarrow> is_doc kb k d a \<Longrightarrow> a \<notin> set (ks_vault s)"
  shows "stores_sound s'"
proof (cases r)
  case None
  then show ?thesis using assms(1,2) sealStoreIndex_None by blast
next
  case (Some p)
  then obtain i b where r: "r = Some (i, b)" by (cases p) simp
  obtain a xs where a: "ka_id a = i" "ka_kb a = Some kb" "ka_contributor a = Some d" "ka_docKey a = docKey"
      "list_all (\<lambda>e. ix_artefactId e = i) xs" "length xs \<le> 1"
      "s' = s\<lparr>ks_vault := vault_put [a] (ks_vault s), ks_index := index_put xs (ks_index s)\<rparr>"
    using sealStoreIndex_Some [OF assms(2) [unfolded r]] by blast
  have v: "set (ks_vault s') = insert a {x \<in> set (ks_vault s). ka_id x \<noteq> i}" using a(1,7) vault.put_one by simp
  have vk: "ka_id ` set (ks_vault s') = insert i (ka_id ` set (ks_vault s))"
    using put_many_keys [of ka_id "[a]" "ks_vault s"] a(1,7) by (simp add: vault_put_def)
  have xk: "ix_artefactId ` set (ks_index s') \<subseteq> insert i (ix_artefactId ` set (ks_index s))"
    using put_many_keys [of ix_artefactId xs "ks_index s"] a(5,7) by (auto simp: index_put_def list_all_iff)
  have old: "ix_artefactId ` set (ks_index s) \<subseteq> ka_id ` set (ks_vault s)"
    using assms(1) by (simp add: stores_sound_def indexed_stored_def)
  have d: "distinct (map ka_id (ks_vault s'))" "distinct (map ix_artefactId (ks_index s'))"
    using assms(1) a(6,7) by (simp_all add: stores_sound_def vault_put_def index_put_def distinct_put_one)
  have "one_current {x \<in> set (ks_vault s). ka_id x \<noteq> i}"
    by (rule one_current_subset [of "set (ks_vault s)"]) (use assms(1) in \<open>auto simp: stores_sound_def\<close>)
  then have "one_current (set (ks_vault s'))"
    unfolding v by (rule one_current_insert) (use assms(3) a(2-4) in \<open>auto simp: is_doc_def\<close>)
  moreover have "indexed_stored s'"
    unfolding indexed_stored_def vk using xk old by (rule subset_trans [OF _ insert_mono])
  ultimately show ?thesis using d by (simp only: stores_sound_def simp_thms)
qed


section \<open>Executing a request\<close>

text \<open>What every execution keeps, whoever asks.\<close>

definition kb_keeps :: "hash \<Rightarrow> kb_config \<Rightarrow> kb_state \<Rightarrow> kb_state \<Rightarrow> bool" where
  "kb_keeps H cfg s s' \<longleftrightarrow> same_sessions s s' \<and> (stores_sound s \<longrightarrow> stores_sound s') \<and>
     (partitions_named H (kf_kbId cfg) s \<longrightarrow> partitions_named H (kf_kbId cfg) s')"

lemma kb_keeps_refl [simp]: "kb_keeps H cfg s s"
  by (simp add: kb_keeps_def)

lemma kb_keeps_trans: "kb_keeps H cfg s t \<Longrightarrow> kb_keeps H cfg t u \<Longrightarrow> kb_keeps H cfg s u"
  by (simp add: kb_keeps_def same_sessions_def)

lemma keeps_openEnroll:
  assumes "openEnroll env cfg d s = (r, s')" shows "kb_keeps (ke_hash env) cfg s s'"
  using openEnroll_keeps [OF assms] openEnroll_sessions [of s env cfg d] assms
  by (simp add: kb_keeps_def stores_sound_def indexed_stored_def)

lemma keeps_stores:
  "stores_sound s' \<or> \<not> stores_sound s \<Longrightarrow> same_sessions s s' \<Longrightarrow> ks_partitions s' = ks_partitions s \<Longrightarrow> kb_keeps H cfg s s'"
  by (auto simp: kb_keeps_def partitions_named_def)

lemma sealStoreIndex_frame:
  assumes "sealStoreIndex env d kind txt kb docKey sealTo s = (r, s')"
  shows "same_sessions s s' \<and> ks_partitions s' = ks_partitions s \<and> ks_groups s' = ks_groups s"
proof (cases r)
  case None
  then show ?thesis using assms sealStoreIndex_None by fastforce
next
  case (Some p)
  then have "sealStoreIndex env d kind txt kb docKey sealTo s = (Some (fst p, snd p), s')" using assms by simp
  from sealStoreIndex_Some [OF this] show ?thesis by auto
qed

lemma serve_put_target:
  assumes "truthy_string (kq_docKey req)" "truthy_string (kq_kind req)" "truthy_string (kq_text req)"
    and "write_target env cfg d req s = Inr (kb, sealTo)"
  shows "serve_put env cfg d req s =
    (case sealStoreIndex env d (the (kq_kind req)) (the (kq_text req)) kb (Some (the (kq_docKey req))) sealTo
        (snd (supersedeDoc kb (the (kq_docKey req)) d s)) of
       (None, s2) \<Rightarrow> (Kb_threw, s2)
     | (Some (i, indexed), s2) \<Rightarrow>
         (Kb_stored i (kq_docKey req) (fst (supersedeDoc kb (the (kq_docKey req)) d s)) kb indexed, s2))"
proof -
  have "kq_docKey req = Some (the (kq_docKey req))" using assms(1) by (cases "kq_docKey req") (auto simp: truthy_string_iff)
  then show ?thesis using assms by (cases "supersedeDoc kb (the (kq_docKey req)) d s") (simp add: serve_put_def split: option.split prod.split)
qed

lemma serve_put_refused:
  assumes "\<not> (truthy_string (kq_docKey req) \<and> truthy_string (kq_kind req) \<and> truthy_string (kq_text req)) \<or>
    write_target env cfg d req s = Inl e"
  shows "\<exists>e. serve_put env cfg d req s = (Kb_error e, s)"
  using assms by (auto simp: serve_put_def)

lemma keeps_put: "serve_put env cfg d req s = (r, s') \<Longrightarrow> kb_keeps H cfg s s'"
proof -
  assume a: "serve_put env cfg d req s = (r, s')"
  have k: "kb_keeps H cfg s u" if "sealStoreIndex env d kind txt kb (Some k) sealTo (snd (supersedeDoc kb k d s)) = (q, u)"
    for kind "txt" kb k sealTo q u
    using sealStoreIndex_frame [OF that] stores_sound_put [OF _ that] stores_sound_supersede [of s kb k d] no_prior_left [of kb k d _ s]
    by (intro keeps_stores) (auto simp: same_sessions_def supersedeDoc_eq)
  show ?thesis
  proof (cases "(truthy_string (kq_docKey req) \<and> truthy_string (kq_kind req) \<and> truthy_string (kq_text req)) \<and>
      (\<exists>kb sealTo. write_target env cfg d req s = Inr (kb, sealTo))")
    case True
    then obtain kb sealTo where t: "write_target env cfg d req s = Inr (kb, sealTo)" by blast
    let ?k = "the (kq_docKey req)"
    obtain q u where q: "sealStoreIndex env d (the (kq_kind req)) (the (kq_text req)) kb (Some ?k) sealTo
        (snd (supersedeDoc kb ?k d s)) = (q, u)" by fastforce
    have "u = s'" using a q serve_put_target [OF _ _ _ t] True by (simp split: option.splits prod.splits)
    then show ?thesis using k [OF q] by simp
  next
    case False
    then show ?thesis using a serve_put_refused [of req env cfg d s]
      by (cases "write_target env cfg d req s") fastforce+
  qed
qed

lemma keeps_update: "serve_update env cfg d req s = (r, s') \<Longrightarrow> kb_keeps H cfg s s'"
proof -
  assume a: "serve_update env cfg d req s = (r, s')"
  have k: "kb_keeps H cfg s u" if "sealStoreIndex env d kind txt kb None sealTo s = (q, u)" for kind "txt" kb sealTo q u
    using sealStoreIndex_frame [OF that] stores_sound_put [OF _ that] by (intro keeps_stores) auto
  have "s' = s \<or> (\<exists>kind t kb sealTo q. sealStoreIndex env d kind t kb None sealTo s = (q, s'))"
    using a by (auto simp: serve_update_def split: if_splits sum.splits prod.splits option.splits)
  then show ?thesis using k by auto
qed

lemma keeps_execute:
  assumes "kb_execute env cfg d req token s = (r, s')" shows "kb_keeps (ke_hash env) cfg s s'"
proof -
  obtain e t where o: "openEnroll env cfg d s = (e, t)" by fastforce
  have "s' = t \<or> serve_put env cfg d req t = (r, s') \<or> serve_update env cfg d req t = (r, s')"
    using assms unfolding kb_execute_def o by (cases e; cases "kq_action req") auto
  then have "kb_keeps (ke_hash env) cfg t s'" using keeps_put keeps_update by auto
  then show ?thesis using keeps_openEnroll [OF o] kb_keeps_trans by blast
qed

section \<open>Runs\<close>

text \<open>The runs of one service: the nonces issued, the nonces of the requests served, and the state. Nonces and tokens are
  fresh random values; the groups may change behind the service; a restart keeps the files only.\<close>

inductive kb_reaches ::
  "hash \<Rightarrow> (signed_kb_request \<Rightarrow> bool) \<Rightarrow> kb_config \<Rightarrow> string list \<Rightarrow> string list \<Rightarrow> kb_state \<Rightarrow> bool"
  for H V cfg where
  boot: "kb_reaches H V cfg [] [] \<lparr>ks_nonces = Map.empty, ks_sessions = Map.empty, ks_keys = (\<lambda>_. Map.empty), ks_vault = [],
    ks_index = [], ks_groups = groups, ks_partitions = Map.empty\<rparr>"
| regrouped: "kb_reaches H V cfg issued spent s \<Longrightarrow> kb_reaches H V cfg issued spent (s\<lparr>ks_groups := groups\<rparr>)"
| restarted: "kb_reaches H V cfg issued spent s \<Longrightarrow>
    kb_reaches H V cfg issued spent (s\<lparr>ks_nonces := Map.empty, ks_sessions := Map.empty, ks_keys := (\<lambda>_. Map.empty)\<rparr>)"
| asked: "kb_reaches H V cfg issued spent s \<Longrightarrow> n \<notin> set issued \<Longrightarrow>
    kb_reaches H V cfg (n # issued) spent (challenge env cfg n s)"
| served: "kb_reaches H V cfg issued spent s \<Longrightarrow> ke_hash env = H \<Longrightarrow>
    kb_reaches H V cfg issued (if admits V env cfg r s then the (kq_nonce r) # spent else spent) (snd (kb_serve V env cfg r s))"
| logged_in: "kb_reaches H V cfg issued spent s \<Longrightarrow> ks_sessions s token = None \<Longrightarrow>
    kb_reaches H V cfg issued spent (snd (completeLogin env cfg responder token s))"
| unlocked: "kb_reaches H V cfg issued spent s \<Longrightarrow>
    kb_reaches H V cfg issued spent (snd (unlockSessionPartitions s member token reply))"
| session: "kb_reaches H V cfg issued spent s \<Longrightarrow> ke_hash env = H \<Longrightarrow>
    kb_reaches H V cfg issued spent (snd (serveWithSession env cfg k token req s))"

text \<open>What holds in every state reached.\<close>

definition kb_sound :: "hash \<Rightarrow> kb_config \<Rightarrow> string list \<Rightarrow> string list \<Rightarrow> kb_state \<Rightarrow> bool" where
  "kb_sound H cfg issued spent s \<longleftrightarrow> stores_sound s \<and> partitions_named H (kf_kbId cfg) s \<and>
     distinct spent \<and> set spent \<subseteq> set issued \<and> dom (ks_nonces s) \<subseteq> set issued - set spent"

lemma kb_sound_keeps:
  "kb_sound H cfg issued spent s \<Longrightarrow> kb_keeps H cfg s s' \<Longrightarrow> kb_sound H cfg issued spent s'"
  by (simp add: kb_sound_def kb_keeps_def same_sessions_def)

lemma kb_sound_spend:
  "kb_sound H cfg issued spent s \<Longrightarrow> kb_sound H cfg issued spent (spend_nonce r s)"
  by (auto simp: kb_sound_def spend_nonce_def stores_sound_def indexed_stored_def partitions_named_def)

lemma kb_sound_serve:
  assumes "kb_sound (ke_hash env) cfg issued spent s"
  shows "kb_sound (ke_hash env) cfg issued (if admits V env cfg r s then the (kq_nonce r) # spent else spent)
    (snd (kb_serve V env cfg r s))"
proof (cases "admits V env cfg r s")
  case True
  then have n: "the (kq_nonce r) \<in> dom (ks_nonces s)" by (auto simp: admits_def consumeNonce_fst)
  have "kb_sound (ke_hash env) cfg issued (the (kq_nonce r) # spent) (spend_nonce r s)"
    using assms n by (auto simp: kb_sound_def spend_nonce_def stores_sound_def indexed_stored_def partitions_named_def)
  moreover have "kb_keeps (ke_hash env) cfg (spend_nonce r s) (snd (kb_serve V env cfg r s))"
    unfolding serve_admitted [OF True] by (rule keeps_execute [OF surjective_pairing])
  ultimately show ?thesis using True kb_sound_keeps by simp
next
  case False
  then show ?thesis using serve_refused [OF False] kb_sound_spend [OF assms, of r] assms by auto
qed


lemma session_cases:
  "serveWithSession env cfg k token req s = (r, s') \<Longrightarrow>
     (\<exists>d e. k = kf_kbId cfg \<and> ks_sessions s token = Some (d, e) \<and> ke_now env \<le> e \<and> kb_execute env cfg d req (Some token) s = (r, s')) \<or>
     (r = Kb_error Session_expired \<and> s' = s\<lparr>ks_sessions := (ks_sessions s)(token := None), ks_keys := (ks_keys s)(token := (\<lambda>_. None))\<rparr>) \<or>
     (r \<in> {Kb_error Different_kb, Kb_error Unknown_session} \<and> s' = s)"
  by (auto simp: serveWithSession_def split: if_splits option.splits prod.splits)

text \<open>Changing the sessions, the keys or the groups touches nothing of this.\<close>

lemma kb_sound_frame:
  "kb_sound H cfg issued spent s \<Longrightarrow> ks_vault s' = ks_vault s \<Longrightarrow> ks_index s' = ks_index s \<Longrightarrow> ks_partitions s' = ks_partitions s \<Longrightarrow>
     dom (ks_nonces s') \<subseteq> dom (ks_nonces s) \<Longrightarrow> kb_sound H cfg issued spent s'"
  by (simp add: kb_sound_def stores_sound_def indexed_stored_def partitions_named_def) (meson subset_trans)

lemma reaches_sound: "kb_reaches H V cfg issued spent s \<Longrightarrow> kb_sound H cfg issued spent s"
proof (induction rule: kb_reaches.induct)
  case (boot groups)
  then show ?case by (simp add: kb_sound_def stores_sound_def indexed_stored_def one_current_def partitions_named_def)
next
  case (regrouped issued spent s groups)
  show ?case by (rule kb_sound_frame [OF regrouped.IH]) simp_all
next
  case (restarted issued spent s)
  show ?case by (rule kb_sound_frame [OF restarted.IH]) simp_all
next
  case (asked issued spent s n env)
  then show ?case by (auto simp: kb_sound_def challenge_def stores_sound_def indexed_stored_def partitions_named_def)
next
  case (served issued spent s env r)
  then show ?case using kb_sound_serve [of env cfg issued spent s V r] by simp
next
  case (logged_in issued spent s token env responder)
  show ?case by (rule kb_sound_frame [OF logged_in.IH]) (simp_all add: completeLogin_def Let_def)
next
  case (unlocked issued spent s member token reply)
  show ?case by (rule kb_sound_frame [OF unlocked.IH])
    (simp_all add: unlockSessionPartitions_def Let_def split: option.split)
next
  case (session issued spent s env k token req)
  obtain r s' where r: "serveWithSession env cfg k token req s = (r, s')" by fastforce
  from session_cases [OF r] show ?case
  proof (elim disjE exE conjE)
    fix d e
    assume "kb_execute env cfg d req (Some token) s = (r, s')"
    then show ?thesis using kb_sound_keeps [OF session.IH] keeps_execute session.hyps r by force
  next
    assume "s' = s\<lparr>ks_sessions := (ks_sessions s)(token := None), ks_keys := (ks_keys s)(token := (\<lambda>_. None))\<rparr>"
    then show ?thesis using kb_sound_frame [OF session.IH, of s'] r by simp
  qed (use session.IH r in simp)
qed


lemma execute_nonces: "kb_execute env cfg d req token s = (r, s') \<Longrightarrow> ks_nonces s' = ks_nonces s"
  using keeps_execute [of env cfg d req token s r s'] by (simp add: kb_keeps_def same_sessions_def)

text \<open>
  C23. The signed path executes a request only for the DID whose signature over it verified, for this knowledge base, on
  a nonce this service issued that has not expired, and the nonce is then gone; any other request gets an error and
  changes nothing but that nonce.\<close>

theorem kb_serve_guarded:
  assumes "kb_serve V env cfg r s = (res, s')"
  shows "(kq_kbId r = kf_kbId cfg \<and> V r \<and> (\<exists>m. kq_proof r = Some m \<and> before_hash m = kq_requester r) \<and> kq_requester r \<noteq> [] \<and>
      (\<exists>n t. kq_nonce r = Some n \<and> ks_nonces s n = Some t \<and> ke_now env \<le> t \<and> ks_nonces s' n = None) \<and>
      kb_execute env cfg (kq_requester r) (kb_request.truncate r) None (spend_nonce r s) = (res, s')) \<or>
    ((\<exists>e. res = Kb_error e) \<and> ks_vault s' = ks_vault s \<and> ks_index s' = ks_index s \<and> ks_groups s' = ks_groups s \<and>
      ks_partitions s' = ks_partitions s \<and> ks_sessions s' = ks_sessions s \<and> ks_keys s' = ks_keys s)"
proof (cases "admits V env cfg r s")
  case True
  then have x: "kb_execute env cfg (kq_requester r) (kb_request.truncate r) None (spend_nonce r s) = (res, s')"
    using assms serve_admitted by metis
  have n: "ks_nonces s' = (ks_nonces s)(the (kq_nonce r) := None)" using execute_nonces [OF x] by (simp add: spend_nonce_def)
  have "\<exists>n t. kq_nonce r = Some n \<and> ks_nonces s n = Some t \<and> ke_now env \<le> t \<and> ks_nonces s' n = None"
    using True n by (auto simp: admits_def consumeNonce_fst truthy_string_iff)
  then show ?thesis using True x
    by (auto simp: admits_def verifyKbRequestSignature_def split: option.splits if_splits)
next
  case False
  from serve_refused [OF this] show ?thesis using assms by (auto simp: spend_nonce_def)
qed

text \<open>
  A request served before is refused when it comes again, in any later state and at any time.\<close>

theorem kb_replay_refused:
  assumes "kb_reaches H V cfg issued spent s" "kq_nonce r = Some n" "n \<in> set spent"
  shows "\<exists>e. fst (kb_serve V env cfg r s) = Kb_error e"
proof -
  have "ks_nonces s n = None" using reaches_sound [OF assms(1)] assms(3) by (auto simp: kb_sound_def)
  then have "\<not> admits V env cfg r s" using assms(2) by (simp add: admits_def consumeNonce_fst)
  then show ?thesis using serve_refused by blast
qed


text \<open>
  A session serves only the member who logged in, until it expires; the request of an expired session is refused
  and takes every partition key of the session with it.\<close>

theorem kb_session_gate:
  assumes "serveWithSession env cfg k token req s = (res, s')" "\<not> (res \<in> {Kb_error Different_kb, Kb_error Unknown_session})"
  shows "\<exists>d e. ks_sessions s token = Some (d, e) \<and>
    (if ke_now env \<le> e then kb_execute env cfg d req (Some token) s = (res, s')
     else res = Kb_error Session_expired \<and> ks_sessions s' token = None \<and> (\<forall>pid. ks_keys s' token pid = None) \<and>
       ks_vault s' = ks_vault s \<and> ks_groups s' = ks_groups s)"
proof (cases "ks_sessions s token")
  case None
  then show ?thesis using assms by (simp add: serveWithSession_def split: if_splits)
next
  case (Some p)
  then show ?thesis using assms
    by (cases p) (auto simp: serveWithSession_def split: if_splits intro!: exI [of _ "fst p"] exI [of _ "snd p"])
qed

section \<open>Content sealed to a member\<close>

text \<open>
  C25. A query that cites an artefact sealed to a member's partition was made in a session that holds that
  partition's key: on the signed path no citation comes from sealed content.\<close>

theorem kb_sealed_needs_session:
  assumes "serve_query env cfg d req token s = Kb_answer ans cits" "kc \<in> set cits"
    and "vault_get (ci_artefactId (kc_citation kc)) (ks_vault s) = Some a" "truthy_string (ka_sealedTo a)"
  shows "truthy_string token \<and> ks_keys s (the token) (the (ka_sealedTo a)) \<noteq> None"
proof -
  obtain cs where c: "kc_citation kc \<in> set cs"
      "recall (ke_recall env) (key_lookup s token) (ks_vault s) (ks_index s) (the (kq_query req)) (query_opts env cfg s d req) = (ans, cs)"
    using serve_query_answer [OF assms(1)] assms(2) by blast
  obtain "text" where "resolve_content (ke_recall env) (key_lookup s token) (ks_vault s) (ci_artefactId (kc_citation kc)) = Some text"
    using recall_drawn_from_scope [OF c(2,1)] by metis
  then have "key_lookup s token (the (ka_sealedTo a)) \<noteq> None"
    using assms(3,4) by (auto simp: resolve_content_def split: option.splits)
  then show ?thesis by (simp add: key_lookup_def split: if_splits)
qed

section \<open>Enrollment\<close>

lemma provision_groups:
  "provisionMemberPartition env k d s = (q, s') \<Longrightarrow> ks_groups s' = ks_groups s \<or>
     (\<exists>g. (\<exists>p w. ke_mint env d = Some (g, p, w)) \<and> ks_groups s' = (ks_groups s)(g := ks_groups s g @ [d]))"
  by (auto simp: provisionMemberPartition_def Let_def grant_member_def split: option.splits)

lemma length_grants:
  "x \<in> {kf_readGroup cfg, kf_writeGroup cfg} \<Longrightarrow> length (ks_groups (enroll_grants cfg d s) x) \<le> Suc (length (ks_groups s x))"
  by (auto simp: enroll_grants_def grant_member_def Let_def)

text \<open>
  With a ceiling of \<open>m\<close> members, self-enrollment never makes the read group longer than \<open>m\<close>, as long as the
  registry reports the group; when it cannot be read, the ceiling does not hold anyone back.\<close>

theorem enrollment_capped:
  assumes "openEnroll env cfg d s = (r, s')" "kf_maxMembers cfg = Some m"
    and "\<And>g p w. ke_mint env d = Some (g, p, w) \<Longrightarrow> g \<noteq> kf_readGroup cfg"
  shows "(ke_getGroup env (ks_groups s) (kf_readGroup cfg) = Some (ks_groups s (kf_readGroup cfg)) \<longrightarrow>
      length (ks_groups s' (kf_readGroup cfg)) \<le> max (length (ks_groups s (kf_readGroup cfg))) (nat m)) \<and>
    (ke_getGroup env (ks_groups s) (kf_readGroup cfg) = None \<and> m > 0 \<longrightarrow> r \<noteq> Refused_full)"
proof (intro conjI impI)
  let ?g = "kf_readGroup cfg"
  show "length (ks_groups s' ?g) \<le> max (length (ks_groups s ?g)) (nat m)"
    if "ke_getGroup env (ks_groups s) ?g = Some (ks_groups s ?g)"
  proof (cases "s' = s")
    case False
    then have n: "int (length (ks_groups s ?g)) < m"
      using assms(1,2) that by (auto simp: openEnroll_def opt_list_def split: if_splits)
    have "ks_groups s' ?g = ks_groups (enroll_grants cfg d s) ?g"
      using openEnroll_shape [OF assms(1)] False provision_groups [of env "kf_kbId cfg" d "enroll_grants cfg d s" _ s'] assms(3)
      by fastforce
    then show ?thesis using length_grants [of ?g cfg d s] n by simp
  qed simp
  show "r \<noteq> Refused_full" if "ke_getGroup env (ks_groups s) ?g = None \<and> m > 0"
    using assms(1,2) that by (auto simp: openEnroll_def opt_list_def split: if_splits option.splits prod.splits)
qed

end
