(* ===== verification/Kb_Documents.thy ===== *)
theory Kb_Documents
  imports Kb_Runs
begin

text \<open>
  The life of a named document of the knowledge base: \<open>put-doc\<close> and \<open>get-doc\<close> of \<open>packages/warden/src/kb.ts\<close> together.
\<close>

section \<open>Finding documents\<close>

lemma find_filter_keep: "(\<And>x. x \<in> set xs \<Longrightarrow> P x \<Longrightarrow> Q x) \<Longrightarrow> find P (filter Q xs) = find P xs"
  by (induction xs) auto

lemma find_append_one: "find P (xs @ [a]) = (case find P xs of None \<Rightarrow> (if P a then Some a else None) | Some x \<Rightarrow> Some x)"
  by (induction xs) auto

lemma find_is_doc_None: "(\<And>x. x \<in> set xs \<Longrightarrow> \<not> P x) \<Longrightarrow> find P xs = None"
  by (simp add: find_None_iff)

text \<open>What \<open>put-doc\<close> leaves in the vault.\<close>

lemma put_vault:
  assumes "serve_put env cfg d req s = (Kb_stored i key n kb b, s')"
  shows "\<exists>sealTo a k. write_target env cfg d req s = Inr (kb, sealTo) \<and> kq_docKey req = Some k \<and> key = Some k \<and>
    ka_id a = i \<and> is_doc kb k d a \<and> ka_sealedTo a = (if sealTo = None then None else Some kb) \<and>
    (sealTo = None \<longrightarrow> ke_sealWarden env (the (kq_text req)) = Some (ka_ciphertext a)) \<and>
    i = ke_contentId env (ka_ciphertext a) \<and> n = length (filter (is_doc kb k d) (ks_vault s)) \<and>
    ks_vault s' = filter (\<lambda>x. ka_id x \<noteq> i) (vault_remove (map ka_id (filter (is_doc kb k d) (ks_vault s))) (ks_vault s)) @ [a] \<and>
    ks_groups s' = ks_groups s"
proof -
  have t: "truthy_string (kq_docKey req)" "truthy_string (kq_kind req)" "truthy_string (kq_text req)"
      "\<exists>kb' sealTo. write_target env cfg d req s = Inr (kb', sealTo)"
    using assms serve_put_refused [of req env cfg d s]
    by (auto, cases "write_target env cfg d req s", auto)
  then obtain kb' sealTo where w: "write_target env cfg d req s = Inr (kb', sealTo)" by blast
  obtain k where k: "kq_docKey req = Some k" using t(1) by (auto simp: truthy_string_iff)
  obtain q u where q: "sealStoreIndex env d (the (kq_kind req)) (the (kq_text req)) kb' (Some k) sealTo
      (snd (supersedeDoc kb' k d s)) = (q, u)" by fastforce
  have e: "q = Some (i, b) \<and> u = s' \<and> kb' = kb \<and> key = Some k \<and> n = length (filter (is_doc kb k d) (ks_vault s))"
    using assms q k unfolding serve_put_target [OF t(1-3) w]
    by (cases q) (auto simp: supersedeDoc_eq)
  with q have q': "sealStoreIndex env d (the (kq_kind req)) (the (kq_text req)) kb (Some k) sealTo
      (snd (supersedeDoc kb k d s)) = (Some (i, b), s')" by simp
  from sealStoreIndex_Some [OF q'] obtain a xs where a: "ka_id a = i" "ka_kb a = Some kb" "ka_contributor a = Some d"
      "ka_docKey a = Some k" "ka_sealedTo a = (if sealTo = None then None else Some kb)"
      "case sealTo of Some pub \<Rightarrow> ka_ciphertext a = ke_sealTo env pub (the (kq_text req))
        | None \<Rightarrow> ke_sealWarden env (the (kq_text req)) = Some (ka_ciphertext a)"
      "i = ke_contentId env (ka_ciphertext a)"
      "s' = (snd (supersedeDoc kb k d s))\<lparr>ks_vault := vault_put [a] (ks_vault (snd (supersedeDoc kb k d s))),
        ks_index := index_put xs (ks_index (snd (supersedeDoc kb k d s)))\<rparr>"
    by blast
  have v: "ks_vault s' = filter (\<lambda>x. ka_id x \<noteq> i) (vault_remove (map ka_id (filter (is_doc kb k d) (ks_vault s))) (ks_vault s)) @ [a]"
    unfolding a(8) by (simp add: vault_put_def put_many_def supersedeDoc_eq a(1))
  have g: "ks_groups s' = ks_groups s" unfolding a(8) by (simp add: supersedeDoc_eq)
  show ?thesis
    using w k e a(1-7) v g by (intro exI [of _ sealTo] exI [of _ a] exI [of _ k]) (cases sealTo; simp add: is_doc_def)
qed

text \<open>The new artefact is the document; every other document is found as before.\<close>

lemma put_find:
  assumes "serve_put env cfg d req s = (Kb_stored i key n kb b, s')" "stores_sound s" "i \<notin> ka_id ` set (ks_vault s)"
  shows "\<exists>a sealTo. write_target env cfg d req s = Inr (kb, sealTo) \<and>
    find (is_doc kb (the key) d) (ks_vault s') = Some a \<and> ka_sealedTo a = (if sealTo = None then None else Some kb) \<and>
    (sealTo = None \<longrightarrow> ke_sealWarden env (the (kq_text req)) = Some (ka_ciphertext a))"
    and "(kb', k', d') \<noteq> (kb, the key, d) \<Longrightarrow> find (is_doc kb' k' d') (ks_vault s') = find (is_doc kb' k' d') (ks_vault s)"
proof -
  obtain sealTo a k where p: "write_target env cfg d req s = Inr (kb, sealTo)" "key = Some k" "ka_id a = i" "is_doc kb k d a"
      "ka_sealedTo a = (if sealTo = None then None else Some kb)"
      "sealTo = None \<longrightarrow> ke_sealWarden env (the (kq_text req)) = Some (ka_ciphertext a)"
      "ks_vault s' = filter (\<lambda>x. ka_id x \<noteq> i) (vault_remove (map ka_id (filter (is_doc kb k d) (ks_vault s))) (ks_vault s)) @ [a]"
    using put_vault [OF assms(1)] by metis
  have inj: "inj_on ka_id (set (ks_vault s))" using assms(2) by (simp add: stores_sound_def distinct_map)
  have f: "filter (\<lambda>x. ka_id x \<noteq> i) (filter P (ks_vault s)) = filter P (ks_vault s)" for P
    using assms(3) by (intro filter_True) auto
  have r: "vault_remove (map ka_id (filter (is_doc kb k d) (ks_vault s))) (ks_vault s) = filter (\<lambda>x. \<not> is_doc kb k d x) (ks_vault s)"
    unfolding vault_remove_def remove_ids_def using inj by (intro filter_cong) (auto dest: inj_onD)
  have v: "ks_vault s' = filter (\<lambda>x. \<not> is_doc kb k d x) (ks_vault s) @ [a]" using p(7) unfolding r f .
  have "find (is_doc kb k d) (ks_vault s') = Some a"
    unfolding v find_append_one by (subst find_is_doc_None) (auto simp: p(4))
  then show "\<exists>a sealTo. write_target env cfg d req s = Inr (kb, sealTo) \<and>
    find (is_doc kb (the key) d) (ks_vault s') = Some a \<and> ka_sealedTo a = (if sealTo = None then None else Some kb) \<and>
    (sealTo = None \<longrightarrow> ke_sealWarden env (the (kq_text req)) = Some (ka_ciphertext a))"
    using p(1,2,5,6) by auto
  show "find (is_doc kb' k' d') (ks_vault s') = find (is_doc kb' k' d') (ks_vault s)" if "(kb', k', d') \<noteq> (kb, the key, d)"
  proof -
    have o: "is_doc kb' k' d' x \<Longrightarrow> \<not> is_doc kb k d x" for x using that p(2) by (auto simp: is_doc_def)
    have "find (is_doc kb' k' d') (filter (\<lambda>x. \<not> is_doc kb k d x) (ks_vault s)) = find (is_doc kb' k' d') (ks_vault s)"
      by (rule find_filter_keep) (use o in blast)
    then show ?thesis unfolding v find_append_one using o [of a] p(4) by (auto split: option.split)
  qed
qed

section \<open>Round trips\<close>

lemma one_prior: "stores_sound s \<Longrightarrow> length (filter (is_doc kb k d) (ks_vault s)) \<le> 1"
proof -
  assume s: "stores_sound s"
  let ?p = "filter (is_doc kb k d) (ks_vault s)"
  have d: "distinct ?p" using s by (auto simp: stores_sound_def distinct_map)
  have "x = y" if "x \<in> set ?p" "y \<in> set ?p" for x y
    using that one_currentD [of "set (ks_vault s)" y x] s by (auto simp: stores_sound_def is_doc_def)
  then have "card (set ?p) \<le> 1" by (simp add: card_le_Suc0_iff_eq)
  then show "length ?p \<le> 1" using distinct_card [OF d] by simp
qed

lemma authorized_groups: "ks_groups s' = ks_groups s \<Longrightarrow> authorized env cfg s' d a = authorized env cfg s d a"
  by (simp add: authorized_def kb_registry_def)


section \<open>Two gaps\<close>

text \<open>
  The prior version of a document is dropped before the new one is sealed: when the sealing fails, the put fails and
  the document is gone for every reader.\<close>

theorem failed_put_loses_document:
  assumes "serve_put env cfg d req s = (Kb_threw, s')" "kq_docKey req = Some k" "target_scope cfg req \<noteq> ''private''"
    and "getDoc env cfg reader k d None s = Kb_doc k d before ''shared''"
  shows "getDoc env cfg reader k d None s' = Kb_no_doc k d \<and>
    list_all (\<lambda>a. \<not> is_doc (kf_kbId cfg) k d a) (ks_vault s')"
proof -
  have t: "truthy_string (kq_docKey req)" "truthy_string (kq_kind req)" "truthy_string (kq_text req)"
      "\<exists>kb sealTo. write_target env cfg d req s = Inr (kb, sealTo)"
    using assms(1) serve_put_refused [of req env cfg d s]
    by (auto, cases "write_target env cfg d req s", auto)
  then have w: "write_target env cfg d req s = Inr (kf_kbId cfg, None)"
    using assms(3) by (auto simp: write_target_def split: if_splits option.splits)
  obtain q where "sealStoreIndex env d (the (kq_kind req)) (the (kq_text req)) (kf_kbId cfg) (Some k) None
      (snd (supersedeDoc (kf_kbId cfg) k d s)) = (q, s')" "q = None"
    using assms(1,2) unfolding serve_put_target [OF t(1-3) w] by (auto split: option.splits prod.splits)
  then have s': "s' = snd (supersedeDoc (kf_kbId cfg) k d s)" using sealStoreIndex_None by blast
  then have l: "list_all (\<lambda>a. \<not> is_doc (kf_kbId cfg) k d a) (ks_vault s')"
    using no_prior_left [of "kf_kbId cfg" k d _ s] by (auto simp: list_all_iff)
  then have f: "find (is_doc (kf_kbId cfg) k d) (ks_vault s') = None" by (simp add: find_None_iff list_all_iff)
  have "authorized env cfg s reader ''read''" using assms(4)
    by (cases "authorized env cfg s reader ''read''") (simp_all add: getDoc_def Let_def)
  moreover have "ks_groups s' = ks_groups s" unfolding s' by (simp add: supersedeDoc_eq)
  ultimately have "authorized env cfg s' reader ''read''" using authorized_groups by metis
  then show ?thesis using f l by (simp add: getDoc_def)
qed

text \<open>
  Reading a document by its key never asks for the second factor: the result does not depend on the policy or on
  the Signet, while a query under a policy that demands the factor, with no approval, is refused.\<close>

theorem get_doc_skips_step_up:
  "getDoc (env\<lparr>ke_approve := ask\<rparr>) (cfg\<lparr>kf_policy := pol\<rparr>) d k t own s = getDoc env cfg d k t own s \<and>
   serve_query (env\<lparr>ke_approve := None\<rparr>) (cfg\<lparr>kf_policy := Some (\<lambda>_. Factor2)\<rparr>) d req token s
     \<in> {Kb_error No_read, Kb_error Query_missing, Kb_error (Step_up_unavailable ''read'')}"
proof
  show "getDoc (env\<lparr>ke_approve := ask\<rparr>) (cfg\<lparr>kf_policy := pol\<rparr>) d k t own s = getDoc env cfg d k t own s"
  proof -
    have au: "authorized (env\<lparr>ke_approve := ask\<rparr>) (cfg\<lparr>kf_policy := pol\<rparr>) s d ''read'' = authorized env cfg s d ''read''"
      by (simp add: authorized_iff is_member_def)
    have r: "doc_result (env\<lparr>ke_approve := ask\<rparr>) = doc_result env" by (intro ext) (simp add: doc_result_def)
    have "kf_kbId (cfg\<lparr>kf_policy := pol\<rparr>) = kf_kbId cfg" by simp
    then show ?thesis unfolding getDoc_def au r by metis
  qed
  show "serve_query (env\<lparr>ke_approve := None\<rparr>) (cfg\<lparr>kf_policy := Some (\<lambda>_. Factor2)\<rparr>) d req token s
     \<in> {Kb_error No_read, Kb_error Query_missing, Kb_error (Step_up_unavailable ''read'')}"
    by (simp add: serve_query_def Let_def clearAssurance_def required_tier_policy meetsAssurance_def assuranceLevel_def)
qed

end
