(* ===== verification/Kb_Example.thy ===== *)
theory Kb_Example
  imports Kb_Documents Ruleset_Example
begin

text \<open>
  A concrete knowledge base and the witnesses of the properties of \<open>Kb_Service\<close>, \<open>Kb_Runs\<close>, \<open>Kb_Documents\<close> and
  \<open>Trust_Registry\<close>: \<open>A\<close> and \<open>B\<close> read, \<open>A\<close> writes, sealing prefixes a letter, every embedding is the same.
\<close>

definition kx_recall :: recall_env where
  "kx_recall = \<lparr>rv_embed = (\<lambda>_. Some [1]), rv_unseal = (\<lambda>c. Some (tl c)), rv_open = (\<lambda>key c. Some (tl c)), rv_answer = (\<lambda>q _. ''answer'')\<rparr>"

definition kx_env :: "int \<Rightarrow> (string \<Rightarrow> string option) \<Rightarrow> kb_env" where
  "kx_env now seal = \<lparr>ke_hash = (\<lambda>d. d), ke_testGroup = (\<lambda>gs g d. Some (d \<in> set (gs g))), ke_getGroup = (\<lambda>gs g. Some (gs g)),
     ke_mint = (\<lambda>d. Some (''P'' @ d, ''pub'', ''wrapped'')), ke_approve = None, ke_sealWarden = seal,
     ke_sealTo = (\<lambda>pub t. CHR ''m'' # t), ke_classify = (\<lambda>_ _. (2, \<lambda>_. None)), ke_contentId = (\<lambda>c. CHR ''i'' # c),
     ke_recall = kx_recall, ke_now = now, ke_stamp = ''2026''\<rparr>"

abbreviation kx :: kb_env where
  "kx \<equiv> kx_env 0 (\<lambda>t. Some (CHR ''w'' # t))"

definition kx_cfg :: kb_config where
  "kx_cfg = \<lparr>kf_kbId = ''kb'', kf_readGroup = ''R'', kf_writeGroup = ''W'', kf_policy = None, kf_memberPartitions = False,
     kf_defaultScope = None, kf_openEnrollment = False, kf_maxMembers = Some 3, kf_enrollGrantsPromote = None,
     kf_nonceTtl = None, kf_sessionTtl = None\<rparr>"

definition kx_groups :: "did \<Rightarrow> did list" where
  "kx_groups g = (if g = ''R'' then [''A'', ''B''] else if g = ''W'' then [''A''] else [])"

definition kx_boot :: kb_state where
  "kx_boot = \<lparr>ks_nonces = Map.empty, ks_sessions = Map.empty, ks_keys = (\<lambda>_. Map.empty), ks_vault = [],
    ks_index = [], ks_groups = kx_groups, ks_partitions = Map.empty\<rparr>"

definition kx_req :: "kb_action \<Rightarrow> kb_request" where
  "kx_req a = \<lparr>kq_action = a, kq_query = Some ''q'', kq_k = None, kq_kind = Some ''note'', kq_text = Some ''t'', kq_scope = None,
     kq_docKey = Some ''k'', kq_owner = Some ''A''\<rparr>"

text \<open>After \<open>A\<close> has put the document.\<close>

definition kx_put :: "kb_result \<times> kb_state" where
  "kx_put = serve_put kx kx_cfg ''A'' (kx_req Put_doc) kx_boot"

lemmas kx_defs = kx_env_def kx_cfg_def kx_boot_def kx_req_def kx_groups_def kx_recall_def

lemma kx_registry [simp]:
  "is_member (kx_env now seal) s g d = (d \<in> set (ks_groups s g))"
  by (simp add: is_member_def kx_env_def)

lemma kx_assured [simp]: "clearAssurance (kx_env now seal) kx_cfg s d a = None"
  by (simp add: clearAssurance_None required_tier_policy kx_cfg_def)

definition kx_artefact :: kb_artefact where
  "kx_artefact = \<lparr>ka_id = ''iwt'', ka_kind = ''note'', ka_observedAt = ''2026'', ka_storedAt = ''2026'', ka_sensitivity = 2,
     ka_ciphertext = ''wt'', ka_sealedTo = None, ka_kb = Some ''kb'', ka_contributor = Some ''A'', ka_docKey = Some ''k'',
     ka_locus = (\<lambda>_. None), ka_owner = None, ka_scope = None, ka_witness = None, ka_needsConfirm = False, ka_description = None, ka_meta = Map.empty\<rparr>"

definition kx_entry :: index_entry where
  "kx_entry = \<lparr>ix_artefactId = ''iwt'', ix_kind = ''note'', ix_observedAt = ''2026'', ix_sensitivity = 2, ix_embedding = [1],
     ix_kb = Some ''kb'', ix_owner = None, ix_scope = None\<rparr>"

definition kx_full :: kb_state where
  "kx_full = kx_boot\<lparr>ks_vault := [kx_artefact], ks_index := [kx_entry]\<rparr>"

lemma kx_write [simp]: "write_target (kx_env now seal) kx_cfg ''A'' (kx_req Put_doc) s = 
    (if ''A'' \<in> set (ks_groups s ''W'') then Inr (''kb'', None) else Inl No_write)"
  by (simp add: write_target_def target_scope_def authorized_iff) (simp add: kx_cfg_def kx_req_def)

lemma kx_put_eq: "kx_put = (Kb_stored ''iwt'' (Some ''k'') 0 ''kb'' True, kx_full)"
proof -
  have w: "write_target kx kx_cfg ''A'' (kx_req Put_doc) kx_boot = Inr (''kb'', None)"
    by (simp add: kx_boot_def kx_groups_def)
  have p: "supersedeDoc ''kb'' ''k'' ''A'' kx_boot = (0, kx_boot)"
    by (simp add: supersedeDoc_def kx_boot_def)
  have q: "sealStoreIndex kx ''A'' ''note'' ''t'' ''kb'' (Some ''k'') None kx_boot = (Some (''iwt'', True), kx_full)"
    by (simp add: sealStoreIndex_def Let_def kx_env_def kx_recall_def)
      (simp add: kx_full_def kx_boot_def kx_artefact_def kx_entry_def vault_put_def index_put_def put_many_def)
  have r: "kq_docKey (kx_req Put_doc) = Some ''k''" "kq_kind (kx_req Put_doc) = Some ''note''" "kq_text (kx_req Put_doc) = Some ''t''"
    by (simp_all add: kx_req_def)
  show ?thesis unfolding kx_put_def
    by (subst serve_put_target [OF _ _ _ w]) (simp_all add: r p q)
qed

lemma kx_boot_reached: "kb_reaches (\<lambda>d. d) (\<lambda>_. True) kx_cfg [] [] kx_boot"
  unfolding kx_boot_def by (rule kb_reaches.boot)

text \<open>The same document put through the signed path.\<close>

definition kx_signed :: signed_kb_request where
  "kx_signed = kb_request.extend (kx_req Put_doc)
     \<lparr>kq_requester = ''A'', kq_kbId = ''kb'', kq_nonce = Some ''n'', kq_proof = Some ''A#key-1''\<rparr>"

definition kx_asked :: kb_state where
  "kx_asked = challenge kx kx_cfg ''n'' kx_boot"

definition kx_served :: kb_state where
  "kx_served = snd (kb_serve (\<lambda>_. True) kx kx_cfg kx_signed kx_asked)"

lemma kx_signed_fields:
  "kq_requester kx_signed = ''A'' \<and> kq_kbId kx_signed = ''kb'' \<and> kq_nonce kx_signed = Some ''n'' \<and> kq_proof kx_signed = Some ''A#key-1''"
  by (simp add: kx_signed_def kb_request.defs kx_req_def)

lemma kx_admitted: "admits (\<lambda>_. True) kx kx_cfg kx_signed kx_asked"
  by (simp add: admits_def kx_signed_fields verifyKbRequestSignature_def before_hash_def consumeNonce_fst kx_asked_def challenge_def)
    (simp add: kx_defs)

lemma kx_served_reached: "kb_reaches (\<lambda>d. d) (\<lambda>_. True) kx_cfg [''n''] [''n''] kx_served"
proof -
  have "kb_reaches (\<lambda>d. d) (\<lambda>_. True) kx_cfg [''n''] [] kx_asked"
    unfolding kx_asked_def by (rule kb_reaches.asked [OF kx_boot_reached]) simp
  from kb_reaches.served [OF this, where env = kx and r = kx_signed]
  show ?thesis using kx_admitted by (simp add: kx_served_def kx_signed_fields kx_env_def)
qed


lemma kb_replay_refused_witness:
  "\<exists>e. fst (kb_serve (\<lambda>_. True) kx kx_cfg kx_signed kx_served) = Kb_error e"
  by (rule kb_replay_refused [OF kx_served_reached, where n = "''n''"]) (simp_all add: kx_signed_fields)

lemma kb_serve_guarded_witness:
  "(\<exists>t. ks_nonces kx_asked ''n'' = Some t) \<and> ks_nonces kx_served ''n'' = None"
proof -
  have f: "kb_serve (\<lambda>_. True) kx kx_cfg kx_signed kx_asked = (fst (kb_serve (\<lambda>_. True) kx kx_cfg kx_signed kx_asked), kx_served)"
    by (simp add: kx_served_def)
  have "ks_vault kx_served \<noteq> ks_vault kx_asked \<or> ks_nonces kx_served ''n'' = None"
    using reaches_sound [OF kx_served_reached] by (auto simp: kb_sound_def)
  then show ?thesis using kb_serve_guarded [OF f] kx_signed_fields kx_admitted
      reaches_sound [OF kx_served_reached] by (auto simp: admits_def consumeNonce_fst kb_sound_def)
qed


lemma kx_get: "getDoc (kx_env now seal) kx_cfg ''B'' ''k'' ''A'' None kx_full = Kb_doc ''k'' ''A'' ''t'' ''shared''"
  by (simp add: getDoc_def authorized_iff Let_def kx_full_def)
    (simp add: kx_defs is_doc_def kx_artefact_def doc_result_def)

lemma failed_put_loses_document_witness:
  "getDoc (kx_env 1 (\<lambda>_. None)) kx_cfg ''B'' ''k'' ''A'' None
     (snd (serve_put (kx_env 1 (\<lambda>_. None)) kx_cfg ''A'' (kx_req Put_doc) kx_full)) = Kb_no_doc ''k'' ''A''"
proof -
  let ?e = "kx_env 1 (\<lambda>_. None)"
  have w: "write_target ?e kx_cfg ''A'' (kx_req Put_doc) kx_full = Inr (''kb'', None)"
    by (simp add: kx_full_def kx_boot_def kx_groups_def)
  have "fst (serve_put ?e kx_cfg ''A'' (kx_req Put_doc) kx_full) = Kb_threw"
    by (subst serve_put_target [OF _ _ _ w]) (simp_all add: kx_req_def kx_env_def sealStoreIndex_def)
  then have "serve_put ?e kx_cfg ''A'' (kx_req Put_doc) kx_full = (Kb_threw, snd (serve_put ?e kx_cfg ''A'' (kx_req Put_doc) kx_full))"
    by (metis prod.collapse)
  from failed_put_loses_document [OF this _ _ kx_get] show ?thesis
    by (simp add: kx_req_def target_scope_def kx_cfg_def)
qed

text \<open>A query by \<open>B\<close>.\<close>

lemma kx_enroll [simp]: "openEnroll (kx_env now seal) kx_cfg d s = (Not_enrolled, s)"
  by (simp add: openEnroll_def kx_cfg_def)

lemma kx_own [simp]: "ownPartition (kx_env now seal) kx_cfg s d = None"
  by (simp add: ownPartition_def kx_cfg_def)

definition kx_citation :: kb_citation where
  "kx_citation = \<lparr>kc_citation = \<lparr>ci_artefactId = ''iwt'', ci_kind = ''note'', ci_observedAt = ''2026'', ci_score = 1, ci_kb = Some ''kb'', ci_scope = None\<rparr>,
     kc_scope = Some ''shared'', kc_locus = (\<lambda>_. None)\<rparr>"

lemma kx_visible: "visible_set kx kx_cfg kx_full ''B'' (kx_req Query) = [''kb'']"
  by (simp add: visible_set_def authorized_iff) (simp add: kx_full_def kx_defs)

lemma kx_ceiling: "kb_ceiling kx kx_cfg kx_full ''B'' = 2"
  by (simp add: kb_ceiling_def required_tier_policy kx_cfg_def)

lemma kx_rank:
  "rankByQuery [1] [kx_entry] \<lparr>ro_k = None, ro_maxSensitivity = Some 2, ro_kb = Kb_set [''kb''], ro_owner = None\<rparr> = [(kx_entry, 1)]"
  by (simp add: rankByQuery_def slice0_def in_scope_def kb_match_def owner_match_def kx_entry_def cosineSimilarity_def)

lemma kx_recalls:
  "recall kx_recall f [kx_artefact] [kx_entry] q \<lparr>ro_k = None, ro_maxSensitivity = Some 2, ro_kb = Kb_set [''kb''], ro_owner = None\<rparr> =
     (Answered ''answer'', [kc_citation kx_citation])"
proof -
  have "readable kx_recall f [kx_artefact] (kx_entry, 1) = Some (''2026'', ''t'', kc_citation kx_citation)"
    by (simp add: readable_def resolve_content_def vault_get_def get_by_def kx_artefact_def kx_entry_def kx_recall_def
        citation_of_def kx_citation_def)
  then show ?thesis by (simp add: recall_def kx_rank map_filter_simps) (simp add: kx_recall_def kx_rank map_filter_simps)
qed

lemma kx_answer:
  "kb_execute kx kx_cfg ''B'' (kx_req Query) None kx_full = (Kb_answer (Answered ''answer'') [kx_citation], kx_full)"
proof -
  have l: "label_citation kx_cfg None [kx_artefact] (kc_citation kx_citation) = kx_citation"
    by (simp add: label_citation_def vault_get_def get_by_def kx_artefact_def kx_citation_def kx_cfg_def)
  have f: "ks_vault kx_full = [kx_artefact]" "ks_index kx_full = [kx_entry]" "ke_recall kx = kx_recall"
      "kq_k (kx_req Query) = None" "kq_query (kx_req Query) = Some ''q''" "kq_action (kx_req Query) = Query"
    by (simp_all add: kx_full_def kx_env_def kx_req_def)
  have "serve_query kx kx_cfg ''B'' (kx_req Query) None kx_full = Kb_answer (Answered ''answer'') [kx_citation]"
    unfolding serve_query_def kx_visible kx_ceiling kx_assured kx_own f by (simp add: Let_def kx_recalls l)
  then show ?thesis by (simp add: kb_execute_def f(6))
qed

lemma kx_named: "partitions_named (ke_hash kx) (kf_kbId kx_cfg) kx_full"
  by (simp add: partitions_named_def kx_full_def kx_boot_def)

lemma kb_query_isolated_witness:
  "\<exists>e k. e \<in> set (ks_index kx_full) \<and> ix_artefactId e = ''iwt'' \<and> ix_kb e = Some k \<and>
     may_see kx kx_cfg kx_full ''B'' (kx_req Query) k"
  using kb_query_isolated [OF kx_answer _ kx_named, of kx_citation] by (auto simp: kx_citation_def)

text \<open>The same service with an entry of another member's partition beside.\<close>

definition kx_crowded :: kb_state where
  "kx_crowded = kx_full\<lparr>ks_vault := [kx_artefact, kx_artefact\<lparr>ka_id := ''other'', ka_kb := Some ''kb::priv:A''\<rparr>],
     ks_index := [kx_entry\<lparr>ix_artefactId := ''other'', ix_kb := Some ''kb::priv:A''\<rparr>, kx_entry]\<rparr>"


lemma get_doc_within_reach_witness:
  "\<exists>a. a \<in> set (ks_vault kx_full) \<and> rv_unseal kx_recall (ka_ciphertext a) = Some ''t''"
proof -
  have "kb_execute kx kx_cfg ''B'' (kx_req Get_doc) None kx_full = (Kb_doc ''k'' ''A'' ''t'' ''shared'', kx_full)"
    using kx_get [of 0] by (simp add: kb_execute_def kx_req_def)
  from get_doc_within_reach [OF this kx_named] show ?thesis by (auto simp: kx_env_def)
qed

text \<open>A session of \<open>A\<close> that has expired.\<close>

lemma kb_session_gate_witness:
  "ks_sessions (snd (serveWithSession (kx_env 9 Some) kx_cfg ''kb'' ''token'' (kx_req Query)
     (kx_full\<lparr>ks_sessions := [''token'' \<mapsto> (''A'', 8)]\<rparr>))) ''token'' = None"
proof -
  let ?s = "kx_full\<lparr>ks_sessions := [''token'' \<mapsto> (''A'', 8)]\<rparr>" and ?e = "kx_env 9 Some"
  let ?t = "snd (serveWithSession ?e kx_cfg ''kb'' ''token'' (kx_req Query) ?s)"
  have "fst (serveWithSession ?e kx_cfg ''kb'' ''token'' (kx_req Query) ?s) = Kb_error Session_expired"
    by (simp add: serveWithSession_def kx_cfg_def kx_env_def)
  then have "serveWithSession ?e kx_cfg ''kb'' ''token'' (kx_req Query) ?s = (Kb_error Session_expired, ?t)"
    by (metis prod.collapse)
  from kb_session_gate [OF this] show ?thesis by (auto simp: kx_env_def split: if_splits)
qed

text \<open>A member with a partition of its own, whose content is sealed to the partition's key.\<close>

definition ky_cfg :: kb_config where
  "ky_cfg = kx_cfg\<lparr>kf_memberPartitions := True, kf_openEnrollment := True\<rparr>"

definition ky_state :: kb_state where
  "ky_state = kx_full\<lparr>ks_vault := [kx_artefact\<lparr>ka_kb := Some ''kb::priv:B'', ka_sealedTo := Some ''kb::priv:B''\<rparr>],
     ks_index := [kx_entry\<lparr>ix_kb := Some ''kb::priv:B''\<rparr>], ks_keys := (\<lambda>t. if t = ''token'' then [''kb::priv:B'' \<mapsto> ''key''] else Map.empty),
     ks_groups := kx_groups(''PB'' := [''B'']),
     ks_partitions := [''B'' \<mapsto> \<lparr>pr_id = ''kb::priv:B'', pr_group = ''PB'', pr_local = True, pr_pub = Some ''pub'', pr_wrapped = Some ''w''\<rparr>]\<rparr>"

lemma ky_answer:
  "\<exists>kc. serve_query kx ky_cfg ''B'' (kx_req Query) (Some ''token'') ky_state = Kb_answer (Answered ''answer'') [kc] \<and>
     ci_artefactId (kc_citation kc) = ''iwt''"
proof -
  let ?e = "kx_entry\<lparr>ix_kb := Some ''kb::priv:B''\<rparr>" and ?o = "\<lparr>ro_k = None, ro_maxSensitivity = Some 2, ro_kb = Kb_set [''kb'', ''kb::priv:B''], ro_owner = None\<rparr>"
  have own: "ownPartition kx ky_cfg ky_state ''B'' = Some (''kb::priv:B'', Some ''pub'')"
    by (simp add: ownPartition_def ky_cfg_def ky_state_def kx_env_def)
  have v: "visible_set kx ky_cfg ky_state ''B'' (kx_req Query) = [''kb'', ''kb::priv:B'']"
    unfolding visible_set_def own by (simp add: authorized_iff) (simp add: ky_state_def ky_cfg_def kx_cfg_def kx_groups_def kx_req_def)
  have c: "kb_ceiling kx ky_cfg ky_state ''B'' = 2" "clearAssurance kx ky_cfg ky_state ''B'' ''read'' = None"
    by (simp_all add: kb_ceiling_def clearAssurance_None required_tier_policy ky_cfg_def kx_cfg_def)
  have r: "rankByQuery [1] [?e] ?o = [(?e, 1)]"
    by (simp add: rankByQuery_def slice0_def in_scope_def kb_match_def owner_match_def kx_entry_def cosineSimilarity_def)
  have o: "readable kx_recall (key_lookup ky_state (Some ''token'')) (ks_vault ky_state) (?e, 1) = Some (''2026'', ''t'', citation_of ?e 1)"
    by (simp add: readable_def resolve_content_def vault_get_def get_by_def kx_artefact_def kx_entry_def kx_recall_def
        ky_state_def key_lookup_def)
  have "recall kx_recall (key_lookup ky_state (Some ''token'')) (ks_vault ky_state) [?e] ''q'' ?o = (Answered ''answer'', [citation_of ?e 1])"
    by (simp add: recall_def r o map_filter_simps) (simp add: kx_recall_def r o [unfolded kx_recall_def] map_filter_simps)
  moreover have f: "ks_index ky_state = [?e]" "ke_recall kx = kx_recall" "kq_k (kx_req Query) = None" "kq_query (kx_req Query) = Some ''q''"
    by (simp_all add: ky_state_def kx_env_def kx_req_def)
  ultimately have "serve_query kx ky_cfg ''B'' (kx_req Query) (Some ''token'') ky_state =
      Kb_answer (Answered ''answer'') [label_citation ky_cfg (Some (''kb::priv:B'', Some ''pub'')) (ks_vault ky_state) (citation_of ?e 1)]"
    unfolding serve_query_def v c own f by (simp add: Let_def)
  then show ?thesis by (simp add: label_citation_def citation_of_def kx_entry_def)
qed

lemma kb_sealed_needs_session_witness: "ks_keys ky_state ''token'' ''kb::priv:B'' \<noteq> None"
proof -
  obtain kc where k: "serve_query kx ky_cfg ''B'' (kx_req Query) (Some ''token'') ky_state = Kb_answer (Answered ''answer'') [kc]"
      "ci_artefactId (kc_citation kc) = ''iwt''" using ky_answer by blast
  let ?a = "kx_artefact\<lparr>ka_kb := Some ''kb::priv:B'', ka_sealedTo := Some ''kb::priv:B''\<rparr>"
  have "vault_get (ci_artefactId (kc_citation kc)) (ks_vault ky_state) = Some ?a"
    unfolding k(2) by (simp add: ky_state_def vault_get_def get_by_def kx_artefact_def)
  from kb_sealed_needs_session [OF k(1) _ this] show ?thesis by simp
qed

lemma enrollment_capped_witness:
  "length (ks_groups (snd (openEnroll kx ky_cfg ''C'' ky_state)) ''R'') \<le> 3"
proof -
  have "openEnroll kx ky_cfg ''C'' ky_state = (fst (openEnroll kx ky_cfg ''C'' ky_state), snd (openEnroll kx ky_cfg ''C'' ky_state))"
    by simp
  from enrollment_capped [OF this, of 3] show ?thesis
    by (simp add: ky_cfg_def kx_cfg_def kx_env_def ky_state_def kx_groups_def)
qed

text \<open>The assurance policy over a chain of one version.\<close>

lemma assurance_downgrade_needs_governor_witness:
  "requiredAssurance id rx_V (\<lambda>_. None) ''asset'' (Some ''G'') ''write'' = Factor1"
  using assurance_downgrade_needs_governor [where resolve = "\<lambda>_. Some [rx1]" and resolve' = "\<lambda>_. None" and H = id and V = rx_V
      and policyChain = "''asset''" and expected = "Some ''G''" and action = "''write''" and chain = "[rx1]"] by simp

end
