(* ===== verification/Guardianship.thy ===== *)
theory Guardianship
  imports Ruleset Recall
begin

text \<open>
  Guardianship: the two stores and \<open>guardianRead\<close> of \<open>packages/warden/src/guardianship.ts\<close>, and the routes of
  \<open>packages/warden/src/control.ts\<close> that grant, acknowledge, read under and revoke a guardianship. The viewer is the DID
  of the session. The governor's and the member's Signets are functions, \<^const>\<open>None\<close> when they decline.
\<close>

section \<open>Receipts\<close>

record guardian_receipt =
  gp_guardian :: did
  gp_subject :: did
  gp_artefactId :: string
  gp_kind :: string
  gp_at :: string

definition record_receipt :: "guardian_receipt \<Rightarrow> guardian_receipt list \<Rightarrow> guardian_receipt list" where
  "record_receipt r all = all @ [r]"

definition receipts_for :: "did \<Rightarrow> guardian_receipt list \<Rightarrow> guardian_receipt list" where
  "receipts_for subject all = filter (\<lambda>r. gp_subject r = subject) all"

section \<open>The store of edges\<close>

text \<open>The JSON object of the file: chains by key, in the order their keys were first written.\<close>

type_synonym edges = "(string \<times> signed_ruleset list) list"

definition edgeKey :: "did \<Rightarrow> did \<Rightarrow> string" where
  "edgeKey governor subject = governor @ ''|'' @ subject"

fun set_edge :: "string \<Rightarrow> signed_ruleset list \<Rightarrow> edges \<Rightarrow> edges" where
  "set_edge k c [] = [(k, c)]"
| "set_edge k c ((k', c') # es) = (if k' = k then (k, c) # es else (k', c') # set_edge k c es)"

definition edge_chain :: "did \<Rightarrow> did \<Rightarrow> edges \<Rightarrow> signed_ruleset list" where
  "edge_chain governor subject es = opt_list (map_of es (edgeKey governor subject))"

definition append_version :: "did \<Rightarrow> did \<Rightarrow> signed_ruleset \<Rightarrow> edges \<Rightarrow> edges" where
  "append_version governor subject v es = set_edge (edgeKey governor subject) (edge_chain governor subject es @ [v]) es"

definition replaceChain :: "did \<Rightarrow> did \<Rightarrow> signed_ruleset list \<Rightarrow> edges \<Rightarrow> edges" where
  "replaceChain governor subject c es = set_edge (edgeKey governor subject) c es"

definition forSubject :: "did \<Rightarrow> edges \<Rightarrow> (did \<times> signed_ruleset list) list" where
  "forSubject subject es =
     map (\<lambda>(k, c). (take (length k - length subject - 1) k, c)) (filter (\<lambda>(k, _). suffix (''|'' @ subject) k) es)"

definition forGovernor :: "did \<Rightarrow> edges \<Rightarrow> (did \<times> signed_ruleset list) list" where
  "forGovernor governor es =
     map (\<lambda>(k, c). (drop (length governor + 1) k, c)) (filter (\<lambda>(k, _). prefix (governor @ ''|'') k) es)"

text \<open>What the routes rely on: a map from pairs of DIDs to chains, and who watches whom.\<close>

locale edge_store =
  fixes chain_of :: "did \<Rightarrow> did \<Rightarrow> 'st \<Rightarrow> signed_ruleset list"
    and put_chain :: "did \<Rightarrow> did \<Rightarrow> signed_ruleset list \<Rightarrow> 'st \<Rightarrow> 'st"
    and watchers :: "did \<Rightarrow> 'st \<Rightarrow> (did \<times> signed_ruleset list) list"
    and good :: "did \<Rightarrow> bool"
  assumes chain_put_same: "chain_of g s (put_chain g s c st) = c"
    and chain_put_other: "good g \<Longrightarrow> good g' \<Longrightarrow> (g', s') \<noteq> (g, s) \<Longrightarrow> chain_of g' s' (put_chain g s c st) = chain_of g' s' st"
    and watched: "chain_of g s st \<noteq> [] \<Longrightarrow> (g, chain_of g s st) \<in> set (watchers s st)"
begin

lemma watcher_shown: "c \<noteq> [] \<Longrightarrow> (g, c) \<in> set (watchers s (put_chain g s c st))"
  using watched [of g s "put_chain g s c st"] by (simp add: chain_put_same)

lemma watcher_stays:
  "good g \<Longrightarrow> good g' \<Longrightarrow> g' \<noteq> g \<Longrightarrow> chain_of g' s st \<noteq> [] \<Longrightarrow> (g', chain_of g' s st) \<in> set (watchers s (put_chain g s c st))"
  using watched [of g' s "put_chain g s c st"] chain_put_other [of g g' s s c st] by simp

end

lemma map_of_set_edge: "map_of (set_edge k c es) = (map_of es)(k \<mapsto> c)"
  by (induction es) auto

text \<open>A DID holds no bar.\<close>

definition no_bar :: "did \<Rightarrow> bool" where
  "no_bar d \<longleftrightarrow> CHR ''|'' \<notin> set d"

lemma takeWhile_edgeKey: "no_bar g \<Longrightarrow> takeWhile (\<lambda>c. c \<noteq> CHR ''|'') (edgeKey g s) = g"
proof -
  assume "no_bar g"
  then have "\<And>c. c \<in> set g \<Longrightarrow> c \<noteq> CHR ''|''" by (auto simp: no_bar_def)
  then have "takeWhile (\<lambda>c. c \<noteq> CHR ''|'') (g @ CHR ''|'' # s) = g @ takeWhile (\<lambda>c. c \<noteq> CHR ''|'') (CHR ''|'' # s)"
    by (rule takeWhile_append2)
  then show ?thesis by (simp add: edgeKey_def)
qed

lemma edgeKey_inj: "no_bar g \<Longrightarrow> no_bar g' \<Longrightarrow> edgeKey g s = edgeKey g' s' \<longleftrightarrow> g = g' \<and> s = s'"
  using takeWhile_edgeKey [of g s] takeWhile_edgeKey [of g' s'] by (auto simp: edgeKey_def)

interpretation guardianships: edge_store edge_chain replaceChain forSubject no_bar
proof unfold_locales
  show "edge_chain g s (replaceChain g s c st) = c" for g s c st
    by (simp add: edge_chain_def replaceChain_def map_of_set_edge opt_list_def)
  show "edge_chain g' s' (replaceChain g s c st) = edge_chain g' s' st"
    if "no_bar g" "no_bar g'" "(g', s') \<noteq> (g, s)" for g s g' s' c st
    using edgeKey_inj [of g' g s' s] that by (auto simp: edge_chain_def replaceChain_def map_of_set_edge)
  show "(g, edge_chain g s st) \<in> set (forSubject s st)" if ne: "edge_chain g s st \<noteq> []" for g s st
  proof -
    obtain c where c: "map_of st (edgeKey g s) = Some c" "edge_chain g s st = c"
      using ne by (cases "map_of st (edgeKey g s)") (auto simp: edge_chain_def opt_list_def)
    have "(edgeKey g s, c) \<in> set st" using c(1) by (rule map_of_SomeD)
    moreover have "suffix (''|'' @ s) (edgeKey g s)" by (simp add: edgeKey_def suffix_def)
    ultimately show ?thesis using c(2) by (force simp: forSubject_def edgeKey_def image_iff)
  qed
qed

section \<open>Reading under guardianship\<close>

record active_guardianship =
  ag_governor :: did
  ag_subject :: did
  ag_kinds :: "string list option"
  ag_ceiling :: int
  ag_validUntil :: "string option"

definition activeGuardianships ::
  "hash \<Rightarrow> (json \<Rightarrow> bool) \<Rightarrow> edges \<Rightarrow> did \<Rightarrow> active_guardianship list" where
  "activeGuardianships H V es subject =
     List.map_filter (\<lambda>(governor, chain).
       case operativeRuleset H V chain (Some governor) of
         None \<Rightarrow> None
       | Some op \<Rightarrow>
           if rs_subject op = Some subject \<and> rs_actor op = governor
           then Some \<lparr>ag_governor = governor, ag_subject = subject, ag_kinds = rk_kinds (rs_capabilities op),
             ag_ceiling = rs_ceiling op, ag_validUntil = rs_validUntil op\<rparr>
           else None) (forSubject subject es)"

datatype read_result = Read_refused guardian_denial | Not_available | Read_threw | Face string

text \<open>\<open>sovereign\<close> is the configured one, the owner of what carries no owner.\<close>

definition artefact_owner :: "did option \<Rightarrow> kb_artefact \<Rightarrow> did option" where
  "artefact_owner sovereign a = (case ka_owner a of Some d \<Rightarrow> Some d | None \<Rightarrow> sovereign)"

definition guardianRead ::
  "hash \<Rightarrow> (json \<Rightarrow> bool) \<Rightarrow> (string \<Rightarrow> string option) \<Rightarrow> did option \<Rightarrow> kb_artefact list \<Rightarrow> signed_ruleset list \<Rightarrow>
     did \<Rightarrow> did \<Rightarrow> string \<Rightarrow> string \<Rightarrow> guardian_receipt list \<Rightarrow> read_result \<times> guardian_receipt list" where
  "guardianRead H V unseal sovereign vault chain governor subject artefactId time receipts =
     (case vault_get artefactId vault of
        None \<Rightarrow> (Not_available, receipts)
      | Some a \<Rightarrow>
          if artefact_owner sovereign a \<noteq> Some subject then (Not_available, receipts)
          else (case authorizeGuardianRead H V chain
                  \<lparr>gr_governor = governor, gr_subject = subject, gr_kind = Some (ka_kind a),
                   gr_sensitivity = Some (ka_sensitivity a), gr_at = time\<rparr> of
                Some Out_Of_Scope \<Rightarrow> (Not_available, receipts)
              | Some d \<Rightarrow> (Read_refused d, receipts)
              | None \<Rightarrow>
                  (case unseal (ka_ciphertext a) of Some face \<Rightarrow> Face face | None \<Rightarrow> Read_threw,
                   record_receipt \<lparr>gp_guardian = governor, gp_subject = subject, gp_artefactId = artefactId,
                     gp_kind = ka_kind a, gp_at = time\<rparr> receipts)))"

section \<open>The routes\<close>

text \<open>\<open>sign\<close> is the governor's Signet, \<open>acknowledge\<close> the member's; both see the version they are asked for.\<close>

record grant_request =
  gg_subject :: did
  gg_kinds :: "string list option"
  gg_ceiling :: "int option"
  gg_validUntil :: "string option"

definition head_of :: "signed_ruleset list \<Rightarrow> signed_ruleset option" where
  "head_of chain = (if chain = [] then None else Some (last chain))"

definition proposed_version :: "hash \<Rightarrow> did \<Rightarrow> grant_request \<Rightarrow> signed_ruleset list \<Rightarrow> signed_ruleset" where
  "proposed_version H viewer req chain =
     \<lparr>rs_actor = viewer, rs_actorKind = ''guardianship'', rs_resource = Some (''guard:'' @ gg_subject req),
      rs_version = (case head_of chain of None \<Rightarrow> 0 | Some h \<Rightarrow> rs_version h) + 1,
      rs_previous = map_option (rulesetId H) (head_of chain),
      rs_capabilities = \<lparr>rk_kinds = Some (opt_list (gg_kinds req)), rk_verbs = Some [''read''], rk_assurance = None,
        rk_stableDidAudiences = None, rk_keyCustody = None, rk_spend = None, rk_control = None\<rparr>,
      rs_ceiling = (case gg_ceiling req of None \<Rightarrow> 1 | Some c \<Rightarrow> c), rs_status = Active, rs_subject = Some (gg_subject req),
      rs_validUntil = (if truthy_string (gg_validUntil req) then gg_validUntil req else None), rs_proof = None, rs_memberAck = None\<rparr>"

text \<open>\<open>household\<close> is the governor of the household, when there is one; \<^const>\<open>None\<close> is a refusal.\<close>

definition guardian_grant ::
  "hash \<Rightarrow> (signed_ruleset \<Rightarrow> signed_ruleset option) \<Rightarrow> did option \<Rightarrow> did option \<Rightarrow> grant_request \<Rightarrow> edges \<Rightarrow> edges option" where
  "guardian_grant H sign household viewer req es =
     (if gg_subject req = [] \<or> household = None \<or> viewer \<noteq> household then None
      else let chain = edge_chain (the viewer) (gg_subject req) es in
        case sign (proposed_version H (the viewer) req chain) of
          None \<Rightarrow> None
        | Some signed \<Rightarrow> Some (append_version (the viewer) (gg_subject req) signed es))"

definition guardian_acknowledge ::
  "(signed_ruleset \<Rightarrow> ruleset_proof option) \<Rightarrow> did option \<Rightarrow> did \<Rightarrow> edges \<Rightarrow> edges option" where
  "guardian_acknowledge acknowledge viewer governor es =
     (if governor = [] \<or> \<not> truthy_string viewer then None
      else let chain = edge_chain governor (the viewer) es in
        case head_of chain of
          None \<Rightarrow> None
        | Some head \<Rightarrow>
            (case acknowledge head of
               None \<Rightarrow> None
             | Some ack \<Rightarrow> Some (replaceChain governor (the viewer) (butlast chain @ [head\<lparr>rs_memberAck := Some ack\<rparr>]) es)))"

definition revoking_version :: "hash \<Rightarrow> signed_ruleset \<Rightarrow> signed_ruleset" where
  "revoking_version H head = head\<lparr>rs_version := rs_version head + 1, rs_previous := Some (rulesetId H head), rs_status := Revoked,
     rs_validUntil := (if truthy_string (rs_validUntil head) then rs_validUntil head else None), rs_proof := None, rs_memberAck := None\<rparr>"

definition guardian_revoke ::
  "hash \<Rightarrow> (signed_ruleset \<Rightarrow> signed_ruleset option) \<Rightarrow> did option \<Rightarrow> did \<Rightarrow> edges \<Rightarrow> edges option" where
  "guardian_revoke H sign viewer subject es =
     (if subject = [] then None
      else let governor = (case viewer of None \<Rightarrow> [] | Some d \<Rightarrow> d) in
        case head_of (edge_chain governor subject es) of
          None \<Rightarrow> None
        | Some head \<Rightarrow>
            (case sign (revoking_version H head) of
               None \<Rightarrow> None
             | Some signed \<Rightarrow> Some (append_version governor subject signed es)))"

definition guardian_read ::
  "hash \<Rightarrow> (json \<Rightarrow> bool) \<Rightarrow> (string \<Rightarrow> string option) \<Rightarrow> did option \<Rightarrow> kb_artefact list \<Rightarrow> did option \<Rightarrow> did \<Rightarrow> string \<Rightarrow>
     string \<Rightarrow> edges \<Rightarrow> guardian_receipt list \<Rightarrow> (read_result \<times> guardian_receipt list) option" where
  "guardian_read H V unseal sovereign vault viewer subject artefactId time es receipts =
     (if subject = [] \<or> artefactId = [] \<or> \<not> truthy_string viewer then None
      else Some (guardianRead H V unseal sovereign vault (edge_chain (the viewer) subject es) (the viewer) subject artefactId
        time receipts))"


section \<open>Who sees a read\<close>

lemma guardianRead_Face:
  assumes "guardianRead H V unseal sovereign vault chain g m i t receipts = (Face face, receipts')"
  shows "\<exists>a. vault_get i vault = Some a \<and> artefact_owner sovereign a = Some m \<and> unseal (ka_ciphertext a) = Some face \<and>
    authorizeGuardianRead H V chain \<lparr>gr_governor = g, gr_subject = m, gr_kind = Some (ka_kind a),
      gr_sensitivity = Some (ka_sensitivity a), gr_at = t\<rparr> = None \<and>
    receipts' = receipts @ [\<lparr>gp_guardian = g, gp_subject = m, gp_artefactId = i, gp_kind = ka_kind a, gp_at = t\<rparr>]"
proof (cases "vault_get i vault")
  case (Some a)
  then show ?thesis using assms
    by (auto simp: guardianRead_def record_receipt_def split: if_splits option.splits guardian_denial.splits)
qed (use assms in \<open>simp add: guardianRead_def\<close>)

lemma active_listed:
  assumes "edge_chain g m es = chain" "operativeRuleset H V chain (Some g) = Some op" "rs_actor op = g" "rs_subject op = Some m"
  shows "\<lparr>ag_governor = g, ag_subject = m, ag_kinds = rk_kinds (rs_capabilities op), ag_ceiling = rs_ceiling op,
      ag_validUntil = rs_validUntil op\<rparr> \<in> set (activeGuardianships H V es m)"
proof -
  have "chain \<noteq> []" using assms(2) by (auto simp: operativeRuleset_Some Let_def)
  then have "(g, chain) \<in> set (forSubject m es)" using guardianships.watched [of g m es] assms(1) by simp
  then show ?thesis unfolding activeGuardianships_def in_map_filter
    by (rule bexI [rotated]) (simp add: assms(2-4))
qed

text \<open>
  Nobody reads unseen: a read that shows a face is of an artefact of the member, lies within a guardianship that
  the member's own list of watchers shows with its kinds, its ceiling and its expiry, and leaves a receipt that the
  member's log ends with.\<close>

theorem guardian_read_conspicuous:
  assumes "guardian_read H V unseal sovereign vault viewer m i t es receipts = Some (Face face, receipts')"
  shows "\<exists>a ag r. vault_get i vault = Some a \<and> artefact_owner sovereign a = Some m \<and>
    ag \<in> set (activeGuardianships H V es m) \<and> Some (ag_governor ag) = viewer \<and> ka_sensitivity a \<le> ag_ceiling ag \<and>
    (case ag_kinds ag of None \<Rightarrow> True | Some ks \<Rightarrow> ka_kind a = [] \<or> ka_kind a \<in> set ks) \<and>
    (truthy_string (ag_validUntil ag) \<longrightarrow> t \<le> the (ag_validUntil ag)) \<and>
    r = \<lparr>gp_guardian = ag_governor ag, gp_subject = m, gp_artefactId = i, gp_kind = ka_kind a, gp_at = t\<rparr> \<and>
    receipts_for m receipts' = receipts_for m receipts @ [r]"
proof -
  obtain g where g: "viewer = Some g" "guardianRead H V unseal sovereign vault (edge_chain g m es) g m i t receipts = (Face face, receipts')"
    using assms by (auto simp: guardian_read_def truthy_string_iff split: if_splits)
  obtain a where a: "vault_get i vault = Some a" "artefact_owner sovereign a = Some m"
      "authorizeGuardianRead H V (edge_chain g m es) \<lparr>gr_governor = g, gr_subject = m, gr_kind = Some (ka_kind a),
        gr_sensitivity = Some (ka_sensitivity a), gr_at = t\<rparr> = None"
      "receipts' = receipts @ [\<lparr>gp_guardian = g, gp_subject = m, gp_artefactId = i, gp_kind = ka_kind a, gp_at = t\<rparr>]"
    using guardianRead_Face [OF g(2)] by blast
  obtain op where op: "operativeRuleset H V (edge_chain g m es) (Some g) = Some op" "rs_actor op = g" "rs_subject op = Some m"
      "truthy_string (rs_validUntil op) \<longrightarrow> t \<le> the (rs_validUntil op)"
      "\<forall>ks. ka_kind a \<noteq> [] \<longrightarrow> rk_kinds (rs_capabilities op) = Some ks \<longrightarrow> ka_kind a \<in> set ks" "ka_sensitivity a \<le> rs_ceiling op"
    using a(3) unfolding authorizeGuardianRead_None by auto
  let ?ag = "\<lparr>ag_governor = g, ag_subject = m, ag_kinds = rk_kinds (rs_capabilities op), ag_ceiling = rs_ceiling op,
      ag_validUntil = rs_validUntil op\<rparr>"
  have "?ag \<in> set (activeGuardianships H V es m)" by (rule active_listed [OF refl op(1-3)])
  then show ?thesis using a(1,2,4) g(1) op(4-6)
    by (intro exI [of _ a] exI [of _ ?ag]) (auto simp: receipts_for_def split: option.split)
qed

text \<open>
  Who has no guardianship at all learns whether an artefact exists and is the member's: only then is the answer
  that there is no edge, in place of the uniform refusal.\<close>

theorem refusal_reveals_existence:
  assumes "operativeRuleset H V (edge_chain g m es) (Some g) = None"
  shows "fst (guardianRead H V unseal sovereign vault (edge_chain g m es) g m i t receipts) =
    (if \<exists>a. vault_get i vault = Some a \<and> artefact_owner sovereign a = Some m then Read_refused No_Edge else Not_available)"
  using assms by (cases "vault_get i vault") (auto simp: guardianRead_def authorizeGuardianRead_def)

section \<open>The life of a guardianship\<close>

lemma operative_one:
  assumes "verifyRuleset V r = Inr g" "rs_version r = 1" "rs_previous r = None" "rs_subject r = Some m" "m \<noteq> []" "rs_status r = Active"
  shows "operativeRuleset H V [r] (Some g) = (if verifyMemberAck V r then Some r else None)"
proof -
  have "widensIntoPrivateScope None r" using assms(4,5) by (cases m) (simp_all add: widensIntoPrivateScope_def)
  then show ?thesis using assms verifyRuleset_signer [OF assms(1)]
    by (auto simp: operativeRuleset_def by_version_def operative_step_ok_def Let_def)
qed

lemma operative_revoked:
  assumes "verifyRuleset V r = Inr g" "rs_version r = 1" "rs_previous r = None" "verifyMemberAck V r"
    and "verifyRuleset V r' = Inr g" "rs_version r' = 2" "rs_previous r' = Some (rulesetId H r)" "rs_subject r' = rs_subject r"
      "rs_status r' = Revoked"
  shows "operativeRuleset H V [r, r'] (Some g) = None"
proof -
  have "\<not> widensIntoPrivateScope (Some r) r'" using assms(8,9) by (simp add: widens_None_revoked)
  then show ?thesis using assms verifyRuleset_signer [OF assms(1)]
    by (auto simp: operativeRuleset_def by_version_def operative_step_ok_def Let_def)
qed

text \<open>
  A guardianship lives from the member's acknowledgment to the governor's revocation: with honest Signets, a
  grant over a fresh edge authorizes nothing; once acknowledged it shows the artefacts in its scope; once revoked,
  nothing again.\<close>

theorem guardianship_lifecycle:
  assumes "edge_chain g m es = []" "gg_subject req = m" "m \<noteq> []" "g \<noteq> []" "i \<noteq> []"
    and sign: "\<And>r a. verifyRuleset V (r\<lparr>rs_proof := Some pf, rs_memberAck := a\<rparr>) = Inr g"
    and ack: "\<And>r. rs_subject r = Some m \<Longrightarrow> verifyMemberAck V (r\<lparr>rs_memberAck := Some pm\<rparr>)"
    and none: "\<And>r. rs_memberAck r = None \<Longrightarrow> \<not> verifyMemberAck V r"
    and grant: "guardian_grant H (\<lambda>r. Some (r\<lparr>rs_proof := Some pf\<rparr>)) (Some g) (Some g) req es = Some es1"
    and acknowledge: "guardian_acknowledge (\<lambda>_. Some pm) (Some m) g es1 = Some es2"
    and revoke: "guardian_revoke H (\<lambda>r. Some (r\<lparr>rs_proof := Some pf\<rparr>)) (Some g) m es2 = Some es3"
    and scope: "vault_get i vault = Some a" "artefact_owner sovereign a = Some m" "unseal (ka_ciphertext a) = Some face"
      "ka_kind a \<in> set (opt_list (gg_kinds req))" "ka_sensitivity a \<le> (case gg_ceiling req of None \<Rightarrow> 1 | Some c \<Rightarrow> c)"
      "\<not> truthy_string (gg_validUntil req)"
  shows "guardian_read H V unseal sovereign vault (Some g) m i t es1 receipts = Some (Read_refused No_Edge, receipts) \<and>
    (\<exists>receipts'. guardian_read H V unseal sovereign vault (Some g) m i t es2 receipts = Some (Face face, receipts')) \<and>
    guardian_read H V unseal sovereign vault (Some g) m i t es3 receipts = Some (Read_refused No_Edge, receipts)"
proof -
  define v1 where "v1 = (proposed_version H g req [])\<lparr>rs_proof := Some pf\<rparr>"
  define v2 where "v2 = v1\<lparr>rs_memberAck := Some pm\<rparr>"
  define v3 where "v3 = (revoking_version H v2)\<lparr>rs_proof := Some pf\<rparr>"
  have f: "rs_version v1 = 1" "rs_previous v1 = None" "rs_subject v1 = Some m" "rs_status v1 = Active" "rs_memberAck v1 = None"
      "rs_actor v1 = g" "rk_kinds (rs_capabilities v1) = Some (opt_list (gg_kinds req))"
      "rs_ceiling v1 = (case gg_ceiling req of None \<Rightarrow> 1 | Some c \<Rightarrow> c)" "rs_validUntil v1 = None"
    using assms(2) scope(6) by (simp_all add: v1_def proposed_version_def head_of_def)
  have s1: "verifyRuleset V v1 = Inr g" using sign [where r = v1 and a = None] f(5) by (simp add: v1_def proposed_version_def)
  have s2: "verifyRuleset V v2 = Inr g" using sign [where r = v2 and a = "Some pm"] by (simp add: v2_def v1_def)
  have "v3 = (revoking_version H v2)\<lparr>rs_proof := Some pf, rs_memberAck := None\<rparr>"
    by (rule signed_ruleset.equality) (simp_all add: v3_def revoking_version_def)
  then have s3: "verifyRuleset V v3 = Inr g" using sign [where r = "revoking_version H v2" and a = None] by simp
  have a2: "verifyMemberAck V v2" using ack [OF f(3)] by (simp add: v2_def)
  have e1: "edge_chain g m es1 = [v1]"
    using grant assms(1-3) unfolding guardian_grant_def
    by (auto simp: v1_def append_version_def Let_def guardianships.chain_put_same [unfolded replaceChain_def])
  have e2: "edge_chain g m es2 = [v2]"
    using acknowledge assms(3,4) e1 unfolding guardian_acknowledge_def
    by (auto simp: v2_def head_of_def Let_def guardianships.chain_put_same)
  have e3: "edge_chain g m es3 = [v2, v3]"
    using revoke assms(3) e2 unfolding guardian_revoke_def
    by (auto simp: v3_def head_of_def append_version_def Let_def guardianships.chain_put_same [unfolded replaceChain_def])
  have o1: "operativeRuleset H V [v1] (Some g) = None" using operative_one [OF s1 f(1-3) assms(3) f(4)] none [OF f(5)] by simp
  have o2: "operativeRuleset H V [v2] (Some g) = Some v2"
    using operative_one [OF s2, of m H] f(1-4) assms(3) a2 by (simp add: v2_def)
  have o3: "operativeRuleset H V [v2, v3] (Some g) = None"
    by (rule operative_revoked [OF s2 _ _ a2 s3]) (use f in \<open>simp_all add: v2_def v3_def revoking_version_def\<close>)
  have r: "guardian_read H V unseal sovereign vault (Some g) m i t es' receipts = Some (Read_refused No_Edge, receipts)"
    if "operativeRuleset H V (edge_chain g m es') (Some g) = None" for es'
    using that assms(3-5) scope(1,2) by (simp add: guardian_read_def guardianRead_def authorizeGuardianRead_def)
  have "authorizeGuardianRead H V [v2] \<lparr>gr_governor = g, gr_subject = m, gr_kind = Some (ka_kind a),
      gr_sensitivity = Some (ka_sensitivity a), gr_at = t\<rparr> = None"
    unfolding authorizeGuardianRead_None using o2 f scope(4,5) by (intro exI [of _ v2]) (simp add: v2_def)
  then have "\<exists>receipts'. guardian_read H V unseal sovereign vault (Some g) m i t es2 receipts = Some (Face face, receipts')"
    using assms(3-5) scope(1-3) e2 by (simp add: guardian_read_def guardianRead_def)
  then show ?thesis using r [of es1] r [of es3] e1 e3 o1 o3 by simp
qed

lemma unacknowledged_first_inoperative:
  assumes "\<not> verifyMemberAck V (hd chain)" "sorted (map rs_version chain)" "chain \<noteq> []" "rs_subject (hd chain) = Some m" "m \<noteq> []"
  shows "operativeRuleset H V chain (Some g) = None"
proof -
  have "by_version chain = chain" using assms(2) by (simp add: by_version_def sorted_sort_id sort_key_id_if_sorted)
  moreover obtain r rs where "chain = r # rs" using assms(3) by (cases chain) auto
  moreover have "widensIntoPrivateScope None (hd chain)" using assms(4,5) by (cases m) (simp_all add: widensIntoPrivateScope_def)
  ultimately show ?thesis using assms(1)
    by (auto simp: operativeRuleset_def operative_step_ok_def Let_def split: sum.split)
qed


text \<open>The edges that the routes can make of \<open>es\<close>, whoever calls them with whatever answers of the members' Signets.\<close>

inductive guardian_runs :: "hash \<Rightarrow> (signed_ruleset \<Rightarrow> signed_ruleset option) \<Rightarrow> edges \<Rightarrow> edges \<Rightarrow> bool" for H sign where
  start: "guardian_runs H sign es es"
| granted: "guardian_runs H sign es es' \<Longrightarrow> no_bar v \<Longrightarrow> guardian_grant H sign household (Some v) req es' = Some es'' \<Longrightarrow>
    guardian_runs H sign es es''"
| acknowledged: "guardian_runs H sign es es' \<Longrightarrow> no_bar d \<Longrightarrow> guardian_acknowledge ack (Some v) d es' = Some es'' \<Longrightarrow>
    guardian_runs H sign es es''"
| ended: "guardian_runs H sign es es' \<Longrightarrow> no_bar v \<Longrightarrow> guardian_revoke H sign (Some v) subject es' = Some es'' \<Longrightarrow>
    guardian_runs H sign es es''"

definition dead_chain :: "(json \<Rightarrow> bool) \<Rightarrow> did \<Rightarrow> signed_ruleset list \<Rightarrow> bool" where
  "dead_chain V m chain \<longleftrightarrow> length chain \<ge> 2 \<and> \<not> verifyMemberAck V (hd chain) \<and> rs_subject (hd chain) = Some m \<and>
     sorted (map rs_version chain)"

lemma dead_chain_append:
  "dead_chain V m chain \<Longrightarrow> rs_version v \<ge> rs_version (last chain) \<Longrightarrow> dead_chain V m (chain @ [v])"
proof -
  assume d: "dead_chain V m chain" "rs_version v \<ge> rs_version (last chain)"
  have "x \<le> rs_version v" if "x \<in> set (map rs_version chain)" for x
  proof -
    have "x \<le> last (map rs_version chain)"
      using d(1) that by (cases chain rule: rev_cases) (auto simp: dead_chain_def sorted_append)
    then show ?thesis using d that by (cases chain rule: rev_cases) auto
  qed
  then show ?thesis using d(1) by (auto simp: dead_chain_def sorted_append hd_append)
qed

lemma dead_chain_acked: "dead_chain V m chain \<Longrightarrow> rs_version h = rs_version (last chain) \<Longrightarrow> dead_chain V m (butlast chain @ [h])"
proof (cases chain rule: rev_cases)
  case (snoc xs x)
  assume "dead_chain V m chain" "rs_version h = rs_version (last chain)"
  then show ?thesis using snoc by (cases xs) (auto simp: dead_chain_def sorted_append)
qed (simp add: dead_chain_def)

lemma dead_edge_step:
  assumes "edge_chain g m es' = edge_chain g m es \<or>
      (\<exists>v. edge_chain g m es' = edge_chain g m es @ [v] \<and> rs_version v \<ge> rs_version (last (edge_chain g m es))) \<or>
      (\<exists>h. edge_chain g m es' = butlast (edge_chain g m es) @ [h] \<and> rs_version h = rs_version (last (edge_chain g m es)))"
    and "dead_chain V m (edge_chain g m es)"
  shows "dead_chain V m (edge_chain g m es')"
  using assms dead_chain_append dead_chain_acked by metis

lemma edge_after_put:
  "no_bar g \<Longrightarrow> no_bar v \<Longrightarrow> edge_chain g m (replaceChain v s c es) = (if g = v \<and> m = s then c else edge_chain g m es)"
  using guardianships.chain_put_same guardianships.chain_put_other by (metis prod.inject)

text \<open>
  A second proposal made before the first is acknowledged kills the edge: only the newest version can be
  acknowledged while the walk stops at the first, so whatever is granted, acknowledged or revoked later, the governor
  has no operative guardianship over the member again.\<close>

theorem double_proposal_kills_edge:
  assumes "guardian_runs H sign es es'" "dead_chain V m (edge_chain g m es)" "no_bar g" "m \<noteq> []"
    and "\<And>r r'. sign r = Some r' \<Longrightarrow> rs_version r' = rs_version r"
  shows "operativeRuleset H V (edge_chain g m es') (Some g) = None"
proof -
  have "dead_chain V m (edge_chain g m es')"
    using assms(1,2)
  proof (induction rule: guardian_runs.induct)
    case (granted es es' v household req es'')
    obtain signed where "es'' = append_version v (gg_subject req) signed es'"
        "sign (proposed_version H v req (edge_chain v (gg_subject req) es')) = Some signed"
      using granted.hyps(3) by (auto simp: guardian_grant_def Let_def split: if_splits option.splits)
    then have "edge_chain g m es'' = edge_chain g m es' \<or> (\<exists>w. edge_chain g m es'' = edge_chain g m es' @ [w] \<and>
        rs_version w \<ge> rs_version (last (edge_chain g m es')))"
      using edge_after_put [OF assms(3) granted.hyps(2), unfolded replaceChain_def] granted.IH granted.prems assms(5)
      by (auto simp: append_version_def proposed_version_def head_of_def dead_chain_def)
    then show ?case using dead_edge_step granted.IH granted.prems by blast
  next
    case (acknowledged es es' d ack v es'')
    then have "edge_chain g m es'' = edge_chain g m es' \<or> (\<exists>h. edge_chain g m es'' = butlast (edge_chain g m es') @ [h] \<and>
        rs_version h = rs_version (last (edge_chain g m es')))"
      using edge_after_put [OF assms(3) acknowledged.hyps(2)]
      by (auto simp: guardian_acknowledge_def head_of_def Let_def split: if_splits option.splits)
    then show ?case using dead_edge_step acknowledged.IH acknowledged.prems by blast
  next
    case (ended es es' v subject es'')
    obtain signed where "es'' = append_version v subject signed es'"
        "sign (revoking_version H (last (edge_chain v subject es'))) = Some signed"
      using ended.hyps(3) by (auto simp: guardian_revoke_def head_of_def Let_def split: if_splits option.splits)
    then have "edge_chain g m es'' = edge_chain g m es' \<or> (\<exists>w. edge_chain g m es'' = edge_chain g m es' @ [w] \<and>
        rs_version w \<ge> rs_version (last (edge_chain g m es')))"
      using edge_after_put [OF assms(3) ended.hyps(2), unfolded replaceChain_def] assms(5)
      by (auto simp: append_version_def revoking_version_def)
    then show ?case using dead_edge_step ended.IH ended.prems by blast
  qed simp
  then show ?thesis
    by (intro unacknowledged_first_inoperative [where m = m]) (use assms(4) in \<open>auto simp: dead_chain_def\<close>)
qed

end
