(* ===== verification/Guardian_Example.thy ===== *)
theory Guardian_Example
  imports Guardianship Ruleset_Example
begin

text \<open>Concrete edges and the witnesses of the properties of \<open>Guardianship\<close>: \<open>G\<close> watches \<open>M\<close>.\<close>

definition gx_artefact :: kb_artefact where
  "gx_artefact = \<lparr>ka_id = ''a1'', ka_kind = ''location'', ka_observedAt = ''2025'', ka_storedAt = ''2025'', ka_sensitivity = 1,
     ka_ciphertext = ''c'', ka_sealedTo = None, ka_kb = None, ka_contributor = None, ka_docKey = None, ka_locus = (\<lambda>_. None),
     ka_owner = Some ''M'', ka_scope = Some ''private'', ka_witness = None, ka_needsConfirm = False, ka_description = None, ka_meta = Map.empty\<rparr>"

definition gx_request :: grant_request where
  "gx_request = \<lparr>gg_subject = ''M'', gg_kinds = Some [''location''], gg_ceiling = Some 1, gg_validUntil = None\<rparr>"

abbreviation gx_sign :: "signed_ruleset \<Rightarrow> signed_ruleset option" where
  "gx_sign \<equiv> \<lambda>r. Some (r\<lparr>rs_proof := Some (rx_proof ''G'')\<rparr>)"

lemma gx_signed: "verifyRuleset rx_V (r\<lparr>rs_proof := Some (rx_proof ''G''), rs_memberAck := a\<rparr>) = Inr ''G''"
  by (simp add: verifyRuleset_def rx_proof_def proof_signer_def before_hash_def)

lemma gx_acked: "rs_subject r = Some ''M'' \<Longrightarrow> verifyMemberAck rx_V (r\<lparr>rs_memberAck := Some (rx_proof ''M'')\<rparr>)"
  by (simp add: verifyMemberAck_def rx_proof_def proof_signer_def before_hash_def)

lemma gx_unacked: "rs_memberAck r = None \<Longrightarrow> \<not> verifyMemberAck rx_V r"
  by (simp add: verifyMemberAck_def)

definition gx_granted :: edges where
  "gx_granted = the (guardian_grant id gx_sign (Some ''G'') (Some ''G'') gx_request [])"

definition gx_active :: edges where
  "gx_active = the (guardian_acknowledge (\<lambda>_. Some (rx_proof ''M'')) (Some ''M'') ''G'' gx_granted)"

definition gx_ended :: edges where
  "gx_ended = the (guardian_revoke id gx_sign (Some ''G'') ''M'' gx_active)"

lemma gx_grant: "guardian_grant id gx_sign (Some ''G'') (Some ''G'') gx_request [] = Some gx_granted"
  by (simp add: gx_granted_def guardian_grant_def gx_request_def Let_def)

lemma gx_chain: "edge_chain ''G'' ''M'' gx_granted = [(proposed_version id ''G'' gx_request [])\<lparr>rs_proof := Some (rx_proof ''G'')\<rparr>]"
  by (simp add: gx_granted_def guardian_grant_def gx_request_def Let_def append_version_def edge_chain_def opt_list_def edgeKey_def)

lemma gx_acknowledge: "guardian_acknowledge (\<lambda>_. Some (rx_proof ''M'')) (Some ''M'') ''G'' gx_granted = Some gx_active"
  unfolding gx_active_def using gx_chain by (simp add: guardian_acknowledge_def head_of_def Let_def)

lemma gx_revoke: "guardian_revoke id gx_sign (Some ''G'') ''M'' gx_active = Some gx_ended"
proof -
  have "edge_chain ''G'' ''M'' gx_active \<noteq> []"
    unfolding gx_active_def using gx_chain
    by (simp add: guardian_acknowledge_def head_of_def Let_def guardianships.chain_put_same)
  then show ?thesis by (simp add: gx_ended_def guardian_revoke_def head_of_def Let_def)
qed

lemma gx_scope:
  "vault_get ''a1'' [gx_artefact] = Some gx_artefact" "artefact_owner None gx_artefact = Some ''M''"
  by (simp_all add: vault_get_def get_by_def gx_artefact_def artefact_owner_def)

lemma guardianship_lifecycle_witness:
  "guardian_read id rx_V Some None [gx_artefact] (Some ''G'') ''M'' ''a1'' ''2026'' gx_granted [] = Some (Read_refused No_Edge, []) \<and>
   (\<exists>receipts'. guardian_read id rx_V Some None [gx_artefact] (Some ''G'') ''M'' ''a1'' ''2026'' gx_active [] = Some (Face ''c'', receipts')) \<and>
   guardian_read id rx_V Some None [gx_artefact] (Some ''G'') ''M'' ''a1'' ''2026'' gx_ended [] = Some (Read_refused No_Edge, [])"
  by (rule guardianship_lifecycle [OF _ _ _ _ _ gx_signed gx_acked gx_unacked gx_grant gx_acknowledge gx_revoke gx_scope])
    (simp_all add: edge_chain_def opt_list_def gx_request_def gx_artefact_def)

definition gx_version :: signed_ruleset where
  "gx_version = (proposed_version id ''G'' gx_request [])\<lparr>rs_proof := Some (rx_proof ''G''), rs_memberAck := Some (rx_proof ''M'')\<rparr>"

lemma gx_active_chain: "edge_chain ''G'' ''M'' gx_active = [gx_version]"
  unfolding gx_active_def gx_version_def using gx_chain
  by (simp add: guardian_acknowledge_def head_of_def Let_def guardianships.chain_put_same)

lemma gx_version_fields:
  "rs_version gx_version = 1" "rs_previous gx_version = None" "rs_subject gx_version = Some ''M''" "rs_status gx_version = Active"
  "rs_actor gx_version = ''G''" "rk_kinds (rs_capabilities gx_version) = Some [''location'']" "rs_ceiling gx_version = 1"
  "rs_validUntil gx_version = None"
  by (simp_all add: gx_version_def proposed_version_def head_of_def gx_request_def opt_list_def)

lemma gx_operative: "operativeRuleset id rx_V [gx_version] (Some ''G'') = Some gx_version"
proof -
  have "verifyRuleset rx_V gx_version = Inr ''G''" unfolding gx_version_def by (rule gx_signed)
  moreover have "verifyMemberAck rx_V gx_version"
    unfolding gx_version_def by (rule gx_acked) (simp add: proposed_version_def gx_request_def)
  ultimately show ?thesis using operative_one [of rx_V gx_version "''G''" "''M''" id] gx_version_fields by simp
qed

lemma gx_read:
  "guardian_read id rx_V Some None [gx_artefact] (Some ''G'') ''M'' ''a1'' ''2026'' gx_active [] =
     Some (Face ''c'', [\<lparr>gp_guardian = ''G'', gp_subject = ''M'', gp_artefactId = ''a1'', gp_kind = ''location'', gp_at = ''2026''\<rparr>])"
proof -
  have "authorizeGuardianRead id rx_V [gx_version] \<lparr>gr_governor = ''G'', gr_subject = ''M'', gr_kind = Some ''location'',
      gr_sensitivity = Some 1, gr_at = ''2026''\<rparr> = None"
    unfolding authorizeGuardianRead_None using gx_operative gx_version_fields by simp
  then show ?thesis using gx_scope
    by (simp add: guardian_read_def guardianRead_def gx_active_chain record_receipt_def gx_artefact_def)
qed

lemma guardian_read_conspicuous_witness:
  "\<exists>ag. ag \<in> set (activeGuardianships id rx_V gx_active ''M'') \<and> Some (ag_governor ag) = Some ''G''"
  using guardian_read_conspicuous [OF gx_read] by blast

definition gx_twice :: edges where
  "gx_twice = the (guardian_grant id gx_sign (Some ''G'') (Some ''G'') gx_request gx_granted)"

lemma gx_grant_twice: "guardian_grant id gx_sign (Some ''G'') (Some ''G'') gx_request gx_granted = Some gx_twice"
  by (simp add: gx_twice_def guardian_grant_def gx_request_def Let_def)

lemma gx_dead: "dead_chain rx_V ''M'' (edge_chain ''G'' ''M'' gx_twice)"
  using gx_chain
  by (simp add: gx_twice_def guardian_grant_def gx_request_def Let_def append_version_def dead_chain_def
      guardianships.chain_put_same [unfolded replaceChain_def] verifyMemberAck_def proposed_version_def head_of_def)

lemma refusal_reveals_existence_witness:
  "fst (guardianRead id rx_V Some None [gx_artefact] (edge_chain ''X'' ''M'' []) ''X'' ''M'' ''a1'' ''2026'' []) = Read_refused No_Edge"
proof -
  have "operativeRuleset id rx_V (edge_chain ''X'' ''M'' []) (Some ''X'') = None"
    by (simp add: edge_chain_def opt_list_def operativeRuleset_def by_version_def)
  from refusal_reveals_existence [OF this, of Some None "[gx_artefact]" "''a1''"] show ?thesis using gx_scope by simp
qed

lemma double_proposal_kills_edge_witness:
  "operativeRuleset id rx_V (edge_chain ''G'' ''M'' (the (guardian_acknowledge (\<lambda>_. Some (rx_proof ''M'')) (Some ''M'') ''G'' gx_twice)))
     (Some ''G'') = None"
proof -
  have "edge_chain ''G'' ''M'' gx_twice \<noteq> []" using gx_dead by (auto simp: dead_chain_def)
  then obtain es where es: "guardian_acknowledge (\<lambda>_. Some (rx_proof ''M'')) (Some ''M'') ''G'' gx_twice = Some es"
    by (simp add: guardian_acknowledge_def head_of_def Let_def)
  have "guardian_runs id gx_sign gx_twice es"
    by (rule guardian_runs.acknowledged [OF guardian_runs.start _ es]) (simp add: no_bar_def)
  from double_proposal_kills_edge [OF this gx_dead] show ?thesis using es by (auto simp: no_bar_def)
qed

end
