(* ===== verification/Allocation.thy ===== *)
theory Allocation
  imports Prelude "HOL-Library.AList"
begin

text \<open>
  Status-list indices: \<open>packages/core/src/allocation.ts\<close>. \<open>allocateIndex\<close> runs in steps between its awaits, so several
  allocations interleave over one asset; the test seam \<open>beforeWrite\<close> is such an interleaving. The asset holds the
  version and the record, \<^const>\<open>None\<close> when it is missing, malformed or cannot be unsealed. The Gatekeeper accepts or
  rejects a write, or applies it while the caller sees a failure.
\<close>

section \<open>The record\<close>

type_synonym allocations = "(string \<times> int) list"

record allocation_asset =
  as_version :: int
  as_body :: "allocations option"

text \<open>\<open>v\<close> is the version the node gives to a new asset.\<close>

definition createAllocationRecord :: "int \<Rightarrow> allocation_asset" where
  "createAllocationRecord v = \<lparr>as_version = v, as_body = Some []\<rparr>"

datatype alloc_error = Malformed | Exhausted | Version_conflicts | Write_conflicts | Verification_failed

definition readRecord :: "allocation_asset \<Rightarrow> alloc_error + allocations \<times> int" where
  "readRecord asset = (case as_body asset of None \<Rightarrow> Inl Malformed | Some b \<Rightarrow> Inr (b, as_version asset))"

definition lookupIndex :: "string \<Rightarrow> allocation_asset \<Rightarrow> alloc_error + int option" where
  "lookupIndex i asset = (case readRecord asset of Inl e \<Rightarrow> Inl e | Inr (b, _) \<Rightarrow> Inr (map_of b i))"

text \<open>\<open>draws\<close> are the answers of \<open>randomInt\<close>, of which the source takes 100000.\<close>

definition pickFree :: "int list \<Rightarrow> int set \<Rightarrow> int \<Rightarrow> int option" where
  "pickFree draws used space =
     (if int (card used) \<ge> space then None
      else case List.find (\<lambda>i. i \<notin> used) draws of
        Some i \<Rightarrow> Some i
      | None \<Rightarrow> List.find (\<lambda>i. i \<notin> used) [0..space - 1])"

section \<open>One allocation\<close>

datatype alloc_phase =
    Reading
  | Picked allocations int int
  | Writing int allocations int
  | Verifying int
  | Allocated int
  | Aborted alloc_error

record allocator =
  al_id :: string
  al_attempt :: int
  al_phase :: alloc_phase

datatype write_outcome = Accepted | Rejected | Applied_but_threw

definition allocateIndex :: "string \<Rightarrow> allocator" where
  "allocateIndex i = \<lparr>al_id = i, al_attempt = 1, al_phase = Reading\<rparr>"

definition retry :: "int \<Rightarrow> alloc_error \<Rightarrow> allocator \<Rightarrow> allocator" where
  "retry maxRetries e a =
     (if al_attempt a > maxRetries then a\<lparr>al_phase := Aborted e\<rparr>
      else a\<lparr>al_attempt := al_attempt a + 1, al_phase := Reading\<rparr>)"

definition read_step :: "int \<Rightarrow> int list \<Rightarrow> allocation_asset \<Rightarrow> string \<Rightarrow> alloc_phase" where
  "read_step space draws asset i =
     (case readRecord asset of
        Inl e \<Rightarrow> Aborted e
      | Inr (b, version) \<Rightarrow>
          (case map_of b i of
             Some index \<Rightarrow> Allocated index
           | None \<Rightarrow>
               (case pickFree draws (set (map snd b)) space of
                  None \<Rightarrow> Aborted Exhausted
                | Some index \<Rightarrow> Picked b version index)))"

definition mergeData :: "allocations \<Rightarrow> allocation_asset \<Rightarrow> allocation_asset" where
  "mergeData b asset = \<lparr>as_version = as_version asset + 1, as_body = Some b\<rparr>"

definition verified :: "string \<Rightarrow> int \<Rightarrow> allocations \<Rightarrow> bool" where
  "verified i index b \<longleftrightarrow> map_of b i = Some index \<and> length (filter (\<lambda>v. v = index) (map snd b)) = 1"

definition alloc_step ::
  "int \<Rightarrow> int \<Rightarrow> int list \<Rightarrow> write_outcome \<Rightarrow> allocator \<Rightarrow> allocation_asset \<Rightarrow> allocator \<times> allocation_asset" where
  "alloc_step space maxRetries draws outcome a asset =
     (case al_phase a of
        Reading \<Rightarrow> (a\<lparr>al_phase := read_step space draws asset (al_id a)\<rparr>, asset)
      | Picked b version index \<Rightarrow>
          (if as_version asset \<noteq> version then retry maxRetries Version_conflicts a
           else a\<lparr>al_phase := Writing version (AList.update (al_id a) index b) index\<rparr>, asset)
      | Writing _ b index \<Rightarrow>
          (case outcome of
             Accepted \<Rightarrow> (a\<lparr>al_phase := Verifying index\<rparr>, mergeData b asset)
           | Rejected \<Rightarrow> (retry maxRetries Write_conflicts a, asset)
           | Applied_but_threw \<Rightarrow> (retry maxRetries Write_conflicts a, mergeData b asset))
      | Verifying index \<Rightarrow>
          ((case readRecord asset of
              Inl e \<Rightarrow> a\<lparr>al_phase := Aborted e\<rparr>
            | Inr (b, _) \<Rightarrow>
                if verified (al_id a) index b then a\<lparr>al_phase := Allocated index\<rparr>
                else retry maxRetries Verification_failed a), asset)
      | _ \<Rightarrow> (a, asset))"

definition settled :: "allocator \<Rightarrow> bool" where
  "settled a \<longleftrightarrow> (case al_phase a of Allocated _ \<Rightarrow> True | Aborted _ \<Rightarrow> True | _ \<Rightarrow> False)"

section \<open>Choosing a free index\<close>

lemma find_None_all: "List.find P xs = None \<longleftrightarrow> (\<forall>x\<in>set xs. \<not> P x)"
  by (induction xs) auto

lemma find_Some_in: "List.find P xs = Some x \<Longrightarrow> x \<in> set xs \<and> P x"
  by (induction xs) (auto split: if_splits)

text \<open>The last throw of \<open>pickFree\<close> is unreachable.\<close>

lemma pickFree_None: "finite used \<Longrightarrow> pickFree draws used space = None \<longleftrightarrow> int (card used) \<ge> space"
proof (cases "int (card used) \<ge> space")
  case False
  assume "finite used"
  then have "card {0..space - 1} > card used" using False by simp
  then have "\<not> {0..space - 1} \<subseteq> used" using \<open>finite used\<close> card_mono by (metis linorder_not_le)
  then have "List.find (\<lambda>i. i \<notin> used) [0..space - 1] \<noteq> None" by (auto simp: find_None_all)
  then show ?thesis using False by (auto simp: pickFree_def split: option.split)
qed (simp add: pickFree_def)

lemma pickFree_Some:
  "pickFree draws used space = Some i \<Longrightarrow> set draws \<subseteq> {0..<space} \<Longrightarrow> i \<notin> used \<and> 0 \<le> i \<and> i < space"
  unfolding pickFree_def by (auto split: if_splits option.splits dest!: find_Some_in)


section \<open>Many allocations\<close>

text \<open>
  \<open>accepts v h\<close> tells that the node may apply, at head \<open>h\<close>, the write of a caller who checked version \<open>v\<close>. Any
  allocation may take the next step.
\<close>

definition applied :: "write_outcome \<Rightarrow> bool" where
  "applied w \<longleftrightarrow> w \<noteq> Rejected"

definition write_allowed :: "(int \<Rightarrow> int \<Rightarrow> bool) \<Rightarrow> write_outcome \<Rightarrow> allocator \<Rightarrow> allocation_asset \<Rightarrow> bool" where
  "write_allowed accepts w a asset \<longleftrightarrow>
     (case al_phase a of Writing v _ _ \<Rightarrow> applied w \<longrightarrow> accepts v (as_version asset) | _ \<Rightarrow> True)"

inductive alloc_runs ::
  "int \<Rightarrow> int \<Rightarrow> (int \<Rightarrow> int \<Rightarrow> bool) \<Rightarrow> allocation_asset \<times> allocator list \<Rightarrow> allocation_asset \<times> allocator list \<Rightarrow> bool"
  for space maxRetries accepts where
  start: "alloc_runs space maxRetries accepts s s"
| step: "alloc_runs space maxRetries accepts s (asset, as) \<Longrightarrow> k < length as \<Longrightarrow> set draws \<subseteq> {0..<space} \<Longrightarrow>
    write_allowed accepts outcome (as ! k) asset \<Longrightarrow>
    alloc_step space maxRetries draws outcome (as ! k) asset = (a', asset') \<Longrightarrow>
    alloc_runs space maxRetries accepts s (asset', as[k := a'])"

text \<open>A sound record: one index per recognition, one recognition per index, all in the space.\<close>

definition record_ok :: "int \<Rightarrow> allocations \<Rightarrow> bool" where
  "record_ok space b \<longleftrightarrow> distinct (map fst b) \<and> distinct (map snd b) \<and> set (map snd b) \<subseteq> {0..<space}"

text \<open>What a step may assume of the record \<open>b\<close> at version \<open>h\<close>, phase by phase.\<close>

definition fresh_choice :: "int \<Rightarrow> string \<Rightarrow> allocations \<Rightarrow> int \<Rightarrow> bool" where
  "fresh_choice space i b index \<longleftrightarrow> map_of b i = None \<and> index \<notin> set (map snd b) \<and> 0 \<le> index \<and> index < space"

definition phase_ok :: "int \<Rightarrow> string \<Rightarrow> alloc_phase \<Rightarrow> int \<Rightarrow> allocations \<Rightarrow> bool" where
  "phase_ok space i p h b \<longleftrightarrow>
     (case p of
        Picked b' v index \<Rightarrow> v \<le> h \<and> (v = h \<longrightarrow> b' = b \<and> fresh_choice space i b index)
      | Writing v b' index \<Rightarrow> v \<le> h \<and> (v = h \<longrightarrow> b' = AList.update i index b \<and> fresh_choice space i b index)
      | Verifying index \<Rightarrow> map_of b i = Some index
      | Allocated index \<Rightarrow> map_of b i = Some index
      | _ \<Rightarrow> True)"

lemma phase_ok_simps:
  "phase_ok space i (Writing v b' index) h b \<longleftrightarrow> v \<le> h \<and> (v = h \<longrightarrow> b' = AList.update i index b \<and> fresh_choice space i b index)"
  "phase_ok space i (Picked b' v index) h b \<longleftrightarrow> v \<le> h \<and> (v = h \<longrightarrow> b' = b \<and> fresh_choice space i b index)"
  "phase_ok space i (Verifying index) h b \<longleftrightarrow> map_of b i = Some index"
  "phase_ok space i (Allocated index) h b \<longleftrightarrow> map_of b i = Some index"
  by (simp_all add: phase_ok_def)

definition alloc_sound :: "int \<Rightarrow> allocation_asset \<times> allocator list \<Rightarrow> bool" where
  "alloc_sound space s \<longleftrightarrow> (\<exists>b. as_body (fst s) = Some b \<and> record_ok space b \<and>
     (\<forall>a\<in>set (snd s). phase_ok space (al_id a) (al_phase a) (as_version (fst s)) b))"

lemma update_fresh: "map_of b i = None \<Longrightarrow> AList.update i x b = b @ [(i, x)]"
  by (induction b) (auto split: if_splits)

lemma record_ok_update:
  "record_ok space b \<Longrightarrow> fresh_choice space i b index \<Longrightarrow> record_ok space (AList.update i index b)"
  by (auto simp: record_ok_def fresh_choice_def update_fresh map_of_eq_None_iff image_iff)

text \<open>An accepted write at the head advances it and keeps what every other allocation relies on.\<close>

lemma phase_ok_write:
  assumes "phase_ok space i p h b" "fresh_choice space j b index"
  shows "phase_ok space i p (h + 1) (AList.update j index b)"
proof -
  have "map_of (AList.update j index b) i = Some v" if "map_of b i = Some v" for v
    using that assms(2) by (auto simp: fresh_choice_def update_conv')
  then show ?thesis using assms(1) by (auto simp: phase_ok_def split: alloc_phase.splits)
qed

lemma phase_ok_read:
  assumes "set draws \<subseteq> {0..<space}" "as_body asset = Some b"
  shows "phase_ok space i (read_step space draws asset i) (as_version asset) b"
proof (cases "map_of b i")
  case None
  show ?thesis
  proof (cases "pickFree draws (set (map snd b)) space")
    case (Some index)
    with None pickFree_Some [OF Some assms(1)] assms(2) show ?thesis
      by (simp add: read_step_def readRecord_def phase_ok_def fresh_choice_def)
  qed (use None assms(2) in \<open>simp add: read_step_def readRecord_def phase_ok_def\<close>)
qed (use assms(2) in \<open>simp add: read_step_def readRecord_def phase_ok_def\<close>)

lemma phase_ok_retry: "phase_ok space i (al_phase (retry maxRetries e a)) h b"
  by (simp add: retry_def phase_ok_def)

lemma al_id_retry [simp]: "al_id (retry maxRetries e a) = al_id a"
  by (simp add: retry_def)

lemma al_id_step: "alloc_step space maxRetries draws w a asset = (a', asset') \<Longrightarrow> al_id a' = al_id a"
  by (auto simp: alloc_step_def split: alloc_phase.splits write_outcome.splits sum.splits if_splits prod.splits)

text \<open>A step either leaves the asset alone or writes a fresh choice to it.\<close>

lemma alloc_step_ok:
  assumes ok: "phase_ok space (al_id a) (al_phase a) (as_version asset) b" "as_body asset = Some b" "record_ok space b"
    and w: "set draws \<subseteq> {0..<space}" "write_allowed accepts w a asset" "\<And>v h. accepts v h \<Longrightarrow> v = h"
    and s: "alloc_step space maxRetries draws w a asset = (a', asset')"
  shows "\<exists>b'. as_body asset' = Some b' \<and> record_ok space b' \<and> phase_ok space (al_id a') (al_phase a') (as_version asset') b' \<and>
    (asset' = asset \<or> (\<exists>j index. fresh_choice space j b index \<and> b' = AList.update j index b \<and> as_version asset' = as_version asset + 1))"
proof (cases "al_phase a")
  case (Writing v b1 index)
  show ?thesis
  proof (cases "applied w")
    case True
    then have v: "v = as_version asset" using w(2,3) Writing by (simp add: write_allowed_def)
    then have f: "b1 = AList.update (al_id a) index b" "fresh_choice space (al_id a) b index"
      using ok(1) Writing by (simp_all add: phase_ok_def)
    have a': "asset' = mergeData b1 asset" "a' = a\<lparr>al_phase := Verifying index\<rparr> \<or> a' = retry maxRetries Write_conflicts a"
      using s Writing True by (auto simp: alloc_step_def applied_def split: write_outcome.splits)
    have "map_of b1 (al_id a) = Some index" using f(1) by (simp add: update_conv')
    then have "phase_ok space (al_id a') (al_phase a') (as_version asset') b1"
      using a'(2) phase_ok_retry by (auto simp: phase_ok_simps)
    then show ?thesis using f a'(1) record_ok_update [OF ok(3) f(2)] by (auto simp: mergeData_def)
  next
    case False
    then show ?thesis using s Writing ok(2,3) phase_ok_retry by (auto simp: alloc_step_def applied_def)
  qed
next
  case Reading
  then show ?thesis using s ok(2,3) phase_ok_read [OF w(1) ok(2)] by (auto simp: alloc_step_def)
next
  case (Picked b1 v index)
  then show ?thesis using s ok phase_ok_retry
    by (auto simp: alloc_step_def phase_ok_simps split: if_splits)
next
  case (Verifying index)
  then show ?thesis using s ok phase_ok_retry
    by (auto simp: alloc_step_def readRecord_def verified_def phase_ok_simps split: if_splits)
qed (use s ok in \<open>auto simp: alloc_step_def\<close>)

lemma alloc_sound_step:
  assumes "alloc_sound space (asset, as)" "k < length as" "set draws \<subseteq> {0..<space}" "write_allowed accepts w (as ! k) asset"
    and "\<And>v h. accepts v h \<Longrightarrow> v = h" "alloc_step space maxRetries draws w (as ! k) asset = (a', asset')"
  shows "alloc_sound space (asset', as[k := a'])"
proof -
  obtain b where b: "as_body asset = Some b" "record_ok space b" "\<forall>a\<in>set as. phase_ok space (al_id a) (al_phase a) (as_version asset) b"
    using assms(1) by (auto simp: alloc_sound_def)
  obtain b' where b': "as_body asset' = Some b'" "record_ok space b'" "phase_ok space (al_id a') (al_phase a') (as_version asset') b'"
      "asset' = asset \<or> (\<exists>j index. fresh_choice space j b index \<and> b' = AList.update j index b \<and> as_version asset' = as_version asset + 1)"
    using alloc_step_ok [OF _ b(1,2) assms(3-6)] b(3) assms(2) nth_mem by metis
  have "phase_ok space (al_id a) (al_phase a) (as_version asset') b'" if "a \<in> set as" for a
    using b'(4) b(1,3) b'(1) that phase_ok_write by fastforce
  then show ?thesis using b' set_update_subset_insert [of as k a'] by (auto simp: alloc_sound_def)
qed

lemma alloc_runs_sound:
  assumes "alloc_runs space maxRetries accepts s s'" "alloc_sound space s" "\<And>v h. accepts v h \<Longrightarrow> v = h"
  shows "alloc_sound space s'"
  using assms(1,2)
proof (induction rule: alloc_runs.induct)
  case (step s asset as k draws outcome a' asset')
  then show ?case using alloc_sound_step assms(3) by blast
qed

lemma allocated_stays:
  "alloc_runs space maxRetries accepts s s' \<Longrightarrow> a \<in> set (snd s) \<Longrightarrow> settled a \<Longrightarrow> a \<in> set (snd s')"
proof (induction rule: alloc_runs.induct)
  case (step s asset as k draws outcome a' asset')
  then have "a \<in> set as" by simp
  then obtain j where j: "j < length as" "as ! j = a" by (auto simp: in_set_conv_nth)
  have "j = k \<Longrightarrow> a' = a"
    using step.hyps(5) j step.prems(2) by (auto simp: alloc_step_def settled_def split: alloc_phase.splits)
  then have "as[k := a'] ! j = a" using j by (cases "j = k") auto
  then show ?case using j by (metis nth_mem length_list_update snd_conv)
qed simp

lemma distinct_snd_inj:
  assumes "distinct (map snd b)" "map_of b i = Some x" "map_of b j = Some x"
  shows "i = j"
proof -
  have "(i, x) \<in> set b" "(j, x) \<in> set b" using assms(2,3) map_of_SomeD by fast+
  then show ?thesis using assms(1) by (metis (no_types) distinct_map inj_onD prod.inject snd_conv)
qed


section \<open>An allocation ends\<close>

text \<open>The state of the asset at each step is whatever the others made of it.\<close>

fun own_steps :: "int \<Rightarrow> int \<Rightarrow> (int list \<times> write_outcome \<times> allocation_asset) list \<Rightarrow> allocator \<Rightarrow> allocator" where
  "own_steps space maxRetries [] a = a"
| "own_steps space maxRetries ((draws, w, asset) # rest) a =
     own_steps space maxRetries rest (fst (alloc_step space maxRetries draws w a asset))"

definition alloc_measure :: "int \<Rightarrow> allocator \<Rightarrow> nat" where
  "alloc_measure maxRetries a = 4 * nat (maxRetries + 1 - al_attempt a) +
     (case al_phase a of Reading \<Rightarrow> 4 | Picked _ _ _ \<Rightarrow> 3 | Writing _ _ _ \<Rightarrow> 2 | Verifying _ \<Rightarrow> 1 | _ \<Rightarrow> 0)"

lemma retry_decreases:
  "settled (retry maxRetries e a) \<or> alloc_measure maxRetries (retry maxRetries e a) \<le> 4 * nat (maxRetries + 1 - al_attempt a)"
  by (auto simp: retry_def settled_def alloc_measure_def)

lemma step_settles_or_decreases:
  assumes "\<not> settled a" "a' = fst (alloc_step space maxRetries draws w a asset)"
  shows "settled a' \<or> alloc_measure maxRetries a' < alloc_measure maxRetries a"
proof (cases "\<exists>e. a' = retry maxRetries e a")
  case True
  moreover have "4 * nat (maxRetries + 1 - al_attempt a) < alloc_measure maxRetries a"
    using assms(1) by (auto simp: alloc_measure_def settled_def split: alloc_phase.splits)
  ultimately show ?thesis using retry_decreases by (metis order_le_less_trans)
next
  case False
  then show ?thesis using assms
    by (auto simp: alloc_step_def read_step_def alloc_measure_def settled_def
        split: alloc_phase.splits write_outcome.splits sum.splits option.splits if_splits)
qed

lemma settled_own_steps: "settled a \<Longrightarrow> own_steps space maxRetries xs a = a"
  by (induction xs) (auto simp: alloc_step_def settled_def split: alloc_phase.splits)

lemma own_steps_settle:
  "length xs \<ge> alloc_measure maxRetries a \<Longrightarrow> settled (own_steps space maxRetries xs a)"
proof (induction xs arbitrary: a)
  case Nil
  then show ?case by (auto simp: alloc_measure_def settled_def split: alloc_phase.splits)
next
  case (Cons x xs)
  obtain draws w asset where x: "x = (draws, w, asset)" by (cases x)
  let ?a = "fst (alloc_step space maxRetries draws w a asset)"
  show ?case
  proof (cases "settled a")
    case False
    then have "settled ?a \<or> alloc_measure maxRetries ?a < alloc_measure maxRetries a" by (rule step_settles_or_decreases) simp
    then show ?thesis using Cons settled_own_steps [of ?a] by (auto simp: x)
  qed (simp add: settled_own_steps)
qed

text \<open>
  An allocation returns or throws within four own steps for each attempt, whatever the other allocations, the
  node and the random numbers do.\<close>

theorem allocation_ends:
  assumes "length xs \<ge> 4 * (nat maxRetries + 1)"
  shows "settled (own_steps space maxRetries xs (allocateIndex i))"
  by (rule own_steps_settle) (use assms in \<open>simp add: alloc_measure_def allocateIndex_def\<close>)

section \<open>The check before the write\<close>

lemmas alloc_step_simps = alloc_step_def allocateIndex_def createAllocationRecord_def read_step_def readRecord_def pickFree_def
  mergeData_def verified_def write_allowed_def retry_def

text \<open>A schedule: who steps, with which draws and which answer of the node.\<close>

fun alloc_schedule ::
  "int \<Rightarrow> int \<Rightarrow> (nat \<times> int list \<times> write_outcome) list \<Rightarrow> allocation_asset \<times> allocator list \<Rightarrow> allocation_asset \<times> allocator list" where
  "alloc_schedule space maxRetries [] s = s"
| "alloc_schedule space maxRetries ((k, draws, w) # rest) (asset, as) =
     (let (a', asset') = alloc_step space maxRetries draws w (as ! k) asset in
      alloc_schedule space maxRetries rest (asset', as[k := a']))"

fun schedule_ok ::
  "int \<Rightarrow> int \<Rightarrow> (int \<Rightarrow> int \<Rightarrow> bool) \<Rightarrow> (nat \<times> int list \<times> write_outcome) list \<Rightarrow> allocation_asset \<times> allocator list \<Rightarrow> bool" where
  "schedule_ok space maxRetries accepts [] s = True"
| "schedule_ok space maxRetries accepts ((k, draws, w) # rest) (asset, as) =
     (k < length as \<and> set draws \<subseteq> {0..<space} \<and> write_allowed accepts w (as ! k) asset \<and>
      (let (a', asset') = alloc_step space maxRetries draws w (as ! k) asset in
       schedule_ok space maxRetries accepts rest (asset', as[k := a'])))"

lemma alloc_schedule_runs:
  assumes "alloc_runs space maxRetries accepts s (asset, as)" "schedule_ok space maxRetries accepts xs (asset, as)"
  shows "alloc_runs space maxRetries accepts s (alloc_schedule space maxRetries xs (asset, as))"
  using assms
proof (induction xs arbitrary: asset as)
  case (Cons x xs)
  obtain k draws w where x: "x = (k, draws, w)" by (cases x)
  obtain a' asset' where s: "alloc_step space maxRetries draws w (as ! k) asset = (a', asset')" by fastforce
  have "alloc_runs space maxRetries accepts s (asset', as[k := a'])"
    using Cons.prems alloc_runs.step [OF _ _ _ _ s] by (auto simp: x)
  then show ?case using Cons s by (auto simp: x)
qed simp

definition crossing :: "(nat \<times> int list \<times> write_outcome) list" where
  "crossing = [(0, [0], Accepted), (1, [0], Accepted), (0, [], Accepted), (1, [], Accepted), (0, [], Accepted), (0, [], Accepted),
     (1, [], Accepted), (1, [], Accepted)]"

text \<open>
  The check of the head and the write are two calls, so when the node merges whatever it is sent, two
  recognitions are handed the same index, each verified by its own allocation, and the record of the first is gone.\<close>

theorem unpinned_write_duplicates:
  assumes "i \<noteq> j" "space > 0"
  shows "\<exists>asset' as. alloc_runs space maxRetries (\<lambda>_ _. True)
      (createAllocationRecord v, [allocateIndex i, allocateIndex j]) (asset', as) \<and>
    map al_id as = [i, j] \<and> map al_phase as = [Allocated 0, Allocated 0] \<and> lookupIndex i asset' = Inr None"
proof -
  let ?s = "(createAllocationRecord v, [allocateIndex i, allocateIndex j])"
  have "alloc_runs space maxRetries (\<lambda>_ _. True) ?s (alloc_schedule space maxRetries crossing ?s)"
    by (rule alloc_schedule_runs [OF alloc_runs.start])
      (use assms in \<open>simp add: crossing_def alloc_step_simps\<close>)
  moreover have "alloc_schedule space maxRetries crossing ?s =
      (\<lparr>as_version = v + 2, as_body = Some [(j, 0)]\<rparr>,
       [\<lparr>al_id = i, al_attempt = 1, al_phase = Allocated 0\<rparr>, \<lparr>al_id = j, al_attempt = 1, al_phase = Allocated 0\<rparr>])"
    using assms by (simp add: crossing_def alloc_step_simps)
  ultimately show ?thesis using assms(1) by (force simp: lookupIndex_def readRecord_def)
qed

lemma alloc_example_run:
  "alloc_runs 8 8 (\<lambda>v h. v = h) (createAllocationRecord 1, map allocateIndex [''a'', ''b''])
    (\<lparr>as_version = 2, as_body = Some [(''a'', 5)]\<rparr>,
     [\<lparr>al_id = ''a'', al_attempt = 1, al_phase = Allocated 5\<rparr>, \<lparr>al_id = ''b'', al_attempt = 2, al_phase = Reading\<rparr>])"
proof -
  let ?s = "(createAllocationRecord 1, map allocateIndex [''a'', ''b''])"
  let ?xs = "[(0, [5], Accepted), (1, [5], Accepted), (0, [], Accepted), (0, [], Accepted), (1, [], Accepted), (0, [], Accepted)]"
  have "alloc_runs 8 8 (\<lambda>v h. v = h) ?s (alloc_schedule 8 8 ?xs ?s)"
    unfolding list.map by (rule alloc_schedule_runs [OF alloc_runs.start]) (simp add: alloc_step_simps)
  then show ?thesis by (simp add: alloc_step_simps)
qed


lemma allocation_ends_witness: "settled (own_steps 8 0 (replicate 4 ([], Accepted, createAllocationRecord 1)) (allocateIndex ''a''))"
  by (rule allocation_ends) simp

lemma unpinned_write_duplicates_witness:
  "\<exists>asset' as. alloc_runs 8 8 (\<lambda>_ _. True) (createAllocationRecord 1, [allocateIndex ''a'', allocateIndex ''b'']) (asset', as) \<and>
    map al_phase as = [Allocated 0, Allocated 0]"
proof -
  have "''a'' \<noteq> ''b''" "(8::int) > 0" by simp_all
  from unpinned_write_duplicates [OF this, of 8 1] show ?thesis by (elim exE conjE, intro exI conjI)
qed

end
