(* ===== verification/Control_Session.thy ===== *)
theory Control_Session
  imports Prelude "HOL-Library.AList"
begin

text \<open>
  Sessions of the control plane: \<open>ControlSessionStore\<close> (\<open>packages/warden/src/control-session.ts\<close>), the pid keys
  that live with them (\<open>session-keys.ts\<close>), and who a request speaks for (\<open>effectiveViewer\<close>, \<open>isMultiMember\<close> of
  \<open>control.ts\<close>). Maps are lists in the order of their first writes; times are milliseconds; a new token is drawn by
  the caller. Overwriting the bytes of a key is its removal.
\<close>

section \<open>Sessions\<close>

type_synonym control_sessions = "(string \<times> did \<times> int) list"

definition issue_session :: "int \<Rightarrow> int \<Rightarrow> string \<Rightarrow> did \<Rightarrow> control_sessions \<Rightarrow> int \<times> control_sessions" where
  "issue_session ttl now token d ss = (now + ttl, AList.update token (d, now + ttl) ss)"

definition resolve_session :: "int \<Rightarrow> string option \<Rightarrow> control_sessions \<Rightarrow> did option \<times> control_sessions" where
  "resolve_session now token ss =
     (if \<not> truthy_string token then (None, ss)
      else case map_of ss (the token) of
          None \<Rightarrow> (None, ss)
        | Some (d, expiry) \<Rightarrow> if now > expiry then (None, AList.delete (the token) ss) else (Some d, ss))"

definition expiresAt :: "int \<Rightarrow> string option \<Rightarrow> control_sessions \<Rightarrow> int option" where
  "expiresAt now token ss =
     (if \<not> truthy_string token then None
      else case map_of ss (the token) of None \<Rightarrow> None | Some (_, expiry) \<Rightarrow> if now > expiry then None else Some expiry)"

definition revoke_session :: "string option \<Rightarrow> control_sessions \<Rightarrow> string option \<times> control_sessions" where
  "revoke_session token ss =
     (if \<not> truthy_string token \<or> map_of ss (the token) = None then (None, ss)
      else (token, AList.delete (the token) ss))"

definition revokeAllFor :: "did \<Rightarrow> control_sessions \<Rightarrow> string list \<times> control_sessions" where
  "revokeAllFor d ss = (map fst (filter (\<lambda>(_, d', _). d' = d) ss), filter (\<lambda>(_, d', _). d' \<noteq> d) ss)"

section \<open>The keys of a session\<close>

type_synonym session_keys = "(string \<times> (string \<times> string) list) list"

definition keys_put :: "string \<Rightarrow> string \<Rightarrow> string \<Rightarrow> session_keys \<Rightarrow> session_keys" where
  "keys_put token pid key ks = AList.update token (AList.update pid key (opt_list (map_of ks token))) ks"

definition keys_get :: "string \<Rightarrow> string \<Rightarrow> session_keys \<Rightarrow> string option" where
  "keys_get token pid ks = map_of (opt_list (map_of ks token)) pid"

definition keys_count :: "string \<Rightarrow> session_keys \<Rightarrow> nat" where
  "keys_count token ks = length (opt_list (map_of ks token))"

definition zeroize :: "string \<Rightarrow> session_keys \<Rightarrow> nat \<times> session_keys" where
  "zeroize token ks = (keys_count token ks, AList.delete token ks)"

text \<open>The loop of \<open>removeMember\<close>.\<close>

fun zeroize_all :: "string list \<Rightarrow> session_keys \<Rightarrow> nat \<times> session_keys" where
  "zeroize_all [] ks = (0, ks)"
| "zeroize_all (t # ts) ks = (let (n, ks1) = zeroize t ks; (m, ks2) = zeroize_all ts ks1 in (n + m, ks2))"

section \<open>The interface\<close>

text \<open>Who a token speaks for, as the routes rely on it.\<close>

locale session_gate =
  fixes who :: "int \<Rightarrow> string \<Rightarrow> 'st \<Rightarrow> did option"
    and enter :: "int \<Rightarrow> int \<Rightarrow> string \<Rightarrow> did \<Rightarrow> 'st \<Rightarrow> 'st"
    and see :: "int \<Rightarrow> string option \<Rightarrow> 'st \<Rightarrow> 'st"
    and leave :: "string option \<Rightarrow> 'st \<Rightarrow> 'st"
    and expel :: "did \<Rightarrow> 'st \<Rightarrow> 'st"
    and good :: "'st \<Rightarrow> bool"
  assumes who_enter: "t \<noteq> [] \<Longrightarrow> who now t' (enter ttl t0 t d st) =
      (if t' = t then if now \<le> t0 + ttl then Some d else None else who now t' st)"
    and who_see: "who now t (see now' tok st) \<in> {None, who now t st}"
    and who_leave: "who now t (leave tok st) = (if tok = Some t then None else who now t st)"
    and who_expel: "good st \<Longrightarrow> who now t (expel d st) = (if who now t st = Some d then None else who now t st)"
    and good_enter: "good st \<Longrightarrow> good (enter ttl t0 t d st)"
    and good_see: "good st \<Longrightarrow> good (see now tok st)"
    and good_leave: "good st \<Longrightarrow> good (leave tok st)"
    and good_expel: "good st \<Longrightarrow> good (expel d st)"
begin

lemma expelled: "good st \<Longrightarrow> who now t (expel d st) \<noteq> Some d"
  by (simp add: who_expel)

lemma seen: "who now t (see now' tok st) = Some d \<Longrightarrow> who now t st = Some d"
  using who_see [of now t now' tok st] by auto

end

definition session_of :: "int \<Rightarrow> string \<Rightarrow> control_sessions \<Rightarrow> did option" where
  "session_of now t ss = fst (resolve_session now (Some t) ss)"

lemma truthy_Some: "truthy_string (Some t) \<longleftrightarrow> t \<noteq> []"
  by (cases t) auto

lemma session_of_alt:
  "session_of now t ss = (if t = [] then None else
     case map_of ss t of None \<Rightarrow> None | Some (d, e) \<Rightarrow> if now > e then None else Some d)"
  by (auto simp: session_of_def resolve_session_def truthy_Some split: option.split)

definition sessions_ok :: "control_sessions \<Rightarrow> bool" where
  "sessions_ok ss \<longleftrightarrow> distinct (map fst ss)"

lemma map_of_filter_distinct:
  "distinct (map fst xs) \<Longrightarrow> map_of (filter (\<lambda>(_, v). P v) xs) k = (case map_of xs k of Some v \<Rightarrow> if P v then Some v else None | None \<Rightarrow> None)"
proof (induction xs)
  case (Cons x xs)
  obtain a v where x: "x = (a, v)" by (cases x)
  have "a = k \<Longrightarrow> map_of xs k = None" using Cons.prems x by (auto simp: map_of_eq_None_iff)
  then show ?case using Cons by (auto simp: x)
qed simp

interpretation sessions: session_gate session_of "\<lambda>ttl t0 t d ss. snd (issue_session ttl t0 t d ss)"
  "\<lambda>now t ss. snd (resolve_session now t ss)" "\<lambda>t ss. snd (revoke_session t ss)" "\<lambda>d ss. snd (revokeAllFor d ss)" sessions_ok
proof unfold_locales
  show "session_of now t' (snd (issue_session ttl t0 t d ss)) =
      (if t' = t then if now \<le> t0 + ttl then Some d else None else session_of now t' ss)" if "t \<noteq> []" for now t' ttl t0 t d ss
    using that by (auto simp: session_of_alt issue_session_def update_conv')
  show "session_of now t (snd (resolve_session now' t' ss)) \<in> {None, session_of now t ss}" for now t now' t' ss
    by (auto simp: session_of_alt resolve_session_def delete_conv' split: option.splits if_splits)
  show "session_of now t (snd (revoke_session t' ss)) = (if t' = Some t then None else session_of now t ss)" for now t t' ss
    by (cases t') (auto simp: session_of_alt revoke_session_def truthy_Some delete_conv' split: option.splits)
  show "session_of now t (snd (revokeAllFor d ss)) = (if session_of now t ss = Some d then None else session_of now t ss)"
    if "sessions_ok ss" for now t d ss
    using map_of_filter_distinct [OF that [unfolded sessions_ok_def], of "\<lambda>(d', _). d' \<noteq> d" t]
    by (auto simp: session_of_alt revokeAllFor_def case_prod_beta' split: option.splits)
  show "sessions_ok (snd (issue_session ttl t0 t d ss))" if "sessions_ok ss" for ttl t0 t d ss
    using that by (simp add: sessions_ok_def issue_session_def distinct_update)
  show "sessions_ok (snd (resolve_session now t' ss))" if "sessions_ok ss" for now t' ss
    using that by (auto simp: sessions_ok_def resolve_session_def distinct_delete split: option.split)
  show "sessions_ok (snd (revoke_session t' ss))" if "sessions_ok ss" for t' ss
    using that by (auto simp: sessions_ok_def revoke_session_def distinct_delete)
  show "sessions_ok (snd (revokeAllFor d ss))" if "sessions_ok ss" for d ss
    using that by (auto simp: sessions_ok_def revokeAllFor_def distinct_map_filter)
qed

section \<open>Keys of ended sessions\<close>

lemma keys_zeroized: "keys_get t p (snd (zeroize t' ks)) = (if t = t' then None else keys_get t p ks)"
  by (simp add: zeroize_def keys_get_def delete_conv' opt_list_def)

lemma keys_zeroized_all: "keys_get t p (snd (zeroize_all ts ks)) = (if t \<in> set ts then None else keys_get t p ks)"
  by (induction ts arbitrary: ks) (simp_all add: keys_zeroized case_prod_beta' Let_def)

end
