(* ===== verification/Vault_Custody.thy ===== *)
theory Vault_Custody
  imports Security Kb_Service
begin

text \<open>
  What the Warden does with the items of its vault for its members: faces (\<open>packages/warden/src/face.ts\<close>), triage
  (\<open>triage.ts\<close>), marks (\<open>marks.ts\<close>), sharing and membership of the household (\<open>household.ts\<close>, \<open>household-config.ts\<close>), cards from other
  nodes (\<open>inbound-card-store.ts\<close>, \<open>credential-vault.ts\<close>, \<open>core/src/issued.ts\<close>) and \<open>indexArtefact\<close> (\<open>service.ts\<close>). The
  vault, the index, the groups and the partitions are those of \<^typ>\<open>kb_state\<close>. Sensitivities are the numbers the files hold.
\<close>

section \<open>The ladder on numbers\<close>

definition clears_num :: "authz_tier \<Rightarrow> int \<Rightarrow> bool" where
  "clears_num tier n \<longleftrightarrow> n = sens_num PUBLIC \<or> sens_num (CLEARANCE tier) \<ge> n"

definition tier_for :: "int \<Rightarrow> authz_tier" where
  "tier_for n = (case find (\<lambda>t. clears_num t n) [STANDING, CHALLENGE, HUMAN, MULTIFACTOR] of Some t \<Rightarrow> t | None \<Rightarrow> MULTIFACTOR)"

lemma clears_num_sens: "clears_num tier (sens_num s) = clearsSensitivity tier s"
  by (cases tier; cases s) (simp_all add: clears_num_def clearsSensitivity_def scale_defs)

lemma tier_for_sens: "tier_for (sens_num s) = requiredTier s"
  by (simp add: tier_for_def requiredTier_def clears_num_sens)

text \<open>The decision of \<open>hydrateCardFace\<close>: a valid delegation and a satisfiable local render.\<close>

definition face_released :: "authz_tier \<Rightarrow> int \<Rightarrow> bool" where
  "face_released tier n \<longleftrightarrow> n = sens_num PUBLIC \<or> clears_num tier n"

lemma face_released_sens:
  "face_released tier (sens_num s) = rd_allow (decideRelease \<lparr>rc_sensitivity = s, rc_tier = tier, rc_delegationValid = True,
     rc_mode = LOCAL_RENDER, rc_disclosureSatisfiable = True\<rparr>)"
  by (cases s; cases tier) (simp_all add: face_released_def clears_num_def decideRelease_def clearsSensitivity_def scale_defs)

definition sensitivityName :: "int \<Rightarrow> string" where
  "sensitivityName n = (if 0 \<le> n \<and> n < 5 then [''PUBLIC'', ''LOW'', ''MEDIUM'', ''HIGH'', ''SEALED''] ! nat n else ''SEALED'')"

section \<open>Whose item, and who sees it\<close>

definition ownerOf :: "did option \<Rightarrow> kb_artefact \<Rightarrow> did option" where
  "ownerOf sovereign a = (case ka_owner a of Some d \<Rightarrow> Some d | None \<Rightarrow> sovereign)"

definition visibleTo :: "did option \<Rightarrow> did option \<Rightarrow> kb_artefact \<Rightarrow> bool" where
  "visibleTo sovereign viewer a \<longleftrightarrow> ownerOf sovereign a = viewer \<or> ka_scope a = Some ''shared''"

record vault_item =
  vi_id :: string
  vi_kind :: string
  vi_sensitivity :: int
  vi_sensitivityName :: string
  vi_observedAt :: string
  vi_scope :: "string option"

definition toVaultItem :: "kb_artefact \<Rightarrow> vault_item" where
  "toVaultItem a = \<lparr>vi_id = ka_id a, vi_kind = ka_kind a, vi_sensitivity = ka_sensitivity a,
     vi_sensitivityName = sensitivityName (ka_sensitivity a), vi_observedAt = ka_observedAt a,
     vi_scope = (if truthy_string (ka_scope a) then ka_scope a else None)\<rparr>"

section \<open>Faces\<close>

datatype card_face =
    Face_unavailable string
  | Face_refused string int
  | Face_shown string int string string
  | Face_threw

text \<open>\<open>plain\<close> unseals, \<open>txt\<close> is the text in a sealed payload, \<open>image\<close> the thumbnail its image resolves to.\<close>

record face_env =
  fe_plain :: "string \<Rightarrow> string option"
  fe_text :: "string \<Rightarrow> string"
  fe_image :: "string \<Rightarrow> (string \<times> string) option"

definition render_face :: "face_env \<Rightarrow> kb_artefact \<Rightarrow> card_face" where
  "render_face env a =
     (case fe_plain env (ka_ciphertext a) of
        None \<Rightarrow> Face_threw
      | Some plain \<Rightarrow>
          let asText = Face_shown (ka_id a) (ka_sensitivity a) (fe_text env plain)
            (case ka_meta a ''mimeType'' of Some m \<Rightarrow> m | None \<Rightarrow> ''text/plain'') in
          if ka_kind a = ''image''
          then (case fe_image env plain of
              Some (bytes, mime) \<Rightarrow> Face_shown (ka_id a) (ka_sensitivity a) bytes mime
            | None \<Rightarrow>
                if truthy_string (ka_description a)
                then Face_shown (ka_id a) (ka_sensitivity a) (the (ka_description a)) ''text/plain'' else asText)
          else asText)"

definition hydrateCardFace ::
  "face_env \<Rightarrow> (kb_artefact \<Rightarrow> bool) \<Rightarrow> (int \<Rightarrow> authz_tier) \<Rightarrow> string \<Rightarrow> kb_artefact list \<Rightarrow> card_face" where
  "hydrateCardFace env visible achievedTier i vault =
     (case vault_get i vault of
        None \<Rightarrow> Face_unavailable i
      | Some a \<Rightarrow>
          if \<not> visible a then Face_unavailable i
          else if \<not> face_released (achievedTier (ka_sensitivity a)) (ka_sensitivity a)
          then Face_refused i (ka_sensitivity a)
          else render_face env a)"

section \<open>Triage\<close>

record triage_item =
  ti_artefactId :: string
  ti_kind :: string
  ti_observedAt :: string
  ti_proposedSensitivity :: int
  ti_reason :: string

definition triage_item_of :: "kb_artefact \<Rightarrow> int \<Rightarrow> triage_item" where
  "triage_item_of a n = \<lparr>ti_artefactId = ka_id a, ti_kind = ka_kind a, ti_observedAt = ka_observedAt a,
     ti_proposedSensitivity = n, ti_reason = (case ka_meta a ''reason'' of Some r \<Rightarrow> r | None \<Rightarrow> [])\<rparr>"

definition triageQueue :: "(kb_artefact \<Rightarrow> bool) \<Rightarrow> kb_artefact list \<Rightarrow> triage_item list" where
  "triageQueue visible vault = map (\<lambda>a. triage_item_of a (ka_sensitivity a)) (filter (\<lambda>a. ka_needsConfirm a \<and> visible a) vault)"

definition confirmed :: "int \<Rightarrow> kb_artefact \<Rightarrow> kb_artefact" where
  "confirmed n a = a\<lparr>ka_sensitivity := n, ka_needsConfirm := False,
     ka_meta := (ka_meta a)(''confirmedBySovereign'' \<mapsto> ''true'',
       ''relaxedBelowThreshold'' \<mapsto> (if n \<le> sens_num HUMAN_CONFIRM_BELOW then ''true'' else ''false''))\<rparr>"

definition confirmTriage :: "string \<Rightarrow> int \<Rightarrow> kb_artefact list \<Rightarrow> (triage_item \<times> kb_artefact list) option" where
  "confirmTriage i n vault =
     (case vault_get i vault of
        None \<Rightarrow> None
      | Some a \<Rightarrow> Some (triage_item_of a n, vault_put [confirmed n a] vault))"

text \<open>\<open>indexArtefact\<close>: \<open>embedding\<close> tells that the Warden has an embedder; \<open>txt\<close> is the caller's text, \<open>unseal\<close> the Warden's.\<close>

definition text_to_embed :: "(string \<Rightarrow> string option) \<Rightarrow> kb_artefact \<Rightarrow> string option \<Rightarrow> string option" where
  "text_to_embed unseal a txt =
     (case txt of
        Some t \<Rightarrow> Some t
      | None \<Rightarrow>
          (case ka_description a of
             Some d \<Rightarrow> Some d
           | None \<Rightarrow> if ka_kind a = ''image'' then None else unseal (ka_ciphertext a)))"

definition entry_for :: "kb_artefact \<Rightarrow> real list \<Rightarrow> index_entry" where
  "entry_for a v = \<lparr>ix_artefactId = ka_id a, ix_kind = ka_kind a, ix_observedAt = ka_observedAt a,
     ix_sensitivity = ka_sensitivity a, ix_embedding = v, ix_kb = None,
     ix_owner = (if truthy_string (ka_owner a) then ka_owner a else None),
     ix_scope = (if truthy_string (ka_scope a) then ka_scope a else None)\<rparr>"

definition indexArtefact ::
  "bool \<Rightarrow> (string \<Rightarrow> string option) \<Rightarrow> (string \<Rightarrow> real list option) \<Rightarrow> kb_artefact \<Rightarrow> string option \<Rightarrow> index_entry list \<Rightarrow> index_entry list" where
  "indexArtefact embedding unseal emb a txt index =
     (if \<not> embedding \<or> \<not> truthy_string (text_to_embed unseal a txt) then index
      else case emb (the (text_to_embed unseal a txt)) of
          None \<Rightarrow> index
        | Some v \<Rightarrow> index_put [entry_for a v] index)"

section \<open>Marks\<close>

record mark_candidate =
  mk_name :: string
  mk_kind :: "string option"
  mk_threshold :: int

definition countFor :: "did option \<Rightarrow> did \<Rightarrow> string option \<Rightarrow> kb_artefact list \<Rightarrow> int" where
  "countFor sovereign owner kind vault =
     int (length (filter (\<lambda>a. visibleTo sovereign (Some owner) a \<and> (truthy_string kind \<longrightarrow> Some (ka_kind a) = kind)) vault))"

definition claimableMarks :: "did option \<Rightarrow> did \<Rightarrow> mark_candidate list \<Rightarrow> kb_artefact list \<Rightarrow> (string \<times> int \<times> bool) list" where
  "claimableMarks sovereign owner cs vault =
     map (\<lambda>c. let n = countFor sovereign owner (mk_kind c) vault in (mk_name c, n, n \<ge> mk_threshold c)) cs"

text \<open>\<open>issue\<close> is the registration of the schema and the issuance of the mark, which can throw.\<close>

datatype mark_result = Not_yet int | Mark_issued int did | Mark_threw

definition claimMark :: "(did \<Rightarrow> string \<Rightarrow> int \<Rightarrow> did option) \<Rightarrow> did option \<Rightarrow> did \<Rightarrow> mark_candidate \<Rightarrow> kb_artefact list \<Rightarrow> mark_result" where
  "claimMark issue sovereign subject c vault =
     (let n = countFor sovereign subject (mk_kind c) vault in
      if n < mk_threshold c then Not_yet n
      else case issue subject (mk_name c) n of None \<Rightarrow> Mark_threw | Some credential \<Rightarrow> Mark_issued n credential)"

section \<open>The household\<close>

record household =
  hh_id :: string
  hh_governor :: did
  hh_readGroup :: did
  hh_writeGroup :: did

text \<open>The store of households, a JSON object by id; without an id it answers only when there is exactly one.\<close>

definition household_get :: "string option \<Rightarrow> household list \<Rightarrow> household option" where
  "household_get i hs =
     (if truthy_string i then find (\<lambda>h. Some (hh_id h) = i) hs
      else case hs of [h] \<Rightarrow> Some h | _ \<Rightarrow> None)"

definition household_put :: "household \<Rightarrow> household list \<Rightarrow> household list" where
  "household_put h hs =
     (if hh_id h \<in> hh_id ` set hs then map (\<lambda>x. if hh_id x = hh_id h then h else x) hs else hs @ [h])"

text \<open>The shared vault of the node: its members and its items.\<close>

record shared_vault =
  sv_members :: "did list"
  sv_items :: "(string \<times> string) list"

definition sv_admit :: "did \<Rightarrow> shared_vault \<Rightarrow> shared_vault" where
  "sv_admit d v = v\<lparr>sv_members := (if d \<in> set (sv_members v) then sv_members v else sv_members v @ [d])\<rparr>"

definition sv_remove :: "did \<Rightarrow> shared_vault \<Rightarrow> shared_vault" where
  "sv_remove d v = v\<lparr>sv_members := filter (\<lambda>x. x \<noteq> d) (sv_members v)\<rparr>"

definition sv_share :: "string \<Rightarrow> string \<Rightarrow> shared_vault \<Rightarrow> shared_vault" where
  "sv_share name body v = v\<lparr>sv_items := filter (\<lambda>(n, _). n \<noteq> name) (sv_items v) @ [(name, body)]\<rparr>"

definition revoke_member :: "did \<Rightarrow> did \<Rightarrow> kb_state \<Rightarrow> kb_state" where
  "revoke_member g d s = s\<lparr>ks_groups := (ks_groups s)(g := filter (\<lambda>x. x \<noteq> d) (ks_groups s g))\<rparr>"

text \<open>\<open>admitMember\<close> and the calls of \<open>removeMember\<close> on the vault and the groups; \<open>up\<close> tells that the node answers the
  call on its vault.\<close>

definition admitMember ::
  "kb_env \<Rightarrow> bool \<Rightarrow> household \<Rightarrow> did \<Rightarrow> shared_vault \<Rightarrow> kb_state \<Rightarrow> partition_record option \<times> shared_vault \<times> kb_state" where
  "admitMember env up hh d v s =
     (if \<not> up then (None, v, s)
      else let (p, s') = provisionMemberPartition env (hh_id hh) d
             (grant_member (hh_writeGroup hh) d (grant_member (hh_readGroup hh) d s))
        in (p, sv_admit d v, s'))"

definition remove_grants :: "bool \<Rightarrow> household \<Rightarrow> did \<Rightarrow> shared_vault \<Rightarrow> kb_state \<Rightarrow> (shared_vault \<times> kb_state) option" where
  "remove_grants up hh d v s =
     (if \<not> up then None
      else Some (sv_remove d v, revoke_member (hh_writeGroup hh) d (revoke_member (hh_readGroup hh) d s)))"

datatype share_result = Shared | Share_absent | Share_not_owner | Share_read_only | Share_declined | Share_threw

definition mark_shared :: "string \<Rightarrow> kb_artefact \<Rightarrow> kb_state \<Rightarrow> kb_state" where
  "mark_shared i a s =
     (let s1 = s\<lparr>ks_vault := vault_put [a\<lparr>ka_scope := Some ''shared''\<rparr>] (ks_vault s)\<rparr> in
      case find (\<lambda>e. ix_artefactId e = i) (ks_index s1) of
        None \<Rightarrow> s1
      | Some e \<Rightarrow> s1\<lparr>ks_index := index_put [e\<lparr>ix_scope := Some ''shared''\<rparr>] (ks_index s1)\<rparr>)"

definition shareToHousehold ::
  "kb_env \<Rightarrow> (string \<Rightarrow> string option) \<Rightarrow> bool \<Rightarrow> did option \<Rightarrow> household \<Rightarrow> string \<Rightarrow> did \<Rightarrow> (int \<Rightarrow> bool) \<Rightarrow>
     shared_vault \<Rightarrow> kb_state \<Rightarrow> share_result \<times> shared_vault \<times> kb_state" where
  "shareToHousehold env unseal up sovereign hh i d stepUp v s =
     (case vault_get i (ks_vault s) of
        None \<Rightarrow> (Share_absent, v, s)
      | Some a \<Rightarrow>
          if ownerOf sovereign a \<noteq> Some d then (Share_not_owner, v, s)
          else if ka_scope a = Some ''shared'' then (Shared, v, s)
          else if \<not> is_member env s (hh_writeGroup hh) d then (Share_read_only, v, s)
          else if ka_sensitivity a \<ge> sens_num MEDIUM \<and> \<not> stepUp (ka_sensitivity a) then (Share_declined, v, s)
          else case unseal (ka_ciphertext a) of
              None \<Rightarrow> (Share_threw, v, s)
            | Some plain \<Rightarrow>
                if \<not> up then (Share_threw, v, s)
                else (Shared, sv_share i plain v, mark_shared i a s))"

section \<open>Cards from other nodes\<close>

record resolved_credential =
  cr_issuer :: did
  cr_types :: "string list"
  cr_subject :: "(string \<times> string) list"
  cr_validUntil :: "string option"
  cr_schema :: "string option"

record issued_leaf =
  il_credentialDid :: did
  il_issuer :: did
  il_subject :: did
  il_credentialType :: string
  il_schema :: "string option"
  il_claims :: "(string \<times> string) list"
  il_validUntil :: "string option"
  il_acceptedAt :: string

text \<open>Claims are texts; a status is always valid and the two constant fields are left out.\<close>

definition buildIssuedLeaf :: "string \<Rightarrow> did \<Rightarrow> resolved_credential \<Rightarrow> issued_leaf" where
  "buildIssuedLeaf time credential vc =
     (let fields = filter (\<lambda>(k, _). k \<noteq> ''id'') (cr_subject vc) in
      \<lparr>il_credentialDid = credential, il_issuer = cr_issuer vc,
       il_subject = (case map_of (cr_subject vc) ''id'' of Some d \<Rightarrow> d | None \<Rightarrow> []),
       il_credentialType = (case map_of fields ''type'' of
           Some t \<Rightarrow> t
         | None \<Rightarrow> (case find (\<lambda>t. t \<noteq> ''VerifiableCredential'') (cr_types vc) of Some t \<Rightarrow> t | None \<Rightarrow> ''VerifiableCredential'')),
       il_schema = cr_schema vc, il_claims = fields, il_validUntil = cr_validUntil vc, il_acceptedAt = time\<rparr>)"

definition issued_put :: "issued_leaf \<Rightarrow> issued_leaf list \<Rightarrow> issued_leaf list" where
  "issued_put l ls = filter (\<lambda>x. il_credentialDid x \<noteq> il_credentialDid l) ls @ [l]"

definition issued_get :: "did \<Rightarrow> issued_leaf list \<Rightarrow> issued_leaf option" where
  "issued_get c ls = find (\<lambda>x. il_credentialDid x = c) ls"

datatype authenticity = Issuer_authentic | Chain_consistent

record inbound_card =
  ib_credentialDid :: did
  ib_from :: did
  ib_verified :: bool
  ib_owner :: did
  ib_closure :: "issued_leaf option"
  ib_authenticity :: "authenticity option"
  ib_contentReadable :: "bool option"

definition inbound_put :: "inbound_card \<Rightarrow> inbound_card list \<Rightarrow> inbound_card list" where
  "inbound_put c cs = filter (\<lambda>x. ib_credentialDid x \<noteq> ib_credentialDid c) cs @ [c]"

text \<open>The list for the wire, without the closure; without an owner it is everything.\<close>

definition inbound_list :: "did option \<Rightarrow> inbound_card list \<Rightarrow> inbound_card list" where
  "inbound_list owner cs =
     map (\<lambda>c. c\<lparr>ib_closure := None\<rparr>) (filter (\<lambda>c. truthy_string owner \<longrightarrow> Some (ib_owner c) = owner) cs)"

definition getStored :: "did \<Rightarrow> inbound_card list \<Rightarrow> inbound_card option" where
  "getStored i cs = find (\<lambda>c. ib_credentialDid c = i) cs"

definition inbound_remove :: "did \<Rightarrow> inbound_card list \<Rightarrow> inbound_card list" where
  "inbound_remove i cs = filter (\<lambda>c. ib_credentialDid c \<noteq> i) cs"

definition renderIssuedLeaf :: "issued_leaf \<Rightarrow> string" where
  "renderIssuedLeaf l =
     (let fields = join '', '' (map (\<lambda>(k, v). k @ ''='' @ v) (filter (\<lambda>(k, _). k \<noteq> ''type'' \<and> k \<noteq> ''id'') (il_claims l))) in
      il_credentialType l @ '' credential from '' @ il_issuer l @ (if fields = [] then [] else '' - '' @ fields) @ '' (issuer-attested)'')"

definition card_metadata :: "issued_leaf \<Rightarrow> string \<rightharpoonup> string" where
  "card_metadata l = ([''credentialDid'' \<mapsto> il_credentialDid l, ''issuer'' \<mapsto> il_issuer l, ''credentialType'' \<mapsto> il_credentialType l,
     ''trustClass'' \<mapsto> ''issued''])(''schema'' := il_schema l)"

text \<open>The artefact an accepted card becomes; \<open>c\<close> is its ciphertext and \<open>i\<close> the id of it.\<close>

definition card_artefact :: "string \<Rightarrow> string \<Rightarrow> string \<Rightarrow> did \<Rightarrow> issued_leaf \<Rightarrow> kb_artefact" where
  "card_artefact time i c owner l =
     \<lparr>ka_id = i, ka_kind = ''document'', ka_observedAt = il_acceptedAt l, ka_storedAt = time,
      ka_sensitivity = sens_num DEFAULT_SENSITIVITY, ka_ciphertext = c, ka_sealedTo = None, ka_kb = None, ka_contributor = None,
      ka_docKey = None, ka_locus = (\<lambda>_. None), ka_owner = Some owner, ka_scope = Some ''private'', ka_witness = None,
      ka_needsConfirm = False, ka_description = None, ka_meta = card_metadata l\<rparr>"

definition promoteVerifiedCard ::
  "kb_env \<Rightarrow> did \<Rightarrow> issued_leaf \<Rightarrow> authenticity option \<Rightarrow> bool option \<Rightarrow> kb_artefact list \<Rightarrow> issued_leaf list \<Rightarrow>
     (string \<times> kb_artefact list \<times> issued_leaf list) option" where
  "promoteVerifiedCard env owner l auth legible vault issued =
     (case ke_sealWarden env (renderIssuedLeaf l) of
        None \<Rightarrow> None
      | Some c \<Rightarrow>
          let a = card_artefact (ke_stamp env) (ke_contentId env c) c owner l;
              m = (ka_meta a)(''source'' \<mapsto> ''inbound-card'');
              m = (case auth of None \<Rightarrow> m
                | Some Issuer_authentic \<Rightarrow> m(''authenticity'' \<mapsto> ''issuer-authentic'')
                | Some Chain_consistent \<Rightarrow> m(''authenticity'' \<mapsto> ''chain-consistent''));
              m = (case legible of None \<Rightarrow> m | Some b \<Rightarrow> m(''contentReadable'' \<mapsto> (if b then ''true'' else ''false'')))
          in Some (ka_id a, vault_put [a\<lparr>ka_meta := m\<rparr>] vault, issued_put l issued))"

text \<open>\<open>None\<close> is a throw: a partition that cannot be provisioned, or one without a member key.\<close>

definition ingestCredentialToPartition ::
  "kb_env \<Rightarrow> bool \<Rightarrow> string \<Rightarrow> did \<Rightarrow> issued_leaf \<Rightarrow> int option \<Rightarrow> kb_state \<Rightarrow> (string \<times> string \<times> bool) option \<times> kb_state" where
  "ingestCredentialToPartition env embedding space owner l sens s =
     (case provisionMemberPartition env space owner s of
        (None, s1) \<Rightarrow> (None, s1)
      | (Some p, s1) \<Rightarrow>
          (case pr_pub p of
             None \<Rightarrow> (None, s1)
           | Some pub \<Rightarrow>
               (let txt = renderIssuedLeaf l; c = ke_sealTo env pub txt; i = ke_contentId env c;
                  a = (card_artefact (ke_stamp env) i c owner l)\<lparr>ka_sealedTo := Some (pr_id p), ka_kb := Some (pr_id p),
                    ka_sensitivity := (case sens of None \<Rightarrow> sens_num DEFAULT_SENSITIVITY | Some n \<Rightarrow> n)\<rparr>;
                  s2 = s1\<lparr>ks_vault := vault_put [a] (ks_vault s1)\<rparr>
                in case (if embedding then rv_embed (ke_recall env) txt else None) of
                    None \<Rightarrow> (Some (i, pr_id p, False), s2)
                  | Some v \<Rightarrow> (Some (i, pr_id p, True), s2\<lparr>ks_index := index_put
                      [(entry_for a v)\<lparr>ix_kb := Some (pr_id p), ix_owner := None, ix_scope := None\<rparr>] (ks_index s2)\<rparr>))))"

end
