(* ===== verification/Submission.thy ===== *)
theory Submission
  imports Prove Challenge_Store Vault_Custody
begin

text \<open>
  What Emissaries submit: delegations (\<open>packages/core/src/credentials.ts\<close>, \<open>schema.ts\<close>, \<open>packages/warden/src/delegations.ts\<close>), their
  check and the submission case of the Warden's handler (\<open>handler.ts\<close>), and \<open>handleSubmission\<close> (\<open>service.ts\<close>). The vision
  model, the classifier and the embedder are parameters; the check of a presentation is the one of \<open>Prove\<close>.
\<close>

section \<open>Credentials the Warden mints\<close>

record minted_vc =
  mv_issuer :: did
  mv_schema :: did
  mv_subject :: did
  mv_claims :: "(string \<times> json) list"

definition issueDelegation :: "did \<Rightarrow> did \<Rightarrow> did \<Rightarrow> string list \<Rightarrow> did option \<Rightarrow> minted_vc" where
  "issueDelegation warden schema emissary kinds d =
     \<lparr>mv_issuer = warden, mv_schema = schema, mv_subject = emissary,
      mv_claims = [(''type'', JStr ''HearthholdDelegation''), (''kinds'', JArr (map JStr kinds))] @
        (if truthy_string d then [(''member'', JStr (the d))] else [])\<rparr>"

definition issueClaim :: "did \<Rightarrow> did \<Rightarrow> did \<Rightarrow> (string \<times> json) list \<Rightarrow> minted_vc" where
  "issueClaim issuer schema subject cs = \<lparr>mv_issuer = issuer, mv_schema = schema, mv_subject = subject, mv_claims = cs\<rparr>"

text \<open>A schema as the composer reads it: its title, the constant of its \<open>type\<close>, the required fields, the named ones and
  whether others are allowed.\<close>

record json_schema =
  js_title :: "string option"
  js_typeConst :: "string option"
  js_required :: "string list"
  js_properties :: "string list option"
  js_closed :: bool

definition DELEGATION_SCHEMA :: json_schema where
  "DELEGATION_SCHEMA = \<lparr>js_title = Some ''HearthholdDelegation'', js_typeConst = Some ''HearthholdDelegation'',
     js_required = [''type''], js_properties = Some [''type'', ''kinds''], js_closed = False\<rparr>"

section \<open>Delegations\<close>

record delegation_record =
  dl_subject :: did
  dl_credential :: did
  dl_issuedAt :: string
  dl_member :: "did option"
  dl_kinds :: "string list option"

definition record_delegation :: "delegation_record \<Rightarrow> delegation_record list \<Rightarrow> delegation_record list" where
  "record_delegation d ds = ds @ [d]"

definition LEGACY_DELEGATION_KINDS :: "string list" where
  "LEGACY_DELEGATION_KINDS = [''event'', ''location'', ''activity'', ''browsing'', ''document'']"

datatype delegation_refusal = No_presentation | Warden_unavailable | Not_verifiable | Not_verified proof_failure | No_responder
  | Holder_mismatch | Not_fresh | Not_the_subject

text \<open>\<open>grantedKinds.includes\<close> of the claim \<open>kinds\<close>: of an array, of a text its parts, the legacy kinds when absent.\<close>

fun kinds_of :: "json option \<Rightarrow> (string \<Rightarrow> bool) option" where
  "kinds_of None = Some (\<lambda>k. k \<in> set LEGACY_DELEGATION_KINDS)"
| "kinds_of (Some JNull) = Some (\<lambda>k. k \<in> set LEGACY_DELEGATION_KINDS)"
| "kinds_of (Some (JArr xs)) = Some (\<lambda>k. JStr k \<in> set xs)"
| "kinds_of (Some (JStr s)) = Some (\<lambda>k. sublist k s)"
| "kinds_of (Some _) = None"

fun member_of :: "json option \<Rightarrow> did option" where
  "member_of (Some (JStr d)) = Some d"
| "member_of _ = None"

text \<open>
  \<open>verify\<close> is \<open>verifyResponse\<close>, \<^const>\<open>None\<close> when it throws; \<open>gated\<close> tells that the Warden has a challenge store. The result
  holds the claims of the first disclosed credential.
\<close>

definition verifyDelegationPresentation ::
  "did \<Rightarrow> did \<Rightarrow> (string \<Rightarrow> response_result option) \<Rightarrow> bool \<Rightarrow> int \<Rightarrow> string \<Rightarrow> did \<Rightarrow> challenge_store \<Rightarrow>
     (delegation_refusal + (string \<Rightarrow> json option)) \<times> challenge_store" where
  "verifyDelegationPresentation warden schema verify gated now presentation holder store =
     (if presentation = [] then (Inl No_presentation, store)
      else if warden = [] then (Inl Warden_unavailable, store)
      else case verify presentation of
          None \<Rightarrow> (Inl Not_verifiable, store)
        | Some res \<Rightarrow>
            (case verifyProof (\<lambda>_ _. None) (\<lambda>_ _. None) \<lparr>po_trustedIssuers = Some [warden], po_trustRegistry = None,
                po_schema = Some schema, po_requiredClaims = None, po_spentTxns = False\<rparr> res () of
               None \<Rightarrow> (Inl Not_verifiable, store)
             | Some (Inl e, _) \<Rightarrow> (Inl (Not_verified e), store)
             | Some (Inr proof, _) \<Rightarrow>
                 if \<not> truthy_string (pf_responder proof) then (Inl No_responder, store)
                 else if pf_responder proof \<noteq> Some holder then (Inl Holder_mismatch, store)
                 else let (fresh, store') = (if gated then gate Delegation now store (pf_challenge proof) else (True, store)) in
                   if \<not> fresh then (Inl Not_fresh, store')
                   else (case pf_disclosed proof of
                       [] \<Rightarrow> (Inl Not_the_subject, store')
                     | d # _ \<Rightarrow>
                         if dc_subject d = [] \<or> Some (dc_subject d) \<noteq> pf_responder proof then (Inl Not_the_subject, store')
                         else (Inr (cl_get (dc_claims d)), store'))))"

section \<open>Submissions\<close>

record submission =
  sb_kind :: string
  sb_ciphertext :: string
  sb_observedAt :: string
  sb_delegationProof :: "string option"

text \<open>\<open>caption\<close> resolves an image payload and captions it: description and asset.\<close>

record submit_env =
  se_unseal :: "string \<Rightarrow> string option"
  se_caption :: "string \<Rightarrow> (string \<times> did option) option"
  se_classify :: "string \<Rightarrow> string \<Rightarrow> int \<times> (string \<rightharpoonup> string) \<times> bool"
  se_contentId :: "string \<Rightarrow> string"
  se_stamp :: string
  se_embedding :: bool
  se_embed :: "string \<Rightarrow> real list option"

record ingest_policy =
  ip_autofileTrusted :: bool
  ip_confirmAtOrBelow :: "int option"

text \<open>Sensitivity, metadata, the classifier's doubt, the caption and the text to embed.\<close>

definition classify_submission ::
  "submit_env \<Rightarrow> string \<Rightarrow> string \<Rightarrow> int \<times> (string \<rightharpoonup> string) \<times> bool \<times> (string \<times> did option) option \<times> string" where
  "classify_submission env kind plain =
     (if kind = ''image''
      then (case se_caption env plain of
          None \<Rightarrow> (sens_num DEFAULT_SENSITIVITY, [''visionError'' \<mapsto> ''no caption''], True, None, plain)
        | Some (description, asset) \<Rightarrow>
            (let (n, m, unsure) = se_classify env kind description in (n, m, unsure, Some (description, asset), description)))
      else (let (n, m, unsure) = se_classify env kind plain in (n, m, unsure, None, plain)))"

definition must_confirm :: "ingest_policy \<Rightarrow> int \<Rightarrow> bool \<Rightarrow> bool" where
  "must_confirm policy n unsure \<longleftrightarrow> unsure \<or>
     (\<not> ip_autofileTrusted policy \<and> n \<le> (case ip_confirmAtOrBelow policy of None \<Rightarrow> sens_num SEALED | Some c \<Rightarrow> c))"

definition submitted_artefact ::
  "submit_env \<Rightarrow> submission \<Rightarrow> did \<Rightarrow> did option \<Rightarrow> int \<Rightarrow> (string \<rightharpoonup> string) \<Rightarrow> bool \<Rightarrow> (string \<times> did option) option \<Rightarrow> kb_artefact" where
  "submitted_artefact env sub emissary owner n m quarantine caption =
     \<lparr>ka_id = se_contentId env (sb_ciphertext sub), ka_kind = sb_kind sub, ka_observedAt = sb_observedAt sub,
      ka_storedAt = se_stamp env, ka_sensitivity = n, ka_ciphertext = sb_ciphertext sub, ka_sealedTo = None, ka_kb = None,
      ka_contributor = None, ka_docKey = None, ka_locus = (\<lambda>_. None),
      ka_owner = (if truthy_string owner then owner else None),
      ka_scope = (if truthy_string owner then Some ''private'' else None), ka_witness = Some emissary,
      ka_needsConfirm = quarantine, ka_description = map_option fst caption,
      ka_meta = (case caption of Some (_, Some asset) \<Rightarrow> m(''assetDid'' \<mapsto> asset) | _ \<Rightarrow> m)\<rparr>"

definition handleSubmission ::
  "submit_env \<Rightarrow> submission \<Rightarrow> did \<Rightarrow> did option \<Rightarrow> ingest_policy \<Rightarrow> kb_state \<Rightarrow> kb_state option" where
  "handleSubmission env sub emissary owner policy s =
     (case se_unseal env (sb_ciphertext sub) of
        None \<Rightarrow> None
      | Some plain \<Rightarrow>
          let (n, m, unsure, caption, embedText) = classify_submission env (sb_kind sub) plain;
              quarantine = must_confirm policy n unsure;
              a = submitted_artefact env sub emissary owner n m quarantine caption;
              s1 = s\<lparr>ks_vault := vault_put [a] (ks_vault s)\<rparr>
          in Some (if quarantine then s1
               else s1\<lparr>ks_index := indexArtefact (se_embedding env) (se_unseal env) (se_embed env) a (Some embedText) (ks_index s1)\<rparr>))"

datatype submission_reply = Denied_no_delegation | Denied_delegation delegation_refusal | Denied_kind | Queued string | Handler_threw

text \<open>The case of the handler and the processing it starts; \<open>sovereign\<close> is the default owner, \<open>trusted\<close> the answer of the
  autofile registry, \<open>level\<close> the configured \<open>confirmAtOrBelow\<close>. A throw of the processing is only logged.\<close>

definition witness_submission ::
  "submit_env \<Rightarrow> did \<Rightarrow> did \<Rightarrow> (string \<Rightarrow> response_result option) \<Rightarrow> bool \<Rightarrow> int \<Rightarrow> did option \<Rightarrow> bool \<Rightarrow> int option \<Rightarrow>
     submission \<Rightarrow> did \<Rightarrow> challenge_store \<times> kb_state \<Rightarrow> submission_reply \<times> challenge_store \<times> kb_state" where
  "witness_submission env warden schema verify gated now sovereign trusted level sub fromDid st =
     (case st of (store, s) \<Rightarrow>
       if \<not> truthy_string (sb_delegationProof sub) then (Denied_no_delegation, store, s)
       else case verifyDelegationPresentation warden schema verify gated now (the (sb_delegationProof sub)) fromDid store of
           (Inl e, store') \<Rightarrow> (Denied_delegation e, store', s)
         | (Inr claims, store') \<Rightarrow>
             (case kinds_of (claims ''kinds'') of
                None \<Rightarrow> (Handler_threw, store', s)
              | Some granted \<Rightarrow>
                  if \<not> granted (sb_kind sub) then (Denied_kind, store', s)
                  else let owner = (case member_of (claims ''member'') of Some d \<Rightarrow> Some d | None \<Rightarrow> sovereign);
                         s' = handleSubmission env sub fromDid owner \<lparr>ip_autofileTrusted = trusted, ip_confirmAtOrBelow = level\<rparr> s
                    in (Queued (se_contentId env (sb_ciphertext sub)), store', case s' of None \<Rightarrow> s | Some s1 \<Rightarrow> s1)))"

section \<open>What a delegation shows\<close>

lemma delegation_shown:
  assumes "verifyDelegationPresentation warden schema verify True now presentation holder store = (Inr claims, store')"
  shows "\<exists>res vp rest l. verify presentation = Some res \<and> rr_match res \<and> rr_responder res = Some holder \<and> rr_vps res = vp # rest \<and>
    (\<forall>v\<in>set (rr_vps res). vp_issuer v = warden) \<and> vp_subjectId vp = Some holder \<and> claims = cl_get (vp_claims vp) \<and>
    store (case rr_challenge res of Some c \<Rightarrow> c | None \<Rightarrow> []) = Some l \<and> lv_purpose l = Delegation \<and> now \<le> lv_exp l"
proof -
  let ?opts = "\<lparr>po_trustedIssuers = Some [warden], po_trustRegistry = None, po_schema = Some schema, po_requiredClaims = None,
    po_spentTxns = False\<rparr>"
  obtain res pf u d rest where p: "verify presentation = Some res"
      "verifyProof (\<lambda>_ _. None) (\<lambda>_ _. None) ?opts res () = Some (Inr pf, u)"
      "pf_responder pf = Some holder" "fst (gate Delegation now store (pf_challenge pf))"
      "pf_disclosed pf = d # rest" "dc_subject d \<noteq> []" "Some (dc_subject d) = pf_responder pf" "claims = cl_get (dc_claims d)"
    using assms unfolding verifyDelegationPresentation_def
    by (auto simp: Let_def split: if_splits option.splits sum.splits prod.splits list.splits)
  note v = verifyProof_Inr [OF p(2)]
  have pr: "pf_responder pf = rr_responder res" "pf_challenge pf = (case rr_challenge res of Some c \<Rightarrow> c | None \<Rightarrow> [])"
      "pf_disclosed pf = disclosed_of res" using v(6) by simp_all
  obtain vp vps where vps: "rr_vps res = vp # vps" using p(5) pr(3) by (cases "rr_vps res") (auto simp: disclosed_of_def)
  have d: "dc_subject d = (case vp_subjectId vp of Some s \<Rightarrow> s | None \<Rightarrow> [])" "dc_claims d = vp_claims vp"
    using p(5) pr(3) vps by (auto simp: disclosed_of_def Let_def)
  have subject: "vp_subjectId vp = Some holder" using d(1) p(3,6,7) by (cases "vp_subjectId vp") auto
  have "\<forall>x\<in>set (disclosed_of res). dc_issuer x = warden" using v(5) by (auto simp: isTrusted_def split: if_splits)
  then have "\<forall>i \<in> vp_issuer ` set (rr_vps res). i = warden" unfolding dc_issuer_disclosed [symmetric] by blast
  moreover obtain l where "store (pf_challenge pf) = Some l" "lv_purpose l = Delegation" "now \<le> lv_exp l"
    using p(4) by (auto simp: gate_def consume_def Let_def split: option.splits)
  ultimately show ?thesis using p(1,3,8) v(2) pr vps d(2) subject by auto
qed

lemma submitted_artefact_simps [simp]:
  "ka_id (submitted_artefact env sub e owner n m q c) = se_contentId env (sb_ciphertext sub)"
  "ka_witness (submitted_artefact env sub e owner n m q c) = Some e"
  "ka_owner (submitted_artefact env sub e owner n m q c) = (if truthy_string owner then owner else None)"
  "ka_needsConfirm (submitted_artefact env sub e owner n m q c) = q"
  "ka_sensitivity (submitted_artefact env sub e owner n m q c) = n"
  "ka_kind (submitted_artefact env sub e owner n m q c) = sb_kind sub"
  by (simp_all add: submitted_artefact_def)

lemma handleSubmission_shown:
  assumes "handleSubmission env sub e owner policy s = Some s'"
  shows "\<exists>a. ks_vault s' = vault_put [a] (ks_vault s) \<and> ka_id a = se_contentId env (sb_ciphertext sub) \<and> ka_witness a = Some e \<and>
    ka_kind a = sb_kind sub \<and> ka_owner a = (if truthy_string owner then owner else None) \<and>
    (\<not> ip_autofileTrusted policy \<and> ka_sensitivity a \<le> (case ip_confirmAtOrBelow policy of None \<Rightarrow> sens_num SEALED | Some c \<Rightarrow> c) \<longrightarrow>
      ka_needsConfirm a) \<and>
    (ka_needsConfirm a \<longrightarrow> ks_index s' = ks_index s)"
proof -
  obtain plain where plain: "se_unseal env (sb_ciphertext sub) = Some plain"
    using assms by (auto simp: handleSubmission_def split: option.splits)
  obtain n m unsure caption embedText where c: "classify_submission env (sb_kind sub) plain = (n, m, unsure, caption, embedText)"
    by (cases "classify_submission env (sb_kind sub) plain") auto
  let ?q = "must_confirm policy n unsure"
  let ?a = "submitted_artefact env sub e owner n m ?q caption"
  have "ks_vault s' = vault_put [?a] (ks_vault s) \<and> (?q \<longrightarrow> ks_index s' = ks_index s)"
    using assms plain c by (auto simp: handleSubmission_def Let_def)
  then show ?thesis by (intro exI [of _ ?a]) (auto simp: must_confirm_def)
qed

text \<open>
  C19. What an Emissary submits changes the vault only under a delegation: the submitter, whom the transport
  authenticated, answered a live delegation challenge of this Warden with a credential the Warden issued to it that
  grants the kind; the item records it as its witness, belongs to the member the credential names, or else to the
  Sovereign, and is quarantined unless the submitter is trusted or the item is above the floor.\<close>

theorem submission_needs_delegation:
  assumes "witness_submission env warden schema verify True now sovereign trusted level sub fromDid (store, s) = (reply, store', s')"
    and "s' \<noteq> s"
  shows "\<exists>res vp rest l granted a. verify (the (sb_delegationProof sub)) = Some res \<and> rr_match res \<and>
    rr_responder res = Some fromDid \<and> rr_vps res = vp # rest \<and> vp_issuer vp = warden \<and> vp_subjectId vp = Some fromDid \<and>
    store (case rr_challenge res of Some c \<Rightarrow> c | None \<Rightarrow> []) = Some l \<and> lv_purpose l = Delegation \<and> now \<le> lv_exp l \<and>
    kinds_of (cl_get (vp_claims vp) ''kinds'') = Some granted \<and> granted (ka_kind a) \<and>
    ks_vault s' = vault_put [a] (ks_vault s) \<and> ka_witness a = Some fromDid \<and>
    (let owner = (case member_of (cl_get (vp_claims vp) ''member'') of Some d \<Rightarrow> Some d | None \<Rightarrow> sovereign)
     in ka_owner a = (if truthy_string owner then owner else None)) \<and>
    (\<not> trusted \<and> ka_sensitivity a \<le> (case level of None \<Rightarrow> sens_num SEALED | Some c \<Rightarrow> c) \<longrightarrow> ka_needsConfirm a) \<and>
    (ka_needsConfirm a \<longrightarrow> ks_index s' = ks_index s)"
proof -
  obtain claims granted where c: "verifyDelegationPresentation warden schema verify True now (the (sb_delegationProof sub)) fromDid store
      = (Inr claims, store')" "kinds_of (claims ''kinds'') = Some granted" "granted (sb_kind sub)"
      "handleSubmission env sub fromDid (case member_of (claims ''member'') of Some d \<Rightarrow> Some d | None \<Rightarrow> sovereign)
        \<lparr>ip_autofileTrusted = trusted, ip_confirmAtOrBelow = level\<rparr> s = Some s'"
    using assms unfolding witness_submission_def
    by (auto simp: Let_def split: if_splits option.splits sum.splits prod.splits)
  obtain res vp rest l where d: "verify (the (sb_delegationProof sub)) = Some res" "rr_match res" "rr_responder res = Some fromDid"
      "rr_vps res = vp # rest" "\<forall>v\<in>set (rr_vps res). vp_issuer v = warden" "vp_subjectId vp = Some fromDid"
      "store (case rr_challenge res of Some c \<Rightarrow> c | None \<Rightarrow> []) = Some l" "lv_purpose l = Delegation" "now \<le> lv_exp l"
      "claims = cl_get (vp_claims vp)"
    using delegation_shown [OF c(1)] by auto
  obtain a where a: "ks_vault s' = vault_put [a] (ks_vault s)" "ka_witness a = Some fromDid" "ka_kind a = sb_kind sub"
      "ka_owner a = (if truthy_string (case member_of (claims ''member'') of Some d \<Rightarrow> Some d | None \<Rightarrow> sovereign)
        then (case member_of (claims ''member'') of Some d \<Rightarrow> Some d | None \<Rightarrow> sovereign) else None)"
      "\<not> trusted \<and> ka_sensitivity a \<le> (case level of None \<Rightarrow> sens_num SEALED | Some c \<Rightarrow> c) \<longrightarrow> ka_needsConfirm a"
      "ka_needsConfirm a \<longrightarrow> ks_index s' = ks_index s"
    using handleSubmission_shown [OF c(4)] by auto
  have "vp_issuer vp = warden" using d(4,5) by simp
  then show ?thesis using d(1-4,6-9) c(2,3) a unfolding Let_def d(10)
    by (intro exI [of _ res] exI [of _ vp] exI [of _ rest] exI [of _ l] exI [of _ granted] exI [of _ a]) simp
qed

section \<open>Quarantine\<close>

lemma recall_same_content:
  assumes "\<And>x. x \<in> set entries \<Longrightarrow> in_scope opts x \<Longrightarrow> vault_get (ix_artefactId x) vault = vault_get (ix_artefactId x) vault'"
  shows "recall env keyFor vault entries query opts = recall env keyFor vault' entries query opts"
proof -
  have "readable env keyFor vault p = readable env keyFor vault' p" if "p \<in> set (rankByQuery q entries opts)" for p q
  proof -
    have "fst p \<in> set entries \<and> in_scope opts (fst p)" using that rank_in_scope [of "fst p" "snd p"] by auto
    then have "vault_get (ix_artefactId (fst p)) vault = vault_get (ix_artefactId (fst p)) vault'" using assms by blast
    then show ?thesis by (cases p) (simp add: readable_def resolve_content_def)
  qed
  then have "List.map_filter (readable env keyFor vault) (rankByQuery q entries opts) =
      List.map_filter (readable env keyFor vault') (rankByQuery q entries opts)" for q
    by (auto simp: map_filter_def intro!: map_cong filter_cong)
  then show ?thesis by (simp add: recall_def split: option.split)
qed

lemma vault_get_put_other: "ka_id a \<noteq> i \<Longrightarrow> vault_get i (vault_put [a] vault) = vault_get i vault"
  by (induction vault) (auto simp: vault_get_def get_by_def vault_put_def put_many_def)

lemma vault_get_put: "vault_get (ka_id a) (vault_put [a] vault) = Some a"
  by (induction vault) (auto simp: vault_get_def get_by_def vault_put_def put_many_def)

text \<open>
  A quarantined submission is inert: while its ciphertext is new to the index, no query of any caller under any
  options is answered differently than without it.\<close>

theorem quarantined_inert:
  assumes "handleSubmission env sub e owner policy s = Some s'"
    and "vault_get (se_contentId env (sb_ciphertext sub)) (ks_vault s') = Some a" "ka_needsConfirm a"
    and "se_contentId env (sb_ciphertext sub) \<notin> ix_artefactId ` set (ks_index s)"
  shows "recall renv keyFor (ks_vault s') (ks_index s') query opts = recall renv keyFor (ks_vault s) (ks_index s) query opts"
proof -
  obtain b where b: "ks_vault s' = vault_put [b] (ks_vault s)" "ka_id b = se_contentId env (sb_ciphertext sub)"
      "ka_needsConfirm b \<longrightarrow> ks_index s' = ks_index s"
    using handleSubmission_shown [OF assms(1)] by blast
  have "a = b" using assms(2) b(1,2) vault_get_put [of b] by simp
  then have "ks_index s' = ks_index s" using b(3) assms(3) by simp
  then show ?thesis using b(1,2) assms(4) vault_get_put_other [of b] by (auto intro!: recall_same_content)
qed

text \<open>
  Whoever submits the ciphertext of an item again takes it over: under the default policy a confirmed item of one
  member becomes a quarantined item of another one, while its index entry stays and keeps answering queries.\<close>

theorem resubmission_takes_over:
  assumes "handleSubmission env sub e (Some m) \<lparr>ip_autofileTrusted = False, ip_confirmAtOrBelow = None\<rparr> s = Some s'" "m \<noteq> []"
    and "\<And>k t. fst (se_classify env k t) \<le> sens_num SEALED"
    and "vault_get (se_contentId env (sb_ciphertext sub)) (ks_vault s) = Some a" "\<not> ka_needsConfirm a" "ka_owner a = Some m'"
    and "x \<in> set (ks_index s)" "ix_artefactId x = ka_id a"
  shows "\<exists>a'. vault_get (ka_id a) (ks_vault s') = Some a' \<and> ka_owner a' = Some m \<and> ka_needsConfirm a' \<and> x \<in> set (ks_index s')"
proof -
  have i: "ka_id a = se_contentId env (sb_ciphertext sub)" using assms(4) by (auto simp: vault_get_def get_by_def find_Some_iff)
  obtain plain where plain: "se_unseal env (sb_ciphertext sub) = Some plain"
    using assms(1) by (auto simp: handleSubmission_def split: option.splits)
  obtain n meta unsure caption embedText where c: "classify_submission env (sb_kind sub) plain = (n, meta, unsure, caption, embedText)"
    by (cases "classify_submission env (sb_kind sub) plain") auto
  have "n \<le> sens_num SEALED"
  proof -
    have "n = sens_num SEALED \<or> (\<exists>k t. n = fst (se_classify env k t))"
      using c by (auto simp: classify_submission_def DEFAULT_SENSITIVITY_def split: if_splits option.splits prod.splits) (metis fst_conv)+
    then show ?thesis using assms(3) by auto
  qed
  then have q: "must_confirm \<lparr>ip_autofileTrusted = False, ip_confirmAtOrBelow = None\<rparr> n unsure" by (simp add: must_confirm_def)
  have "s' = s\<lparr>ks_vault := vault_put [submitted_artefact env sub e (Some m) n meta True caption] (ks_vault s)\<rparr>"
    using assms(1) plain c q by (simp add: handleSubmission_def)
  then show ?thesis
    using vault_get_put [of "submitted_artefact env sub e (Some m) n meta True caption"] assms(2,7) i by (cases m) auto
qed

end
