(* ===== verification/Control_Plane.thy ===== *)
theory Control_Plane
  imports Control_Session Submission Guardianship Escalation
begin

text \<open>
  The Warden's control plane: the routes of \<open>packages/warden/src/control.ts\<close> with the co-sign routing of \<open>escalate.ts\<close>
  and the event stream of \<open>core/src/control-server.ts\<close>. A route is a function of the request's environment (the clock, the
  node, the Signets, the models), the configuration, the session token of the header, its arguments and the state. A
  throw is \<^const>\<open>Inl\<close>. Events are the frames pushed to the consoles, by their type, with their audience.
\<close>

section \<open>State, environment and configuration\<close>

record audience =
  au_owner :: "did option"
  au_shared :: bool

record control_state =
  cs_kb :: kb_state
  cs_sessions :: control_sessions
  cs_keys :: session_keys
  cs_shared :: shared_vault
  cs_inbound :: "inbound_card list"
  cs_issued :: "issued_leaf list"
  cs_delegations :: "delegation_record list"
  cs_credentials :: "(did \<times> minted_vc) list"
  cs_edges :: edges
  cs_receipts :: "guardian_receipt list"
  cs_frames :: "(string \<times> audience option) list"

record control_env =
  ce_now :: int
  ce_token :: string
  ce_kb :: kb_env
  ce_responder :: "string \<Rightarrow> did option"
  ce_approve :: "did \<Rightarrow> string \<Rightarrow> string \<Rightarrow> string \<Rightarrow> bool"
  ce_rewrap :: "did \<Rightarrow> (string \<times> string option) list option"
  ce_face :: face_env
  ce_newDid :: "did option"
  ce_schema :: "did \<Rightarrow> json_schema option"
  ce_resident :: bool
  ce_vaultUp :: bool
  ce_sign :: "did \<Rightarrow> signed_ruleset \<Rightarrow> signed_ruleset option"
  ce_ack :: "did \<Rightarrow> signed_ruleset \<Rightarrow> ruleset_proof option"
  ce_checks :: "json \<Rightarrow> bool"
  ce_deliver :: "did \<Rightarrow> did \<Rightarrow> bool option"

record control_config =
  cg_sovereign :: "did option"
  cg_warden :: did
  cg_sovereignId :: did
  cg_delegationSchema :: did
  cg_ttl :: int
  cg_requireSession :: bool
  cg_embedding :: bool
  cg_parent :: "did option"
  cg_households :: "household list"
  cg_kbs :: "(kb_config \<times> did option) list"

datatype control_error = Unauthorized | No_session | Bad_request | Not_available | Not_verified_card | Declined | Unknown_name | Claims_refused | Route_threw

type_synonym 'a route = "control_state \<Rightarrow> (control_error + 'a) \<times> control_state"

section \<open>Events\<close>

text \<open>A client of the stream is the DID its session resolved to when it connected.\<close>

definition delivers :: "audience option \<Rightarrow> did option \<Rightarrow> bool" where
  "delivers a client \<longleftrightarrow>
     (case a of None \<Rightarrow> True | Some au \<Rightarrow> au_shared au \<or> truthy_string (au_owner au) \<and> client = au_owner au)"

definition emit :: "string \<Rightarrow> audience option \<Rightarrow> control_state \<Rightarrow> control_state" where
  "emit f a s = s\<lparr>cs_frames := cs_frames s @ [(f, a)]\<rparr>"

definition to_owner :: "did \<Rightarrow> audience option" where
  "to_owner d = Some \<lparr>au_owner = Some d, au_shared = False\<rparr>"

section \<open>Who asks\<close>

definition resolve_in :: "control_env \<Rightarrow> string option \<Rightarrow> control_state \<Rightarrow> did option \<times> control_state" where
  "resolve_in env tok s = (let (d, ss) = resolve_session (ce_now env) tok (cs_sessions s) in (d, s\<lparr>cs_sessions := ss\<rparr>))"

definition effectiveViewer :: "control_env \<Rightarrow> control_config \<Rightarrow> string option \<Rightarrow> did option route" where
  "effectiveViewer env cfg tok s =
     (let (d, s') = resolve_in env tok s in
      if truthy_string d then (Inr d, s')
      else if cg_requireSession cfg then (Inl Unauthorized, s') else (Inr (cg_sovereign cfg), s'))"

definition with_viewer :: "control_env \<Rightarrow> control_config \<Rightarrow> string option \<Rightarrow> (did option \<Rightarrow> 'a route) \<Rightarrow> 'a route" where
  "with_viewer env cfg tok k s = (case effectiveViewer env cfg tok s of (Inl e, s') \<Rightarrow> (Inl e, s') | (Inr v, s') \<Rightarrow> k v s')"

definition with_member :: "control_env \<Rightarrow> control_config \<Rightarrow> string option \<Rightarrow> (did \<Rightarrow> 'a route) \<Rightarrow> 'a route" where
  "with_member env cfg tok k =
     with_viewer env cfg tok (\<lambda>v s. if truthy_string v then k (the v) s else (Inl No_session, s))"

text \<open>Whether sessions are required, when the configuration does not say: what start-up derives from the households and
  the members of the knowledge bases; a group that cannot be read has no members.\<close>

definition isMultiMember :: "(did \<Rightarrow> did list option) \<Rightarrow> did option \<Rightarrow> household list \<Rightarrow> (kb_config \<times> did option) list \<Rightarrow> bool" where
  "isMultiMember getGroup sovereign households kbs \<longleftrightarrow>
     household_get None households \<noteq> None \<or>
     (\<exists>(kb, _)\<in>set kbs. \<exists>d\<in>set (opt_list (getGroup (kf_readGroup kb)) @ opt_list (getGroup (kf_writeGroup kb))).
        d \<noteq> [] \<and> Some d \<noteq> sovereign)"

definition requireSession :: "bool option \<Rightarrow> bool \<Rightarrow> bool" where
  "requireSession configured multi = (case configured of Some b \<Rightarrow> b | None \<Rightarrow> multi)"

section \<open>Co-signing\<close>

definition coSign :: "control_env \<Rightarrow> did \<Rightarrow> string \<Rightarrow> string \<Rightarrow> string \<Rightarrow> bool" where
  "coSign env d action resource summary = ce_approve env d action resource summary"

text \<open>Approved, the band and the Signet that answered.\<close>

definition routeCoSign ::
  "control_env \<Rightarrow> family_topology \<Rightarrow> authz_tier \<Rightarrow> string \<Rightarrow> string \<Rightarrow> string \<Rightarrow> bool \<times> escalation_band \<times> did option" where
  "routeCoSign env topology tier action resource summary =
     (case approverForTier tier topology of
        None \<Rightarrow> (True, Standing_Band, None)
      | Some d \<Rightarrow>
          (ce_approve env d action resource summary,
           if d = ft_parentDid topology then Parent_Band else Agent_Band, Some d))"

definition card_tier :: "control_env \<Rightarrow> did option \<Rightarrow> string \<Rightarrow> int \<Rightarrow> authz_tier" where
  "card_tier env viewer i n =
     (if n < sens_num MEDIUM then STANDING
      else if \<not> truthy_string viewer then STANDING
      else if ce_approve env (the viewer) ''render'' i (''Reveal a '' @ sensitivityName n @ '' card face'') then tier_for n
      else STANDING)"

definition recallCeiling :: "control_env \<Rightarrow> int \<Rightarrow> did option \<Rightarrow> int" where
  "recallCeiling env requested d =
     (if requested \<le> sens_num LOW \<or> \<not> truthy_string d then sens_num (clearanceCeiling STANDING)
      else sens_num (clearanceCeiling
        (if ce_approve env (the d) ''recall'' (''<='' @ sensitivityName requested) (''Recall over your '' @ sensitivityName requested @ '' vault'')
         then tier_for requested else STANDING)))"

section \<open>Session routes\<close>

datatype response =
    R_status "did option" bool
  | R_snapshot "vault_item list" "(did \<times> did) list" "did option"
  | R_session string int did
  | R_whoami did int
  | R_unlocked nat
  | R_logout bool
  | R_delegated did did
  | R_recall recall_answer "citation list"
  | R_card card_face
  | R_inbound "inbound_card list"
  | R_accepted string
  | R_done
  | R_queue "triage_item list"
  | R_item triage_item
  | R_marks "(string \<times> int \<times> bool) list"
  | R_mark mark_result
  | R_issued did did
  | R_admitted string
  | R_removed nat nat
  | R_share share_result
  | R_read read_result
  | R_watch "active_guardianship list" "did list" "guardian_receipt list"
  | R_passed bool

text \<open>The status tells the proven session and whether it carries the counts of the vault.\<close>

definition get_status :: "control_env \<Rightarrow> control_config \<Rightarrow> string option \<Rightarrow> response route" where
  "get_status env cfg tok s =
     (let (d, s') = resolve_in env tok s in (Inr (R_status d (\<not> (cg_requireSession cfg \<and> \<not> truthy_string d))), s'))"

definition delegationsFor :: "did option \<Rightarrow> did option \<Rightarrow> delegation_record list \<Rightarrow> (did \<times> did) list" where
  "delegationsFor sovereign viewer ds =
     map (\<lambda>d. (dl_subject d, dl_credential d))
       (filter (\<lambda>d. (case dl_member d of Some m \<Rightarrow> Some m | None \<Rightarrow> sovereign) = viewer) ds)"

definition get_snapshot :: "control_env \<Rightarrow> control_config \<Rightarrow> string option \<Rightarrow> response route" where
  "get_snapshot env cfg tok =
     with_viewer env cfg tok (\<lambda>v s.
       let (d, s') = resolve_in env tok s in
       (Inr (R_snapshot (map toVaultItem (filter (visibleTo (cg_sovereign cfg) v) (ks_vault (cs_kb s))))
          (delegationsFor (cg_sovereign cfg) v (cs_delegations s)) d), s'))"

definition login_complete :: "control_env \<Rightarrow> control_config \<Rightarrow> string \<Rightarrow> response route" where
  "login_complete env cfg answer s =
     (if answer = [] then (Inl Bad_request, s)
      else if \<not> truthy_string (ce_responder env answer) then (Inl Declined, s)
      else let d = the (ce_responder env answer); (e, ss) = issue_session (cg_ttl cfg) (ce_now env) (ce_token env) d (cs_sessions s)
        in (Inr (R_session (ce_token env) e d), s\<lparr>cs_sessions := ss\<rparr>))"

definition whoami :: "control_env \<Rightarrow> string option \<Rightarrow> response route" where
  "whoami env tok s =
     (let (d, s') = resolve_in env tok s in
      if \<not> truthy_string d then (Inl No_session, s')
      else (Inr (R_whoami (the d) (case expiresAt (ce_now env) tok (cs_sessions s') of Some e \<Rightarrow> e | None \<Rightarrow> 0)), s'))"

text \<open>\<open>unlockSessionPartitions\<close> with the reply of the member's Signet: the entries it opens to are put under the token.\<close>

definition unlock_partitions ::
  "kb_state \<Rightarrow> did \<Rightarrow> string \<Rightarrow> (string \<times> string option) list option \<Rightarrow> session_keys \<Rightarrow> nat \<times> session_keys" where
  "unlock_partitions kb d token reply ks =
     (case ks_partitions kb d of
        None \<Rightarrow> (0, ks)
      | Some p \<Rightarrow>
          if pr_local p \<and> truthy_string (pr_wrapped p) \<and> pr_pub p \<noteq> None
          then (let opened = List.map_filter (\<lambda>(pid, k). map_option (\<lambda>k. (pid, k)) k) (opt_list reply)
            in (length opened, fold (\<lambda>(pid, k). keys_put token pid k) opened ks))
          else (0, ks))"

definition session_unlock :: "control_env \<Rightarrow> string option \<Rightarrow> response route" where
  "session_unlock env tok s =
     (let (d, s') = resolve_in env tok s in
      if \<not> truthy_string d \<or> \<not> truthy_string tok then (Inl No_session, s')
      else let (n, ks) = unlock_partitions (cs_kb s') (the d) (the tok) (ce_rewrap env (the d)) (cs_keys s')
        in (Inr (R_unlocked n), s'\<lparr>cs_keys := ks\<rparr>))"

definition logout :: "string option \<Rightarrow> response route" where
  "logout tok s =
     (let (revoked, ss) = revoke_session tok (cs_sessions s); s' = s\<lparr>cs_sessions := ss\<rparr> in
      case revoked of
        None \<Rightarrow> (Inr (R_logout False), s')
      | Some t \<Rightarrow> (Inr (R_logout True), s'\<lparr>cs_keys := snd (zeroize t (cs_keys s'))\<rparr>))"

section \<open>Delegating and issuing\<close>

definition default_kinds :: "string list" where
  "default_kinds = [''event'', ''location'', ''activity'', ''browsing'', ''document'', ''book'', ''link'']"

definition delegate :: "control_env \<Rightarrow> control_config \<Rightarrow> string option \<Rightarrow> did \<Rightarrow> string list option \<Rightarrow> response route" where
  "delegate env cfg tok emissary kinds s =
     (if emissary = [] then (Inl Bad_request, s)
      else with_member env cfg tok (\<lambda>actor s.
        if \<not> coSign env actor ''delegate'' emissary (''Delegate submission authority to '' @ emissary) then (Inl Declined, s)
        else case ce_newDid env of
            None \<Rightarrow> (Inl Route_threw, s)
          | Some c \<Rightarrow>
              (let ks = (case kinds of Some (k # rest) \<Rightarrow> k # rest | _ \<Rightarrow> default_kinds);
                 vc = issueDelegation (cg_warden cfg) (cg_delegationSchema cfg) emissary ks None;
                 d = \<lparr>dl_subject = emissary, dl_credential = c, dl_issuedAt = ke_stamp (ce_kb env), dl_member = Some actor, dl_kinds = Some ks\<rparr>
               in (Inr (R_delegated emissary c), emit ''delegation-issued'' None
                 (s\<lparr>cs_credentials := cs_credentials s @ [(c, vc)], cs_delegations := record_delegation d (cs_delegations s)\<rparr>)))) s)"

text \<open>The claims a schema makes of those supplied: its type set, or a refusal when a required field is missing or one is
  not allowed. A text \<open>title\<close> that is empty is none.\<close>

definition set_claim :: "string \<Rightarrow> json \<Rightarrow> (string \<times> json) list \<Rightarrow> (string \<times> json) list" where
  "set_claim k v cs = AList.update k v cs"

definition compose_claims :: "json_schema \<Rightarrow> (string \<times> json) list \<Rightarrow> (string \<times> json) list option" where
  "compose_claims sch cs =
     (let derived = (if truthy_string (js_title sch) then js_title sch else js_typeConst sch);
        cs' = (if truthy_string derived then set_claim ''type'' (JStr (the derived)) cs else cs)
      in if \<exists>k\<in>set (js_required sch). k \<notin> fst ` set cs' then None
         else if js_closed sch \<and> (case js_properties sch of None \<Rightarrow> False | Some ps \<Rightarrow> \<exists>k\<in>fst ` set cs'. k \<notin> set ps) then None
         else Some cs')"

definition issue_credential ::
  "control_env \<Rightarrow> control_config \<Rightarrow> string option \<Rightarrow> did \<Rightarrow> did \<Rightarrow> (string \<times> json) list \<Rightarrow> response route" where
  "issue_credential env cfg tok schema subject cs =
     with_member env cfg tok (\<lambda>viewer s.
       if schema = [] \<or> subject = [] then (Inl Bad_request, s)
       else case ce_schema env schema of
           None \<Rightarrow> (Inl Unknown_name, s)
         | Some sch \<Rightarrow>
             (case compose_claims sch cs of
                None \<Rightarrow> (Inl Claims_refused, s)
              | Some cs' \<Rightarrow>
                  (let issuer = (if Some viewer = cg_sovereign cfg \<and> ce_resident env then cg_sovereignId cfg else cg_warden cfg)
                   in case ce_newDid env of
                       None \<Rightarrow> (Inl Route_threw, s)
                     | Some c \<Rightarrow> (Inr (R_issued c issuer), emit ''credential-issued'' (to_owner viewer)
                         (s\<lparr>cs_credentials := cs_credentials s @ [(c, issueClaim issuer schema subject cs')]\<rparr>)))))"

section \<open>Recall, faces and cards\<close>

definition recall_route :: "control_env \<Rightarrow> control_config \<Rightarrow> string option \<Rightarrow> string \<Rightarrow> int option \<Rightarrow> int option \<Rightarrow> response route" where
  "recall_route env cfg tok query k maxSensitivity s =
     (if query = [] then (Inl Bad_request, s)
      else with_viewer env cfg tok (\<lambda>v s.
        let ceiling = recallCeiling env (case maxSensitivity of None \<Rightarrow> sens_num LOW | Some n \<Rightarrow> n) v;
            (answer, cites) = recall (ke_recall (ce_kb env)) (\<lambda>_. None) (ks_vault (cs_kb s)) (ks_index (cs_kb s)) query
              \<lparr>ro_k = (if k = Some 0 then None else k), ro_maxSensitivity = Some ceiling, ro_kb = Personal_vault, ro_owner = v\<rparr>
        in (Inr (R_recall answer cites), s)) s)"

definition card_face_route :: "control_env \<Rightarrow> control_config \<Rightarrow> string option \<Rightarrow> string \<Rightarrow> response route" where
  "card_face_route env cfg tok i s =
     (if i = [] then (Inl Bad_request, s)
      else with_viewer env cfg tok (\<lambda>v s.
        (Inr (R_card (hydrateCardFace (ce_face env) (visibleTo (cg_sovereign cfg) v) (card_tier env v i) i (ks_vault (cs_kb s)))), s)) s)"

text \<open>Passing a card: the approval, and the acknowledgment of the other node; the state is untouched.\<close>

definition pass_approved :: "control_env \<Rightarrow> control_config \<Rightarrow> did \<Rightarrow> did \<Rightarrow> did \<Rightarrow> bool \<Rightarrow> bool" where
  "pass_approved env cfg d toDid credential legible =
     (let summary = (if legible then ''Pass a READABLE card (claims disclosed) to '' else ''Pass a card to '') @ toDid in
      if truthy_string (cg_parent cfg)
      then fst (routeCoSign env \<lparr>ft_agentDid = d, ft_parentDid = the (cg_parent cfg)\<rparr> (if legible then HUMAN else CHALLENGE)
        ''pass'' credential summary)
      else ce_approve env d ''pass'' credential summary)"

definition card_pass :: "control_env \<Rightarrow> control_config \<Rightarrow> string option \<Rightarrow> did \<Rightarrow> did \<Rightarrow> bool \<Rightarrow> response route" where
  "card_pass env cfg tok toDid credential legible s =
     (if toDid = [] \<or> credential = [] then (Inl Bad_request, s)
      else with_member env cfg tok (\<lambda>d s.
        if \<not> pass_approved env cfg d toDid credential legible then (Inl Declined, s)
        else case ce_deliver env toDid credential of None \<Rightarrow> (Inl Route_threw, s) | Some ok \<Rightarrow> (Inr (R_passed ok), s)) s)"

definition card_inbound :: "control_env \<Rightarrow> control_config \<Rightarrow> string option \<Rightarrow> response route" where
  "card_inbound env cfg tok = with_viewer env cfg tok (\<lambda>v s. (Inr (R_inbound (inbound_list v (cs_inbound s))), s))"

definition card_accept :: "control_env \<Rightarrow> control_config \<Rightarrow> string option \<Rightarrow> did \<Rightarrow> response route" where
  "card_accept env cfg tok credential s =
     (if credential = [] then (Inl Bad_request, s)
      else with_member env cfg tok (\<lambda>d s.
        case getStored credential (cs_inbound s) of
          None \<Rightarrow> (Inl Not_available, s)
        | Some c \<Rightarrow>
            if ib_owner c \<noteq> d then (Inl Not_available, s)
            else if \<not> ib_verified c \<or> ib_closure c = None then (Inl Not_verified_card, s)
            else case promoteVerifiedCard (ce_kb env) d (the (ib_closure c)) (ib_authenticity c) (ib_contentReadable c)
                (ks_vault (cs_kb s)) (cs_issued s) of
                None \<Rightarrow> (Inl Route_threw, s)
              | Some (i, vault, issued) \<Rightarrow>
                  (Inr (R_accepted i), emit ''card-accepted'' (to_owner d) (s\<lparr>cs_kb := (cs_kb s)\<lparr>ks_vault := vault\<rparr>,
                     cs_issued := issued, cs_inbound := inbound_remove credential (cs_inbound s)\<rparr>))) s)"

definition card_decline :: "control_env \<Rightarrow> control_config \<Rightarrow> string option \<Rightarrow> did \<Rightarrow> response route" where
  "card_decline env cfg tok credential s =
     (if credential = [] then (Inl Bad_request, s)
      else with_member env cfg tok (\<lambda>d s.
        case getStored credential (cs_inbound s) of
          None \<Rightarrow> (Inl Not_available, s)
        | Some c \<Rightarrow>
            if ib_owner c \<noteq> d then (Inl Not_available, s)
            else (Inr R_done, emit ''card-declined'' (to_owner d) (s\<lparr>cs_inbound := inbound_remove credential (cs_inbound s)\<rparr>))) s)"

text \<open>
  A card that arrives. \<open>native\<close> tells that the node resolves it, \<open>vc\<close> its content there; \<open>dmz\<close> is the verdict of the DMZ
  when one is configured: verified, the leaf, whether its claims could be read. \<open>rendering\<close> is what the sealed rendering
  opens to (claims, type, subject), \<open>issuerResolves\<close> the check of the issuer against the own node.
\<close>

record card_arrival =
  ca_credential :: did
  ca_from :: did
  ca_native :: bool
  ca_vc :: "resolved_credential option"
  ca_dmz :: "(bool \<times> issued_leaf option \<times> bool option) option"
  ca_rendering :: "((string \<times> string) list \<times> string option \<times> did option) option"
  ca_issuerResolves :: "did \<Rightarrow> bool"

definition verify_arrival :: "string \<Rightarrow> card_arrival \<Rightarrow> bool \<times> issued_leaf option \<times> bool option" where
  "verify_arrival time m =
     (if ca_native m
      then (case ca_vc m of
          Some vc \<Rightarrow> (True, Some (buildIssuedLeaf time (ca_credential m) vc), Some True)
        | None \<Rightarrow> (False, None, None))
      else (case ca_dmz m of Some verdict \<Rightarrow> verdict | None \<Rightarrow> (False, None, None)))"

definition enrich :: "((string \<times> string) list \<times> string option \<times> did option) option \<Rightarrow> issued_leaf \<Rightarrow> issued_leaf \<times> bool" where
  "enrich rendering l =
     (case rendering of
        None \<Rightarrow> (l, False)
      | Some (cs, t, sub) \<Rightarrow> (l\<lparr>il_claims := cs, il_credentialType := (if truthy_string t then the t else il_credentialType l),
          il_subject := (if truthy_string sub then the sub else il_subject l)\<rparr>, True))"

definition receive_card :: "string \<Rightarrow> control_config \<Rightarrow> card_arrival \<Rightarrow> control_state \<Rightarrow> bool \<times> control_state" where
  "receive_card time cfg m s =
     (let (ok, closure, legible) = verify_arrival time m;
          (closure, legible) = (case closure of
              Some l \<Rightarrow> if ok then (let (l', e) = enrich (ca_rendering m) l in (Some l', if e then Some True else legible))
                else (closure, legible)
            | None \<Rightarrow> (closure, legible));
          auth = (case closure of
              Some l \<Rightarrow> if ok then Some (if ca_issuerResolves m (il_issuer l) then Issuer_authentic else Chain_consistent) else None
            | None \<Rightarrow> None);
          owner = (case cg_sovereign cfg of Some d \<Rightarrow> d | None \<Rightarrow> cg_warden cfg);
          c = \<lparr>ib_credentialDid = ca_credential m, ib_from = before_hash (ca_from m), ib_verified = ok, ib_owner = owner,
            ib_closure = closure, ib_authenticity = auth, ib_contentReadable = legible\<rparr>
      in (ok, emit ''card-received'' (to_owner owner) (s\<lparr>cs_inbound := inbound_put c (cs_inbound s)\<rparr>)))"

section \<open>Triage and marks\<close>

definition triage_list :: "control_env \<Rightarrow> control_config \<Rightarrow> string option \<Rightarrow> response route" where
  "triage_list env cfg tok =
     with_viewer env cfg tok (\<lambda>v s. (Inr (R_queue (triageQueue (visibleTo (cg_sovereign cfg) v) (ks_vault (cs_kb s)))), s))"

definition triage_confirm :: "control_env \<Rightarrow> control_config \<Rightarrow> string option \<Rightarrow> string \<Rightarrow> int \<Rightarrow> response route" where
  "triage_confirm env cfg tok i n s =
     (if i = [] then (Inl Bad_request, s)
      else with_viewer env cfg tok (\<lambda>v s.
        case vault_get i (ks_vault (cs_kb s)) of
          None \<Rightarrow> (Inl Not_available, s)
        | Some a \<Rightarrow>
            if \<not> visibleTo (cg_sovereign cfg) v a then (Inl Not_available, s)
            else if truthy_string v \<and> n < ka_sensitivity a \<and> \<not> coSign env (the v) ''triage-relax'' i
                (''Reclassify '' @ sensitivityName (ka_sensitivity a) @ '' to '' @ sensitivityName n)
              then (Inl Declined, s)
            else case confirmTriage i n (ks_vault (cs_kb s)) of
                None \<Rightarrow> (Inl Route_threw, s)
              | Some (item, vault) \<Rightarrow>
                  (let kb = (cs_kb s)\<lparr>ks_vault := vault, ks_index := (case vault_get i vault of
                        None \<Rightarrow> ks_index (cs_kb s)
                      | Some a' \<Rightarrow> indexArtefact (cg_embedding cfg) (fe_plain (ce_face env)) (rv_embed (ke_recall (ce_kb env))) a' None
                          (ks_index (cs_kb s)))\<rparr>
                   in (Inr (R_item item), emit ''triage-confirmed'' (Some \<lparr>au_owner = v, au_shared = False\<rparr>) (s\<lparr>cs_kb := kb\<rparr>)))) s)"

definition marks_claimable :: "control_env \<Rightarrow> control_config \<Rightarrow> string option \<Rightarrow> mark_candidate list \<Rightarrow> response route" where
  "marks_claimable env cfg tok cs =
     with_member env cfg tok (\<lambda>d s. (Inr (R_marks (claimableMarks (cg_sovereign cfg) d cs (ks_vault (cs_kb s)))), s))"

definition marks_claim :: "control_env \<Rightarrow> control_config \<Rightarrow> string option \<Rightarrow> mark_candidate \<Rightarrow> response route" where
  "marks_claim env cfg tok c =
     with_member env cfg tok (\<lambda>d s.
       case claimMark (\<lambda>_ _ _. ce_newDid env) (cg_sovereign cfg) d c (ks_vault (cs_kb s)) of
         Mark_threw \<Rightarrow> (Inl Route_threw, s)
       | Mark_issued n m \<Rightarrow> (Inr (R_mark (Mark_issued n m)), emit ''mark-issued'' (to_owner d) s)
       | Not_yet n \<Rightarrow> (Inr (R_mark (Not_yet n)), s))"

section \<open>The household\<close>

definition household_admit :: "control_env \<Rightarrow> control_config \<Rightarrow> did \<Rightarrow> response route" where
  "household_admit env cfg d s =
     (if d = [] then (Inl Bad_request, s)
      else case household_get None (cg_households cfg) of
        None \<Rightarrow> (Inl Unknown_name, s)
      | Some hh \<Rightarrow>
          if \<not> ce_approve env (hh_governor hh) ''admit-member'' (hh_id hh) (''Admit '' @ take 20 d @ ''... to the household'')
          then (Inl Declined, s)
          else let (p, v, kb) = admitMember (ce_kb env) (ce_vaultUp env) hh d (cs_shared s) (cs_kb s);
                   s' = s\<lparr>cs_shared := v, cs_kb := kb\<rparr>
            in case p of None \<Rightarrow> (Inl Route_threw, s')
               | Some p \<Rightarrow> (Inr (R_admitted (pr_id p)), emit ''household-changed'' None s'))"

definition household_remove :: "control_env \<Rightarrow> control_config \<Rightarrow> did \<Rightarrow> response route" where
  "household_remove env cfg d s =
     (if d = [] then (Inl Bad_request, s)
      else case household_get None (cg_households cfg) of
        None \<Rightarrow> (Inl Unknown_name, s)
      | Some hh \<Rightarrow>
          if \<not> ce_approve env (hh_governor hh) ''remove-member'' (hh_id hh) (''Remove '' @ take 20 d @ ''... from the household'')
          then (Inl Declined, s)
          else case remove_grants (ce_vaultUp env) hh d (cs_shared s) (cs_kb s) of
              None \<Rightarrow> (Inl Route_threw, s)
            | Some (v, kb) \<Rightarrow>
                (let (tokens, ss) = revokeAllFor d (cs_sessions s); (n, ks) = zeroize_all tokens (cs_keys s)
                 in (Inr (R_removed (length tokens) n), emit ''household-changed'' None
                   (s\<lparr>cs_shared := v, cs_kb := kb, cs_sessions := ss, cs_keys := ks\<rparr>))))"

definition vault_share :: "control_env \<Rightarrow> control_config \<Rightarrow> string option \<Rightarrow> string \<Rightarrow> response route" where
  "vault_share env cfg tok i s =
     (if i = [] then (Inl Bad_request, s)
      else case household_get None (cg_households cfg) of
        None \<Rightarrow> (Inl Unknown_name, s)
      | Some hh \<Rightarrow> with_member env cfg tok (\<lambda>d s.
            let (r, v, kb) = shareToHousehold (ce_kb env) (fe_plain (ce_face env)) (ce_vaultUp env) (cg_sovereign cfg) hh i d
                  (\<lambda>n. ce_approve env d ''share'' i (''Share a '' @ sensitivityName n @ '' note to the household'')) (cs_shared s) (cs_kb s);
                s' = s\<lparr>cs_shared := v, cs_kb := kb\<rparr>
            in case r of
                Share_threw \<Rightarrow> (Inl Route_threw, s')
              | Shared \<Rightarrow> (Inr (R_share r), emit ''household-changed'' (Some \<lparr>au_owner = None, au_shared = True\<rparr>) s')
              | _ \<Rightarrow> (Inr (R_share r), s')) s)"

section \<open>Guardianship and knowledge bases\<close>

definition grant_route :: "control_env \<Rightarrow> control_config \<Rightarrow> string option \<Rightarrow> grant_request \<Rightarrow> response route" where
  "grant_route env cfg tok req s =
     (if gg_subject req = [] then (Inl Bad_request, s)
      else with_viewer env cfg tok (\<lambda>v s.
       case guardian_grant (ke_hash (ce_kb env)) (ce_sign env (the v)) (map_option hh_governor (household_get None (cg_households cfg)))
           v req (cs_edges s) of
         None \<Rightarrow> (Inl Declined, s)
       | Some es \<Rightarrow> (Inr R_done, emit ''guardianship-proposed'' (to_owner (gg_subject req)) (s\<lparr>cs_edges := es\<rparr>))) s)"

definition acknowledge_route :: "control_env \<Rightarrow> control_config \<Rightarrow> string option \<Rightarrow> did \<Rightarrow> response route" where
  "acknowledge_route env cfg tok governor s =
     (if governor = [] then (Inl Bad_request, s)
      else with_viewer env cfg tok (\<lambda>v s.
       case guardian_acknowledge (ce_ack env (the v)) v governor (cs_edges s) of
         None \<Rightarrow> (Inl Declined, s)
       | Some es \<Rightarrow> (Inr R_done, s\<lparr>cs_edges := es\<rparr>)) s)"

definition revoke_route :: "control_env \<Rightarrow> control_config \<Rightarrow> string option \<Rightarrow> did \<Rightarrow> response route" where
  "revoke_route env cfg tok subject s =
     (if subject = [] then (Inl Bad_request, s)
      else with_viewer env cfg tok (\<lambda>v s.
       case guardian_revoke (ke_hash (ce_kb env)) (ce_sign env (the v)) v subject (cs_edges s) of
         None \<Rightarrow> (Inl Declined, s)
       | Some es \<Rightarrow> (Inr R_done, emit ''guardianship-proposed'' (to_owner subject) (s\<lparr>cs_edges := es\<rparr>))) s)"

definition read_route :: "control_env \<Rightarrow> control_config \<Rightarrow> string option \<Rightarrow> did \<Rightarrow> string \<Rightarrow> response route" where
  "read_route env cfg tok subject i s =
     (if subject = [] \<or> i = [] then (Inl Bad_request, s)
      else with_viewer env cfg tok (\<lambda>v s.
       case guardian_read (ke_hash (ce_kb env)) (ce_checks env) (fe_plain (ce_face env)) (cg_sovereign cfg) (ks_vault (cs_kb s))
           v subject i (ke_stamp (ce_kb env)) (cs_edges s) (cs_receipts s) of
         None \<Rightarrow> (Inl Bad_request, s)
       | Some (r, receipts) \<Rightarrow>
           (case r of
              Face _ \<Rightarrow> (Inr (R_read r), emit ''guardian-read'' (to_owner subject) (s\<lparr>cs_receipts := receipts\<rparr>))
            | Read_threw \<Rightarrow> (Inl Route_threw, s\<lparr>cs_receipts := receipts\<rparr>)
            | _ \<Rightarrow> (Inr (R_read r), s\<lparr>cs_receipts := receipts\<rparr>))) s)"

definition guardianships_route :: "control_env \<Rightarrow> control_config \<Rightarrow> string option \<Rightarrow> response route" where
  "guardianships_route env cfg tok =
     with_member env cfg tok (\<lambda>d s.
       (Inr (R_watch (activeGuardianships (ke_hash (ce_kb env)) (ce_checks env) (cs_edges s) d)
          (map fst (forGovernor d (cs_edges s))) (receipts_for d (cs_receipts s))), s))"

text \<open>Without a scope the summary says read, and nothing is changed.\<close>

datatype kb_scope_arg = No_scope | Read_scope | Write_scope | Both_scope

definition grant_scope :: "kb_config \<Rightarrow> kb_scope_arg \<Rightarrow> did \<Rightarrow> kb_state \<Rightarrow> kb_state" where
  "grant_scope kb sc d s =
     (let s1 = (if sc = Read_scope \<or> sc = Both_scope then grant_member (kf_readGroup kb) d s else s)
      in if sc = Write_scope \<or> sc = Both_scope then grant_member (kf_writeGroup kb) d s1 else s1)"

definition revoke_scope :: "kb_config \<Rightarrow> kb_scope_arg \<Rightarrow> did \<Rightarrow> kb_state \<Rightarrow> kb_state" where
  "revoke_scope kb sc d s =
     (let s1 = (if sc = Read_scope \<or> sc = Both_scope then revoke_member (kf_readGroup kb) d s else s)
      in if sc = Write_scope \<or> sc = Both_scope then revoke_member (kf_writeGroup kb) d s1 else s1)"

definition find_kb :: "control_config \<Rightarrow> string \<Rightarrow> (kb_config \<times> did option) option" where
  "find_kb cfg i = find (\<lambda>(kb, _). kf_kbId kb = i) (cg_kbs cfg)"

definition scope_name :: "kb_scope_arg \<Rightarrow> string" where
  "scope_name sc = (case sc of No_scope \<Rightarrow> ''read'' | Read_scope \<Rightarrow> ''read'' | Write_scope \<Rightarrow> ''write'' | Both_scope \<Rightarrow> ''both'')"

definition kb_grant :: "control_env \<Rightarrow> control_config \<Rightarrow> string option \<Rightarrow> string \<Rightarrow> did \<Rightarrow> kb_scope_arg \<Rightarrow> response route" where
  "kb_grant env cfg tok i d sc s =
     (case find_kb cfg i of
        None \<Rightarrow> (Inl Unknown_name, s)
      | Some (kb, governor) \<Rightarrow>
          if d = [] then (Inl Bad_request, s)
          else with_member env cfg tok (\<lambda>actor s.
            if \<not> coSign env (case governor of Some g \<Rightarrow> g | None \<Rightarrow> actor) ''kb-grant'' (i @ ''/'' @ d)
                (''Grant '' @ scope_name sc @ '' on '' @ i @ '' to '' @ d)
            then (Inl Declined, s)
            else let s1 = grant_scope kb sc d (cs_kb s) in
              if kf_memberPartitions kb
              then (case provisionMemberPartition (ce_kb env) i d s1 of
                  (None, s2) \<Rightarrow> (Inl Route_threw, s\<lparr>cs_kb := s2\<rparr>)
                | (Some _, s2) \<Rightarrow> (Inr R_done, emit ''kb-changed'' None (s\<lparr>cs_kb := s2\<rparr>)))
              else (Inr R_done, emit ''kb-changed'' None (s\<lparr>cs_kb := s1\<rparr>))) s)"

definition kb_revoke :: "control_env \<Rightarrow> control_config \<Rightarrow> string option \<Rightarrow> string \<Rightarrow> did \<Rightarrow> kb_scope_arg \<Rightarrow> response route" where
  "kb_revoke env cfg tok i d sc s =
     (case find_kb cfg i of
        None \<Rightarrow> (Inl Unknown_name, s)
      | Some (kb, governor) \<Rightarrow>
          if d = [] then (Inl Bad_request, s)
          else with_member env cfg tok (\<lambda>actor s.
            if \<not> coSign env (case governor of Some g \<Rightarrow> g | None \<Rightarrow> actor) ''kb-revoke'' (i @ ''/'' @ d)
                (''Revoke '' @ scope_name sc @ '' on '' @ i @ '' from '' @ d)
            then (Inl Declined, s)
            else (Inr R_done, emit ''kb-changed'' None (s\<lparr>cs_kb := revoke_scope kb sc d (cs_kb s)\<rparr>))) s)"

section \<open>The router\<close>

datatype request =
    Get_status | Get_snapshot | Login string | Whoami | Unlock | Logout
  | Delegate did "string list option" | Issue did did "(string \<times> json) list"
  | Recall_query string "int option" "int option" | Card_face string | Card_pass did did bool
  | Card_inbound | Card_accept did | Card_decline did
  | Triage_list | Triage_confirm string int | Marks_claimable "mark_candidate list" | Marks_claim mark_candidate
  | Admit did | Remove did | Share string
  | Guardian_grant grant_request | Guardian_acknowledge did | Guardian_revoke did | Guardian_read did string | Guardianships
  | Kb_grant string did kb_scope_arg | Kb_revoke string did kb_scope_arg

fun handle_route :: "control_env \<Rightarrow> control_config \<Rightarrow> string option \<Rightarrow> request \<Rightarrow> response route" where
  "handle_route env cfg tok Get_status = get_status env cfg tok"
| "handle_route env cfg tok Get_snapshot = get_snapshot env cfg tok"
| "handle_route env cfg tok (Login a) = login_complete env cfg a"
| "handle_route env cfg tok Whoami = whoami env tok"
| "handle_route env cfg tok Unlock = session_unlock env tok"
| "handle_route env cfg tok Logout = logout tok"
| "handle_route env cfg tok (Delegate d ks) = delegate env cfg tok d ks"
| "handle_route env cfg tok (Issue sch d cs) = issue_credential env cfg tok sch d cs"
| "handle_route env cfg tok (Recall_query q k n) = recall_route env cfg tok q k n"
| "handle_route env cfg tok (Card_face i) = card_face_route env cfg tok i"
| "handle_route env cfg tok (Card_pass d c b) = card_pass env cfg tok d c b"
| "handle_route env cfg tok Card_inbound = card_inbound env cfg tok"
| "handle_route env cfg tok (Card_accept c) = card_accept env cfg tok c"
| "handle_route env cfg tok (Card_decline c) = card_decline env cfg tok c"
| "handle_route env cfg tok Triage_list = triage_list env cfg tok"
| "handle_route env cfg tok (Triage_confirm i n) = triage_confirm env cfg tok i n"
| "handle_route env cfg tok (Marks_claimable cs) = marks_claimable env cfg tok cs"
| "handle_route env cfg tok (Marks_claim c) = marks_claim env cfg tok c"
| "handle_route env cfg tok (Admit d) = household_admit env cfg d"
| "handle_route env cfg tok (Remove d) = household_remove env cfg d"
| "handle_route env cfg tok (Share i) = vault_share env cfg tok i"
| "handle_route env cfg tok (Guardian_grant r) = grant_route env cfg tok r"
| "handle_route env cfg tok (Guardian_acknowledge d) = acknowledge_route env cfg tok d"
| "handle_route env cfg tok (Guardian_revoke d) = revoke_route env cfg tok d"
| "handle_route env cfg tok (Guardian_read d i) = read_route env cfg tok d i"
| "handle_route env cfg tok Guardianships = guardianships_route env cfg tok"
| "handle_route env cfg tok (Kb_grant i d sc) = kb_grant env cfg tok i d sc"
| "handle_route env cfg tok (Kb_revoke i d sc) = kb_revoke env cfg tok i d sc"

end
