(* ===== verification/Control_Safety.thy ===== *)
theory Control_Safety
  imports Control_Plane
begin

text \<open>
  What the routes of \<open>Control_Plane\<close> keep: sessions stand for proven DIDs, answers depend on what the viewer sees, faces and
  recalls stay under the ladder, only verified cards are imported; and where the code does not do what it says.
\<close>

section \<open>Routes and sessions\<close>

text \<open>\<open>ss'\<close> knows no session that \<open>ss\<close> does not.\<close>

definition sessions_within :: "control_sessions \<Rightarrow> control_sessions \<Rightarrow> bool" where
  "sessions_within ss' ss \<longleftrightarrow> (\<forall>now t d. session_of now t ss' = Some d \<longrightarrow> session_of now t ss = Some d) \<and>
     (sessions_ok ss \<longrightarrow> sessions_ok ss')"

lemma within_refl [simp]: "sessions_within ss ss"
  by (simp add: sessions_within_def)

lemma within_trans: "sessions_within a b \<Longrightarrow> sessions_within b c \<Longrightarrow> sessions_within a c"
  by (auto simp: sessions_within_def)

lemma within_resolve: "sessions_within (snd (resolve_session now tok ss)) ss"
  unfolding sessions_within_def using sessions.seen [of _ _ now tok ss] sessions.good_see [of ss now tok] by blast

lemma within_revoke: "sessions_within (snd (revoke_session tok ss)) ss"
  unfolding sessions_within_def using sessions.who_leave [of _ _ tok ss] sessions.good_leave [of ss tok] by (simp split: if_splits)

lemma within_expel: "sessions_ok ss \<Longrightarrow> sessions_within (snd (revokeAllFor d ss)) ss"
  unfolding sessions_within_def using sessions.who_expel [of ss _ _ d] sessions.good_expel [of ss d] by (simp split: if_splits)

lemma resolve_in_within: "sessions_within (cs_sessions (snd (resolve_in env tok s))) (cs_sessions s)"
  using within_resolve [of "ce_now env" tok "cs_sessions s"] by (simp add: resolve_in_def case_prod_beta' Let_def)

lemma emit_sessions [simp]: "cs_sessions (emit f a s) = cs_sessions s"
  by (simp add: emit_def)

definition viewer_of :: "control_env \<Rightarrow> control_config \<Rightarrow> string option \<Rightarrow> control_state \<Rightarrow> control_error + did option" where
  "viewer_of env cfg tok s = fst (effectiveViewer env cfg tok s)"

lemma with_viewer_alt:
  "with_viewer env cfg tok k s =
     (case viewer_of env cfg tok s of Inl e \<Rightarrow> (Inl e, snd (resolve_in env tok s)) | Inr v \<Rightarrow> k v (snd (resolve_in env tok s)))"
  by (simp add: with_viewer_def viewer_of_def effectiveViewer_def case_prod_beta' Let_def)

text \<open>A result of a route at \<open>s\<close> that brings in no session.\<close>

definition quiet :: "control_state \<Rightarrow> 'a \<times> control_state \<Rightarrow> bool" where
  "quiet s r \<longleftrightarrow> sessions_within (cs_sessions (snd r)) (cs_sessions s)"

lemma quiet_same: "cs_sessions (snd r) = cs_sessions s \<Longrightarrow> quiet s r"
  by (simp add: quiet_def)

lemma quiet_if: "(b \<Longrightarrow> quiet s x) \<Longrightarrow> (\<not> b \<Longrightarrow> quiet s y) \<Longrightarrow> quiet s (if b then x else y)"
  by simp

lemma quiet_option: "(x = None \<Longrightarrow> quiet s a) \<Longrightarrow> (\<And>y. x = Some y \<Longrightarrow> quiet s (f y)) \<Longrightarrow> quiet s (case x of None \<Rightarrow> a | Some y \<Rightarrow> f y)"
  by (cases x) simp_all

lemma quiet_prod: "(\<And>a b. x = (a, b) \<Longrightarrow> quiet s (f a b)) \<Longrightarrow> quiet s (case x of (a, b) \<Rightarrow> f a b)"
  by (cases x) simp

lemma quiet_viewer: "(\<And>v t. quiet t (k v t)) \<Longrightarrow> quiet s (with_viewer env cfg tok k s)"
  unfolding quiet_def with_viewer_alt using within_trans [OF _ resolve_in_within [of env tok s]] resolve_in_within [of env tok s]
  by (simp split: sum.split)

lemma quiet_member: "(\<And>d t. quiet t (k d t)) \<Longrightarrow> quiet s (with_member env cfg tok k s)"
  unfolding with_member_def by (rule quiet_viewer) (simp add: quiet_same)

lemma quiet_resolve: "quiet s (x, snd (resolve_in env tok s))"
  using resolve_in_within by (simp add: quiet_def)

lemmas route_defs = get_status_def get_snapshot_def whoami_def session_unlock_def delegate_def issue_credential_def recall_route_def
  card_face_route_def card_pass_def card_inbound_def card_accept_def card_decline_def triage_list_def triage_confirm_def
  marks_claimable_def marks_claim_def household_admit_def vault_share_def grant_route_def acknowledge_route_def revoke_route_def
  read_route_def guardianships_route_def kb_grant_def kb_revoke_def

lemma quiet_routes:
  "quiet s (delegate env cfg tok d ks s)" "quiet s (issue_credential env cfg tok d sch cs s)" "quiet s (recall_route env cfg tok q k n s)"
  "quiet s (card_face_route env cfg tok i s)" "quiet s (card_pass env cfg tok d c b s)" "quiet s (card_inbound env cfg tok s)"
  "quiet s (card_accept env cfg tok c s)" "quiet s (card_decline env cfg tok c s)" "quiet s (triage_list env cfg tok s)"
  "quiet s (triage_confirm env cfg tok i m s)" "quiet s (marks_claimable env cfg tok mcs s)" "quiet s (marks_claim env cfg tok mc s)"
  "quiet s (household_admit env cfg d s)" "quiet s (vault_share env cfg tok i s)" "quiet s (grant_route env cfg tok req s)"
  "quiet s (acknowledge_route env cfg tok d s)" "quiet s (revoke_route env cfg tok d s)" "quiet s (read_route env cfg tok d i s)"
  "quiet s (guardianships_route env cfg tok s)" "quiet s (kb_grant env cfg tok i d sc s)" "quiet s (kb_revoke env cfg tok i d sc s)"
  unfolding route_defs
  by (rule quiet_if quiet_option quiet_prod quiet_member quiet_viewer
      | (rule quiet_same; simp add: Let_def case_prod_beta' split: option.split mark_result.split read_result.split share_result.split; fail))+

lemma route_quiet:
  assumes "\<nexists>a. req = Login a" "req \<noteq> Logout" "\<nexists>d. req = Remove d"
  shows "quiet s (handle_route env cfg tok req s)"
proof -
  have resolving: "quiet s (get_status env cfg tok s)" "quiet s (whoami env tok s)" "quiet s (session_unlock env tok s)"
    using resolve_in_within [of env tok s] by (auto simp: quiet_def get_status_def whoami_def session_unlock_def case_prod_beta' Let_def)
  have "quiet s (get_snapshot env cfg tok s)"
    unfolding get_snapshot_def by (rule quiet_viewer) (simp add: case_prod_beta' Let_def quiet_resolve)
  then show ?thesis using assms resolving by (cases req) (simp_all add: quiet_routes)
qed

section \<open>Whoever is believed has proved it\<close>

text \<open>What the daemon serves, in order: each request with its environment and its token.\<close>

type_synonym served = "control_env \<times> string option \<times> request"

fun control_run :: "control_config \<Rightarrow> served list \<Rightarrow> control_state \<Rightarrow> control_state" where
  "control_run cfg [] s = s"
| "control_run cfg ((env, tok, req) # evs) s = control_run cfg evs (snd (handle_route env cfg tok req s))"

definition logs_in :: "served \<Rightarrow> string \<Rightarrow> did \<Rightarrow> bool" where
  "logs_in e t d \<longleftrightarrow> (case e of (env, _, req) \<Rightarrow> ce_token env = t \<and> (\<exists>a. req = Login a \<and> ce_responder env a = Some d))"

definition removal_approved :: "control_env \<Rightarrow> control_config \<Rightarrow> did \<Rightarrow> bool" where
  "removal_approved env cfg d \<longleftrightarrow> (\<exists>hh. household_get None (cg_households cfg) = Some hh \<and> d \<noteq> [] \<and> ce_vaultUp env \<and>
     ce_approve env (hh_governor hh) ''remove-member'' (hh_id hh) (''Remove '' @ take 20 d @ ''... from the household''))"

definition ends_session :: "control_config \<Rightarrow> served \<Rightarrow> string \<Rightarrow> did \<Rightarrow> bool" where
  "ends_session cfg e t d \<longleftrightarrow> (case e of (env, tok, req) \<Rightarrow> req = Logout \<and> tok = Some t \<or> req = Remove d \<and> removal_approved env cfg d)"

lemma remove_sessions:
  "cs_sessions (snd (household_remove env cfg d s)) =
     (if removal_approved env cfg d then snd (revokeAllFor d (cs_sessions s)) else cs_sessions s)"
proof (cases "household_get None (cg_households cfg)")
  case (Some hh)
  then show ?thesis by (auto simp: household_remove_def removal_approved_def remove_grants_def case_prod_beta' Let_def)
qed (simp add: household_remove_def removal_approved_def)

lemma logout_sessions: "cs_sessions (snd (logout tok s)) = snd (revoke_session tok (cs_sessions s))"
  by (auto simp: logout_def case_prod_beta' Let_def split: option.split)

lemma login_sessions:
  "cs_sessions (snd (login_complete env cfg a s)) =
     (if a \<noteq> [] \<and> truthy_string (ce_responder env a)
      then snd (issue_session (cg_ttl cfg) (ce_now env) (ce_token env) (the (ce_responder env a)) (cs_sessions s)) else cs_sessions s)"
  by (auto simp: login_complete_def case_prod_beta' Let_def)

lemma route_ok: "sessions_ok (cs_sessions s) \<Longrightarrow> sessions_ok (cs_sessions (snd (handle_route env cfg tok req s)))"
proof -
  assume ok: "sessions_ok (cs_sessions s)"
  consider a where "req = Login a" | "req = Logout" | d where "req = Remove d" | "\<nexists>a. req = Login a" "req \<noteq> Logout" "\<nexists>d. req = Remove d"
    by blast
  then show ?thesis
  proof cases
    case 4
    then show ?thesis using route_quiet [OF 4, of s env cfg tok] ok by (simp add: quiet_def sessions_within_def)
  qed (use ok sessions.good_enter sessions.good_leave sessions.good_expel in \<open>simp_all add: login_sessions logout_sessions remove_sessions\<close>)
qed

lemma route_sessions:
  assumes "session_of now t (cs_sessions (snd (handle_route env cfg tok req s))) = Some d" "sessions_ok (cs_sessions s)"
  shows "logs_in (env, tok, req) t d \<and> now \<le> ce_now env + cg_ttl cfg \<or>
    session_of now t (cs_sessions s) = Some d \<and> \<not> ends_session cfg (env, tok, req) t d"
proof -
  consider a where "req = Login a" | "req = Logout" | d' where "req = Remove d'" | "\<nexists>a. req = Login a" "req \<noteq> Logout" "\<nexists>d. req = Remove d"
    by blast
  then show ?thesis
  proof cases
    case 1
    have "t \<noteq> []" using assms(1) by (auto simp: session_of_alt)
    show ?thesis
    proof (cases "a \<noteq> [] \<and> truthy_string (ce_responder env a)")
      case True
      then obtain d' where d': "ce_responder env a = Some d'" by (cases "ce_responder env a") auto
      have "session_of now t (snd (issue_session (cg_ttl cfg) (ce_now env) (ce_token env) d' (cs_sessions s))) = Some d"
        using assms(1) 1 True d' by (simp add: login_sessions)
      then show ?thesis using 1 d' \<open>t \<noteq> []\<close> sessions.who_enter [of "ce_token env" now t "cg_ttl cfg" "ce_now env" d' "cs_sessions s"]
        by (cases "ce_token env = []") (auto simp: logs_in_def ends_session_def session_of_alt issue_session_def update_conv' split: if_splits)
    next
      case False
      then show ?thesis using assms(1) 1 by (auto simp: login_sessions ends_session_def)
    qed
  next
    case 2
    then show ?thesis using assms(1) sessions.who_leave [of now t tok "cs_sessions s"]
      by (auto simp: logout_sessions ends_session_def split: if_splits)
  next
    case 3
    then show ?thesis using assms sessions.who_expel [of "cs_sessions s" now t d']
      by (auto simp: remove_sessions ends_session_def split: if_splits)
  next
    case 4
    then show ?thesis using route_quiet [OF 4, of s env cfg tok] assms(1)
      by (auto simp: quiet_def sessions_within_def ends_session_def)
  qed
qed

lemma session_proven:
  assumes "session_of now t (cs_sessions (control_run cfg evs s)) = Some d" "sessions_ok (cs_sessions s)"
    and "session_of now t (cs_sessions s) \<noteq> Some d"
  shows "\<exists>before e later. evs = before @ e # later \<and> logs_in e t d \<and> now \<le> ce_now (fst e) + cg_ttl cfg \<and>
    (\<forall>e'\<in>set later. \<not> ends_session cfg e' t d)"
  using assms(1,2)
proof (induction evs rule: rev_induct)
  case Nil
  then show ?case using assms(3) by simp
next
  case (snoc e evs)
  obtain env tok req where e: "e = (env, tok, req)" by (cases e)
  have run: "control_run cfg (evs @ [e]) s = snd (handle_route env cfg tok req (control_run cfg evs s))" for evs s
    by (induction cfg evs s rule: control_run.induct) (auto simp: e)
  have ok: "sessions_ok (cs_sessions (control_run cfg evs s))"
    using snoc.prems(2) by (induction cfg evs s rule: control_run.induct) (simp_all add: route_ok)
  from route_sessions [OF snoc.prems(1) [unfolded run] ok] show ?case
  proof
    assume "logs_in (env, tok, req) t d \<and> now \<le> ce_now env + cg_ttl cfg"
    then show ?thesis by (intro exI [of _ evs] exI [of _ e] exI [of _ "[]"]) (simp add: e)
  next
    assume old: "session_of now t (cs_sessions (control_run cfg evs s)) = Some d \<and> \<not> ends_session cfg (env, tok, req) t d"
    then obtain before e0 later where "evs = before @ e0 # later" "logs_in e0 t d" "now \<le> ce_now (fst e0) + cg_ttl cfg"
        "\<forall>e'\<in>set later. \<not> ends_session cfg e' t d"
      using snoc.IH snoc.prems(2) by blast
    then show ?thesis using old by (intro exI [of _ before] exI [of _ e0] exI [of _ "later @ [e]"]) (auto simp: e)
  qed
qed

text \<open>
  Nobody is believed without proof: from the start of the daemon, whatever is served, a request speaks for a member
  only when that member answered a challenge and was given this very token, not longer ago than the sessions last, and has
  neither logged out with it nor been removed since; otherwise it speaks for nobody, or, where sessions are not required,
  for the configured Sovereign.\<close>

theorem viewer_proven:
  assumes "cs_sessions s = []" "viewer_of env cfg tok (control_run cfg evs s) = Inr v"
  shows "\<not> cg_requireSession cfg \<and> v = cg_sovereign cfg \<or>
    (\<exists>t d before e later. tok = Some t \<and> v = Some d \<and> evs = before @ e # later \<and> logs_in e t d \<and>
      ce_now env \<le> ce_now (fst e) + cg_ttl cfg \<and> (\<forall>e'\<in>set later. \<not> ends_session cfg e' t d))"
proof (cases "fst (resolve_in env tok (control_run cfg evs s))")
  case None
  then show ?thesis using assms(2) by (auto simp: viewer_of_def effectiveViewer_def case_prod_beta' Let_def split: if_splits)
next
  case (Some d)
  obtain t where t: "tok = Some t" using Some by (cases tok) (auto simp: resolve_in_def resolve_session_def)
  have "session_of (ce_now env) t (cs_sessions (control_run cfg evs s)) = Some d"
    using Some t by (simp add: resolve_in_def session_of_def case_prod_beta' Let_def)
  moreover have "sessions_ok (cs_sessions s)" "session_of (ce_now env) t (cs_sessions s) \<noteq> Some d"
    using assms(1) by (simp_all add: sessions_ok_def session_of_alt)
  ultimately obtain before e later where "evs = before @ e # later" "logs_in e t d" "ce_now env \<le> ce_now (fst e) + cg_ttl cfg"
      "\<forall>e'\<in>set later. \<not> ends_session cfg e' t d"
    using session_proven by blast
  moreover have "v = Some d \<or> \<not> cg_requireSession cfg \<and> v = cg_sovereign cfg"
    using assms(2) Some by (auto simp: viewer_of_def effectiveViewer_def case_prod_beta' Let_def split: if_splits)
  ultimately show ?thesis using t by blast
qed

section \<open>Answers depend on what the viewer sees\<close>

text \<open>Two states that look the same to \<open>v\<close>: its items and the shared ones, its delegations, its pending cards, the index
  entries a recall of its vault may draw on.\<close>

definition own_entry :: "did option \<Rightarrow> index_entry \<Rightarrow> bool" where
  "own_entry v e \<longleftrightarrow> ix_kb e = None \<and> (ix_owner e = v \<or> ix_scope e = Some ''shared'')"

definition same_to :: "control_config \<Rightarrow> did option \<Rightarrow> control_state \<Rightarrow> control_state \<Rightarrow> bool" where
  "same_to cfg v s s' \<longleftrightarrow>
     filter (visibleTo (cg_sovereign cfg) v) (ks_vault (cs_kb s)) = filter (visibleTo (cg_sovereign cfg) v) (ks_vault (cs_kb s')) \<and>
     delegationsFor (cg_sovereign cfg) v (cs_delegations s) = delegationsFor (cg_sovereign cfg) v (cs_delegations s') \<and>
     filter (\<lambda>c. Some (ib_owner c) = v) (cs_inbound s) = filter (\<lambda>c. Some (ib_owner c) = v) (cs_inbound s') \<and>
     filter (own_entry v) (ks_index (cs_kb s)) = filter (own_entry v) (ks_index (cs_kb s')) \<and>
     (ks_index (cs_kb s) = [] \<longleftrightarrow> ks_index (cs_kb s') = []) \<and>
     (\<forall>e\<in>set (ks_index (cs_kb s)). own_entry v e \<longrightarrow>
        vault_get (ix_artefactId e) (ks_vault (cs_kb s)) = vault_get (ix_artefactId e) (ks_vault (cs_kb s')))"

definition ids_distinct :: "control_state \<Rightarrow> bool" where
  "ids_distinct s \<longleftrightarrow> distinct (map ka_id (ks_vault (cs_kb s)))"

lemma find_in_filter:
  "distinct (map f xs) \<Longrightarrow> find (\<lambda>x. f x = i) (filter P xs) = (case find (\<lambda>x. f x = i) xs of Some x \<Rightarrow> if P x then Some x else None | None \<Rightarrow> None)"
proof (induction xs)
  case (Cons x xs)
  have "f x = i \<Longrightarrow> find (\<lambda>y. f y = i) (filter P xs) = None"
    using Cons.prems by (auto simp: find_None_iff) (metis imageI)
  then show ?case using Cons by auto
qed simp

lemma face_of_visible:
  "distinct (map ka_id vault) \<Longrightarrow> hydrateCardFace env vis tier i vault = hydrateCardFace env vis tier i (filter vis vault)"
  using find_in_filter [of ka_id vault i vis] by (auto simp: hydrateCardFace_def vault_get_def get_by_def split: option.split)

lemma marks_of_visible:
  "claimableMarks sov d cs vault = claimableMarks sov d cs (filter (visibleTo sov (Some d)) vault)"
  by (simp add: claimableMarks_def countFor_def conj_commute)

lemma queue_of_visible: "triageQueue vis vault = triageQueue vis (filter vis vault)"
proof -
  have "filter (\<lambda>a. ka_needsConfirm a \<and> vis a) vault = filter (\<lambda>a. vis a \<and> ka_needsConfirm a \<and> vis a) vault"
    by (rule filter_cong) auto
  then show ?thesis by (simp add: triageQueue_def)
qed

lemma recall_same_view:
  assumes "same_to cfg v s s'" "ro_kb opts = Personal_vault" "ro_owner opts = v" "v \<noteq> None"
  shows "recall env keyFor (ks_vault (cs_kb s)) (ks_index (cs_kb s)) query opts = recall env keyFor (ks_vault (cs_kb s')) (ks_index (cs_kb s')) query opts"
proof -
  have own: "own_entry v e" if "in_scope opts e" for e
    using that assms(2-4) by (auto simp: in_scope_def kb_match_def owner_match_def own_entry_def split: option.splits)
  have narrow: "filter (in_scope opts) xs = filter (in_scope opts) (filter (own_entry v) xs)" for xs
    using own by (auto intro: filter_cong)
  have "filter (in_scope opts) (ks_index (cs_kb s)) = filter (in_scope opts) (ks_index (cs_kb s'))"
    using assms(1) narrow [of "ks_index (cs_kb s)"] narrow [of "ks_index (cs_kb s')"] by (simp add: same_to_def)
  then have "recall env keyFor (ks_vault (cs_kb s')) (ks_index (cs_kb s)) query opts = recall env keyFor (ks_vault (cs_kb s')) (ks_index (cs_kb s')) query opts"
    using recall_ignores_out_of_scope [of opts "ks_index (cs_kb s)" "ks_index (cs_kb s')"] assms(1)
    by (cases "ks_index (cs_kb s) = []") (auto simp: same_to_def)
  moreover have "recall env keyFor (ks_vault (cs_kb s)) (ks_index (cs_kb s)) query opts = recall env keyFor (ks_vault (cs_kb s')) (ks_index (cs_kb s)) query opts"
    by (rule recall_same_content) (use assms(1) own in \<open>auto simp: same_to_def\<close>)
  ultimately show ?thesis by simp
qed

text \<open>The requests that answer from what members own.\<close>

definition reads :: "request \<Rightarrow> bool" where
  "reads req \<longleftrightarrow> req \<in> {Get_snapshot, Card_inbound, Triage_list} \<or> (\<exists>i. req = Card_face i) \<or> (\<exists>cs. req = Marks_claimable cs) \<or>
     (\<exists>q k n. req = Recall_query q k n)"

lemma resolve_in_same: "cs_sessions s = cs_sessions s' \<Longrightarrow> fst (resolve_in env tok s) = fst (resolve_in env tok s')"
  by (simp add: resolve_in_def case_prod_beta' Let_def)

lemma resolve_in_fields: "snd (resolve_in env tok s) = s\<lparr>cs_sessions := cs_sessions (snd (resolve_in env tok s))\<rparr>"
  by (simp add: resolve_in_def case_prod_beta' Let_def)

lemma resolve_in_kb [simp]:
  "cs_kb (snd (resolve_in env tok s)) = cs_kb s" "cs_inbound (snd (resolve_in env tok s)) = cs_inbound s"
  "cs_delegations (snd (resolve_in env tok s)) = cs_delegations s"
  by (simp_all add: resolve_in_def case_prod_beta' Let_def)

text \<open>
  The boundary between members: what a member is answered by the snapshot, the faces, the queue, the marks, the pending
  cards and the recall of its vault is the same in any two states that differ only in what belongs to others.\<close>

theorem reads_blind_to_others:
  assumes "viewer_of env cfg tok s = Inr v" "truthy_string v" "cs_sessions s' = cs_sessions s" "same_to cfg v s s'"
    and "ids_distinct s" "ids_distinct s'" "reads req"
  shows "fst (handle_route env cfg tok req s) = fst (handle_route env cfg tok req s')"
proof -
  obtain d where d: "v = Some d" using assms(2) by (cases v) auto
  have v: "viewer_of env cfg tok s' = Inr v"
    using assms(1,3) resolve_in_same [of s' s env tok]
    by (auto simp: viewer_of_def effectiveViewer_def case_prod_beta' Let_def split: if_splits)
  note vw = with_viewer_alt [where env = env and cfg = cfg and tok = tok]
  note same = assms(4) [unfolded same_to_def]
  have twice: "fst (resolve_in env tok (snd (resolve_in env tok s))) = fst (resolve_in env tok (snd (resolve_in env tok s')))"
    using assms(3) by (simp add: resolve_in_def case_prod_beta' Let_def)
  consider "req = Get_snapshot" | "req = Card_inbound" | "req = Triage_list" | i where "req = Card_face i"
    | cs where "req = Marks_claimable cs" | q k n where "req = Recall_query q k n" using assms(7) by (auto simp: reads_def)
  then show ?thesis
  proof cases
    case 1
    then show ?thesis using same twice by (simp add: get_snapshot_def vw assms(1) v case_prod_beta' Let_def)
  next
    case 2
    then show ?thesis using same assms(2) by (simp add: card_inbound_def vw assms(1) v inbound_list_def)
  next
    case 3
    then show ?thesis using same queue_of_visible [of "visibleTo (cg_sovereign cfg) v" "ks_vault (cs_kb s)"]
        queue_of_visible [of "visibleTo (cg_sovereign cfg) v" "ks_vault (cs_kb s')"] by (simp add: triage_list_def vw assms(1) v)
  next
    case 4
    then show ?thesis using same face_of_visible assms(5,6) by (simp add: card_face_route_def vw assms(1) v ids_distinct_def)
  next
    case 5
    then show ?thesis using same marks_of_visible assms(2) d by (simp add: marks_claimable_def with_member_def vw assms(1) v) metis
  next
    case 6
    then show ?thesis using recall_same_view [OF assms(4)] d by (simp add: recall_route_def vw assms(1) v case_prod_beta' Let_def)
  qed
qed

section \<open>The ladder\<close>

definition asked_signet :: "control_env \<Rightarrow> did option \<Rightarrow> string \<Rightarrow> bool" where
  "asked_signet env v action \<longleftrightarrow> (\<exists>d r summary. v = Some d \<and> d \<noteq> [] \<and> ce_approve env d action r summary)"

lemma card_tier_clears:
  assumes "face_released (card_tier env v i n) n"
  shows "n \<le> sens_num LOW \<or> n \<le> sens_num SEALED \<and> asked_signet env v ''render''"
proof (cases "n < sens_num MEDIUM")
  case False
  then have "card_tier env v i n \<noteq> STANDING"
    using assms by (auto simp: face_released_def clears_num_def)
  then have "asked_signet env v ''render''"
    using False by (cases v) (auto simp: card_tier_def asked_signet_def truthy_Some split: if_splits)
  moreover have "n \<le> sens_num SEALED"
    using assms False by (cases "card_tier env v i n") (auto simp: face_released_def clears_num_def)
  ultimately show ?thesis by simp
qed simp

lemma recall_ceiling_clears:
  "recallCeiling env requested v \<le> sens_num LOW \<or> recallCeiling env requested v \<le> sens_num SEALED \<and> asked_signet env v ''recall''"
proof -
  have "sens_num (CLEARANCE t) \<le> sens_num SEALED" for t by (cases t) simp_all
  then show ?thesis by (cases v) (auto simp: recallCeiling_def clearanceCeiling_def asked_signet_def truthy_Some)
qed

lemma render_face_shown: "render_face env a = Face_shown j n x m \<Longrightarrow> j = ka_id a \<and> n = ka_sensitivity a"
  by (auto simp: render_face_def Let_def split: option.splits if_splits)

lemma face_cleared:
  assumes "hydrateCardFace env vis (card_tier cenv v i) i vault = Face_shown j n x m"
  shows "\<exists>a. vault_get i vault = Some a \<and> vis a \<and> n = ka_sensitivity a \<and>
    (n \<le> sens_num LOW \<or> n \<le> sens_num SEALED \<and> asked_signet cenv v ''render'')"
proof -
  obtain a where a: "vault_get i vault = Some a" "vis a" "face_released (card_tier cenv v i (ka_sensitivity a)) (ka_sensitivity a)"
      "render_face env a = Face_shown j n x m"
    using assms by (auto simp: hydrateCardFace_def split: option.splits if_splits)
  then show ?thesis using card_tier_clears [OF a(3)] render_face_shown by blast
qed

lemma recall_cleared:
  assumes "recall renv key vault entries q \<lparr>ro_k = k, ro_maxSensitivity = Some (recallCeiling cenv l v), ro_kb = Personal_vault, ro_owner = v\<rparr>
    = (answer, cites)" "c \<in> set cites"
  shows "\<exists>e\<in>set entries. ci_artefactId c = ix_artefactId e \<and> ix_kb e = None \<and>
    (case v of None \<Rightarrow> True | Some d \<Rightarrow> ix_owner e = Some d \<or> ix_scope e = Some ''shared'') \<and>
    (ix_sensitivity e \<le> sens_num LOW \<or> ix_sensitivity e \<le> sens_num SEALED \<and> asked_signet cenv v ''recall'')"
proof -
  obtain e where e: "e \<in> set entries" "ci_artefactId c = ix_artefactId e" "ix_kb e = None" "ix_sensitivity e \<le> recallCeiling cenv l v"
      "owner_match v e"
    using recall_drawn_from_scope [OF assms] by (auto simp: in_scope_def kb_match_def)
  then show ?thesis using recall_ceiling_clears [of cenv l v]
    by (intro bexI [of _ e]) (auto simp: owner_match_def split: option.splits)
qed

text \<open>
  No route shows more than the viewer cleared: a face is of an item the viewer owns or that is shared, a recall cites
  only entries of that kind, and beyond low sensitivity either of them needs the approval of the viewer's own Signet.\<close>

theorem local_disclosure_cleared:
  assumes "viewer_of env cfg tok s = Inr v"
  shows "(case fst (handle_route env cfg tok (Card_face i) s) of
      Inr (R_card (Face_shown j n x m)) \<Rightarrow> \<exists>a. vault_get i (ks_vault (cs_kb s)) = Some a \<and> visibleTo (cg_sovereign cfg) v a \<and>
        n = ka_sensitivity a \<and> (n \<le> sens_num LOW \<or> n \<le> sens_num SEALED \<and> asked_signet env v ''render'')
    | _ \<Rightarrow> True) \<and>
    (case fst (handle_route env cfg tok (Recall_query q k l) s) of
      Inr (R_recall answer cites) \<Rightarrow> \<forall>c\<in>set cites. \<exists>e\<in>set (ks_index (cs_kb s)). ci_artefactId c = ix_artefactId e \<and> ix_kb e = None \<and>
        (case v of None \<Rightarrow> True | Some d \<Rightarrow> ix_owner e = Some d \<or> ix_scope e = Some ''shared'') \<and>
        (ix_sensitivity e \<le> sens_num LOW \<or> ix_sensitivity e \<le> sens_num SEALED \<and> asked_signet env v ''recall'')
    | _ \<Rightarrow> True)"
proof
  note vw = with_viewer_alt [where env = env and cfg = cfg and tok = tok]
  show "case fst (handle_route env cfg tok (Card_face i) s) of
      Inr (R_card (Face_shown j n x m)) \<Rightarrow> \<exists>a. vault_get i (ks_vault (cs_kb s)) = Some a \<and> visibleTo (cg_sovereign cfg) v a \<and>
        n = ka_sensitivity a \<and> (n \<le> sens_num LOW \<or> n \<le> sens_num SEALED \<and> asked_signet env v ''render'')
    | _ \<Rightarrow> True"
    using face_cleared [where cenv = env and v = v and i = i]
    by (auto simp: card_face_route_def vw assms split: card_face.split)
  show "case fst (handle_route env cfg tok (Recall_query q k l) s) of
      Inr (R_recall answer cites) \<Rightarrow> \<forall>c\<in>set cites. \<exists>e\<in>set (ks_index (cs_kb s)). ci_artefactId c = ix_artefactId e \<and> ix_kb e = None \<and>
        (case v of None \<Rightarrow> True | Some d \<Rightarrow> ix_owner e = Some d \<or> ix_scope e = Some ''shared'') \<and>
        (ix_sensitivity e \<le> sens_num LOW \<or> ix_sensitivity e \<le> sens_num SEALED \<and> asked_signet env v ''recall'')
    | _ \<Rightarrow> True"
    using recall_cleared [where cenv = env and v = v]
    by (auto simp: recall_route_def vw assms Let_def split: prod.split)
qed

section \<open>Imported cards\<close>

text \<open>What reaches the daemon: requests, and cards that other nodes deliver.\<close>

datatype control_event = Served served | Arrived string card_arrival

fun event_step :: "control_config \<Rightarrow> control_event \<Rightarrow> control_state \<Rightarrow> control_state" where
  "event_step cfg (Served (env, tok, req)) s = snd (handle_route env cfg tok req s)"
| "event_step cfg (Arrived time m) s = snd (receive_card time cfg m s)"

fun events_run :: "control_config \<Rightarrow> control_event list \<Rightarrow> control_state \<Rightarrow> control_state" where
  "events_run cfg [] s = s"
| "events_run cfg (e # es) s = events_run cfg es (event_step cfg e s)"

text \<open>\<open>l\<close> is the leaf of an arrival that was verified, on the own node or in the DMZ.\<close>

definition vetted :: "control_event list \<Rightarrow> issued_leaf \<Rightarrow> bool" where
  "vetted es l \<longleftrightarrow> (\<exists>time m l0 legible. Arrived time m \<in> set es \<and> verify_arrival time m = (True, Some l0, legible) \<and>
     l = fst (enrich (ca_rendering m) l0))"

definition cards_vetted :: "control_event list \<Rightarrow> control_state \<Rightarrow> bool" where
  "cards_vetted es s \<longleftrightarrow> (\<forall>c\<in>set (cs_inbound s). \<forall>l. ib_verified c \<longrightarrow> ib_closure c = Some l \<longrightarrow> vetted es l) \<and>
     (\<forall>l\<in>set (cs_issued s). vetted es l)"

lemma vetted_mono: "vetted es l \<Longrightarrow> set es \<subseteq> set es' \<Longrightarrow> vetted es' l"
  by (fastforce simp: vetted_def)

text \<open>A route leaves the inbound cards and the issued leaves alone, or accepts or declines one card.\<close>

definition cards_from :: "control_state \<Rightarrow> 'a \<times> control_state \<Rightarrow> bool" where
  "cards_from s r \<longleftrightarrow> set (cs_inbound (snd r)) \<subseteq> set (cs_inbound s) \<and>
     set (cs_issued (snd r)) \<subseteq> set (cs_issued s) \<union> {l. \<exists>c\<in>set (cs_inbound s). ib_verified c \<and> ib_closure c = Some l}"

lemma cards_same: "cs_inbound (snd r) = cs_inbound s \<Longrightarrow> cs_issued (snd r) = cs_issued s \<Longrightarrow> cards_from s r"
  by (auto simp: cards_from_def)

lemma cards_if: "(b \<Longrightarrow> cards_from s x) \<Longrightarrow> (\<not> b \<Longrightarrow> cards_from s y) \<Longrightarrow> cards_from s (if b then x else y)"
  by simp

lemma cards_option: "(x = None \<Longrightarrow> cards_from s a) \<Longrightarrow> (\<And>y. x = Some y \<Longrightarrow> cards_from s (f y)) \<Longrightarrow> cards_from s (case x of None \<Rightarrow> a | Some y \<Rightarrow> f y)"
  by (cases x) simp_all

lemma cards_prod: "(\<And>a b. x = (a, b) \<Longrightarrow> cards_from s (f a b)) \<Longrightarrow> cards_from s (case x of (a, b) \<Rightarrow> f a b)"
  by (cases x) simp

lemma resolve_in_cards [simp]:
  "cs_inbound (snd (resolve_in env tok s)) = cs_inbound s" "cs_issued (snd (resolve_in env tok s)) = cs_issued s"
  by (simp_all add: resolve_in_def case_prod_beta' Let_def)

lemma cards_viewer: "(\<And>v t. cards_from t (k v t)) \<Longrightarrow> cards_from s (with_viewer env cfg tok k s)"
proof -
  assume k: "\<And>v t. cards_from t (k v t)"
  have "cards_from s (k v (snd (resolve_in env tok s)))" for v
    using k [of "snd (resolve_in env tok s)" v] by (simp add: cards_from_def)
  then show ?thesis by (simp add: with_viewer_alt cards_same split: sum.split)
qed

lemma cards_member: "(\<And>d t. cards_from t (k d t)) \<Longrightarrow> cards_from s (with_member env cfg tok k s)"
  unfolding with_member_def by (rule cards_viewer) (simp add: cards_same)

lemma emit_cards [simp]: "cs_inbound (emit f a s) = cs_inbound s" "cs_issued (emit f a s) = cs_issued s"
  by (simp_all add: emit_def)

lemma getStored_in: "getStored i cs = Some c \<Longrightarrow> c \<in> set cs \<and> ib_credentialDid c = i"
  by (auto simp: getStored_def find_Some_iff)

lemma issued_put_in: "x \<in> set (issued_put l ls) \<Longrightarrow> x = l \<or> x \<in> set ls"
  by (auto simp: issued_put_def)

lemma inbound_remove_in: "x \<in> set (inbound_remove i cs) \<Longrightarrow> x \<in> set cs"
  by (simp add: inbound_remove_def)

lemma accept_cards: "cards_from s (card_accept env cfg tok c s)"
  unfolding card_accept_def
  by (intro cards_if cards_member)
    (auto simp: cards_from_def promoteVerifiedCard_def Let_def dest!: getStored_in issued_put_in inbound_remove_in
      split: option.splits if_splits)

lemma routes_cards:
  "cards_from s (delegate env cfg tok d ks s)" "cards_from s (issue_credential env cfg tok d sch cs s)" "cards_from s (recall_route env cfg tok q k n s)"
  "cards_from s (card_face_route env cfg tok i s)" "cards_from s (card_pass env cfg tok d c b s)" "cards_from s (card_inbound env cfg tok s)"
  "cards_from s (triage_list env cfg tok s)"
  "cards_from s (triage_confirm env cfg tok i m s)" "cards_from s (marks_claimable env cfg tok mcs s)" "cards_from s (marks_claim env cfg tok mc s)"
  "cards_from s (household_admit env cfg d s)" "cards_from s (vault_share env cfg tok i s)" "cards_from s (grant_route env cfg tok req s)"
  "cards_from s (acknowledge_route env cfg tok d s)" "cards_from s (revoke_route env cfg tok d s)" "cards_from s (read_route env cfg tok d i s)"
  "cards_from s (guardianships_route env cfg tok s)" "cards_from s (kb_grant env cfg tok i d sc s)" "cards_from s (kb_revoke env cfg tok i d sc s)"
  "cards_from s (get_snapshot env cfg tok s)" "cards_from s (household_remove env cfg d s)"
  unfolding route_defs household_remove_def
  by (rule cards_if cards_option cards_prod cards_member cards_viewer
      | (rule cards_same; simp add: Let_def case_prod_beta' split: option.split mark_result.split read_result.split share_result.split; fail))+

lemma decline_cards: "cards_from s (card_decline env cfg tok c s)"
  unfolding card_decline_def
  by (intro cards_if cards_member) (auto simp: cards_from_def inbound_remove_def split: option.splits)

lemma sessions_cards:
  "cards_from s (get_status env cfg tok s)" "cards_from s (whoami env tok s)" "cards_from s (session_unlock env tok s)"
  "cards_from s (login_complete env cfg a s)" "cards_from s (logout tok s)"
  by (auto simp: cards_from_def get_status_def whoami_def session_unlock_def login_complete_def logout_def case_prod_beta' Let_def
      split: option.splits)

lemma route_cards: "cards_from s (handle_route env cfg tok req s)"
  by (cases req) (simp_all add: routes_cards decline_cards accept_cards sessions_cards)

lemma arrival_vetted:
  assumes "snd (receive_card time cfg m s) = s'" "c \<in> set (cs_inbound s')" "c \<notin> set (cs_inbound s)" "ib_verified c" "ib_closure c = Some l"
  shows "vetted [Arrived time m] l"
proof -
  obtain ok closure legible where v: "verify_arrival time m = (ok, closure, legible)" by (cases "verify_arrival time m") auto
  show ?thesis
    using assms v
    by (auto simp: receive_card_def inbound_put_def vetted_def case_prod_beta' Let_def split: option.splits if_splits)
qed

lemma event_cards:
  assumes "cards_vetted es s"
  shows "cards_vetted (e # es) (event_step cfg e s)"
proof (cases e)
  case (Served x)
  obtain env tok req where x: "x = (env, tok, req)" by (cases x)
  have "vetted (e # es) l" if "vetted es l" for l using that by (rule vetted_mono) auto
  then show ?thesis using assms route_cards [of s env cfg tok req] Served x
    by (auto simp: cards_vetted_def cards_from_def)
next
  case (Arrived time m)
  have "vetted (e # es) l" if "vetted es l" for l using that by (rule vetted_mono) auto
  moreover have "vetted (e # es) l" if "vetted [e] l" for l using that by (rule vetted_mono) auto
  moreover have "cs_issued (snd (receive_card time cfg m s)) = cs_issued s"
    by (simp add: receive_card_def case_prod_beta' Let_def)
  ultimately show ?thesis using assms Arrived arrival_vetted [OF refl, of _ time cfg m s]
    unfolding cards_vetted_def by (auto; blast)
qed


end
