(* ===== verification/Control_Gaps.thy ===== *)
theory Control_Gaps
  imports Control_Safety
begin

text \<open>
  Membership, sharing and triage over the control plane, and the places where its parts do not fit together: credentials
  that pass for delegations, delegations that forget their member, keys that outlive a removal, the household that is not
  seen.\<close>

section \<open>Delegations and the credentials that pass for them\<close>

text \<open>What Keymaster reports of an answer by which the subject of \<open>vc\<close> presents it against challenge \<open>ch\<close>.\<close>

definition claims_of :: "(string \<times> json) list \<Rightarrow> claims" where
  "claims_of cs = \<lparr>cl_type = member_of (map_of cs ''type''), cl_trustClass = None, cl_txn = None, cl_authority = None,
     cl_caveats = None, cl_get = map_of cs\<rparr>"

definition vc_answer :: "string \<Rightarrow> minted_vc \<Rightarrow> response_result" where
  "vc_answer ch vc = \<lparr>rr_challenge = Some ch, rr_match = True, rr_fulfilled = 1, rr_requested = 1, rr_responder = Some (mv_subject vc),
     rr_credentials = [], rr_vps = [\<lparr>vp_issuer = mv_issuer vc, vp_subjectId = Some (mv_subject vc), vp_claims = claims_of (mv_claims vc)\<rparr>]\<rparr>"

definition live_challenge :: "challenge_store \<Rightarrow> string \<Rightarrow> int \<Rightarrow> bool" where
  "live_challenge store ch now \<longleftrightarrow> (case store ch of None \<Rightarrow> False | Some l \<Rightarrow> lv_purpose l = Delegation \<and> now \<le> lv_exp l)"

lemma vc_answer_verifies:
  assumes "mv_issuer vc = warden" "warden \<noteq> []" "mv_subject vc = holder" "holder \<noteq> []" "live_challenge store ch now" "p \<noteq> []"
    and "verify p = Some (vc_answer ch vc)"
  shows "fst (verifyDelegationPresentation warden schema verify True now p holder store) = Inr (map_of (mv_claims vc))"
proof -
  have "disclosed_of (vc_answer ch vc) = [\<lparr>dc_credentialDid = [], dc_issuer = warden, dc_subject = holder, dc_trustClass = Issued,
      dc_claims = claims_of (mv_claims vc)\<rparr>]"
    using assms by (simp add: disclosed_of_def vc_answer_def claims_of_def trust_class_of_def)
  then show ?thesis using assms
    by (cases holder)
      (auto simp: verifyDelegationPresentation_def verifyProof_def vc_answer_def claims_of_def isTrusted_def gate_def consume_def
        live_challenge_def Let_def split: option.splits)
qed

text \<open>
  Composing a card forges delegations: a member who asks the Warden to issue a credential over the delegation schema
  obtains, without the approval of any Signet, one by which the named subject passes as an Emissary for the kinds and
  the member that the request invents.\<close>

theorem issue_forges_delegation:
  assumes "viewer_of env cfg tok s = Inr (Some d)" "d \<noteq> []" "\<not> ce_resident env" "ce_newDid env = Some c"
    and "\<And>x a r t. \<not> ce_approve env x a r t"
    and "ce_schema env (cg_delegationSchema cfg) = Some DELEGATION_SCHEMA" "cg_delegationSchema cfg \<noteq> []" "cg_warden cfg \<noteq> []"
    and "emissary \<noteq> []" "live_challenge store ch now" "p \<noteq> []"
  shows "\<exists>vc claims. (c, vc) \<in> set (cs_credentials (snd (handle_route env cfg tok
        (Issue (cg_delegationSchema cfg) emissary [(''kinds'', JArr (map JStr ks)), (''member'', JStr victim)]) s))) \<and>
    fst (verifyDelegationPresentation (cg_warden cfg) (cg_delegationSchema cfg) (\<lambda>_. Some (vc_answer ch vc)) True now p emissary store) = Inr claims \<and>
    claims ''kinds'' = Some (JArr (map JStr ks)) \<and> member_of (claims ''member'') = Some victim"
proof -
  let ?cs = "[(''kinds'', JArr (map JStr ks)), (''member'', JStr victim), (''type'', JStr ''HearthholdDelegation'')]"
  let ?vc = "issueClaim (cg_warden cfg) (cg_delegationSchema cfg) emissary ?cs"
  have cc: "compose_claims DELEGATION_SCHEMA [(''kinds'', JArr (map JStr ks)), (''member'', JStr victim)] = Some ?cs"
    by (simp add: compose_claims_def DELEGATION_SCHEMA_def set_claim_def)
  have "(c, ?vc) \<in> set (cs_credentials (snd (handle_route env cfg tok
      (Issue (cg_delegationSchema cfg) emissary [(''kinds'', JArr (map JStr ks)), (''member'', JStr victim)]) s)))"
    using assms(1-4,6,7,9) cc by (simp add: issue_credential_def with_member_def with_viewer_alt truthy_Some emit_def Let_def)
  moreover have "fst (verifyDelegationPresentation (cg_warden cfg) (cg_delegationSchema cfg) (\<lambda>_. Some (vc_answer ch ?vc)) True now p emissary store)
      = Inr (map_of ?cs)"
    using vc_answer_verifies [of ?vc "cg_warden cfg" emissary store ch now p "\<lambda>_. Some (vc_answer ch ?vc)"] assms(8-11)
    by (simp add: issueClaim_def)
  ultimately show ?thesis by (intro exI [of _ ?vc] exI [of _ "map_of ?cs"]) simp
qed

text \<open>
  A delegation forgets whom it serves: the credential that a member's own delegation mints does not name the member, so
  what the Emissary submits under it belongs to the configured Sovereign.\<close>

theorem delegate_loses_member:
  assumes "handle_route env cfg tok (Delegate emissary kinds) s = (Inr (R_delegated emissary c), s')"
    and "c \<notin> fst ` set (cs_credentials s)" "cg_sovereign cfg = Some sov" "sov \<noteq> []"
    and "witness_submission senv (cg_warden cfg) (cg_delegationSchema cfg) verify True now (cg_sovereign cfg) trusted level sub emissary
      (store, cs_kb s') = (Queued i, store', kb')" "kb' \<noteq> cs_kb s'"
    and "verify (the (sb_delegationProof sub)) = Some (vc_answer ch vc)" "(c, vc) \<in> set (cs_credentials s')"
  shows "\<exists>a. ks_vault kb' = vault_put [a] (ks_vault (cs_kb s')) \<and> ka_owner a = Some sov"
proof -
  have vc: "map_of (mv_claims vc) ''member'' = None"
    using assms(1,2,8)
    by (force simp: delegate_def with_member_def with_viewer_alt emit_def issueDelegation_def resolve_in_def case_prod_beta' Let_def
        split: if_splits sum.splits option.splits)
  obtain claims where c: "fst (verifyDelegationPresentation (cg_warden cfg) (cg_delegationSchema cfg) verify True now
        (the (sb_delegationProof sub)) emissary store) = Inr claims"
      "handleSubmission senv sub emissary (case member_of (claims ''member'') of Some d \<Rightarrow> Some d | None \<Rightarrow> cg_sovereign cfg)
        \<lparr>ip_autofileTrusted = trusted, ip_confirmAtOrBelow = level\<rparr> (cs_kb s') = Some kb'"
    using assms(5,6) unfolding witness_submission_def
    by (auto simp: Let_def split: if_splits option.splits sum.splits prod.splits)
  obtain st where st: "verifyDelegationPresentation (cg_warden cfg) (cg_delegationSchema cfg) verify True now
        (the (sb_delegationProof sub)) emissary store = (Inr claims, st)"
    using c(1) by (metis prod.collapse)
  have "claims = map_of (mv_claims vc)"
    using delegation_shown [OF st] assms(7) by (auto simp: vc_answer_def claims_of_def)
  then have "member_of (claims ''member'') = None" using vc by simp
  then have "handleSubmission senv sub emissary (Some sov) \<lparr>ip_autofileTrusted = trusted, ip_confirmAtOrBelow = level\<rparr> (cs_kb s') = Some kb'"
    using c(2) assms(3) by simp
  from handleSubmission_shown [OF this] show ?thesis using assms(4) by (cases sov) auto
qed

section \<open>Leaving the household\<close>


text \<open>
  Keys outlive an expired session: once the daemon drops the expired token of a member, the partition keys that were
  unlocked under it stay, and the removal of the member does not reach them.\<close>

theorem expired_keys_survive_removal:
  assumes "map_of (cs_sessions s) t = Some (d, e)" "t \<noteq> []" "ce_now env > e" "sessions_ok (cs_sessions s)"
    and "\<forall>x\<in>set (cs_sessions s). fst (snd x) = d \<longrightarrow> fst x = t"
  shows "keys_get t p (cs_keys (snd (handle_route env' cfg tok (Remove d) (snd (handle_route env cfg (Some t) Whoami s))))) =
    keys_get t p (cs_keys s)"
proof -
  have s1: "snd (handle_route env cfg (Some t) Whoami s) = s\<lparr>cs_sessions := AList.delete t (cs_sessions s)\<rparr>"
    using assms(1-3) by (simp add: whoami_def resolve_in_def resolve_session_def truthy_Some)
  have "fst (revokeAllFor d (AList.delete t (cs_sessions s))) = []"
    using assms(5) by (auto simp: revokeAllFor_def filter_empty_conv AList.delete_eq)
  then show ?thesis unfolding s1
    by (auto simp: household_remove_def remove_grants_def emit_def case_prod_beta' Let_def split: option.splits)
qed

section \<open>Sessions that are not required\<close>

text \<open>
  A node with several households does not see them: unless the configuration says otherwise it requires no session, and
  a request without a token is served as the configured Sovereign.\<close>

theorem several_households_unseen:
  assumes "cg_requireSession cfg = requireSession None (isMultiMember getGroup (cg_sovereign cfg) (cg_households cfg) (cg_kbs cfg))"
    and "length (cg_households cfg) \<ge> 2" "cg_kbs cfg = []"
  shows "viewer_of env cfg None s = Inr (cg_sovereign cfg)"
proof -
  have "household_get None (cg_households cfg) = None"
    using assms(2) by (auto simp: household_get_def split: list.split)
  then have "\<not> cg_requireSession cfg" using assms(1,3) by (simp add: requireSession_def isMultiMember_def)
  then show ?thesis by (simp add: viewer_of_def effectiveViewer_def resolve_in_def resolve_session_def)
qed

text \<open>The same holds when no group can be read at start-up, whoever its members are.\<close>

lemma unread_groups_unseen:
  "household_get None households = None \<Longrightarrow> \<not> isMultiMember (\<lambda>_. None) sovereign households kbs"
  by (auto simp: isMultiMember_def opt_list_def)

section \<open>Sharing, triage and membership of knowledge bases\<close>

lemma mark_shared_vault: "ks_vault (mark_shared i a s) = vault_put [a\<lparr>ka_scope := Some ''shared''\<rparr>] (ks_vault s)"
  by (simp add: mark_shared_def Let_def split: option.split)

lemma share_vault:
  assumes "shareToHousehold kenv unseal up sov hh i d step v kb = (r, v', kb')" "ks_vault kb' \<noteq> ks_vault kb"
  shows "\<exists>a. vault_get i (ks_vault kb) = Some a \<and> ownerOf sov a = Some d \<and> is_member kenv kb (hh_writeGroup hh) d \<and>
    (ka_sensitivity a < sens_num MEDIUM \<or> step (ka_sensitivity a)) \<and> ks_vault kb' = vault_put [a\<lparr>ka_scope := Some ''shared''\<rparr>] (ks_vault kb)"
  using assms by (auto simp: shareToHousehold_def mark_shared_vault split: option.splits if_splits)

text \<open>
  Only an owner shares: when a share changes the vault, the item was the viewer's own, the viewer contributes to the
  household, its Signet approved when the item is beyond low, and all that changes is the scope of that item.\<close>

theorem sharing_is_the_owners:
  assumes "viewer_of env cfg tok s = Inr v" "s' = snd (handle_route env cfg tok (Share i) s)" "ks_vault (cs_kb s') \<noteq> ks_vault (cs_kb s)"
  shows "\<exists>a d hh. vault_get i (ks_vault (cs_kb s)) = Some a \<and> v = Some d \<and> ownerOf (cg_sovereign cfg) a = Some d \<and>
    household_get None (cg_households cfg) = Some hh \<and> is_member (ce_kb env) (cs_kb s) (hh_writeGroup hh) d \<and>
    (ka_sensitivity a < sens_num MEDIUM \<or> asked_signet env v ''share'') \<and>
    ks_vault (cs_kb s') = vault_put [a\<lparr>ka_scope := Some ''shared''\<rparr>] (ks_vault (cs_kb s))"
proof -
  obtain hh where hh: "household_get None (cg_households cfg) = Some hh" "i \<noteq> []" "truthy_string v"
    using assms by (auto simp: vault_share_def with_member_def with_viewer_alt split: if_splits option.splits)
  then obtain d where d: "v = Some d" "d \<noteq> []" by (cases v) (auto simp: truthy_Some)
  let ?step = "\<lambda>n. ce_approve env d ''share'' i (''Share a '' @ sensitivityName n @ '' note to the household'')"
  obtain r v' kb' where sh: "shareToHousehold (ce_kb env) (fe_plain (ce_face env)) (ce_vaultUp env) (cg_sovereign cfg) hh i d ?step
      (cs_shared (snd (resolve_in env tok s))) (cs_kb s) = (r, v', kb')"
    by (cases "shareToHousehold (ce_kb env) (fe_plain (ce_face env)) (ce_vaultUp env) (cg_sovereign cfg) hh i d ?step
      (cs_shared (snd (resolve_in env tok s))) (cs_kb s)") auto
  have "cs_kb s' = kb'"
    using assms(1,2) hh d sh by (auto simp: vault_share_def with_member_def with_viewer_alt emit_def Let_def split: share_result.split)
  then show ?thesis using share_vault [OF sh] assms(3) hh(1) d by (auto simp: asked_signet_def)
qed

text \<open>
  Triage relaxes nothing unasked: when a confirmation lowers the sensitivity of an item, the item is visible to the
  viewer, and the viewer's own Signet approved, unless the request spoke for nobody.\<close>

theorem relaxation_approved:
  assumes "viewer_of env cfg tok s = Inr v" "s' = snd (handle_route env cfg tok (Triage_confirm i n) s)"
    and "vault_get i (ks_vault (cs_kb s)) = Some a" "vault_get i (ks_vault (cs_kb s')) = Some a'" "ka_sensitivity a' < ka_sensitivity a"
  shows "visibleTo (cg_sovereign cfg) v a \<and> (truthy_string v \<longrightarrow> asked_signet env v ''triage-relax'') \<and> ka_sensitivity a' = n"
proof -
  have i: "ka_id a = i" using assms(3) by (auto simp: vault_get_def get_by_def find_Some_iff)
  have "ka_id (confirmed n a) = i" using i by (simp add: confirmed_def)
  then have put: "vault_get i (vault_put [confirmed n a] (ks_vault (cs_kb s))) = Some (confirmed n a)"
    using vault_get_put [of "confirmed n a"] by metis
  have changed: "ks_vault (cs_kb s') \<noteq> ks_vault (cs_kb s)" using assms(3-5) by auto
  have vis: "visibleTo (cg_sovereign cfg) v a"
    "\<not> (truthy_string v \<and> n < ka_sensitivity a \<and> \<not> coSign env (the v) ''triage-relax'' i
        (''Reclassify '' @ sensitivityName (ka_sensitivity a) @ '' to '' @ sensitivityName n))"
    "ks_vault (cs_kb s') = vault_put [confirmed n a] (ks_vault (cs_kb s))"
    using changed assms(1-3) by (auto simp: triage_confirm_def with_viewer_alt confirmTriage_def emit_def Let_def split: if_splits)
  then have a': "a' = confirmed n a" using assms(4) put by simp
  then have "n < ka_sensitivity a" using assms(5) by (simp add: confirmed_def)
  then show ?thesis using vis a' by (cases v) (auto simp: confirmed_def coSign_def asked_signet_def truthy_Some)
qed

text \<open>
  A revocation that names no scope is approved as one and revokes nothing.\<close>

theorem unscoped_revocation_revokes_nothing:
  "cs_kb (snd (handle_route env cfg tok (Kb_revoke i d No_scope) s)) = cs_kb s \<and>
   (case find_kb cfg i of Some (kb, Some g) \<Rightarrow>
      d \<noteq> [] \<and> viewer_of env cfg tok s = Inr (Some m) \<and> m \<noteq> [] \<and> ce_approve env g ''kb-revoke'' (i @ ''/'' @ d) (''Revoke read on '' @ i @ '' from '' @ d)
      \<longrightarrow> fst (handle_route env cfg tok (Kb_revoke i d No_scope) s) = Inr R_done
    | _ \<Rightarrow> True)"
  by (auto simp: kb_revoke_def with_member_def with_viewer_alt coSign_def scope_name_def revoke_scope_def emit_def truthy_Some Let_def
      split: option.split sum.split)

section \<open>Cards that say what their sender says\<close>

lemma getStored_put: "ib_credentialDid c = i \<Longrightarrow> getStored i (inbound_put c cs) = Some c"
  unfolding getStored_def inbound_put_def by (induction cs) auto

lemma arrival_stored:
  assumes "verify_arrival time m = (True, Some l0, legible)" "ca_rendering m = Some (cs, t, sub)" "ca_issuerResolves m (il_issuer l0)"
    and "cg_sovereign cfg = Some d"
  shows "\<exists>c. getStored (ca_credential m) (cs_inbound (snd (receive_card time cfg m s))) = Some c \<and> ib_owner c = d \<and> ib_verified c \<and>
    ib_closure c = Some (fst (enrich (Some (cs, t, sub)) l0)) \<and> ib_authenticity c = Some Issuer_authentic \<and>
    ib_contentReadable c = Some True"
  using assms
  by (simp add: receive_card_def getStored_put enrich_def emit_def)

text \<open>
  A card says what its sender says: whoever delivers the credential of a known issuer with a rendering of its own making
  has the receiving node record, as issuer-authentic and readable, a leaf of that issuer with the claims, the type and the
  subject that the sender invented; nothing compares them with the credential that was verified.\<close>

theorem sender_rewrites_claims:
  assumes "verify_arrival time m = (True, Some l0, legible)" "ca_rendering m = Some (cs, Some t, Some sub)" "t \<noteq> []" "sub \<noteq> []"
    and "ca_issuerResolves m (il_issuer l0)" "ca_credential m \<noteq> []" "cg_sovereign cfg = Some d" "d \<noteq> []"
    and "s1 = snd (receive_card time cfg m s)" "viewer_of env cfg tok s1 = Inr (Some d)" "\<And>x. ke_sealWarden (ce_kb env) x \<noteq> None"
  shows "\<exists>l\<in>set (cs_issued (snd (handle_route env cfg tok (Card_accept (ca_credential m)) s1))).
    il_credentialDid l = il_credentialDid l0 \<and> il_issuer l = il_issuer l0 \<and> il_claims l = cs \<and> il_credentialType l = t \<and> il_subject l = sub"
proof -
  obtain c where c: "getStored (ca_credential m) (cs_inbound s1) = Some c" "ib_owner c = d" "ib_verified c"
      "ib_closure c = Some (fst (enrich (Some (cs, Some t, Some sub)) l0))"
    using arrival_stored [OF assms(1,2,5,7)] assms(9) by blast
  obtain ct where "ke_sealWarden (ce_kb env) (renderIssuedLeaf (fst (enrich (Some (cs, Some t, Some sub)) l0))) = Some ct"
    using assms(11) by blast
  then show ?thesis
    using c assms(3,4,6,8,10)
    by (auto simp: card_accept_def with_member_def with_viewer_alt truthy_Some promoteVerifiedCard_def issued_put_def enrich_def Let_def)
qed

end
