(* ===== verification/Control_Example.thy ===== *)
theory Control_Example
  imports Control_Gaps
begin

text \<open>A concrete Warden and the witnesses of the properties of its control plane and of submissions: \<open>S\<close> is the Sovereign, \<open>M\<close> a
  member, every Signet approves, sealing prefixes a letter.\<close>

section \<open>The node\<close>

definition cx_recall :: recall_env where
  "cx_recall = \<lparr>rv_embed = (\<lambda>_. Some [1]), rv_unseal = (\<lambda>c. Some (tl c)), rv_open = (\<lambda>key c. Some (tl c)), rv_answer = (\<lambda>q _. ''answer'')\<rparr>"

definition cx_kb :: kb_env where
  "cx_kb = \<lparr>ke_hash = (\<lambda>d. d), ke_testGroup = (\<lambda>gs g d. Some (d \<in> set (gs g))), ke_getGroup = (\<lambda>gs g. Some (gs g)),
     ke_mint = (\<lambda>d. Some (''P'' @ d, ''pub'', ''wrapped'')), ke_approve = None, ke_sealWarden = (\<lambda>t. Some (CHR ''w'' # t)),
     ke_sealTo = (\<lambda>pub t. CHR ''m'' # t), ke_classify = (\<lambda>_ _. (2, \<lambda>_. None)), ke_contentId = (\<lambda>c. CHR ''i'' # c),
     ke_recall = cx_recall, ke_now = 0, ke_stamp = ''2026''\<rparr>"

definition cx_env :: "int \<Rightarrow> bool \<Rightarrow> control_env" where
  "cx_env now approve = \<lparr>ce_now = now, ce_token = ''t'', ce_kb = cx_kb, ce_responder = (\<lambda>_. Some ''M''), ce_approve = (\<lambda>_ _ _ _. approve),
     ce_rewrap = (\<lambda>_. None), ce_face = \<lparr>fe_plain = (\<lambda>c. Some (tl c)), fe_text = (\<lambda>t. t), fe_image = (\<lambda>_. None)\<rparr>,
     ce_newDid = Some ''c'', ce_schema = (\<lambda>_. Some DELEGATION_SCHEMA), ce_resident = False, ce_vaultUp = True,
     ce_sign = (\<lambda>_. Some), ce_ack = (\<lambda>_ _. None), ce_checks = (\<lambda>_. True), ce_deliver = (\<lambda>_ _. Some True)\<rparr>"

definition cx_household :: household where
  "cx_household = \<lparr>hh_id = ''h'', hh_governor = ''S'', hh_readGroup = ''R'', hh_writeGroup = ''W''\<rparr>"

definition cx_cfg :: control_config where
  "cx_cfg = \<lparr>cg_sovereign = Some ''S'', cg_warden = ''V'', cg_sovereignId = ''S'', cg_delegationSchema = ''D'', cg_ttl = 100,
     cg_requireSession = True, cg_embedding = True, cg_parent = None, cg_households = [cx_household], cg_kbs = []\<rparr>"

definition cx_item :: "string \<Rightarrow> did \<Rightarrow> kb_artefact" where
  "cx_item i d = \<lparr>ka_id = i, ka_kind = ''document'', ka_observedAt = ''2026'', ka_storedAt = ''2026'', ka_sensitivity = 2,
     ka_ciphertext = ''wx'', ka_sealedTo = None, ka_kb = None, ka_contributor = None, ka_docKey = None, ka_locus = (\<lambda>_. None),
     ka_owner = Some d, ka_scope = Some ''private'', ka_witness = None, ka_needsConfirm = False, ka_description = None, ka_meta = Map.empty\<rparr>"

definition cx_files :: "kb_artefact list \<Rightarrow> kb_state" where
  "cx_files vault = \<lparr>ks_nonces = Map.empty, ks_sessions = Map.empty, ks_keys = (\<lambda>_. Map.empty), ks_vault = vault,
    ks_index = [], ks_groups = (\<lambda>_. [''M'']), ks_partitions = Map.empty\<rparr>"

definition cx_boot :: control_state where
  "cx_boot = \<lparr>cs_kb = cx_files [cx_item ''i1'' ''M''], cs_sessions = [], cs_keys = [], cs_shared = \<lparr>sv_members = [''M''], sv_items = []\<rparr>,
     cs_inbound = [], cs_issued = [], cs_delegations = [], cs_credentials = [], cs_edges = [], cs_receipts = [], cs_frames = []\<rparr>"

text \<open>After \<open>M\<close> has logged in.\<close>

definition cx_in :: control_state where
  "cx_in = cx_boot\<lparr>cs_sessions := [(''t'', ''M'', 100)], cs_keys := [(''t'', [(''p'', ''k'')])]\<rparr>"

lemmas cx_defs = cx_kb_def cx_env_def cx_cfg_def cx_boot_def cx_files_def cx_household_def

lemma cx_viewer: "viewer_of (cx_env now b) cx_cfg (Some ''t'') cx_in = (if now \<le> 100 then Inr (Some ''M'') else Inl Unauthorized)"
  by (auto simp: viewer_of_def effectiveViewer_def resolve_in_def resolve_session_def cx_in_def cx_defs Let_def case_prod_beta')

lemma cx_after: "snd (resolve_in (cx_env 50 b) (Some ''t'') cx_in) = cx_in"
  by (simp add: resolve_in_def resolve_session_def cx_in_def cx_defs Let_def case_prod_beta')

lemma cx_vault: "ks_vault (cs_kb cx_in) = [cx_item ''i1'' ''M'']"
  by (simp add: cx_in_def cx_defs)

lemma cx_found: "vault_get ''i1'' [cx_item ''i1'' ''M''] = Some (cx_item ''i1'' ''M'')"
  by (simp add: vault_get_def get_by_def cx_item_def)

lemma cx_seen: "visibleTo (cg_sovereign cx_cfg) (Some ''M'') (cx_item i ''M'')"
  by (simp add: visibleTo_def ownerOf_def cx_item_def)

lemma cx_found_household: "household_get None (cg_households cx_cfg) = Some cx_household"
  by (simp add: household_get_def cx_defs)

lemma cx_approves: "ce_approve (cx_env now b) d act r summary = b"
  by (simp add: cx_env_def)

section \<open>Witnesses\<close>

lemma viewer_proven_witness:
  "\<exists>before e later. [(cx_env 0 True, None, Login ''r'')] = before @ e # later \<and> logs_in e ''t'' ''M'' \<and> 50 \<le> ce_now (fst e) + cg_ttl cx_cfg"
proof -
  have run: "control_run cx_cfg [(cx_env 0 True, None, Login ''r'')] cx_boot = cx_boot\<lparr>cs_sessions := [(''t'', ''M'', 100)]\<rparr>"
    by (simp add: login_complete_def issue_session_def cx_defs Let_def case_prod_beta')
  have "viewer_of (cx_env 50 True) cx_cfg (Some ''t'') (cx_boot\<lparr>cs_sessions := [(''t'', ''M'', 100)]\<rparr>) = Inr (Some ''M'')"
    by (simp add: viewer_of_def effectiveViewer_def resolve_in_def resolve_session_def cx_defs Let_def case_prod_beta')
  from viewer_proven [OF _ this [folded run]] show ?thesis by (force simp: cx_boot_def cx_cfg_def cx_env_def)
qed

lemma reads_blind_to_others_witness:
  "fst (handle_route (cx_env 50 True) cx_cfg (Some ''t'') Get_snapshot cx_in) =
   fst (handle_route (cx_env 50 True) cx_cfg (Some ''t'') Get_snapshot (cx_in\<lparr>cs_kb := cx_files [cx_item ''i0'' ''S'', cx_item ''i1'' ''M'']\<rparr>))"
  by (rule reads_blind_to_others [where v = "Some ''M''", OF cx_viewer [THEN trans]])
    (simp_all add: same_to_def visibleTo_def ownerOf_def ids_distinct_def reads_def cx_in_def cx_boot_def cx_files_def cx_item_def cx_cfg_def)

lemma local_disclosure_cleared_witness:
  "fst (handle_route (cx_env 50 True) cx_cfg (Some ''t'') (Card_face ''i1'') cx_in) = Inr (R_card (Face_shown ''i1'' 2 ''x'' ''text/plain'')) \<and>
   asked_signet (cx_env 50 True) (Some ''M'') ''render''"
proof
  show shown: "fst (handle_route (cx_env 50 True) cx_cfg (Some ''t'') (Card_face ''i1'') cx_in) = Inr (R_card (Face_shown ''i1'' 2 ''x'' ''text/plain''))"
    by (simp add: card_face_route_def with_viewer_alt cx_viewer hydrateCardFace_def)
      (simp add: vault_get_def get_by_def visibleTo_def ownerOf_def card_tier_def tier_for_def clears_num_def face_released_def render_face_def
        cx_in_def cx_boot_def cx_files_def cx_item_def cx_cfg_def cx_env_def)
  have viewer: "viewer_of (cx_env 50 True) cx_cfg (Some ''t'') cx_in = Inr (Some ''M'')" by (simp add: cx_viewer)
  show "asked_signet (cx_env 50 True) (Some ''M'') ''render''"
    using local_disclosure_cleared [OF viewer, THEN conjunct1, of "''i1''"] unfolding shown by auto
qed

definition cx_leaf :: issued_leaf where
  "cx_leaf = buildIssuedLeaf ''2026'' ''did:x'' \<lparr>cr_issuer = ''did:i'', cr_types = [], cr_subject = [(''id'', ''M'')], cr_validUntil = None, cr_schema = None\<rparr>"

definition cx_arrival :: card_arrival where
  "cx_arrival = \<lparr>ca_credential = ''did:x'', ca_from = ''did:f'', ca_native = False, ca_vc = None, ca_dmz = Some (True, Some cx_leaf, Some True),
     ca_rendering = None, ca_issuerResolves = (\<lambda>_. True)\<rparr>"

definition cx_events :: "control_event list" where
  "cx_events = [Arrived ''2026'' cx_arrival, Served (cx_env 0 True, None, Card_accept ''did:x'')]"

abbreviation cx_open :: control_config where
  "cx_open \<equiv> cx_cfg\<lparr>cg_requireSession := False\<rparr>"

lemma cx_imported: "cs_issued (events_run cx_open cx_events cx_boot) = [cx_leaf]"
  by (simp add: cx_events_def receive_card_def verify_arrival_def cx_arrival_def enrich_def card_accept_def with_member_def with_viewer_alt
      viewer_of_def effectiveViewer_def resolve_in_def resolve_session_def inbound_put_def getStored_def promoteVerifiedCard_def issued_put_def
      emit_def cx_defs Let_def)


definition cx_forged :: card_arrival where
  "cx_forged = cx_arrival\<lparr>ca_rendering := Some ([(''age'', ''99'')], Some ''T'', Some ''M'')\<rparr>"

lemma sender_rewrites_claims_witness:
  "\<exists>l\<in>set (cs_issued (snd (handle_route (cx_env 0 True) cx_open None (Card_accept ''did:x'')
      (snd (receive_card ''2026'' cx_open cx_forged cx_boot))))). il_issuer l = ''did:i'' \<and> il_claims l = [(''age'', ''99'')]"
proof -
  have arrived: "verify_arrival ''2026'' cx_forged = (True, Some cx_leaf, Some True)"
    by (simp add: verify_arrival_def cx_forged_def cx_arrival_def)
  have "viewer_of (cx_env 0 True) cx_open None (snd (receive_card ''2026'' cx_open cx_forged cx_boot)) = Inr (Some ''S'')"
    by (simp add: viewer_of_def effectiveViewer_def resolve_in_def resolve_session_def cx_cfg_def)
  from sender_rewrites_claims [OF arrived _ _ _ _ _ _ _ refl this, of "[(''age'', ''99'')]" "''T''" "''M''"]
  show ?thesis by (fastforce simp: cx_forged_def cx_arrival_def cx_cfg_def cx_env_def cx_kb_def cx_leaf_def buildIssuedLeaf_def)
qed

definition cx_challenges :: challenge_store where
  "cx_challenges c = (if c = ''ch'' then Some \<lparr>lv_purpose = Delegation, lv_exp = 100, lv_reusable = True\<rparr> else None)"

lemma cx_live: "live_challenge cx_challenges ''ch'' 50"
  by (simp add: live_challenge_def cx_challenges_def)

lemma issue_forges_delegation_witness:
  "\<exists>vc. (''c'', vc) \<in> set (cs_credentials (snd (handle_route (cx_env 50 False) cx_cfg (Some ''t'')
     (Issue ''D'' ''E'' [(''kinds'', JArr (map JStr [''image''])), (''member'', JStr ''S'')]) cx_in)))"
proof -
  have "viewer_of (cx_env 50 False) cx_cfg (Some ''t'') cx_in = Inr (Some ''M'')" by (simp add: cx_viewer)
  from issue_forges_delegation [OF this, of "''c''" "''E''" cx_challenges "''ch''" 50 "''p''" "[''image'']" "''S''"]
  show ?thesis using cx_live by (simp add: cx_env_def cx_cfg_def) blast
qed


lemma expired_keys_survive_removal_witness:
  "keys_get ''t'' ''p'' (cs_keys (snd (handle_route (cx_env 200 True) cx_cfg None (Remove ''M'')
     (snd (handle_route (cx_env 200 True) cx_cfg (Some ''t'') Whoami cx_in))))) = Some ''k''"
proof -
  have "map_of (cs_sessions cx_in) ''t'' = Some (''M'', 100)" "''t'' \<noteq> []" "ce_now (cx_env 200 True) > 100" "sessions_ok (cs_sessions cx_in)"
      "\<forall>x\<in>set (cs_sessions cx_in). fst (snd x) = ''M'' \<longrightarrow> fst x = ''t''"
    by (simp_all add: cx_in_def cx_env_def sessions_ok_def)
  from expired_keys_survive_removal [OF this] show ?thesis by (simp add: cx_in_def keys_get_def opt_list_def)
qed

lemma several_households_unseen_witness:
  "viewer_of (cx_env 0 True) (cx_open\<lparr>cg_households := [cx_household, cx_household\<lparr>hh_id := ''h2''\<rparr>]\<rparr>) None cx_boot = Inr (Some ''S'')"
  using several_households_unseen [of "cx_open\<lparr>cg_households := [cx_household, cx_household\<lparr>hh_id := ''h2''\<rparr>]\<rparr>" "\<lambda>_. None"]
  by (simp add: requireSession_def isMultiMember_def household_get_def cx_cfg_def)

lemma sharing_is_the_owners_witness:
  "ks_vault (cs_kb (snd (handle_route (cx_env 50 True) cx_cfg (Some ''t'') (Share ''i1'') cx_in))) =
     vault_put [(cx_item ''i1'' ''M'')\<lparr>ka_scope := Some ''shared''\<rparr>] [cx_item ''i1'' ''M'']"
proof -
  have viewer: "viewer_of (cx_env 50 True) cx_cfg (Some ''t'') cx_in = Inr (Some ''M'')" by (simp add: cx_viewer)
  have vault: "ks_vault (cs_kb cx_in) = [cx_item ''i1'' ''M'']" by (simp add: cx_in_def cx_boot_def cx_files_def)
  have got: "vault_get ''i1'' [cx_item ''i1'' ''M''] = Some (cx_item ''i1'' ''M'')" by (simp add: vault_get_def get_by_def cx_item_def)
  have shared: "shareToHousehold (ce_kb (cx_env 50 True)) (fe_plain (ce_face (cx_env 50 True))) (ce_vaultUp (cx_env 50 True))
      (cg_sovereign cx_cfg) cx_household ''i1'' ''M'' step (cs_shared cx_in) (cs_kb cx_in) =
      (Shared, sv_share ''i1'' ''x'' (cs_shared cx_in), mark_shared ''i1'' (cx_item ''i1'' ''M'') (cs_kb cx_in))"
    if step: "step 2" for step :: "int \<Rightarrow> bool"
    unfolding shareToHousehold_def vault got
    by (simp add: step cx_item_def ownerOf_def is_member_def cx_in_def cx_defs)
  have "ks_vault (cs_kb (snd (handle_route (cx_env 50 True) cx_cfg (Some ''t'') (Share ''i1'') cx_in))) =
      ks_vault (mark_shared ''i1'' (cx_item ''i1'' ''M'') (cs_kb cx_in))"
    by (simp add: vault_share_def cx_found_household with_member_def with_viewer_alt cx_viewer cx_after Let_def shared cx_approves emit_def)
  then have "ks_vault (cs_kb (snd (handle_route (cx_env 50 True) cx_cfg (Some ''t'') (Share ''i1'') cx_in))) \<noteq> ks_vault (cs_kb cx_in)"
    by (simp add: mark_shared_vault vault vault_put_def put_many_def cx_item_def)
  from sharing_is_the_owners [OF viewer refl this] show ?thesis unfolding vault got by auto
qed

lemma relaxation_approved_witness: "asked_signet (cx_env 50 True) (Some ''M'') ''triage-relax''"
proof -
  have viewer: "viewer_of (cx_env 50 True) cx_cfg (Some ''t'') cx_in = Inr (Some ''M'')" by (simp add: cx_viewer)
  have old: "vault_get ''i1'' (ks_vault (cs_kb cx_in)) = Some (cx_item ''i1'' ''M'')"
    by (simp add: cx_in_def cx_boot_def cx_files_def vault_get_def get_by_def cx_item_def)
  have new: "vault_get ''i1'' (ks_vault (cs_kb (snd (handle_route (cx_env 50 True) cx_cfg (Some ''t'') (Triage_confirm ''i1'' 1) cx_in)))) =
      Some (confirmed 1 (cx_item ''i1'' ''M''))"
    by (simp add: triage_confirm_def with_viewer_alt cx_viewer cx_after cx_vault cx_found cx_seen Let_def case_prod_beta' confirmTriage_def coSign_def)
      (simp add: vault_get_def get_by_def vault_put_def put_many_def confirmed_def cx_item_def cx_defs emit_def)
  show ?thesis using relaxation_approved [OF viewer refl old new] by (simp add: confirmed_def cx_item_def)
qed

section \<open>A submission\<close>

definition sx_env :: submit_env where
  "sx_env = \<lparr>se_unseal = (\<lambda>c. Some (tl c)), se_caption = (\<lambda>_. None), se_classify = (\<lambda>_ _. (2, Map.empty, False)),
     se_contentId = (\<lambda>c. CHR ''i'' # c), se_stamp = ''2026'', se_embedding = True, se_embed = (\<lambda>_. Some [1])\<rparr>"

definition sx_sub :: submission where
  "sx_sub = \<lparr>sb_kind = ''document'', sb_ciphertext = ''wx'', sb_observedAt = ''2026'', sb_delegationProof = Some ''p''\<rparr>"

abbreviation sx_verify :: "string \<Rightarrow> response_result option" where
  "sx_verify \<equiv> \<lambda>_. Some (vc_answer ''ch'' (issueDelegation ''V'' ''D'' ''E'' [''document''] None))"

definition sx_stored :: kb_artefact where
  "sx_stored = submitted_artefact sx_env sx_sub ''E'' (Some ''S'') 2 Map.empty True None"

lemma sx_handled:
  "handleSubmission sx_env sx_sub ''E'' (Some ''S'') \<lparr>ip_autofileTrusted = False, ip_confirmAtOrBelow = None\<rparr> (cx_files []) =
     Some (cx_files [sx_stored])"
proof -
  have "se_unseal sx_env (sb_ciphertext sx_sub) = Some ''x''"
      "classify_submission sx_env (sb_kind sx_sub) ''x'' = (2, Map.empty, False, None, ''x'')"
    by (simp_all add: classify_submission_def sx_env_def sx_sub_def)
  then show ?thesis
    by (simp add: handleSubmission_def must_confirm_def sx_stored_def cx_files_def vault_put_def put_many_def Let_def)
qed

lemma sx_verified:
  "verifyDelegationPresentation ''V'' ''D'' sx_verify True 50 ''p'' ''E'' cx_challenges =
     (Inr (map_of (mv_claims (issueDelegation ''V'' ''D'' ''E'' [''document''] None))), cx_challenges)"
  by (simp add: verifyDelegationPresentation_def verifyProof_def vc_answer_def claims_of_def issueDelegation_def isTrusted_def gate_def
      consume_def cx_challenges_def disclosed_of_def trust_class_of_def Let_def)

lemma sx_submitted:
  "witness_submission sx_env ''V'' ''D'' sx_verify True 50 (Some ''S'') False None sx_sub ''E'' (cx_challenges, cx_files []) =
     (Queued ''iwx'', cx_challenges, cx_files [sx_stored])"
proof -
  have "sb_delegationProof sx_sub = Some ''p''" "sb_kind sx_sub = ''document''" "se_contentId sx_env (sb_ciphertext sx_sub) = ''iwx''"
    by (simp_all add: sx_sub_def sx_env_def)
  moreover have "map_of (mv_claims (issueDelegation ''V'' ''D'' ''E'' [''document''] None)) =
      [''type'' \<mapsto> JStr ''HearthholdDelegation'', ''kinds'' \<mapsto> JArr [JStr ''document'']]"
    by (simp add: issueDelegation_def fun_eq_iff)
  ultimately show ?thesis by (simp add: witness_submission_def sx_verified sx_handled truthy_Some)
qed

lemma submission_needs_delegation_witness: "\<exists>res. sx_verify ''p'' = Some res \<and> rr_responder res = Some ''E''"
proof -
  have "cx_files [sx_stored] \<noteq> cx_files []" by (simp add: cx_files_def)
  from submission_needs_delegation [OF sx_submitted this] show ?thesis by (auto simp: sx_sub_def)
qed

abbreviation sx_opts :: rank_opts where
  "sx_opts \<equiv> \<lparr>ro_k = None, ro_maxSensitivity = Some 4, ro_kb = Personal_vault, ro_owner = None\<rparr>"

lemma quarantined_inert_witness:
  "recall cx_recall (\<lambda>_. None) [sx_stored] [] ''q'' sx_opts = recall cx_recall (\<lambda>_. None) [] [] ''q'' sx_opts"
proof -
  have "vault_get (se_contentId sx_env (sb_ciphertext sx_sub)) (ks_vault (cx_files [sx_stored])) = Some sx_stored" "ka_needsConfirm sx_stored"
      "se_contentId sx_env (sb_ciphertext sx_sub) \<notin> ix_artefactId ` set (ks_index (cx_files []))"
    by (simp_all add: cx_files_def vault_get_def get_by_def sx_stored_def)
  from quarantined_inert [OF sx_handled this] show ?thesis by (simp add: cx_files_def)
qed

end
