(* ===== verification/Lineage.thy ===== *)
theory Lineage
  imports Attenuation_Chain Recall "HOL-Library.AList"
begin

text \<open>
  What a watcher and a keeper make of public chains: \<open>reconstructLineage\<close> (\<open>packages/core/src/lineage.ts\<close>), which reads a
  delegation chain from resolution alone, and the keep closure of a credential (\<open>packages/core/src/closure.ts\<close>), the
  version-pinned operations that a later verification needs.
\<close>

section \<open>Lineage\<close>

record lineage_node =
  ln_vcDid :: did
  ln_counter :: int
  ln_controller :: did
  ln_holder :: did
  ln_lineageId :: did

definition node_of :: "hop \<Rightarrow> lineage_node" where
  "node_of h = \<lparr>ln_vcDid = hop_did h, ln_counter = pic_counter (hop_pic h), ln_controller = hop_controller h,
     ln_holder = hop_holder h, ln_lineageId = pic_lineageId (hop_pic h)\<rparr>"

text \<open>The loop, from the leaf; a hop that does not resolve or carries no block ends it.\<close>

fun lineage_walk :: "archon \<Rightarrow> nat \<Rightarrow> did \<Rightarrow> nat option \<Rightarrow> lineage_node list" where
  "lineage_walk A 0 did useVersion = []"
| "lineage_walk A (Suc n) did useVersion =
     (case resolveDID A did useVersion of
        None \<Rightarrow> []
      | Some doc \<Rightarrow>
          (case dd_pic doc of
             None \<Rightarrow> []
           | Some pic \<Rightarrow>
               node_of \<lparr>hop_did = did, hop_doc = doc\<rparr> #
               (case pic_prevCredential pic of
                  None \<Rightarrow> []
                | Some pin \<Rightarrow> lineage_walk A n (pin_did pin) (Some (pin_versionSequence pin)))))"

definition reconstructLineage :: "archon \<Rightarrow> did \<Rightarrow> nat \<Rightarrow> lineage_node list" where
  "reconstructLineage A leafVcDid maxHops = rev (lineage_walk A maxHops leafVcDid None)"

lemma lineage_walk_chain:
  assumes "chain_from H cj A opts did ver expect hops" "length hops \<le> n"
  shows "lineage_walk A n did ver = map node_of hops"
  using assms
proof (induction hops arbitrary: did ver expect n)
  case Nil
  then show ?case by (simp add: chain_from_def)
next
  case (Cons h hs)
  obtain m where n: "n = Suc m" using Cons.prems(2) by (cases n) auto
  have h: "hop_did h = did" "resolveDID A did ver = Some (hop_doc h)" "dd_pic (hop_doc h) = Some (hop_pic h)"
    using Cons.prems(1) by (auto simp: chain_from_def good_hop_def hop_pic_def)
  have node: "node_of \<lparr>hop_did = did, hop_doc = hop_doc h\<rparr> = node_of h" using h(1) by (cases h) simp
  show ?case
  proof (cases hs)
    case Nil
    then show ?thesis using Cons.prems(1) h n node by (simp add: chain_from_single)
  next
    case (Cons h' hs')
    then obtain pin where pin: "pic_prevCredential (hop_pic h) = Some pin"
        "chain_from H cj A opts (pin_did pin) (Some (pin_versionSequence pin))
          (Some \<lparr>ex_pin = pin, ex_childPic = hop_pic h, ex_childDid = did\<rparr>) hs"
      using Cons.prems(1) by (auto simp: chain_from_Cons)
    have "lineage_walk A m (pin_did pin) (Some (pin_versionSequence pin)) = map node_of hs"
      using Cons.IH [OF pin(2), of m] Cons.prems(2) n by simp
    then show ?thesis using h n node pin(1) by simp
  qed
qed


section \<open>The keep closure\<close>

text \<open>An operation as the node exports it, and what it resolves a DID to; a resolution that rejects is \<^const>\<open>None\<close>.\<close>

record gatekeeper_event =
  ge_did :: "did option"
  ge_opid :: "string option"

record resolved_version =
  rv_id :: "did option"
  rv_versionSequence :: "int option"
  rv_versionId :: "string option"

record closure_source =
  so_resolve :: "did \<Rightarrow> string option \<Rightarrow> resolved_version option"
  so_export :: "did \<Rightarrow> gatekeeper_event list list option"

datatype verification_goal =
    Signed_by did
  | Signed_by_authorized did did did

datatype pin_role = Role_credential | Role_schema | Role_issuer | Role_authority_credential | Role_authority_issuer

record op_pin =
  op_did :: did
  op_role :: pin_role
  op_versionSequence :: int
  op_versionId :: string

record keep_closure =
  kc_goal :: verification_goal
  kc_pins :: "op_pin list"
  kc_ops :: "(did \<times> gatekeeper_event list) list"
  kc_totalOps :: nat

record closure_input =
  kin_credentialDid :: did
  kin_schemaDid :: did
  kin_signedAt :: string
  kin_authoritySignedAt :: "string option"

text \<open>An empty version time asks for the latest version.\<close>

definition pinVersion :: "closure_source \<Rightarrow> did \<Rightarrow> string option \<Rightarrow> (int \<times> string) option" where
  "pinVersion src d time =
     (case so_resolve src d (if truthy_string time then time else None) of
        None \<Rightarrow> None
      | Some v \<Rightarrow>
          if \<not> truthy_string (rv_id v) \<or> rv_versionSequence v = None \<or> \<not> truthy_string (rv_versionId v) then None
          else Some (the (rv_versionSequence v), the (rv_versionId v)))"

definition chain_for :: "did \<Rightarrow> gatekeeper_event list list \<Rightarrow> gatekeeper_event list option" where
  "chain_for d batch = (case batch of [ops] \<Rightarrow> Some ops | _ \<Rightarrow> find (\<lambda>ops. \<exists>e\<in>set ops. ge_did e = Some d) batch)"

text \<open>The last operation of the cut must be the pinned one; an empty cut has none to look at, which throws.\<close>

definition keptOps :: "closure_source \<Rightarrow> did \<Rightarrow> int \<Rightarrow> string \<Rightarrow> gatekeeper_event list option" where
  "keptOps src d n versionId =
     (case so_export src d of
        None \<Rightarrow> None
      | Some batch \<Rightarrow>
          (case chain_for d batch of
             None \<Rightarrow> None
           | Some ops \<Rightarrow>
               if ops = [] \<or> n > int (length ops) then None
               else let cut = slice0 n ops in
                 if cut = [] then None
                 else if truthy_string (ge_opid (last cut)) \<and> versionId \<noteq> [] \<and> ge_opid (last cut) \<noteq> Some versionId then None
                 else Some cut))"

text \<open>One \<open>keep\<close>; the operations are held by DID.\<close>

definition keep ::
  "closure_source \<Rightarrow> did \<times> pin_role \<times> string option \<Rightarrow> op_pin list \<times> (did \<times> gatekeeper_event list) list \<Rightarrow>
     (op_pin list \<times> (did \<times> gatekeeper_event list) list) option" where
  "keep src req acc =
     (case req of (d, role, time) \<Rightarrow>
        case pinVersion src d time of
          None \<Rightarrow> None
        | Some (n, v) \<Rightarrow>
            (case keptOps src d n v of
               None \<Rightarrow> None
             | Some ops \<Rightarrow> Some (fst acc @ [\<lparr>op_did = d, op_role = role, op_versionSequence = n, op_versionId = v\<rparr>],
                 AList.update d ops (snd acc))))"

fun keep_all ::
  "closure_source \<Rightarrow> (did \<times> pin_role \<times> string option) list \<Rightarrow> op_pin list \<times> (did \<times> gatekeeper_event list) list \<Rightarrow>
     (op_pin list \<times> (did \<times> gatekeeper_event list) list) option" where
  "keep_all src [] acc = Some acc"
| "keep_all src (r # rs) acc = (case keep src r acc of None \<Rightarrow> None | Some acc' \<Rightarrow> keep_all src rs acc')"

fun goal_issuer :: "verification_goal \<Rightarrow> did" where
  "goal_issuer (Signed_by i) = i"
| "goal_issuer (Signed_by_authorized i _ _) = i"

definition keep_requests :: "closure_input \<Rightarrow> verification_goal \<Rightarrow> (did \<times> pin_role \<times> string option) list" where
  "keep_requests input goal =
     [(kin_credentialDid input, Role_credential, None), (kin_schemaDid input, Role_schema, None),
      (goal_issuer goal, Role_issuer, Some (kin_signedAt input))] @
     (case goal of
        Signed_by _ \<Rightarrow> []
      | Signed_by_authorized _ credential issuer \<Rightarrow>
          [(credential, Role_authority_credential, None), (issuer, Role_authority_issuer, kin_authoritySignedAt input)])"

definition computeKeepClosure :: "closure_input \<Rightarrow> verification_goal \<Rightarrow> closure_source \<Rightarrow> keep_closure option" where
  "computeKeepClosure input goal src =
     (case keep_all src (keep_requests input goal) ([], []) of
        None \<Rightarrow> None
      | Some (pins, ops) \<Rightarrow> Some \<lparr>kc_goal = goal, kc_pins = pins, kc_ops = ops, kc_totalOps = sum_list (map (length \<circ> snd) ops)\<rparr>)"

subsection \<open>What a closure holds\<close>

definition kept_of :: "closure_source \<Rightarrow> op_pin \<Rightarrow> gatekeeper_event list option" where
  "kept_of src p = keptOps src (op_did p) (op_versionSequence p) (op_versionId p)"

definition pins_request :: "closure_source \<Rightarrow> did \<times> pin_role \<times> string option \<Rightarrow> op_pin \<Rightarrow> bool" where
  "pins_request src r p \<longleftrightarrow> op_did p = fst r \<and> op_role p = fst (snd r) \<and>
     pinVersion src (fst r) (snd (snd r)) = Some (op_versionSequence p, op_versionId p) \<and> kept_of src p \<noteq> None"

text \<open>The operations of a pin are there, up to the pinned version and no further, and end where it says.\<close>

definition backed :: "(did \<times> gatekeeper_event list) list \<Rightarrow> op_pin \<Rightarrow> bool" where
  "backed ops p \<longleftrightarrow> (\<exists>cut. map_of ops (op_did p) = Some cut \<and> int (length cut) = op_versionSequence p \<and>
     (truthy_string (ge_opid (last cut)) \<longrightarrow> ge_opid (last cut) = Some (op_versionId p)))"

lemma keep_all_shown:
  assumes "keep_all src rs acc = Some (pins', ops')"
  shows "\<exists>new. pins' = fst acc @ new \<and> list_all2 (pins_request src) rs new \<and>
    ops' = fold (\<lambda>p. AList.update (op_did p) (the (kept_of src p))) new (snd acc)"
  using assms
proof (induction rs arbitrary: acc)
  case (Cons r rs)
  obtain d role time where r: "r = (d, role, time)" by (cases r)
  obtain acc' where acc': "keep src r acc = Some acc'" "keep_all src rs acc' = Some (pins', ops')"
    using Cons.prems by (auto split: option.splits)
  obtain n v ops where k: "pinVersion src d time = Some (n, v)" "keptOps src d n v = Some ops"
      "acc' = (fst acc @ [\<lparr>op_did = d, op_role = role, op_versionSequence = n, op_versionId = v\<rparr>], AList.update d ops (snd acc))"
    using acc'(1) r by (auto simp: keep_def split: option.splits)
  obtain new where "pins' = fst acc' @ new" "list_all2 (pins_request src) rs new"
      "ops' = fold (\<lambda>p. AList.update (op_did p) (the (kept_of src p))) new (snd acc')"
    using Cons.IH [OF acc'(2)] by blast
  moreover have "pins_request src r \<lparr>op_did = d, op_role = role, op_versionSequence = n, op_versionId = v\<rparr>"
    using k r by (simp add: pins_request_def kept_of_def)
  ultimately show ?case using k
    by (intro exI [of _ "\<lparr>op_did = d, op_role = role, op_versionSequence = n, op_versionId = v\<rparr> # new"]) (simp add: kept_of_def)
qed simp

lemma kept_update_fresh: "k \<notin> fst ` set al \<Longrightarrow> AList.update k v al = al @ [(k, v)]"
  by (induction al) auto

lemma fold_update_fresh:
  "distinct (map fst ops @ map op_did new) \<Longrightarrow>
     fold (\<lambda>p. AList.update (op_did p) (f p)) new ops = ops @ map (\<lambda>p. (op_did p, f p)) new"
proof (induction new arbitrary: ops)
  case (Cons p new)
  have "AList.update (op_did p) (f p) ops = ops @ [(op_did p, f p)]" using Cons.prems by (intro kept_update_fresh) auto
  then show ?case using Cons.IH [of "ops @ [(op_did p, f p)]"] Cons.prems by simp
qed simp

lemma kept_cut:
  assumes "keptOps src d n v = Some xs" "0 < n"
  shows "int (length xs) = n \<and> xs \<noteq> [] \<and> (v \<noteq> [] \<and> truthy_string (ge_opid (last xs)) \<longrightarrow> ge_opid (last xs) = Some v)"
  using assms by (auto simp: keptOps_def slice0_def Let_def split: option.splits if_splits)

lemma pinVersion_named: "pinVersion src d t = Some (n, v) \<Longrightarrow> v \<noteq> []"
  by (auto simp: pinVersion_def truthy_string_iff split: option.splits if_splits)

lemma pins_request_backed: "pins_request src r p \<Longrightarrow> 0 < op_versionSequence p \<Longrightarrow> map_of ops (op_did p) = kept_of src p \<Longrightarrow> backed ops p"
  using kept_cut [of src "op_did p" "op_versionSequence p" "op_versionId p"] pinVersion_named [of src "fst r" "snd (snd r)"]
  by (auto simp: pins_request_def backed_def kept_of_def)

text \<open>The node numbers versions from 1.\<close>

definition counts_from_one :: "closure_source \<Rightarrow> bool" where
  "counts_from_one src \<longleftrightarrow> (\<forall>d t n v. pinVersion src d t = Some (n, v) \<longrightarrow> 0 < n)"

text \<open>
  A kept closure is exactly what its goal asks for: one pin per DID the goal names, in order, for each of them the
  operations from the first to the pinned one and no others, and of nothing else, so that its size is the sum of the pinned
  versions; provided that the goal names no DID twice.\<close>

theorem keep_closure_exact:
  assumes "computeKeepClosure input goal src = Some c" "counts_from_one src" "distinct (map fst (keep_requests input goal))"
  shows "map (\<lambda>p. (op_did p, op_role p)) (kc_pins c) = map (\<lambda>(d, role, _). (d, role)) (keep_requests input goal) \<and>
    list_all (backed (kc_ops c)) (kc_pins c) \<and> map fst (kc_ops c) = map op_did (kc_pins c) \<and>
    int (kc_totalOps c) = sum_list (map op_versionSequence (kc_pins c))"
proof -
  let ?rs = "keep_requests input goal"
  obtain pins ops where k: "keep_all src ?rs ([], []) = Some (pins, ops)" and c: "kc_pins c = pins" "kc_ops c = ops"
      "kc_totalOps c = sum_list (map (length \<circ> snd) ops)"
    using assms(1) by (auto simp: computeKeepClosure_def split: option.splits)
  have rel: "list_all2 (pins_request src) ?rs pins" and fold: "ops = fold (\<lambda>p. AList.update (op_did p) (the (kept_of src p))) pins []"
    using keep_all_shown [OF k] by auto
  have names: "map (\<lambda>p. (op_did p, op_role p)) pins = map (\<lambda>(d, role, _). (d, role)) ?rs"
    using rel by (induction rule: list_all2_induct) (auto simp: pins_request_def)
  have dids: "map op_did pins = map fst ?rs"
    using rel by (induction rule: list_all2_induct) (auto simp: pins_request_def)
  have ops: "ops = map (\<lambda>p. (op_did p, the (kept_of src p))) pins"
    using fold_update_fresh [of "[]" pins "\<lambda>p. the (kept_of src p)"] assms(3) dids fold by simp
  have each: "\<exists>r. pins_request src r p \<and> 0 < op_versionSequence p" if p: "p \<in> set pins" for p
  proof -
    obtain i where i: "i < length pins" "p = pins ! i" using p by (metis in_set_conv_nth)
    have "pins_request src (?rs ! i) p" using list_all2_nthD2 [OF rel i(1)] i(2) by simp
    then show ?thesis using assms(2) by (auto simp: counts_from_one_def pins_request_def)
  qed
  have cuts: "backed ops p" if p: "p \<in> set pins" for p
  proof -
    obtain r where r: "pins_request src r p" "0 < op_versionSequence p" using each [OF p] by blast
    have "distinct (map fst ops)" using dids assms(3) by (simp add: ops comp_def)
    then have "map_of ops (op_did p) = Some (the (kept_of src p))" using p by (intro map_of_is_SomeI) (auto simp: ops)
    then show ?thesis using pins_request_backed [OF r] r(1) by (auto simp: pins_request_def)
  qed
  have "int (length (the (kept_of src p))) = op_versionSequence p" if "p \<in> set pins" for p
    using each [OF that] kept_cut [of src "op_did p" "op_versionSequence p" "op_versionId p"]
    by (auto simp: pins_request_def kept_of_def)
  then have "int (sum_list (map (length \<circ> snd) ops)) = sum_list (map op_versionSequence pins)"
    unfolding ops by (induction pins) auto
  then show ?thesis using names cuts c by (simp add: list_all_iff ops comp_def)
qed

text \<open>
  A charter by the issuer itself ruins the closure: when the authority over the issuer is the issuer, its operations are
  kept twice under one name, and the earlier version of the charter replaces the one that signed the credential; the
  closure is returned, its pin names the signing version, and the operations of that version are not in it.\<close>

theorem self_chartered_issuer_truncated:
  assumes "computeKeepClosure input (Signed_by_authorized i charter i) src = Some c" "counts_from_one src"
    and "pinVersion src i (Some (kin_signedAt input)) = Some (n, v)" "pinVersion src i (kin_authoritySignedAt input) = Some (m, w)" "m < n"
  shows "\<exists>p\<in>set (kc_pins c). op_role p = Role_issuer \<and> op_did p = i \<and> op_versionSequence p = n \<and>
    (\<exists>xs. map_of (kc_ops c) i = Some xs \<and> int (length xs) = m) \<and> \<not> backed (kc_ops c) p"
proof -
  let ?rs = "keep_requests input (Signed_by_authorized i charter i)"
  obtain pins ops where k: "keep_all src ?rs ([], []) = Some (pins, ops)" and c: "kc_pins c = pins" "kc_ops c = ops"
    using assms(1) by (auto simp: computeKeepClosure_def split: option.splits)
  have rel: "list_all2 (pins_request src) ?rs pins" and fold: "ops = fold (\<lambda>p. AList.update (op_did p) (the (kept_of src p))) pins []"
    using keep_all_shown [OF k] by auto
  obtain p1 p2 p3 p4 p5 where pins: "pins = [p1, p2, p3, p4, p5]"
    using list_all2_lengthD [OF rel, symmetric] by (auto simp: keep_requests_def length_Suc_conv eval_nat_numeral)
  have p3: "pins_request src (i, Role_issuer, Some (kin_signedAt input)) p3" and
      p5: "pins_request src (i, Role_authority_issuer, kin_authoritySignedAt input) p5"
    using rel by (simp_all add: pins keep_requests_def)
  obtain xs where xs: "kept_of src p5 = Some xs" using p5 by (auto simp: pins_request_def)
  have seq: "op_versionSequence p3 = n" "op_versionSequence p5 = m" "op_did p5 = i" "op_did p3 = i" "op_role p3 = Role_issuer"
    using p3 p5 assms(3,4) by (auto simp: pins_request_def)
  have "0 < m" using assms(2,4) by (auto simp: counts_from_one_def)
  then have len: "int (length xs) = m" using kept_cut [of src i m "op_versionId p5" xs] xs seq by (simp add: kept_of_def)
  have "map_of ops i = Some xs" using fold xs seq by (simp add: pins update_conv')
  then show ?thesis using len seq assms(5) c by (intro bexI [of _ p3]) (auto simp: backed_def pins)
qed

end
