(* ===== verification/Signet.thy ===== *)
theory Signet
  imports Agent_Authority Evidence_Service Guardianship
begin

text \<open>
  The Sovereign's Signet: the gates that stand for a human (\<open>packages/sovereign/src/signet.ts\<close>), the gate that a browser
  answers (\<open>http-gate.ts\<close>) and the handler that lets nothing be presented, signed or unsealed without one
  (\<open>handler.ts\<close>). A gate is a function of the context that it is shown; the browser's is a state machine on the pending
  approvals, whose promises are settled by a decision or a timeout. Keymaster and the cipher are the record
  \<open>signet_env\<close>, where \<^const>\<open>None\<close> is a rejected promise. The time of an assertion is left out of it.
\<close>

section \<open>What a gate is shown\<close>

record disclosure_context =
  dx_claim :: string
  dx_evidenceRoot :: string
  dx_requiredLevel :: int
  dx_reason :: string

record approval_context =
  ax_requester :: did
  ax_challengeDid :: "did option"
  ax_schema :: "did option"
  ax_disclosure :: "disclosure_context option"
  ax_action :: "control_act option"
  ax_spend :: "spend_detail option"
  ax_governance :: "string option"
  ax_guardianship :: "string option"
  ax_rewrap :: "(string \<times> nat) option"

definition bare_context :: "did \<Rightarrow> approval_context" where
  "bare_context requester = \<lparr>ax_requester = requester, ax_challengeDid = None, ax_schema = None, ax_disclosure = None,
     ax_action = None, ax_spend = None, ax_governance = None, ax_guardianship = None, ax_rewrap = None\<rparr>"

type_synonym signet_gate = "approval_context \<Rightarrow> presence_assertion option"

section \<open>Gates that answer at once\<close>

definition pinAssertion :: "int \<Rightarrow> presence_assertion" where
  "pinAssertion level = \<lparr>pa_method = ''pin'', pa_level = max 1 level\<rparr>"

definition approvedLevel :: "approval_context \<Rightarrow> int" where
  "approvedLevel ctx = (case ax_disclosure ctx of None \<Rightarrow> 1 | Some d \<Rightarrow> dx_requiredLevel d)"

definition pin_gate :: "string \<Rightarrow> string \<Rightarrow> signet_gate" where
  "pin_gate expected supplied ctx =
     (if length expected > 0 \<and> supplied = expected then Some (pinAssertion (approvedLevel ctx)) else None)"

definition deny_gate :: signet_gate where
  "deny_gate ctx = None"

text \<open>What the terminal prints between the requester and the prompt, and the line that was read, trimmed.\<close>

datatype prompt_detail =
    Spend_lines string js_number "string option" string escalation_band bool
  | Disclosure_lines string string
  | Law_line string
  | Action_lines string "string option" string
  | Challenge_line string

definition prompt_lines :: "approval_context \<Rightarrow> prompt_detail" where
  "prompt_lines ctx =
     (case ax_spend ctx of
        Some s \<Rightarrow> Spend_lines (take 40 (sd_agentDid s)) (sd_amount s) (sd_unit s)
          (case ax_action ctx of None \<Rightarrow> ''(unnamed)'' | Some a \<Rightarrow> ac_summary a) (sd_band s) (sd_tier s \<ge> MULTIFACTOR)
      | None \<Rightarrow>
          (case ax_disclosure ctx of
             Some d \<Rightarrow> Disclosure_lines (dx_claim d) (dx_reason d)
           | None \<Rightarrow>
               (case ax_governance ctx of
                  Some summary \<Rightarrow> Law_line summary
                | None \<Rightarrow>
                    (case ax_action ctx of
                       Some a \<Rightarrow> Action_lines (ac_action a) (ac_resource a) (ac_summary a)
                     | None \<Rightarrow> Challenge_line (take 40 (case ax_challengeDid ctx of None \<Rightarrow> [] | Some c \<Rightarrow> c))))))"

definition prompt_gate :: "string \<Rightarrow> string \<Rightarrow> signet_gate" where
  "prompt_gate expected pin ctx =
     (if length pin > 0 \<and> length expected > 0 \<and> pin = expected then Some (pinAssertion (approvedLevel ctx)) else None)"

section \<open>The history and the agent's gate\<close>

datatype verdict = Verdict_approved | Verdict_denied

record history_entry =
  hy_id :: string
  hy_requester :: did
  hy_decision :: verdict
  hy_method :: "string option"
  hy_level :: "int option"

definition recent_history :: "history_entry list \<Rightarrow> history_entry list" where
  "recent_history h = take 50 (rev h)"

text \<open>\<open>AgentGate.approve\<close>: the assertion, the history, and whether the agent decided for itself; the gate itself is
  \<^const>\<open>gate_approve\<close>.\<close>

definition agent_approve ::
  "string \<Rightarrow> (control_act option \<Rightarrow> bool) option \<Rightarrow> (control_act option \<Rightarrow> presence_assertion option) option \<Rightarrow>
     approval_context \<Rightarrow> history_entry list \<Rightarrow> presence_assertion option \<times> history_entry list \<times> bool" where
  "agent_approve i pm es ctx h =
     (let a = gate_approve pm es (ax_action ctx) in
      (a,
       h @ [\<lparr>hy_id = i, hy_requester = ax_requester ctx, hy_decision = (if a \<noteq> None then Verdict_approved else Verdict_denied),
         hy_method = Some (case a of None \<Rightarrow> ''agent'' | Some p \<Rightarrow> pa_method p),
         hy_level = Some (case a of None \<Rightarrow> 1 | Some p \<Rightarrow> pa_level p)\<rparr>],
       (case pm of None \<Rightarrow> True | Some p \<Rightarrow> p (ax_action ctx))))"

section \<open>The browser's gate\<close>

datatype signet_view =
    Spend_view did js_number "string option" escalation_band bool "sensitivity option" "control_act option"
  | Evidence_view string string
  | Action_view control_act
  | Policy_view string
  | Proof_view "did option" "did option"

record pending_approval =
  pn_id :: string
  pn_requester :: did
  pn_view :: signet_view

definition http_view :: "approval_context \<Rightarrow> signet_view" where
  "http_view ctx =
     (case ax_spend ctx of
        Some s \<Rightarrow> Spend_view (sd_agentDid s) (sd_amount s) (sd_unit s) (sd_band s) (sd_tier s \<ge> MULTIFACTOR)
          (sd_sensitivity s) (ax_action ctx)
      | None \<Rightarrow>
          (case ax_disclosure ctx of
             Some d \<Rightarrow> Evidence_view (dx_claim d) (dx_reason d)
           | None \<Rightarrow>
               (case ax_action ctx of
                  Some a \<Rightarrow> Action_view a
                | None \<Rightarrow>
                    (case ax_governance ctx of
                       Some summary \<Rightarrow> Policy_view summary
                     | None \<Rightarrow> Proof_view (ax_challengeDid ctx) (ax_schema ctx)))))"

datatype gate_event =
    Ev_pending pending_approval
  | Ev_timeout string
  | Ev_decided string verdict

text \<open>\<open>hg_settled\<close> lists the calls of the promises' \<open>resolve\<close>, in order.\<close>

record http_gate =
  hg_pending :: "pending_approval list"
  hg_history :: "history_entry list"
  hg_emitted :: "gate_event list"
  hg_settled :: "(string \<times> presence_assertion option) list"

definition empty_gate :: http_gate where
  "empty_gate = \<lparr>hg_pending = [], hg_history = [], hg_emitted = [], hg_settled = []\<rparr>"

text \<open>\<open>Map.set\<close> keeps the place of a key it has.\<close>

definition put_pending :: "pending_approval \<Rightarrow> pending_approval list \<Rightarrow> pending_approval list" where
  "put_pending a ps =
     (if pn_id a \<in> pn_id ` set ps then map (\<lambda>p. if pn_id p = pn_id a then a else p) ps else ps @ [a])"

definition http_approve :: "string \<Rightarrow> approval_context \<Rightarrow> http_gate \<Rightarrow> http_gate" where
  "http_approve i ctx g =
     (let a = \<lparr>pn_id = i, pn_requester = ax_requester ctx, pn_view = http_view ctx\<rparr> in
      g\<lparr>hg_pending := put_pending a (hg_pending g), hg_emitted := hg_emitted g @ [Ev_pending a]\<rparr>)"

definition find_pending :: "string \<Rightarrow> http_gate \<Rightarrow> pending_approval option" where
  "find_pending i g = find (\<lambda>p. pn_id p = i) (hg_pending g)"

text \<open>The deletion, the record, the event and the resolution that a timeout and a decision have in common.\<close>

definition close_pending ::
  "string \<Rightarrow> did \<Rightarrow> verdict \<Rightarrow> presence_assertion option \<Rightarrow> gate_event \<Rightarrow> http_gate \<Rightarrow> http_gate" where
  "close_pending i requester v a ev g =
     \<lparr>hg_pending = filter (\<lambda>p. pn_id p \<noteq> i) (hg_pending g),
      hg_history = hg_history g @ [\<lparr>hy_id = i, hy_requester = requester, hy_decision = v,
        hy_method = map_option pa_method a, hy_level = map_option pa_level a\<rparr>],
      hg_emitted = hg_emitted g @ [ev], hg_settled = hg_settled g @ [(i, a)]\<rparr>"

definition http_timeout :: "string \<Rightarrow> http_gate \<Rightarrow> http_gate" where
  "http_timeout i g =
     (case find_pending i g of
        None \<Rightarrow> g
      | Some p \<Rightarrow> close_pending i (pn_requester p) Verdict_denied None (Ev_timeout i) g)"

datatype decide_error = No_such_approval | Incorrect_PIN

definition http_decide ::
  "string \<Rightarrow> string \<Rightarrow> bool \<Rightarrow> string option \<Rightarrow> http_gate \<Rightarrow> decide_error + (verdict \<times> http_gate)" where
  "http_decide expectedPin i approve pin g =
     (case find_pending i g of
        None \<Rightarrow> Inl No_such_approval
      | Some p \<Rightarrow>
          if approve then
            if length expectedPin = 0 \<or> pin \<noteq> Some expectedPin then Inl Incorrect_PIN
            else Inr (Verdict_approved, close_pending i (pn_requester p) Verdict_approved
              (Some \<lparr>pa_method = ''pin'', pa_level = 1\<rparr>) (Ev_decided i Verdict_approved) g)
          else Inr (Verdict_denied, close_pending i (pn_requester p) Verdict_denied None (Ev_decided i Verdict_denied) g))"

text \<open>What happens at the gate, in order.\<close>

datatype gate_input =
    In_approve string approval_context
  | In_timeout string
  | In_decide string bool "string option"

fun http_step :: "string \<Rightarrow> gate_input \<Rightarrow> http_gate \<Rightarrow> http_gate" where
  "http_step pin (In_approve i ctx) g = http_approve i ctx g"
| "http_step pin (In_timeout i) g = http_timeout i g"
| "http_step pin (In_decide i approve p) g = (case http_decide pin i approve p g of Inl _ \<Rightarrow> g | Inr (_, g') \<Rightarrow> g')"

definition http_run :: "string \<Rightarrow> gate_input list \<Rightarrow> http_gate" where
  "http_run pin es = fold (http_step pin) es empty_gate"

fun asked_id :: "gate_input \<Rightarrow> string list" where
  "asked_id (In_approve i _) = [i]"
| "asked_id _ = []"

definition asked_ids :: "gate_input list \<Rightarrow> string list" where
  "asked_ids es = concat (map asked_id es)"


lemma asked_ids_simps [simp]:
  "asked_ids [] = []" "asked_ids (es @ es') = asked_ids es @ asked_ids es'" "asked_ids [e] = asked_id e"
  by (simp_all add: asked_ids_def)

lemma http_run_simps [simp]:
  "http_run pin [] = empty_gate" "http_run pin (es @ [e]) = http_step pin e (http_run pin es)"
  by (simp_all add: http_run_def)

subsection \<open>The invariant of the browser's gate\<close>

text \<open>Every question is either open or answered, once; the open ones are shown as \<open>http_view\<close> renders what was asked;
  a yes is level 1 and took the PIN.\<close>

definition shown_as :: "gate_input list \<Rightarrow> pending_approval \<Rightarrow> bool" where
  "shown_as es p \<longleftrightarrow> (\<exists>ctx. In_approve (pn_id p) ctx \<in> set es \<and> pn_requester p = ax_requester ctx \<and> pn_view p = http_view ctx)"

definition yes_by_pin :: "string \<Rightarrow> gate_input list \<Rightarrow> string \<times> presence_assertion option \<Rightarrow> bool" where
  "yes_by_pin pin es s \<longleftrightarrow> (case snd s of None \<Rightarrow> True
     | Some a \<Rightarrow> a = \<lparr>pa_method = ''pin'', pa_level = 1\<rparr> \<and> pin \<noteq> [] \<and> In_decide (fst s) True (Some pin) \<in> set es)"

definition gate_inv :: "string \<Rightarrow> gate_input list \<Rightarrow> http_gate \<Rightarrow> bool" where
  "gate_inv pin es g \<longleftrightarrow> distinct (map pn_id (hg_pending g)) \<and> distinct (map fst (hg_settled g)) \<and>
     pn_id ` set (hg_pending g) \<inter> fst ` set (hg_settled g) = {} \<and>
     pn_id ` set (hg_pending g) \<union> fst ` set (hg_settled g) = set (asked_ids es) \<and>
     list_all (shown_as es) (hg_pending g) \<and> list_all (yes_by_pin pin es) (hg_settled g) \<and>
     map hy_id (hg_history g) = map fst (hg_settled g)"

lemma shown_as_mono: "list_all (shown_as es) ps \<Longrightarrow> set es \<subseteq> set es' \<Longrightarrow> list_all (shown_as es') ps"
  by (fastforce simp: list_all_iff shown_as_def)

lemma yes_by_pin_mono: "list_all (yes_by_pin pin es) ss \<Longrightarrow> set es \<subseteq> set es' \<Longrightarrow> list_all (yes_by_pin pin es') ss"
  by (fastforce simp: list_all_iff yes_by_pin_def split: option.splits)

lemma gate_inv_mono:
  "gate_inv pin es g \<Longrightarrow> set es \<subseteq> set es' \<Longrightarrow> set (asked_ids es') = set (asked_ids es) \<Longrightarrow> gate_inv pin es' g"
  using shown_as_mono [of es "hg_pending g" es'] yes_by_pin_mono [of pin es "hg_settled g" es'] by (simp add: gate_inv_def)

lemma find_pending_Some: "find_pending i g = Some p \<Longrightarrow> p \<in> set (hg_pending g) \<and> pn_id p = i"
  by (auto simp: find_pending_def find_Some_iff)

lemma gate_inv_approve:
  assumes "gate_inv pin es g" "i \<notin> set (asked_ids es)"
  shows "gate_inv pin (es @ [In_approve i ctx]) (http_approve i ctx g)"
proof -
  let ?a = "\<lparr>pn_id = i, pn_requester = ax_requester ctx, pn_view = http_view ctx\<rparr>"
  let ?es = "es @ [In_approve i ctx]"
  have fresh: "i \<notin> pn_id ` set (hg_pending g)" "i \<notin> fst ` set (hg_settled g)"
    using assms by (auto simp: gate_inv_def)
  have "shown_as ?es ?a" by (auto simp: shown_as_def)
  moreover have "list_all (shown_as ?es) (hg_pending g)" "list_all (yes_by_pin pin ?es) (hg_settled g)"
    using assms(1) by (auto simp: gate_inv_def intro: shown_as_mono yes_by_pin_mono)
  ultimately show ?thesis using assms fresh
    by (simp add: gate_inv_def http_approve_def put_pending_def Let_def)
qed

lemma gate_inv_close:
  assumes "gate_inv pin es g" "find_pending i g = Some p" "yes_by_pin pin es (i, a)"
  shows "gate_inv pin es (close_pending i r v a ev g)"
proof -
  have i: "i \<in> pn_id ` set (hg_pending g)" using find_pending_Some [OF assms(2)] by auto
  have ids: "pn_id ` set (filter (\<lambda>p. pn_id p \<noteq> i) (hg_pending g)) = pn_id ` set (hg_pending g) - {i}" by auto
  have "list_all (shown_as es) (filter (\<lambda>p. pn_id p \<noteq> i) (hg_pending g))"
    using assms(1) by (auto simp: gate_inv_def list_all_iff)
  then show ?thesis using assms i unfolding gate_inv_def close_pending_def
    by (simp only: ids http_gate.simps) (auto simp: distinct_map_filter)
qed

lemma gate_inv_step:
  assumes "gate_inv pin es g" "distinct (asked_ids (es @ [e]))"
  shows "gate_inv pin (es @ [e]) (http_step pin e g)"
proof (cases e)
  case (In_approve i ctx)
  then show ?thesis using assms gate_inv_approve by simp
next
  case (In_timeout i)
  have inv: "gate_inv pin (es @ [e]) g" by (rule gate_inv_mono [OF assms(1)]) (auto simp: In_timeout)
  show ?thesis using inv gate_inv_close [OF inv, of i]
    by (auto simp: In_timeout http_timeout_def yes_by_pin_def split: option.split)
next
  case (In_decide i approve p)
  have inv: "gate_inv pin (es @ [e]) g" by (rule gate_inv_mono [OF assms(1)]) (auto simp: In_decide)
  show ?thesis using inv gate_inv_close [OF inv, of i] In_decide
    by (auto simp: http_decide_def yes_by_pin_def split: option.split)
qed

lemma gate_inv_run: "distinct (asked_ids es) \<Longrightarrow> gate_inv pin es (http_run pin es)"
proof (induction es rule: rev_induct)
  case Nil
  show ?case by (simp add: gate_inv_def empty_gate_def)
next
  case (snoc e es)
  then have "gate_inv pin es (http_run pin es)" by simp
  then show ?case using snoc.prems by (simp only: http_run_simps gate_inv_step)
qed

text \<open>
  C22. The browser's gate answers every question at most once, and yes only by the PIN: after any interleaving of
  questions, decisions, wrong PINs and timeouts, a question is open or answered and never both, the history has exactly the
  answers, in the order in which they were given, an open question is shown as what was asked, and a yes is an
  assertion of level 1 for which somebody posted an approval of this question with the configured PIN.\<close>

theorem signet_answers_once_by_pin:
  assumes "distinct (asked_ids es)" "g = http_run pin es"
  shows "distinct (map pn_id (hg_pending g) @ map fst (hg_settled g)) \<and>
    set (map pn_id (hg_pending g) @ map fst (hg_settled g)) = set (asked_ids es) \<and>
    map hy_id (hg_history g) = map fst (hg_settled g) \<and> list_all (shown_as es) (hg_pending g) \<and>
    (\<forall>i a. (i, Some a) \<in> set (hg_settled g) \<longrightarrow>
      a = \<lparr>pa_method = ''pin'', pa_level = 1\<rparr> \<and> pin \<noteq> [] \<and> In_decide i True (Some pin) \<in> set es)"
proof -
  have inv: "gate_inv pin es g" using gate_inv_run [OF assms(1)] assms(2) by simp
  then have "yes_by_pin pin es (i, Some a)" if "(i, Some a) \<in> set (hg_settled g)" for i a
    using that by (auto simp: gate_inv_def list_all_iff)
  then show ?thesis using inv by (auto simp: gate_inv_def yes_by_pin_def)
qed


section \<open>Keymaster and the messages\<close>

text \<open>\<open>addProof\<close> is given by the proof block it adds, of a text proof by its \<open>verificationMethod\<close>.\<close>

record signed_discharge = discharge +
  di_level :: int

record signet_env =
  sg_hash :: hash
  sg_currentId :: "string option"
  sg_createResponse :: "did \<Rightarrow> string option"
  sg_proveApproval :: "signed_approval \<Rightarrow> string option"
  sg_proveRuleset :: "ruleset \<Rightarrow> ruleset_proof option"
  sg_proveDischarge :: "signed_discharge \<Rightarrow> string option"
  sg_unwrap :: "string \<Rightarrow> string option"
  sg_seal :: "string \<Rightarrow> string \<Rightarrow> string option"
  sg_now :: string

definition signEvidenceApproval :: "signet_env \<Rightarrow> signed_approval \<Rightarrow> signed_approval option" where
  "signEvidenceApproval env st = map_option (\<lambda>m. st\<lparr>sa_proof := Some m\<rparr>) (sg_proveApproval env st)"

definition signRuleset :: "signet_env \<Rightarrow> ruleset \<Rightarrow> signed_ruleset option" where
  "signRuleset env r = map_option (\<lambda>p. ruleset.extend r \<lparr>rs_proof = Some p, rs_memberAck = None\<rparr>) (sg_proveRuleset env r)"

definition signMemberAck :: "signet_env \<Rightarrow> signed_ruleset \<Rightarrow> ruleset_proof option" where
  "signMemberAck env r = sg_proveRuleset env (baseRuleset r)"

record signet_discharge_request = discharge_request +
  dr_reason :: "string option"

datatype signet_message =
    M_proof_request did "did option"
  | M_approval_request string string string int string did
  | M_ruleset_sign_request ruleset string
  | M_member_ack_request signed_ruleset string
  | M_rewrap_request string string "(string \<times> string) list"
  | M_kb_approval_request string string string "spend_detail option"
  | M_discharge_request signet_discharge_request
  | M_other string

datatype signet_reply =
    Y_error string
  | Y_presentation string presence_assertion
  | Y_approval_refused string
  | Y_approval signed_approval
  | Y_ruleset_refused string
  | Y_ruleset signed_ruleset
  | Y_ack_refused string
  | Y_ack ruleset_proof
  | Y_rewrap_refused string string
  | Y_rewrapped string "(string \<times> string) list"
  | Y_kb bool "string option"
  | Y_discharge_refused string
  | Y_discharge signed_discharge

text \<open>No reply (\<open>null\<close>), a reply, or a rejection of the handler's promise.\<close>

datatype signet_result = Silent | Replies signet_reply | Rejects

fun settle :: "('a \<Rightarrow> signet_reply) \<Rightarrow> 'a option \<Rightarrow> signet_result" where
  "settle f None = Rejects"
| "settle f (Some x) = Replies (f x)"

section \<open>\<open>signDischarge\<close>\<close>

text \<open>The dash of the reason, in UTF-8.\<close>

definition dash :: string where
  "dash = [CHR '' '', CHR 0xE2, CHR 0x80, CHR 0x94, CHR '' '']"

definition apostrophe :: string where
  "apostrophe = [CHR 0xE2, CHR 0x80, CHR 0x99]"

definition discharge_reason :: "signet_discharge_request \<Rightarrow> string" where
  "discharge_reason req =
     (case dr_reason req of Some r \<Rightarrow> r | None \<Rightarrow> ''co-sign '' @ dr_predicate req) @ dash @ ''recipient '' @ dr_audience req @
     '', sensitivity '' @ int_str (dr_sensitivity req)"

definition discharge_context :: "signet_discharge_request \<Rightarrow> approval_context" where
  "discharge_context req = (bare_context ''the Warden'')\<lparr>ax_disclosure := Some \<lparr>dx_claim = dr_claim req,
     dx_evidenceRoot = [], dx_requiredLevel = (if dr_sensitivity req \<ge> 2 then 2 else 1), dx_reason = discharge_reason req\<rparr>\<rparr>"

definition request_subject :: "'a discharge_request_scheme \<Rightarrow> discharge_subject" where
  "request_subject req = \<lparr>ds_txn = dr_txn req, ds_predicate = dr_predicate req, ds_claim = dr_claim req, ds_kind = dr_kind req,
     ds_owner = dr_owner req, ds_audience = dr_audience req, ds_sensitivity = dr_sensitivity req, ds_reveal = dr_reveal req\<rparr>"

definition unsigned_discharge :: "hash \<Rightarrow> signet_discharge_request \<Rightarrow> int \<Rightarrow> signed_discharge" where
  "unsigned_discharge H req level = \<lparr>di_by = dr_by req, di_predicate = Some (dr_predicate req), di_txn = dr_txn req,
     di_digest = Some (dischargeDigest H (request_subject req)), di_proof = None, di_level = level\<rparr>"

definition signDischarge ::
  "signet_env \<Rightarrow> signet_gate \<Rightarrow> signet_discharge_request \<Rightarrow> signed_discharge option option" where
  "signDischarge env G req =
     (case G (discharge_context req) of
        None \<Rightarrow> Some None
      | Some a \<Rightarrow>
          (let d = unsigned_discharge (sg_hash env) req (pa_level a) in
           map_option (\<lambda>m. Some (d\<lparr>di_proof := Some m\<rparr>)) (sg_proveDischarge env d)))"

section \<open>The handler\<close>

text \<open>The context that a branch of the handler shows to the gate.\<close>

definition message_context :: "did \<Rightarrow> signet_message \<Rightarrow> approval_context" where
  "message_context from msg =
     (case msg of
        M_proof_request challenge schema \<Rightarrow> (bare_context from)\<lparr>ax_challengeDid := Some challenge, ax_schema := schema\<rparr>
      | M_approval_request txn claim eroot level reason subject \<Rightarrow>
          (bare_context from)\<lparr>ax_disclosure := Some \<lparr>dx_claim = claim, dx_evidenceRoot = eroot, dx_requiredLevel = level, dx_reason = reason\<rparr>\<rparr>
      | M_ruleset_sign_request r summary \<Rightarrow> (bare_context from)\<lparr>ax_governance := Some summary\<rparr>
      | M_member_ack_request r summary \<Rightarrow> (bare_context from)\<lparr>ax_guardianship := Some summary\<rparr>
      | M_rewrap_request session pub partitions \<Rightarrow> (bare_context from)\<lparr>ax_rewrap := Some (session, length partitions)\<rparr>
      | M_kb_approval_request action resource summary spend \<Rightarrow>
          (bare_context from)\<lparr>ax_action := Some \<lparr>ac_action = action, ac_resource = Some resource, ac_summary = summary\<rparr>, ax_spend := spend\<rparr>
      | M_discharge_request req \<Rightarrow> discharge_context req
      | M_other _ \<Rightarrow> bare_context from)"

definition approval_statement :: "signet_env \<Rightarrow> string \<Rightarrow> string \<Rightarrow> string \<Rightarrow> did \<Rightarrow> presence_assertion \<Rightarrow> signed_approval" where
  "approval_statement env txn claim eroot subject a = \<lparr>sa_approver = subject, sa_txn = txn, sa_claim = claim, sa_evidenceRoot = eroot,
     sa_humanProof = Some \<lparr>hu_method = pa_method a, hu_level = pa_level a, hu_timestamp = sg_now env\<rparr>, sa_proof = None\<rparr>"

text \<open>A partition key that does not unwrap, or does not seal, is skipped.\<close>

fun rewrap_all :: "signet_env \<Rightarrow> string \<Rightarrow> (string \<times> string) list \<Rightarrow> (string \<times> string) list" where
  "rewrap_all env pub [] = []"
| "rewrap_all env pub ((i, wrapped) # ps) =
     (case Option.bind (sg_unwrap env wrapped) (sg_seal env pub) of
        None \<Rightarrow> rewrap_all env pub ps
      | Some sealed \<Rightarrow> (i, sealed) # rewrap_all env pub ps)"

definition sovereign_handler :: "signet_env \<Rightarrow> signet_gate \<Rightarrow> did option \<Rightarrow> did \<Rightarrow> signet_message \<Rightarrow> signet_result" where
  "sovereign_handler env G trusted from msg =
     (let ask = G (message_context from msg) in
      case msg of
        M_proof_request challenge schema \<Rightarrow>
          (case ask of
             None \<Rightarrow> Replies (Y_error ''disclosure declined by the Sovereign'')
           | Some a \<Rightarrow> settle (\<lambda>r. Y_presentation r a) (sg_createResponse env challenge))
      | M_approval_request txn claim eroot level reason subject \<Rightarrow>
          (case ask of
             None \<Rightarrow> Replies (Y_approval_refused ''declined by the Sovereign'')
           | Some a \<Rightarrow>
               if pa_level a < level
               then Replies (Y_approval_refused (''proof-of-human level '' @ int_str (pa_level a) @ '' below required '' @ int_str level))
               else settle Y_approval (signEvidenceApproval env (approval_statement env txn claim eroot subject a)))
      | M_ruleset_sign_request r summary \<Rightarrow>
          (case ask of
             None \<Rightarrow> Replies (Y_ruleset_refused ''declined by the Sovereign'')
           | Some a \<Rightarrow> settle Y_ruleset (signRuleset env r))
      | M_member_ack_request r summary \<Rightarrow>
          (case ask of
             None \<Rightarrow> Replies (Y_ack_refused ''declined by the member'')
           | Some a \<Rightarrow> settle Y_ack (signMemberAck env r))
      | M_rewrap_request session pub partitions \<Rightarrow>
          (case ask of
             None \<Rightarrow> Replies (Y_rewrap_refused session ''declined by the member'')
           | Some a \<Rightarrow> Replies (Y_rewrapped session (rewrap_all env pub partitions)))
      | M_kb_approval_request action resource summary spend \<Rightarrow>
          Replies (Y_kb (ask \<noteq> None) (if ask \<noteq> None then None else Some ''declined by the Sovereign''))
      | M_discharge_request req \<Rightarrow>
          if \<not> truthy_string trusted \<or> Some from \<noteq> trusted
          then Replies (Y_discharge_refused (''discharge requests are accepted only from the configured owner'' @ apostrophe @ ''s Warden''))
          else if \<not> truthy_string (sg_currentId env) then Replies (Y_discharge_refused ''no current identity at the Signet'')
          else (case signDischarge env G req of
              None \<Rightarrow> Rejects
            | Some None \<Rightarrow> Replies (Y_discharge_refused ''declined by the Signet'')
            | Some (Some d) \<Rightarrow> Replies (Y_discharge d))
      | M_other _ \<Rightarrow> Silent)"


section \<open>Nothing without consent\<close>

fun releases :: "signet_reply \<Rightarrow> bool" where
  "releases (Y_presentation _ _) = True"
| "releases (Y_approval _) = True"
| "releases (Y_ruleset _) = True"
| "releases (Y_ack _) = True"
| "releases (Y_rewrapped _ _) = True"
| "releases (Y_kb ok _) = ok"
| "releases (Y_discharge _) = True"
| "releases _ = False"

definition is_discharge :: "signet_message \<Rightarrow> bool" where
  "is_discharge msg = (case msg of M_discharge_request _ \<Rightarrow> True | _ \<Rightarrow> False)"

text \<open>What left the Signet, against what the gate was shown.\<close>

definition as_shown :: "signet_env \<Rightarrow> approval_context \<Rightarrow> presence_assertion \<Rightarrow> signet_reply \<Rightarrow> bool" where
  "as_shown env ctx a y =
     (case y of
        Y_presentation r b \<Rightarrow> b = a \<and> Option.bind (ax_challengeDid ctx) (sg_createResponse env) = Some r
      | Y_approval st \<Rightarrow> (case ax_disclosure ctx of None \<Rightarrow> False
          | Some d \<Rightarrow> sa_claim st = dx_claim d \<and> sa_evidenceRoot st = dx_evidenceRoot d \<and> dx_requiredLevel d \<le> pa_level a \<and>
              map_option hu_level (sa_humanProof st) = Some (pa_level a))
      | Y_ruleset r \<Rightarrow> ax_governance ctx \<noteq> None
      | Y_ack p \<Rightarrow> ax_guardianship ctx \<noteq> None
      | Y_rewrapped session ks \<Rightarrow> (case ax_rewrap ctx of None \<Rightarrow> False | Some (i, n) \<Rightarrow> i = session \<and> length ks \<le> n)
      | Y_kb ok r \<Rightarrow> ax_action ctx \<noteq> None
      | Y_discharge d \<Rightarrow> di_level d = pa_level a \<and>
          (\<exists>req. ctx = discharge_context req \<and> di_txn d = dr_txn req \<and> di_digest d = Some (dischargeDigest (sg_hash env) (request_subject req)))
      | _ \<Rightarrow> False)"

lemma rewrap_all_length: "length (rewrap_all env pub ps) \<le> length ps"
  by (induction env pub ps rule: rewrap_all.induct) (auto split: option.splits)

lemma settle_Replies: "settle f x = Replies y \<longleftrightarrow> (\<exists>v. x = Some v \<and> y = f v)"
  by (cases x) auto

lemmas signet_defs = sovereign_handler_def message_context_def Let_def settle_Replies

lemma signDischarge_Some:
  "signDischarge env G req = Some (Some d) \<Longrightarrow> \<exists>a m. G (discharge_context req) = Some a \<and>
     sg_proveDischarge env (unsigned_discharge (sg_hash env) req (pa_level a)) = Some m \<and>
     d = (unsigned_discharge (sg_hash env) req (pa_level a))\<lparr>di_proof := Some m\<rparr>"
  by (auto simp: signDischarge_def Let_def split: option.splits)

lemma discharge_reply:
  assumes "sovereign_handler env G trusted from (M_discharge_request req) = Replies y" "releases y"
  shows "trusted = Some from \<and> from \<noteq> [] \<and> (\<exists>d. y = Y_discharge d \<and> signDischarge env G req = Some (Some d))"
  using assms by (auto simp: sovereign_handler_def Let_def truthy_string_iff split: if_splits option.splits)

lemma approval_reply:
  assumes "sovereign_handler env G trusted from (M_approval_request txn claim eroot level reason subject) = Replies y" "releases y"
  shows "\<exists>a st. G (message_context from (M_approval_request txn claim eroot level reason subject)) = Some a \<and> level \<le> pa_level a \<and>
    y = Y_approval st \<and> signEvidenceApproval env (approval_statement env txn claim eroot subject a) = Some st"
  using assms by (auto simp: sovereign_handler_def Let_def settle_Replies not_less split: if_splits option.splits)



section \<open>The Signet and the Warden together\<close>

text \<open>A gate whose yes is an answer of the browser's gate after the inputs \<open>es\<close> to the same question.\<close>

definition browser_gate :: "string \<Rightarrow> gate_input list \<Rightarrow> signet_gate \<Rightarrow> bool" where
  "browser_gate pin es G \<longleftrightarrow> distinct (asked_ids es) \<and> (\<forall>ctx a. G ctx = Some a \<longrightarrow>
     (\<exists>i. In_approve i ctx \<in> set es \<and> (i, Some a) \<in> set (hg_settled (http_run pin es))))"

lemma browser_yes:
  assumes "browser_gate pin es G" "G ctx = Some a"
  shows "a = \<lparr>pa_method = ''pin'', pa_level = 1\<rparr> \<and> pin \<noteq> [] \<and>
    (\<exists>i. In_approve i ctx \<in> set es \<and> In_decide i True (Some pin) \<in> set es)"
proof -
  obtain i where i: "In_approve i ctx \<in> set es" "(i, Some a) \<in> set (hg_settled (http_run pin es))"
    using assms by (auto simp: browser_gate_def)
  have "gate_inv pin es (http_run pin es)" using assms(1) by (intro gate_inv_run) (simp add: browser_gate_def)
  then have "yes_by_pin pin es (i, Some a)" using i(2) by (auto simp: gate_inv_def list_all_iff)
  then show ?thesis using i(1) by (auto simp: yes_by_pin_def)
qed

text \<open>A discharge the Warden holds was signed here; the Warden reads it without its level.\<close>

definition signed_here :: "signet_env \<Rightarrow> signet_gate \<Rightarrow> did option \<Rightarrow> discharge \<Rightarrow> bool" where
  "signed_here env G trusted c \<longleftrightarrow> (\<exists>from req d.
     sovereign_handler env G trusted from (M_discharge_request req) = Replies (Y_discharge d) \<and> c = discharge.truncate d)"

lemma signed_here_shown:
  assumes "signed_here env G trusted c"
  shows "\<exists>req a. truthy_string trusted \<and> G (discharge_context req) = Some a \<and>
    di_digest c = Some (dischargeDigest (sg_hash env) (request_subject req)) \<and> di_txn c = dr_txn req"
proof -
  obtain sender req d where d: "sovereign_handler env G trusted sender (M_discharge_request req) = Replies (Y_discharge d)"
    "c = discharge.truncate d" using assms by (auto simp: signed_here_def)
  have t: "trusted = Some sender" "sender \<noteq> []" "signDischarge env G req = Some (Some d)" using discharge_reply [OF d(1)] by auto
  obtain a m where "G (discharge_context req) = Some a"
      "d = (unsigned_discharge (sg_hash env) req (pa_level a))\<lparr>di_proof := Some m\<rparr>"
    using signDischarge_Some [OF t(3)] by blast
  then show ?thesis using d(2) t(1,2)
    by (intro exI [of _ req] exI [of _ a]) (simp add: discharge.truncate_def unsigned_discharge_def truthy_string_iff flip: neq_Nil_conv)
qed

lemma subject_eqD:
  assumes "request_subject req\<lparr>ds_reveal := None\<rparr> = s\<lparr>ds_reveal := None\<rparr>"
  shows "dr_claim req = ds_claim s \<and> dr_audience req = ds_audience s \<and> dr_sensitivity req = ds_sensitivity s \<and>
    dr_owner req = ds_owner s \<and> dr_kind req = ds_kind s"
  using assms by (cases s) (simp add: request_subject_def)


lemma digest_reveal_opt:
  "opt_list (ds_reveal s) = opt_list (ds_reveal s') \<Longrightarrow> s\<lparr>ds_reveal := None\<rparr> = s'\<lparr>ds_reveal := None\<rparr> \<Longrightarrow>
     dischargeDigest H s = dischargeDigest H s'"
  by (cases s; cases s') (auto simp: dischargeDigest_def digest_text_def discharge_json_array_def opt_list_def)

text \<open>
  C30. Consent that was given is recognised: the Warden asks the owner's Signet for what its monitor misses, in its own words;
  if the Signet answers with a discharge that it signed as the party asked, under a signature that verifies, then that
  discharge satisfies the monitor's requirement for exactly this act.\<close>

theorem consent_round_trip:
  assumes "sovereign_handler env G trusted from (M_discharge_request req) = Replies (Y_discharge d)"
    and "discharge_request.truncate req = discharge_request_for msg leaf owner x (signer, predicate)"
    and "mc_sensitivity ctx = Some x" "mc_owner ctx = Some owner" "cv_owner (vl_caveats leaf) \<in> {None, Some owner}"
    and "at_claim (in_act msg) \<noteq> None" "at_kind (in_act msg) \<noteq> None" "sg_hash env = H"
    and "\<And>u m. sg_proveDischarge env u = Some m \<Longrightarrow> before_hash m = signer \<and>
      me_verifyDischarge menv (discharge.truncate (u\<lparr>di_proof := Some m\<rparr>))"
  shows "discharge_satisfies H menv ctx (in_act msg) leaf signer predicate (discharge.truncate d)"
proof -
  have sd: "signDischarge env G req = Some (Some d)" using discharge_reply [OF assms(1)] by auto
  obtain a :: presence_assertion and m where m: "sg_proveDischarge env (unsigned_discharge H req (pa_level a)) = Some m"
      "d = (unsigned_discharge H req (pa_level a))\<lparr>di_proof := Some m\<rparr>"
    using signDischarge_Some [OF sd] unfolding assms(8) by blast
  have r: "dr_txn req = at_txn (in_act msg)" "dr_by req = signer" "dr_predicate req = predicate" "dr_claim req = the (at_claim (in_act msg))"
      "dr_kind req = the (at_kind (in_act msg))" "dr_owner req = owner" "dr_audience req = audience_of leaf" "dr_sensitivity req = x"
      "dr_reveal req = (if opt_list (at_reveal (in_act msg)) \<noteq> [] then at_reveal (in_act msg) else None)"
    using assms(2) by (simp_all add: discharge_request.truncate_def discharge_request_for_def)
  have "dischargeDigest H (request_subject req) = dischargeDigest H (act_subject ctx (in_act msg) leaf predicate)"
    using r assms(3-7) by (intro digest_reveal_opt) (auto simp: request_subject_def act_subject_def opt_list_def audience_of_def split: option.split)
  then show ?thesis using assms(9) [OF m(1)] m(2) r(1-3)
    by (simp add: discharge_satisfies_def discharge.truncate_def unsigned_discharge_def)
qed

section \<open>Gaps\<close>

text \<open>
  No SEALED disclosure can be approved in the browser: the assertion of \<open>HttpGate.decide\<close> is level 1 whatever the
  disclosure requires, so an approval request that requires level 2 is answered by a refusal, whoever approves it with the right
  PIN, while the terminal's gate, which attests the required level, approves the same request.\<close>

theorem browser_cannot_approve_sealed:
  assumes "browser_gate pin es G" "2 \<le> level" "pin \<noteq> []"
    and "msg = M_approval_request txn claim eroot level reason subject" "\<And>st. sg_proveApproval env st \<noteq> None"
  shows "(\<forall>y. sovereign_handler env G trusted from msg = Replies y \<longrightarrow> \<not> releases y) \<and>
    (\<exists>st. sovereign_handler env (prompt_gate pin pin) trusted from msg = Replies (Y_approval st) \<and>
      map_option hu_level (sa_humanProof st) = Some level)"
proof (intro conjI allI impI notI)
  fix y assume y: "sovereign_handler env G trusted from msg = Replies y" "releases y"
  obtain a where a: "G (message_context from msg) = Some a" "level \<le> pa_level a"
    using approval_reply [OF y [unfolded assms(4)]] assms(4) by blast
  show False using browser_yes [OF assms(1) a(1)] a(2) assms(2) by simp
next
  show "\<exists>st. sovereign_handler env (prompt_gate pin pin) trusted from msg = Replies (Y_approval st) \<and>
      map_option hu_level (sa_humanProof st) = Some level"
    using assms(2,3,4) assms(5) [of "approval_statement env txn claim eroot subject \<lparr>pa_method = ''pin'', pa_level = level\<rparr>"]
    by (auto simp: sovereign_handler_def message_context_def prompt_gate_def pinAssertion_def approvedLevel_def Let_def settle_Replies
        signEvidenceApproval_def approval_statement_def max_def)
qed

text \<open>
  An agent's Signet gives human consent: with the gate of a root agent, a consent request of the configured Warden is
  signed at whatever sensitivity, with no human, and the discharge says neither that an agent gave it nor that its level
  is below the one that was asked for.\<close>

theorem agent_signs_human_consent:
  assumes "trusted = Some from" "from \<noteq> []" "truthy_string (sg_currentId env)" "\<And>u. sg_proveDischarge env u \<noteq> None"
    and "dr_predicate req = ''human-consent''" "2 \<le> dr_sensitivity req"
  shows "\<exists>d. sovereign_handler env (\<lambda>ctx. gate_approve None None (ax_action ctx)) trusted from (M_discharge_request req) = Replies (Y_discharge d) \<and>
    di_predicate d = Some ''human-consent'' \<and> di_level d < approvedLevel (discharge_context req)"
proof -
  let ?u = "unsigned_discharge (sg_hash env) req 1"
  obtain m where m: "sg_proveDischarge env ?u = Some m" using assms(4) by blast
  have "signDischarge env (\<lambda>ctx. gate_approve None None (ax_action ctx)) req = Some (Some (?u\<lparr>di_proof := Some m\<rparr>))"
    by (simp add: signDischarge_def gate_approve_def m Let_def)
  then show ?thesis using assms(1-3,5,6)
    by (simp add: sovereign_handler_def Let_def unsigned_discharge_def approvedLevel_def discharge_context_def bare_context_def)
qed

text \<open>
  Who agrees to be watched sees nothing of it: the question to the member shows neither the Ruleset nor the summary; in
  the browser and in the terminal it looks like a proof request without a challenge, and like an unlocking of keys
  from the same sender.\<close>

theorem guardianship_consent_blind:
  shows "http_view (message_context from (M_member_ack_request r summary)) = Proof_view None None \<and>
    http_view (message_context from (M_rewrap_request session pub ps)) = Proof_view None None \<and>
    prompt_lines (message_context from (M_member_ack_request r summary)) = Challenge_line [] \<and>
    prompt_lines (message_context from (M_rewrap_request session pub ps)) = Challenge_line []"
  by (simp add: http_view_def prompt_lines_def message_context_def bare_context_def)

text \<open>
  The law that is signed is not the law that is shown: the context of a signature request has the sender's
  summary and nothing of the Ruleset, so with one and the same question answered, whatever Ruleset was sent is signed.\<close>

theorem ruleset_signed_unseen:
  assumes "G (message_context from (M_ruleset_sign_request shown summary)) = Some a" "sg_proveRuleset env r = Some p"
  shows "\<exists>s. sovereign_handler env G trusted from (M_ruleset_sign_request r summary) = Replies (Y_ruleset s) \<and>
    baseRuleset s = r \<and> rs_proof s = Some p"
proof -
  have "message_context from (M_ruleset_sign_request r summary) = message_context from (M_ruleset_sign_request shown summary)"
    by (simp add: message_context_def)
  then show ?thesis using assms
    by (simp add: sovereign_handler_def Let_def signRuleset_def baseRuleset_def ruleset.defs)
qed

end
