(* ===== verification/Sovereign_Watch.thy ===== *)
theory Sovereign_Watch
  imports Signet
begin

text \<open>
  What the Sovereign watches of its family: the lineage store and its forest
  (\<open>packages/sovereign/src/lineage-store.ts\<close>) and the watch reports that \<open>runSovereignControl\<close> takes from the mailbox before the
  Signet's handler (\<open>control.ts\<close>). A store is the list in its file, the empty list when that cannot be read.
\<close>

section \<open>The lineage store\<close>

record lineage_record =
  lr_vcDid :: did
  lr_parentVcDid :: "did option"
  lr_issuer :: "did option"
  lr_holder :: did
  lr_counter :: int
  lr_ts :: string
  lr_revoked :: bool

definition record_node :: "lineage_record \<Rightarrow> lineage_record list \<Rightarrow> lineage_record list" where
  "record_node r all = (if list_ex (\<lambda>x. lr_vcDid x = lr_vcDid r) all then all else all @ [r])"

definition get_node :: "did \<Rightarrow> lineage_record list \<Rightarrow> lineage_record option" where
  "get_node d all = find (\<lambda>x. lr_vcDid x = d) all"

fun mark_first :: "did \<Rightarrow> lineage_record list \<Rightarrow> lineage_record list" where
  "mark_first d [] = []"
| "mark_first d (x # xs) = (if lr_vcDid x = d then x\<lparr>lr_revoked := True\<rparr> # xs else x # mark_first d xs)"

definition mark_revoked :: "did \<Rightarrow> lineage_record list \<Rightarrow> bool \<times> lineage_record list" where
  "mark_revoked d all = (if get_node d all = None then (False, all) else (True, mark_first d all))"

section \<open>The forest\<close>

text \<open>\<open>byId\<close>, a map in insertion order: of several records of one DID the last, in the place of the first.\<close>

definition by_id :: "lineage_record list \<Rightarrow> lineage_record list" where
  "by_id all = map (\<lambda>d. the (map_of (rev (map (\<lambda>r. (lr_vcDid r, r)) all)) d)) (js_set (map lr_vcDid all))"

definition parent_of :: "lineage_record list \<Rightarrow> lineage_record \<Rightarrow> did option" where
  "parent_of all r = (case lr_parentVcDid r of
     None \<Rightarrow> None
   | Some p \<Rightarrow> if p \<noteq> [] \<and> p \<in> lr_vcDid ` set all then Some p else None)"

datatype lineage_tree = Node (tree_record: lineage_record) (tree_children: "lineage_tree list")

text \<open>The two sorts; \<open>coll\<close> gives the collation keys of \<open>localeCompare\<close>.\<close>

definition by_ts :: "(string \<Rightarrow> string) \<Rightarrow> lineage_record list \<Rightarrow> lineage_record list" where
  "by_ts coll rs = sort_key (\<lambda>r. coll (lr_ts r)) rs"

definition by_counter :: "(string \<Rightarrow> string) \<Rightarrow> lineage_record list \<Rightarrow> lineage_record list" where
  "by_counter coll rs = sort_key lr_counter (by_ts coll rs)"

definition children_of :: "lineage_record list \<Rightarrow> did \<Rightarrow> lineage_record list" where
  "children_of all d = filter (\<lambda>r. parent_of all r = Some d) all"

text \<open>The depth below a root is less than the number of records.\<close>

fun node_tree :: "(string \<Rightarrow> string) \<Rightarrow> lineage_record list \<Rightarrow> nat \<Rightarrow> lineage_record \<Rightarrow> lineage_tree" where
  "node_tree coll all 0 r = Node r []"
| "node_tree coll all (Suc n) r =
     Node r (map (node_tree coll all n) (by_counter coll (children_of all (lr_vcDid r))))"

definition forest :: "(string \<Rightarrow> string) \<Rightarrow> lineage_record list \<Rightarrow> lineage_tree list" where
  "forest coll file =
     (let all = by_id file in map (node_tree coll all (length all)) (by_ts coll (filter (\<lambda>r. parent_of all r = None) all)))"

fun tree_records :: "lineage_tree \<Rightarrow> lineage_record list" where
  "tree_records (Node r ts) = r # concat (map tree_records ts)"

definition forest_records :: "(string \<Rightarrow> string) \<Rightarrow> lineage_record list \<Rightarrow> lineage_record list" where
  "forest_records coll file = concat (map tree_records (forest coll file))"

section \<open>The watch reports\<close>

record flow_event =
  fl_from :: did
  fl_to :: did
  fl_kind :: string
  fl_governingCapabilityDid :: "did option"
  fl_witnessKind :: "string option"
  fl_decision :: "string option"
  fl_ts :: string

datatype watch_message =
    W_hop_registered did did did int
  | W_hop_revoked did
  | W_flow_event flow_event
  | W_action_approval control_act
  | W_base signet_message

datatype watch_event =
    Delegated_event did did did did
  | Revoked_event did did
  | Root_minted_event did did
  | Flow_event flow_event
  | Capability_granted_event did did
  | Capability_revoked_event did

record watch_state =
  wt_lineage :: "lineage_record list"
  wt_flow :: "flow_event list"
  wt_emitted :: "watch_event list"

datatype watch_result = Watch_silent | Action_approved bool | Base_result signet_result

definition push_flow :: "flow_event \<Rightarrow> flow_event list \<Rightarrow> flow_event list" where
  "push_flow f evs = (let evs' = evs @ [f] in if length evs' > 200 then tl evs' else evs')"

definition recent_flow :: "flow_event list \<Rightarrow> flow_event list" where
  "recent_flow evs = take 100 (rev evs)"

definition watch_handler ::
  "signet_env \<Rightarrow> signet_gate \<Rightarrow> did option \<Rightarrow> did \<Rightarrow> string \<Rightarrow> did \<Rightarrow> watch_message \<Rightarrow> watch_state \<Rightarrow>
     watch_result \<times> watch_state" where
  "watch_handler env G trusted self now from msg st =
     (case msg of
        W_hop_registered child parent holder counter \<Rightarrow>
          (Watch_silent, st\<lparr>
             wt_lineage := record_node \<lparr>lr_vcDid = child, lr_parentVcDid = (if parent = [] then None else Some parent),
               lr_issuer = Some from, lr_holder = holder, lr_counter = counter, lr_ts = now, lr_revoked = False\<rparr> (wt_lineage st),
             wt_emitted := wt_emitted st @ [Delegated_event child parent holder from]\<rparr>)
      | W_hop_revoked child \<Rightarrow>
          (Watch_silent,
           case get_node child (wt_lineage st) of
             None \<Rightarrow> st
           | Some node \<Rightarrow>
               if Some from = lr_issuer node \<or> from = self
               then st\<lparr>wt_lineage := snd (mark_revoked child (wt_lineage st)), wt_emitted := wt_emitted st @ [Revoked_event child from]\<rparr>
               else st)
      | W_flow_event f \<Rightarrow>
          (let flow = f\<lparr>fl_from := from\<rparr> in
           (Watch_silent, st\<lparr>wt_flow := push_flow flow (wt_flow st), wt_emitted := wt_emitted st @ [Flow_event flow]\<rparr>))
      | W_action_approval act \<Rightarrow> (Action_approved (G ((bare_context from)\<lparr>ax_action := Some act\<rparr>) \<noteq> None), st)
      | W_base m \<Rightarrow> (Base_result (sovereign_handler env G trusted from m), st))"

text \<open>What \<open>POST /api/mint-root\<close> adds once the root is minted and handed over.\<close>

definition watch_minted_root :: "did \<Rightarrow> string \<Rightarrow> did \<Rightarrow> did \<Rightarrow> watch_state \<Rightarrow> watch_state" where
  "watch_minted_root self now root_did holder st = st\<lparr>
     wt_lineage := record_node \<lparr>lr_vcDid = root_did, lr_parentVcDid = None, lr_issuer = Some self, lr_holder = holder,
       lr_counter = 0, lr_ts = now, lr_revoked = False\<rparr> (wt_lineage st),
     wt_emitted := wt_emitted st @ [Root_minted_event root_did holder]\<rparr>"

text \<open>What happens to the watch, in order; the clock is read at every input.\<close>

datatype watch_input =
    In_message string did watch_message
  | In_minted string did did

fun watch_step :: "signet_env \<Rightarrow> signet_gate \<Rightarrow> did option \<Rightarrow> did \<Rightarrow> watch_input \<Rightarrow> watch_state \<Rightarrow> watch_state" where
  "watch_step env G trusted self (In_message now from msg) st = snd (watch_handler env G trusted self now from msg st)"
| "watch_step env G trusted self (In_minted now root_did holder) st = watch_minted_root self now root_did holder st"

definition watch_run :: "signet_env \<Rightarrow> signet_gate \<Rightarrow> did option \<Rightarrow> did \<Rightarrow> watch_input list \<Rightarrow> watch_state \<Rightarrow> watch_state" where
  "watch_run env G trusted self es st = fold (watch_step env G trusted self) es st"


section \<open>What the forest shows\<close>

definition parent_record :: "lineage_record list \<Rightarrow> lineage_record \<Rightarrow> lineage_record option" where
  "parent_record all r = Option.bind (parent_of all r) (\<lambda>d. get_node d all)"

primrec up :: "lineage_record list \<Rightarrow> nat \<Rightarrow> lineage_record \<Rightarrow> lineage_record option" where
  "up all 0 r = Some r"
| "up all (Suc k) r = Option.bind (up all k r) (parent_record all)"

text \<open>Following the reported parents from a record ends at a record without one.\<close>

definition grounded :: "lineage_record list \<Rightarrow> lineage_record \<Rightarrow> bool" where
  "grounded all r \<longleftrightarrow> (\<exists>k t. up all k r = Some t \<and> parent_of all t = None)"

lemma get_node_Some: "distinct (map lr_vcDid all) \<Longrightarrow> get_node d all = Some r \<longleftrightarrow> r \<in> set all \<and> lr_vcDid r = d"
  unfolding get_node_def by (induction all) (auto simp: rev_image_eqI split: if_splits)

lemma by_id_distinct: "distinct (map lr_vcDid all) \<Longrightarrow> by_id all = all"
proof -
  assume d: "distinct (map lr_vcDid all)"
  then have "distinct (map fst (rev (map (\<lambda>r. (lr_vcDid r, r)) all)))"
    unfolding rev_map [symmetric] distinct_rev by (simp add: comp_def)
  then have "map_of (rev (map (\<lambda>r. (lr_vcDid r, r)) all)) (lr_vcDid r) = Some r" if "r \<in> set all" for r
    using that by (intro map_of_is_SomeI) auto
  then show ?thesis using d by (simp add: by_id_def js_set_distinct map_idI)
qed

lemma parent_record_iff:
  "distinct (map lr_vcDid all) \<Longrightarrow> r \<in> set all \<Longrightarrow> parent_record all c = Some r \<longleftrightarrow> parent_of all c = Some (lr_vcDid r)"
  using get_node_Some [of all] by (auto simp: parent_record_def bind_eq_Some_conv)

lemma parent_record_None: "distinct (map lr_vcDid all) \<Longrightarrow> parent_record all r = None \<longleftrightarrow> parent_of all r = None"
proof -
  assume d: "distinct (map lr_vcDid all)"
  have "get_node p all \<noteq> None" if "parent_of all r = Some p" for p
    using that by (auto simp: parent_of_def get_node_def find_None_iff split: option.splits if_splits)
  then show ?thesis by (cases "parent_of all r") (auto simp: parent_record_def)
qed

lemma up_add: "up all (j + k) x = Option.bind (up all k x) (up all j)"
  by (induction j) (auto split: bind_splits)

lemma up_in: "up all k x = Some r \<Longrightarrow> x \<in> set all \<Longrightarrow> r \<in> set all"
  by (induction k arbitrary: r) (auto simp: bind_eq_Some_conv parent_record_def get_node_def find_Some_iff)

lemma up_root_unique:
  assumes "up all k x = Some r" "parent_record all r = None" "up all j x = Some s" "parent_record all s = None"
  shows "k = j"
proof -
  have no: "up all m t = None" if "parent_record all t = None" "0 < m" for m t
  proof -
    obtain m' where "m = m' + 1" using \<open>0 < m\<close> by (cases m) auto
    then show ?thesis using \<open>parent_record all t = None\<close> by (simp only: up_add) simp
  qed
  have "up all j x = Option.bind (up all k x) (up all (j - k))" if "k < j" using up_add [of all "j - k" k x] that by simp
  moreover have "up all k x = Option.bind (up all j x) (up all (k - j))" if "j < k" using up_add [of all "k - j" j x] that by simp
  ultimately show ?thesis using assms no by (cases k j rule: linorder_cases) auto
qed

lemma grounded_short:
  assumes "up all k x = Some r" "parent_record all r = None" "x \<in> set all"
  shows "k < length all"
proof -
  have some: "\<exists>t. up all i x = Some t \<and> up all (k - i) t = Some r" if "i \<le> k" for i
    using up_add [of all "k - i" i x] assms(1) that by (cases "up all i x") auto
  have "inj_on (\<lambda>i. the (up all i x)) {..k}"
  proof (rule inj_onI)
    fix i j assume ij: "i \<in> {..k}" "j \<in> {..k}" "the (up all i x) = the (up all j x)"
    obtain t where t: "up all i x = Some t" "up all (k - i) t = Some r" using some [of i] ij(1) by auto
    obtain u where u: "up all j x = Some u" "up all (k - j) u = Some r" using some [of j] ij(2) by auto
    have "k - i = k - j" using up_root_unique [OF t(2) assms(2), of "k - j" r] u t ij(3) assms(2) by simp
    then show "i = j" using ij by auto
  qed
  moreover have "(\<lambda>i. the (up all i x)) ` {..k} \<subseteq> set all"
  proof
    fix y assume "y \<in> (\<lambda>i. the (up all i x)) ` {..k}"
    then obtain i where "i \<le> k" "y = the (up all i x)" by auto
    then show "y \<in> set all" using some [of i] up_in [of all i x y] assms(3) by auto
  qed
  ultimately have "card {..k} \<le> card (set all)" using card_inj_on_le by blast
  then show ?thesis using card_length [of all] by simp
qed

lemma set_children:
  "distinct (map lr_vcDid all) \<Longrightarrow> r \<in> set all \<Longrightarrow>
     set (by_counter coll (children_of all (lr_vcDid r))) = {c \<in> set all. parent_record all c = Some r}"
  by (auto simp: by_counter_def by_ts_def children_of_def parent_record_iff)

lemma tree_records_set:
  assumes "distinct (map lr_vcDid all)" "r \<in> set all"
  shows "set (tree_records (node_tree coll all n r)) = {x \<in> set all. \<exists>k\<le>n. up all k x = Some r}"
  using assms(2)
proof (induction n arbitrary: r)
  case (Suc n)
  have "set (tree_records (node_tree coll all (Suc n) r)) =
      insert r (\<Union>c\<in>{c \<in> set all. parent_record all c = Some r}. {x \<in> set all. \<exists>k\<le>n. up all k x = Some c})"
    using Suc.IH by (simp add: set_children [OF assms(1) Suc.prems])
  also have "\<dots> = {x \<in> set all. \<exists>k\<le>Suc n. up all k x = Some r}"
  proof (intro equalityI subsetI)
    fix x assume "x \<in> {x \<in> set all. \<exists>k\<le>Suc n. up all k x = Some r}"
    then obtain k where k: "x \<in> set all" "k \<le> Suc n" "up all k x = Some r" by blast
    show "x \<in> insert r (\<Union>c\<in>{c \<in> set all. parent_record all c = Some r}. {x \<in> set all. \<exists>k\<le>n. up all k x = Some c})"
    proof (cases k)
      case (Suc j)
      then obtain c where "up all j x = Some c" "parent_record all c = Some r" using k(3) by (auto simp: bind_eq_Some_conv)
      then show ?thesis using k(1,2) Suc up_in [of all j x c] by auto
    qed (use k in simp)
  next
    fix x assume x: "x \<in> insert r (\<Union>c\<in>{c \<in> set all. parent_record all c = Some r}. {x \<in> set all. \<exists>k\<le>n. up all k x = Some c})"
    show "x \<in> {x \<in> set all. \<exists>k\<le>Suc n. up all k x = Some r}"
    proof (cases "x = r")
      case True
      then show ?thesis using Suc.prems by (auto intro!: exI [of _ 0])
    next
      case False
      then obtain c k where "parent_record all c = Some r" "x \<in> set all" "k \<le> n" "up all k x = Some c" using x by blast
      then show ?thesis by (auto intro!: exI [of _ "Suc k"])
    qed
  qed
  finally show ?case .
qed auto

lemma distinct_concat_map:
  "distinct xs \<Longrightarrow> \<forall>x\<in>set xs. distinct (f x) \<Longrightarrow> \<forall>x\<in>set xs. \<forall>y\<in>set xs. x \<noteq> y \<longrightarrow> set (f x) \<inter> set (f y) = {} \<Longrightarrow>
     distinct (concat (map f xs))"
  by (induction xs) fastforce+

lemma tree_records_distinct:
  assumes "distinct (map lr_vcDid all)" "r \<in> set all" "grounded all r"
  shows "distinct (tree_records (node_tree coll all n r))"
  using assms(2,3)
proof (induction n arbitrary: r)
  case (Suc n)
  let ?cs = "by_counter coll (children_of all (lr_vcDid r))"
  obtain d t where d: "up all d r = Some t" "parent_record all t = None"
    using Suc.prems(2) parent_record_None [OF assms(1)] by (auto simp: grounded_def)
  have cs: "set ?cs = {c \<in> set all. parent_record all c = Some r}" by (rule set_children [OF assms(1) Suc.prems(1)])
  have above: "up all (d + Suc k) x = Some t" if "up all k x = Some c" "c \<in> set ?cs" for k x c
    using that cs d(1) by (simp only: up_add) simp
  have kids: "grounded all c" if "c \<in> set ?cs" for c
    using above [of 0 c c] that d(2) parent_record_None [OF assms(1)] unfolding grounded_def by (metis up.simps(1))
  have one: "c = c'" if "up all k x = Some c" "c \<in> set ?cs" "up all j x = Some c'" "c' \<in> set ?cs" for k j x c c'
    using up_root_unique [OF above [OF that(1,2)] d(2) above [OF that(3,4)] d(2)] that(1,3) by simp
  have dc: "distinct ?cs"
    using assms(1) by (simp add: by_counter_def by_ts_def children_of_def distinct_map)
  have recs: "set (tree_records (node_tree coll all n c)) = {x \<in> set all. \<exists>k\<le>n. up all k x = Some c}" if "c \<in> set ?cs" for c
    using that cs by (intro tree_records_set [OF assms(1)]) auto
  have "distinct (concat (map (\<lambda>c. tree_records (node_tree coll all n c)) ?cs))"
  proof -
    have "distinct (tree_records (node_tree coll all n c))" if "c \<in> set ?cs" for c
      using Suc.IH [of c] kids that cs by auto
    moreover have "set (tree_records (node_tree coll all n c)) \<inter> set (tree_records (node_tree coll all n c')) = {}"
      if "c \<in> set ?cs" "c' \<in> set ?cs" "c \<noteq> c'" for c c'
      using recs [OF that(1)] recs [OF that(2)] one that by blast
    ultimately show ?thesis using dc by (intro distinct_concat_map) blast+
  qed
  moreover have "r \<notin> set (tree_records (node_tree coll all n c))" if c: "c \<in> set ?cs" for c
  proof
    assume "r \<in> set (tree_records (node_tree coll all n c))"
    then obtain k where "up all k r = Some c" using recs [OF c] by auto
    then show False using up_root_unique [OF above [OF _ c] d(2) d(1,2)] by simp
  qed
  ultimately show ?case by (simp add: comp_def)
qed simp


text \<open>
  The watch shows every delegation that hangs on a root, once: with the records of distinct DIDs that the store holds, the
  forest lists each record exactly once whose reported parents lead to a record without a known parent, and no other;
  a record that is its own ancestor is in the store and not in the forest.\<close>

theorem forest_exact:
  assumes "distinct (map lr_vcDid file)"
  shows "distinct (forest_records coll file) \<and> set (forest_records coll file) = {r \<in> set file. grounded file r}"
proof -
  let ?roots = "by_ts coll (filter (\<lambda>r. parent_of file r = None) file)"
  let ?rec = "\<lambda>r. tree_records (node_tree coll file (length file) r)"
  have recs: "forest_records coll file = concat (map ?rec ?roots)"
    by (simp add: forest_records_def forest_def by_id_distinct [OF assms] comp_def)
  have roots: "set ?roots = {r \<in> set file. parent_of file r = None}" by (auto simp: by_ts_def)
  have tree: "set (?rec r) = {x \<in> set file. \<exists>k\<le>length file. up file k x = Some r}" if "r \<in> set ?roots" for r
    using that roots by (intro tree_records_set [OF assms]) auto
  have none: "parent_record file r = None" if "r \<in> set ?roots" for r
    using that roots parent_record_None [OF assms] by auto
  have "distinct (?rec r)" if "r \<in> set ?roots" for r
    using that roots by (intro tree_records_distinct [OF assms]) (auto simp: grounded_def intro!: exI [of _ 0])
  moreover have "set (?rec r) \<inter> set (?rec s) = {}" if rs: "r \<in> set ?roots" "s \<in> set ?roots" "r \<noteq> s" for r s
  proof -
    have "r = s" if x: "up file k x = Some r" "up file j x = Some s" for k j x
      using up_root_unique [OF x(1) none [OF rs(1)] x(2) none [OF rs(2)]] x by simp
    then show ?thesis using tree [OF rs(1)] tree [OF rs(2)] rs(3) by blast
  qed
  moreover have "distinct ?roots" using assms by (simp add: by_ts_def distinct_map)
  ultimately have "distinct (forest_records coll file)" unfolding recs by (intro distinct_concat_map) blast+
  moreover have "set (forest_records coll file) = {r \<in> set file. grounded file r}"
  proof (intro equalityI subsetI)
    fix x assume "x \<in> set (forest_records coll file)"
    then obtain r where r: "r \<in> set ?roots" "x \<in> set (?rec r)" unfolding recs by auto
    then show "x \<in> {r \<in> set file. grounded file r}" using tree [OF r(1)] roots by (auto simp: grounded_def)
  next
    fix x assume "x \<in> {r \<in> set file. grounded file r}"
    then obtain k r where k: "x \<in> set file" "up file k x = Some r" "parent_of file r = None" by (auto simp: grounded_def)
    have r: "r \<in> set ?roots" using up_in [OF k(2,1)] k(3) roots by simp
    have "k < length file" using grounded_short [OF k(2) none [OF r] k(1)] .
    then have "x \<in> set (?rec r)" using tree [OF r] k by auto
    then show "x \<in> set (forest_records coll file)" using r unfolding recs by auto
  qed
  ultimately show ?thesis ..
qed

section \<open>What a report can do\<close>

definition marked :: "lineage_record \<Rightarrow> lineage_record \<Rightarrow> bool" where
  "marked r r' \<longleftrightarrow> r' = r \<or> r' = r\<lparr>lr_revoked := True\<rparr>"

text \<open>The report that a record stands for, and the one that marked it.\<close>

definition registered_by :: "did \<Rightarrow> watch_input list \<Rightarrow> lineage_record \<Rightarrow> bool" where
  "registered_by self es r \<longleftrightarrow>
     (\<exists>now from parent. In_message now from (W_hop_registered (lr_vcDid r) parent (lr_holder r) (lr_counter r)) \<in> set es \<and>
        lr_issuer r = Some from \<and> lr_ts r = now \<and> lr_parentVcDid r = (if parent = [] then None else Some parent)) \<or>
     In_minted (lr_ts r) (lr_vcDid r) (lr_holder r) \<in> set es \<and> lr_issuer r = Some self \<and> lr_parentVcDid r = None"

definition revoked_by :: "did \<Rightarrow> watch_input list \<Rightarrow> lineage_record \<Rightarrow> bool" where
  "revoked_by self es r \<longleftrightarrow> (\<exists>now from. In_message now from (W_hop_revoked (lr_vcDid r)) \<in> set es \<and> (lr_issuer r = Some from \<or> from = self))"

definition watch_inv :: "did \<Rightarrow> watch_input list \<Rightarrow> watch_state \<Rightarrow> bool" where
  "watch_inv self es st \<longleftrightarrow> distinct (map lr_vcDid (wt_lineage st)) \<and> list_all (registered_by self es) (wt_lineage st) \<and>
     list_all (\<lambda>r. lr_revoked r \<longrightarrow> revoked_by self es r) (wt_lineage st) \<and> length (wt_flow st) \<le> 200 \<and>
     list_all (\<lambda>f. \<exists>now g. In_message now (fl_from f) (W_flow_event g) \<in> set es) (wt_flow st)"

definition empty_watch :: watch_state where
  "empty_watch = \<lparr>wt_lineage = [], wt_flow = [], wt_emitted = []\<rparr>"

lemma watch_run_simps [simp]:
  "watch_run env G trusted self [] st = st"
  "watch_run env G trusted self (es @ [e]) st = watch_step env G trusted self e (watch_run env G trusted self es st)"
  by (simp_all add: watch_run_def)

lemma mark_first_dids: "map lr_vcDid (mark_first d all) = map lr_vcDid all"
  by (induction all) auto

lemma mark_first_in:
  "distinct (map lr_vcDid all) \<Longrightarrow> set (mark_first d all) = (\<lambda>r. if lr_vcDid r = d then r\<lparr>lr_revoked := True\<rparr> else r) ` set all"
proof (induction all)
  case (Cons x xs)
  have "(\<lambda>r. if lr_vcDid r = d then r\<lparr>lr_revoked := True\<rparr> else r) ` set xs = set xs" if "lr_vcDid x = d"
    using Cons.prems that by (force simp: image_iff)
  then show ?case using Cons by auto
qed simp

lemma registered_by_mono: "registered_by self es r \<Longrightarrow> set es \<subseteq> set es' \<Longrightarrow> registered_by self es' r"
  unfolding registered_by_def by blast

lemma registered_by_marked [simp]: "registered_by self es (r\<lparr>lr_revoked := b\<rparr>) = registered_by self es r"
  by (simp add: registered_by_def)

lemma watch_inv_mono:
  assumes "watch_inv self es st" "set es \<subseteq> set es'" shows "watch_inv self es' st"
proof -
  have "list_all (registered_by self es') (wt_lineage st)"
    using assms registered_by_mono by (auto simp: watch_inv_def list_all_iff)
  moreover have "list_all (\<lambda>r. lr_revoked r \<longrightarrow> revoked_by self es' r) (wt_lineage st)"
    using assms unfolding watch_inv_def list_all_iff revoked_by_def by blast
  moreover have "list_all (\<lambda>f. \<exists>now g. In_message now (fl_from f) (W_flow_event g) \<in> set es') (wt_flow st)"
    using assms unfolding watch_inv_def list_all_iff by blast
  ultimately show ?thesis using assms(1) by (simp add: watch_inv_def)
qed

lemma watch_inv_record:
  assumes "watch_inv self es st" "registered_by self es r" "\<not> lr_revoked r"
  shows "watch_inv self es (st\<lparr>wt_lineage := record_node r (wt_lineage st), wt_emitted := ev\<rparr>)"
  using assms by (auto simp: watch_inv_def record_node_def list_ex_iff)

lemma watch_inv_mark:
  assumes "watch_inv self es st" "get_node d (wt_lineage st) = Some r" "revoked_by self es r"
  shows "watch_inv self es (st\<lparr>wt_lineage := mark_first d (wt_lineage st), wt_emitted := ev\<rparr>)"
proof -
  have dist: "distinct (map lr_vcDid (wt_lineage st))" using assms(1) by (simp add: watch_inv_def)
  have r: "r \<in> set (wt_lineage st)" "lr_vcDid r = d" using assms(2) get_node_Some [OF dist] by auto
  have same: "x = r" if "x \<in> set (wt_lineage st)" "lr_vcDid x = d" for x
    using that r dist by (auto simp: distinct_map inj_on_def)
  have "revoked_by self es (r\<lparr>lr_revoked := True\<rparr>)" using assms(3) by (simp add: revoked_by_def)
  then have "list_all (\<lambda>r. lr_revoked r \<longrightarrow> revoked_by self es r) (mark_first d (wt_lineage st))"
    using assms(1) same unfolding list_all_iff mark_first_in [OF dist] by (auto simp: watch_inv_def list_all_iff)
  moreover have "list_all (registered_by self es) (mark_first d (wt_lineage st))"
    using assms(1) unfolding list_all_iff mark_first_in [OF dist] by (auto simp: watch_inv_def list_all_iff)
  ultimately show ?thesis using assms(1) by (simp add: watch_inv_def mark_first_dids)
qed

lemma watch_inv_flow:
  assumes "watch_inv self es st" "\<exists>now g. In_message now (fl_from f) (W_flow_event g) \<in> set es"
  shows "watch_inv self es (st\<lparr>wt_flow := push_flow f (wt_flow st), wt_emitted := ev\<rparr>)"
proof -
  have "set (push_flow f (wt_flow st)) \<subseteq> insert f (set (wt_flow st))" "length (push_flow f (wt_flow st)) \<le> 200"
    using assms(1) by (cases "wt_flow st"; auto simp: push_flow_def Let_def watch_inv_def)+
  then have "length (push_flow f (wt_flow st)) \<le> 200 \<and>
      list_all (\<lambda>f. \<exists>now g. In_message now (fl_from f) (W_flow_event g) \<in> set es) (push_flow f (wt_flow st))"
    using assms unfolding watch_inv_def list_all_iff by blast
  then show ?thesis using assms(1) by (simp add: watch_inv_def)
qed

lemma watch_inv_step:
  assumes "watch_inv self es st" shows "watch_inv self (es @ [e]) (watch_step env G trusted self e st)"
proof -
  have inv: "watch_inv self (es @ [e]) st" by (rule watch_inv_mono [OF assms]) auto
  show ?thesis
  proof (cases e)
    case (In_minted now d holder)
    show ?thesis unfolding In_minted watch_step.simps watch_minted_root_def
      by (rule watch_inv_record [OF inv [unfolded In_minted]]) (simp_all add: registered_by_def)
  next
    case (In_message now sender msg)
    show ?thesis
    proof (cases msg)
      case (W_hop_registered child parent holder counter)
      show ?thesis
        unfolding In_message W_hop_registered watch_step.simps watch_handler_def watch_message.case snd_conv
        by (rule watch_inv_record [OF inv [unfolded In_message W_hop_registered]])
          (cases "parent = []"; auto simp: registered_by_def)+
    next
      case (W_hop_revoked child)
      have "watch_inv self (es @ [e]) (st\<lparr>wt_lineage := mark_first child (wt_lineage st), wt_emitted := ev\<rparr>)"
        if g: "get_node child (wt_lineage st) = Some r" "Some sender = lr_issuer r \<or> sender = self" for r ev
      proof (rule watch_inv_mark [OF inv g(1)])
        have "lr_vcDid r = child" using g(1) by (auto simp: get_node_def find_Some_iff)
        moreover have "lr_issuer r = Some sender \<or> sender = self" using g(2) by auto
        ultimately show "revoked_by self (es @ [e]) r"
          unfolding revoked_by_def In_message W_hop_revoked by (intro exI [of _ now] exI [of _ sender]) simp
      qed
      then show ?thesis using inv
        by (auto simp: In_message W_hop_revoked watch_handler_def mark_revoked_def split: option.split)
    next
      case (W_flow_event f)
      show ?thesis using watch_inv_flow [OF inv, of "f\<lparr>fl_from := sender\<rparr>"]
        by (auto simp: In_message W_flow_event watch_handler_def Let_def)
    qed (use inv in \<open>simp_all add: In_message watch_handler_def\<close>)
  qed
qed

lemma watch_inv_run: "watch_inv self es (watch_run env G trusted self es empty_watch)"
proof (induction es rule: rev_induct)
  case Nil
  show ?case by (simp add: watch_inv_def empty_watch_def)
next
  case (snoc e es)
  then show ?case by (simp add: watch_inv_step)
qed

lemma marked_trans: "marked r s \<Longrightarrow> marked s t \<Longrightarrow> marked r t"
  by (auto simp: marked_def)

lemma watch_step_keeps:
  assumes "r \<in> set (wt_lineage st)"
  shows "\<exists>r'\<in>set (wt_lineage (watch_step env G trusted self e st)). marked r r'"
proof -
  have "\<exists>r'\<in>set (mark_first d all). marked r r'" if "r \<in> set all" for d all
    using that by (induction all) (auto simp: marked_def)
  moreover have "\<exists>r'\<in>set (record_node x all). marked r r'" if "r \<in> set all" for x all
    using that by (auto simp: record_node_def marked_def)
  moreover have "\<exists>r'\<in>set all. marked r r'" if "r \<in> set all" for all
    using that by (auto simp: marked_def)
  ultimately show ?thesis using assms
    by (cases e) (simp_all add: watch_handler_def watch_minted_root_def Let_def mark_revoked_def split: watch_message.split option.split)
qed

lemma watch_run_keeps:
  "r \<in> set (wt_lineage st) \<Longrightarrow> \<exists>r'\<in>set (wt_lineage (watch_run env G trusted self es st)). marked r r'"
proof (induction es rule: rev_induct)
  case Nil
  then show ?case by (auto simp: marked_def)
next
  case (snoc e es)
  then obtain s where "s \<in> set (wt_lineage (watch_run env G trusted self es st))" "marked r s" by blast
  then show ?case using watch_step_keeps [of s "watch_run env G trusted self es st"] marked_trans by (fastforce simp del: watch_step.simps)
qed

text \<open>
  C36. The watch believes each sender about its own delegations only: whatever is reported, there is one record for a DID,
  as it was first registered, in the name of the authenticated sender, and no later input changes it but for the mark
  of a revocation, which only that sender or the Sovereign can set and nobody can take away; the flow log is bounded and
  every entry is in the name of its sender.\<close>

theorem watch_records_authentic:
  assumes "st = watch_run env G trusted self es empty_watch"
  shows "distinct (map lr_vcDid (wt_lineage st)) \<and> list_all (registered_by self es) (wt_lineage st) \<and>
    list_all (\<lambda>r. \<not> lr_revoked r \<or> revoked_by self es r) (wt_lineage st) \<and>
    list_all (\<lambda>r. list_ex (marked r) (wt_lineage (watch_run env G trusted self later st))) (wt_lineage st) \<and>
    length (wt_flow st) \<le> 200 \<and> list_all (\<lambda>f. \<exists>now g. In_message now (fl_from f) (W_flow_event g) \<in> set es) (wt_flow st)"
proof -
  have "watch_inv self es st" using watch_inv_run assms by simp
  moreover have "list_all (\<lambda>r. list_ex (marked r) (wt_lineage (watch_run env G trusted self later st))) (wt_lineage st)"
    using watch_run_keeps by (auto simp: list_all_iff list_ex_iff)
  ultimately show ?thesis by (auto simp: watch_inv_def list_all_iff)
qed

text \<open>
  Who registers first owns the record: if a stranger reports a hop before its issuer does, the issuer's own report
  changes nothing, and the revocation that the issuer reports afterwards is dropped: the watch shows the stranger's
  hop as live.\<close>

theorem squatted_hop_shown_live:
  assumes "get_node hop (wt_lineage st) = None" "stranger \<noteq> issuer" "issuer \<noteq> self"
    and "es = [In_message t1 stranger (W_hop_registered hop parent1 holder1 counter1),
      In_message t2 issuer (W_hop_registered hop parent2 holder2 counter2), In_message t3 issuer (W_hop_revoked hop)]"
  shows "\<exists>r. get_node hop (wt_lineage (watch_run env G trusted self es st)) = Some r \<and> lr_issuer r = Some stranger \<and>
    lr_holder r = holder1 \<and> \<not> lr_revoked r"
proof -
  have no: "\<not> list_ex (\<lambda>x. lr_vcDid x = hop) (wt_lineage st)" using assms(1) by (auto simp: get_node_def find_None_iff list_ex_iff)
  have find: "find P (xs @ [x]) = Some x" if "\<not> list_ex P xs" "P x" for P and xs :: "lineage_record list" and x
    using that by (induction xs) auto
  show ?thesis using assms(2-4) no
    by (simp add: watch_run_def watch_handler_def record_node_def get_node_def find list_ex_append)
qed

end
