(* ===== verification/Sovereign_Control.thy ===== *)
theory Sovereign_Control
  imports Sovereign_Watch Submission
begin

text \<open>
  The Sovereign's control daemon: the inventory of granted capabilities (\<open>packages/sovereign/src/capability-grants.ts\<close>), the
  issuing of a scope capability (\<open>packages/core/src/capability-vc.ts\<close>) and the routes of \<open>runSovereignControl\<close> (\<open>control.ts\<close>)
  that sign, grant, mint and revoke behind the gate. Keymaster, the node and the clock of one request are the record
  \<open>sovereign_env\<close>, where \<^const>\<open>None\<close> is a rejected promise; what was written before a rejection stays.
\<close>

section \<open>The inventory\<close>

record capability_grant =
  gv_credentialDid :: did
  gv_holder :: did
  gv_target :: string
  gv_kinds :: "string list option"
  gv_ceiling :: int
  gv_expires :: string
  gv_schemaDid :: did
  gv_statusListCredential :: did
  gv_statusListIndex :: int
  gv_issuedAt :: string
  gv_revokedAt :: "string option"

definition put_grant :: "capability_grant \<Rightarrow> capability_grant list \<Rightarrow> capability_grant list" where
  "put_grant g all = filter (\<lambda>x. gv_credentialDid x \<noteq> gv_credentialDid g) all @ [g]"

definition get_grant :: "did \<Rightarrow> capability_grant list \<Rightarrow> capability_grant option" where
  "get_grant d all = find (\<lambda>g. gv_credentialDid g = d) all"

fun mark_grant_revoked :: "string \<Rightarrow> did \<Rightarrow> capability_grant list \<Rightarrow> capability_grant list" where
  "mark_grant_revoked now d [] = []"
| "mark_grant_revoked now d (g # gs) =
     (if gv_credentialDid g = d then (if truthy_string (gv_revokedAt g) then g else g\<lparr>gv_revokedAt := Some now\<rparr>) # gs
      else g # mark_grant_revoked now d gs)"

datatype grant_state = State_revoked | State_expired | State_active

text \<open>A date that does not parse is never in the past.\<close>

definition grantState :: "(string \<Rightarrow> int option) \<Rightarrow> capability_grant \<Rightarrow> int \<Rightarrow> grant_state" where
  "grantState parseDate g now =
     (if truthy_string (gv_revokedAt g) then State_revoked
      else case parseDate (gv_expires g) of
        None \<Rightarrow> State_active
      | Some t \<Rightarrow> if t \<le> now then State_expired else State_active)"

section \<open>State and environment\<close>

record sovereign_env =
  vn_did :: did
  vn_name :: string
  vn_hash :: hash
  vn_coll :: "string \<Rightarrow> string"
  vn_upper :: "string \<Rightarrow> string"
  vn_now :: int
  vn_iso :: "int \<Rightarrow> string"
  vn_parseDate :: "string \<Rightarrow> int option"
  vn_newStatusList :: "(did \<times> status_asset) option"
  vn_newAllocation :: "did option"
  vn_allocate :: "did \<Rightarrow> int option"
  vn_authorizationSchemaDid :: "did option"
  vn_ensureSchema :: "did option"
  vn_issueClaim :: "minted_vc \<Rightarrow> did option"
  vn_issueEnv :: issue_env
  vn_sendDidComm :: "did \<Rightarrow> bool"
  vn_gz :: "bitstring \<Rightarrow> string"
  vn_gunz :: "string \<Rightarrow> bitstring option"
  vn_status :: status_env
  vn_purpose :: "did \<Rightarrow> string option"
  vn_createResponse :: "did \<Rightarrow> string option"

record sovereign_state =
  sx_grants :: "capability_grant list"
  sx_context :: "(did \<times> did) option"
  sx_lists :: "did \<Rightarrow> status_asset"
  sx_issued :: "(did \<times> minted_vc \<times> caveats) list"
  sx_roots :: "capability_handle list"
  sx_sent :: "(did \<times> chain_grant) list"
  sx_watch :: watch_state

definition now_iso :: "sovereign_env \<Rightarrow> string" where
  "now_iso env = vn_iso env (vn_now env)"

text \<open>\<open>ensureCapabilityStatusContext\<close> on the pointer file and the lists: the file is written once the list and the
  allocation record exist. The result is the context, or a rejection, and what is then in the file and the lists.\<close>

definition ensure_context ::
  "(did \<times> status_asset) option \<Rightarrow> did option \<Rightarrow> (did \<times> did) option \<Rightarrow> (did \<Rightarrow> status_asset) \<Rightarrow>
     (did \<times> did) option \<times> (did \<times> did) option \<times> (did \<Rightarrow> status_asset)" where
  "ensure_context newList newAllocation context ls =
     (if (case context of Some (l, a) \<Rightarrow> l \<noteq> [] \<and> a \<noteq> [] | None \<Rightarrow> False) then (context, context, ls)
      else case newList of
        None \<Rightarrow> (None, context, ls)
      | Some (l, vs) \<Rightarrow>
          (case newAllocation of
             None \<Rightarrow> (None, context, ls(l := vs))
           | Some a \<Rightarrow> (Some (l, a), Some (l, a), ls(l := vs))))"

definition ensureCapabilityStatusContext ::
  "sovereign_env \<Rightarrow> sovereign_state \<Rightarrow> (did \<times> did) option \<times> sovereign_state" where
  "ensureCapabilityStatusContext env st =
     (case ensure_context (vn_newStatusList env) (vn_newAllocation env) (sx_context st) (sx_lists st) of
        (r, context, ls) \<Rightarrow> (r, st\<lparr>sx_context := context, sx_lists := ls\<rparr>))"

text \<open>The pointer of a new capability: the context and a fresh index of it.\<close>

definition allocate_status :: "sovereign_env \<Rightarrow> sovereign_state \<Rightarrow> capability_status option \<times> sovereign_state" where
  "allocate_status env st =
     (case ensureCapabilityStatusContext env st of
        (None, st') \<Rightarrow> (None, st')
      | (Some (l, a), st') \<Rightarrow>
          (map_option (\<lambda>i. \<lparr>cs_statusListCredential = l, cs_statusListIndex = i\<rparr>) (vn_allocate env a), st'))"

section \<open>Granting\<close>

record grant_spec =
  gs_holder :: did
  gs_target :: "string option"
  gs_kinds :: "string list option"
  gs_ceiling :: int
  gs_days :: "int option"

definition or_default :: "'a \<Rightarrow> 'a option \<Rightarrow> 'a" where
  "or_default d x = (case x of None \<Rightarrow> d | Some y \<Rightarrow> y)"

definition expiry_of :: "sovereign_env \<Rightarrow> int \<Rightarrow> string" where
  "expiry_of env days = vn_iso env (vn_now env + days * 24 * 60 * 60 * 1000)"

definition grant_caveats :: "sovereign_env \<Rightarrow> grant_spec \<Rightarrow> string option \<Rightarrow> capability_status \<Rightarrow> caveats" where
  "grant_caveats env spec expires status = \<lparr>cv_ceiling = Some (gs_ceiling spec), cv_kinds = gs_kinds spec, cv_owner = Some (vn_did env),
     cv_audience = None, cv_expires = expires, cv_singleUse = None, cv_requiresDischarge = None, cv_status = Some status\<rparr>"

text \<open>\<open>issueScopeCapability\<close>, which is called with the status set, so that it allocates no other.\<close>

definition issueScopeCapability ::
  "sovereign_env \<Rightarrow> did \<Rightarrow> did \<Rightarrow> string \<Rightarrow> authority_set \<Rightarrow> caveats \<Rightarrow> minted_vc" where
  "issueScopeCapability env holder schemaDid target authority cav =
     issueClaim (vn_did env) schemaDid holder
       [(''type'', JStr AUTHORIZATION_TYPE), (''authorizationType'', JStr ''capability''), (''invocationTarget'', JStr target),
        (''authority'', authority_json authority),
        (''caveats'', caveats_json (normalizeCaveats (vn_coll env) cav))]"

definition schema_for :: "sovereign_env \<Rightarrow> did option" where
  "schema_for env = (case vn_authorizationSchemaDid env of Some s \<Rightarrow> Some s | None \<Rightarrow> vn_ensureSchema env)"

definition new_grant :: "sovereign_env \<Rightarrow> grant_spec \<Rightarrow> string \<Rightarrow> did \<Rightarrow> capability_status \<Rightarrow> did \<Rightarrow> capability_grant" where
  "new_grant env spec expires schema status d = \<lparr>gv_credentialDid = d, gv_holder = gs_holder spec,
     gv_target = or_default ''hearthold:vault'' (gs_target spec), gv_kinds = gs_kinds spec, gv_ceiling = gs_ceiling spec,
     gv_expires = expires, gv_schemaDid = schema, gv_statusListCredential = cs_statusListCredential status,
     gv_statusListIndex = cs_statusListIndex status, gv_issuedAt = now_iso env, gv_revokedAt = None\<rparr>"

definition grantCapability :: "sovereign_env \<Rightarrow> grant_spec \<Rightarrow> sovereign_state \<Rightarrow> capability_grant option \<times> sovereign_state" where
  "grantCapability env spec st =
     (let target = or_default ''hearthold:vault'' (gs_target spec);
          expires = expiry_of env (or_default 90 (gs_days spec))
      in case allocate_status env st of
        (None, st1) \<Rightarrow> (None, st1)
      | (Some status, st1) \<Rightarrow>
          (case schema_for env of
             None \<Rightarrow> (None, st1)
           | Some schema \<Rightarrow>
               (let cav = grant_caveats env spec (Some expires) status;
                    vc = issueScopeCapability env (gs_holder spec) schema target \<lparr>operations = [''prove''], resources = [target]\<rparr> cav
                in case vn_issueClaim env vc of
                  None \<Rightarrow> (None, st1)
                | Some d \<Rightarrow>
                    (let g = new_grant env spec expires schema status d in (Some g, st1\<lparr>sx_issued := sx_issued st1 @ [(d, vc, cav)], sx_grants := put_grant g (sx_grants st1)\<rparr>)))))"

definition mintRootGrant ::
  "sovereign_env \<Rightarrow> grant_spec \<Rightarrow> sovereign_state \<Rightarrow> (chain_grant \<times> capability_grant) option \<times> sovereign_state" where
  "mintRootGrant env spec st =
     (let target = or_default ''hearthold:vault'' (gs_target spec) in
      case allocate_status env st of
        (None, st1) \<Rightarrow> (None, st1)
      | (Some status, st1) \<Rightarrow>
          (case mintRootCapability (vn_hash env) (vn_coll env) (vn_issueEnv env) (vn_name env) (gs_holder spec)
              \<lparr>sp_invocationTarget = target, sp_authority = \<lparr>operations = [''prove'', ''submit''], resources = [target]\<rparr>,
               sp_caveats = grant_caveats env spec None status\<rparr> of
             Inl _ \<Rightarrow> (None, st1)
           | Inr (h, _) \<Rightarrow>
               (let g = new_grant env spec (expiry_of env 3650) [] status (iv_vcDid (ch_issued h)) in (Some (\<lparr>cg_handle = h, cg_ancestorDisclosures = Map.empty\<rparr>, g),
                    st1\<lparr>sx_roots := sx_roots st1 @ [h], sx_grants := put_grant g (sx_grants st1)\<rparr>))))"

section \<open>Revoking\<close>

datatype revoke_answer = Not_in_inventory | Is_revoked | Declined_at_signet

definition revokeCapability :: "sovereign_env \<Rightarrow> did \<Rightarrow> sovereign_state \<Rightarrow> revoke_answer option \<times> sovereign_state" where
  "revokeCapability env d st =
     (case get_grant d (sx_grants st) of
        None \<Rightarrow> (Some Not_in_inventory, st)
      | Some g \<Rightarrow>
          if truthy_string (gv_revokedAt g) then (Some Is_revoked, st)
          else (case revokeStatusIndex (vn_gz env) (vn_gunz env) (vn_status env) (gv_statusListCredential g)
                  (sx_lists st (gv_statusListCredential g)) (gv_statusListIndex g) of
              Inl _ \<Rightarrow> (None, st)
            | Inr (vs, _) \<Rightarrow>
                (Some Is_revoked, st\<lparr>sx_lists := (sx_lists st)(gv_statusListCredential g := vs),
                   sx_grants := mark_grant_revoked (now_iso env) d (sx_grants st)\<rparr>)))"


section \<open>The routes\<close>

datatype sovereign_error = Emissary_required | Unknown_ceiling string | Credential_required | Challenge_required | Wrong_purpose
  | Id_required | Decide_failed decide_error | Route_rejected

datatype sovereign_reply =
    Granted_reply did did
  | Minted_reply did did
  | Declined_reply
  | Revoke_reply revoke_answer
  | Response_reply string
  | Decision_reply string verdict

type_synonym route_result = "(sovereign_error + sovereign_reply) \<times> sovereign_state"

record capability_request =
  gq_emissaryDid :: did
  gq_target :: "string option"
  gq_kinds :: "string list option"
  gq_ceiling :: "string option"
  gq_days :: "int option"

definition CEIL :: "string \<Rightarrow> sensitivity option" where
  "CEIL = map_of [(''PUBLIC'', PUBLIC), (''LOW'', LOW), (''MEDIUM'', MEDIUM), (''HIGH'', HIGH), (''SEALED'', SEALED)]"

definition request_kinds :: "capability_request \<Rightarrow> string list option" where
  "request_kinds req = (if opt_list (gq_kinds req) \<noteq> [] then gq_kinds req else None)"

definition leq_sign :: string where
  "leq_sign = [CHR 0xE2, CHR 0x89, CHR 0xA4]"

definition kinds_text :: "capability_request \<Rightarrow> string" where
  "kinds_text req = (case request_kinds req of None \<Rightarrow> ''any'' | Some ks \<Rightarrow> join ''/'' ks)"

definition gated_action :: "did \<Rightarrow> string \<Rightarrow> string \<Rightarrow> string \<Rightarrow> approval_context" where
  "gated_action requester action resource summary =
     (bare_context requester)\<lparr>ax_action := Some \<lparr>ac_action = action, ac_resource = Some resource, ac_summary = summary\<rparr>\<rparr>"

definition authorize_context :: "sovereign_env \<Rightarrow> capability_request \<Rightarrow> approval_context" where
  "authorize_context env req = gated_action ''the Table'' ''grant-capability'' (gq_emissaryDid req)
     (''Grant this Emissary a capability to PROVE '' @ kinds_text req @ '' facts '' @ leq_sign @ '' '' @
      vn_upper env (or_default ''LOW'' (gq_ceiling req)) @ '', expiring '' @ take 10 (expiry_of env (or_default 90 (gq_days req))))"

definition mint_context :: "sovereign_env \<Rightarrow> capability_request \<Rightarrow> approval_context" where
  "mint_context env req = gated_action ''the Table'' ''mint-root-capability'' (gq_emissaryDid req)
     (''Seed this agent'' @ CHR 0x27 # ''s Emissary with a ROOT capability over '' @ or_default ''hearthold:vault'' (gq_target req) @
      '' to PROVE '' @ kinds_text req @ '' facts '' @ leq_sign @ '' '' @ vn_upper env (or_default ''MEDIUM'' (gq_ceiling req)) @
      '' (it may then delegate onward)'')"

definition spec_of :: "capability_request \<Rightarrow> sensitivity \<Rightarrow> grant_spec" where
  "spec_of req c = \<lparr>gs_holder = gq_emissaryDid req, gs_target = Some (or_default ''hearthold:vault'' (gq_target req)),
     gs_kinds = request_kinds req, gs_ceiling = sens_num c, gs_days = Some (or_default 90 (gq_days req))\<rparr>"

definition emit_watch :: "watch_event \<Rightarrow> sovereign_state \<Rightarrow> sovereign_state" where
  "emit_watch ev st = st\<lparr>sx_watch := (sx_watch st)\<lparr>wt_emitted := wt_emitted (sx_watch st) @ [ev]\<rparr>\<rparr>"

definition authorize_route :: "sovereign_env \<Rightarrow> signet_gate \<Rightarrow> capability_request \<Rightarrow> sovereign_state \<Rightarrow> route_result" where
  "authorize_route env G req st =
     (if gq_emissaryDid req = [] then (Inl Emissary_required, st)
      else case CEIL (vn_upper env (or_default ''LOW'' (gq_ceiling req))) of
        None \<Rightarrow> (Inl (Unknown_ceiling (or_default [] (gq_ceiling req))), st)
      | Some c \<Rightarrow>
          (case G (authorize_context env req) of
             None \<Rightarrow> (Inr Declined_reply, st)
           | Some _ \<Rightarrow>
               (case grantCapability env (spec_of req c) st of
                  (None, st') \<Rightarrow> (Inl Route_rejected, st')
                | (Some g, st') \<Rightarrow> (Inr (Granted_reply (gv_credentialDid g) (gv_schemaDid g)),
                    emit_watch (Capability_granted_event (gv_credentialDid g) (gv_holder g)) st'))))"

definition mint_root_route :: "sovereign_env \<Rightarrow> signet_gate \<Rightarrow> capability_request \<Rightarrow> sovereign_state \<Rightarrow> route_result" where
  "mint_root_route env G req st =
     (if gq_emissaryDid req = [] then (Inl Emissary_required, st)
      else case CEIL (vn_upper env (or_default ''MEDIUM'' (gq_ceiling req))) of
        None \<Rightarrow> (Inl (Unknown_ceiling (or_default [] (gq_ceiling req))), st)
      | Some c \<Rightarrow>
          (case G (mint_context env req) of
             None \<Rightarrow> (Inr Declined_reply, st)
           | Some _ \<Rightarrow>
               (case mintRootGrant env (spec_of req c) st of
                  (None, st') \<Rightarrow> (Inl Route_rejected, st')
                | (Some (cg, g), st') \<Rightarrow>
                    if \<not> vn_sendDidComm env (gq_emissaryDid req) then (Inl Route_rejected, st')
                    else (Inr (Minted_reply (gv_credentialDid g) (gv_holder g)),
                      st'\<lparr>sx_sent := sx_sent st' @ [(gq_emissaryDid req, cg)],
                        sx_watch := watch_minted_root (vn_did env) (now_iso env) (gv_credentialDid g) (gv_holder g) (sx_watch st')\<rparr>))))"

definition revoke_context :: "did \<Rightarrow> sovereign_state \<Rightarrow> approval_context" where
  "revoke_context d st = gated_action ''the Table'' ''revoke-capability'' d
     (''Revoke the capability held by '' @ (case get_grant d (sx_grants st) of None \<Rightarrow> d | Some g \<Rightarrow> gv_holder g) @ dash @
      ''the holder is cut at its next invocation'')"

definition revoke_capability_route :: "sovereign_env \<Rightarrow> signet_gate \<Rightarrow> did \<Rightarrow> sovereign_state \<Rightarrow> route_result" where
  "revoke_capability_route env G d st =
     (if d = [] then (Inl Credential_required, st)
      else case G (revoke_context d st) of
        None \<Rightarrow> (Inr (Revoke_reply Declined_at_signet), st)
      | Some _ \<Rightarrow>
          (case revokeCapability env d st of
             (None, st') \<Rightarrow> (Inl Route_rejected, st')
           | (Some r, st') \<Rightarrow> (Inr (Revoke_reply r), if r = Is_revoked then emit_watch (Capability_revoked_event d) st' else st')))"

definition login_context :: "did \<Rightarrow> approval_context" where
  "login_context c = gated_action ''control-login'' ''login-sign'' c
     ''Approve a control-plane login (sign the challenge)''"

definition login_sign_route :: "sovereign_env \<Rightarrow> signet_gate \<Rightarrow> did \<Rightarrow> sovereign_state \<Rightarrow> route_result" where
  "login_sign_route env G c st =
     (if c = [] then (Inl Challenge_required, st)
      else if vn_purpose env c \<noteq> Some ''hearthold-control'' then (Inl Wrong_purpose, st)
      else case G (login_context c) of
        None \<Rightarrow> (Inr Declined_reply, st)
      | Some _ \<Rightarrow>
          (case vn_createResponse env c of
             None \<Rightarrow> (Inl Route_rejected, st) | Some r \<Rightarrow> (Inr (Response_reply r), st)))"

text \<open>\<open>POST /api/approve\<close>, on the browser's gate.\<close>

definition approve_route :: "string \<Rightarrow> string \<Rightarrow> bool \<Rightarrow> string option \<Rightarrow> http_gate \<Rightarrow> (sovereign_error + sovereign_reply) \<times> http_gate" where
  "approve_route pin i approve p g =
     (if i = [] then (Inl Id_required, g)
      else case http_decide pin i approve p g of
        Inl e \<Rightarrow> (Inl (Decide_failed e), g)
      | Inr (v, g') \<Rightarrow> (Inr (Decision_reply i v), g'))"

text \<open>\<open>GET /api/capabilities\<close>: each grant with its state.\<close>

definition capabilities_view :: "sovereign_env \<Rightarrow> sovereign_state \<Rightarrow> (capability_grant \<times> grant_state) list" where
  "capabilities_view env st = map (\<lambda>g. (g, grantState (vn_parseDate env) g (vn_now env))) (sx_grants st)"


datatype sovereign_call =
    Call_authorize capability_request
  | Call_mint_root capability_request
  | Call_revoke did
  | Call_login_sign did

fun serve :: "sovereign_env \<Rightarrow> signet_gate \<Rightarrow> sovereign_call \<Rightarrow> sovereign_state \<Rightarrow> route_result" where
  "serve env G (Call_authorize req) st = authorize_route env G req st"
| "serve env G (Call_mint_root req) st = mint_root_route env G req st"
| "serve env G (Call_revoke d) st = revoke_capability_route env G d st"
| "serve env G (Call_login_sign c) st = login_sign_route env G c st"

fun call_context :: "sovereign_env \<Rightarrow> sovereign_state \<Rightarrow> sovereign_call \<Rightarrow> approval_context" where
  "call_context env st (Call_authorize req) = authorize_context env req"
| "call_context env st (Call_mint_root req) = mint_context env req"
| "call_context env st (Call_revoke d) = revoke_context d st"
| "call_context env st (Call_login_sign c) = login_context c"

fun call_resource :: "sovereign_call \<Rightarrow> did" where
  "call_resource (Call_authorize req) = gq_emissaryDid req"
| "call_resource (Call_mint_root req) = gq_emissaryDid req"
| "call_resource (Call_revoke d) = d"
| "call_resource (Call_login_sign c) = c"

lemmas route_defs = authorize_route_def mint_root_route_def revoke_capability_route_def login_sign_route_def
lemmas route_contexts = authorize_context_def mint_context_def revoke_context_def login_context_def gated_action_def bare_context_def

text \<open>
  No authority changes without the gate: a route that grants, mints, revokes or signs a login changes nothing of the
  inventory, the issued credentials, the status lists, the roots, the messages and the watch, and signs nothing, unless the gate
  said yes to a question that names the Emissary, the credential or the challenge at stake; and only a challenge of the control
  plane is signed.\<close>

theorem control_acts_gated:
  assumes "serve env G call st = (r, st')" "st' \<noteq> st \<or> r \<notin> {Inr Declined_reply, Inr (Revoke_reply Declined_at_signet)} \<and> r \<in> range Inr"
  shows "\<exists>a. G (call_context env st call) = Some a \<and> call_resource call \<noteq> [] \<and>
    Option.bind (ax_action (call_context env st call)) ac_resource = Some (call_resource call) \<and>
    (case call of Call_login_sign c \<Rightarrow> vn_purpose env c = Some ''hearthold-control'' | _ \<Rightarrow> True)"
proof -
  have res: "Option.bind (ax_action (call_context env st call)) ac_resource = Some (call_resource call)"
    by (cases call) (simp_all add: route_contexts)
  have "\<exists>a. G (call_context env st call) = Some a \<and> call_resource call \<noteq> [] \<and>
    (case call of Call_login_sign c \<Rightarrow> vn_purpose env c = Some ''hearthold-control'' | _ \<Rightarrow> True)"
    using assms by (cases call) (auto simp: route_defs split: if_splits option.splits)
  then show ?thesis using res by blast
qed

section \<open>The inventory and the status lists\<close>

definition pointer :: "capability_grant \<Rightarrow> did \<times> int" where
  "pointer g = (gv_statusListCredential g, gv_statusListIndex g)"

definition bit_of :: "(string \<Rightarrow> bitstring option) \<Rightarrow> status_asset \<Rightarrow> int \<Rightarrow> bool option" where
  "bit_of gunz vs i = Option.bind (current_bits gunz vs) (\<lambda>bs. getBit bs i)"

definition inventory_inv :: "(string \<Rightarrow> bitstring option) \<Rightarrow> sovereign_state \<Rightarrow> bool" where
  "inventory_inv gunz st \<longleftrightarrow> distinct (map gv_credentialDid (sx_grants st)) \<and> distinct (map pointer (sx_grants st)) \<and>
     (\<forall>l i. bit_of gunz (sx_lists st l) i = Some True \<longleftrightarrow>
       (\<exists>g\<in>set (sx_grants st). pointer g = (l, i) \<and> truthy_string (gv_revokedAt g)))"

text \<open>What the node and Keymaster owe to a request: the codec and the signatures work, lists and credentials have new
  DIDs, and the index that was allocated is nobody's.\<close>

definition sound_env :: "(bitstring \<Rightarrow> string) \<Rightarrow> (string \<Rightarrow> bitstring option) \<Rightarrow> sovereign_env \<Rightarrow> sovereign_state \<Rightarrow> bool" where
  "sound_env gz gunz env st \<longleftrightarrow> vn_gz env = gz \<and> vn_gunz env = gunz \<and> codec gz gunz \<and> signs_body (vn_status env) \<and> now_iso env \<noteq> [] \<and>
     (\<forall>l vs. vn_newStatusList env = Some (l, vs) \<longrightarrow>
       l \<notin> gv_statusListCredential ` set (sx_grants st) \<and> (\<forall>i. bit_of gunz vs i \<noteq> Some True)) \<and>
     (\<forall>l a i. fst (ensureCapabilityStatusContext env st) = Some (l, a) \<and> vn_allocate env a = Some i \<longrightarrow>
       (l, i) \<notin> pointer ` set (sx_grants st)) \<and>
     (\<forall>vc d. vn_issueClaim env vc = Some d \<longrightarrow> d \<notin> gv_credentialDid ` set (sx_grants st)) \<and>
     ie_vcDid (vn_issueEnv env) \<notin> gv_credentialDid ` set (sx_grants st)"

text \<open>The states a run of the daemon reaches.\<close>

inductive control_runs :: "(bitstring \<Rightarrow> string) \<Rightarrow> (string \<Rightarrow> bitstring option) \<Rightarrow> sovereign_state \<Rightarrow> sovereign_state \<Rightarrow> bool"
  for gz gunz st0 where
    Start: "control_runs gz gunz st0 st0"
  | Serve: "control_runs gz gunz st0 st \<Longrightarrow> sound_env gz gunz env st \<Longrightarrow> control_runs gz gunz st0 (snd (serve env G call st))"

lemma inventory_inv_cong:
  "sx_grants st' = sx_grants st \<Longrightarrow> sx_lists st' = sx_lists st \<Longrightarrow> inventory_inv gunz st' = inventory_inv gunz st"
  by (simp add: inventory_inv_def)

lemma ensure_inv:
  assumes "inventory_inv gunz st" "sound_env gz gunz env st"
  shows "inventory_inv gunz (snd (ensureCapabilityStatusContext env st)) \<and>
    sx_grants (snd (ensureCapabilityStatusContext env st)) = sx_grants st"
proof -
  have "inventory_inv gunz (st\<lparr>sx_lists := (sx_lists st)(l := vs)\<rparr>)" if n: "vn_newStatusList env = Some (l, vs)" for l vs
  proof -
    have "l \<notin> gv_statusListCredential ` set (sx_grants st)" "\<And>i. bit_of gunz vs i \<noteq> Some True"
      using assms(2) n by (auto simp: sound_env_def)
    then show ?thesis using assms(1) by (auto simp: inventory_inv_def pointer_def image_iff)
  qed
  then show ?thesis using assms(1)
    by (auto simp: ensureCapabilityStatusContext_def ensure_context_def inventory_inv_def split: option.split)
qed

lemma allocate_status_inv:
  assumes "inventory_inv gunz st" "sound_env gz gunz env st" "allocate_status env st = (r, st')"
  shows "inventory_inv gunz st' \<and> sx_grants st' = sx_grants st \<and>
    (\<forall>s. r = Some s \<longrightarrow> (cs_statusListCredential s, cs_statusListIndex s) \<notin> pointer ` set (sx_grants st))"
proof -
  obtain c st1 where e: "ensureCapabilityStatusContext env st = (c, st1)" by force
  then have st': "st' = st1" using assms(3) by (auto simp: allocate_status_def split: option.splits)
  have "(cs_statusListCredential s, cs_statusListIndex s) \<notin> pointer ` set (sx_grants st)" if "r = Some s" for s
    using assms(2,3) that e by (auto simp: allocate_status_def sound_env_def split: option.splits)
  then show ?thesis using ensure_inv [OF assms(1,2)] st' e by simp
qed

lemma put_grant_inv:
  assumes "inventory_inv gunz st" "gv_credentialDid g \<notin> gv_credentialDid ` set (sx_grants st)"
    and "pointer g \<notin> pointer ` set (sx_grants st)" "gv_revokedAt g = None"
    and "sx_grants st' = put_grant g (sx_grants st)" "sx_lists st' = sx_lists st"
  shows "inventory_inv gunz st'"
proof -
  have "filter (\<lambda>x. gv_credentialDid x \<noteq> gv_credentialDid g) (sx_grants st) = sx_grants st"
    using assms(2) by (force simp: filter_id_conv image_iff)
  then have "sx_grants st' = sx_grants st @ [g]" using assms(5) by (simp add: put_grant_def)
  then show ?thesis using assms by (simp add: inventory_inv_def)
qed

lemma sound_env_new:
  assumes "sound_env gz gunz env st"
  shows "vn_issueClaim env vc = Some d \<Longrightarrow> d \<notin> gv_credentialDid ` set (sx_grants st)"
    and "ie_vcDid (vn_issueEnv env) \<notin> gv_credentialDid ` set (sx_grants st)"
  using assms unfolding sound_env_def by blast+

lemma new_grant_simps [simp]:
  "gv_credentialDid (new_grant env spec expires schema status d) = d"
  "gv_revokedAt (new_grant env spec expires schema status d) = None"
  "gv_expires (new_grant env spec expires schema status d) = expires"
  "gv_holder (new_grant env spec expires schema status d) = gs_holder spec"
  "pointer (new_grant env spec expires schema status d) = (cs_statusListCredential status, cs_statusListIndex status)"
  by (simp_all add: new_grant_def pointer_def)

lemma grant_inv:
  assumes "inventory_inv gunz st" "sound_env gz gunz env st" "grantCapability env spec st = (r, st')"
  shows "inventory_inv gunz st'"
proof -
  obtain s st1 where a: "allocate_status env st = (s, st1)" by force
  note al = allocate_status_inv [OF assms(1,2) a]
  have inv1: "inventory_inv gunz st1" and ptr: "(cs_statusListCredential x, cs_statusListIndex x) \<notin> pointer ` set (sx_grants st1)"
    if "s = Some x" for x using al that by auto
  show ?thesis
  proof (cases "st' = st1")
    case False
    then obtain status d expires schema vc i where g: "s = Some status" "vn_issueClaim env vc = Some d"
        "st' = st1\<lparr>sx_issued := i, sx_grants := put_grant (new_grant env spec expires schema status d) (sx_grants st1)\<rparr>"
      using assms(3) a by (auto simp: grantCapability_def Let_def split: option.splits)
    have new: "d \<notin> gv_credentialDid ` set (sx_grants st1)" using sound_env_new(1) [OF assms(2) g(2)] al by simp
    show ?thesis
      by (rule put_grant_inv [of gunz st1 "new_grant env spec expires schema status d"]) (use inv1 [OF g(1)] ptr [OF g(1)] new g(3) in simp_all)
  qed (use al in simp)
qed

lemma mint_did: "mintRootCapability H coll env n h spec = Inr (c, pic) \<Longrightarrow> iv_vcDid (ch_issued c) = ie_vcDid env"
  by (auto simp: mintRootCapability_def dest: issueVc_Inr(5) split: if_splits sum.splits)

lemma mint_inv:
  assumes "inventory_inv gunz st" "sound_env gz gunz env st" "mintRootGrant env spec st = (r, st')"
  shows "inventory_inv gunz st'"
proof -
  obtain s st1 where a: "allocate_status env st = (s, st1)" by force
  note al = allocate_status_inv [OF assms(1,2) a]
  have inv1: "inventory_inv gunz st1" and ptr: "(cs_statusListCredential x, cs_statusListIndex x) \<notin> pointer ` set (sx_grants st1)"
    if "s = Some x" for x using al that by auto
  show ?thesis
  proof (cases "st' = st1")
    case False
    then obtain status h pic sp expires rs where g: "s = Some status"
        "mintRootCapability (vn_hash env) (vn_coll env) (vn_issueEnv env) (vn_name env) (gs_holder spec) sp = Inr (h, pic)"
        "st' = st1\<lparr>sx_roots := rs, sx_grants := put_grant (new_grant env spec expires [] status (iv_vcDid (ch_issued h))) (sx_grants st1)\<rparr>"
      using assms(3) a by (auto simp: mintRootGrant_def Let_def split: option.splits sum.splits)
    have new: "iv_vcDid (ch_issued h) \<notin> gv_credentialDid ` set (sx_grants st1)"
      using sound_env_new(2) [OF assms(2)] mint_did [OF g(2)] al by simp
    show ?thesis
      by (rule put_grant_inv [of gunz st1 "new_grant env spec expires [] status (iv_vcDid (ch_issued h))"])
        (use inv1 [OF g(1)] ptr [OF g(1)] new g(3) in simp_all)
  qed (use al in simp)
qed


lemma get_grant_Some:
  "distinct (map gv_credentialDid all) \<Longrightarrow> get_grant d all = Some g \<longleftrightarrow> g \<in> set all \<and> gv_credentialDid g = d"
  unfolding get_grant_def by (induction all) (auto simp: rev_image_eqI split: if_splits)

definition mark_one :: "string \<Rightarrow> did \<Rightarrow> capability_grant \<Rightarrow> capability_grant" where
  "mark_one now d g = (if gv_credentialDid g = d \<and> \<not> truthy_string (gv_revokedAt g) then g\<lparr>gv_revokedAt := Some now\<rparr> else g)"

lemma mark_grant_revoked_map:
  "distinct (map gv_credentialDid all) \<Longrightarrow> mark_grant_revoked now d all = map (mark_one now d) all"
proof (induction all)
  case (Cons g gs)
  have "map (mark_one now d) gs = gs" if "gv_credentialDid g = d"
    using Cons.prems that by (intro map_idI) (force simp: mark_one_def image_iff)
  moreover have "mark_grant_revoked now d gs = map (mark_one now d) gs" using Cons by simp
  moreover have "mark_one now d g = (if gv_credentialDid g = d then (if truthy_string (gv_revokedAt g) then g else g\<lparr>gv_revokedAt := Some now\<rparr>) else g)"
    by (simp add: mark_one_def)
  ultimately show ?case by simp
qed simp

lemma mark_one_simps [simp]:
  "gv_credentialDid (mark_one now d g) = gv_credentialDid g" "pointer (mark_one now d g) = pointer g"
  "now \<noteq> [] \<Longrightarrow> truthy_string (gv_revokedAt (mark_one now d g)) \<longleftrightarrow> gv_credentialDid g = d \<or> truthy_string (gv_revokedAt g)"
  by (auto simp: mark_one_def pointer_def truthy_string_iff neq_Nil_conv)

lemma revoke_bit:
  assumes "codec gz gunz" "signs_body env" "revokeStatusIndex gz gunz env cred vs i = Inr (vs', rest)"
  shows "bit_of gunz vs' j = (if j = i then Some True else bit_of gunz vs j)"
proof -
  obtain pin n already where "rest = (pin, n, already)" by (cases rest)
  then show ?thesis using revoke_bits [OF _ assms(1,2)] assms(3) by (fastforce simp: bit_of_def)
qed

lemma revoke_capability_effect:
  assumes "sound_env gz gunz env st" "inventory_inv gunz st" "revokeCapability env d st = (r, st')" "st' \<noteq> st"
  shows "\<exists>g. get_grant d (sx_grants st) = Some g \<and> r = Some Is_revoked \<and>
    sx_grants st' = map (mark_one (now_iso env) d) (sx_grants st) \<and> sx_watch st' = sx_watch st \<and>
    (\<forall>l i. bit_of gunz (sx_lists st' l) i = (if (l, i) = pointer g then Some True else bit_of gunz (sx_lists st l) i))"
proof -
  obtain g vs rest where g: "get_grant d (sx_grants st) = Some g" "r = Some Is_revoked"
      "revokeStatusIndex gz gunz (vn_status env) (gv_statusListCredential g) (sx_lists st (gv_statusListCredential g))
        (gv_statusListIndex g) = Inr (vs, rest)"
      "st' = st\<lparr>sx_lists := (sx_lists st)(gv_statusListCredential g := vs),
        sx_grants := mark_grant_revoked (now_iso env) d (sx_grants st)\<rparr>"
    using assms(1,3,4) by (auto simp: revokeCapability_def sound_env_def split: option.splits if_splits sum.splits)
  have "bit_of gunz vs j = (if j = gv_statusListIndex g then Some True else bit_of gunz (sx_lists st (gv_statusListCredential g)) j)" for j
    using assms(1) by (intro revoke_bit [OF _ _ g(3)]) (simp_all add: sound_env_def)
  moreover have "mark_grant_revoked (now_iso env) d (sx_grants st) = map (mark_one (now_iso env) d) (sx_grants st)"
    using assms(2) by (intro mark_grant_revoked_map) (simp add: inventory_inv_def)
  ultimately show ?thesis using g(1,2,4) by (intro exI [of _ g]) (auto simp: pointer_def)
qed

lemma revoke_inv:
  assumes "inventory_inv gunz st" "sound_env gz gunz env st" "revokeCapability env d st = (r, st')"
  shows "inventory_inv gunz st'"
proof (cases "st' = st")
  case False
  obtain g where g: "get_grant d (sx_grants st) = Some g" "sx_grants st' = map (mark_one (now_iso env) d) (sx_grants st)"
      "\<And>l i. bit_of gunz (sx_lists st' l) i = (if (l, i) = pointer g then Some True else bit_of gunz (sx_lists st l) i)"
    using revoke_capability_effect [OF assms(2,1,3) False] by blast
  have now: "now_iso env \<noteq> []" using assms(2) by (simp add: sound_env_def)
  have inv: "distinct (map gv_credentialDid (sx_grants st))" "distinct (map pointer (sx_grants st))"
    "\<And>l i. bit_of gunz (sx_lists st l) i = Some True \<longleftrightarrow> (\<exists>g\<in>set (sx_grants st). pointer g = (l, i) \<and> truthy_string (gv_revokedAt g))"
    using assms(1) by (auto simp: inventory_inv_def)
  have gd: "g \<in> set (sx_grants st)" "gv_credentialDid g = d" using g(1) get_grant_Some [OF inv(1)] by auto
  have same: "x = g" if "x \<in> set (sx_grants st)" "gv_credentialDid x = d" for x
    using that gd inv(1) by (auto simp: distinct_map inj_on_def)
  have "bit_of gunz (sx_lists st' l) i = Some True \<longleftrightarrow>
      (\<exists>x\<in>set (sx_grants st). pointer x = (l, i) \<and> (gv_credentialDid x = d \<or> truthy_string (gv_revokedAt x)))" for l i
  proof (cases "pointer g = (l, i)")
    case True
    then show ?thesis using g(3) [of l i] gd by auto
  next
    case False
    then have "bit_of gunz (sx_lists st' l) i = bit_of gunz (sx_lists st l) i" using g(3) [of l i] by metis
    moreover have "gv_credentialDid x \<noteq> d" if "x \<in> set (sx_grants st)" "pointer x = (l, i)" for x
      using same that False by blast
    ultimately show ?thesis using inv(3) [of l i] by auto
  qed
  then show ?thesis using inv(1,2) now by (simp add: inventory_inv_def g(2) comp_def)
qed (use assms in simp)

lemma serve_inv:
  assumes "inventory_inv gunz st" "sound_env gz gunz env st"
  shows "inventory_inv gunz (snd (serve env G call st))"
proof (cases call)
  case (Call_authorize req)
  show ?thesis using grant_inv [OF assms] assms(1)
    by (auto simp: Call_authorize authorize_route_def emit_watch_def inventory_inv_def split: option.splits prod.splits)
next
  case (Call_mint_root req)
  show ?thesis using mint_inv [OF assms] assms(1)
    by (auto simp: Call_mint_root mint_root_route_def inventory_inv_def split: option.splits prod.splits)
next
  case (Call_revoke d)
  show ?thesis using revoke_inv [OF assms] assms(1)
    by (auto simp: Call_revoke revoke_capability_route_def emit_watch_def inventory_inv_def split: option.splits prod.splits)
next
  case (Call_login_sign c)
  show ?thesis using assms(1) by (auto simp: Call_login_sign login_sign_route_def split: option.splits)
qed

lemma control_runs_inv: "control_runs gz gunz st0 st \<Longrightarrow> inventory_inv gunz st0 \<Longrightarrow> inventory_inv gunz st"
  by (induction rule: control_runs.induct) (auto intro: serve_inv)


section \<open>What a grant issues and what a revocation leaves\<close>

text \<open>
  A grant records the pointer it issued: when a scope capability is granted, the credential handed to Keymaster is for the
  holder, names the Sovereign as owner, carries the ceiling, the kinds and the expiry that were approved and the status pointer
  that the inventory records, and revoking the recorded grant sets exactly the bit of that pointer.\<close>

theorem grant_records_issued_pointer:
  assumes "grantCapability env spec st = (Some g, st1)" "inventory_inv gunz st1" "sound_env gz gunz env' st1"
    and "revokeCapability env' (gv_credentialDid g) st1 = (Some Is_revoked, st2)" "get_grant (gv_credentialDid g) (sx_grants st1) = Some g"
  shows "\<exists>vc cav s. last (sx_issued st1) = (gv_credentialDid g, vc, cav) \<and> mv_subject vc = gs_holder spec \<and>
    (''caveats'', caveats_json (normalizeCaveats (vn_coll env) cav)) \<in> set (mv_claims vc) \<and>
    cv_owner cav = Some (vn_did env) \<and> cv_ceiling cav = Some (gs_ceiling spec) \<and> cv_kinds cav = gs_kinds spec \<and>
    cv_expires cav = Some (gv_expires g) \<and> cv_status cav = Some s \<and>
    (\<forall>l i. bit_of gunz (sx_lists st2 l) i = (if l = cs_statusListCredential s \<and> i = cs_statusListIndex s then Some True
      else bit_of gunz (sx_lists st1 l) i))"
proof -
  obtain status schema d s1 where new: "g = new_grant env spec (expiry_of env (or_default 90 (gs_days spec))) schema status d"
    "st1 = s1\<lparr>sx_issued := sx_issued s1 @ [(d, issueScopeCapability env (gs_holder spec) schema (or_default ''hearthold:vault'' (gs_target spec))
        \<lparr>operations = [''prove''], resources = [or_default ''hearthold:vault'' (gs_target spec)]\<rparr> (grant_caveats env spec (Some (gv_expires g)) status),
        grant_caveats env spec (Some (gv_expires g)) status)], sx_grants := put_grant g (sx_grants s1)\<rparr>"
    using assms(1) by (auto simp: grantCapability_def Let_def split: option.splits prod.splits)
  define cav where "cav = grant_caveats env spec (Some (gv_expires g)) status"
  define vc where "vc = issueScopeCapability env (gs_holder spec) schema (or_default ''hearthold:vault'' (gs_target spec))
    \<lparr>operations = [''prove''], resources = [or_default ''hearthold:vault'' (gs_target spec)]\<rparr> cav"
  have "last (sx_issued st1) = (d, vc, cav)" by (subst new(2)) (simp add: vc_def cav_def)
  then have i: "last (sx_issued st1) = (gv_credentialDid g, vc, cav)" "gv_revokedAt g = None"
    "pointer g = (cs_statusListCredential status, cs_statusListIndex status)"
    by (simp_all add: new(1))
  have v: "mv_subject vc = gs_holder spec" "(''caveats'', caveats_json (normalizeCaveats (vn_coll env) cav)) \<in> set (mv_claims vc)"
    "cv_owner cav = Some (vn_did env)" "cv_ceiling cav = Some (gs_ceiling spec)" "cv_kinds cav = gs_kinds spec"
    "cv_expires cav = Some (gv_expires g)" "cv_status cav = Some status"
    by (simp_all add: vc_def cav_def issueScopeCapability_def issueClaim_def grant_caveats_def)
  have "st2 \<noteq> st1"
  proof
    assume "st2 = st1"
    then have "mark_grant_revoked (now_iso env') (gv_credentialDid g) (sx_grants st1) = sx_grants st1"
      using assms(4,5) i(2) by (auto simp: revokeCapability_def split: sum.splits prod.splits dest: arg_cong [of _ _ sx_grants])
    then have e: "map (mark_one (now_iso env') (gv_credentialDid g)) (sx_grants st1) = sx_grants st1"
      using assms(2) by (subst (asm) mark_grant_revoked_map) (simp_all add: inventory_inv_def)
    have "g \<in> set (sx_grants st1)" using assms(5) by (auto simp: get_grant_def find_Some_iff)
    then have "mark_one (now_iso env') (gv_credentialDid g) g = g" using e map_eq_conv [of _ "sx_grants st1" "\<lambda>x. x"] by simp
    then have "gv_revokedAt (mark_one (now_iso env') (gv_credentialDid g) g) = gv_revokedAt g" by simp
    then show False using i(2) by (simp add: mark_one_def)
  qed
  then obtain g' where "get_grant (gv_credentialDid g) (sx_grants st1) = Some g'"
    "\<forall>l i. bit_of gunz (sx_lists st2 l) i = (if (l, i) = pointer g' then Some True else bit_of gunz (sx_lists st1 l) i)"
    using revoke_capability_effect [OF assms(3,2,4)] by blast
  then have "\<forall>l i. bit_of gunz (sx_lists st2 l) i = (if l = cs_statusListCredential status \<and> i = cs_statusListIndex status then Some True
      else bit_of gunz (sx_lists st1 l) i)" using i(3) assms(5) by auto
  then show ?thesis using i(1) v by blast
qed

section \<open>Gaps\<close>

text \<open>
  Cutting an agent does not show: \<open>POST /api/revoke-capability\<close> of a root revokes its bit and its record and leaves the
  watch as it was, so the forest goes on showing the root as live.\<close>

theorem revoked_root_shown_live:
  assumes "revoke_capability_route env G d st = (Inr (Revoke_reply Is_revoked), st')" "r \<in> set (wt_lineage (sx_watch st))" "lr_vcDid r = d"
  shows "wt_lineage (sx_watch st') = wt_lineage (sx_watch st) \<and> r \<in> set (wt_lineage (sx_watch st')) \<and> forest coll (wt_lineage (sx_watch st')) = forest coll (wt_lineage (sx_watch st))"
proof -
  have "sx_watch s' = sx_watch st" if "revokeCapability env d st = (x, s')" for x s'
    using that by (auto simp: revokeCapability_def split: option.splits if_splits sum.splits)
  then have "wt_lineage (sx_watch st') = wt_lineage (sx_watch st)"
    using assms(1) by (auto simp: revoke_capability_route_def emit_watch_def split: if_splits option.splits prod.splits)
  then show ?thesis using assms(2) by simp
qed

text \<open>
  A root that could not be delivered is in force and unwatched: when the message to the Emissary fails, the route
  rejects, and the root it minted is in the inventory as in force and not in the watch.\<close>

theorem undelivered_root_unwatched:
  assumes "mintRootGrant env (spec_of req c) st = (Some (cg, g), st')" "\<not> vn_sendDidComm env (gq_emissaryDid req)"
    and "gq_emissaryDid req \<noteq> []" "CEIL (vn_upper env (or_default ''MEDIUM'' (gq_ceiling req))) = Some c"
    and "G (mint_context env req) = Some a"
  shows "mint_root_route env G req st = (Inl Route_rejected, st') \<and> g \<in> set (sx_grants st') \<and>
    cg_handle cg \<in> set (sx_roots st') \<and> sx_watch st' = sx_watch st \<and> sx_sent st' = sx_sent st"
proof -
  have al: "sx_watch s = sx_watch st \<and> sx_sent s = sx_sent st" if "allocate_status env st = (x, s)" for x s
    using that by (auto simp: allocate_status_def ensureCapabilityStatusContext_def ensure_context_def split: if_splits option.splits)
  have "g \<in> set (sx_grants st') \<and> cg_handle cg \<in> set (sx_roots st') \<and> sx_watch st' = sx_watch st \<and> sx_sent st' = sx_sent st"
    using assms(1) al by (auto simp: mintRootGrant_def Let_def put_grant_def split: option.splits prod.splits sum.splits)
  then show ?thesis using assms by (simp add: mint_root_route_def)
qed

end
