(* ===== verification/Signet_Example.thy ===== *)
theory Signet_Example
  imports Lineage Sovereign_Control Chain_Example Monitor_Example
begin

text \<open>
  A concrete chain to watch, a closure to keep and a Signet that is asked, and the witnesses of the properties of
  \<open>Lineage\<close>, \<open>Signet\<close>, \<open>Sovereign_Watch\<close> and \<open>Sovereign_Control\<close> at them.
\<close>

section \<open>Watching and keeping\<close>


definition ke_event :: "did \<Rightarrow> string \<Rightarrow> gatekeeper_event" where
  "ke_event d op = \<lparr>ge_did = Some d, ge_opid = Some op\<rparr>"

text \<open>The issuer has rotated its keys since it signed: three operations, of which two are pinned.\<close>

definition ke_source :: closure_source where
  "ke_source = \<lparr>so_resolve = (\<lambda>d t. Some \<lparr>rv_id = Some d, rv_versionSequence = Some (if d = ''I'' then if t = None then 3 else 2 else 1),
       rv_versionId = Some (if d = ''I'' then if t = None then ''o3'' else ''o2'' else ''o1'')\<rparr>),
     so_export = (\<lambda>d. Some [if d = ''I'' then [ke_event d ''o1'', ke_event d ''o2'', ke_event d ''o3''] else [ke_event d ''o1'']])\<rparr>"

definition ke_input :: closure_input where
  "ke_input = \<lparr>kin_credentialDid = ''vc'', kin_schemaDid = ''schema'', kin_signedAt = ''t0'', kin_authoritySignedAt = None\<rparr>"

lemma ke_counts: "counts_from_one ke_source"
  by (auto simp: counts_from_one_def pinVersion_def ke_source_def split: if_splits)

lemma keep_closure_exact_witness:
  "\<exists>c. computeKeepClosure ke_input (Signed_by ''I'') ke_source = Some c \<and> map op_did (kc_pins c) = [''vc'', ''schema'', ''I''] \<and>
     int (kc_totalOps c) = sum_list (map op_versionSequence (kc_pins c))"
proof -
  have some: "map_option kc_totalOps (computeKeepClosure ke_input (Signed_by ''I'') ke_source) = Some 4"
    "map fst (keep_requests ke_input (Signed_by ''I'')) = [''vc'', ''schema'', ''I'']" by code_simp+
  then obtain c where c: "computeKeepClosure ke_input (Signed_by ''I'') ke_source = Some c" by auto
  have "distinct (map fst (keep_requests ke_input (Signed_by ''I'')))" unfolding some(2) by simp
  note k = keep_closure_exact [OF c ke_counts this]
  have "map op_did (kc_pins c) = map fst (map (\<lambda>p. (op_did p, op_role p)) (kc_pins c))" by simp
  also have "\<dots> = map fst (keep_requests ke_input (Signed_by ''I''))" using k by (simp only: map_map comp_def case_prod_beta fst_conv)
  finally show ?thesis using c k some(2) by auto
qed

section \<open>The Signet\<close>

definition ke_env :: signet_env where
  "ke_env = \<lparr>sg_hash = id, sg_currentId = Some ''S'', sg_createResponse = (\<lambda>c. Some (''response to '' @ c)), sg_proveApproval = (\<lambda>_. Some ''S#key-1''),
     sg_proveRuleset = (\<lambda>_. None), sg_proveDischarge = (\<lambda>_. Some ''S#key-1''), sg_unwrap = Some, sg_seal = (\<lambda>_. Some), sg_now = ''t''\<rparr>"

definition ke_msg :: signet_message where
  "ke_msg = M_approval_request ''t1'' ''was here'' ''root'' 1 ''audit'' ''S''"


definition ke_inputs :: "gate_input list" where
  "ke_inputs = [In_approve ''i1'' (message_context ''W'' ke_msg), In_approve ''i2'' (bare_context ''X''), In_decide ''i1'' True (Some ''0000''),
     In_decide ''i1'' True (Some ''1234''), In_timeout ''i2'', In_decide ''i2'' True (Some ''1234'')]"

lemma ke_settled: "hg_settled (http_run ''1234'' ke_inputs) = [(''i1'', Some \<lparr>pa_method = ''pin'', pa_level = 1\<rparr>), (''i2'', None)]"
  by code_simp

lemma signet_answers_once_by_pin_witness:
  "distinct (map fst (hg_settled (http_run ''1234'' ke_inputs))) \<and> map hy_id (hg_history (http_run ''1234'' ke_inputs)) = [''i1'', ''i2''] \<and>
     In_decide ''i1'' True (Some ''1234'') \<in> set ke_inputs"
proof -
  have "distinct (asked_ids ke_inputs)" by code_simp
  note s = signet_answers_once_by_pin [OF this refl, of "''1234''"]
  have "map hy_id (hg_history (http_run ''1234'' ke_inputs)) = map fst (hg_settled (http_run ''1234'' ke_inputs))" using s by blast
  moreover have "(''i1'', Some \<lparr>pa_method = ''pin'', pa_level = 1\<rparr>) \<in> set (hg_settled (http_run ''1234'' ke_inputs))" unfolding ke_settled by simp
  ultimately show ?thesis using s unfolding ke_settled by auto
qed

section \<open>A sensitive act\<close>

definition ke_request :: signet_discharge_request where
  "ke_request = \<lparr>dr_txn = ''t1'', dr_by = ''S'', dr_predicate = ''human-consent'', dr_claim = ''was here'', dr_kind = ''location'', dr_owner = ''S'',
     dr_audience = ''E'', dr_sensitivity = 2, dr_reveal = None, dr_reason = None\<rparr>"

definition ke_asked :: "gate_input list" where
  "ke_asked = [In_approve ''i1'' (discharge_context ke_request), In_decide ''i1'' True (Some ''1234'')]"

definition ke_gate :: signet_gate where
  "ke_gate ctx = (if ctx = discharge_context ke_request then Some \<lparr>pa_method = ''pin'', pa_level = 1\<rparr> else None)"

lemma ke_browser: "browser_gate ''1234'' ke_asked ke_gate"
proof -
  have "hg_settled (http_run ''1234'' ke_asked) = [(''i1'', Some \<lparr>pa_method = ''pin'', pa_level = 1\<rparr>)]" by code_simp
  then show ?thesis by (auto simp: browser_gate_def ke_gate_def ke_asked_def asked_ids_def split: if_splits)
qed

definition ke_discharge :: signed_discharge where
  "ke_discharge = (unsigned_discharge id ke_request 1)\<lparr>di_proof := Some ''S#key-1''\<rparr>"

lemma ke_reply: "sovereign_handler ke_env ke_gate (Some ''W'') ''W'' (M_discharge_request ke_request) = Replies (Y_discharge ke_discharge)"
  by (simp add: sovereign_handler_def message_context_def ke_gate_def signDischarge_def ke_env_def ke_discharge_def Let_def)

lemma ke_consent: "mx_consent ''t1'' ''vc'' = discharge.truncate ke_discharge"
  by code_simp

definition ke_menv :: monitor_env where
  "ke_menv = mx_menv\<lparr>me_verifyDischarge := (\<lambda>c. c = mx_consent ''t1'' ''vc'')\<rparr>"

lemma ke_allowed:
  "authorizeInvocation file_isSpent file_markSpent id ke_menv (mx_ctx (Some 2)) (mx_msg ''t1'' ''vc'') (mx_leaf_of ''vc'' 2) Missing
     = Some (Allow (Some ''S'') None (Some 2), Entries [''t1'', ''cap:vc''])"
  by code_simp


lemma consent_round_trip_witness:
  "discharge_satisfies id mx_menv ((mx_ctx (Some 2))\<lparr>mc_owner := Some ''S''\<rparr>) (mx_act ''t1'') (mx_leaf_of ''vc'' 2) ''S'' ''human-consent''
     (discharge.truncate ke_discharge)"
proof -
  have req: "discharge_request.truncate ke_request = discharge_request_for (mx_msg ''t1'' ''vc'') (mx_leaf_of ''vc'' 2) ''S'' 2 (''S'', ''human-consent'')"
    by code_simp
  have facts: "cv_owner (vl_caveats (mx_leaf_of ''vc'' 2)) \<in> {None, Some ''S''}" "at_claim (in_act (mx_msg ''t1'' ''vc'')) \<noteq> None"
    "at_kind (in_act (mx_msg ''t1'' ''vc'')) \<noteq> None" "sg_hash ke_env = id"
    by (simp_all add: mx_leaf_of_def mx_caveats_def mx_msg_def mx_act_def ke_env_def)
  have prove: "before_hash m = ''S'' \<and> me_verifyDischarge mx_menv (discharge.truncate (u\<lparr>di_proof := Some m\<rparr>))" if "sg_proveDischarge ke_env u = Some m" for u m
    using that by (auto simp: ke_env_def mx_menv_def before_hash_def)
  have "mc_sensitivity ((mx_ctx (Some 2))\<lparr>mc_owner := Some ''S''\<rparr>) = Some 2" "mc_owner ((mx_ctx (Some 2))\<lparr>mc_owner := Some ''S''\<rparr>) = Some ''S''"
    by (simp_all add: mx_ctx_def)
  from consent_round_trip [OF ke_reply req this facts prove] show ?thesis by (simp add: mx_msg_def)
qed

section \<open>The watch\<close>

definition ke_file :: "lineage_record list" where
  "ke_file = [\<lparr>lr_vcDid = ''v1'', lr_parentVcDid = None, lr_issuer = Some ''S'', lr_holder = ''E'', lr_counter = 0, lr_ts = ''t1'', lr_revoked = False\<rparr>,
     \<lparr>lr_vcDid = ''v2'', lr_parentVcDid = Some ''v1'', lr_issuer = Some ''E'', lr_holder = ''F'', lr_counter = 1, lr_ts = ''t2'', lr_revoked = False\<rparr>,
     \<lparr>lr_vcDid = ''v3'', lr_parentVcDid = Some ''v3'', lr_issuer = Some ''X'', lr_holder = ''X'', lr_counter = 1, lr_ts = ''t3'', lr_revoked = False\<rparr>]"

lemma forest_exact_witness:
  "distinct (forest_records id ke_file) \<and> {r \<in> set ke_file. grounded ke_file r} = {ke_file ! 0, ke_file ! 1}"
proof -
  have "distinct (map lr_vcDid ke_file)" by code_simp
  note f = forest_exact [OF this, of id]
  have "map lr_vcDid (forest_records id ke_file) = [''v1'', ''v2'']" "set (forest_records id ke_file) = {ke_file ! 0, ke_file ! 1}" by code_simp+
  with f show ?thesis by simp
qed

definition ke_reports :: "watch_input list" where
  "ke_reports = [In_minted ''t1'' ''v1'' ''E'', In_message ''t2'' ''E'' (W_hop_registered ''v2'' ''v1'' ''F'' 1),
     In_message ''t3'' ''X'' (W_hop_revoked ''v2''), In_message ''t4'' ''E'' (W_hop_revoked ''v2'')]"

definition ke_watch :: "watch_input list \<Rightarrow> watch_state" where
  "ke_watch es = watch_run ke_env ke_gate (Some ''W'') ''S'' es empty_watch"

lemma watch_records_authentic_witness:
  "distinct (map lr_vcDid (wt_lineage (ke_watch ke_reports))) \<and> list_all (registered_by ''S'' ke_reports) (wt_lineage (ke_watch ke_reports)) \<and>
     length (wt_flow (ke_watch ke_reports)) \<le> 200"
  using watch_records_authentic [OF refl, where self = "''S''" and es = ke_reports and env = ke_env and G = ke_gate and trusted = "Some ''W''"]
  unfolding ke_watch_def by blast

section \<open>The inventory\<close>

definition ke_grant :: capability_grant where
  "ke_grant = \<lparr>gv_credentialDid = ''c1'', gv_holder = ''E'', gv_target = ''vault'', gv_kinds = None, gv_ceiling = 2, gv_expires = ''later'',
     gv_schemaDid = ''schema'', gv_statusListCredential = ''list'', gv_statusListIndex = 9, gv_issuedAt = ''t'', gv_revokedAt = None\<rparr>"

definition ke_state :: sovereign_state where
  "ke_state = \<lparr>sx_grants = [ke_grant], sx_context = Some (''list'', ''alloc''), sx_lists = (\<lambda>_. createStatusList ex_gz ex_status_env),
     sx_issued = [], sx_roots = [], sx_sent = [], sx_watch = empty_watch\<rparr>"

lemma ke_inventory: "inventory_inv ex_gunz ke_state"
proof -
  have "getBit (replicate STATUS_LIST_BYTES 0) i \<noteq> Some True" for i
    using getBit_zero [of i] by (cases "in_range i") (auto simp: getBit_def)
  then show ?thesis by (simp add: inventory_inv_def ke_state_def ke_grant_def bit_of_def ex_created_bits)
qed


end
