(* ===== verification/Emissary.thy ===== *)
theory Emissary
  imports Sovereign_Control
begin

text \<open>
  The Emissary: what it holds and hands on (\<open>packages/emissary/src/chain.ts\<close>), how it invokes the Warden
  (\<open>invoke.ts\<close>), the projector (\<open>handler.ts\<close>) and the loop of its control daemon that owns the mailbox (\<open>control.ts\<close>). Keymaster,
  the node and the other parties of one act are the record \<open>emissary_env\<close>, where \<^const>\<open>None\<close> is a rejected promise.
\<close>

section \<open>What it holds\<close>

record issued_hop =
  ih_childVcDid :: did
  ih_holder :: did
  ih_statusListCredential :: did
  ih_statusListIndex :: int
  ih_issuedAt :: string

definition grant_leaf :: "chain_grant \<Rightarrow> did" where
  "grant_leaf g = iv_vcDid (ch_issued (cg_handle g))"

definition put_held :: "chain_grant \<Rightarrow> chain_grant list \<Rightarrow> chain_grant list" where
  "put_held g all = filter (\<lambda>x. grant_leaf x \<noteq> grant_leaf g) all @ [g]"

definition get_held :: "did \<Rightarrow> chain_grant list \<Rightarrow> chain_grant option" where
  "get_held d all = find (\<lambda>g. grant_leaf g = d) all"

definition latest_held :: "chain_grant list \<Rightarrow> chain_grant option" where
  "latest_held all = (if all = [] then None else Some (last all))"

definition put_issued :: "issued_hop \<Rightarrow> issued_hop list \<Rightarrow> issued_hop list" where
  "put_issued h all = filter (\<lambda>x. ih_childVcDid x \<noteq> ih_childVcDid h) all @ [h]"

definition get_issued :: "did \<Rightarrow> issued_hop list \<Rightarrow> issued_hop option" where
  "get_issued d all = find (\<lambda>h. ih_childVcDid h = d) all"

definition select_held :: "did option \<Rightarrow> chain_grant list \<Rightarrow> chain_grant option" where
  "select_held leaf all = (if truthy_string leaf then get_held (the leaf) all else latest_held all)"

section \<open>State and environment\<close>

datatype emissary_message =
    Send_chain_grant did chain_grant
  | Send_watch did watch_message
  | Send_reply did string signet_reply

record receipt_record =
  rr_id :: string
  rr_kind :: string
  rr_status :: string
  rr_sensitivityName :: "string option"
  rr_at :: string

datatype projection_outcome = Relayed | Declined | Project_error

record projection_record =
  pj_id :: string
  pj_requester :: did
  pj_outcome :: projection_outcome
  pj_humanProof :: "bool option"

datatype emissary_event =
    Chain_grant_event did int did
  | Delegated_hop_event did did
  | Projection_event projection_record
  | Receipt_event receipt_record

record emissary_state =
  em_held :: "chain_grant list"
  em_issued :: "issued_hop list"
  em_context :: "(did \<times> did) option"
  em_lists :: "did \<Rightarrow> status_asset"
  em_pending :: "(string \<times> string) list"
  em_receipts :: "receipt_record list"
  em_projections :: "projection_record list"
  em_sent :: "emissary_message list"
  em_emitted :: "emissary_event list"

record emissary_env =
  ee_did :: did
  ee_name :: string
  ee_sovereignDid :: "did option"
  ee_hash :: hash
  ee_coll :: "string \<Rightarrow> string"
  ee_now :: string
  ee_newId :: string
  ee_newStatusList :: "(did \<times> status_asset) option"
  ee_newAllocation :: "did option"
  ee_allocate :: "did \<Rightarrow> int option"
  ee_issueEnv :: issue_env
  ee_gz :: "bitstring \<Rightarrow> string"
  ee_gunz :: "string \<Rightarrow> bitstring option"
  ee_status :: status_env
  ee_send :: "emissary_message \<Rightarrow> bool"
  ee_approval :: "did \<Rightarrow> control_act \<Rightarrow> bool"
  ee_relay :: "did \<Rightarrow> did \<Rightarrow> did option \<Rightarrow> signet_reply option"
  ee_put :: bool

section \<open>Handing on\<close>

datatype delegate_error = No_held_capability | Status_unavailable | Delegation_failed delegation_error

definition with_status :: "capability_spec \<Rightarrow> capability_status \<Rightarrow> capability_spec" where
  "with_status spec s = spec\<lparr>sp_caveats := (sp_caveats spec)\<lparr>cv_status := Some s\<rparr>\<rparr>"

text \<open>A fresh index of the Emissary's own list, and the files it leaves.\<close>

definition emissary_status :: "emissary_env \<Rightarrow> emissary_state \<Rightarrow> capability_status option \<times> emissary_state" where
  "emissary_status env st =
     (case ensure_context (ee_newStatusList env) (ee_newAllocation env) (em_context st) (em_lists st) of
        (r, context, ls) \<Rightarrow>
          (case r of
             None \<Rightarrow> None
           | Some (l, a) \<Rightarrow> map_option (\<lambda>i. \<lparr>cs_statusListCredential = l, cs_statusListIndex = i\<rparr>) (ee_allocate env a),
           st\<lparr>em_context := context, em_lists := ls\<rparr>))"

definition delegateOnward ::
  "emissary_env \<Rightarrow> chain_grant \<Rightarrow> did \<Rightarrow> capability_spec \<Rightarrow> emissary_state \<Rightarrow>
     (delegate_error + chain_grant \<times> issued_hop) \<times> emissary_state" where
  "delegateOnward env parent holder child st =
     (case emissary_status env st of
        (None, st1) \<Rightarrow> (Inl Status_unavailable, st1)
      | (Some s, st1) \<Rightarrow>
          (case delegateCapability (ee_hash env) (ee_coll env) (ee_issueEnv env) (ee_name env) (cg_handle parent) holder (with_status child s) of
             Inl e \<Rightarrow> (Inl (Delegation_failed e), st1)
           | Inr (h, _) \<Rightarrow>
               (Inr (\<lparr>cg_handle = h, cg_ancestorDisclosures = disclosedFor parent\<rparr>,
                  \<lparr>ih_childVcDid = iv_vcDid (ch_issued h), ih_holder = holder, ih_statusListCredential = cs_statusListCredential s,
                   ih_statusListIndex = cs_statusListIndex s, ih_issuedAt = ee_now env\<rparr>), st1)))"

record delegate_request =
  dq_holderDid :: did
  dq_ceiling :: "int option"
  dq_kinds :: "string list option"
  dq_target :: "string option"
  dq_leafVcDid :: "did option"

definition child_spec :: "chain_grant \<Rightarrow> delegate_request \<Rightarrow> capability_spec" where
  "child_spec parent req =
     (let cap = ch_capability (cg_handle parent); pc = cap_caveats cap; target = or_default (cap_invocationTarget cap) (dq_target req)
      in \<lparr>sp_invocationTarget = target,
          sp_authority = \<lparr>operations = filter (\<lambda>x. x = ''prove'') (operations (cap_authority cap)), resources = [target]\<rparr>,
          sp_caveats = \<lparr>cv_ceiling = (case dq_ceiling req of Some c \<Rightarrow> Some c | None \<Rightarrow> cv_ceiling pc),
            cv_kinds = (case dq_kinds req of Some ks \<Rightarrow> Some ks | None \<Rightarrow> cv_kinds pc),
            cv_owner = (if truthy_string (cv_owner pc) then cv_owner pc else None),
            cv_audience = (if truthy_string (cv_audience pc) then cv_audience pc else None),
            cv_expires = (if truthy_string (cv_expires pc) then cv_expires pc else None),
            cv_singleUse = (if cv_singleUse pc = Some True then cv_singleUse pc else None),
            cv_requiresDischarge = cv_requiresDischarge pc, cv_status = None\<rparr>\<rparr>)"

definition delegateHeldOnward ::
  "emissary_env \<Rightarrow> delegate_request \<Rightarrow> emissary_state \<Rightarrow> (delegate_error + chain_grant \<times> issued_hop) \<times> emissary_state" where
  "delegateHeldOnward env req st =
     (case select_held (dq_leafVcDid req) (em_held st) of
        None \<Rightarrow> (Inl No_held_capability, st)
      | Some parent \<Rightarrow> delegateOnward env parent (dq_holderDid req) (child_spec parent req) st)"

section \<open>Invoking\<close>

record invoke_spec =
  is_claim :: string
  is_kind :: string
  is_target :: "string option"
  is_reveal :: "int list option"

definition prove_act :: "invoke_spec \<Rightarrow> string \<Rightarrow> string \<Rightarrow> invocation_act" where
  "prove_act spec nonce txn = \<lparr>at_action = ''prove'', at_target = or_default (''hearthold:vault:'' @ is_kind spec) (is_target spec),
     at_claim = Some (is_claim spec), at_kind = Some (is_kind spec),
     at_reveal = (if opt_list (is_reveal spec) \<noteq> [] then is_reveal spec else None), at_nonce = nonce, at_txn = txn\<rparr>"

text \<open>The message that \<open>invokeEvidence\<close> sends with the presentation it made for the challenge.\<close>

definition invokeEvidence :: "string \<Rightarrow> invoke_spec \<Rightarrow> string \<Rightarrow> string \<Rightarrow> invocation" where
  "invokeEvidence presentation spec nonce txn = \<lparr>in_presentation = Some presentation, in_chain = None,
     in_act = prove_act spec nonce txn, in_discharges = None\<rparr>"

text \<open>The message that \<open>chainInvokeEvidence\<close> sends; \<open>prove\<close> is \<open>addProof\<close>, by the \<open>verificationMethod\<close> it adds.\<close>

definition chainInvokeEvidence ::
  "(holder_proof \<Rightarrow> string option) \<Rightarrow> string \<Rightarrow> chain_grant \<Rightarrow> invoke_spec \<Rightarrow> string \<Rightarrow> string \<Rightarrow> invocation option" where
  "chainInvokeEvidence prove c g spec nonce txn =
     (let body = \<lparr>hp_challenge = c, hp_leafVcDid = grant_leaf g, hp_txn = txn, hp_proof = None\<rparr> in
      map_option (\<lambda>m. \<lparr>in_presentation = None,
          in_chain = Some \<lparr>cn_leafVcDid = grant_leaf g, cn_disclosed = disclosedFor g, cn_holderProof = Some (body\<lparr>hp_proof := Some m\<rparr>)\<rparr>,
          in_act = prove_act spec nonce txn, in_discharges = None\<rparr>) (prove body))"

section \<open>The projector\<close>

text \<open>The registry's verdict for this Emissary, \<open>present\<close> and a level, the presentation, and the policy by schema.\<close>

record projector_autonomy =
  pu_authorize :: "string \<Rightarrow> bool option"
  pu_present :: "did \<Rightarrow> string option"
  pu_sensitivityFor :: "did option \<Rightarrow> int"

datatype projector_reply = Presented string | Carried signet_reply | Standing_failed | Unreachable

definition projector_handler ::
  "(did \<Rightarrow> did option \<Rightarrow> signet_reply option) \<Rightarrow> projector_autonomy option \<Rightarrow> did \<Rightarrow> did option \<Rightarrow> projector_reply" where
  "projector_handler relay autonomy c schema =
     (let carried = (case relay c schema of None \<Rightarrow> Unreachable | Some r \<Rightarrow> Carried r) in
      case autonomy of
        None \<Rightarrow> carried
      | Some p \<Rightarrow>
          if pu_authorize p (sensitivityName (pu_sensitivityFor p schema)) = Some True
          then (case pu_present p c of None \<Rightarrow> Standing_failed | Some r \<Rightarrow> Presented r)
          else carried)"


section \<open>Writes that the Sovereign co-signs\<close>

datatype write_job = Job_delegate delegate_request | Job_revoke_hop did

datatype job_outcome =
    Write_delegated did did int
  | Write_revoked did
  | No_sovereign
  | Declined_by_sovereign
  | Delegate_rejected delegate_error
  | Not_issued_here
  | Write_rejected

text \<open>The ellipsis, in UTF-8.\<close>

definition ellipsis :: string where
  "ellipsis = [CHR 0xE2, CHR 0x80, CHR 0xA6]"

definition write_action :: "write_job \<Rightarrow> control_act" where
  "write_action job =
     (case job of
        Job_delegate req \<Rightarrow> \<lparr>ac_action = ''delegate-capability'', ac_resource = Some (dq_holderDid req),
          ac_summary = ''Delegate an attenuated slice of family authority to '' @ dq_holderDid req\<rparr>
      | Job_revoke_hop d \<Rightarrow> \<lparr>ac_action = ''revoke-hop'', ac_resource = Some d,
          ac_summary = ''Revoke a hop this Emissary delegated ('' @ take 24 d @ ellipsis @ '')''\<rparr>)"

text \<open>A message that Keymaster takes is sent; a report that fails is forgotten.\<close>

definition post :: "emissary_env \<Rightarrow> emissary_message \<Rightarrow> emissary_state \<Rightarrow> emissary_state" where
  "post env m st = (if ee_send env m then st\<lparr>em_sent := em_sent st @ [m]\<rparr> else st)"

definition emit_event :: "emissary_event \<Rightarrow> emissary_state \<Rightarrow> emissary_state" where
  "emit_event ev st = st\<lparr>em_emitted := em_emitted st @ [ev]\<rparr>"

definition perform_delegate :: "emissary_env \<Rightarrow> did \<Rightarrow> delegate_request \<Rightarrow> emissary_state \<Rightarrow> job_outcome \<times> emissary_state" where
  "perform_delegate env sovereign req st =
     (case delegateHeldOnward env req st of
        (Inl e, st1) \<Rightarrow> (Delegate_rejected e, st1)
      | (Inr (g, h), st1) \<Rightarrow>
          (let st2 = st1\<lparr>em_issued := put_issued h (em_issued st1)\<rparr>;
               m = Send_chain_grant (dq_holderDid req) g in
           if \<not> ee_send env m then (Write_rejected, st2)
           else
             (let report = Send_watch sovereign (W_hop_registered (ih_childVcDid h)
                    (or_default [] (cap_parentCapability (ch_capability (cg_handle g)))) (dq_holderDid req) (iv_counter (ch_issued (cg_handle g))))
              in (Write_delegated (ih_childVcDid h) (dq_holderDid req) (ih_statusListIndex h),
                  emit_event (Delegated_hop_event (ih_childVcDid h) (dq_holderDid req)) (post env report (post env m st2))))))"

definition perform_revoke :: "emissary_env \<Rightarrow> did \<Rightarrow> did \<Rightarrow> emissary_state \<Rightarrow> job_outcome \<times> emissary_state" where
  "perform_revoke env sovereign d st =
     (case get_issued d (em_issued st) of
        None \<Rightarrow> (Not_issued_here, st)
      | Some h \<Rightarrow>
          (case revokeStatusIndex (ee_gz env) (ee_gunz env) (ee_status env) (ih_statusListCredential h)
              (em_lists st (ih_statusListCredential h)) (ih_statusListIndex h) of
             Inl _ \<Rightarrow> (Write_rejected, st)
           | Inr (vs, _) \<Rightarrow> (Write_revoked d, post env (Send_watch sovereign (W_hop_revoked d))
               (st\<lparr>em_lists := (em_lists st)(ih_statusListCredential h := vs)\<rparr>))))"

definition write_step :: "emissary_env \<Rightarrow> write_job \<Rightarrow> emissary_state \<Rightarrow> job_outcome \<times> emissary_state" where
  "write_step env job st =
     (if \<not> truthy_string (ee_sovereignDid env) then (No_sovereign, st)
      else let sovereign = the (ee_sovereignDid env) in
        if \<not> ee_approval env sovereign (write_action job) then (Declined_by_sovereign, st)
        else case job of
          Job_delegate req \<Rightarrow> perform_delegate env sovereign req st
        | Job_revoke_hop d \<Rightarrow> perform_revoke env sovereign d st)"

section \<open>The mailbox\<close>

text \<open>A message without a body or a type, a chain grant that may lack its leaf, a proof request, a receipt, and
  anything else with its type and the reason it may carry.\<close>

datatype inbound_body =
    I_poison
  | I_chain_grant "chain_grant option"
  | I_proof_request did "did option"
  | I_submission_receipt bool "int option" string
  | I_other string "string option"

record inbound =
  in_id :: "string option"
  in_from :: did
  in_thid :: "string option"
  in_body :: inbound_body

text \<open>The match of \<open>/declin/i\<close>.\<close>

definition ascii_lower :: "char \<Rightarrow> char" where
  "ascii_lower c = (if 65 \<le> (of_char c :: nat) \<and> (of_char c :: nat) \<le> 90 then char_of ((of_char c :: nat) + 32) else c)"

definition declines :: "signet_reply \<Rightarrow> bool" where
  "declines r = (case r of Y_error reason \<Rightarrow> sublist ''declin'' (map ascii_lower reason) | _ \<Rightarrow> False)"

definition projection_of :: "emissary_env \<Rightarrow> inbound \<Rightarrow> signet_reply \<Rightarrow> projection_record" where
  "projection_of env m r = \<lparr>pj_id = or_default (ee_newId env) (in_thid m), pj_requester = in_from m,
     pj_outcome = (case r of Y_presentation _ _ \<Rightarrow> Relayed | _ \<Rightarrow> if declines r then Declined else Project_error),
     pj_humanProof = (case r of Y_presentation _ _ \<Rightarrow> Some True | _ \<Rightarrow> None)\<rparr>"

definition receipt_of :: "emissary_env \<Rightarrow> string \<Rightarrow> string \<Rightarrow> inbound_body \<Rightarrow> receipt_record" where
  "receipt_of env i kind b =
     (case b of
        I_submission_receipt queued assigned storedAt \<Rightarrow>
          \<lparr>rr_id = i, rr_kind = kind, rr_status = (if queued then ''queued'' else ''stored''),
           rr_sensitivityName = map_option sensitivityName assigned, rr_at = storedAt\<rparr>
      | I_other ty reason \<Rightarrow> \<lparr>rr_id = i, rr_kind = kind, rr_status = ''refused: '' @ or_default ty reason,
           rr_sensitivityName = None, rr_at = ee_now env\<rparr>
      | _ \<Rightarrow> \<lparr>rr_id = i, rr_kind = kind, rr_status = ''refused: hearthold/proof-request'', rr_sensitivityName = None, rr_at = ee_now env\<rparr>)"

text \<open>The reply to a relayed request, an error when the Sovereign cannot be reached.\<close>

definition relay_reply :: "emissary_env \<Rightarrow> did \<Rightarrow> did \<Rightarrow> did option \<Rightarrow> signet_reply" where
  "relay_reply env sovereign c schema =
     (case ee_relay env sovereign c schema of None \<Rightarrow> Y_error ''Emissary could not reach the Sovereign'' | Some r \<Rightarrow> r)"

definition handle_reply :: "emissary_env \<Rightarrow> inbound \<Rightarrow> emissary_state \<Rightarrow> emissary_state" where
  "handle_reply env m st =
     (case in_thid m of
        None \<Rightarrow> st
      | Some t \<Rightarrow>
          (case map_of (em_pending st) t of
             None \<Rightarrow> st
           | Some kind \<Rightarrow>
               if t = [] then st
               else let r = receipt_of env t kind (in_body m) in
                 emit_event (Receipt_event r) (st\<lparr>em_pending := filter (\<lambda>(k, _). k \<noteq> t) (em_pending st), em_receipts := em_receipts st @ [r]\<rparr>)))"

text \<open>One message: whether it is to be acknowledged, and the state.\<close>

definition handle_inbound :: "emissary_env \<Rightarrow> inbound \<Rightarrow> emissary_state \<Rightarrow> bool \<times> emissary_state" where
  "handle_inbound env m st =
     (case in_body m of
        I_poison \<Rightarrow> (True, st)
      | I_chain_grant g \<Rightarrow>
          (case g of
             None \<Rightarrow> (True, st)
           | Some g \<Rightarrow>
               if grant_leaf g = [] then (True, st)
               else if \<not> ee_put env then (False, st)
               else (True, emit_event (Chain_grant_event (grant_leaf g) (iv_counter (ch_issued (cg_handle g))) (in_from m))
                 (st\<lparr>em_held := put_held g (em_held st)\<rparr>)))
      | I_proof_request c schema \<Rightarrow>
          if truthy_string (ee_sovereignDid env) then
            (let r = relay_reply env (the (ee_sovereignDid env)) c schema; pj = projection_of env m r;
                 st1 = (if in_from m \<noteq> [] \<and> truthy_string (in_thid m) then post env (Send_reply (in_from m) (the (in_thid m)) r) st else st)
             in (True, emit_event (Projection_event pj) (st1\<lparr>em_projections := em_projections st1 @ [pj]\<rparr>)))
          else (True, handle_reply env m st)
      | _ \<Rightarrow> (True, handle_reply env m st))"

text \<open>A pass over what the relay delivers: the state and what stays on the relay. Each message meets its own environment;
  \<open>acked\<close> tells whether the acknowledgement of the pass reaches the relay. A message without an identifier is never
  acknowledged.\<close>

fun drain :: "(emissary_env \<times> inbound) list \<Rightarrow> emissary_state \<Rightarrow> emissary_state \<times> inbound list" where
  "drain [] st = (st, [])"
| "drain ((env, m) # ms) st =
     (case handle_inbound env m st of
        (ok, st1) \<Rightarrow> case drain ms st1 of
          (st2, kept) \<Rightarrow> (st2, (if ok \<and> truthy_string (in_id m) then kept else m # kept)))"

definition receive_pass :: "bool \<Rightarrow> (emissary_env \<times> inbound) list \<Rightarrow> emissary_state \<Rightarrow> emissary_state \<times> inbound list" where
  "receive_pass acked ms st = (case drain ms st of (st', kept) \<Rightarrow> (st', if acked then kept else map snd ms))"


section \<open>A chain that was handed on\<close>

text \<open>The hop that \<open>delegateOnward\<close> minted, as it is published.\<close>

definition spec_of_capability :: "capability \<Rightarrow> capability_spec" where
  "spec_of_capability cap = \<lparr>sp_invocationTarget = cap_invocationTarget cap, sp_authority = cap_authority cap, sp_caveats = cap_caveats cap\<rparr>"

definition child_args :: "emissary_env \<Rightarrow> chain_grant \<Rightarrow> chain_grant \<Rightarrow> caveats issue_args" where
  "child_args env parent g = capability_issue_args (ee_coll env) (ee_name env) (cap_controller (ch_capability (cg_handle g)))
     (spec_of_capability (ch_capability (cg_handle g))) (Some (ch_issued (cg_handle parent)))"

definition minted_child :: "emissary_env \<Rightarrow> chain_grant \<Rightarrow> chain_grant \<Rightarrow> caveats minted" where
  "minted_child env parent g = \<lparr>mi_env = ee_issueEnv env, mi_args = child_args env parent g, mi_vc = ch_issued (cg_handle g),
     mi_pic = issue_pic (ee_issueEnv env) (child_args env parent g) (iv_authorityCommitment (ch_issued (cg_handle g)))\<rparr>"

text \<open>\<open>ms\<close>, from the leaf to the root, is the chain of a grant, each hop minted honestly by the holder of the one before and
  disclosed as it was minted.\<close>

definition held_chain :: "hash \<Rightarrow> (string \<Rightarrow> string) \<Rightarrow> archon \<Rightarrow> capability_verify_options \<Rightarrow> chain_grant \<Rightarrow> caveats minted list \<Rightarrow> bool" where
  "held_chain H coll A opts g ms \<longleftrightarrow> ms \<noteq> [] \<and> mi_vc (hd ms) = ch_issued (cg_handle g) \<and> co_disclosed opts = Some (disclosedFor g) \<and>
     (\<forall>m\<in>set ms. honest H caveats_json A (chain_options opts) m) \<and> adjacent (delegated_from A (chain_options opts)) ms \<and>
     ia_parent (mi_args (last ms)) = None \<and> co_expectedRootIssuer opts = Some (ie_issuerDid (mi_env (last ms))) \<and>
     iv_holder (ch_issued (cg_handle g)) = cap_controller (ch_capability (cg_handle g)) \<and>
     iv_caveats (ch_issued (cg_handle g)) = Some (normalizeCaveats coll (cap_caveats (ch_capability (cg_handle g))))"

text \<open>What the node serves of the new hop and of the one that it pins, and that the signature on it and its status are good.\<close>

definition serves_child :: "archon \<Rightarrow> capability_verify_options \<Rightarrow> emissary_env \<Rightarrow> chain_grant \<Rightarrow> caveats minted \<Rightarrow> chain_grant \<Rightarrow> bool" where
  "serves_child A opts env parent m g \<longleftrightarrow>
     (let a = issue_assertion (ee_issueEnv env) (child_args env parent g) (iv_authorityCommitment (ch_issued (cg_handle g))) in
      resolveDID A (grant_leaf g) None = Some (published (minted_child env parent g)) \<and>
      resolveDID A (grant_leaf parent) (Some (ie_versionSequence (mi_env m))) = Some (published m) \<and>
      archon.verifyProof A a \<and> signerOf a = ie_issuerDid (ee_issueEnv env) \<and> ie_issuerDid (ee_issueEnv env) \<noteq> [] \<and>
      status_ok (chain_options opts) (iv_caveats (ch_issued (cg_handle g))) (ie_issuerDid (ee_issueEnv env)))"

lemma delegateOnward_Inr:
  assumes "delegateOnward env parent holder child st = (Inr (g, h), st')"
  shows "\<exists>s hd pic. emissary_status env st = (Some s, st') \<and>
    delegateCapability (ee_hash env) (ee_coll env) (ee_issueEnv env) (ee_name env) (cg_handle parent) holder (with_status child s) = Inr (hd, pic) \<and>
    g = \<lparr>cg_handle = hd, cg_ancestorDisclosures = disclosedFor parent\<rparr> \<and>
    h = \<lparr>ih_childVcDid = grant_leaf g, ih_holder = holder, ih_statusListCredential = cs_statusListCredential s,
         ih_statusListIndex = cs_statusListIndex s, ih_issuedAt = ee_now env\<rparr>"
  using assms by (auto simp: delegateOnward_def grant_leaf_def split: prod.splits option.splits sum.splits)

lemma delegateCapability_Inr:
  assumes "delegateCapability H coll env n parent holder child = Inr (h, pic)"
  shows "issueVc H caveats_json env (capability_issue_args coll n holder child (Some (ch_issued parent))) = Inr (ch_issued h, pic)"
    and "ie_issuerDid env = cap_controller (ch_capability parent)"
    and "capabilityNarrows (child_capability parent holder child) (ch_capability parent)"
    and "ch_capability h = (child_capability parent holder child)\<lparr>cap_id := iv_vcDid (ch_issued h)\<rparr>"
  using assms by (auto simp: delegateCapability_def split: if_splits sum.splits)

lemma honest_other_disclosure:
  assumes "honest H cj A opts m" "vo_disclosed opts' (iv_vcDid (mi_vc m)) = vo_disclosed opts (iv_vcDid (mi_vc m))"
    and "vo_checkHopStatus opts' = vo_checkHopStatus opts" "vo_requireStatus opts' = vo_requireStatus opts"
  shows "honest H cj A opts' m"
proof -
  have "status_ok opts' = status_ok opts" by (intro ext) (simp add: status_ok_def assms(3,4) split: option.split)
  then show ?thesis using assms(1,2) by (simp add: honest_def)
qed

text \<open>The spec that was minted for a hop, and what a successful delegation from a held grant leaves.\<close>

definition handed_spec :: "chain_grant \<Rightarrow> delegate_request \<Rightarrow> issued_hop \<Rightarrow> capability_spec" where
  "handed_spec parent req h = with_status (child_spec parent req)
     \<lparr>cs_statusListCredential = ih_statusListCredential h, cs_statusListIndex = ih_statusListIndex h\<rparr>"

lemma held_delegation:
  assumes "delegateHeldOnward env req st = (Inr (g, h), st')" "select_held (dq_leafVcDid req) (em_held st) = Some parent"
  shows "\<exists>pic. issueVc (ee_hash env) caveats_json (ee_issueEnv env) (child_args env parent g) = Inr (ch_issued (cg_handle g), pic)"
    and "ie_issuerDid (ee_issueEnv env) = cap_controller (ch_capability (cg_handle parent))"
    and "iv_caveats (ch_issued (cg_handle g)) = Some (normalizeCaveats (ee_coll env) (sp_caveats (handed_spec parent req h)))"
    and "iv_holder (ch_issued (cg_handle g)) = dq_holderDid req"
    and "caveatsNarrow (sp_caveats (handed_spec parent req h)) (cap_caveats (ch_capability (cg_handle parent)))"
    and "disclosedFor g = (disclosedFor parent)(grant_leaf g \<mapsto> payload_of (ch_issued (cg_handle g)))"
proof -
  have on: "delegateOnward env parent (dq_holderDid req) (child_spec parent req) st = (Inr (g, h), st')"
    using assms by (simp add: delegateHeldOnward_def)
  obtain s hdl pic where d: "delegateCapability (ee_hash env) (ee_coll env) (ee_issueEnv env) (ee_name env) (cg_handle parent)
      (dq_holderDid req) (with_status (child_spec parent req) s) = Inr (hdl, pic)"
    "g = \<lparr>cg_handle = hdl, cg_ancestorDisclosures = disclosedFor parent\<rparr>"
    "h = \<lparr>ih_childVcDid = grant_leaf g, ih_holder = dq_holderDid req, ih_statusListCredential = cs_statusListCredential s,
         ih_statusListIndex = cs_statusListIndex s, ih_issuedAt = ee_now env\<rparr>"
    using delegateOnward_Inr [OF on] by blast
  have spec: "with_status (child_spec parent req) s = handed_spec parent req h" by (cases s) (simp add: handed_spec_def d(3))
  note m = delegateCapability_Inr [OF d(1) [unfolded spec]]
  have cap: "ch_capability (cg_handle g) = (child_capability (cg_handle parent) (dq_holderDid req) (handed_spec parent req h))\<lparr>cap_id := grant_leaf g\<rparr>"
    using m(4) d(2) by (simp add: grant_leaf_def)
  have args: "child_args env parent g = capability_issue_args (ee_coll env) (ee_name env) (dq_holderDid req) (handed_spec parent req h) (Some (ch_issued (cg_handle parent)))"
    by (simp add: child_args_def cap child_capability_def spec_of_capability_def capability_issue_args_def)
  have iss: "issueVc (ee_hash env) caveats_json (ee_issueEnv env) (child_args env parent g) = Inr (ch_issued (cg_handle g), pic)"
    using m(1) args d(2) by simp
  then show "\<exists>pic. issueVc (ee_hash env) caveats_json (ee_issueEnv env) (child_args env parent g) = Inr (ch_issued (cg_handle g), pic)" by blast
  show "ie_issuerDid (ee_issueEnv env) = cap_controller (ch_capability (cg_handle parent))" by (rule m(2))
  note iv = issueVc_Inr [OF iss]
  show "iv_caveats (ch_issued (cg_handle g)) = Some (normalizeCaveats (ee_coll env) (sp_caveats (handed_spec parent req h)))"
    using iv(7) by (simp add: args capability_issue_args_def)
  show "iv_holder (ch_issued (cg_handle g)) = dq_holderDid req" using iv(6) by (simp add: args capability_issue_args_def)
  show "caveatsNarrow (sp_caveats (handed_spec parent req h)) (cap_caveats (ch_capability (cg_handle parent)))"
    using m(3) by (auto simp: capabilityNarrows_def child_capability_def split: if_splits)
  show "disclosedFor g = (disclosedFor parent)(grant_leaf g \<mapsto> payload_of (ch_issued (cg_handle g)))"
    by (subst disclosedFor_def) (simp add: d(2) discloseChain_def grant_leaf_def)
qed

text \<open>The chain options under which the delegate presents a grant.\<close>

definition presenting :: "chain_grant \<Rightarrow> capability_verify_options \<Rightarrow> capability_verify_options" where
  "presenting g opts = opts\<lparr>co_disclosed := Some (disclosedFor g)\<rparr>"

lemma chain_options_presenting:
  "vo_disclosed (chain_options (presenting g opts)) = disclosedFor g"
  "vo_maxHops (chain_options (presenting g opts)) = vo_maxHops (chain_options opts)"
  "co_expectedRootIssuer (presenting g opts) = co_expectedRootIssuer opts"
  "status_ok (chain_options (presenting g opts)) = status_ok (chain_options opts)"
  "delegated_from A (chain_options (presenting g opts)) = delegated_from A (chain_options opts)"
  by (auto simp: presenting_def chain_options_def status_ok_def delegated_from_def fun_eq_iff split: option.split)

lemma child_args_plain:
  "ia_forgeAssertionWith (child_args env parent g) = None" "ia_overrideCounter (child_args env parent g) = None"
  "ia_overrideParentCommitment (child_args env parent g) = None" "ia_overrideLineageId (child_args env parent g) = None"
  "ia_overridePrev (child_args env parent g) = None" "\<not> ia_skipSubsetGuard (child_args env parent g)"
  "ia_parent (child_args env parent g) = Some (ch_issued (cg_handle parent))"
  by (simp_all add: child_args_def capability_issue_args_def)

lemma handed_on_honest:
  assumes "issueVc (ee_hash env) caveats_json (ee_issueEnv env) (child_args env parent g) = Inr (ch_issued (cg_handle g), pic)"
    and "serves_child A opts env parent m g" "disclosedFor g (grant_leaf g) = Some (payload_of (ch_issued (cg_handle g)))"
  shows "honest (ee_hash env) caveats_json A (chain_options (presenting g opts)) (minted_child env parent g)"
  using assms issueVc_Inr(2) [OF assms(1)] child_args_plain [of env parent g]
  by (simp add: honest_def minted_child_def issue_pic_def payload_of_def serves_child_def Let_def chain_options_presenting grant_leaf_def)

lemma handed_on_rest_honest:
  assumes "held_chain H coll A opts parent ms" "m \<in> set ms" "iv_vcDid (mi_vc m) \<noteq> grant_leaf g"
    and "disclosedFor g = (disclosedFor parent)(grant_leaf g \<mapsto> p)"
  shows "honest H caveats_json A (chain_options (presenting g opts)) m"
proof -
  have "honest H caveats_json A (chain_options opts) m" "co_disclosed opts = Some (disclosedFor parent)" using assms(1,2) by (auto simp: held_chain_def)
  then show ?thesis using assms(3,4) by (simp add: honest_def chain_options_presenting) (simp add: chain_options_def)
qed

lemma handed_on_link:
  assumes "held_chain H (ee_coll env) A opts parent ms" "serves_child A opts env parent (hd ms) g"
    and "ie_issuerDid (ee_issueEnv env) = cap_controller (ch_capability (cg_handle parent))"
    and "iv_caveats (ch_issued (cg_handle g)) = Some c" "caveatsNarrow c (normalizeCaveats (ee_coll env) (cap_caveats (ch_capability (cg_handle parent))))"
  shows "adjacent (delegated_from A (chain_options (presenting g opts))) (minted_child env parent g # ms)"
proof -
  have "delegated_from A (chain_options (presenting g opts)) (minted_child env parent g) (hd ms)"
    using assms child_args_plain(7) [of env parent g]
    by (simp add: held_chain_def serves_child_def Let_def chain_options_presenting delegated_from_def minted_child_def caveatNarrows_iff grant_leaf_def)
  then show ?thesis using assms(1) by (cases ms) (simp_all add: held_chain_def adjacent_Cons chain_options_presenting)
qed

text \<open>
  C10. What an Emissary hands on, the Warden accepts: if an Emissary delegates from a held grant whose chain was minted
  honestly, to whom it likes and with any ceiling, kinds and target that the capability layer lets it mint, but for the
  empty set of kinds, and the node serves what was published, then the chain, disclosed with the package that is sent to the
  delegate, is accepted one hop longer, in the delegate's name, with caveats that narrow the parent's and carry the
  revocation pointer that the Emissary keeps.\<close>

theorem handed_on_chain_accepted:
  assumes "delegateHeldOnward env req st = (Inr (g, h), st')" "select_held (dq_leafVcDid req) (em_held st) = Some parent"
    and "held_chain (ee_hash env) (ee_coll env) A opts parent ms" "serves_child A opts env parent (hd ms) g"
    and "length ms < (case co_maxHops opts of Some n \<Rightarrow> n | None \<Rightarrow> 64)" "grant_leaf g \<notin> (\<lambda>m. iv_vcDid (mi_vc m)) ` set ms"
    and "cv_kinds (sp_caveats (child_spec parent req)) \<noteq> Some []"
  shows "\<exists>au c. verifyCapabilityChain (ee_hash env) A (presenting g opts) (grant_leaf g) =
      Accepted (Suc (length ms)) (dq_holderDid req) au (Some c) \<and>
    caveatsNarrow c (normalizeCaveats (ee_coll env) (cap_caveats (ch_capability (cg_handle parent)))) \<and>
    cv_status c = Some \<lparr>cs_statusListCredential = ih_statusListCredential h, cs_statusListIndex = ih_statusListIndex h\<rparr>"
proof -
  let ?c = "minted_child env parent g" and ?vo = "chain_options (presenting g opts)" and ?spec = "sp_caveats (handed_spec parent req h)"
  note d = held_delegation [OF assms(1,2)]
  obtain pic where iss: "issueVc (ee_hash env) caveats_json (ee_issueEnv env) (child_args env parent g) = Inr (ch_issued (cg_handle g), pic)"
    using d(1) by blast
  have norm: "caveatsNarrow (normalizeCaveats (ee_coll env) ?spec) (normalizeCaveats (ee_coll env) (cap_caveats (ch_capability (cg_handle parent))))"
    using assms(7) by (intro normalizeCaveats_narrow [OF d(5)]) (simp add: handed_spec_def with_status_def)
  have ms: "ms \<noteq> []" "ia_parent (mi_args (last ms)) = None" "co_expectedRootIssuer opts = Some (ie_issuerDid (mi_env (last ms)))"
    using assms(3) by (auto simp: held_chain_def)
  have old: "honest (ee_hash env) caveats_json A ?vo m" if "m \<in> set ms" for m
    using imageI [OF that, of "\<lambda>m. iv_vcDid (mi_vc m)"] assms(6) by (intro handed_on_rest_honest [OF assms(3) that _ d(6)]) auto
  have "verifyAttenuationChain (ee_hash env) caveats_json A ?vo (iv_vcDid (mi_vc (hd (?c # ms)))) =
      Accepted (length (?c # ms)) (iv_holder (mi_vc (hd (?c # ms)))) (Some (iv_authoritySet (mi_vc (hd (?c # ms))))) (iv_caveats (mi_vc (hd (?c # ms))))"
  proof (rule honest_chain_accepted)
    show "length (?c # ms) \<le> vo_maxHops ?vo" using assms(5) by (simp add: presenting_def chain_options_def split: option.splits)
    show "\<forall>m\<in>set (?c # ms). honest (ee_hash env) caveats_json A ?vo m"
      using handed_on_honest [OF iss assms(4)] old by (simp add: d(6))
    show "resolveDID A (iv_vcDid (mi_vc (hd (?c # ms)))) None = Some (published (hd (?c # ms)))"
      using assms(4) by (simp add: serves_child_def Let_def minted_child_def grant_leaf_def)
  qed (use ms handed_on_link [OF assms(3,4) d(2,3) norm] in \<open>simp_all add: chain_options_presenting\<close>)
  then show ?thesis using norm d(3,4)
    by (simp add: verifyCapabilityChain_def minted_child_def grant_leaf_def handed_spec_def with_status_def normalizeCaveats_def)
qed


text \<open>
  A chain that is presented is recognised: if the Warden accepts the chain that the Emissary discloses, the Emissary signs
  as the holder of its leaf over the fresh challenge and the transaction, and the leaf allows proving within the target, then the
  monitor resolves the invocation to the leaf, its holder, its authority and its caveats.\<close>

theorem presented_chain_resolved:
  assumes "chainInvokeEvidence prove c g spec nonce txn = Some msg"
    and "verifyCapabilityChain H (me_archon env) (monitor_chain_options env ctx (disclosedFor g)) (grant_leaf g) = Accepted k holder (Some au) (Some cav)"
    and "holder \<noteq> []" "cv_ceiling cav \<noteq> None" "mc_expectedRootIssuer ctx \<noteq> []" "\<not> sender_mismatch ctx holder"
    and "\<And>u m. prove u = Some m \<Longrightarrow> before_hash m = holder \<and> me_verifyHolderProof env (u\<lparr>hp_proof := Some m\<rparr>)"
    and "ask_gate ctx c gs = (True, gs')" "''prove'' \<in> set (operations au)" "target_ok (in_act msg) au"
  shows "resolveChainInvocation H env ctx msg gs =
    (Resolved \<lparr>vl_id = grant_leaf g, vl_holder = holder, vl_authority = au, vl_caveats = cav\<rparr>, gs')"
proof -
  let ?body = "\<lparr>hp_challenge = c, hp_leafVcDid = grant_leaf g, hp_txn = txn, hp_proof = None\<rparr>"
  obtain m where m: "prove ?body = Some m" and msg: "in_chain msg = Some \<lparr>cn_leafVcDid = grant_leaf g, cn_disclosed = disclosedFor g,
      cn_holderProof = Some (?body\<lparr>hp_proof := Some m\<rparr>)\<rparr>" "in_act msg = prove_act spec nonce txn"
    using assms(1) by (auto simp: chainInvokeEvidence_def Let_def)
  have act: "check_act (in_act msg) au = None" using assms(9,10) msg(2) by (simp add: check_act_def prove_act_def)
  have "check_holder_proof env ctx msg (the (in_chain msg)) holder gs = (None, gs')"
    using assms(7) [OF m] assms(6,8) msg by (simp add: check_holder_proof_def prove_act_def)
  then show ?thesis using assms(2-5) act by (simp add: resolveChainInvocation_def msg(1))
qed

section \<open>The loop\<close>

datatype loop_step =
    Pass bool "nat \<Rightarrow> emissary_env" "inbound list"
  | Write emissary_env write_job

text \<open>A pass takes what was left on the relay and what arrived since.\<close>

fun loop_run :: "loop_step list \<Rightarrow> inbound list \<Rightarrow> emissary_state \<Rightarrow> inbound list \<times> emissary_state" where
  "loop_run [] relay st = (relay, st)"
| "loop_run (Pass acked env arrived # ss) relay st =
     (let q = relay @ arrived; r = receive_pass acked (map (\<lambda>i. (env i, q ! i)) [0..<length q]) st in loop_run ss (snd r) (fst r))"
| "loop_run (Write env job # ss) relay st = loop_run ss relay (snd (write_step env job st))"

definition arrivals :: "loop_step list \<Rightarrow> inbound list" where
  "arrivals ss = concat (map (\<lambda>s. case s of Pass _ _ ms \<Rightarrow> ms | Write _ _ \<Rightarrow> []) ss)"

text \<open>The leaf of a chain grant that a message carries is held.\<close>

definition grant_held :: "inbound \<Rightarrow> emissary_state \<Rightarrow> bool" where
  "grant_held m st \<longleftrightarrow> (case in_body m of I_chain_grant (Some g) \<Rightarrow> grant_leaf g \<noteq> [] \<longrightarrow> grant_leaf g \<in> grant_leaf ` set (em_held st) | _ \<Rightarrow> True)"

definition keeps_leaves :: "emissary_state \<Rightarrow> emissary_state \<Rightarrow> bool" where
  "keeps_leaves st st' \<longleftrightarrow> grant_leaf ` set (em_held st) \<subseteq> grant_leaf ` set (em_held st')"

lemma keeps_leaves_trans [trans]: "keeps_leaves a b \<Longrightarrow> keeps_leaves b c \<Longrightarrow> keeps_leaves a c"
  by (auto simp: keeps_leaves_def)

lemma keeps_grant: "keeps_leaves a b \<Longrightarrow> grant_held m a \<Longrightarrow> grant_held m b"
  by (auto simp: grant_held_def keeps_leaves_def split: inbound_body.splits option.splits)

lemma put_held_leaves: "grant_leaf ` set (put_held g all) = insert (grant_leaf g) (grant_leaf ` set all)"
  by (auto simp: put_held_def)

lemma held_simps [simp]:
  "em_held (post env msg st) = em_held st" "em_held (emit_event ev st) = em_held st" "em_held (handle_reply env m st) = em_held st"
  by (auto simp: post_def emit_event_def handle_reply_def Let_def split: option.split)

lemma delegate_held [simp]: "em_held (snd (delegateHeldOnward env req st)) = em_held st"
  by (auto simp: delegateHeldOnward_def delegateOnward_def emissary_status_def split: option.split prod.split sum.split)

lemma write_held [simp]: "em_held (snd (write_step env job st)) = em_held st"
proof -
  have "em_held st1 = em_held st" if "delegateHeldOnward env req st = (r, st1)" for req r st1
    using delegate_held [of env req st] that by simp
  then have "em_held (snd (perform_delegate env sov req st)) = em_held st" for sov req
    by (auto simp: perform_delegate_def Let_def split: prod.split sum.split)
  moreover have "em_held (snd (perform_revoke env sov d st)) = em_held st" for sov d
    by (auto simp: perform_revoke_def split: option.split sum.split)
  ultimately show ?thesis by (auto simp: write_step_def Let_def split: write_job.split)
qed

lemma handle_inbound_leaves:
  assumes "handle_inbound env m st = (ok, st')" shows "keeps_leaves st st' \<and> (ok \<longrightarrow> grant_held m st')"
  using assms by (auto simp: handle_inbound_def keeps_leaves_def grant_held_def put_held_leaves Let_def split: inbound_body.splits option.splits if_splits)

lemma drain_leaves:
  assumes "drain ms st = (st', kept)"
  shows "keeps_leaves st st' \<and> (\<forall>m\<in>snd ` set ms. m \<in> set kept \<or> grant_held m st')"
  using assms
proof (induction ms arbitrary: st kept)
  case (Cons e ms)
  obtain env m where e: "e = (env, m)" by (cases e)
  obtain ok st1 where 1: "handle_inbound env m st = (ok, st1)" by force
  obtain st2 kept2 where 2: "drain ms st1 = (st2, kept2)" by force
  have st': "st' = st2" "kept = (if ok \<and> truthy_string (in_id m) then kept2 else m # kept2)"
    using Cons.prems 1 2 by (auto simp: e)
  have rest: "keeps_leaves st1 st'" "\<forall>m\<in>snd ` set ms. m \<in> set kept2 \<or> grant_held m st'" using Cons.IH [of st1 kept2] 2 st'(1) by auto
  have one: "keeps_leaves st st1" "ok \<longrightarrow> grant_held m st1" using handle_inbound_leaves [OF 1] by auto
  have "m \<in> set kept \<or> grant_held m st'" using one(2) keeps_grant [OF rest(1)] st'(2) by auto
  moreover have "\<forall>m\<in>snd ` set ms. m \<in> set kept \<or> grant_held m st'" using rest(2) st'(2) by auto
  ultimately show ?case using keeps_leaves_trans [OF one(1) rest(1)] by (simp add: e)
qed (auto simp: keeps_leaves_def)

lemma receive_pass_leaves:
  assumes "receive_pass acked ms st = (st', kept)"
  shows "keeps_leaves st st' \<and> (\<forall>m\<in>snd ` set ms. m \<in> set kept \<or> grant_held m st')"
proof -
  obtain s k where d: "drain ms st = (s, k)" by force
  then have "s = st'" "kept = (if acked then k else map snd ms)" using assms by (auto simp: receive_pass_def)
  then show ?thesis using drain_leaves [OF d] by (cases acked) auto
qed


end
