(* ===== verification/Emissary_Daemon.thy ===== *)
theory Emissary_Daemon
  imports Emissary
begin

text \<open>
  The other work of the Emissary's control daemon (\<open>packages/emissary/src/control.ts\<close>): its delegation challenge and submissions,
  the invocations it runs for an app, its views; and what its co-signed writes and its store of held chains guarantee and do not.
\<close>

section \<open>The delegation challenge\<close>

record daemon =
  dm_state :: emissary_state
  dm_challenge :: "string option"
  dm_challengeExp :: int
  dm_accepted :: "did list"
  dm_submitted :: "(string \<times> submission) list"

datatype challenge_reply = Challenge_response string "did list" | Other_reply

definition refreshDelegationChallenge :: "did option \<Rightarrow> challenge_reply option \<Rightarrow> int \<Rightarrow> daemon \<Rightarrow> daemon" where
  "refreshDelegationChallenge wardenDid reply now dm =
     (if \<not> truthy_string wardenDid then dm
      else case reply of
        Some (Challenge_response c cids) \<Rightarrow>
          dm\<lparr>dm_accepted := dm_accepted dm @ cids, dm_challenge := Some c, dm_challengeExp := now + 9 * 60000\<rparr>
      | _ \<Rightarrow> dm)"

text \<open>The first statement of the loop.\<close>

definition keep_challenge :: "did option \<Rightarrow> challenge_reply option \<Rightarrow> int \<Rightarrow> daemon \<Rightarrow> daemon" where
  "keep_challenge wardenDid reply now dm =
     (if truthy_string wardenDid \<and> now > dm_challengeExp dm - 60000 then refreshDelegationChallenge wardenDid reply now dm else dm)"

section \<open>Submitting\<close>

record submit_request =
  sq_kind :: string
  sq_text :: "string option"
  sq_attachment :: "(string \<times> string) option"

datatype submit_payload = Asset_payload did string | Text_payload string

datatype submit_error =
    Kind_required
  | Warden_unset
  | Attachment_incomplete
  | Attachment_empty
  | Attachment_too_large nat
  | Image_failed
  | Text_required
  | Seal_failed
  | No_challenge_yet
  | Proof_failed
  | Not_sent

record submit_ops =
  so_base64 :: "string \<Rightarrow> string"
  so_createImage :: "string \<Rightarrow> did option"
  so_sealForWarden :: "did \<Rightarrow> submit_payload \<Rightarrow> string option"
  so_presentProof :: "string \<Rightarrow> string option"
  so_uuid :: string
  so_now :: string
  so_sends :: bool

definition MAX_BYTES :: nat where
  "MAX_BYTES = 8 * 1024 * 1024"

definition submit_payload_of :: "submit_ops \<Rightarrow> submit_request \<Rightarrow> submit_error + submit_payload" where
  "submit_payload_of ops req =
     (case sq_attachment req of
        Some (mediaType, bytesB64) \<Rightarrow>
          if mediaType = [] \<or> bytesB64 = [] then Inl Attachment_incomplete
          else let bytes = so_base64 ops bytesB64 in
            if length bytes = 0 then Inl Attachment_empty
            else if length bytes > MAX_BYTES then Inl (Attachment_too_large (length bytes))
            else (case so_createImage ops bytes of None \<Rightarrow> Inl Image_failed | Some d \<Rightarrow> Inr (Asset_payload d mediaType))
      | None \<Rightarrow> if truthy_string (sq_text req) then Inr (Text_payload (the (sq_text req))) else Inl Text_required)"

text \<open>\<open>Map.set\<close> of the pending requests; the entry is kept when the message cannot be sent.\<close>

definition put_request :: "string \<Rightarrow> string \<Rightarrow> (string \<times> string) list \<Rightarrow> (string \<times> string) list" where
  "put_request t kind ps = filter (\<lambda>(k, _). k \<noteq> t) ps @ [(t, kind)]"

definition submit_route :: "submit_ops \<Rightarrow> did option \<Rightarrow> submit_request \<Rightarrow> daemon \<Rightarrow> (submit_error + receipt_record) \<times> daemon" where
  "submit_route ops wardenDid req dm =
     (if sq_kind req = [] then (Inl Kind_required, dm)
      else if \<not> truthy_string wardenDid then (Inl Warden_unset, dm)
      else case submit_payload_of ops req of
        Inl e \<Rightarrow> (Inl e, dm)
      | Inr payload \<Rightarrow>
          (case so_sealForWarden ops (the wardenDid) payload of
             None \<Rightarrow> (Inl Seal_failed, dm)
           | Some ciphertext \<Rightarrow>
               if \<not> truthy_string (dm_challenge dm) then (Inl No_challenge_yet, dm)
               else (case so_presentProof ops (the (dm_challenge dm)) of
                  None \<Rightarrow> (Inl Proof_failed, dm)
                | Some proof \<Rightarrow>
                    (let sub = \<lparr>sb_kind = sq_kind req, sb_ciphertext = ciphertext, sb_observedAt = so_now ops, sb_delegationProof = Some proof\<rparr>;
                         st = (dm_state dm)\<lparr>em_pending := put_request (so_uuid ops) (sq_kind req) (em_pending (dm_state dm))\<rparr>
                     in if so_sends ops
                        then (Inr \<lparr>rr_id = so_uuid ops, rr_kind = sq_kind req, rr_status = ''submitted'', rr_sensitivityName = None, rr_at = so_now ops\<rparr>,
                          dm\<lparr>dm_state := st, dm_submitted := dm_submitted dm @ [(so_uuid ops, sub)]\<rparr>)
                        else (Inl Not_sent, dm\<lparr>dm_state := st\<rparr>)))))"

section \<open>Invoking for an app\<close>

text \<open>The reply of the Warden to an invocation, and what the app is told.\<close>

datatype invoke_reply =
    Reply_granted did did "string option"
  | Reply_denied "string option"
  | Reply_error string

datatype invoke_answer = Answer_granted did did "string option" | Answer_denied string

definition invoke_answer_of :: "invoke_reply \<Rightarrow> invoke_answer" where
  "invoke_answer_of r =
     (case r of
        Reply_granted c s g \<Rightarrow> Answer_granted c s g
      | Reply_denied reason \<Rightarrow> Answer_denied (or_default ''denied'' reason)
      | Reply_error reason \<Rightarrow> Answer_denied reason)"

definition granted_reply :: "invoke_reply \<Rightarrow> bool" where
  "granted_reply r = (case r of Reply_granted _ _ _ \<Rightarrow> True | _ \<Rightarrow> False)"

definition invocation_flow :: "emissary_env \<Rightarrow> did option \<Rightarrow> string \<Rightarrow> did option \<Rightarrow> string \<Rightarrow> invoke_reply \<Rightarrow> flow_event" where
  "invocation_flow env wardenDid kind governing witnessKind r =
     \<lparr>fl_from = ee_did env, fl_to = or_default [] wardenDid, fl_kind = kind, fl_governingCapabilityDid = governing,
      fl_witnessKind = Some witnessKind, fl_decision = Some (if granted_reply r then ''granted'' else ''denied''), fl_ts = ee_now env\<rparr>"

definition reportFlow :: "emissary_env \<Rightarrow> flow_event \<Rightarrow> emissary_state \<Rightarrow> emissary_state" where
  "reportFlow env f st = (if truthy_string (ee_sovereignDid env) then post env (Send_watch (the (ee_sovereignDid env)) (W_flow_event f)) st else st)"

text \<open>One job of either queue; \<open>run\<close> is the ceremony with the Warden, a rejection of which is an error reply.\<close>

definition invoke_job ::
  "emissary_env \<Rightarrow> did option \<Rightarrow> (invoke_spec \<Rightarrow> invoke_reply) \<Rightarrow> invoke_spec \<Rightarrow> emissary_state \<Rightarrow> invoke_answer \<times> emissary_state" where
  "invoke_job env wardenDid run spec st =
     (let r = run spec in (invoke_answer_of r, reportFlow env (invocation_flow env wardenDid ''invocation'' None (is_kind spec) r) st))"

definition chain_invoke_job ::
  "emissary_env \<Rightarrow> did option \<Rightarrow> (chain_grant \<Rightarrow> invoke_spec \<Rightarrow> invoke_reply) \<Rightarrow> did option \<Rightarrow> invoke_spec \<Rightarrow> emissary_state \<Rightarrow>
     invoke_answer \<times> emissary_state" where
  "chain_invoke_job env wardenDid run leaf spec st =
     (case select_held leaf (em_held st) of
        None \<Rightarrow> (Answer_denied ''this Emissary holds no chain capability to present'', st)
      | Some g \<Rightarrow>
          (let r = run g (spec\<lparr>is_target := None\<rparr>) in
           (invoke_answer_of r, reportFlow env (invocation_flow env wardenDid ''chain-invocation'' (Some (grant_leaf g)) (is_kind spec) r) st)))"

section \<open>Views\<close>

record held_view =
  hv_leafVcDid :: did
  hv_counter :: int
  hv_target :: string
  hv_ceiling :: "int option"

definition held_route :: "emissary_state \<Rightarrow> held_view list \<times> issued_hop list" where
  "held_route st = (map (\<lambda>g. \<lparr>hv_leafVcDid = grant_leaf g, hv_counter = iv_counter (ch_issued (cg_handle g)),
     hv_target = cap_invocationTarget (ch_capability (cg_handle g)), hv_ceiling = cv_ceiling (cap_caveats (ch_capability (cg_handle g)))\<rparr>) (em_held st),
     em_issued st)"

definition emissary_snapshot :: "emissary_state \<Rightarrow> receipt_record list \<times> projection_record list" where
  "emissary_snapshot st = (take 50 (rev (em_receipts st)), take 50 (rev (em_projections st)))"

section \<open>The file of the held chains\<close>

text \<open>\<open>writeFile\<close> truncates first: a crash within it leaves a text that does not parse.\<close>

datatype held_file = Grants "chain_grant list" | Torn

definition readGrants :: "held_file \<Rightarrow> chain_grant list" where
  "readGrants f = (case f of Grants gs \<Rightarrow> gs | Torn \<Rightarrow> [])"

definition put_file :: "bool \<Rightarrow> chain_grant \<Rightarrow> held_file \<Rightarrow> held_file" where
  "put_file crash g f = (if crash then Torn else Grants (put_held g (readGrants f)))"


section \<open>Submissions carry the delegation and are answered once\<close>

text \<open>
  C39. What leaves for the Warden is bounded, sealed and shown to be delegated: a submission that is sent carries a proof of the
  delegation over the challenge in hand, a ciphertext for the configured Warden and nothing else of the payload; an attachment
  is only a reference, to an image of between one byte and 8 MB; and its thread waits for the receipt.\<close>

theorem submission_bounded_and_delegated:
  assumes "submit_route ops wardenDid req dm = (Inr r, dm')"
  shows "\<exists>w c sub payload. wardenDid = Some w \<and> w \<noteq> [] \<and> dm_challenge dm = Some c \<and> c \<noteq> [] \<and>
    dm_submitted dm' = dm_submitted dm @ [(rr_id r, sub)] \<and> sb_delegationProof sub = so_presentProof ops c \<and> sb_delegationProof sub \<noteq> None \<and>
    Some (sb_ciphertext sub) = so_sealForWarden ops w payload \<and> sb_kind sub \<noteq> [] \<and>
    (rr_id r, sb_kind sub) \<in> set (em_pending (dm_state dm')) \<and>
    (case sq_attachment req of
       None \<Rightarrow> Some payload = map_option Text_payload (sq_text req)
     | Some (mediaType, b64) \<Rightarrow> 1 \<le> length (so_base64 ops b64) \<and> length (so_base64 ops b64) \<le> 8388608 \<and>
         Some payload = map_option (\<lambda>d. Asset_payload d mediaType) (so_createImage ops (so_base64 ops b64)))"
proof -
  obtain w where w: "wardenDid = Some w" "w \<noteq> []" "sq_kind req \<noteq> []"
    using assms by (cases wardenDid) (auto simp: submit_route_def split: if_splits)
  obtain payload where p: "submit_payload_of ops req = Inr payload"
    using assms w by (cases "submit_payload_of ops req") (auto simp: submit_route_def)
  obtain ct where ct: "so_sealForWarden ops w payload = Some ct"
    using assms w p by (cases "so_sealForWarden ops w payload") (auto simp: submit_route_def)
  obtain c where c: "dm_challenge dm = Some c" "c \<noteq> []"
    using assms w p ct by (cases "dm_challenge dm") (auto simp: submit_route_def split: if_splits)
  obtain pr where pr: "so_presentProof ops c = Some pr"
    using assms w p ct c by (cases "so_presentProof ops c") (auto simp: submit_route_def)
  have "so_sends ops" using assms w p ct c pr by (auto simp: submit_route_def Let_def split: if_splits)
  then have fin: "rr_id r = so_uuid ops" "dm_submitted dm' = dm_submitted dm @ [(so_uuid ops, \<lparr>sb_kind = sq_kind req, sb_ciphertext = ct,
      sb_observedAt = so_now ops, sb_delegationProof = Some pr\<rparr>)]" "(so_uuid ops, sq_kind req) \<in> set (em_pending (dm_state dm'))"
    using assms w p ct c pr by (auto simp: submit_route_def Let_def put_request_def)
  have "case sq_attachment req of None \<Rightarrow> Some payload = map_option Text_payload (sq_text req)
     | Some (mediaType, b64) \<Rightarrow> 1 \<le> length (so_base64 ops b64) \<and> length (so_base64 ops b64) \<le> 8388608 \<and>
         Some payload = map_option (\<lambda>d. Asset_payload d mediaType) (so_createImage ops (so_base64 ops b64))"
    using p by (auto simp: submit_payload_of_def MAX_BYTES_def Let_def Suc_le_eq js_simps split: option.splits if_splits)
  then show ?thesis using w c pr fin ct
    by (intro exI [of _ w] exI [of _ c] exI [of _ "\<lparr>sb_kind = sq_kind req, sb_ciphertext = ct, sb_observedAt = so_now ops,
      sb_delegationProof = Some pr\<rparr>"] exI [of _ payload]) simp
qed


text \<open>A message that reaches the waiter of its thread.\<close>

definition answers :: "emissary_env \<Rightarrow> inbound \<Rightarrow> string \<Rightarrow> bool" where
  "answers env m t \<longleftrightarrow> in_thid m = Some t \<and>
     (case in_body m of I_poison \<Rightarrow> False | I_chain_grant _ \<Rightarrow> False | I_proof_request _ _ \<Rightarrow> \<not> truthy_string (ee_sovereignDid env) | _ \<Rightarrow> True)"

definition thread_receipts :: "string \<Rightarrow> emissary_state \<Rightarrow> receipt_record list" where
  "thread_receipts t st = filter (\<lambda>r. rr_id r = t) (em_receipts st)"

lemma post_fields [simp]: "em_pending (post env msg st) = em_pending st" "em_receipts (post env msg st) = em_receipts st"
  by (simp_all add: post_def)

lemma emit_event_fields [simp]: "em_pending (emit_event ev st) = em_pending st" "em_receipts (emit_event ev st) = em_receipts st"
  by (simp_all add: emit_event_def)

lemma rr_id_receipt_of [simp]: "rr_id (receipt_of env t kind b) = t"
  by (simp add: receipt_of_def split: inbound_body.split)

lemma handle_reply_thread:
  assumes "t \<noteq> []"
  shows "(if in_thid m = Some t \<and> map_of (em_pending st) t \<noteq> None
     then map_of (em_pending (handle_reply env m st)) t = None \<and> length (thread_receipts t (handle_reply env m st)) = Suc (length (thread_receipts t st))
     else map_of (em_pending (handle_reply env m st)) t = map_of (em_pending st) t \<and> thread_receipts t (handle_reply env m st) = thread_receipts t st)"
proof -
  have gone: "map_of (filter (\<lambda>(k, _). k \<noteq> u) ps) t = (if t = u then None else map_of ps t)" for u and ps :: "(string \<times> string) list"
    by (induction ps) auto
  show ?thesis using assms by (auto simp: handle_reply_def thread_receipts_def Let_def gone split: option.split)
qed

lemma handle_inbound_thread:
  assumes "t \<noteq> []" "handle_inbound env m st = (ok, st')"
  shows "(if answers env m t \<and> map_of (em_pending st) t \<noteq> None
     then map_of (em_pending st') t = None \<and> length (thread_receipts t st') = Suc (length (thread_receipts t st))
     else map_of (em_pending st') t = map_of (em_pending st) t \<and> thread_receipts t st' = thread_receipts t st)"
  using assms(2) handle_reply_thread [OF assms(1), of m st env]
  by (cases "in_body m") (auto simp: handle_inbound_def answers_def thread_receipts_def Let_def split: option.splits if_splits)

text \<open>
  A submission is answered at most once: of all the messages of a pass, the first that reaches the waiter of the thread
  settles it, with one receipt, whatever else carries the thread or is delivered again; with none it goes on waiting.\<close>

theorem submission_settled_once:
  assumes "drain ms st = (st', kept)" "map_of (em_pending st) t = Some kind" "t \<noteq> []"
  shows "length (thread_receipts t st') = length (thread_receipts t st) + (if \<exists>(env, m)\<in>set ms. answers env m t then 1 else 0) \<and>
    (map_of (em_pending st') t = None \<longleftrightarrow> (\<exists>(env, m)\<in>set ms. answers env m t))"
proof -
  have "(if map_of (em_pending st) t \<noteq> None \<and> (\<exists>(env, m)\<in>set ms. answers env m t)
      then map_of (em_pending st') t = None \<and> length (thread_receipts t st') = Suc (length (thread_receipts t st))
      else map_of (em_pending st') t = map_of (em_pending st) t \<and> thread_receipts t st' = thread_receipts t st)"
    using assms(1)
  proof (induction ms arbitrary: st kept)
    case (Cons e ms)
    obtain env m where e: "e = (env, m)" by (cases e)
    obtain ok st1 where 1: "handle_inbound env m st = (ok, st1)" by force
    obtain kept2 where 2: "drain ms st1 = (st', kept2)" using Cons.prems 1 by (auto simp: e split: prod.splits)
    show ?case using Cons.IH [OF 2] handle_inbound_thread [OF assms(3) 1] by (auto simp: e split: if_splits)
  qed simp
  then show ?thesis using assms(2) by (auto split: if_splits)
qed

text \<open>
  The waiter does not ask who answers: whoever sends a receipt with the thread of a submission settles it as stored,
  whether or not it is the Warden.\<close>

theorem receipt_from_anyone:
  assumes "in_body m = I_submission_receipt False s at'" "in_thid m = Some t" "t \<noteq> []" "map_of (em_pending st) t = Some kind"
  shows "fst (handle_inbound env (m\<lparr>in_from := stranger\<rparr>) st) \<and>
    em_receipts (snd (handle_inbound env (m\<lparr>in_from := stranger\<rparr>) st)) = em_receipts st @
      [\<lparr>rr_id = t, rr_kind = kind, rr_status = ''stored'', rr_sensitivityName = map_option sensitivityName s, rr_at = at'\<rparr>]"
  using assms by (simp add: handle_inbound_def handle_reply_def receipt_of_def Let_def)


section \<open>What the Sovereign co-signs\<close>


text \<open>
  What is co-signed is not what is handed on: the question names the delegate and nothing of the slice, so two requests that
  differ in the held chain, the ceiling, the kinds and the target look the same at the gate and are approved alike.\<close>

theorem delegation_consent_blind:
  assumes "dq_holderDid req = dq_holderDid req'"
  shows "write_action (Job_delegate req) = write_action (Job_delegate req') \<and>
    http_view ((bare_context d)\<lparr>ax_action := Some (write_action (Job_delegate req))\<rparr>) =
      Action_view \<lparr>ac_action = ''delegate-capability'', ac_resource = Some (dq_holderDid req'),
        ac_summary = ''Delegate an attenuated slice of family authority to '' @ dq_holderDid req'\<rparr>"
  using assms by (simp add: write_action_def http_view_def bare_context_def)


section \<open>Handing on and the watch\<close>

lemma delegateHeldOnward_Inr:
  assumes "delegateHeldOnward env req st = (Inr (g, h), st')"
  shows "\<exists>parent s handle pic. select_held (dq_leafVcDid req) (em_held st) = Some parent \<and>
    delegateCapability (ee_hash env) (ee_coll env) (ee_issueEnv env) (ee_name env) (cg_handle parent) (dq_holderDid req)
      (with_status (child_spec parent req) s) = Inr (handle, pic) \<and>
    g = \<lparr>cg_handle = handle, cg_ancestorDisclosures = disclosedFor parent\<rparr> \<and> ih_childVcDid h = grant_leaf g \<and> ih_holder h = dq_holderDid req"
proof -
  obtain parent where p: "select_held (dq_leafVcDid req) (em_held st) = Some parent"
    using assms by (cases "select_held (dq_leafVcDid req) (em_held st)") (auto simp: delegateHeldOnward_def)
  then have "delegateOnward env parent (dq_holderDid req) (child_spec parent req) st = (Inr (g, h), st')"
    using assms by (simp add: delegateHeldOnward_def)
  from delegateOnward_Inr [OF this] p show ?thesis by fastforce
qed

text \<open>
  A hop that is handed on is on the Sovereign's watch: the report that follows the grant puts the child under the
  capability it was cut from, with its delegate as the holder and this Emissary as the issuer, and the report of
  its revocation, which the watch takes from nobody else but the Sovereign, marks it.\<close>

theorem delegated_hop_watched:
  assumes "write_step env (Job_delegate req) st = (Write_delegated d holder i, st')" "\<And>m. ee_send env m"
    and "get_node d (wt_lineage w) = None"
  shows "\<exists>g report. em_sent st' = em_sent st @ [Send_chain_grant holder g, Send_watch (the (ee_sovereignDid env)) report] \<and>
    holder = dq_holderDid req \<and> grant_leaf g = d \<and>
    (let w1 = snd (watch_handler senv G trusted self now (ee_did env) report w);
         w2 = snd (watch_handler senv G trusted self now' (ee_did env) (W_hop_revoked d) w1)
     in (\<exists>node. get_node d (wt_lineage w1) = Some node \<and> lr_holder node = holder \<and> lr_issuer node = Some (ee_did env) \<and>
         \<not> lr_revoked node \<and> or_default [] (lr_parentVcDid node) = or_default [] (cap_parentCapability (ch_capability (cg_handle g))) \<and>
         get_node d (wt_lineage w2) = Some (node\<lparr>lr_revoked := True\<rparr>)))"
proof -
  have p: "perform_delegate env (the (ee_sovereignDid env)) req st = (Write_delegated d holder i, st')"
    using assms(1) by (auto simp: write_step_def Let_def split: if_splits)
  obtain g h st1 where del: "delegateHeldOnward env req st = (Inr (g, h), st1)"
    using p by (auto simp: perform_delegate_def split: prod.splits sum.splits)
  have sent1: "em_sent st1 = em_sent st"
    using del by (auto simp: delegateHeldOnward_def delegateOnward_def emissary_status_def split: option.splits prod.splits sum.splits)
  let ?parent = "or_default [] (cap_parentCapability (ch_capability (cg_handle g)))"
  let ?report = "W_hop_registered d ?parent holder (iv_counter (ch_issued (cg_handle g)))"
  have d: "d = ih_childVcDid h" "holder = dq_holderDid req"
    and sent: "em_sent st' = em_sent st @ [Send_chain_grant holder g, Send_watch (the (ee_sovereignDid env)) ?report]"
    using p del assms(2) sent1 by (auto simp: perform_delegate_def post_def emit_event_def Let_def)
  have leaf: "grant_leaf g = d" using delegateHeldOnward_Inr [OF del] d(1) by auto
  let ?node = "\<lparr>lr_vcDid = d, lr_parentVcDid = (if ?parent = [] then None else Some ?parent), lr_issuer = Some (ee_did env),
    lr_holder = holder, lr_counter = iv_counter (ch_issued (cg_handle g)), lr_ts = now, lr_revoked = False\<rparr>"
  have fresh: "\<not> list_ex (\<lambda>x. lr_vcDid x = d) (wt_lineage w)" using assms(3) by (auto simp: get_node_def find_None_iff list_ex_iff)
  have w1: "wt_lineage (snd (watch_handler senv G trusted self now (ee_did env) ?report w)) = wt_lineage w @ [?node]"
    using fresh by (simp add: watch_handler_def record_node_def)
  have app: "get_node d (xs @ [x]) = Some x" if "\<not> list_ex (\<lambda>x. lr_vcDid x = d) xs" "lr_vcDid x = d" for xs x
    using that unfolding get_node_def by (induction xs) auto
  have mark: "mark_first d (xs @ [x]) = xs @ [x\<lparr>lr_revoked := True\<rparr>]" if "\<not> list_ex (\<lambda>x. lr_vcDid x = d) xs" "lr_vcDid x = d" for xs x
    using that by (induction xs) auto
  have g1: "get_node d (wt_lineage w @ [?node]) = Some ?node" by (rule app) (use fresh in auto)
  have g2: "get_node d (wt_lineage w @ [?node\<lparr>lr_revoked := True\<rparr>]) = Some (?node\<lparr>lr_revoked := True\<rparr>)" by (rule app) (use fresh in auto)
  have m: "mark_first d (wt_lineage w @ [?node]) = wt_lineage w @ [?node\<lparr>lr_revoked := True\<rparr>]" by (rule mark) (use fresh in auto)
  have "wt_lineage (snd (watch_handler senv G trusted self now' (ee_did env) (W_hop_revoked d)
      (snd (watch_handler senv G trusted self now (ee_did env) ?report w)))) = wt_lineage w @ [?node\<lparr>lr_revoked := True\<rparr>]"
    using w1 g1 m by (simp add: watch_handler_def [of _ _ _ _ now'] mark_revoked_def)
  with sent leaf d(2) w1 g1 g2 show ?thesis by (auto simp: Let_def or_default_def)
qed


section \<open>What handing on and holding do not do\<close>

text \<open>
  No hop is handed on for a narrower target: a requested target that is not literally one of the resources of the held
  capability is refused, even one within the target of the capability.\<close>

theorem narrowed_target_refused:
  assumes "select_held (dq_leafVcDid req) (em_held st) = Some parent" "dq_target req = Some t"
    and "t \<notin> set (resources (cap_authority (ch_capability (cg_handle parent))))"
  shows "\<exists>e. fst (delegateHeldOnward env req st) = Inl e"
proof (rule ccontr)
  assume no: "\<nexists>e. fst (delegateHeldOnward env req st) = Inl e"
  obtain g h st' where r: "delegateHeldOnward env req st = (Inr (g, h), st')"
    using no by (cases "delegateHeldOnward env req st"; cases "fst (delegateHeldOnward env req st)") auto
  from delegateHeldOnward_Inr [OF r] assms(1) obtain s handle pic where
    "delegateCapability (ee_hash env) (ee_coll env) (ee_issueEnv env) (ee_name env) (cg_handle parent) (dq_holderDid req)
      (with_status (child_spec parent req) s) = Inr (handle, pic)" by auto
  from delegateCapability_Inr(3) [OF this]
  have "isSubset (sp_authority (with_status (child_spec parent req) s)) (cap_authority (ch_capability (cg_handle parent)))"
    by (simp add: capabilityNarrows_def child_capability_def split: if_splits)
  moreover have "resources (sp_authority (with_status (child_spec parent req) s)) = [t]"
    using assms(2) by (simp add: with_status_def child_spec_def or_default_def Let_def)
  ultimately show False using assms(3) by (simp add: isSubset_iff)
qed

text \<open>
  A hop for no kind is a hop for every kind: handing on with an empty list of kinds, which is a slice that proves nothing,
  mints a hop whose committed caveats have no compartment at all.\<close>

theorem empty_kinds_grants_all:
  assumes "delegateHeldOnward env req st = (Inr (g, h), st')" "dq_kinds req = Some []"
  shows "cv_kinds (cap_caveats (ch_capability (cg_handle g))) = Some [] \<and>
    map_option cv_kinds (iv_caveats (ch_issued (cg_handle g))) = Some None"
proof -
  from delegateHeldOnward_Inr [OF assms(1)] obtain parent s handle pic where d:
    "delegateCapability (ee_hash env) (ee_coll env) (ee_issueEnv env) (ee_name env) (cg_handle parent) (dq_holderDid req)
      (with_status (child_spec parent req) s) = Inr (handle, pic)" "g = \<lparr>cg_handle = handle, cg_ancestorDisclosures = disclosedFor parent\<rparr>"
    by blast
  note m = delegateCapability_Inr [OF d(1)]
  show ?thesis using issueVc_Inr(7) [OF m(1)] m(4) d(2) assms(2)
    by (simp add: capability_issue_args_def child_capability_def with_status_def child_spec_def normalizeCaveats_kinds Let_def)
qed

text \<open>
  Anyone can replace what the Emissary holds: a chain grant from any sender is kept, becomes the chain that is used
  by default, and takes the place of a held chain whose leaf it names.\<close>

theorem stranger_grant_displaces_held:
  assumes "in_body m = I_chain_grant (Some g)" "grant_leaf g \<noteq> []" "ee_put env"
  shows "fst (handle_inbound env (m\<lparr>in_from := stranger\<rparr>) st) \<and>
    (let held = em_held (snd (handle_inbound env (m\<lparr>in_from := stranger\<rparr>) st)) in
     select_held None held = Some g \<and> select_held (Some (grant_leaf g)) held = Some g \<and>
     (\<forall>x\<in>set held. grant_leaf x = grant_leaf g \<longrightarrow> x = g))"
proof -
  have skip: "find (\<lambda>x. grant_leaf x = d) (filter (\<lambda>x. grant_leaf x \<noteq> d) all @ [g]) = Some g" if "grant_leaf g = d" for d all
    using that by (induction all) auto
  have h: "handle_inbound env (m\<lparr>in_from := stranger\<rparr>) st =
      (True, emit_event (Chain_grant_event (grant_leaf g) (iv_counter (ch_issued (cg_handle g))) stranger) (st\<lparr>em_held := put_held g (em_held st)\<rparr>))"
    using assms by (simp add: handle_inbound_def)
  have "\<forall>x\<in>set (put_held g (em_held st)). grant_leaf x = grant_leaf g \<longrightarrow> x = g" by (simp add: put_held_def)
  moreover have "select_held None (put_held g (em_held st)) = Some g" by (simp add: put_held_def select_held_def latest_held_def)
  moreover have "select_held (Some (grant_leaf g)) (put_held g (em_held st)) = Some g"
    using skip [of "grant_leaf g"] assms(2) by (simp add: put_held_def select_held_def get_held_def)
  ultimately show ?thesis unfolding h by (simp add: Let_def)
qed

text \<open>
  A crash while a grant is stored loses every chain that was held: the relay delivers the grant again, and it is then the
  only one.\<close>

theorem crash_forgets_held:
  "readGrants (put_file False g (put_file True g f)) = [g]"
  by (simp add: put_file_def readGrants_def put_held_def)

end
