(* ===== verification/Emissary_Modules.thy ===== *)
theory Emissary_Modules
  imports Kb_Service "HOL-Library.Multiset"
begin

text \<open>
  The Emissary's runtime of capability modules (\<open>packages/emissary/src/module.ts\<close>), the held reader that answers from a
  knowledge base for others (\<open>held-reader.ts\<close>) and the relay to it (\<open>kb-relay.ts\<close>). A module's handlers are
  the types \<open>'c\<close> and \<open>'h\<close>; the objects that carry them are association lists.
\<close>

section \<open>The runtime\<close>

record ('c, 'h) capability_module =
  mo_name :: string
  mo_routes :: "(string \<times> 'c) list"
  mo_messages :: "(string \<times> 'h) list"

record ('c, 'h) emissary_runtime =
  rt_mods :: "('c, 'h) capability_module list"
  rt_routeOwners :: "string \<Rightarrow> string option"
  rt_typeOwners :: "string \<Rightarrow> string option"
  rt_initialised :: bool
  rt_inits :: "string list"

definition empty_runtime :: "('c, 'h) emissary_runtime" where
  "empty_runtime = \<lparr>rt_mods = [], rt_routeOwners = (\<lambda>_. None), rt_typeOwners = (\<lambda>_. None), rt_initialised = False, rt_inits = []\<rparr>"

datatype use_error = After_init | Duplicate_module | Route_claimed string string | Type_claimed string string

text \<open>The first key that an owner has, with the owner; the code tests the owner's name.\<close>

definition claimed :: "(string \<Rightarrow> string option) \<Rightarrow> string list \<Rightarrow> (string \<times> string) option" where
  "claimed owners keys = map_option (\<lambda>k. (k, the (owners k))) (find (\<lambda>k. truthy_string (owners k)) keys)"

definition own_all :: "string \<Rightarrow> string list \<Rightarrow> (string \<Rightarrow> string option) \<Rightarrow> string \<Rightarrow> string option" where
  "own_all name keys owners = foldl (\<lambda>f k. f(k \<mapsto> name)) owners keys"

text \<open>The error that is thrown, if any, and the runtime it leaves.\<close>

definition use_module :: "('c, 'h) capability_module \<Rightarrow> ('c, 'h) emissary_runtime \<Rightarrow> use_error option \<times> ('c, 'h) emissary_runtime" where
  "use_module m rt =
     (if rt_initialised rt then (Some After_init, rt)
      else if mo_name m \<in> mo_name ` set (rt_mods rt) then (Some Duplicate_module, rt)
      else case claimed (rt_routeOwners rt) (map fst (mo_routes m)) of
        Some (k, prev) \<Rightarrow> (Some (Route_claimed k prev), rt)
      | None \<Rightarrow>
          (case claimed (rt_typeOwners rt) (map fst (mo_messages m)) of
             Some (k, prev) \<Rightarrow> (Some (Type_claimed k prev), rt)
           | None \<Rightarrow> (None, rt\<lparr>rt_routeOwners := own_all (mo_name m) (map fst (mo_routes m)) (rt_routeOwners rt),
               rt_typeOwners := own_all (mo_name m) (map fst (mo_messages m)) (rt_typeOwners rt),
               rt_mods := rt_mods rt @ [m]\<rparr>)))"

definition loadout :: "('c, 'h) emissary_runtime \<Rightarrow> string list" where
  "loadout rt = map mo_name (rt_mods rt)"

definition manifest :: "('c, 'h) emissary_runtime \<Rightarrow> (string \<times> string list \<times> string list) list" where
  "manifest rt = map (\<lambda>m. (mo_name m, map fst (mo_routes m), map fst (mo_messages m))) (rt_mods rt)"

text \<open>\<open>ok\<close> tells whose setup resolves; the setups that were started are kept in \<open>rt_inits\<close>.\<close>

fun run_inits :: "(string \<Rightarrow> bool) \<Rightarrow> string list \<Rightarrow> bool \<times> string list" where
  "run_inits ok [] = (True, [])"
| "run_inits ok (n # ns) = (if ok n then (case run_inits ok ns of (r, started) \<Rightarrow> (r, n # started)) else (False, [n]))"

definition runtime_init :: "(string \<Rightarrow> bool) \<Rightarrow> ('c, 'h) emissary_runtime \<Rightarrow> bool \<times> ('c, 'h) emissary_runtime" where
  "runtime_init ok rt =
     (if rt_initialised rt then (True, rt)
      else case run_inits ok (loadout rt) of
        (r, started) \<Rightarrow> (r, rt\<lparr>rt_inits := rt_inits rt @ started, rt_initialised := r\<rparr>))"

text \<open>The merged routes, and the table of the dispatch; an unknown type is not handled.\<close>

definition merged_routes :: "('c, 'h) emissary_runtime \<Rightarrow> string \<Rightarrow> 'c option" where
  "merged_routes rt = foldl (\<lambda>out m. out ++ map_of (mo_routes m)) Map.empty (rt_mods rt)"

definition dispatch_table :: "('c, 'h) emissary_runtime \<Rightarrow> string \<Rightarrow> 'h option" where
  "dispatch_table rt = foldl (\<lambda>t m. foldl (\<lambda>t (ty, h). t(ty \<mapsto> h)) t (mo_messages m)) Map.empty (rt_mods rt)"

fun compose :: "('c, 'h) capability_module list \<Rightarrow> ('c, 'h) emissary_runtime \<Rightarrow> use_error + ('c, 'h) emissary_runtime" where
  "compose [] rt = Inr rt"
| "compose (m # ms) rt = (case use_module m rt of (Some e, _) \<Rightarrow> Inl e | (None, rt') \<Rightarrow> compose ms rt')"

section \<open>What composes\<close>

text \<open>The keys of an object are distinct, and a module has a name.\<close>

definition module_ok :: "('c, 'h) capability_module \<Rightarrow> bool" where
  "module_ok m \<longleftrightarrow> mo_name m \<noteq> [] \<and> distinct (map fst (mo_routes m)) \<and> distinct (map fst (mo_messages m))"

definition route_keys :: "('c, 'h) capability_module list \<Rightarrow> string list" where
  "route_keys ms = concat (map (\<lambda>m. map fst (mo_routes m)) ms)"

definition type_keys :: "('c, 'h) capability_module list \<Rightarrow> string list" where
  "type_keys ms = concat (map (\<lambda>m. map fst (mo_messages m)) ms)"

definition collision_free :: "('c, 'h) capability_module list \<Rightarrow> bool" where
  "collision_free ms \<longleftrightarrow> distinct (map mo_name ms) \<and> distinct (route_keys ms) \<and> distinct (type_keys ms)"

definition owners_of :: "('c, 'h) emissary_runtime \<Rightarrow> bool" where
  "owners_of rt \<longleftrightarrow> \<not> rt_initialised rt \<and> (\<forall>k. truthy_string (rt_routeOwners rt k) \<longleftrightarrow> k \<in> set (route_keys (rt_mods rt))) \<and>
     (\<forall>k. truthy_string (rt_typeOwners rt k) \<longleftrightarrow> k \<in> set (type_keys (rt_mods rt)))"

lemma keys_snoc [simp]:
  "route_keys (ms @ [m]) = route_keys ms @ map fst (mo_routes m)" "type_keys (ms @ [m]) = type_keys ms @ map fst (mo_messages m)"
  by (simp_all add: route_keys_def type_keys_def)

lemma own_all_apply: "own_all name keys owners k = (if k \<in> set keys then Some name else owners k)"
  unfolding own_all_def by (induction keys arbitrary: owners) auto

lemma claimed_None: "claimed owners keys = None \<longleftrightarrow> (\<forall>k\<in>set keys. \<not> truthy_string (owners k))"
  by (auto simp: claimed_def find_None_iff)

lemma use_module_None:
  assumes "owners_of rt" "module_ok m"
  shows "fst (use_module m rt) = None \<longleftrightarrow> mo_name m \<notin> mo_name ` set (rt_mods rt) \<and>
      set (map fst (mo_routes m)) \<inter> set (route_keys (rt_mods rt)) = {} \<and>
      set (map fst (mo_messages m)) \<inter> set (type_keys (rt_mods rt)) = {}"
proof -
  have "claimed (rt_routeOwners rt) (map fst (mo_routes m)) = None \<longleftrightarrow> set (map fst (mo_routes m)) \<inter> set (route_keys (rt_mods rt)) = {}"
    "claimed (rt_typeOwners rt) (map fst (mo_messages m)) = None \<longleftrightarrow> set (map fst (mo_messages m)) \<inter> set (type_keys (rt_mods rt)) = {}"
    using assms(1) unfolding claimed_None owners_of_def by (auto simp: disjoint_iff)
  then show ?thesis using assms(1) by (auto simp: use_module_def owners_of_def split: option.splits)
qed

lemma use_module_adds:
  assumes "owners_of rt" "module_ok m" "use_module m rt = (None, rt')"
  shows "rt_mods rt' = rt_mods rt @ [m] \<and> owners_of rt'"
  using assms
  by (auto simp: use_module_def owners_of_def own_all_apply module_ok_def split: if_splits option.splits)

lemma collision_free_snoc:
  "module_ok m \<Longrightarrow> collision_free (ms @ [m]) \<longleftrightarrow> collision_free ms \<and> mo_name m \<notin> mo_name ` set ms \<and>
     set (map fst (mo_routes m)) \<inter> set (route_keys ms) = {} \<and> set (map fst (mo_messages m)) \<inter> set (type_keys ms) = {}"
  unfolding collision_free_def route_keys_def type_keys_def module_ok_def
  by (simp add: Int_commute [of "\<Union> _"] conj_ac)

lemma collision_free_append: "collision_free (ms @ ns) \<Longrightarrow> collision_free ms"
  by (simp add: collision_free_def route_keys_def type_keys_def)

lemma compose_from:
  assumes "owners_of rt" "collision_free (rt_mods rt)" "\<forall>m\<in>set ms. module_ok m"
  shows "case compose ms rt of
      Inl _ \<Rightarrow> \<not> collision_free (rt_mods rt @ ms)
    | Inr rt' \<Rightarrow> collision_free (rt_mods rt @ ms) \<and> rt_mods rt' = rt_mods rt @ ms \<and> owners_of rt'"
  using assms
proof (induction ms arbitrary: rt)
  case (Cons m ms)
  have m: "module_ok m" using Cons.prems(3) by simp
  note step = use_module_None [OF Cons.prems(1) m] collision_free_snoc [OF m, of "rt_mods rt"]
  show ?case
  proof (cases "use_module m rt")
    case (Pair e rt')
    show ?thesis
    proof (cases e)
      case (Some err)
      then have "\<not> collision_free (rt_mods rt @ [m])" using step Pair by auto
      then show ?thesis using Pair Some collision_free_append [of "rt_mods rt @ [m]" ms] by auto
    next
      case None
      then have u: "use_module m rt = (None, rt')" using Pair by simp
      have "rt_mods rt' = rt_mods rt @ [m]" "owners_of rt'" using use_module_adds [OF Cons.prems(1) m u] by auto
      moreover have "collision_free (rt_mods rt @ [m])" using step u Cons.prems(2) by simp
      ultimately show ?thesis using Cons.IH [of rt'] Cons.prems(3) u by (simp split: sum.splits)
    qed
  qed
qed simp

lemma composes_from_empty:
  assumes "\<forall>m\<in>set ms. module_ok m"
  shows "case compose ms empty_runtime of
      Inl _ \<Rightarrow> \<not> collision_free ms
    | Inr rt \<Rightarrow> collision_free ms \<and> rt_mods rt = ms \<and> owners_of rt"
proof -
  have "owners_of empty_runtime" "collision_free (rt_mods empty_runtime)"
    by (simp_all add: owners_of_def empty_runtime_def route_keys_def type_keys_def collision_free_def)
  from compose_from [OF this assms] show ?thesis by (simp add: empty_runtime_def split: sum.splits)
qed

text \<open>
  C38. A loadout composes exactly when nothing in it collides: the modules are taken one after the other without an error if and
  only if no two have a name, a route or a message type in common; and then they are all loaded, in order.\<close>

theorem composes_iff_collision_free:
  assumes "\<forall>m\<in>set ms. module_ok m"
  shows "case compose ms empty_runtime of Inl _ \<Rightarrow> \<not> collision_free ms | Inr rt \<Rightarrow> collision_free ms \<and> loadout rt = map mo_name ms"
  using composes_from_empty [OF assms] by (auto simp: loadout_def split: sum.splits)

lemma compose_Inr:
  assumes "\<forall>m\<in>set ms. module_ok m" "compose ms empty_runtime = Inr rt"
  shows "collision_free ms" "rt_mods rt = ms" "\<not> rt_initialised rt"
  using composes_from_empty [OF assms(1)] assms(2) by (simp_all add: owners_of_def)

lemma merged_map_of: "foldl (\<lambda>out m. out ++ map_of (f m)) t ms = t ++ map_of (concat (map f (rev ms)))"
  by (induction ms arbitrary: t) (simp_all add: map_of_append)

lemma put_all_map_of: "foldl (\<lambda>t (ty, h). t(ty \<mapsto> h)) t xs = t ++ map_of (rev xs)"
  by (induction xs arbitrary: t) auto

lemma dispatch_map_of: "foldl (\<lambda>t m. foldl (\<lambda>t (ty, h). t(ty \<mapsto> h)) t (f m)) t ms = t ++ map_of (concat (map (\<lambda>m. rev (f m)) (rev ms)))"
  by (induction ms arbitrary: t) (simp_all add: put_all_map_of map_of_append)

lemma map_of_same_set: "distinct (map fst xs) \<Longrightarrow> distinct (map fst ys) \<Longrightarrow> set xs = set ys \<Longrightarrow> map_of xs = map_of ys"
  by (rule map_of_inject_set [THEN iffD2])

lemma distinct_mset: "mset xs = mset ys \<Longrightarrow> distinct xs = distinct ys"
  by (metis distinct_count_atmost_1 mset_eq_setD)

lemma mset_concat_map: "mset ms = mset ns \<Longrightarrow> mset (concat (map f ms)) = mset (concat (map f ns))"
  by (simp add: mset_concat sum_mset_sum_list [symmetric] comp_def flip: image_mset.comp)

lemma mset_concat_rev: "mset (concat (map (\<lambda>x. rev (f x)) xs)) = mset (concat (map f xs))"
  by (induction xs) simp_all

lemma map_of_perm:
  assumes "distinct (map fst ys)" "mset xs = mset ys" shows "map_of xs = map_of ys"
proof (rule map_of_same_set)
  have "mset (map fst xs) = mset (map fst ys)" using assms(2) by simp
  from distinct_mset [OF this] assms(1) show "distinct (map fst xs)" by simp
qed (use assms mset_eq_setD in auto)

lemma runtime_tables:
  assumes "rt_mods rt = ms" "collision_free ms"
  shows "merged_routes rt = map_of (concat (map mo_routes ms)) \<and> dispatch_table rt = map_of (concat (map mo_messages ms))"
proof -
  have d: "distinct (map fst (concat (map mo_routes ms)))" "distinct (map fst (concat (map mo_messages ms)))"
    using assms(2) by (simp_all add: collision_free_def route_keys_def type_keys_def map_concat comp_def)
  have r: "mset (concat (map mo_routes (rev ms))) = mset (concat (map mo_routes ms))"
    "mset (concat (map (\<lambda>m. rev (mo_messages m)) (rev ms))) = mset (concat (map mo_messages ms))"
    using mset_concat_map [of "rev ms" ms mo_routes] mset_concat_map [of "rev ms" ms mo_messages] by (simp_all add: mset_concat_rev)
  note map_of_perm [OF d(1) r(1)] map_of_perm [OF d(2) r(2)]
  then show ?thesis by (simp add: merged_routes_def dispatch_table_def merged_map_of dispatch_map_of assms(1))
qed

text \<open>
  C35. The order of a loadout does not matter: if a list of modules composes then so does every rearrangement of it, and both
  runtimes serve every route and dispatch every message type to the same handler.\<close>

theorem loadout_order_irrelevant:
  assumes "\<forall>m\<in>set ms. module_ok m" "compose ms empty_runtime = Inr rt" "mset ns = mset ms"
  shows "\<exists>rt'. compose ns empty_runtime = Inr rt' \<and> merged_routes rt' = merged_routes rt \<and> dispatch_table rt' = dispatch_table rt"
proof -
  note c = compose_Inr [OF assms(1,2)]
  have same: "mset (map mo_name ns) = mset (map mo_name ms)" "mset (route_keys ns) = mset (route_keys ms)" "mset (type_keys ns) = mset (type_keys ms)"
    using assms(3) by (simp_all add: route_keys_def type_keys_def mset_concat_map [OF assms(3)])
  have cf: "collision_free ns" using c(1) same [THEN distinct_mset] by (simp add: collision_free_def)
  have ok: "\<forall>m\<in>set ns. module_ok m" using assms(1) mset_eq_setD [OF assms(3)] by simp
  have "\<nexists>e. compose ns empty_runtime = Inl e"
    using composes_from_empty [OF ok] cf by (auto split: sum.splits)
  then obtain rt' where rt': "compose ns empty_runtime = Inr rt'" by (cases "compose ns empty_runtime") auto
  note c' = compose_Inr [OF ok rt']
  have d: "distinct (map fst (concat (map mo_routes ms)))" "distinct (map fst (concat (map mo_messages ms)))"
    using c(1) by (simp_all add: collision_free_def route_keys_def type_keys_def map_concat comp_def)
  note map_of_perm [OF d(1) mset_concat_map [OF assms(3)]] map_of_perm [OF d(2) mset_concat_map [OF assms(3)]]
  then show ?thesis using rt' runtime_tables [OF c'(2) cf] runtime_tables [OF c(2,1)] by auto
qed

text \<open>
  A setup can run twice: when the setup of the last of two modules fails, a second \<open>init\<close> starts the first one's again,
  although it had succeeded.\<close>

theorem failed_init_repeats:
  assumes "compose [a, b] empty_runtime = Inr rt" "\<forall>m\<in>set [a, b]. module_ok m"
  shows "\<exists>rt1 rt2. runtime_init (\<lambda>n. n \<noteq> mo_name b) rt = (False, rt1) \<and> runtime_init (\<lambda>_. True) rt1 = (True, rt2) \<and>
    rt_inits rt2 = rt_inits rt @ [mo_name a, mo_name b, mo_name a, mo_name b]"
proof -
  note c = compose_Inr [OF assms(2,1)]
  have "mo_name a \<noteq> mo_name b" using c(1) by (simp add: collision_free_def)
  then show ?thesis using c(2,3) by (simp add: runtime_init_def loadout_def)
qed

end
