(* ===== verification/Held_Reader.thy ===== *)
theory Held_Reader
  imports Emissary
begin

text \<open>
  The held reader (\<open>packages/emissary/src/held-reader.ts\<close>), which logs in to a knowledge base as a read-only member and answers for
  others from the shared partition, and the relay to the Warden (\<open>kb-relay.ts\<close>). One call at a time; the \<open>n\<close>-th request
  of the transport is answered by \<open>rd_request n\<close>, where \<^const>\<open>None\<close> is a rejection.
\<close>

section \<open>The reader\<close>

datatype reader_message =
    Login_start string string
  | Login_complete string string
  | Session_query string string kb_request

text \<open>The expiry of a session is \<^const>\<open>None\<close> when its date does not parse.\<close>

datatype reader_reply =
    R_login_challenge string
  | R_session string "int option"
  | R_kb_error string
  | R_query_result recall_answer "kb_citation list"
  | R_other

record reader_deps =
  rd_request :: "nat \<Rightarrow> reader_message \<Rightarrow> reader_reply option"
  rd_kbId :: string
  rd_createResponse :: "string \<Rightarrow> string option"
  rd_callbackUrl :: string
  rd_now :: "nat \<Rightarrow> int"

record held_reader =
  hr_session :: "(string \<times> int option) option"
  hr_sent :: "reader_message list"

datatype reader_error = Transport_failed | No_login_challenge | No_login_response | Login_failed | Warden_error string | Not_an_answer

definition reader_request :: "reader_deps \<Rightarrow> reader_message \<Rightarrow> held_reader \<Rightarrow> reader_reply option \<times> held_reader" where
  "reader_request deps m r = (rd_request deps (length (hr_sent r)) m, r\<lparr>hr_sent := hr_sent r @ [m]\<rparr>)"

definition reader_login :: "reader_deps \<Rightarrow> held_reader \<Rightarrow> (reader_error + string \<times> int option) \<times> held_reader" where
  "reader_login deps r =
     (case reader_request deps (Login_start (rd_kbId deps) (rd_callbackUrl deps)) r of
        (None, r1) \<Rightarrow> (Inl Transport_failed, r1)
      | (Some start, r1) \<Rightarrow>
          (case start of
             R_login_challenge c \<Rightarrow>
               (case rd_createResponse deps c of
                  None \<Rightarrow> (Inl No_login_response, r1)
                | Some response \<Rightarrow>
                    (case reader_request deps (Login_complete (rd_kbId deps) response) r1 of
                       (None, r2) \<Rightarrow> (Inl Transport_failed, r2)
                     | (Some s, r2) \<Rightarrow> (case s of R_session t e \<Rightarrow> (Inr (t, e), r2) | _ \<Rightarrow> (Inl Login_failed, r2))))
           | _ \<Rightarrow> (Inl No_login_challenge, r1)))"

definition reader_live :: "reader_deps \<Rightarrow> held_reader \<Rightarrow> string option" where
  "reader_live deps r =
     (case hr_session r of
        Some (t, Some e) \<Rightarrow> if e - rd_now deps (length (hr_sent r)) > 30000 then Some t else None
      | _ \<Rightarrow> None)"

definition reader_token :: "reader_deps \<Rightarrow> held_reader \<Rightarrow> (reader_error + string) \<times> held_reader" where
  "reader_token deps r =
     (case reader_live deps r of
        Some t \<Rightarrow> (Inr t, r)
      | None \<Rightarrow>
          (case reader_login deps r of
             (Inl e, r1) \<Rightarrow> (Inl e, r1)
           | (Inr s, r1) \<Rightarrow> (Inr (fst s), r1\<lparr>hr_session := Some s\<rparr>)))"

text \<open>The match of \<open>/session|token|unauthor|expired|401/i\<close>.\<close>

definition stale_reason :: "string \<Rightarrow> bool" where
  "stale_reason reason = list_ex (\<lambda>w. sublist w (map ascii_lower reason)) [''session'', ''token'', ''unauthor'', ''expired'', ''401'']"

definition shared_query :: "string \<Rightarrow> int option \<Rightarrow> kb_request" where
  "shared_query query k = \<lparr>kq_action = Query, kq_query = Some query, kq_k = Some (case k of None \<Rightarrow> 5 | Some n \<Rightarrow> n), kq_kind = None,
     kq_text = None, kq_scope = Some ''shared'', kq_docKey = None, kq_owner = None\<rparr>"

definition reader_ask :: "reader_deps \<Rightarrow> string \<Rightarrow> int option \<Rightarrow> held_reader \<Rightarrow> (reader_error + reader_reply) \<times> held_reader" where
  "reader_ask deps query k r =
     (case reader_token deps r of
        (Inl e, r1) \<Rightarrow> (Inl e, r1)
      | (Inr t, r1) \<Rightarrow>
          (case reader_request deps (Session_query t (rd_kbId deps) (shared_query query k)) r1 of
             (None, r2) \<Rightarrow> (Inl Transport_failed, r2)
           | (Some reply, r2) \<Rightarrow> (Inr reply, r2)))"

definition reader_answer :: "reader_reply \<Rightarrow> reader_error + recall_answer \<times> kb_citation list" where
  "reader_answer reply =
     (case reply of
        R_kb_error reason \<Rightarrow> Inl (Warden_error reason)
      | R_query_result answer citations \<Rightarrow> Inr (answer, filter (\<lambda>c. kc_scope c \<noteq> Some ''private'') citations)
      | _ \<Rightarrow> Inl Not_an_answer)"

definition serveShared ::
  "reader_deps \<Rightarrow> string \<Rightarrow> int option \<Rightarrow> held_reader \<Rightarrow> (reader_error + recall_answer \<times> kb_citation list) \<times> held_reader" where
  "serveShared deps query k r =
     (case reader_ask deps query k r of
        (Inl e, r1) \<Rightarrow> (Inl e, r1)
      | (Inr reply, r1) \<Rightarrow>
          (case reply of
             R_kb_error reason \<Rightarrow>
               if stale_reason reason
               then (case reader_ask deps query k (r1\<lparr>hr_session := None\<rparr>) of
                  (Inl e, r2) \<Rightarrow> (Inl e, r2)
                | (Inr reply', r2) \<Rightarrow> (reader_answer reply', r2))
               else (Inl (Warden_error reason), r1)
           | _ \<Rightarrow> (reader_answer reply, r1)))"

definition reader_reset :: "held_reader \<Rightarrow> held_reader" where
  "reader_reset r = r\<lparr>hr_session := None\<rparr>"

section \<open>The relay\<close>

definition KB_TYPES :: "string list" where
  "KB_TYPES = [''hearthold/kb-challenge-request'', ''hearthold/kb-request'']"

text \<open>No reply for another type; otherwise the Warden's own, or an error when it cannot be reached.\<close>

definition kb_relay_handler :: "('m \<Rightarrow> 'r option) \<Rightarrow> string \<Rightarrow> 'm \<Rightarrow> (string + 'r) option" where
  "kb_relay_handler request mtype m =
     (if mtype \<in> set KB_TYPES
      then Some (case request m of None \<Rightarrow> Inl ''KB portal could not reach the Warden'' | Some r \<Rightarrow> Inr r)
      else None)"

section \<open>What the reader sends\<close>

definition pinned :: "reader_deps \<Rightarrow> string \<Rightarrow> reader_message \<Rightarrow> bool" where
  "pinned deps query m \<longleftrightarrow>
     (case m of
        Login_start kb url \<Rightarrow> kb = rd_kbId deps \<and> url = rd_callbackUrl deps
      | Login_complete kb _ \<Rightarrow> kb = rd_kbId deps
      | Session_query _ kb req \<Rightarrow> kb = rd_kbId deps \<and> kq_action req = Query \<and> kq_scope req = Some ''shared'' \<and> kq_query req = Some query)"

definition is_query :: "reader_message \<Rightarrow> bool" where
  "is_query m = (case m of Session_query _ _ _ \<Rightarrow> True | _ \<Rightarrow> False)"

text \<open>At most \<open>n\<close> more messages, \<open>q\<close> of them queries, all pinned.\<close>

definition sends_at_most :: "reader_deps \<Rightarrow> string \<Rightarrow> nat \<Rightarrow> nat \<Rightarrow> held_reader \<Rightarrow> held_reader \<Rightarrow> bool" where
  "sends_at_most deps query n q r r' \<longleftrightarrow>
     (\<exists>ms. hr_sent r' = hr_sent r @ ms \<and> length ms \<le> n \<and> length (filter is_query ms) \<le> q \<and> list_all (pinned deps query) ms)"

lemma sends_trans:
  "sends_at_most deps query n q a b \<Longrightarrow> sends_at_most deps query n' q' b c \<Longrightarrow> sends_at_most deps query (n + n') (q + q') a c"
  unfolding sends_at_most_def by (elim exE conjE) (rule exI, auto)

lemma sends_mono: "sends_at_most deps query n q a b \<Longrightarrow> n \<le> n' \<Longrightarrow> q \<le> q' \<Longrightarrow> sends_at_most deps query n' q' a b"
  unfolding sends_at_most_def by auto

lemma sends_session [simp]:
  "sends_at_most deps query n q a (b\<lparr>hr_session := s\<rparr>) = sends_at_most deps query n q a b"
  "sends_at_most deps query n q (a\<lparr>hr_session := s\<rparr>) b = sends_at_most deps query n q a b"
  by (simp_all add: sends_at_most_def)

lemma sends_request:
  "reader_request deps m r = (x, r') \<Longrightarrow> pinned deps query m \<Longrightarrow> sends_at_most deps query 1 (if is_query m then 1 else 0) r r'"
  by (auto simp: reader_request_def sends_at_most_def)

lemma sends_login:
  assumes "reader_login deps r = (x, r')" shows "sends_at_most deps query 2 0 r r'"
proof -
  obtain y r1 where 1: "reader_request deps (Login_start (rd_kbId deps) (rd_callbackUrl deps)) r = (y, r1)" by force
  have a: "sends_at_most deps query 1 0 r r1" using sends_request [OF 1, of query] by (simp add: pinned_def is_query_def)
  show ?thesis
  proof (cases "\<exists>c response. y = Some (R_login_challenge c) \<and> rd_createResponse deps c = Some response")
    case True
    then obtain c response where c: "y = Some (R_login_challenge c)" "rd_createResponse deps c = Some response" by blast
    obtain z r2 where 2: "reader_request deps (Login_complete (rd_kbId deps) response) r1 = (z, r2)" by force
    have b: "sends_at_most deps query 1 0 r1 r2" using sends_request [OF 2, of query] by (simp add: pinned_def is_query_def)
    have "r' = r2" using assms 1 2 c by (auto simp: reader_login_def split: option.splits reader_reply.splits)
    then show ?thesis using sends_trans [OF a b] by (simp add: numeral_2_eq_2)
  next
    case False
    then have "r' = r1" using assms 1 by (auto simp: reader_login_def split: option.splits reader_reply.splits)
    then show ?thesis using sends_mono [OF a] by simp
  qed
qed

lemma sends_ask:
  assumes "reader_ask deps query k r = (x, r')" shows "sends_at_most deps query 3 1 r r'"
proof -
  obtain t r1 where t: "reader_token deps r = (t, r1)" by force
  have a: "sends_at_most deps query 2 0 r r1"
  proof (cases "reader_live deps r")
    case None
    obtain y r0 where "reader_login deps r = (y, r0)" by force
    with sends_login [OF this, of query] t None show ?thesis by (auto simp: reader_token_def split: sum.splits)
  next
    case (Some u)
    then show ?thesis using t by (auto simp: reader_token_def sends_at_most_def)
  qed
  show ?thesis
  proof (cases t)
    case (Inl e)
    then show ?thesis using assms t sends_mono [OF a] by (auto simp: reader_ask_def)
  next
    case (Inr u)
    obtain z r2 where 2: "reader_request deps (Session_query u (rd_kbId deps) (shared_query query k)) r1 = (z, r2)" by force
    have b: "sends_at_most deps query 1 1 r1 r2" using sends_request [OF 2, of query] by (simp add: pinned_def is_query_def shared_query_def)
    have "r' = r2" using assms t Inr 2 by (auto simp: reader_ask_def split: option.splits)
    then show ?thesis using sends_trans [OF a b] by (simp add: numeral_3_eq_3)
  qed
qed

text \<open>
  C37. A call of the reader ends within six messages: at most two queries, each after at most one login, and every message is
  for the knowledge base the reader is pinned to and every query the caller's own, on the shared partition.\<close>

theorem reader_bounded_and_pinned:
  assumes "serveShared deps query k r = (result, r')"
  shows "\<exists>ms. hr_sent r' = hr_sent r @ ms \<and> length ms \<le> 6 \<and> length (filter is_query ms) \<le> 2 \<and> (\<forall>m\<in>set ms. pinned deps query m)"
proof -
  obtain x r1 where 1: "reader_ask deps query k r = (x, r1)" by force
  obtain y r2 where 2: "reader_ask deps query k (r1\<lparr>hr_session := None\<rparr>) = (y, r2)" by force
  have "r' = r1 \<or> r' = r2" using assms 1 2 by (auto simp: serveShared_def split: sum.splits reader_reply.splits if_splits)
  moreover have "sends_at_most deps query 6 2 r r1" using sends_mono [OF sends_ask [OF 1]] by simp
  moreover have "sends_at_most deps query 6 2 r r2" using sends_trans [OF sends_ask [OF 1] sends_ask [OF 2, simplified]] by (simp add: numeral_2_eq_2)
  ultimately show ?thesis by (auto simp: sends_at_most_def list_all_iff)
qed


end
