(* ===== verification/Emissary_Example.thy ===== *)
theory Emissary_Example
  imports Emissary_Daemon Emissary_Modules Held_Reader
begin

text \<open>
  A concrete Emissary that holds a root of the Sovereign \<open>S\<close>, hands a hop on and is written to, and the witnesses of the
  properties of \<open>Emissary\<close>, \<open>Emissary_Daemon\<close>, \<open>Emissary_Modules\<close> and \<open>Held_Reader\<close> at it.
\<close>

section \<open>A chain that is handed on\<close>

definition em_caveats :: caveats where
  "em_caveats = \<lparr>cv_ceiling = Some 2, cv_kinds = Some [''location''], cv_owner = Some ''S'', cv_audience = None, cv_expires = None,
     cv_singleUse = None, cv_requiresDischarge = None, cv_status = Some \<lparr>cs_statusListCredential = ''list S'', cs_statusListIndex = 3\<rparr>\<rparr>"

definition em_issue :: "did \<Rightarrow> did \<Rightarrow> string \<Rightarrow> issue_env" where
  "em_issue issuer vc ver = \<lparr>ie_issuerDid = issuer, ie_salt = ''salt'' @ vc, ie_vcDid = vc,
     ie_addProof = (\<lambda>a n. \<lparr>verificationMethod = issuer @ ''#key-1'', proofValue = ''sig'', created = ''t''\<rparr>),
     ie_versionId = ver, ie_versionSequence = 2\<rparr>"

definition em_root_args :: "caveats issue_args" where
  "em_root_args = capability_issue_args id ''S'' ''E''
     \<lparr>sp_invocationTarget = ''vault'', sp_authority = \<lparr>operations = [''prove''], resources = [''vault'']\<rparr>, sp_caveats = em_caveats\<rparr> None"

definition em_root :: "caveats minted" where
  "em_root = (case issueVc id caveats_json (em_issue ''S'' ''v1'' ''x1'') em_root_args of
     Inr (vc, pic) \<Rightarrow> \<lparr>mi_env = em_issue ''S'' ''v1'' ''x1'', mi_args = em_root_args, mi_vc = vc, mi_pic = pic\<rparr> | Inl _ \<Rightarrow> undefined)"

definition em_parent :: chain_grant where
  "em_parent = \<lparr>cg_handle = \<lparr>ch_issued = mi_vc em_root, ch_capability = \<lparr>cap_id = ''v1'', cap_controller = ''E'', cap_parentCapability = None,
       cap_invocationTarget = ''vault'', cap_authority = \<lparr>operations = [''prove''], resources = [''vault'']\<rparr>, cap_caveats = em_caveats\<rparr>\<rparr>,
     cg_ancestorDisclosures = (\<lambda>_. None)\<rparr>"

definition em_bits :: status_env where
  "em_bits = \<lparr>se_issuerDid = ''E'', se_addProof = (\<lambda>l. l), se_versionId = sl_updatedAt, se_now = ''t''\<rparr>"

definition em_env :: emissary_env where
  "em_env = \<lparr>ee_did = ''E'', ee_name = ''emissary'', ee_sovereignDid = Some ''S'', ee_hash = id, ee_coll = id, ee_now = ''t'', ee_newId = ''n'',
     ee_newStatusList = Some (''list E'', []), ee_newAllocation = Some ''alloc'', ee_allocate = (\<lambda>_. Some 7),
     ee_issueEnv = em_issue ''E'' ''v2'' ''x2'', ee_gz = (\<lambda>_. []), ee_gunz = (\<lambda>_. None), ee_status = em_bits,
     ee_send = (\<lambda>_. True), ee_approval = (\<lambda>_ a. ac_resource a = Some ''F''), ee_relay = (\<lambda>_ _ _. None), ee_put = True\<rparr>"

definition em_start :: emissary_state where
  "em_start = \<lparr>em_held = [em_parent], em_issued = [], em_context = None, em_lists = (\<lambda>_. []), em_pending = [(''th'', ''location'')],
     em_receipts = [], em_projections = [], em_sent = [], em_emitted = []\<rparr>"

definition em_request :: delegate_request where
  "em_request = \<lparr>dq_holderDid = ''F'', dq_ceiling = Some 1, dq_kinds = None, dq_target = None, dq_leafVcDid = None\<rparr>"

definition em_handed :: "chain_grant \<times> issued_hop" where
  "em_handed = (case fst (delegateHeldOnward em_env em_request em_start) of Inr r \<Rightarrow> r | Inl _ \<Rightarrow> undefined)"

definition em_after :: emissary_state where
  "em_after = snd (delegateHeldOnward em_env em_request em_start)"

definition em_archon :: archon where
  "em_archon = \<lparr>resolveDID = (\<lambda>d ver. if d = ''v2'' then Some (published (minted_child em_env em_parent (fst em_handed)))
       else if d = ''v1'' then Some (published em_root) else None),
     verifyProof = (\<lambda>a. aa_proof a \<noteq> None)\<rparr>"

definition em_opts :: capability_verify_options where
  "em_opts = \<lparr>co_expectedRootIssuer = Some ''S'', co_disclosed = Some (disclosedFor em_parent), co_maxHops = None, co_requireFullDisclosure = True,
     co_requireStatus = True, co_checkHopStatus = Some (\<lambda>_ _. St_ok)\<rparr>"

lemma em_delegated: "delegateHeldOnward em_env em_request em_start = (Inr em_handed, em_after)"
proof -
  have "(case fst (delegateHeldOnward em_env em_request em_start) of Inr _ \<Rightarrow> True | Inl _ \<Rightarrow> False)" by code_simp
  then show ?thesis by (auto simp: em_handed_def em_after_def prod_eq_iff split: sum.splits)
qed

lemma em_facts:
  "select_held None (em_held em_start) = Some em_parent" "grant_leaf (fst em_handed) = ''v2''" "iv_vcDid (mi_vc em_root) = ''v1''"
  "cv_kinds (sp_caveats (child_spec em_parent em_request)) = Some [''location'']"
proof -
  show "select_held None (em_held em_start) = Some em_parent" by (simp add: select_held_def latest_held_def em_start_def)
qed code_simp+

lemma em_held_chain: "held_chain id id em_archon em_opts em_parent [em_root]"
proof -
  have "honest id caveats_json em_archon (chain_options em_opts) em_root" by code_simp
  moreover have "iv_caveats (mi_vc em_root) = Some (normalizeCaveats id em_caveats)" "iv_holder (mi_vc em_root) = ''E''"
    "ia_parent (mi_args em_root) = None" "ie_issuerDid (mi_env em_root) = ''S''" by code_simp+
  ultimately show ?thesis by (simp add: held_chain_def em_parent_def em_opts_def)
qed

lemma em_serves: "serves_child em_archon em_opts em_env em_parent em_root (fst em_handed)"
proof -
  let ?a = "issue_assertion (ee_issueEnv em_env) (child_args em_env em_parent (fst em_handed)) (iv_authorityCommitment (ch_issued (cg_handle (fst em_handed))))"
  have i: "ie_issuerDid (ee_issueEnv em_env) = ''E''" "grant_leaf em_parent = ''v1''" by code_simp+
  have v: "archon.verifyProof em_archon ?a" "signerOf ?a = ''E''" "grant_leaf em_parent = ''v1''" "ie_issuerDid (ee_issueEnv em_env) = ''E''"
    using i by (simp_all add: em_archon_def issue_assertion_def signerOf_def child_args_def capability_issue_args_def em_env_def em_issue_def before_hash_def)
  have r: "resolveDID em_archon ''v2'' None = Some (published (minted_child em_env em_parent (fst em_handed)))"
    "resolveDID em_archon ''v1'' (Some n) = Some (published em_root)" for n
    unfolding em_archon_def by simp_all
  have st: "status_ok (chain_options em_opts) c d" for c d by (simp add: status_ok_def chain_options_def em_opts_def)
  show ?thesis unfolding serves_child_def Let_def em_facts(2) v(3) using v(1,2) unfolding v(4) by (simp only: r st) simp
qed

lemma handed_on_chain_accepted_witness:
  "\<exists>au c. verifyCapabilityChain id em_archon (presenting (fst em_handed) em_opts) ''v2'' = Accepted 2 ''F'' au (Some c) \<and>
     caveatsNarrow c (normalizeCaveats id em_caveats)"
proof -
  have d: "delegateHeldOnward em_env em_request em_start = (Inr (fst em_handed, snd em_handed), em_after)" using em_delegated by simp
  have s: "select_held (dq_leafVcDid em_request) (em_held em_start) = Some em_parent" using em_facts(1) by (simp add: em_request_def)
  have h: "held_chain (ee_hash em_env) (ee_coll em_env) em_archon em_opts em_parent [em_root]" using em_held_chain by (simp add: em_env_def)
  have x: "serves_child em_archon em_opts em_env em_parent (hd [em_root]) (fst em_handed)" using em_serves by simp
  have "length [em_root] < (case co_maxHops em_opts of Some n \<Rightarrow> n | None \<Rightarrow> 64)" by (simp add: em_opts_def)
  moreover have "grant_leaf (fst em_handed) \<notin> (\<lambda>m. iv_vcDid (mi_vc m)) ` set [em_root]" using em_facts by simp
  moreover have "cv_kinds (sp_caveats (child_spec em_parent em_request)) \<noteq> Some []" using em_facts(4) by simp
  moreover have "ee_hash em_env = id" "ee_coll em_env = id" "dq_holderDid em_request = ''F''" "cap_caveats (ch_capability (cg_handle em_parent)) = em_caveats"
    by (simp_all add: em_env_def em_request_def em_parent_def)
  ultimately show ?thesis using handed_on_chain_accepted [OF d s h x] em_facts(2) by (auto simp: numeral_2_eq_2)
qed

section \<open>The mailbox and the writes\<close>

definition em_mail :: "string \<Rightarrow> inbound_body \<Rightarrow> inbound" where
  "em_mail i b = \<lparr>in_id = Some i, in_from = ''S'', in_thid = Some ''th'', in_body = b\<rparr>"

text \<open>A grant that cannot be stored, and is delivered again.\<close>

definition em_steps :: "loop_step list" where
  "em_steps = [Pass True (\<lambda>_. em_env\<lparr>ee_put := False\<rparr>) [em_mail ''m1'' (I_chain_grant (Some em_parent))], Pass True (\<lambda>_. em_env) [],
     Write em_env (Job_delegate em_request)]"


definition em_asked :: "gate_input list" where
  "em_asked = [In_approve ''i1'' ((bare_context ''E'')\<lparr>ax_action := Some (write_action (Job_delegate em_request))\<rparr>), In_decide ''i1'' True (Some ''1234'')]"

definition em_gate :: signet_gate where
  "em_gate ctx = (if ctx = (bare_context ''E'')\<lparr>ax_action := Some (write_action (Job_delegate em_request))\<rparr>
     then Some \<lparr>pa_method = ''pin'', pa_level = 1\<rparr> else None)"

lemma em_browser: "browser_gate ''1234'' em_asked em_gate"
proof -
  have "hg_settled (http_run ''1234'' em_asked) = [(''i1'', Some \<lparr>pa_method = ''pin'', pa_level = 1\<rparr>)]" by code_simp
  then show ?thesis by (auto simp: browser_gate_def em_gate_def em_asked_def asked_ids_def split: if_splits)
qed

definition em_signet :: signet_env where
  "em_signet = \<lparr>sg_hash = id, sg_currentId = Some ''S'', sg_createResponse = (\<lambda>_. None), sg_proveApproval = (\<lambda>_. None),
     sg_proveRuleset = (\<lambda>_. None), sg_proveDischarge = (\<lambda>_. None), sg_unwrap = (\<lambda>_. None), sg_seal = (\<lambda>_ _. None), sg_now = ''t''\<rparr>"

definition em_governed :: emissary_env where
  "em_governed = em_env\<lparr>ee_approval := (\<lambda>_ act. fst (watch_handler em_signet em_gate None ''S'' ''t'' ''E'' (W_action_approval act) empty_watch) = Action_approved True)\<rparr>"


section \<open>Submissions\<close>

definition em_ops :: submit_ops where
  "em_ops = \<lparr>so_base64 = id, so_createImage = (\<lambda>_. Some ''image''), so_sealForWarden = (\<lambda>w p. Some ''sealed''), so_presentProof = (\<lambda>c. Some (''proof '' @ c)),
     so_uuid = ''th2'', so_now = ''t'', so_sends = True\<rparr>"

definition em_daemon :: daemon where
  "em_daemon = \<lparr>dm_state = em_start, dm_challenge = Some ''ch'', dm_challengeExp = 0, dm_accepted = [], dm_submitted = []\<rparr>"

definition em_image :: submit_request where
  "em_image = \<lparr>sq_kind = ''image'', sq_text = None, sq_attachment = Some (''image/png'', ''abcd'')\<rparr>"

lemma submission_bounded_and_delegated_witness:
  "\<exists>sub. dm_submitted (snd (submit_route em_ops (Some ''W'') em_image em_daemon)) = [(''th2'', sub)] \<and> sb_delegationProof sub = Some ''proof ch'' \<and>
     length (so_base64 em_ops ''abcd'') \<le> 8388608"
proof -
  have r: "submit_route em_ops (Some ''W'') em_image em_daemon =
      (Inr \<lparr>rr_id = ''th2'', rr_kind = ''image'', rr_status = ''submitted'', rr_sensitivityName = None, rr_at = ''t''\<rparr>,
       snd (submit_route em_ops (Some ''W'') em_image em_daemon))"
  proof -
    have "fst (submit_route em_ops (Some ''W'') em_image em_daemon) =
      Inr \<lparr>rr_id = ''th2'', rr_kind = ''image'', rr_status = ''submitted'', rr_sensitivityName = None, rr_at = ''t''\<rparr>"
      by (simp add: submit_route_def submit_payload_of_def MAX_BYTES_def em_image_def em_daemon_def em_ops_def Let_def)
    then show ?thesis by (simp add: prod_eq_iff)
  qed
  from submission_bounded_and_delegated [OF r]
  show ?thesis by (auto simp: em_image_def em_daemon_def em_ops_def)
qed

definition em_replies :: "(emissary_env \<times> inbound) list" where
  "em_replies = [(em_env, em_mail ''m1'' (I_submission_receipt True None ''t'')), (em_env, em_mail ''m1'' (I_submission_receipt True None ''t''))]"

lemma submission_settled_once_witness:
  "\<exists>st kept. drain em_replies em_start = (st, kept) \<and> length (thread_receipts ''th'' st) = 1 \<and> map_of (em_pending st) ''th'' = None"
proof -
  obtain st kept where d: "drain em_replies em_start = (st, kept)" by force
  have "map_of (em_pending em_start) ''th'' = Some ''location''" "''th'' \<noteq> []" by (simp_all add: em_start_def)
  note s = submission_settled_once [OF d this]
  have "\<exists>(env, m)\<in>set em_replies. answers env m ''th''" by (simp add: em_replies_def answers_def em_mail_def)
  with s d show ?thesis by (auto simp: thread_receipts_def em_start_def)
qed

section \<open>Modules and the reader\<close>

definition em_module :: "string \<Rightarrow> string \<Rightarrow> (nat, nat) capability_module" where
  "em_module name ty = \<lparr>mo_name = name, mo_routes = [(''GET /api/'' @ name, 1)], mo_messages = [(ty, 2)]\<rparr>"

lemma em_module_ok: "\<forall>m\<in>set [em_module ''a'' ''x'', em_module ''b'' ''y'']. module_ok m"
  by (simp add: module_ok_def em_module_def)

lemma em_collision_free: "collision_free [em_module ''a'' ''x'', em_module ''b'' ''y'']"
  by (simp add: collision_free_def route_keys_def type_keys_def em_module_def)

lemma composes_iff_collision_free_witness:
  "\<exists>rt. compose [em_module ''a'' ''x'', em_module ''b'' ''y''] empty_runtime = Inr rt \<and> loadout rt = [''a'', ''b'']"
  using composes_iff_collision_free [OF em_module_ok] em_collision_free by (auto simp: em_module_def split: sum.splits)

lemma em_composes: "\<exists>rt. compose [em_module ''a'' ''x'', em_module ''b'' ''y''] empty_runtime = Inr rt"
  using composes_from_empty [OF em_module_ok] em_collision_free by (auto split: sum.splits)

lemma loadout_order_irrelevant_witness:
  "\<exists>rt rt'. compose [em_module ''a'' ''x'', em_module ''b'' ''y''] empty_runtime = Inr rt \<and>
     compose [em_module ''b'' ''y'', em_module ''a'' ''x''] empty_runtime = Inr rt' \<and> dispatch_table rt' = dispatch_table rt"
proof -
  obtain rt where rt: "compose [em_module ''a'' ''x'', em_module ''b'' ''y''] empty_runtime = Inr rt" using em_composes by blast
  from loadout_order_irrelevant [OF em_module_ok rt, of "[em_module ''b'' ''y'', em_module ''a'' ''x'']"] rt show ?thesis by auto
qed

text \<open>A reader whose first session is refused as expired.\<close>

definition em_deps :: reader_deps where
  "em_deps = \<lparr>rd_request = (\<lambda>n m. case m of Login_start _ _ \<Rightarrow> Some (R_login_challenge ''c'') | Login_complete _ _ \<Rightarrow> Some (R_session ''tok'' (Some 1000000))
       | Session_query _ _ _ \<Rightarrow> Some (if n < 4 then R_kb_error ''Session expired'' else R_query_result (Answered ''answer'') [])),
     rd_kbId = ''kb'', rd_createResponse = Some, rd_callbackUrl = ''cb'', rd_now = (\<lambda>_. 0)\<rparr>"

lemma reader_bounded_and_pinned_witness:
  "\<exists>ms r. serveShared em_deps ''q'' None \<lparr>hr_session = None, hr_sent = []\<rparr> = (Inr (Answered ''answer'', []), r) \<and> hr_sent r = ms \<and>
     length ms \<le> 6 \<and> list_all (pinned em_deps ''q'') ms"
proof -
  have "stale_reason ''Session expired''" by code_simp
  then have "fst (serveShared em_deps ''q'' None \<lparr>hr_session = None, hr_sent = []\<rparr>) = Inr (Answered ''answer'', [])"
    by (simp add: serveShared_def reader_ask_def reader_token_def reader_live_def reader_login_def reader_request_def reader_answer_def em_deps_def)
  then obtain r where r: "serveShared em_deps ''q'' None \<lparr>hr_session = None, hr_sent = []\<rparr> = (Inr (Answered ''answer'', []), r)"
    by (metis prod.collapse)
  from reader_bounded_and_pinned [OF r] r show ?thesis by (auto simp: list_all_iff)
qed

end
