(* ===== verification/Reader_Example.thy ===== *)
theory Reader_Example
  imports Held_Reader Kb_Example
begin

text \<open>The held reader in front of the concrete knowledge base of \<open>Kb_Example\<close>, logged in as \<open>B\<close>.\<close>

definition rx_state :: kb_state where
  "rx_state = kx_full\<lparr>ks_sessions := [''tok'' \<mapsto> (''B'', 100)]\<rparr>"

definition rx_deps :: reader_deps where
  "rx_deps = \<lparr>rd_request = (\<lambda>n m. case m of
         Session_query t k req \<Rightarrow> (if req = shared_query ''q'' None \<and> t = ''tok'' then Some (R_query_result (Answered ''answer'') [kx_citation]) else None)
       | _ \<Rightarrow> None),
     rd_kbId = ''kb'', rd_createResponse = Some, rd_callbackUrl = ''cb'', rd_now = (\<lambda>_. 0)\<rparr>"

definition rx_reader :: held_reader where
  "rx_reader = \<lparr>hr_session = Some (''tok'', Some 100000), hr_sent = []\<rparr>"

lemma rx_served: "serveWithSession kx kx_cfg ''kb'' ''tok'' (shared_query ''q'' None) rx_state = (Kb_answer (Answered ''answer'') [kx_citation], rx_state)"
proof -
  have r: "rankByQuery [1] [kx_entry] \<lparr>ro_k = Some 5, ro_maxSensitivity = Some 2, ro_kb = Kb_set [''kb''], ro_owner = None\<rparr> = [(kx_entry, 1)]"
    by (simp add: rankByQuery_def slice0_def in_scope_def kb_match_def owner_match_def kx_entry_def cosineSimilarity_def)
  have o: "readable kx_recall f [kx_artefact] (kx_entry, 1) = Some (''2026'', ''t'', kc_citation kx_citation)" for f
    by (simp add: readable_def resolve_content_def vault_get_def get_by_def kx_artefact_def kx_entry_def kx_recall_def citation_of_def kx_citation_def)
  have rec: "recall kx_recall f [kx_artefact] [kx_entry] q \<lparr>ro_k = Some 5, ro_maxSensitivity = Some 2, ro_kb = Kb_set [''kb''], ro_owner = None\<rparr> =
     (Answered ''answer'', [kc_citation kx_citation])" for f q
    using o by (simp add: recall_def r map_filter_simps) (simp add: kx_recall_def r map_filter_simps)
  have v: "visible_set kx kx_cfg rx_state ''B'' (shared_query ''q'' None) = [''kb'']"
    by (simp add: visible_set_def authorized_iff) (simp add: rx_state_def kx_full_def kx_defs)
  have c: "kb_ceiling kx kx_cfg rx_state ''B'' = 2" by (simp add: kb_ceiling_def required_tier_policy kx_cfg_def)
  have l: "label_citation kx_cfg None [kx_artefact] (kc_citation kx_citation) = kx_citation"
    by (simp add: label_citation_def vault_get_def get_by_def kx_artefact_def kx_citation_def kx_cfg_def)
  have f: "ks_vault rx_state = [kx_artefact]" "ks_index rx_state = [kx_entry]" "ke_recall kx = kx_recall"
      "kq_k (shared_query ''q'' None) = Some 5" "kq_query (shared_query ''q'' None) = Some ''q''" "kq_action (shared_query ''q'' None) = Query"
    by (simp_all add: rx_state_def kx_full_def kx_env_def shared_query_def)
  have "serve_query kx kx_cfg ''B'' (shared_query ''q'' None) (Some ''tok'') rx_state = Kb_answer (Answered ''answer'') [kx_citation]"
    unfolding serve_query_def v c kx_assured kx_own f by (simp add: Let_def rec l)
  then have "kb_execute kx kx_cfg ''B'' (shared_query ''q'' None) (Some ''tok'') rx_state = (Kb_answer (Answered ''answer'') [kx_citation], rx_state)"
    by (simp add: kb_execute_def f(6))
  moreover have "ks_sessions rx_state ''tok'' = Some (''B'', 100)" "kf_kbId kx_cfg = ''kb''" "ke_now kx = 0"
    by (simp_all add: rx_state_def kx_cfg_def kx_env_def)
  ultimately show ?thesis by (simp add: serveWithSession_def)
qed


end
