(* ===== verification/Spec2Isabelle.thy ===== *)
theory Spec2Isabelle
  imports Chain_Example Monitor_Example Service_Example Ruleset_Example Mesh_Example Agent_Example Pairwise_Example
    Transport_Example Kb_Example Guardian_Example Allocation Control_Example Signet_Example Emissary_Example
    Reader_Example
begin

text \<open>
  A verification development for Hearthold: capability-based custody of personal evidence on top of the Archon
  node and the Keymaster wallet. This theory imports all others and states what they model.

  \<^bold>\<open>The program.\<close> A Warden keeps the vault of a Sovereign and discloses evidence drawn from it. Authority is a
  chain of capability credentials, each hop signed by the holder its parent named and narrower than its parent; an
  Emissary holds the leaf, delegates parts of it to other agents and invokes it; the Warden's reference monitor resolves
  the invocation to a leaf, checks the act, collects the consent it needs from the Sovereign's Signet, where the owner
  answers with a PIN, and discloses a Merkle-committed evidence graph once. Rulesets are signed version
  chains that govern guardians, agents and assurance. Wardens of different Sovereigns answer each other over a
  recognition mesh. A Held member reads a knowledge base through a Warden. Messages travel over DIDComm mailboxes.

  \<^bold>\<open>Theories and sources\<close> (under \<open>packages/\<close>):
  \<^item> \<open>Prelude\<close>: JavaScript primitives (truthiness, sets, joins, first failing guard) and shared lemmas.
  \<^item> \<open>Security\<close> (\<open>core/src/security.ts\<close>): sensitivities, tiers, clearance, release decisions.
  \<^item> \<open>Canonical_Json\<close>, \<open>Attenuation\<close>, \<open>Attenuation_Chain\<close> (\<open>core/src/attenuation.ts\<close>): canonical text, authority
    sets, commitments, \<open>issueVc\<close> and the chain walk of \<open>verifyAttenuationChain\<close>.
  \<^item> \<open>Capability\<close>, \<open>Capability_Chain\<close> (\<open>core/src/capability.ts\<close>, \<open>capability-chain.ts\<close>): caveats, narrowing,
    delegation and the capability form of the chain verifier.
  \<^item> \<open>Single_Use\<close> (\<open>core/src/single-use.ts\<close>), \<open>Challenge_Store\<close> (\<open>warden/src/challenge-store.ts\<close>): the two stores that
    burn; locales \<open>spent_ledger\<close> and \<open>challenge_gate\<close> state what their clients rely on, interpreted on both models.
  \<^item> \<open>Status_List\<close> (\<open>core/src/status-list.ts\<close>): bitstrings, publication, revocation, cached checks and audit.
  \<^item> \<open>Prove\<close> (\<open>core/src/prove.ts\<close>): proof requests and the verification of scrolls.
  \<^item> \<open>Invocation_Monitor\<close>, \<open>Invocation_Resolution\<close> (\<open>core/src/invocation-monitor.ts\<close>): resolution of single credentials
    and chains, discharges, \<open>authorizeInvocation\<close>.
  \<^item> \<open>Merkle\<close>, \<open>Evidence_Graph\<close> (\<open>core/src/evidence.ts\<close>), \<open>Evidence_Service\<close> (\<open>warden/src/evidence.ts\<close>): assembly and
    selective revelation of evidence, and the Warden's whole disclosure flow.
  \<^item> \<open>Escalation\<close> (\<open>core/src/escalation.ts\<close>), \<open>Agent_Authority\<close> (\<open>warden/src/spend.ts\<close>, \<open>sovereign/src/agent-gate.ts\<close> and
    \<open>AgentGate\<close> of \<open>signet.ts\<close>): which Signet decides, and what an agent may do unasked.
  \<^item> \<open>Ruleset\<close> (\<open>core/src/ruleset.ts\<close>): signed version chains, the amendment rule, guardian and actor decisions.
  \<^item> \<open>Selective_Disclosure\<close> (\<open>core/src/selective-disclosure.ts\<close>), \<open>Mesh\<close> (\<open>core/src/mesh.ts\<close>): recognitions and the mesh.
  \<^item> \<open>Pairwise\<close> (\<open>core/src/pairwise.ts\<close>, \<open>warden/src/pairwise-store.ts\<close>, \<open>mintPairwiseGrant\<close>): one DID per audience.
  \<^item> \<open>Transport\<close> (\<open>core/src/transport.ts\<close>): the mailbox reader as events between awaits.
  \<^item> \<open>Trust_Registry\<close> (\<open>core/src/trust-registry.ts\<close>): the evaluators over groups and over HTTP, the assurance policy.
  \<^item> \<open>Recall\<close> (\<open>warden/src/store.ts\<close>, \<open>index-store.ts\<close>, \<open>recall.ts\<close>, \<open>core/src/recall.ts\<close>): the vault and the index as
    instances of the locale \<open>record_store\<close>, ranking, recall.
  \<^item> \<open>Kb_Service\<close>, \<open>Kb_Runs\<close>, \<open>Kb_Documents\<close> (\<open>warden/src/kb.ts\<close>, \<open>kb-config.ts\<close>, \<open>partition-store.ts\<close>, \<open>rewrap.ts\<close>,
    \<open>core/src/kb.ts\<close>): the knowledge base, its reachable states, the life of a document.
  \<^item> \<open>Guardianship\<close> (\<open>warden/src/guardianship.ts\<close> and its routes in \<open>control.ts\<close>): edges, reads, receipts.
  \<^item> \<open>Allocation\<close> (\<open>core/src/allocation.ts\<close>): status-list indices by optimistic writes, with any interleaving.
  \<^item> \<open>Control_Session\<close> (\<open>warden/src/control-session.ts\<close>, \<open>session-keys.ts\<close>): sessions, with the locale \<open>session_gate\<close>, and the
    partition keys held under them.
  \<^item> \<open>Vault_Custody\<close> (\<open>warden/src/face.ts\<close>, \<open>triage.ts\<close>, \<open>marks.ts\<close>, \<open>household*.ts\<close>, \<open>credential-vault.ts\<close>,
    \<open>inbound-card-store.ts\<close>, \<open>core/src/issued.ts\<close>): what the Warden does with the items of its members and with cards.
  \<^item> \<open>Submission\<close> (\<open>warden/src/delegations.ts\<close>, \<open>handler.ts\<close>, \<open>service.ts\<close>, \<open>core/src/credentials.ts\<close>, \<open>schema.ts\<close>): delegations
    and what Emissaries submit under them.
  \<^item> \<open>Control_Plane\<close>, \<open>Control_Safety\<close>, \<open>Control_Gaps\<close> (\<open>warden/src/control.ts\<close>, \<open>escalate.ts\<close>, \<open>core/src/control-server.ts\<close>):
    the routes over one state that joins the stores above, what they keep, and where they do not keep what they say.
  \<^item> \<open>Lineage\<close> (\<open>core/src/lineage.ts\<close>, \<open>closure.ts\<close>): the provenance walk over claims and sources, and the keeps whose
    closure reveals what they were assembled from.
  \<^item> \<open>Signet\<close> (\<open>sovereign/src/signet.ts\<close>, \<open>http-gate.ts\<close>, \<open>handler.ts\<close>): the PIN, the pending approvals and requests, the
    DIDComm handler that answers a Warden.
  \<^item> \<open>Sovereign_Watch\<close> (\<open>sovereign/src/lineage-store.ts\<close>, watch handler of \<open>control.ts\<close>): the records a Sovereign keeps of
    what is done below it, and the lineage it reads off the chain.
  \<^item> \<open>Sovereign_Control\<close> (\<open>sovereign/src/capability-grants.ts\<close>, routes of \<open>control.ts\<close>, \<open>core/src/capability-vc.ts\<close>): issue,
    list and revocation of capabilities behind the PIN.
  \<^item> \<open>Emissary\<close>, \<open>Emissary_Daemon\<close> (\<open>emissary/src/chain.ts\<close>, \<open>invoke.ts\<close>, \<open>handler.ts\<close>, \<open>control.ts\<close>): the chains an agent
    holds and hands on, its store of grants, submissions, receipts, co-signed writes.
  \<^item> \<open>Emissary_Modules\<close> (\<open>emissary/src/module.ts\<close>): composition of modules over one handler table.
  \<^item> \<open>Held_Reader\<close> (\<open>emissary/src/held-reader.ts\<close>, \<open>kb-relay.ts\<close>): the reader of a Held member and the relay it asks.
  \<^item> \<open>*_Example\<close>: concrete inputs at which the hypotheses of the properties hold.

  \<^bold>\<open>Correspondence.\<close> Definitions keep the source's names; a definition without a namesake is a block of the function
  its map entry names. An interface is a \<open>record\<close>, a union a \<open>datatype\<close>, an optional field an \<open>option\<close>, a string a list
  of code units, a number an \<open>int\<close> (\<open>rat\<close> for confidences, \<open>js_number\<close> where infinities and NaN matter). A thrown error
  and a refusal are values (\<open>Inl\<close>, \<open>None\<close>, \<open>Threw\<close>); mutable stores are passed as states. Collaborators outside the
  repository are parameters: SHA-256 is a function \<open>H\<close> and the conclusions say "equal, or a collision"; the Archon node,
  the wallet, signatures, clocks, randomness and the local models are functions or fields of environment records, with
  what is relied on as named hypotheses.

  \<^bold>\<open>What is shown.\<close> Chains: attenuation, liveness of every hop, exact acceptance, honest chains accepted. Monitor:
  exact decision, no replay, consent bound to its act, presentations used once. Evidence: grants inside the capability,
  only committed leaves verify. Rulesets: exact verification, the operative version as the last lawful one, guardian
  reads acknowledged. Mesh: answers only from open rungs, closed rungs invisible, forwarding terminates without
  cycles, confidence not amplified. Agents: unasked spends and acts inside a parent-signed allowance. Pairwise:
  audiences unlinkable. Transport: nothing lost, authenticated handlers, progress. Knowledge base: queries cite and
  depend on the caller's partitions only, requests are admitted once, the stores agree, documents read as put. Control plane: sessions
  stand for proven DIDs over every sequence of requests, answers do not depend on what others keep private, disclosure
  under the ladder, only verified cards imported, removal immediate. Submissions: only under a live delegation,
  quarantined ones inert. Signet: each request is answered once and only by the PIN, what is signed is what was shown,
  every sensitive act at the Sovereign needs the PIN, its inventory is what the status lists say, its watch records are
  authentic and its lineage is the one of the verified chain. Emissary: a chain handed on is one the verifier accepts,
  no stored grant is lost by the mailbox, co-signed writes carry an approval of the owner, submissions are bounded and
  delegated, modules compose exactly when they do not collide. Held reader: answers are bounded, pinned to the shared
  partition and cite nothing else. Properties of kind \<open>error\<close> state
  what the code does where it does not do what it says; the list of findings names the lines.

  \<^bold>\<open>Bounds and termination.\<close> The chain walk takes the verifier's own \<open>maxHops\<close> as its fuel, and acceptance is shown to
  be exactly that of well-formed chains of at most that length. \<open>Mesh.route\<close> takes fuel; one more than the remaining
  depth is shown to be enough and more fuel changes nothing. All other recursions are structural or have a measure.
  Status lists have the source's 131072 bits.

  \<^bold>\<open>Not modelled.\<close> Cryptography, the node, the wallet, the language models, HTTP and DIDComm wire formats (outside the
  repository); terminal and web interfaces, scripts, the wiring of the processes at startup, event streams and read-only
  views of the control servers, concurrent logins of one reader, endpoint publication, the delivery of foreign
  credentials through a DMZ node.
\<close>

end
